(* ===== verification/Prelude.thy ===== *)
theory Prelude
  imports Main "HOL-Library.Word"
begin

text \<open>
  Shared vocabulary of the development: thrown errors as values, Node buffers as byte lists with
  the read and write methods the sources call, the little- and big-endian numbers those methods
  exchange, and JavaScript's 32-bit integer operators on the numbers they are applied to.
\<close>

unbundle bit_operations_syntax

named_theorems buf_simps \<open>length and shape facts of buffer operations\<close>
named_theorems codec_laws \<open>decoding an encoded value at an offset\<close>

section \<open>Errors\<close>

text \<open>A thrown JavaScript error: a plain \<open>Error\<close> or \<open>TypeError\<close> with the text the source gives
  it, the \<open>RangeError\<close> of an out-of-range buffer access, and a failed \<open>assert\<close>.\<close>

datatype js_error =
    JsError string
  | JsTypeError string
  | JsRangeError
  | JsAssert string

type_synonym 'a res = "js_error + 'a"

definition rbind :: "('e + 'a) \<Rightarrow> ('a \<Rightarrow> 'e + 'b) \<Rightarrow> 'e + 'b" where
  "rbind m f = (case m of Inl e \<Rightarrow> Inl e | Inr x \<Rightarrow> f x)"

lemma rbind_simps [simp]:
  "rbind (Inl e) f = Inl e"
  "rbind (Inr x) f = f x"
  by (simp_all add: rbind_def)

lemma rbind_Inr_iff [simp]: "rbind m f = Inr y \<longleftrightarrow> (\<exists>x. m = Inr x \<and> f x = Inr y)"
  by (cases m) simp_all

lemma rbind_Inl_iff: "rbind m f = Inl e \<longleftrightarrow> m = Inl e \<or> (\<exists>x. m = Inr x \<and> f x = Inl e)"
  by (cases m) auto

lemma rbind_cong [fundef_cong]:
  "m = m' \<Longrightarrow> (\<And>x. m' = Inr x \<Longrightarrow> f x = g x) \<Longrightarrow> rbind m f = rbind m' g"
  by (cases m') simp_all

text \<open>\<open>xs.map(f)\<close> and \<open>xs.forEach(f)\<close> with a callback that may throw.\<close>

fun rmap :: "('a \<Rightarrow> 'e + 'b) \<Rightarrow> 'a list \<Rightarrow> 'e + 'b list" where
  "rmap f [] = Inr []"
| "rmap f (x # xs) = rbind (f x) (\<lambda>y. rbind (rmap f xs) (\<lambda>ys. Inr (y # ys)))"

fun rfold :: "('a \<Rightarrow> 's \<Rightarrow> 'e + 's) \<Rightarrow> 'a list \<Rightarrow> 's \<Rightarrow> 'e + 's" where
  "rfold f [] s = Inr s"
| "rfold f (x # xs) s = rbind (f x s) (rfold f xs)"

lemma rmap_length: "rmap f xs = Inr ys \<Longrightarrow> length ys = length xs"
  by (induction xs arbitrary: ys) auto

lemma rmap_nth: "rmap f xs = Inr ys \<Longrightarrow> i < length xs \<Longrightarrow> f (xs ! i) = Inr (ys ! i)"
  by (induction xs arbitrary: ys i) (auto simp: nth_Cons split: nat.splits)

lemma rfold_append: "rfold f (xs @ ys) s = rbind (rfold f xs s) (rfold f ys)"
proof (induction xs arbitrary: s)
  case (Cons x xs)
  then show ?case by (cases "f x s") simp_all
qed simp

lemma rfold_invariant:
  assumes "rfold f xs s = Inr t" "P s"
    and "\<And>x s t. x \<in> set xs \<Longrightarrow> P s \<Longrightarrow> f x s = Inr t \<Longrightarrow> P t"
  shows "P t"
  using assms
proof (induction xs arbitrary: s)
  case (Cons x xs)
  then obtain u where u: "f x s = Inr u" "rfold f xs u = Inr t" by auto
  have "P u" using Cons.prems u by auto
  then show ?case using Cons.IH [OF u(2)] Cons.prems(3) by auto
qed simp

section \<open>Bytes and buffers\<close>

type_synonym byte = "8 word"
type_synonym buffer = "byte list"

primrec le_bytes :: "nat \<Rightarrow> nat \<Rightarrow> buffer" where
  "le_bytes 0 v = []"
| "le_bytes (Suc n) v = word_of_nat (v mod 256) # le_bytes n (v div 256)"

primrec le_nat :: "buffer \<Rightarrow> nat" where
  "le_nat [] = 0"
| "le_nat (b # bs) = unat b + 256 * le_nat bs"

definition be_bytes :: "nat \<Rightarrow> nat \<Rightarrow> buffer" where
  "be_bytes n v = rev (le_bytes n v)"

definition be_nat :: "buffer \<Rightarrow> nat" where
  "be_nat bs = le_nat (rev bs)"

lemma length_le_bytes [simp, buf_simps]: "length (le_bytes n v) = n"
  by (induction n arbitrary: v) simp_all

lemma length_be_bytes [simp, buf_simps]: "length (be_bytes n v) = n"
  by (simp add: be_bytes_def)

lemma unat_byte_lt [simp]: "unat (b :: byte) < 256"
  using unsigned_less [of b, where ?'a = nat] by simp

lemma unat_byte_le [simp]: "unat (b :: byte) \<le> 255"
  using unat_byte_lt [of b] by linarith

lemma unat_word_of_nat_byte [simp]: "unat (word_of_nat v :: byte) = v mod 256"
  by (simp add: unat_of_nat)

lemma byte_of_unat [simp]: "word_of_nat (unat (b :: byte)) = b"
  by simp

lemma le_nat_le_bytes: "le_nat (le_bytes n v) = v mod 256 ^ n"
  by (induction n arbitrary: v) (simp_all add: mod_mult2_eq)

lemma le_nat_le_bytes_small [simp]: "v < 256 ^ n \<Longrightarrow> le_nat (le_bytes n v) = v"
  by (simp add: le_nat_le_bytes)

lemma le_bytes_mod: "le_bytes n (v mod 256 ^ n) = le_bytes n v"
  by (induction n arbitrary: v) (simp_all add: mod_mult2_eq)

lemma le_nat_bound: "le_nat bs < 256 ^ length bs"
proof (induction bs)
  case (Cons b bs)
  have "unat b + 256 * le_nat bs < 256 + 256 * le_nat bs" by simp
  also have "\<dots> = 256 * Suc (le_nat bs)" by simp
  also have "\<dots> \<le> 256 * 256 ^ length bs" using Cons by (intro mult_le_mono2) simp
  finally show ?case by simp
qed simp

lemma le_bytes_le_nat [simp]: "le_bytes (length bs) (le_nat bs) = bs"
  by (induction bs) simp_all

lemma le_nat_append: "le_nat (xs @ ys) = le_nat xs + 256 ^ length xs * le_nat ys"
  by (induction xs) (simp_all add: algebra_simps)

lemma le_bytes_append: "le_bytes (m + n) v = le_bytes m v @ le_bytes n (v div 256 ^ m)"
  by (induction m arbitrary: v) (simp_all add: div_mult2_eq)

lemma le_nat_inj: "length xs = length ys \<Longrightarrow> le_nat xs = le_nat ys \<Longrightarrow> xs = ys"
  using le_bytes_le_nat [of xs] le_bytes_le_nat [of ys] by metis

lemma be_nat_be_bytes [simp]: "v < 256 ^ n \<Longrightarrow> be_nat (be_bytes n v) = v"
  by (simp add: be_nat_def be_bytes_def)

lemma be_bytes_be_nat [simp]: "be_bytes (length bs) (be_nat bs) = bs"
  using le_bytes_le_nat [of "rev bs"] by (simp add: be_bytes_def be_nat_def)

lemma be_nat_bound: "be_nat bs < 256 ^ length bs"
  using le_nat_bound [of "rev bs"] by (simp add: be_nat_def)

section \<open>The methods of Node's Buffer\<close>

text \<open>\<open>buf.slice(a, b)\<close> clamps both ends to the buffer.\<close>

definition slice :: "'a list \<Rightarrow> nat \<Rightarrow> nat \<Rightarrow> 'a list" where
  "slice buf a b = take (b - a) (drop a buf)"

text \<open>Reads beyond the end throw a \<open>RangeError\<close>; \<open>buf[i]\<close> beyond the end is \<open>undefined\<close>.\<close>

definition readLE :: "nat \<Rightarrow> buffer \<Rightarrow> nat \<Rightarrow> nat res" where
  "readLE n buf off = (if off + n \<le> length buf then Inr (le_nat (slice buf off (off + n))) else Inl JsRangeError)"

abbreviation "readUInt8 \<equiv> readLE 1"
abbreviation "readUInt16LE \<equiv> readLE 2"
abbreviation "readUInt32LE \<equiv> readLE 4"

definition readUInt32BE :: "buffer \<Rightarrow> nat \<Rightarrow> nat res" where
  "readUInt32BE buf off = (if off + 4 \<le> length buf then Inr (be_nat (slice buf off (off + 4))) else Inl JsRangeError)"

definition byte_at :: "buffer \<Rightarrow> nat \<Rightarrow> nat option" where
  "byte_at buf i = (if i < length buf then Some (unat (buf ! i)) else None)"

text \<open>Writes are in place: the result is the buffer after the write. They throw when the value
  does not fit the field or the field does not fit the buffer.\<close>

definition write_at :: "buffer \<Rightarrow> nat \<Rightarrow> buffer \<Rightarrow> buffer" where
  "write_at buf off bs = take off buf @ bs @ drop (off + length bs) buf"

definition writeLE :: "nat \<Rightarrow> buffer \<Rightarrow> nat \<Rightarrow> nat \<Rightarrow> buffer res" where
  "writeLE n buf v off =
     (if 256 ^ n \<le> v then Inl (JsTypeError ''value out of bounds'')
      else if length buf < off + n then Inl JsRangeError
      else Inr (write_at buf off (le_bytes n v)))"

abbreviation "writeUInt8 \<equiv> writeLE 1"
abbreviation "writeUInt16LE \<equiv> writeLE 2"
abbreviation "writeUInt32LE \<equiv> writeLE 4"

definition writeInt32LE :: "buffer \<Rightarrow> int \<Rightarrow> nat \<Rightarrow> buffer res" where
  "writeInt32LE buf v off =
     (if v < - (2 ^ 31) \<or> 2 ^ 31 \<le> v then Inl (JsTypeError ''value out of bounds'')
      else if length buf < off + 4 then Inl JsRangeError
      else Inr (write_at buf off (le_bytes 4 (nat (v mod 2 ^ 32)))))"

text \<open>\<open>src.copy(buf, off)\<close> copies as many bytes as fit; \<open>new Buffer(n)\<close> is \<open>n\<close> bytes long. Its
  contents are not initialised in Node; the theorems about functions that fill such a buffer show
  that every byte is written (they hold for any start contents).\<close>

definition buf_copy :: "buffer \<Rightarrow> buffer \<Rightarrow> nat \<Rightarrow> buffer" where
  "buf_copy src buf off = write_at buf off (take (length buf - off) src)"

definition new_buffer :: "nat \<Rightarrow> buffer" where
  "new_buffer n = replicate n 0"

lemma length_slice [simp, buf_simps]: "length (slice xs a b) = min (b - a) (length xs - a)"
  by (simp add: slice_def)

lemma length_new_buffer [simp, buf_simps]: "length (new_buffer n) = n"
  by (simp add: new_buffer_def)

lemma slice_middle [simp]: "slice (pre @ bs @ post) (length pre) (length pre + length bs) = bs"
  by (simp add: slice_def)

lemma slice_append_at:
  "a = length pre \<Longrightarrow> b = length pre + length bs \<Longrightarrow> slice (pre @ bs @ post) a b = bs"
  by (simp add: slice_def)

lemma slice_all [simp]: "slice xs 0 (length xs) = xs"
  by (simp add: slice_def)

lemma length_write_at [simp, buf_simps]:
  "off + length bs \<le> length buf \<Longrightarrow> length (write_at buf off bs) = length buf"
  by (simp add: write_at_def)

lemma readLE_middle:
  "length bs = n \<Longrightarrow> readLE n (pre @ bs @ post) (length pre) = Inr (le_nat bs)"
  by (auto simp: readLE_def slice_def)

lemma readLE_le_bytes [codec_laws]:
  "v < 256 ^ n \<Longrightarrow> readLE n (pre @ le_bytes n v @ post) (length pre) = Inr v"
  by (simp add: readLE_middle)

lemma readLE_bound: "readLE n buf off = Inr v \<Longrightarrow> v < 256 ^ n"
  using le_nat_bound [of "slice buf off (off + n)"]
  by (auto simp: readLE_def min_absorb1 split: if_splits)

lemma readUInt8_nth: "i < length buf \<Longrightarrow> readUInt8 buf i = Inr (unat (buf ! i))"
  by (simp add: readLE_def slice_def Cons_nth_drop_Suc [symmetric])

text \<open>Writing at the end of what is written already: the shape every serialiser of the sources
  has, a buffer \<open>done @ rest\<close> with the offset at the end of \<open>done\<close>.\<close>

lemma write_at_fill:
  "length bs \<le> length rest \<Longrightarrow>
     write_at (pre @ rest) (length pre) bs = (pre @ bs) @ drop (length bs) rest"
  by (simp add: write_at_def)

lemma writeLE_fill [codec_laws]:
  "v < 256 ^ n \<Longrightarrow> n \<le> length rest \<Longrightarrow>
     writeLE n (pre @ rest) v (length pre) = Inr ((pre @ le_bytes n v) @ drop n rest)"
  by (simp add: writeLE_def write_at_fill)

lemma buf_copy_fill [codec_laws]:
  "length bs \<le> length rest \<Longrightarrow>
     buf_copy bs (pre @ rest) (length pre) = (pre @ bs) @ drop (length bs) rest"
  by (simp add: buf_copy_def write_at_fill)

section \<open>Interfaces of the serialisers\<close>

text \<open>The loop \<open>for (i = 0; i < n; ++i) xs.push(read())\<close> of a reader that moves an offset.\<close>

fun read_many :: "(buffer \<Rightarrow> nat \<Rightarrow> ('a \<times> nat) res) \<Rightarrow> buffer \<Rightarrow> nat \<Rightarrow> nat \<Rightarrow> ('a list \<times> nat) res" where
  "read_many rd buf off 0 = Inr ([], off)"
| "read_many rd buf off (Suc n) =
     rbind (rd buf off) (\<lambda>(x, off). rbind (read_many rd buf off n) (\<lambda>(xs, off). Inr (x # xs, off)))"

text \<open>A codec promises that reading at the offset where a value was written gives the value and
  the offset after it. Reading a sequence of values follows once for all.\<close>

locale codec =
  fixes enc :: "'a \<Rightarrow> buffer"
    and dec :: "buffer \<Rightarrow> nat \<Rightarrow> ('a \<times> nat) res"
    and ok :: "'a \<Rightarrow> bool"
  assumes decode_at: "ok x \<Longrightarrow> dec (pre @ enc x @ post) (length pre) = Inr (x, length pre + length (enc x))"
begin

lemma decode_end:
  "ok x \<Longrightarrow> off = length pre \<Longrightarrow> dec (pre @ enc x) off = Inr (x, length pre + length (enc x))"
  using decode_at [of x pre "[]"] by simp

lemma decode_many:
  "list_all ok xs \<Longrightarrow>
     read_many dec (pre @ concat (map enc xs) @ post) (length pre) (length xs) =
       Inr (xs, length pre + length (concat (map enc xs)))"
proof (induction xs arbitrary: pre)
  case (Cons x xs)
  have "dec (pre @ enc x @ (concat (map enc xs) @ post)) (length pre) = Inr (x, length pre + length (enc x))"
    using Cons.prems by (intro decode_at) simp
  moreover have "read_many dec ((pre @ enc x) @ concat (map enc xs) @ post) (length (pre @ enc x)) (length xs) =
      Inr (xs, length (pre @ enc x) + length (concat (map enc xs)))"
    using Cons.prems by (intro Cons.IH) simp
  ultimately show ?case by simp
qed simp

end

text \<open>A field writer promises that it writes the encoding at the offset, moves the offset behind
  it and leaves the rest of the buffer alone, whatever the buffer held there before.\<close>

locale field_writer =
  fixes wr :: "'a \<Rightarrow> buffer \<times> nat \<Rightarrow> (buffer \<times> nat) res"
    and enc :: "'a \<Rightarrow> buffer"
    and ok :: "'a \<Rightarrow> bool"
  assumes fills: "ok x \<Longrightarrow> length (enc x) \<le> length rest \<Longrightarrow>
     wr x (pre @ rest, length pre) =
       Inr ((pre @ enc x) @ drop (length (enc x)) rest, length (pre @ enc x))"
begin

lemma fills_many:
  "list_all ok xs \<Longrightarrow> length (concat (map enc xs)) \<le> length rest \<Longrightarrow>
     rfold wr xs (pre @ rest, length pre) =
       Inr ((pre @ concat (map enc xs)) @ drop (length (concat (map enc xs))) rest,
            length (pre @ concat (map enc xs)))"
proof (induction xs arbitrary: pre rest)
  case (Cons x xs)
  have "wr x (pre @ rest, length pre) =
          Inr ((pre @ enc x) @ drop (length (enc x)) rest, length (pre @ enc x))"
    using Cons.prems by (intro fills) simp_all
  moreover have "rfold wr xs ((pre @ enc x) @ drop (length (enc x)) rest, length (pre @ enc x)) =
      Inr (((pre @ enc x) @ concat (map enc xs)) @
             drop (length (concat (map enc xs))) (drop (length (enc x)) rest),
           length ((pre @ enc x) @ concat (map enc xs)))"
    using Cons.prems by (intro Cons.IH) simp_all
  ultimately show ?case by (simp add: add.commute)
qed simp

end

text \<open>Writers and readers compose: a record is written and read field by field.\<close>

lemma field_writer_seq:
  assumes "field_writer w1 e1 ok1" "field_writer w2 e2 ok2"
  shows "field_writer (\<lambda>x st. rbind (w1 x st) (w2 x)) (\<lambda>x. e1 x @ e2 x) (\<lambda>x. ok1 x \<and> ok2 x)"
proof
  fix x and pre rest :: buffer
  assume ok: "ok1 x \<and> ok2 x" and len: "length (e1 x @ e2 x) \<le> length rest"
  have "w1 x (pre @ rest, length pre) = Inr ((pre @ e1 x) @ drop (length (e1 x)) rest, length (pre @ e1 x))"
    using ok len by (intro field_writer.fills [OF assms(1)]) simp_all
  moreover have "w2 x ((pre @ e1 x) @ drop (length (e1 x)) rest, length (pre @ e1 x)) =
      Inr (((pre @ e1 x) @ e2 x) @ drop (length (e2 x)) (drop (length (e1 x)) rest), length ((pre @ e1 x) @ e2 x))"
    using ok len by (intro field_writer.fills [OF assms(2)]) simp_all
  ultimately show "rbind (w1 x (pre @ rest, length pre)) (w2 x) =
      Inr ((pre @ e1 x @ e2 x) @ drop (length (e1 x @ e2 x)) rest, length (pre @ e1 x @ e2 x))"
    by (simp add: add.commute)
qed

lemma field_writer_map:
  "field_writer w e ok \<Longrightarrow> field_writer (\<lambda>x. w (f x)) (\<lambda>x. e (f x)) (\<lambda>x. ok (f x))"
  by (simp add: field_writer_def)

lemma field_writer_list:
  "field_writer w e ok \<Longrightarrow> field_writer (rfold w) (\<lambda>xs. concat (map e xs)) (list_all ok)"
  by (rule field_writer.intro) (rule field_writer.fills_many)

lemma codec_at:
  assumes "codec enc dec ok" "ok x" "buf = pre @ enc x @ post" "off = length pre"
  shows "dec buf off = Inr (x, off + length (enc x))"
  using codec.decode_at [OF assms(1,2)] assms(3,4) by simp

lemma codec_many_at:
  assumes "codec enc dec ok" "list_all ok xs" "buf = pre @ concat (map enc xs) @ post" "off = length pre"
    "n = length xs"
  shows "read_many dec buf off n = Inr (xs, off + length (concat (map enc xs)))"
  using codec.decode_many [OF assms(1,2)] assms(3-5) by simp

text \<open>What a reader promises of anything it returns holds of all that a loop of it returns.\<close>

lemma read_many_ok:
  assumes "read_many rd buf off n = Inr (xs, off')"
    and "\<And>off x off'. rd buf off = Inr (x, off') \<Longrightarrow> P x \<and> off \<le> off'"
  shows "list_all P xs \<and> length xs = n \<and> off \<le> off'"
  using assms
proof (induction n arbitrary: off xs)
  case (Suc n)
  from Suc.prems(1) obtain x off1 ys where s: "rd buf off = Inr (x, off1)"
      "read_many rd buf off1 n = Inr (ys, off')" "xs = x # ys"
    by auto
  then show ?case using Suc.IH [OF s(2) Suc.prems(2)] Suc.prems(2) [OF s(1)] by auto
qed simp

section \<open>JavaScript's integer operators\<close>

text \<open>The bitwise operators convert their operands to signed 32-bit integers.\<close>

definition to_int32 :: "int \<Rightarrow> int" where
  "to_int32 v = (v + 2 ^ 31) mod 2 ^ 32 - 2 ^ 31"

definition js_and :: "int \<Rightarrow> int \<Rightarrow> int" where
  "js_and a b = to_int32 a AND to_int32 b"

definition js_or :: "int \<Rightarrow> int \<Rightarrow> int" where
  "js_or a b = to_int32 a OR to_int32 b"

definition js_not :: "int \<Rightarrow> int" where
  "js_not a = NOT (to_int32 a)"

definition js_shl :: "int \<Rightarrow> nat \<Rightarrow> int" where
  "js_shl a k = to_int32 (to_int32 a * 2 ^ (k mod 32))"

definition js_sar :: "int \<Rightarrow> nat \<Rightarrow> int" where
  "js_sar a k = to_int32 a div 2 ^ (k mod 32)"

lemma to_int32_id [simp]: "- (2 ^ 31) \<le> v \<Longrightarrow> v < 2 ^ 31 \<Longrightarrow> to_int32 v = v"
  by (simp add: to_int32_def)

lemma to_int32_bounds: "- (2 ^ 31) \<le> to_int32 v" "to_int32 v < 2 ^ 31"
  by (simp_all add: to_int32_def)

lemma to_int32_small: "- 2147483648 \<le> v \<Longrightarrow> v < 2147483648 \<Longrightarrow> to_int32 v = v"
  by (rule to_int32_id) simp_all

lemma to_int32_bounds_num: "- 2147483648 \<le> to_int32 v" "to_int32 v < 2147483648"
  using to_int32_bounds [of v] by simp_all

lemma to_int32_mod: "to_int32 v mod 2 ^ 32 = v mod 2 ^ 32"
  by (simp add: to_int32_def mod_diff_left_eq)

lemma to_int32_mod_256: "to_int32 v mod 256 = v mod 256"
proof -
  have "(to_int32 v mod 2 ^ 32) mod 256 = (v mod 2 ^ 32) mod 256"
    by (simp only: to_int32_mod)
  moreover have "(256 :: int) dvd 2 ^ 32" by simp
  ultimately show ?thesis by (simp only: mod_mod_cancel)
qed

lemma and_255_mod: "(v :: int) AND 255 = v mod 256"
  using take_bit_eq_mask [of 8 v] by (simp add: take_bit_eq_mod mask_eq_exp_minus_1)

end
