(* ===== verification/Buffer_Utils.thy ===== *)
theory Buffer_Utils
  imports Prelude
begin

text \<open>
  \<open>bitcoinjs-lib/src/bufferutils.js\<close>: push-data prefixes, variable-length integers and 64-bit
  numbers, read from and written into a buffer at an offset. A write returns the buffer after it
  together with the size the JavaScript function returns. The two interfaces at the end,
  \<open>field_writer\<close> and \<open>codec\<close>, are what the serialisers of transactions and blocks rely on.
\<close>

section \<open>Opcodes that frame data pushes\<close>

abbreviation (input) OP_0 :: nat where "OP_0 \<equiv> 0"
abbreviation (input) OP_PUSHDATA1 :: nat where "OP_PUSHDATA1 \<equiv> 76"
abbreviation (input) OP_PUSHDATA2 :: nat where "OP_PUSHDATA2 \<equiv> 77"
abbreviation (input) OP_PUSHDATA4 :: nat where "OP_PUSHDATA4 \<equiv> 78"

section \<open>Operations\<close>

definition verifuint :: "int \<Rightarrow> int \<Rightarrow> unit res" where
  "verifuint value mx =
     (if value < 0 then Inl (JsError ''specified a negative value for writing an unsigned value'')
      else if value > mx then Inl (JsError ''value is larger than maximum value for type'')
      else Inr ())"

definition pushDataSize :: "nat \<Rightarrow> nat" where
  "pushDataSize i = (if i < OP_PUSHDATA1 then 1 else if i < 0xff then 2 else if i < 0xffff then 3 else 5)"

record push_int =
  pi_opcode :: nat
  pi_number :: nat
  pi_size :: nat

definition readPushDataInt :: "buffer \<Rightarrow> nat \<Rightarrow> push_int option res" where
  "readPushDataInt buf off =
     rbind (readUInt8 buf off) (\<lambda>opcode.
       if opcode < OP_PUSHDATA1 then
         Inr (Some \<lparr>pi_opcode = opcode, pi_number = opcode, pi_size = 1\<rparr>)
       else if opcode = OP_PUSHDATA1 then
         (if off + 2 > length buf then Inr None
          else rbind (readUInt8 buf (off + 1)) (\<lambda>n.
                 Inr (Some \<lparr>pi_opcode = opcode, pi_number = n, pi_size = 2\<rparr>)))
       else if opcode = OP_PUSHDATA2 then
         (if off + 3 > length buf then Inr None
          else rbind (readUInt16LE buf (off + 1)) (\<lambda>n.
                 Inr (Some \<lparr>pi_opcode = opcode, pi_number = n, pi_size = 3\<rparr>)))
       else
         (if off + 5 > length buf then Inr None
          else if opcode \<noteq> OP_PUSHDATA4 then Inl (JsError ''Unexpected opcode'')
          else rbind (readUInt32LE buf (off + 1)) (\<lambda>n.
                 Inr (Some \<lparr>pi_opcode = opcode, pi_number = n, pi_size = 5\<rparr>))))"

definition readUInt64LE :: "buffer \<Rightarrow> nat \<Rightarrow> nat res" where
  "readUInt64LE buf off =
     rbind (readUInt32LE buf off) (\<lambda>a.
     rbind (readUInt32LE buf (off + 4)) (\<lambda>b.
     rbind (verifuint (int (b * 0x100000000 + a)) 0x001fffffffffffff) (\<lambda>_.
       Inr (b * 0x100000000 + a))))"

record var_int =
  vi_number :: nat
  vi_size :: nat

definition readVarInt :: "buffer \<Rightarrow> nat \<Rightarrow> var_int res" where
  "readVarInt buf off =
     rbind (readUInt8 buf off) (\<lambda>t.
       if t < 253 then Inr \<lparr>vi_number = t, vi_size = 1\<rparr>
       else if t < 254 then
         rbind (readUInt16LE buf (off + 1)) (\<lambda>n. Inr \<lparr>vi_number = n, vi_size = 3\<rparr>)
       else if t < 255 then
         rbind (readUInt32LE buf (off + 1)) (\<lambda>n. Inr \<lparr>vi_number = n, vi_size = 5\<rparr>)
       else
         rbind (readUInt64LE buf (off + 1)) (\<lambda>n. Inr \<lparr>vi_number = n, vi_size = 9\<rparr>))"

definition writePushDataInt :: "buffer \<Rightarrow> nat \<Rightarrow> nat \<Rightarrow> (buffer \<times> nat) res" where
  "writePushDataInt buf number off =
     (let size = pushDataSize number in
      rbind (if size = 1 then writeUInt8 buf number off
             else if size = 2 then
               rbind (writeUInt8 buf OP_PUSHDATA1 off) (\<lambda>buf. writeUInt8 buf number (off + 1))
             else if size = 3 then
               rbind (writeUInt8 buf OP_PUSHDATA2 off) (\<lambda>buf. writeUInt16LE buf number (off + 1))
             else
               rbind (writeUInt8 buf OP_PUSHDATA4 off) (\<lambda>buf. writeUInt32LE buf number (off + 1)))
        (\<lambda>buf. Inr (buf, size)))"

text \<open>\<open>value & -1\<close> is the signed 32-bit number with the low bits of \<open>value\<close>.\<close>

definition writeUInt64LE :: "buffer \<Rightarrow> nat \<Rightarrow> nat \<Rightarrow> buffer res" where
  "writeUInt64LE buf value off =
     rbind (verifuint (int value) 0x001fffffffffffff) (\<lambda>_.
     rbind (writeInt32LE buf (js_and (int value) (- 1)) off) (\<lambda>buf.
       writeUInt32LE buf (value div 0x100000000) (off + 4)))"

definition varIntSize :: "nat \<Rightarrow> nat" where
  "varIntSize i = (if i < 253 then 1 else if i < 0x10000 then 3 else if i < 0x100000000 then 5 else 9)"

definition writeVarInt :: "buffer \<Rightarrow> nat \<Rightarrow> nat \<Rightarrow> (buffer \<times> nat) res" where
  "writeVarInt buf number off =
     (let size = varIntSize number in
      rbind (if size = 1 then writeUInt8 buf number off
             else if size = 3 then
               rbind (writeUInt8 buf 253 off) (\<lambda>buf. writeUInt16LE buf number (off + 1))
             else if size = 5 then
               rbind (writeUInt8 buf 254 off) (\<lambda>buf. writeUInt32LE buf number (off + 1))
             else
               rbind (writeUInt8 buf 255 off) (\<lambda>buf. writeUInt64LE buf number (off + 1)))
        (\<lambda>buf. Inr (buf, size)))"

definition varIntBuffer :: "nat \<Rightarrow> buffer res" where
  "varIntBuffer i = rbind (writeVarInt (new_buffer (varIntSize i)) i 0) (\<lambda>(buf, _). Inr buf)"

section \<open>What the writers write\<close>

text \<open>The bytes of each encoding, without buffers or offsets.\<close>

definition push_prefix :: "nat \<Rightarrow> buffer" where
  "push_prefix n =
     (if n < OP_PUSHDATA1 then le_bytes 1 n
      else if n < 0xff then le_bytes 1 OP_PUSHDATA1 @ le_bytes 1 n
      else if n < 0xffff then le_bytes 1 OP_PUSHDATA2 @ le_bytes 2 n
      else le_bytes 1 OP_PUSHDATA4 @ le_bytes 4 n)"

definition varint_bytes :: "nat \<Rightarrow> buffer" where
  "varint_bytes n =
     (if n < 253 then le_bytes 1 n
      else if n < 0x10000 then le_bytes 1 253 @ le_bytes 2 n
      else if n < 0x100000000 then le_bytes 1 254 @ le_bytes 4 n
      else le_bytes 1 255 @ le_bytes 8 n)"

lemma length_push_prefix [simp, buf_simps]: "length (push_prefix n) = pushDataSize n"
  by (simp add: push_prefix_def pushDataSize_def)

lemma length_varint_bytes [simp, buf_simps]: "length (varint_bytes n) = varIntSize n"
  by (simp add: varint_bytes_def varIntSize_def)

lemma pushDataSize_pos [simp]: "0 < pushDataSize n"
  by (simp add: pushDataSize_def)

lemma varIntSize_pos [simp]: "0 < varIntSize n"
  by (simp add: varIntSize_def)

lemma varIntSize_range: "varIntSize n \<in> {1, 3, 5, 9}"
  by (simp add: varIntSize_def)

text \<open>Two writes in a row at the end of what is written already.\<close>

lemma writeLE_fill2:
  assumes "v < 256 ^ m" "w < 256 ^ n" "m + n \<le> length rest"
  shows "rbind (writeLE m (pre @ rest) v (length pre)) (\<lambda>buf. writeLE n buf w (length pre + m)) =
           Inr ((pre @ le_bytes m v @ le_bytes n w) @ drop (m + n) rest)"
proof -
  have "writeLE n ((pre @ le_bytes m v) @ drop m rest) w (length (pre @ le_bytes m v)) =
          Inr (((pre @ le_bytes m v) @ le_bytes n w) @ drop n (drop m rest))"
    using assms by (intro writeLE_fill) simp_all
  then show ?thesis
    using assms by (simp add: writeLE_fill add.commute)
qed

lemma writeInt32LE_low:
  "4 \<le> length rest \<Longrightarrow>
     writeInt32LE (pre @ rest) (js_and (int v) (- 1)) (length pre) =
       Inr ((pre @ le_bytes 4 v) @ drop 4 rest)"
proof -
  assume len: "4 \<le> length rest"
  have "js_and (int v) (- 1) = to_int32 (int v)"
    by (simp add: js_and_def)
  moreover have "nat (to_int32 (int v) mod 2 ^ 32) = v mod 256 ^ 4"
    by (simp only: to_int32_mod) (simp add: nat_mod_distrib)
  moreover have "le_bytes 4 (v mod 256 ^ 4) = le_bytes 4 v"
    by (rule le_bytes_mod)
  ultimately show ?thesis
    using len to_int32_bounds [of "int v"]
    by (simp add: writeInt32LE_def write_at_fill del: One_nat_def)
qed

lemma le_bytes_8: "le_bytes 4 v @ le_bytes 4 (v div 0x100000000) = le_bytes 8 v"
  using le_bytes_append [of 4 4 v] by simp

lemma writeUInt64LE_fill [codec_laws]:
  assumes "v < 0x20000000000000" "8 \<le> length rest"
  shows "writeUInt64LE (pre @ rest) v (length pre) = Inr ((pre @ le_bytes 8 v) @ drop 8 rest)"
proof -
  have "writeLE 4 ((pre @ le_bytes 4 v) @ drop 4 rest) (v div 0x100000000) (length (pre @ le_bytes 4 v)) =
          Inr (((pre @ le_bytes 4 v) @ le_bytes 4 (v div 0x100000000)) @ drop 4 (drop 4 rest))"
    using assms by (intro writeLE_fill) (simp_all add: less_mult_imp_div_less)
  then show ?thesis
    using assms
    by (simp add: writeUInt64LE_def writeInt32LE_low verifuint_def le_bytes_8 [symmetric])
qed

lemma writePushDataInt_fill [codec_laws]:
  assumes "n < 0x100000000" "pushDataSize n \<le> length rest"
  shows "writePushDataInt (pre @ rest) n (length pre) =
           Inr ((pre @ push_prefix n) @ drop (pushDataSize n) rest, pushDataSize n)"
  using assms writeLE_fill2 [of OP_PUSHDATA1 1 n 1 rest pre]
    writeLE_fill2 [of OP_PUSHDATA2 1 n 2 rest pre] writeLE_fill2 [of OP_PUSHDATA4 1 n 4 rest pre]
    writeLE_fill [of n 1 rest pre]
  by (auto simp: writePushDataInt_def push_prefix_def pushDataSize_def Let_def numeral_2_eq_2
      numeral_3_eq_3 split: if_splits)

lemma writeVarInt_fill [codec_laws]:
  assumes "n < 0x20000000000000" "varIntSize n \<le> length rest"
  shows "writeVarInt (pre @ rest) n (length pre) =
           Inr ((pre @ varint_bytes n) @ drop (varIntSize n) rest, varIntSize n)"
proof -
  have w8: "writeUInt64LE (pre @ le_bytes 1 255 @ drop 1 rest) n (Suc (length pre)) =
              Inr ((pre @ le_bytes 1 255 @ le_bytes 8 n) @ drop 9 rest)" if "9 \<le> length rest"
    using writeUInt64LE_fill [of n "drop 1 rest" "pre @ le_bytes 1 255"] assms that by simp
  show ?thesis
    using assms w8 writeLE_fill2 [of 253 1 n 2 rest pre] writeLE_fill2 [of 254 1 n 4 rest pre]
      writeLE_fill [of 255 1 rest pre] writeLE_fill [of n 1 rest pre]
    by (auto simp: writeVarInt_def varint_bytes_def varIntSize_def Let_def numeral_2_eq_2
        numeral_3_eq_3 split: if_splits)
qed

lemma varIntBuffer_eq: "n < 0x20000000000000 \<Longrightarrow> varIntBuffer n = Inr (varint_bytes n)"
  using writeVarInt_fill [of n "new_buffer (varIntSize n)" "[]"]
  by (simp add: varIntBuffer_def)

section \<open>What the readers read\<close>

lemma readLE_after:
  "v < 256 ^ n \<Longrightarrow> off = length pre + length mid \<Longrightarrow>
     readLE n (pre @ mid @ le_bytes n v @ post) off = Inr v"
  using readLE_le_bytes [of v n "pre @ mid" post] by simp

lemma readUInt8_lead [simp]: "readLE (Suc 0) (pre @ b # post) (length pre) = Inr (unat b)"
  using readLE_middle [of "[b]" 1 pre post] by simp

lemma readPushDataInt_prefix [codec_laws]:
  assumes "n < 0x100000000"
  shows "\<exists>opc. readPushDataInt (pre @ push_prefix n @ post) (length pre) =
           Inr (Some \<lparr>pi_opcode = opc, pi_number = n, pi_size = pushDataSize n\<rparr>) \<and>
           opc = (if pushDataSize n = 1 then n else if pushDataSize n = 2 then OP_PUSHDATA1
                  else if pushDataSize n = 3 then OP_PUSHDATA2 else OP_PUSHDATA4)"
  using assms readLE_after [of n 1 _ pre "[76]" post] readLE_after [of n 2 _ pre "[77]" post]
    readLE_after [of n 4 _ pre "[78]" post]
  by (auto simp: readPushDataInt_def push_prefix_def pushDataSize_def)

lemma readUInt64LE_bytes [codec_laws]:
  assumes "v < 0x20000000000000"
  shows "readUInt64LE (pre @ le_bytes 8 v @ post) (length pre) = Inr v"
proof -
  have lo: "readLE 4 (pre @ le_bytes 4 v @ le_bytes 4 (v div 0x100000000) @ post) (length pre)
              = Inr (v mod 0x100000000)"
    by (simp add: readLE_middle le_nat_le_bytes)
  have hi: "readLE 4 (pre @ le_bytes 4 v @ le_bytes 4 (v div 0x100000000) @ post) (length pre + 4)
              = Inr (v div 0x100000000)"
    using assms by (intro readLE_after) (simp_all add: less_mult_imp_div_less)
  have sum: "v div 0x100000000 * 0x100000000 + v mod 0x100000000 = v"
    by (rule div_mult_mod_eq)
  have "int v \<le> 0x001fffffffffffff" using assms by simp
  then show ?thesis
    by (simp only: readUInt64LE_def le_bytes_8 [symmetric] append_assoc lo hi rbind_simps sum)
       (simp add: verifuint_def)
qed

lemma readUInt64LE_limit: "readUInt64LE buf off = Inr v \<Longrightarrow> v < 2 ^ 53"
  by (auto simp: readUInt64LE_def verifuint_def split: if_splits)

lemma readVarInt_bytes [codec_laws]:
  assumes "n < 0x20000000000000"
  shows "readVarInt (pre @ varint_bytes n @ post) (length pre) =
           Inr \<lparr>vi_number = n, vi_size = varIntSize n\<rparr>"
  using assms readLE_after [of n 2 _ pre "[253]" post] readLE_after [of n 4 _ pre "[254]" post]
    readUInt64LE_bytes [of n "pre @ [255]" post]
  by (auto simp: readVarInt_def varint_bytes_def varIntSize_def)

text \<open>A read starts inside the buffer and ends inside it.\<close>

lemma readPushDataInt_inside:
  "readPushDataInt buf off = Inr (Some d) \<Longrightarrow>
     off + pi_size d \<le> length buf \<and> 0 < pi_size d \<and> pi_number d < 2 ^ 32"
  using readLE_bound [of 1 buf "off + 1"] readLE_bound [of 2 buf "off + 1"]
    readLE_bound [of 4 buf "off + 1"] readLE_bound [of 1 buf off]
  by (auto simp: readPushDataInt_def readLE_def split: if_splits)

lemma readVarInt_inside:
  "readVarInt buf off = Inr vi \<Longrightarrow> off + vi_size vi \<le> length buf \<and> vi_number vi < 2 ^ 53"
  using readLE_bound [of 1 buf off] readLE_bound [of 2 buf "off + 1"] readLE_bound [of 4 buf "off + 1"]
    readUInt64LE_limit [of buf "off + 1"]
  by (auto simp: readVarInt_def split: if_splits)
     (auto simp: readLE_def readUInt64LE_def split: if_splits)

end
