(* ===== verification/Cursor.thy ===== *)
theory Cursor
  imports Buffer_Utils
begin

text \<open>
  The closures that \<open>Transaction.fromBuffer\<close>, \<open>Transaction.toBuffer\<close> and their copies in
  \<open>Block\<close> share: readers that return the offset after what they read, writers over a buffer and an
  offset. Each writer is a \<open>field_writer\<close> and each reader a \<open>codec\<close>. The section at the end states
  what \<open>bufferutils.js\<close> promises about its encodings.
\<close>

section \<open>Readers\<close>

definition readSlice :: "nat \<Rightarrow> buffer \<Rightarrow> nat \<Rightarrow> (buffer \<times> nat) res" where
  "readSlice n buf off = (let off = off + n in Inr (slice buf (off - n) off, off))"

definition readUInt32 :: "buffer \<Rightarrow> nat \<Rightarrow> (nat \<times> nat) res" where
  "readUInt32 buf off = rbind (readUInt32LE buf off) (\<lambda>i. Inr (i, off + 4))"

definition readUInt64 :: "buffer \<Rightarrow> nat \<Rightarrow> (nat \<times> nat) res" where
  "readUInt64 buf off = rbind (readUInt64LE buf off) (\<lambda>i. Inr (i, off + 8))"

definition readVarIntAt :: "buffer \<Rightarrow> nat \<Rightarrow> (nat \<times> nat) res" where
  "readVarIntAt buf off = rbind (readVarInt buf off) (\<lambda>vi. Inr (vi_number vi, off + vi_size vi))"

definition readScript :: "buffer \<Rightarrow> nat \<Rightarrow> (buffer \<times> nat) res" where
  "readScript buf off = rbind (readVarIntAt buf off) (\<lambda>(n, off). readSlice n buf off)"

section \<open>Writers\<close>

fun writeSlice :: "buffer \<Rightarrow> buffer \<times> nat \<Rightarrow> (buffer \<times> nat) res" where
  "writeSlice s (buf, off) = Inr (buf_copy s buf off, off + length s)"

fun writeUInt32 :: "nat \<Rightarrow> buffer \<times> nat \<Rightarrow> (buffer \<times> nat) res" where
  "writeUInt32 i (buf, off) = rbind (writeUInt32LE buf i off) (\<lambda>buf. Inr (buf, off + 4))"

fun writeUInt64 :: "nat \<Rightarrow> buffer \<times> nat \<Rightarrow> (buffer \<times> nat) res" where
  "writeUInt64 i (buf, off) = rbind (writeUInt64LE buf i off) (\<lambda>buf. Inr (buf, off + 8))"

fun writeVarIntAt :: "nat \<Rightarrow> buffer \<times> nat \<Rightarrow> (buffer \<times> nat) res" where
  "writeVarIntAt i (buf, off) = rbind (writeVarInt buf i off) (\<lambda>(buf, n). Inr (buf, off + n))"

definition script_bytes :: "buffer \<Rightarrow> buffer" where
  "script_bytes s = varint_bytes (length s) @ s"

lemma length_script_bytes [simp, buf_simps]:
  "length (script_bytes s) = varIntSize (length s) + length s"
  by (simp add: script_bytes_def)

section \<open>The writers keep their promise\<close>

interpretation slice_w: field_writer writeSlice "\<lambda>s. s" "\<lambda>_. True"
  by unfold_locales (simp add: buf_copy_fill)

interpretation uint32_w: field_writer writeUInt32 "le_bytes 4" "\<lambda>i. i < 0x100000000"
  by unfold_locales (simp add: writeLE_fill)

interpretation uint64_w: field_writer writeUInt64 "le_bytes 8" "\<lambda>i. i < 0x20000000000000"
  by unfold_locales (simp add: writeUInt64LE_fill)

interpretation varint_w: field_writer writeVarIntAt varint_bytes "\<lambda>i. i < 0x20000000000000"
  by unfold_locales (simp add: writeVarInt_fill)

section \<open>The readers keep theirs\<close>

lemma readSlice_middle: "readSlice (length s) (pre @ s @ post) (length pre) = Inr (s, length pre + length s)"
  by (simp add: readSlice_def)

interpretation uint32_c: codec "le_bytes 4" readUInt32 "\<lambda>i. i < 0x100000000"
  by unfold_locales (simp add: readUInt32_def readLE_le_bytes)

interpretation uint64_c: codec "le_bytes 8" readUInt64 "\<lambda>i. i < 0x20000000000000"
  by unfold_locales (simp add: readUInt64_def readUInt64LE_bytes)

interpretation varint_c: codec varint_bytes readVarIntAt "\<lambda>i. i < 0x20000000000000"
  by unfold_locales (simp add: readVarIntAt_def readVarInt_bytes)

interpretation hash_c: codec "\<lambda>s. s" "readSlice 32" "\<lambda>s. length s = 32"
  by unfold_locales (metis readSlice_middle)

interpretation script_c: codec script_bytes readScript "\<lambda>s. length s < 0x20000000000000"
proof
  fix s pre post :: buffer
  assume "length s < 0x20000000000000"
  then have "readVarIntAt (pre @ varint_bytes (length s) @ (s @ post)) (length pre) =
      Inr (length s, length pre + varIntSize (length s))"
    by (simp add: varint_c.decode_at)
  moreover have "readSlice (length s) ((pre @ varint_bytes (length s)) @ s @ post)
        (length pre + varIntSize (length s)) =
      Inr (s, length pre + varIntSize (length s) + length s)"
    using readSlice_middle [of s "pre @ varint_bytes (length s)" post] by simp
  ultimately show "readScript (pre @ script_bytes s @ post) (length pre) =
      Inr (s, length pre + length (script_bytes s))"
    by (simp add: readScript_def script_bytes_def)
qed

section \<open>Properties of the encodings\<close>

text \<open>writing a variable-length integer below 2^53 at an offset with enough room and reading
  it back there gives the number and the size that was written; no other byte of the buffer
  changes.\<close>

theorem varint_write_read:
  assumes "n < 2 ^ 53" "varIntSize n \<le> length rest"
  shows "\<exists>buf. writeVarInt (pre @ rest) n (length pre) = Inr (buf, varIntSize n) \<and>
           readVarInt buf (length pre) = Inr \<lparr>vi_number = n, vi_size = varIntSize n\<rparr> \<and>
           take (length pre) buf = pre \<and>
           drop (length pre + varIntSize n) buf = drop (varIntSize n) rest"
  using assms by (simp add: writeVarInt_fill readVarInt_bytes)

theorem varint_write_read_witness:
  "\<exists>buf. writeVarInt ([7] @ [0, 0, 0, 9]) 515 (length ([7] :: buffer)) = Inr (buf, varIntSize 515) \<and>
     readVarInt buf (length ([7] :: buffer)) = Inr \<lparr>vi_number = 515, vi_size = varIntSize 515\<rparr> \<and>
     take (length ([7] :: buffer)) buf = [7] \<and>
     drop (length ([7] :: buffer) + varIntSize 515) buf = drop (varIntSize 515) [0, 0, 0, 9]"
  by (rule varint_write_read) (simp_all add: varIntSize_def)

text \<open>a push-data prefix written for a length below 2^32 is read back as that length and that
  size. The size equals the shortest Script encoding except at the lengths 255 and 65535, where it
  is one step too long: the prefix is readable everywhere, but not minimal there.\<close>

theorem push_prefix_write_read:
  assumes "n < 2 ^ 32" "pushDataSize n \<le> length rest"
  shows "\<exists>buf d. writePushDataInt (pre @ rest) n (length pre) = Inr (buf, pushDataSize n) \<and>
           readPushDataInt buf (length pre) = Inr (Some d) \<and>
           pi_number d = n \<and> pi_size d = pushDataSize n \<and>
           (pushDataSize n = (if n < 76 then 1 else if n \<le> 255 then 2 else if n \<le> 65535 then 3 else 5)
              \<longleftrightarrow> n \<noteq> 255 \<and> n \<noteq> 65535)"
proof -
  obtain opc where r: "readPushDataInt (pre @ push_prefix n @ drop (pushDataSize n) rest) (length pre) =
      Inr (Some \<lparr>pi_opcode = opc, pi_number = n, pi_size = pushDataSize n\<rparr>)"
    using assms readPushDataInt_prefix [of n pre "drop (pushDataSize n) rest"] by auto
  then show ?thesis
    using assms by (simp add: writePushDataInt_fill) (simp add: pushDataSize_def)
qed

theorem push_prefix_write_read_witness:
  "\<exists>buf d. writePushDataInt ([] @ [1, 2, 3]) 255 (length ([] :: buffer)) = Inr (buf, pushDataSize 255) \<and>
     readPushDataInt buf (length ([] :: buffer)) = Inr (Some d) \<and>
     pi_number d = 255 \<and> pi_size d = pushDataSize 255 \<and>
     (pushDataSize 255 = (if (255::nat) < 76 then 1 else if (255::nat) \<le> 255 then 2 else if (255::nat) \<le> 65535 then 3 else 5)
        \<longleftrightarrow> (255::nat) \<noteq> 255 \<and> (255::nat) \<noteq> 65535)"
  by (rule push_prefix_write_read) (simp_all add: pushDataSize_def)

text \<open>64-bit values are exact up to JavaScript's largest safe integer and refused beyond it:
  a value below 2^53 is written and read back, a larger one makes the write throw, and a field
  holding a larger number makes the read throw.\<close>

theorem uint64_exact_or_refused:
  "(v < 2 ^ 53 \<longrightarrow> 8 \<le> length rest \<longrightarrow>
      (\<exists>buf. writeUInt64LE (pre @ rest) v (length pre) = Inr buf \<and> readUInt64LE buf (length pre) = Inr v)) \<and>
   (2 ^ 53 \<le> v \<longrightarrow> writeUInt64LE buf v off = Inl (JsError ''value is larger than maximum value for type'')) \<and>
   (2 ^ 53 \<le> v \<longrightarrow> v < 2 ^ 64 \<longrightarrow>
      readUInt64LE (pre @ le_bytes 8 v @ post) (length pre) =
        Inl (JsError ''value is larger than maximum value for type''))"
proof -
  have "readUInt64LE (pre @ le_bytes 8 v @ post) (length pre) =
        Inl (JsError ''value is larger than maximum value for type'')" if "2 ^ 53 \<le> v" "v < 2 ^ 64"
  proof -
    have lo: "readLE 4 (pre @ le_bytes 4 v @ le_bytes 4 (v div 0x100000000) @ post) (length pre)
                = Inr (v mod 0x100000000)"
      by (simp add: readLE_middle le_nat_le_bytes)
    have hi: "readLE 4 (pre @ le_bytes 4 v @ le_bytes 4 (v div 0x100000000) @ post) (length pre + 4)
                = Inr (v div 0x100000000)"
      using that by (intro readLE_after) (simp_all add: less_mult_imp_div_less)
    have sum: "v div 0x100000000 * 0x100000000 + v mod 0x100000000 = v"
      by (rule div_mult_mod_eq)
    show ?thesis
      using that
      by (simp only: readUInt64LE_def le_bytes_8 [symmetric] append_assoc lo hi rbind_simps sum)
         (simp add: verifuint_def)
  qed
  then show ?thesis
    by (simp add: writeUInt64LE_fill readUInt64LE_bytes) (simp add: writeUInt64LE_def verifuint_def)
qed

theorem uint64_exact_or_refused_witness:
  "writeUInt64LE [] 9007199254740992 0 = Inl (JsError ''value is larger than maximum value for type'')"
  using uint64_exact_or_refused [of 9007199254740992 "[]" "[]" "[]" 0 "[]"] by simp

end
