(* ===== verification/Types.thy ===== *)
theory Types
  imports Prelude
begin

text \<open>
  \<open>bitcoinjs-lib/src/types.js\<close>: the predicates that guard the library's entry points, and the
  decimal numerals that error messages are put together from. A guard \<open>typeforce(T, v)\<close> throws a
  \<open>TypeError\<close>; the text that the typeforce package gives it is cut to its first two words.
\<close>

section \<open>Decimal numerals\<close>

fun dec_string :: "nat \<Rightarrow> string" where
  "dec_string n = (if n < 10 then [char_of (48 + n)] else dec_string (n div 10) @ [char_of (48 + n mod 10)])"

declare dec_string.simps [simp del]

section \<open>Type predicates\<close>

definition nBuffer :: "buffer \<Rightarrow> nat \<Rightarrow> unit res" where
  "nBuffer v n =
     (if length v \<noteq> n
      then Inl (JsTypeError (''Expected '' @ dec_string (n * 8) @ ''-bit Buffer, got '' @
                             dec_string (length v * 8) @ ''-bit Buffer''))
      else Inr ())"

definition Hash160bit :: "buffer \<Rightarrow> unit res" where
  "Hash160bit v = nBuffer v 20"

definition Hash256bit :: "buffer \<Rightarrow> unit res" where
  "Hash256bit v = nBuffer v 32"

definition Buffer256bit :: "buffer \<Rightarrow> unit res" where
  "Buffer256bit v = nBuffer v 32"

definition UInt2 :: "int \<Rightarrow> bool" where
  "UInt2 v \<longleftrightarrow> js_and v 3 = v"

definition UInt8 :: "int \<Rightarrow> bool" where
  "UInt8 v \<longleftrightarrow> js_and v 0xff = v"

text \<open>\<open>value >>> 0\<close> is the value reduced to an unsigned 32-bit number.\<close>

definition UInt32 :: "int \<Rightarrow> bool" where
  "UInt32 v \<longleftrightarrow> v mod 2 ^ 32 = v"

definition UInt31 :: "int \<Rightarrow> bool" where
  "UInt31 v \<longleftrightarrow> UInt32 v \<and> v \<le> 2 ^ 31 - 1"

definition UInt53 :: "int \<Rightarrow> bool" where
  "UInt53 v \<longleftrightarrow> 0 \<le> v \<and> v \<le> 2 ^ 53 - 1"

definition typeforce :: "string \<Rightarrow> bool \<Rightarrow> unit res" where
  "typeforce t ok = (if ok then Inr () else Inl (JsTypeError (''Expected '' @ t)))"

lemma typeforce_Inr [simp]: "typeforce t ok = Inr u \<longleftrightarrow> ok"
  by (simp add: typeforce_def)

lemma typeforce_True [simp]: "typeforce t True = Inr ()"
  by (simp add: typeforce_def)

lemma nBuffer_Inr [simp]: "nBuffer v n = Inr u \<longleftrightarrow> length v = n"
  by (simp add: nBuffer_def)

lemma Hash160bit_Inr [simp]: "Hash160bit v = Inr u \<longleftrightarrow> length v = 20"
  by (simp add: Hash160bit_def)

lemma Hash256bit_Inr [simp]: "Hash256bit v = Inr u \<longleftrightarrow> length v = 32"
  by (simp add: Hash256bit_def)

lemma nBuffer_ok: "length v = n \<Longrightarrow> nBuffer v n = Inr ()"
  by (simp add: nBuffer_def)

text \<open>The bit tests are range tests.\<close>

lemma UInt32_iff: "UInt32 v \<longleftrightarrow> 0 \<le> v \<and> v < 2 ^ 32"
  unfolding UInt32_def by (metis mod_pos_pos_trivial pos_mod_bound pos_mod_sign zero_less_numeral zero_less_power)

lemma UInt31_iff: "UInt31 v \<longleftrightarrow> 0 \<le> v \<and> v < 2 ^ 31"
  unfolding UInt31_def UInt32_iff by auto

lemma mask_test:
  "js_and v 0xff = v \<longleftrightarrow> 0 \<le> v \<and> v < 256"
  "js_and v 3 = v \<longleftrightarrow> 0 \<le> v \<and> v < 4"
proof -
  have m255: "js_and v 0xff = v mod 256"
    by (simp add: js_and_def and_255_mod to_int32_mod_256)
  have "(to_int32 v mod 2 ^ 32) mod 4 = (v mod 2 ^ 32) mod 4"
    by (simp only: to_int32_mod)
  then have "to_int32 v mod 4 = v mod 4" by (simp add: mod_mod_cancel)
  then have m3: "js_and v 3 = v mod 4"
    using take_bit_eq_mask [of 2 "to_int32 v"] by (simp add: js_and_def take_bit_eq_mod mask_eq_exp_minus_1)
  show "js_and v 0xff = v \<longleftrightarrow> 0 \<le> v \<and> v < 256"
    unfolding m255 by (metis mod_pos_pos_trivial pos_mod_bound pos_mod_sign zero_less_numeral)
  show "js_and v 3 = v \<longleftrightarrow> 0 \<le> v \<and> v < 4"
    unfolding m3 by (metis mod_pos_pos_trivial pos_mod_bound pos_mod_sign zero_less_numeral)
qed

lemma UInt8_iff: "UInt8 v \<longleftrightarrow> 0 \<le> v \<and> v < 256"
  unfolding UInt8_def by (rule mask_test)

lemma UInt2_iff: "UInt2 v \<longleftrightarrow> 0 \<le> v \<and> v < 4"
  unfolding UInt2_def by (rule mask_test)

end
