(* ===== verification/Bscript.thy ===== *)
theory Bscript
  imports Cursor Types
begin

text \<open>
  \<open>bitcoinjs-lib/src/script.js\<close>: scripts as byte buffers or as chunk lists, \<open>compile\<close> and
  \<open>decompile\<close> between the two, the recognisers and builders of the standard templates, and the
  classification of inputs and outputs.
\<close>

section \<open>Scripts\<close>

datatype chunk = Op nat | Data buffer
datatype script = Buf buffer | Chunks "chunk list"

abbreviation (input) OP_INT_BASE :: nat where "OP_INT_BASE \<equiv> 80"
abbreviation (input) OP_RETURN :: nat where "OP_RETURN \<equiv> 106"
abbreviation (input) OP_DUP :: nat where "OP_DUP \<equiv> 118"
abbreviation (input) OP_EQUAL :: nat where "OP_EQUAL \<equiv> 135"
abbreviation (input) OP_EQUALVERIFY :: nat where "OP_EQUALVERIFY \<equiv> 136"
abbreviation (input) OP_HASH160 :: nat where "OP_HASH160 \<equiv> 169"
abbreviation (input) OP_CODESEPARATOR :: nat where "OP_CODESEPARATOR \<equiv> 171"
abbreviation (input) OP_CHECKSIG :: nat where "OP_CHECKSIG \<equiv> 172"
abbreviation (input) OP_CHECKMULTISIG :: nat where "OP_CHECKMULTISIG \<equiv> 174"

section \<open>compile and decompile\<close>

text \<open>\<open>compile\<close> goes over the chunks twice: once for the size of the buffer and once to fill it.\<close>

fun chunk_size :: "chunk \<Rightarrow> nat" where
  "chunk_size (Data d) = pushDataSize (length d) + length d"
| "chunk_size (Op _) = 1"

fun write_chunk :: "chunk \<Rightarrow> buffer \<times> nat \<Rightarrow> (buffer \<times> nat) res" where
  "write_chunk (Data d) (buf, off) =
     rbind (writePushDataInt buf (length d) off) (\<lambda>(buf, n).
       let off = off + n; buf = buf_copy d buf off in Inr (buf, off + length d))"
| "write_chunk (Op opc) (buf, off) = rbind (writeUInt8 buf opc off) (\<lambda>buf. Inr (buf, off + 1))"

definition compile :: "script \<Rightarrow> buffer res" where
  "compile script = (case script of
       Buf b \<Rightarrow> Inr b
     | Chunks chunks \<Rightarrow>
         let bufferSize = foldl (\<lambda>accum chunk. accum + chunk_size chunk) 0 chunks
         in rbind (rfold write_chunk chunks (new_buffer bufferSize, 0)) (\<lambda>(buf, off).
              if off \<noteq> length buf then Inl (JsError ''Could not decode chunks'') else Inr buf))"

function decompile_loop :: "buffer \<Rightarrow> nat \<Rightarrow> chunk list \<Rightarrow> chunk list res" where
  "decompile_loop buf i chunks =
     (if i < length buf then
        let opcode = unat (buf ! i) in
        if opcode > OP_0 \<and> opcode \<le> OP_PUSHDATA4 then
          rbind (readPushDataInt buf i) (\<lambda>d. case d of
              None \<Rightarrow> Inr []
            | Some d \<Rightarrow>
                let i = i + pi_size d in
                if i + pi_number d > length buf then Inr []
                else decompile_loop buf (i + pi_number d) (chunks @ [Data (slice buf i (i + pi_number d))]))
        else decompile_loop buf (i + 1) (chunks @ [Op opcode])
      else Inr chunks)"
  by pat_completeness auto

termination
  by (relation "measure (\<lambda>(buf, i, _). length buf - i)") (auto dest!: readPushDataInt_inside)

declare decompile_loop.simps [simp del]

definition decompile :: "script \<Rightarrow> chunk list res" where
  "decompile script = (case script of Chunks chunks \<Rightarrow> Inr chunks | Buf b \<Rightarrow> decompile_loop b 0 [])"

section \<open>Recognisers\<close>

text \<open>\<open>buffer[i]\<close> beyond the end is \<open>undefined\<close>, which the bitwise operators read as 0.\<close>

definition isCanonicalPubKey :: "chunk \<Rightarrow> bool" where
  "isCanonicalPubKey c = (case c of
       Op _ \<Rightarrow> False
     | Data b \<Rightarrow>
         if length b < 33 then False
         else if byte_at b 0 = Some 0x02 \<or> byte_at b 0 = Some 0x03 then length b = 33
         else if byte_at b 0 = Some 0x04 then length b = 65
         else False)"

definition isDefinedHashType :: "int \<Rightarrow> bool" where
  "isDefinedHashType hashType =
     (let hashTypeMod = js_and hashType (js_not 0x80) in hashTypeMod > 0x00 \<and> hashTypeMod < 0x04)"

text \<open>\<open>bip66_check\<close> stands for the \<open>check\<close> function of the bip66 package.\<close>

definition isCanonicalSignature :: "(buffer \<Rightarrow> bool) \<Rightarrow> chunk \<Rightarrow> bool" where
  "isCanonicalSignature bip66_check c = (case c of
       Op _ \<Rightarrow> False
     | Data b \<Rightarrow>
         if \<not> isDefinedHashType (case byte_at b (length b - 1) of Some t \<Rightarrow> int t | None \<Rightarrow> 0) then False
         else bip66_check (butlast b))"

definition isPubKeyHashInput :: "(buffer \<Rightarrow> bool) \<Rightarrow> script \<Rightarrow> bool res" where
  "isPubKeyHashInput bip66_check script =
     rbind (decompile script) (\<lambda>chunks.
       Inr (length chunks = 2 \<and> isCanonicalSignature bip66_check (chunks ! 0) \<and> isCanonicalPubKey (chunks ! 1)))"

definition isPubKeyHashOutput :: "script \<Rightarrow> bool res" where
  "isPubKeyHashOutput script =
     rbind (compile script) (\<lambda>b.
       Inr (length b = 25 \<and> byte_at b 0 = Some OP_DUP \<and> byte_at b 1 = Some OP_HASH160 \<and> byte_at b 2 = Some 0x14 \<and>
            byte_at b 23 = Some OP_EQUALVERIFY \<and> byte_at b 24 = Some OP_CHECKSIG))"

definition isPubKeyInput :: "(buffer \<Rightarrow> bool) \<Rightarrow> script \<Rightarrow> bool res" where
  "isPubKeyInput bip66_check script =
     rbind (decompile script) (\<lambda>chunks. Inr (length chunks = 1 \<and> isCanonicalSignature bip66_check (chunks ! 0)))"

definition isPubKeyOutput :: "script \<Rightarrow> bool res" where
  "isPubKeyOutput script =
     rbind (decompile script) (\<lambda>chunks.
       Inr (length chunks = 2 \<and> isCanonicalPubKey (chunks ! 0) \<and> chunks ! 1 = Op OP_CHECKSIG))"

definition isScriptHashOutput :: "script \<Rightarrow> bool res" where
  "isScriptHashOutput script =
     rbind (compile script) (\<lambda>b.
       Inr (length b = 23 \<and> byte_at b 0 = Some OP_HASH160 \<and> byte_at b 1 = Some 0x14 \<and> byte_at b 22 = Some OP_EQUAL))"

definition isMultisigInput :: "(buffer \<Rightarrow> bool) \<Rightarrow> script \<Rightarrow> bool \<Rightarrow> bool res" where
  "isMultisigInput bip66_check script allowIncomplete =
     rbind (decompile script) (\<lambda>chunks.
       if length chunks < 2 then Inr False
       else if chunks ! 0 \<noteq> Op OP_0 then Inr False
       else if allowIncomplete
       then Inr (list_all (\<lambda>chunk. chunk = Op OP_0 \<or> isCanonicalSignature bip66_check chunk) (drop 1 chunks))
       else Inr (list_all (isCanonicalSignature bip66_check) (drop 1 chunks)))"

definition isMultisigOutput :: "script \<Rightarrow> bool res" where
  "isMultisigOutput script =
     rbind (decompile script) (\<lambda>chunks.
       if length chunks < 4 then Inr False
       else if chunks ! (length chunks - 1) \<noteq> Op OP_CHECKMULTISIG then Inr False
       else case (chunks ! 0, chunks ! (length chunks - 2)) of
           (Op mOp, Op nOp) \<Rightarrow>
             let m = int mOp - int OP_INT_BASE; n = int nOp - int OP_INT_BASE
             in if m \<le> 0 then Inr False
                else if m > n then Inr False
                else if n > 16 then Inr False
                else if n \<noteq> int (length chunks) - 3 then Inr False
                else Inr (list_all isCanonicalPubKey (slice chunks 1 (length chunks - 2)))
         | _ \<Rightarrow> Inr False)"

definition isNullDataOutput :: "script \<Rightarrow> bool res" where
  "isNullDataOutput script =
     rbind (decompile script) (\<lambda>chunks. Inr (chunks \<noteq> [] \<and> chunks ! 0 = Op OP_RETURN))"

section \<open>Classification\<close>

definition classifyOutput :: "script \<Rightarrow> string res" where
  "classifyOutput script =
     rbind (decompile script) (\<lambda>chunks.
     rbind (isPubKeyHashOutput (Chunks chunks)) (\<lambda>p. if p then Inr ''pubkeyhash'' else
     rbind (isScriptHashOutput (Chunks chunks)) (\<lambda>p. if p then Inr ''scripthash'' else
     rbind (isMultisigOutput (Chunks chunks)) (\<lambda>p. if p then Inr ''multisig'' else
     rbind (isPubKeyOutput (Chunks chunks)) (\<lambda>p. if p then Inr ''pubkey'' else
     rbind (isNullDataOutput (Chunks chunks)) (\<lambda>p. if p then Inr ''nulldata'' else
     Inr ''nonstandard''))))))"

text \<open>\<open>classifyInput\<close> and \<open>isScriptHashInput\<close> call each other on ever shorter chunk lists.\<close>

definition chunk_count :: "script \<Rightarrow> nat" where
  "chunk_count script = (case decompile script of Inr chunks \<Rightarrow> length chunks | Inl _ \<Rightarrow> 0)"

lemma decompile_Chunks [simp]: "decompile (Chunks cs) = Inr cs"
  by (simp add: decompile_def)

function classifyInput :: "(buffer \<Rightarrow> bool) \<Rightarrow> script \<Rightarrow> bool \<Rightarrow> string res"
  and isScriptHashInput :: "(buffer \<Rightarrow> bool) \<Rightarrow> script \<Rightarrow> bool \<Rightarrow> bool res" where
  "classifyInput bip66_check script allowIncomplete =
     rbind (decompile script) (\<lambda>chunks.
     rbind (isPubKeyHashInput bip66_check (Chunks chunks)) (\<lambda>p. if p then Inr ''pubkeyhash'' else
     rbind (isMultisigInput bip66_check (Chunks chunks) allowIncomplete) (\<lambda>p. if p then Inr ''multisig'' else
     rbind (isScriptHashInput bip66_check (Chunks chunks) allowIncomplete) (\<lambda>p. if p then Inr ''scripthash'' else
     rbind (isPubKeyInput bip66_check (Chunks chunks)) (\<lambda>p. if p then Inr ''pubkey'' else
     Inr ''nonstandard'')))))"
| "isScriptHashInput bip66_check script allowIncomplete =
     rbind (decompile script) (\<lambda>chunks.
       if length chunks < 2 then Inr False
       else case chunks ! (length chunks - 1) of
           Op _ \<Rightarrow> Inr False
         | Data lastChunk \<Rightarrow>
             let scriptSigChunks = butlast chunks in
             rbind (decompile (Buf lastChunk)) (\<lambda>redeemScriptChunks.
               if redeemScriptChunks = [] then Inr False
               else rbind (classifyInput bip66_check (Chunks scriptSigChunks) allowIncomplete) (\<lambda>a.
                    rbind (classifyOutput (Chunks redeemScriptChunks)) (\<lambda>b. Inr (a = b)))))"
  by pat_completeness auto

termination
  by (relation "measure (\<lambda>x. case x of Inl (_, s, _) \<Rightarrow> 2 * chunk_count s + 1 | Inr (_, s, _) \<Rightarrow> 2 * chunk_count s)")
     (auto simp: chunk_count_def)

declare classifyInput.simps [simp del] isScriptHashInput.simps [simp del]

section \<open>Standard script templates\<close>

definition pubKeyOutput :: "buffer \<Rightarrow> buffer res" where
  "pubKeyOutput pubKey = compile (Chunks [Data pubKey, Op OP_CHECKSIG])"

definition pubKeyHashOutput :: "buffer \<Rightarrow> buffer res" where
  "pubKeyHashOutput pubKeyHash =
     rbind (Hash160bit pubKeyHash) (\<lambda>_.
       compile (Chunks [Op OP_DUP, Op OP_HASH160, Data pubKeyHash, Op OP_EQUALVERIFY, Op OP_CHECKSIG]))"

definition scriptHashOutput :: "buffer \<Rightarrow> buffer res" where
  "scriptHashOutput scriptHash =
     rbind (Hash160bit scriptHash) (\<lambda>_. compile (Chunks [Op OP_HASH160, Data scriptHash, Op OP_EQUAL]))"

definition multisigOutput :: "nat \<Rightarrow> buffer list \<Rightarrow> buffer res" where
  "multisigOutput m pubKeys =
     (let n = length pubKeys
      in if n < m then Inl (JsError ''Not enough pubKeys provided'')
         else compile (Chunks ([Op (OP_INT_BASE + m)] @ map Data pubKeys @
                               [Op (OP_INT_BASE + n), Op OP_CHECKMULTISIG])))"

definition pubKeyInput :: "buffer \<Rightarrow> buffer res" where
  "pubKeyInput signature = compile (Chunks [Data signature])"

definition pubKeyHashInput :: "buffer \<Rightarrow> buffer \<Rightarrow> buffer res" where
  "pubKeyHashInput signature pubKey = compile (Chunks [Data signature, Data pubKey])"

definition scriptHashInput :: "script \<Rightarrow> script \<Rightarrow> buffer res" where
  "scriptHashInput scriptSig scriptPubKey =
     rbind (decompile scriptSig) (\<lambda>scriptSigChunks.
     rbind (compile scriptPubKey) (\<lambda>serializedScriptPubKey.
       compile (Chunks (scriptSigChunks @ [Data serializedScriptPubKey]))))"

definition multisigInput :: "chunk list \<Rightarrow> script option \<Rightarrow> buffer res" where
  "multisigInput signatures scriptPubKey =
     rbind (case scriptPubKey of
         None \<Rightarrow> Inr ()
       | Some script \<Rightarrow>
           rbind (decompile script) (\<lambda>chunks.
           rbind (isMultisigOutput (Chunks chunks)) (\<lambda>ok.
             if \<not> ok then Inl (JsError ''Expected multisig scriptPubKey'')
             else case (chunks ! 0, chunks ! (length chunks - 2)) of
                 (Op mOp, Op nOp) \<Rightarrow>
                   let m = int mOp - int OP_INT_BASE; n = int nOp - int OP_INT_BASE
                   in if int (length signatures) < m then Inl (JsError ''Not enough signatures provided'')
                      else if int (length signatures) > n then Inl (JsError ''Too many signatures provided'')
                      else Inr ()
               | _ \<Rightarrow> Inr ())))
       (\<lambda>_. compile (Chunks ([Op OP_0] @ signatures)))"

definition nullDataOutput :: "buffer \<Rightarrow> buffer res" where
  "nullDataOutput data = compile (Chunks [Op OP_RETURN, Data data])"

section \<open>What compile writes\<close>

fun chunk_bytes :: "chunk \<Rightarrow> buffer" where
  "chunk_bytes (Data d) = push_prefix (length d) @ d"
| "chunk_bytes (Op opc) = [word_of_nat opc]"

fun writable_chunk :: "chunk \<Rightarrow> bool" where
  "writable_chunk (Data d) \<longleftrightarrow> length d < 2 ^ 32"
| "writable_chunk (Op opc) \<longleftrightarrow> opc < 256"

text \<open>The chunks that read back as themselves: no opcode that frames data, no empty data.\<close>

fun canonical_chunk :: "chunk \<Rightarrow> bool" where
  "canonical_chunk (Data d) \<longleftrightarrow> d \<noteq> [] \<and> length d < 2 ^ 32"
| "canonical_chunk (Op opc) \<longleftrightarrow> opc < 256 \<and> (opc = OP_0 \<or> OP_PUSHDATA4 < opc)"

lemma canonical_writable: "canonical_chunk c \<Longrightarrow> writable_chunk c"
  by (cases c) auto

lemma length_chunk_bytes [simp, buf_simps]: "length (chunk_bytes c) = chunk_size c"
  by (cases c) simp_all

interpretation chunk_w: field_writer write_chunk chunk_bytes writable_chunk
proof
  fix c :: chunk and pre rest :: buffer
  assume ok: "writable_chunk c" and len: "length (chunk_bytes c) \<le> length rest"
  show "write_chunk c (pre @ rest, length pre) =
      Inr ((pre @ chunk_bytes c) @ drop (length (chunk_bytes c)) rest, length (pre @ chunk_bytes c))"
  proof (cases c)
    case (Op opc)
    then show ?thesis
      using ok len writeLE_fill [of opc 1 rest pre] by (simp add: drop_Suc)
  next
    case (Data d)
    have "writePushDataInt (pre @ rest) (length d) (length pre) =
        Inr ((pre @ push_prefix (length d)) @ drop (pushDataSize (length d)) rest, pushDataSize (length d))"
      using Data ok len by (intro writePushDataInt_fill) simp_all
    moreover have "buf_copy d ((pre @ push_prefix (length d)) @ drop (pushDataSize (length d)) rest)
        (length (pre @ push_prefix (length d))) =
      ((pre @ push_prefix (length d)) @ d) @ drop (length d) (drop (pushDataSize (length d)) rest)"
      using len Data by (intro buf_copy_fill) simp
    moreover have "length (pre @ push_prefix (length d)) = length pre + pushDataSize (length d)" by simp
    ultimately show ?thesis
      unfolding Data by (simp only: write_chunk.simps rbind_simps prod.case Let_def) (simp add: add.commute [of "length d"])
  qed
qed

lemma buffer_size: "foldl (\<lambda>accum chunk. accum + chunk_size chunk) a cs = a + length (concat (map chunk_bytes cs))"
  by (induction cs arbitrary: a) simp_all

lemma compile_Buf [simp]: "compile (Buf b) = Inr b"
  by (simp add: compile_def)

lemma compile_Chunks [codec_laws]:
  assumes "list_all writable_chunk cs"
  shows "compile (Chunks cs) = Inr (concat (map chunk_bytes cs))"
  using chunk_w.fills_many [OF assms, of "new_buffer (length (concat (map chunk_bytes cs)))" "[]"]
  by (simp add: compile_def buffer_size)

section \<open>What decompile reads\<close>

lemma readPushDataInt_no_error:
  "i < length buf \<Longrightarrow> unat (buf ! i) \<le> OP_PUSHDATA4 \<Longrightarrow> \<exists>d. readPushDataInt buf i = Inr d"
  unfolding readPushDataInt_def by (simp only: readUInt8_nth rbind_simps) (auto simp: readLE_def)

text \<open>\<open>decompile\<close> never throws, and what it returns are chunks that can be written again.\<close>

fun readable_chunk :: "chunk \<Rightarrow> bool" where
  "readable_chunk (Data d) \<longleftrightarrow> length d < 2 ^ 32"
| "readable_chunk (Op opc) \<longleftrightarrow> opc < 256 \<and> (opc = OP_0 \<or> OP_PUSHDATA4 < opc)"

lemma readable_writable: "readable_chunk c \<Longrightarrow> writable_chunk c"
  by (cases c) auto

lemma canonical_readable: "canonical_chunk c \<longleftrightarrow> readable_chunk c \<and> c \<noteq> Data []"
  by (cases c) auto

lemma decompile_loop_total:
  "list_all readable_chunk acc \<Longrightarrow>
     \<exists>cs. decompile_loop buf i acc = Inr cs \<and> list_all readable_chunk cs"
proof (induction buf i acc rule: decompile_loop.induct)
  case (1 buf i acc)
  show ?case
  proof (cases "i < length buf \<and> unat (buf ! i) > OP_0 \<and> unat (buf ! i) \<le> OP_PUSHDATA4")
    case True
    then obtain d where d: "readPushDataInt buf i = Inr d" using readPushDataInt_no_error by blast
    show ?thesis
    proof (cases "d = None \<or> i + pi_size (the d) + pi_number (the d) > length buf")
      case True
      then show ?thesis
        using \<open>i < length buf \<and> _\<close> d by (auto simp: decompile_loop.simps [of buf i acc] Let_def split: option.splits)
    next
      case False
      then obtain e where e: "d = Some e" "i + pi_size e + pi_number e \<le> length buf" by auto
      have "length (slice buf (i + pi_size e) (i + pi_size e + pi_number e)) < 2 ^ 32"
        using readPushDataInt_inside [of buf i e] d e by simp
      then show ?thesis
        using True d e "1.IH"(1) [of "unat (buf ! i)" "Some e" e "i + pi_size e"] "1.prems"
        by (simp add: decompile_loop.simps [of buf i acc] Let_def)
    qed
  next
    case False
    then show ?thesis
      using "1.IH"(2) [of "unat (buf ! i)"] "1.prems"
      by (auto simp: decompile_loop.simps [of buf i acc] Let_def)
  qed
qed

lemma decompile_total: "\<exists>cs. decompile (Buf b) = Inr cs \<and> list_all readable_chunk cs"
  using decompile_loop_total [of "[]" b 0] by (simp add: decompile_def)

lemma decompile_loop_chunks:
  "list_all canonical_chunk cs \<Longrightarrow>
     decompile_loop (pre @ concat (map chunk_bytes cs)) (length pre) acc = Inr (acc @ cs)"
proof (induction cs arbitrary: pre acc)
  case Nil
  then show ?case by (simp add: decompile_loop.simps)
next
  case (Cons c cs)
  let ?rest = "concat (map chunk_bytes cs)"
  show ?case
  proof (cases c)
    case (Op opc)
    show ?thesis
      using Cons.prems Cons.IH [of "pre @ [word_of_nat opc]" "acc @ [c]"] Op
      by (subst decompile_loop.simps) (auto simp: Let_def nth_append)
  next
    case (Data d)
    let ?n = "length d"
    obtain opc where r: "readPushDataInt (pre @ push_prefix ?n @ (d @ ?rest)) (length pre) =
        Inr (Some \<lparr>pi_opcode = opc, pi_number = ?n, pi_size = pushDataSize ?n\<rparr>)"
      using readPushDataInt_prefix [of ?n pre "d @ ?rest"] Cons.prems Data by auto
    have lead: "0 < unat ((push_prefix ?n @ d @ ?rest) ! 0) \<and> unat ((push_prefix ?n @ d @ ?rest) ! 0) \<le> 78"
      using Cons.prems Data by (auto simp: push_prefix_def Suc_le_eq)
    let ?buf = "pre @ push_prefix ?n @ d @ ?rest"
    have IH: "decompile_loop ?buf (length pre + pushDataSize ?n + ?n) (acc @ [Data d]) = Inr (acc @ Data d # cs)"
      using Cons.prems Cons.IH [of "pre @ push_prefix ?n @ d" "acc @ [Data d]"] by (simp add: add.assoc)
    have sl: "slice ?buf (length pre + pushDataSize ?n) (length pre + pushDataSize ?n + ?n) = d"
      using slice_middle [of "pre @ push_prefix ?n" d ?rest] by simp
    have "length pre < length ?buf" "?buf ! length pre = (push_prefix ?n @ d @ ?rest) ! 0"
      using nth_append_length_plus [of pre "push_prefix ?n @ d @ ?rest" 0] by simp_all
    then show ?thesis
      using Data r lead IH sl
      by (subst decompile_loop.simps) (simp add: Let_def del: One_nat_def)
  qed
qed

lemma decompile_concat [codec_laws]:
  "list_all canonical_chunk cs \<Longrightarrow> decompile (Buf (concat (map chunk_bytes cs))) = Inr cs"
  using decompile_loop_chunks [of cs "[]" "[]"] by (simp add: decompile_def)

lemma chunk_bytes_inject:
  assumes "list_all canonical_chunk cs" "list_all canonical_chunk ds"
    "concat (map chunk_bytes cs) = concat (map chunk_bytes ds)"
  shows "cs = ds"
  using decompile_concat [OF assms(1)] decompile_concat [OF assms(2)] unfolding assms(3)
  by (metis sum.inject(2))

text \<open>Writing and reading a list of readable chunks changes only the empty pushes: an empty push
  is the byte of \<open>OP_0\<close>.\<close>

fun canonicalise :: "chunk \<Rightarrow> chunk" where
  "canonicalise (Data d) = (if d = [] then Op OP_0 else Data d)"
| "canonicalise (Op opc) = Op opc"

lemma canonicalise_canonical: "readable_chunk c \<Longrightarrow> canonical_chunk (canonicalise c)"
  by (cases c) auto

lemma canonicalise_bytes [simp]: "chunk_bytes (canonicalise c) = chunk_bytes c"
  by (cases c) (auto simp: push_prefix_def)

lemma compile_decompile:
  assumes "list_all readable_chunk cs"
  shows "compile (Chunks cs) = Inr (concat (map chunk_bytes cs)) \<and>
         decompile (Buf (concat (map chunk_bytes cs))) = Inr (map canonicalise cs)"
proof -
  have "list_all canonical_chunk (map canonicalise cs)"
    using assms by (auto simp: list_all_iff canonicalise_canonical)
  then have "decompile (Buf (concat (map chunk_bytes (map canonicalise cs)))) = Inr (map canonicalise cs)"
    by (rule decompile_concat)
  moreover have "map chunk_bytes (map canonicalise cs) = map chunk_bytes cs" by simp
  moreover have "list_all writable_chunk cs"
    using assms by (auto simp: list_all_iff readable_writable)
  ultimately show ?thesis using compile_Chunks by (simp only: simp_thms)
qed

section \<open>The grammar of scripts\<close>

text \<open>What a byte string may be read as. A push is announced by its length, or by one of the three
  framing opcodes and the length in one, two or four bytes; every other byte is an opcode.\<close>

definition push_wire :: "nat \<Rightarrow> buffer \<Rightarrow> bool" where
  "push_wire n h \<longleftrightarrow>
     0 < n \<and> n \<le> 75 \<and> h = [word_of_nat n] \<or>
     n < 2 ^ 8 \<and> h = 76 # le_bytes 1 n \<or>
     n < 2 ^ 16 \<and> h = 77 # le_bytes 2 n \<or>
     n < 2 ^ 32 \<and> h = 78 # le_bytes 4 n"

inductive script_wire :: "buffer \<Rightarrow> chunk list \<Rightarrow> bool" where
  wire_end: "script_wire [] []"
| wire_op: "opc = 0 \<or> 78 < opc \<Longrightarrow> opc < 256 \<Longrightarrow> script_wire bs cs \<Longrightarrow> script_wire (word_of_nat opc # bs) (Op opc # cs)"
| wire_push: "push_wire (length d) h \<Longrightarrow> script_wire bs cs \<Longrightarrow> script_wire (h @ d @ bs) (Data d # cs)"

lemma push_wire_read:
  assumes "push_wire n h"
  shows "\<exists>opc. readPushDataInt (pre @ h @ post) (length pre) = Inr (Some \<lparr>pi_opcode = opc, pi_number = n, pi_size = length h\<rparr>)"
    and "h \<noteq> []" "0 < unat (hd h)" "unat (hd h) \<le> 78"
proof -
  consider (direct) "0 < n" "n \<le> 75" "h = [word_of_nat n]" | (one) "n < 2 ^ 8" "h = 76 # le_bytes 1 n" |
    (two) "n < 2 ^ 16" "h = 77 # le_bytes 2 n" | (four) "n < 2 ^ 32" "h = 78 # le_bytes 4 n"
    using assms unfolding push_wire_def by argo
  then have "(\<exists>opc. readPushDataInt (pre @ h @ post) (length pre) = Inr (Some \<lparr>pi_opcode = opc, pi_number = n, pi_size = length h\<rparr>)) \<and>
      h \<noteq> [] \<and> 0 < unat (hd h) \<and> unat (hd h) \<le> 78"
  proof cases
    case direct
    then have "unat (word_of_nat n :: byte) = n" by (simp add: unat_of_nat)
    then show ?thesis using direct readLE_middle [of h 1 pre post] by (simp add: readPushDataInt_def)
  next
    case one
    then show ?thesis
      using readLE_middle [of "[76]" 1 pre "le_bytes 1 n @ post"] readLE_after [of n 1 "length pre + 1" pre "[76]" post]
      by (simp add: readPushDataInt_def del: One_nat_def le_bytes.simps)
  next
    case two
    then show ?thesis
      using readLE_middle [of "[77]" 1 pre "le_bytes 2 n @ post"] readLE_after [of n 2 _ pre "[77]" post]
      by (simp add: readPushDataInt_def)
  next
    case four
    then show ?thesis
      using readLE_middle [of "[78]" 1 pre "le_bytes 4 n @ post"] readLE_after [of n 4 _ pre "[78]" post]
      by (simp add: readPushDataInt_def)
  qed
  then show "\<exists>opc. readPushDataInt (pre @ h @ post) (length pre) = Inr (Some \<lparr>pi_opcode = opc, pi_number = n, pi_size = length h\<rparr>)"
    "h \<noteq> []" "0 < unat (hd h)" "unat (hd h) \<le> 78" by blast+
qed

lemma framed_slice:
  assumes "readLE k buf (i + 1) = Inr n" "i < length buf"
  shows "slice buf i (i + (k + 1)) = buf ! i # le_bytes k n" "n < 256 ^ k"
proof -
  have "slice buf i (i + (k + 1)) = buf ! i # slice buf (i + 1) (i + 1 + k)"
    using assms(2) by (simp add: slice_def Cons_nth_drop_Suc [symmetric])
  moreover have "slice buf (i + 1) (i + 1 + k) = le_bytes k n"
    using le_bytes_le_nat [of "slice buf (i + 1) (i + 1 + k)"] assms(1)
    by (auto simp: readLE_def min_absorb1 split: if_splits)
  ultimately show "slice buf i (i + (k + 1)) = buf ! i # le_bytes k n" by simp
  show "n < 256 ^ k" by (rule readLE_bound [OF assms(1)])
qed

lemma readPushDataInt_nth:
  assumes "i < length buf"
  shows "readPushDataInt buf i =
    (if unat (buf ! i) < 76 then Inr (Some \<lparr>pi_opcode = unat (buf ! i), pi_number = unat (buf ! i), pi_size = 1\<rparr>)
     else if unat (buf ! i) = 76 then
       (if i + 2 > length buf then Inr None
        else rbind (readLE 1 buf (i + 1)) (\<lambda>n. Inr (Some \<lparr>pi_opcode = unat (buf ! i), pi_number = n, pi_size = 2\<rparr>)))
     else if unat (buf ! i) = 77 then
       (if i + 3 > length buf then Inr None
        else rbind (readLE 2 buf (i + 1)) (\<lambda>n. Inr (Some \<lparr>pi_opcode = unat (buf ! i), pi_number = n, pi_size = 3\<rparr>)))
     else if i + 5 > length buf then Inr None
     else if unat (buf ! i) \<noteq> 78 then Inl (JsError ''Unexpected opcode'')
     else rbind (readLE 4 buf (i + 1)) (\<lambda>n. Inr (Some \<lparr>pi_opcode = unat (buf ! i), pi_number = n, pi_size = 5\<rparr>)))"
  by (simp only: readPushDataInt_def readUInt8_nth [OF assms] rbind_simps)

lemma read_push_wire:
  assumes "readPushDataInt buf i = Inr (Some d)" "i < length buf" "0 < unat (buf ! i)" "unat (buf ! i) \<le> 78"
  shows "push_wire (pi_number d) (slice buf i (i + pi_size d))"
proof -
  have opc: "buf ! i = word_of_nat (unat (buf ! i))" by simp
  note read = assms(1) [unfolded readPushDataInt_nth [OF assms(2)]]
  consider (direct) "unat (buf ! i) \<le> 75" | (one) "unat (buf ! i) = 76" | (two) "unat (buf ! i) = 77" | (four) "unat (buf ! i) = 78"
    using assms(4) by linarith
  then show ?thesis
  proof cases
    case direct
    then have "d = \<lparr>pi_opcode = unat (buf ! i), pi_number = unat (buf ! i), pi_size = 1\<rparr>" using read by simp
    moreover have "slice buf i (i + 1) = [buf ! i]" using assms(2) by (simp add: slice_def take_Suc_conv_app_nth)
    ultimately show ?thesis using direct assms(3) by (simp add: push_wire_def del: One_nat_def)
  next
    case one
    then obtain n where n: "readLE 1 buf (i + 1) = Inr n" "d = \<lparr>pi_opcode = 76, pi_number = n, pi_size = 2\<rparr>"
      using read by (auto simp del: One_nat_def split: if_splits)
    moreover have "buf ! i = 76" using opc one by simp
    ultimately show ?thesis using framed_slice [OF n(1) assms(2)] by (simp add: push_wire_def del: One_nat_def le_bytes.simps)
  next
    case two
    then obtain n where n: "readLE 2 buf (i + 1) = Inr n" "d = \<lparr>pi_opcode = 77, pi_number = n, pi_size = 3\<rparr>"
      using read by (auto simp del: One_nat_def split: if_splits)
    moreover have "buf ! i = 77" using opc two by simp
    ultimately show ?thesis using framed_slice [OF n(1) assms(2)] by (simp add: push_wire_def del: le_bytes.simps)
  next
    case four
    then obtain n where n: "readLE 4 buf (i + 1) = Inr n" "d = \<lparr>pi_opcode = 78, pi_number = n, pi_size = 5\<rparr>"
      using read by (auto simp del: One_nat_def split: if_splits)
    moreover have "buf ! i = 78" using opc four by simp
    ultimately show ?thesis using framed_slice [OF n(1) assms(2)] by (simp add: push_wire_def del: le_bytes.simps)
  qed
qed

lemma decompile_loop_wire:
  "script_wire bs cs \<Longrightarrow> decompile_loop (pre @ bs) (length pre) acc = Inr (acc @ cs)"
proof (induction bs cs arbitrary: pre acc rule: script_wire.induct)
  case wire_end
  then show ?case by (simp add: decompile_loop.simps)
next
  case (wire_op opc bs cs)
  then have "unat (word_of_nat opc :: byte) = opc" by (simp add: unat_of_nat)
  then show ?case
    using wire_op.hyps(1) wire_op.IH [of "pre @ [word_of_nat opc]" "acc @ [Op opc]"]
    by (subst decompile_loop.simps) (auto simp: Let_def nth_append)
next
  case (wire_push d h bs cs)
  let ?buf = "pre @ h @ d @ bs"
  note h = push_wire_read [OF wire_push.hyps(1)]
  obtain opc where r: "readPushDataInt ?buf (length pre) = Inr (Some \<lparr>pi_opcode = opc, pi_number = length d, pi_size = length h\<rparr>)"
    using h(1) [of pre "d @ bs"] by auto
  have lead: "length pre < length ?buf" "?buf ! length pre = hd h" using h(2) by (cases h; simp add: nth_append)+
  have sl: "slice ?buf (length pre + length h) (length pre + length h + length d) = d"
    using slice_middle [of "pre @ h" d bs] by simp
  have IH: "decompile_loop ?buf (length pre + length h + length d) (acc @ [Data d]) = Inr (acc @ Data d # cs)"
    using wire_push.IH [of "pre @ h @ d" "acc @ [Data d]"] by (simp add: add.assoc)
  show ?case
    using lead h(3,4) r sl IH by (subst decompile_loop.simps) (simp add: Let_def del: One_nat_def)
qed

lemma drop_push:
  assumes "i + m + n \<le> length buf"
  shows "drop i buf = slice buf i (i + m) @ slice buf (i + m) (i + m + n) @ drop (i + m + n) buf"
  using append_take_drop_id [of m "drop i buf"] append_take_drop_id [of n "drop (i + m) buf"]
  by (simp add: slice_def add.commute add.left_commute)

lemma decompile_loop_no_wire:
  "(\<nexists>cs. script_wire (drop i buf) cs) \<Longrightarrow> decompile_loop buf i acc = Inr []"
proof (induction buf i acc rule: decompile_loop.induct)
  case (1 buf i acc)
  have i: "i < length buf" using "1.prems" wire_end by (metis drop_all not_less)
  then have b: "drop i buf = buf ! i # drop (i + 1) buf" by (simp add: Cons_nth_drop_Suc)
  show ?case
  proof (cases "unat (buf ! i) > OP_0 \<and> unat (buf ! i) \<le> OP_PUSHDATA4")
    case True
    then obtain d where d: "readPushDataInt buf i = Inr d" using readPushDataInt_no_error i by blast
    show ?thesis
    proof (cases "d = None \<or> i + pi_size (the d) + pi_number (the d) > length buf")
      case True
      then show ?thesis
        using \<open>_ \<and> _\<close> d i by (auto simp: decompile_loop.simps [of buf i acc] Let_def split: option.splits)
    next
      case False
      then obtain e where e: "d = Some e" "i + pi_size e + pi_number e \<le> length buf" by auto
      have p: "push_wire (pi_number e) (slice buf i (i + pi_size e))"
        using read_push_wire [of buf i e] d e(1) i True by simp
      have l: "length (slice buf (i + pi_size e) (i + pi_size e + pi_number e)) = pi_number e"
        using e(2) by (simp add: slice_def)
      have "\<nexists>cs. script_wire (drop (i + pi_size e + pi_number e) buf) cs"
        using "1.prems" wire_push [of "slice buf (i + pi_size e) (i + pi_size e + pi_number e)" "slice buf i (i + pi_size e)"] p
        unfolding drop_push [OF e(2)] l by blast
      then show ?thesis
        using True d e i "1.IH"(1) [of "unat (buf ! i)" "Some e" e "i + pi_size e"]
        by (simp add: decompile_loop.simps [of buf i acc] Let_def)
    qed
  next
    case False
    then have "\<nexists>cs. script_wire (drop (i + 1) buf) cs"
      using "1.prems" wire_op [of "unat (buf ! i)" "drop (i + 1) buf"] unsigned_less [of "buf ! i"] unfolding b by auto
    then show ?thesis
      using False i "1.IH"(2) [of "unat (buf ! i)"]
      by (auto simp: decompile_loop.simps [of buf i acc] Let_def)
  qed
qed

lemma decompile_wire:
  "decompile (Buf b) = Inr cs \<longleftrightarrow> script_wire b cs \<or> cs = [] \<and> (\<nexists>ds. script_wire b ds)"
proof (cases "\<exists>ds. script_wire b ds")
  case True
  then obtain ds where ds: "script_wire b ds" by blast
  have "es = ds" if "script_wire b es" for es
    using decompile_loop_wire [OF ds, of "[]" "[]"] decompile_loop_wire [OF that, of "[]" "[]"] by simp
  moreover have "decompile (Buf b) = Inr ds" using decompile_loop_wire [OF ds, of "[]" "[]"] by (simp add: decompile_def)
  ultimately show ?thesis using ds by (metis sum.inject(2))
next
  case False
  then have "decompile (Buf b) = Inr []" using decompile_loop_no_wire [of 0 b "[]"] by (simp add: decompile_def)
  with False show ?thesis by auto
qed

lemma canonical_wire: "list_all canonical_chunk cs \<Longrightarrow> script_wire (concat (map chunk_bytes cs)) cs"
proof (induction cs)
  case (Cons c cs)
  show ?case
  proof (cases c)
    case (Data d)
    then have "push_wire (length d) (push_prefix (length d))"
      using Cons.prems by (auto simp: push_wire_def push_prefix_def Suc_le_eq)
    then show ?thesis using Cons Data wire_push by simp
  qed (use Cons wire_op in auto)
qed (simp add: wire_end)

section \<open>Templates: builders against recognisers\<close>

text \<open>A template promises that its builder compiles a fixed chunk list, that these chunks read
  back as themselves, and that its recogniser accepts the bytes that come from them.\<close>

locale script_template =
  fixes build :: "'a \<Rightarrow> buffer res"
    and shape :: "'a \<Rightarrow> chunk list"
    and recognise :: "script \<Rightarrow> bool res"
    and ok :: "'a \<Rightarrow> bool"
  assumes build_shape: "ok x \<Longrightarrow> build x = compile (Chunks (shape x))"
    and shape_canonical: "ok x \<Longrightarrow> list_all canonical_chunk (shape x)"
    and recognised: "ok x \<Longrightarrow> recognise (Chunks (shape x)) = Inr True"
    and same_view: "decompile (Buf b) = Inr cs \<Longrightarrow> compile (Chunks cs) = Inr b \<Longrightarrow>
      recognise (Buf b) = recognise (Chunks cs)"
begin

lemma built:
  assumes "ok x"
  shows "\<exists>b. build x = Inr b \<and> b = concat (map chunk_bytes (shape x)) \<and>
           decompile (Buf b) = Inr (shape x) \<and> recognise (Buf b) = Inr True"
proof -
  let ?b = "concat (map chunk_bytes (shape x))"
  have "list_all writable_chunk (shape x)"
    using shape_canonical [OF assms] by (auto simp: list_all_iff canonical_writable)
  then have c: "compile (Chunks (shape x)) = Inr ?b" by (rule compile_Chunks)
  moreover have "decompile (Buf ?b) = Inr (shape x)"
    using shape_canonical [OF assms] by (rule decompile_concat)
  ultimately show ?thesis
    using build_shape [OF assms] recognised [OF assms] same_view by auto
qed

end

lemma isPubKeyHashOutput_chunks:
  "length h = 20 \<Longrightarrow>
     isPubKeyHashOutput (Chunks [Op OP_DUP, Op OP_HASH160, Data h, Op OP_EQUALVERIFY, Op OP_CHECKSIG]) = Inr True"
  by (simp add: isPubKeyHashOutput_def compile_Chunks push_prefix_def byte_at_def nth_append pushDataSize_def)

lemma isScriptHashOutput_chunks:
  "length h = 20 \<Longrightarrow> isScriptHashOutput (Chunks [Op OP_HASH160, Data h, Op OP_EQUAL]) = Inr True"
  by (simp add: isScriptHashOutput_def compile_Chunks push_prefix_def byte_at_def nth_append pushDataSize_def)

interpretation pubKeyHash_t: script_template pubKeyHashOutput
  "\<lambda>h. [Op OP_DUP, Op OP_HASH160, Data h, Op OP_EQUALVERIFY, Op OP_CHECKSIG]"
  isPubKeyHashOutput "\<lambda>h. length h = 20"
  using isPubKeyHashOutput_chunks
  by unfold_locales (auto simp: pubKeyHashOutput_def nBuffer_ok Hash160bit_def isPubKeyHashOutput_def)

interpretation scriptHash_t: script_template scriptHashOutput
  "\<lambda>h. [Op OP_HASH160, Data h, Op OP_EQUAL]" isScriptHashOutput "\<lambda>h. length h = 20"
  using isScriptHashOutput_chunks
  by unfold_locales (auto simp: scriptHashOutput_def nBuffer_ok Hash160bit_def isScriptHashOutput_def)

interpretation pubKey_t: script_template pubKeyOutput "\<lambda>k. [Data k, Op OP_CHECKSIG]"
  isPubKeyOutput "\<lambda>k. isCanonicalPubKey (Data k)"
  by unfold_locales (auto simp: pubKeyOutput_def isPubKeyOutput_def isCanonicalPubKey_def split: if_splits)

abbreviation multisig_shape :: "nat \<times> buffer list \<Rightarrow> chunk list" where
  "multisig_shape \<equiv> \<lambda>(m, ks). [Op (OP_INT_BASE + m)] @ map Data ks @ [Op (OP_INT_BASE + length ks), Op OP_CHECKMULTISIG]"

abbreviation multisig_ok :: "nat \<times> buffer list \<Rightarrow> bool" where
  "multisig_ok \<equiv> \<lambda>(m, ks). 0 < m \<and> m \<le> length ks \<and> length ks \<le> 16 \<and> list_all (\<lambda>k. isCanonicalPubKey (Data k)) ks"

lemma isCanonicalPubKey_length: "isCanonicalPubKey (Data k) \<Longrightarrow> length k = 33 \<or> length k = 65"
  by (auto simp: isCanonicalPubKey_def split: if_splits)

lemma isMultisigOutput_shape: "multisig_ok x \<Longrightarrow> isMultisigOutput (Chunks (multisig_shape x)) = Inr True"
  by (cases x) (auto simp: isMultisigOutput_def nth_append slice_def list_all_iff)

interpretation multisig_t: script_template "\<lambda>(m, ks). multisigOutput m ks" multisig_shape
  isMultisigOutput multisig_ok
proof (unfold_locales, goal_cases)
  case (1 x)
  then show ?case by (auto simp: multisigOutput_def)
next
  case (2 x)
  then show ?case using isCanonicalPubKey_length by (fastforce simp: list_all_iff)
next
  case (3 x)
  then show ?case by (rule isMultisigOutput_shape)
next
  case (4 b cs)
  then show ?case by (simp add: isMultisigOutput_def)
qed

interpretation nullData_t: script_template nullDataOutput "\<lambda>d. [Op OP_RETURN, Data d]"
  isNullDataOutput "\<lambda>d. d \<noteq> [] \<and> length d < 2 ^ 32"
  by unfold_locales (auto simp: nullDataOutput_def isNullDataOutput_def)

lemma isCanonicalSignature_nonempty: "isCanonicalSignature bip66_check (Data s) \<Longrightarrow> s \<noteq> []"
  by (auto simp: isCanonicalSignature_def isDefinedHashType_def byte_at_def js_and_def js_not_def)

interpretation pubKeyInput_t: script_template pubKeyInput "\<lambda>s. [Data s]" "isPubKeyInput bip66_check"
  "\<lambda>s. isCanonicalSignature bip66_check (Data s) \<and> length s < 2 ^ 32" for bip66_check
  using isCanonicalSignature_nonempty
  by unfold_locales (auto simp: pubKeyInput_def isPubKeyInput_def)

interpretation pubKeyHashInput_t: script_template "\<lambda>(s, k). pubKeyHashInput s k" "\<lambda>(s, k). [Data s, Data k]"
  "isPubKeyHashInput bip66_check"
  "\<lambda>(s, k). isCanonicalSignature bip66_check (Data s) \<and> length s < 2 ^ 32 \<and> isCanonicalPubKey (Data k)" for bip66_check
  using isCanonicalSignature_nonempty isCanonicalPubKey_length
  by unfold_locales (fastforce simp: pubKeyHashInput_def isPubKeyHashInput_def)+

text \<open>A multisig input without its script; \<open>OP_0\<close> may stand for a missing signature.\<close>

interpretation multisigInput_t: script_template "\<lambda>ss. multisigInput ss None" "\<lambda>ss. Op OP_0 # ss"
  "\<lambda>script. isMultisigInput bip66_check script True"
  "\<lambda>ss. ss \<noteq> [] \<and> list_all (\<lambda>c. c = Op OP_0 \<or> isCanonicalSignature bip66_check c \<and> canonical_chunk c) ss" for bip66_check
  by unfold_locales (auto simp: multisigInput_def isMultisigInput_def list_all_iff Suc_le_eq)

section \<open>Which bytes a recogniser accepts\<close>

lemma byte_at_Some: "byte_at b i = Some v \<longleftrightarrow> i < length b \<and> b ! i = word_of_nat v \<and> v < 256"
  by (auto simp: byte_at_def)

lemma split_frame:
  assumes "length b = m + k + n"
  shows "b = map ((!) b) [0..<m] @ take k (drop m b) @ map (\<lambda>i. b ! (m + k + i)) [0..<n]"
proof -
  have "b = take m b @ take k (drop m b) @ drop (m + k) b"
    by (metis append_take_drop_id drop_drop add.commute)
  moreover have "take m b = map ((!) b) [0..<m]"
    using assms by (intro nth_equalityI) simp_all
  moreover have "drop (m + k) b = map (\<lambda>i. b ! (m + k + i)) [0..<n]"
    using assms by (intro nth_equalityI) (simp_all add: add.commute)
  ultimately show ?thesis by metis
qed

definition p2pkh_chunks :: "buffer \<Rightarrow> chunk list" where
  "p2pkh_chunks h = [Op OP_DUP, Op OP_HASH160, Data h, Op OP_EQUALVERIFY, Op OP_CHECKSIG]"

definition p2sh_chunks :: "buffer \<Rightarrow> chunk list" where
  "p2sh_chunks h = [Op OP_HASH160, Data h, Op OP_EQUAL]"

lemma isPubKeyHashOutput_bytes:
  "isPubKeyHashOutput (Buf b) = Inr True \<longleftrightarrow>
     (\<exists>h. length h = 20 \<and> b = [0x76, 0xa9, 0x14] @ h @ [0x88, 0xac])"
proof
  assume r: "isPubKeyHashOutput (Buf b) = Inr True"
  then have "length b = 3 + 20 + 2" by (simp add: isPubKeyHashOutput_def)
  from split_frame [OF this]
  have "b = [b ! 0, b ! 1, b ! 2] @ take 20 (drop 3 b) @ [b ! 23, b ! 24]"
    by (simp add: upt_rec numeral_eq_Suc)
  moreover have "length (take 20 (drop 3 b)) = 20" using \<open>length b = 3 + 20 + 2\<close> by simp
  moreover have "b ! 0 = 0x76" "b ! 1 = 0xa9" "b ! 2 = 0x14" "b ! 23 = 0x88" "b ! 24 = 0xac"
    using r by (auto simp: isPubKeyHashOutput_def byte_at_Some)
  ultimately show "\<exists>h. length h = 20 \<and> b = [0x76, 0xa9, 0x14] @ h @ [0x88, 0xac]"
    by metis
qed (auto simp: isPubKeyHashOutput_def byte_at_def nth_append)

lemma isScriptHashOutput_bytes:
  "isScriptHashOutput (Buf b) = Inr True \<longleftrightarrow>
     (\<exists>h. length h = 20 \<and> b = [0xa9, 0x14] @ h @ [0x87])"
proof
  assume r: "isScriptHashOutput (Buf b) = Inr True"
  then have "length b = 2 + 20 + 1" by (simp add: isScriptHashOutput_def)
  from split_frame [OF this]
  have "b = [b ! 0, b ! 1] @ take 20 (drop 2 b) @ [b ! 22]"
    by (simp add: upt_rec numeral_eq_Suc)
  moreover have "length (take 20 (drop 2 b)) = 20" using \<open>length b = 2 + 20 + 1\<close> by simp
  moreover have "b ! 0 = 0xa9" "b ! 1 = 0x14" "b ! 22 = 0x87"
    using r by (auto simp: isScriptHashOutput_def byte_at_Some)
  ultimately show "\<exists>h. length h = 20 \<and> b = [0xa9, 0x14] @ h @ [0x87]"
    by metis
qed (auto simp: isScriptHashOutput_def byte_at_def nth_append)

lemma p2pkh_bytes: "length h = 20 \<Longrightarrow> concat (map chunk_bytes (p2pkh_chunks h)) = [0x76, 0xa9, 0x14] @ h @ [0x88, 0xac]"
  by (simp add: p2pkh_chunks_def push_prefix_def)

lemma p2sh_bytes: "length h = 20 \<Longrightarrow> concat (map chunk_bytes (p2sh_chunks h)) = [0xa9, 0x14] @ h @ [0x87]"
  by (simp add: p2sh_chunks_def push_prefix_def)

text \<open>A list of readable chunks whose bytes are those of a shape without empty pushes is the shape.\<close>

lemma chunks_of_bytes:
  assumes "list_all readable_chunk cs" "list_all canonical_chunk ds" "Op OP_0 \<notin> set ds"
    "concat (map chunk_bytes cs) = concat (map chunk_bytes ds)"
  shows "cs = ds"
proof -
  have "decompile (Buf (concat (map chunk_bytes ds))) = Inr (map canonicalise cs)"
    using compile_decompile [OF assms(1)] unfolding assms(4) by blast
  then have eq: "map canonicalise cs = ds"
    using decompile_concat [OF assms(2)] by (metis sum.inject(2))
  have "canonicalise c = c" if "c \<in> set cs" for c
  proof -
    have "canonicalise c \<in> set ds" using that unfolding eq [symmetric] by simp
    then show ?thesis using assms(3) by (cases c) (auto split: if_splits)
  qed
  then show ?thesis using eq by (metis map_idI)
qed

lemma isPubKeyHashOutput_iff:
  assumes "list_all readable_chunk cs"
  shows "isPubKeyHashOutput (Chunks cs) = Inr True \<longleftrightarrow> (\<exists>h. length h = 20 \<and> cs = p2pkh_chunks h)"
proof -
  have c: "isPubKeyHashOutput (Chunks cs) = isPubKeyHashOutput (Buf (concat (map chunk_bytes cs)))"
    using compile_decompile [OF assms] by (simp add: isPubKeyHashOutput_def)
  have "concat (map chunk_bytes cs) = [0x76, 0xa9, 0x14] @ h @ [0x88, 0xac] \<longleftrightarrow> cs = p2pkh_chunks h"
    if "length h = 20" for h
    using chunks_of_bytes [OF assms, of "p2pkh_chunks h"] p2pkh_bytes [OF that] that
    by (cases "h = []") (auto simp: p2pkh_chunks_def)
  then show ?thesis unfolding c isPubKeyHashOutput_bytes by blast
qed

lemma isScriptHashOutput_iff:
  assumes "list_all readable_chunk cs"
  shows "isScriptHashOutput (Chunks cs) = Inr True \<longleftrightarrow> (\<exists>h. length h = 20 \<and> cs = p2sh_chunks h)"
proof -
  have c: "isScriptHashOutput (Chunks cs) = isScriptHashOutput (Buf (concat (map chunk_bytes cs)))"
    using compile_decompile [OF assms] by (simp add: isScriptHashOutput_def)
  have "concat (map chunk_bytes cs) = [0xa9, 0x14] @ h @ [0x87] \<longleftrightarrow> cs = p2sh_chunks h"
    if "length h = 20" for h
    using chunks_of_bytes [OF assms, of "p2sh_chunks h"] p2sh_bytes [OF that] that
    by (cases "h = []") (auto simp: p2sh_chunks_def)
  then show ?thesis unfolding c isScriptHashOutput_bytes by blast
qed

text \<open>On readable chunks every recogniser answers.\<close>

lemma isPubKeyHashOutput_False:
  "list_all readable_chunk cs \<Longrightarrow> \<nexists>h. length h = 20 \<and> cs = p2pkh_chunks h \<Longrightarrow>
     isPubKeyHashOutput (Chunks cs) = Inr False"
  using isPubKeyHashOutput_iff [of cs] compile_decompile [of cs] by (auto simp: isPubKeyHashOutput_def)

lemma isScriptHashOutput_False:
  "list_all readable_chunk cs \<Longrightarrow> \<nexists>h. length h = 20 \<and> cs = p2sh_chunks h \<Longrightarrow>
     isScriptHashOutput (Chunks cs) = Inr False"
  using isScriptHashOutput_iff [of cs] compile_decompile [of cs] by (auto simp: isScriptHashOutput_def)

definition is_pubkey_chunks :: "chunk list \<Rightarrow> bool" where
  "is_pubkey_chunks cs \<longleftrightarrow> (\<exists>k. isCanonicalPubKey (Data k) \<and> cs = [Data k, Op OP_CHECKSIG])"

lemma isCanonicalPubKey_Data: "isCanonicalPubKey c \<longleftrightarrow> (\<exists>k. c = Data k \<and> isCanonicalPubKey (Data k))"
  by (cases c) (auto simp: isCanonicalPubKey_def)

lemma isPubKeyOutput_iff: "isPubKeyOutput (Chunks cs) = Inr (is_pubkey_chunks cs)"
  by (auto simp: isPubKeyOutput_def is_pubkey_chunks_def isCanonicalPubKey_Data [of "cs ! 0"] length_Suc_conv
      numeral_2_eq_2)

definition is_multisig_chunks :: "chunk list \<Rightarrow> bool" where
  "is_multisig_chunks cs \<longleftrightarrow> (\<exists>x. multisig_ok x \<and> cs = multisig_shape x)"

lemma list_frame3:
  assumes "3 \<le> length cs"
  shows "cs = [cs ! 0] @ slice cs 1 (length cs - 2) @ [cs ! (length cs - 2), cs ! (length cs - 1)]"
proof -
  obtain n where n: "length cs = n + 3" using assms by (metis add.commute le_Suc_ex)
  have "length cs = 1 + n + 2" using n by simp
  from split_frame [OF this]
  show ?thesis using n by (simp add: upt_rec numeral_eq_Suc slice_def)
qed

lemma canonical_keys:
  "list_all isCanonicalPubKey cs \<Longrightarrow> \<exists>ks. cs = map Data ks \<and> list_all (\<lambda>k. isCanonicalPubKey (Data k)) ks"
proof (induction cs)
  case (Cons c cs)
  then obtain ks k where "cs = map Data ks" "list_all (\<lambda>k. isCanonicalPubKey (Data k)) ks"
      "c = Data k" "isCanonicalPubKey (Data k)"
    using isCanonicalPubKey_Data [of c] by auto
  then show ?case by (intro exI [of _ "k # ks"]) simp
qed simp

lemma isMultisigOutput_iff: "isMultisigOutput (Chunks cs) = Inr (is_multisig_chunks cs)"
proof (cases "is_multisig_chunks cs")
  case True
  then obtain x where x: "multisig_ok x" and cs: "cs = multisig_shape x"
    unfolding is_multisig_chunks_def by (elim exE conjE)
  show ?thesis using True isMultisigOutput_shape [OF x] unfolding cs by (simp only:)
next
  case False
  have "isMultisigOutput (Chunks cs) \<noteq> Inr True"
  proof
    assume r: "isMultisigOutput (Chunks cs) = Inr True"
    have len: "4 \<le> length cs" using r by (auto simp: isMultisigOutput_def split: if_splits)
    from r obtain a b where ab: "cs ! 0 = Op a" "cs ! (length cs - 2) = Op b" "cs ! (length cs - 1) = Op OP_CHECKMULTISIG"
      by (auto simp: isMultisigOutput_def split: if_splits chunk.splits)
    let ?ks = "slice cs 1 (length cs - 2)"
    from r ab have facts: "80 < a" "a \<le> b" "b \<le> 96" "b = length cs - 3 + 80" "list_all isCanonicalPubKey ?ks"
      using len by (auto simp: isMultisigOutput_def Let_def split: if_splits)
    obtain ks where ks: "?ks = map Data ks" "list_all (\<lambda>k. isCanonicalPubKey (Data k)) ks"
      using canonical_keys [OF facts(5)] by (elim exE conjE) (rule that)
    have n: "length ks = length cs - 3" using arg_cong [OF ks(1), of length] len by simp
    have "3 \<le> length cs" using len by simp
    from list_frame3 [OF this] have cs: "cs = [Op a] @ map Data ks @ [Op b, Op OP_CHECKMULTISIG]" by (simp only: ab ks)
    have ops: "OP_INT_BASE + (a - 80) = a" "OP_INT_BASE + length ks = b" using facts(1,4) n by simp_all
    have "multisig_ok (a - 80, ks)" using facts(1-3) ks(2) unfolding ops(2) [symmetric] by auto
    moreover have "multisig_shape (a - 80, ks) = cs" unfolding prod.case ops by (rule cs [symmetric])
    ultimately have "multisig_ok (a - 80, ks) \<and> cs = multisig_shape (a - 80, ks)" by simp
    then have "is_multisig_chunks cs" unfolding is_multisig_chunks_def by (rule exI)
    then show False using False by (simp only:)
  qed
  moreover have "\<exists>r. isMultisigOutput (Chunks cs) = Inr r"
    by (auto simp: isMultisigOutput_def Let_def split: chunk.splits)
  ultimately show ?thesis using False by auto
qed

text \<open>The kind of an output read off its chunks, without going through bytes.\<close>

definition output_kind :: "chunk list \<Rightarrow> string" where
  "output_kind cs =
     (if \<exists>h. length h = 20 \<and> cs = p2pkh_chunks h then ''pubkeyhash''
      else if \<exists>h. length h = 20 \<and> cs = p2sh_chunks h then ''scripthash''
      else if is_multisig_chunks cs then ''multisig''
      else if is_pubkey_chunks cs then ''pubkey''
      else if cs \<noteq> [] \<and> hd cs = Op OP_RETURN then ''nulldata''
      else ''nonstandard'')"

lemma if_chain_Inr:
  "(if a then Inr u else if b then Inr v else if c then Inr w else if d then Inr x else if e then Inr y else Inr z) =
   Inr (if a then u else if b then v else if c then w else if d then x else if e then y else z)"
  by simp

lemma classifyOutput_chunks:
  assumes "list_all readable_chunk cs"
  shows "classifyOutput (Chunks cs) = Inr (output_kind cs)"
proof -
  have a: "isPubKeyHashOutput (Chunks cs) = Inr (\<exists>h. length h = 20 \<and> cs = p2pkh_chunks h)"
    by (cases "\<exists>h. length h = 20 \<and> cs = p2pkh_chunks h")
       (simp_all only: isPubKeyHashOutput_iff [OF assms] isPubKeyHashOutput_False [OF assms] simp_thms)
  have b: "isScriptHashOutput (Chunks cs) = Inr (\<exists>h. length h = 20 \<and> cs = p2sh_chunks h)"
    by (cases "\<exists>h. length h = 20 \<and> cs = p2sh_chunks h")
       (simp_all only: isScriptHashOutput_iff [OF assms] isScriptHashOutput_False [OF assms] simp_thms)
  have c: "isNullDataOutput (Chunks cs) = Inr (cs \<noteq> [] \<and> hd cs = Op OP_RETURN)"
    by (cases cs) (simp_all add: isNullDataOutput_def)
  show ?thesis
    unfolding classifyOutput_def output_kind_def decompile_Chunks rbind_simps a b c isMultisigOutput_iff isPubKeyOutput_iff
    by (rule if_chain_Inr)
qed

lemma classifyOutput_Buf:
  "decompile (Buf b) = Inr cs \<Longrightarrow> classifyOutput (Buf b) = Inr (output_kind cs)"
  using decompile_total [of b] classifyOutput_chunks [of cs] by (auto simp: classifyOutput_def)

section \<open>Properties\<close>

lemma multisig_built:
  assumes "0 < m" "m \<le> length ks" "length ks \<le> 16" "list_all (\<lambda>k. isCanonicalPubKey (Data k)) ks"
  shows "\<exists>b. multisigOutput m ks = Inr b \<and> b = concat (map chunk_bytes (multisig_shape (m, ks))) \<and>
           decompile (Buf b) = Inr (multisig_shape (m, ks)) \<and> classifyOutput (Buf b) = Inr ''multisig''"
proof -
  have ok: "multisig_ok (m, ks)" using assms by simp
  obtain b where b: "multisigOutput m ks = Inr b" "b = concat (map chunk_bytes (multisig_shape (m, ks)))"
      "decompile (Buf b) = Inr (multisig_shape (m, ks))"
    using multisig_t.built [OF ok] by auto
  have "is_multisig_chunks (multisig_shape (m, ks))"
    unfolding is_multisig_chunks_def by (rule exI [of _ "(m, ks)"], rule conjI) (rule ok, rule refl)
  moreover have "multisig_shape (m, ks) \<noteq> p2pkh_chunks h" "multisig_shape (m, ks) \<noteq> p2sh_chunks h" for h
    using assms by (auto simp: p2pkh_chunks_def p2sh_chunks_def)
  ultimately have "output_kind (multisig_shape (m, ks)) = ''multisig''"
    by (simp only: output_kind_def if_True if_False simp_thms)
  then have "classifyOutput (Buf b) = Inr ''multisig''"
    using classifyOutput_Buf [OF b(3)] by (simp only:)
  then show ?thesis using b by (intro exI [of _ b] conjI)
qed

text \<open>\<open>compile\<close> writes the concatenation of the chunks' encodings, its two passes agreeing on
  the size, and \<open>decompile\<close> reads the chunks back.\<close>

theorem compile_then_decompile:
  assumes "list_all canonical_chunk cs"
  shows "compile (Chunks cs) = Inr (concat (map chunk_bytes cs)) \<and>
         decompile (Buf (concat (map chunk_bytes cs))) = Inr cs"
proof -
  have "list_all writable_chunk cs" using assms by (auto simp: list_all_iff canonical_writable)
  then show ?thesis using assms by (simp only: compile_Chunks decompile_concat simp_thms)
qed

theorem compile_then_decompile_witness:
  "compile (Chunks [Op 118, Data [7, 8]]) = Inr (concat (map chunk_bytes [Op 118, Data [7, 8]])) \<and>
   decompile (Buf (concat (map chunk_bytes [Op 118, Data [7, 8]]))) = Inr [Op 118, Data [7, 8]]"
  by (rule compile_then_decompile) simp

text \<open>C38: \<open>decompile\<close> ends without an exception on every byte string, with the chunks the grammar of
  scripts reads it as; where the grammar has no reading, as for a push beyond the end, it returns no
  chunks. \<open>compile\<close> writes the chunks as a script that is read as the same chunks again, except that an
  empty push has become \<open>OP_0\<close>: a script that can be read keeps its chunks, though not always its bytes,
  and one that cannot becomes the empty script.\<close>

theorem decompile_exact:
  "(decompile (Buf b) = Inr cs \<longleftrightarrow> script_wire b cs \<or> cs = [] \<and> (\<nexists>ds. script_wire b ds)) \<and>
   (\<exists>ds b'. decompile (Buf b) = Inr ds \<and> compile (Chunks ds) = Inr b' \<and> script_wire b' (map canonicalise ds))"
proof -
  obtain ds where ds: "decompile (Buf b) = Inr ds" "list_all readable_chunk ds" using decompile_total by blast
  have "list_all canonical_chunk (map canonicalise ds)" using ds(2) by (auto simp: list_all_iff canonicalise_canonical)
  from canonical_wire [OF this] have "script_wire (concat (map chunk_bytes ds)) (map canonicalise ds)" by (simp add: comp_def)
  then show ?thesis using decompile_wire [of b cs] ds compile_decompile [OF ds(2)] by blast
qed

theorem decompile_exact_witness:
  "decompile (Buf [0x4c, 1, 0xaa, 0x76]) = Inr [Data [0xaa], Op 118] \<and> decompile (Buf [0x76, 5, 1]) = Inr []"
proof
  have "push_wire (length [0xaa :: byte]) [0x4c, 1]" by (simp add: push_wire_def)
  moreover have "script_wire [word_of_nat 118] [Op 118]" by (rule wire_op) (simp_all add: wire_end)
  ultimately have "script_wire ([0x4c, 1] @ [0xaa] @ [word_of_nat 118]) [Data [0xaa], Op 118]" by (rule wire_push)
  then show "decompile (Buf [0x4c, 1, 0xaa, 0x76]) = Inr [Data [0xaa], Op 118]"
    using decompile_exact [of "[0x4c, 1, 0xaa, 0x76]" "[Data [0xaa], Op 118]"] by simp
  show "decompile (Buf [0x76, 5, 1]) = Inr []"
    by (simp add: decompile_def decompile_loop.simps readPushDataInt_def readLE_def slice_def)
qed

text \<open>C39: classification of outputs is total and decided by the chunks alone: \<open>classifyOutput\<close>
  answers on every byte string, with the template its chunks are an instance of (a multisig
  template having 0 < m \<le> n \<le> 16 and exactly n canonical keys).\<close>

theorem classify_output_exact:
  "\<exists>cs. decompile (Buf b) = Inr cs \<and> classifyOutput (Buf b) = Inr (output_kind cs)"
  using decompile_total [of b] classifyOutput_Buf [of b] by blast

text \<open>\<open>classifyOutput\<close> looks at the re-encoded chunks and \<open>isPubKeyHashOutput\<close> at the bytes, so they
  disagree: a pay-to-pubkey-hash script whose hash is pushed with a needless \<open>OP_PUSHDATA1\<close> is
  classified as one although the recogniser rejects it.\<close>

theorem classify_disagrees_with_recogniser:
  assumes "length h = 20"
  shows "classifyOutput (Buf ([0x76, 0xa9, 0x4c, 0x14] @ h @ [0x88, 0xac])) = Inr ''pubkeyhash'' \<and>
         isPubKeyHashOutput (Buf ([0x76, 0xa9, 0x4c, 0x14] @ h @ [0x88, 0xac])) = Inr False"
proof -
  let ?b = "[0x76, 0xa9, 0x4c, 0x14] @ h @ [0x88, 0xac] :: buffer"
  have nth: "?b ! 24 = 0x88" "?b ! 25 = 0xac" "?b ! 0 = 0x76" "?b ! 1 = 0xa9" "?b ! 2 = 0x4c" using assms by (simp_all add: nth_append)
  have sl: "slice ?b 4 24 = h" using slice_append_at [of 4 "[0x76, 0xa9, 0x4c, 0x14]" 24 h "[0x88, 0xac]"] assms by simp
  have len: "length ?b = 26" using assms by simp
  have end1: "decompile_loop ?b 24 acc = Inr (acc @ [Op 136, Op 172])" for acc
    using nth len by (simp add: decompile_loop.simps [of ?b 24] decompile_loop.simps [of ?b 25] decompile_loop.simps [of ?b 26] del: append_Cons)
  have push: "readPushDataInt ?b 2 = Inr (Some \<lparr>pi_opcode = 76, pi_number = 20, pi_size = 2\<rparr>)"
    using assms by (simp add: readPushDataInt_def readUInt8_nth [simplified] numeral_3_eq_3)
  have "decompile_loop ?b 2 acc = Inr (acc @ [Data h, Op 136, Op 172])" for acc
    using push sl end1 [of "acc @ [Data h]"] len nth by (simp add: decompile_loop.simps [of ?b 2] Let_def del: append_Cons)
  then have "decompile_loop ?b (Suc (Suc 0)) acc = Inr (acc @ [Data h, Op 136, Op 172])" for acc
    by (simp only: numeral_2_eq_2)
  then have "decompile_loop ?b (Suc 0) acc = Inr (acc @ [Op 169, Data h, Op 136, Op 172])" for acc
    using nth len by (simp add: decompile_loop.simps [of ?b "Suc 0"] del: append_Cons) 
  then have "decompile_loop ?b 0 [] = Inr ([Op 118] @ [Op 169, Data h, Op 136, Op 172])"
    using nth len by (simp add: decompile_loop.simps [of ?b 0] del: append_Cons)
  then have "decompile (Buf ?b) = Inr (p2pkh_chunks h)"
    by (simp add: decompile_def p2pkh_chunks_def)
  then have "classifyOutput (Buf ?b) = Inr ''pubkeyhash''"
    using classifyOutput_Buf assms by (auto simp: output_kind_def)
  moreover have "isPubKeyHashOutput (Buf ?b) = Inr False"
    using len by (simp add: isPubKeyHashOutput_def)
  ultimately show ?thesis by (rule conjI)
qed

theorem classify_disagrees_with_recogniser_witness:
  "classifyOutput (Buf ([0x76, 0xa9, 0x4c, 0x14] @ replicate 20 1 @ [0x88, 0xac])) = Inr ''pubkeyhash'' \<and>
   isPubKeyHashOutput (Buf ([0x76, 0xa9, 0x4c, 0x14] @ replicate 20 1 @ [0x88, 0xac])) = Inr False"
  by (rule classify_disagrees_with_recogniser) simp

text \<open>the bytes each standard builder returns are classified as the template it builds.\<close>

theorem templates_classified:
  assumes "length h = 20" "isCanonicalPubKey (Data k)" "d \<noteq> []" "length d < 2 ^ 32"
    and "0 < m" "m \<le> length ks" "length ks \<le> 16" "list_all (\<lambda>k. isCanonicalPubKey (Data k)) ks"
  shows "rbind (pubKeyHashOutput h) (\<lambda>b. classifyOutput (Buf b)) = Inr ''pubkeyhash'' \<and>
         rbind (scriptHashOutput h) (\<lambda>b. classifyOutput (Buf b)) = Inr ''scripthash'' \<and>
         rbind (multisigOutput m ks) (\<lambda>b. classifyOutput (Buf b)) = Inr ''multisig'' \<and>
         rbind (pubKeyOutput k) (\<lambda>b. classifyOutput (Buf b)) = Inr ''pubkey'' \<and>
         rbind (nullDataOutput d) (\<lambda>b. classifyOutput (Buf b)) = Inr ''nulldata''"
proof -
  have multi: "\<not> is_multisig_chunks [x, y]" for x y
    by (auto simp: is_multisig_chunks_def Cons_eq_append_conv)
  have "output_kind [Op OP_DUP, Op OP_HASH160, Data h, Op OP_EQUALVERIFY, Op OP_CHECKSIG] = ''pubkeyhash''"
    using assms(1) by (simp add: output_kind_def p2pkh_chunks_def)
  moreover have "output_kind [Op OP_HASH160, Data h, Op OP_EQUAL] = ''scripthash''"
    using assms(1) by (simp add: output_kind_def p2pkh_chunks_def p2sh_chunks_def)
  moreover have "output_kind [Data k, Op OP_CHECKSIG] = ''pubkey''"
    using assms(2) by (simp add: output_kind_def p2pkh_chunks_def p2sh_chunks_def is_pubkey_chunks_def multi)
  moreover have "output_kind [Op OP_RETURN, Data d] = ''nulldata''"
    by (simp add: output_kind_def p2pkh_chunks_def p2sh_chunks_def is_pubkey_chunks_def multi)
  ultimately show ?thesis
    using pubKeyHash_t.built [OF assms(1)] scriptHash_t.built [OF assms(1)] pubKey_t.built [OF assms(2)]
      nullData_t.built [of d] multisig_built [OF assms(5-8)] assms(3,4) classifyOutput_Buf
    by (auto simp del: rbind_Inr_iff)
qed

theorem templates_classified_witness:
  "rbind (pubKeyHashOutput (replicate 20 7)) (\<lambda>b. classifyOutput (Buf b)) = Inr ''pubkeyhash'' \<and>
   rbind (scriptHashOutput (replicate 20 7)) (\<lambda>b. classifyOutput (Buf b)) = Inr ''scripthash'' \<and>
   rbind (multisigOutput 1 [2 # replicate 32 1]) (\<lambda>b. classifyOutput (Buf b)) = Inr ''multisig'' \<and>
   rbind (pubKeyOutput (2 # replicate 32 1)) (\<lambda>b. classifyOutput (Buf b)) = Inr ''pubkey'' \<and>
   rbind (nullDataOutput [1]) (\<lambda>b. classifyOutput (Buf b)) = Inr ''nulldata''"
  by (rule templates_classified) (simp_all add: isCanonicalPubKey_def byte_at_def)

text \<open>\<open>multisigOutput\<close> checks only that there are at least \<open>m\<close> keys: with more than 16 keys, or
  with \<open>m\<close> = 0, it returns a script that \<open>isMultisigOutput\<close> rejects and that is classified as
  nonstandard. With \<open>m\<close> = 26 its first opcode is \<open>OP_RETURN\<close>, and it is classified as null data.\<close>

theorem multisig_builder_unbounded:
  assumes "m \<le> length ks" "16 < length ks \<or> m = 0" "length ks \<le> 175"
    and "list_all (\<lambda>k. isCanonicalPubKey (Data k)) ks"
  shows "\<exists>b. multisigOutput m ks = Inr b \<and> isMultisigOutput (Buf b) = Inr False \<and>
           classifyOutput (Buf b) = Inr (if m = 26 then ''nulldata'' else ''nonstandard'')"
proof -
  let ?cs = "[Op (OP_INT_BASE + m)] @ map Data ks @ [Op (OP_INT_BASE + length ks), Op OP_CHECKMULTISIG]"
  let ?b = "concat (map chunk_bytes ?cs)"
  have canon: "list_all canonical_chunk ?cs"
    using assms isCanonicalPubKey_length by (fastforce simp: list_all_iff)
  then have "list_all writable_chunk ?cs" by (auto simp: list_all_iff canonical_writable)
  then have c: "multisigOutput m ks = Inr ?b"
    using compile_Chunks [of ?cs] assms(1) by (simp add: multisigOutput_def)
  have d: "decompile (Buf ?b) = Inr ?cs" using canon by (rule decompile_concat)
  have no: "\<not> is_multisig_chunks ?cs"
  proof
    assume "is_multisig_chunks ?cs"
    then obtain x where x: "multisig_ok x" "?cs = multisig_shape x"
      unfolding is_multisig_chunks_def by (elim exE conjE)
    obtain m' ks' where x': "x = (m', ks')" by (cases x)
    have "m' = m" "length ks' = length ks" using x(2) arg_cong [OF x(2), of length] x' by simp_all
    then show False using x(1) x' assms(2) by auto
  qed
  have "\<not> is_pubkey_chunks ?cs" by (simp add: is_pubkey_chunks_def)
  moreover have "?cs \<noteq> p2pkh_chunks h" "?cs \<noteq> p2sh_chunks h" for h
    by (auto simp: p2pkh_chunks_def p2sh_chunks_def append_eq_Cons_conv Cons_eq_append_conv map_eq_append_conv)
  moreover have "?cs \<noteq> [] \<and> hd ?cs = Op OP_RETURN \<longleftrightarrow> m = 26" by auto
  ultimately have "output_kind ?cs = (if m = 26 then ''nulldata'' else ''nonstandard'')"
    using no by (simp only: output_kind_def if_False simp_thms)
  then have "classifyOutput (Buf ?b) = Inr (if m = 26 then ''nulldata'' else ''nonstandard'')"
    using classifyOutput_Buf [OF d] by (simp only:)
  moreover have "isMultisigOutput (Buf ?b) = Inr False"
    using d no isMultisigOutput_iff [of ?cs] by (simp only: isMultisigOutput_def rbind_simps decompile_Chunks)
  ultimately show ?thesis using c by (intro exI [of _ ?b] conjI)
qed

theorem multisig_builder_unbounded_witness:
  "\<exists>b. multisigOutput 26 (replicate 26 (2 # replicate 32 1)) = Inr b \<and> isMultisigOutput (Buf b) = Inr False \<and>
     classifyOutput (Buf b) = Inr (if (26::nat) = 26 then ''nulldata'' else ''nonstandard'')"
  by (rule multisig_builder_unbounded) (simp_all add: isCanonicalPubKey_def byte_at_def list_all_iff)

text \<open>The input side of a pay-to-script-hash multisig.\<close>

lemma multisig_script_no_signature:
  assumes "decompile (Buf b) = Inr (cs @ [Op OP_CHECKMULTISIG])" "b = concat (map chunk_bytes (cs @ [Op OP_CHECKMULTISIG]))"
  shows "\<not> isCanonicalSignature bip66_check (Data b)"
proof -
  have "last b = 174" "b \<noteq> []" using assms(2) by simp_all
  then have "byte_at b (length b - 1) = Some 174" by (simp add: byte_at_def last_conv_nth)
  moreover have "\<not> isDefinedHashType 174"
    by (simp add: isDefinedHashType_def js_and_def js_not_def to_int32_def)
  ultimately show ?thesis by (simp add: isCanonicalSignature_def)
qed

lemma decompile_scriptHashInput:
  assumes "decompile s = Inr cs" "list_all canonical_chunk cs" "r \<noteq> []" "length r < 2 ^ 32"
  shows "\<exists>b. scriptHashInput s (Buf r) = Inr b \<and> decompile (Buf b) = Inr (cs @ [Data r])"
proof -
  have c: "list_all canonical_chunk (cs @ [Data r])" using assms by simp
  then have "list_all writable_chunk (cs @ [Data r])" by (auto simp: list_all_iff canonical_writable)
  then have "scriptHashInput s (Buf r) = Inr (concat (map chunk_bytes (cs @ [Data r])))"
    using assms(1) by (simp only: scriptHashInput_def rbind_simps compile_Buf compile_Chunks)
  then show ?thesis using decompile_concat [OF c] by blast
qed

lemma multisig_script_length:
  assumes "length ks \<le> 16" "list_all (\<lambda>k. isCanonicalPubKey (Data k)) ks"
  shows "length (concat (map chunk_bytes (multisig_shape (m, ks)))) \<le> 3 + 66 * length ks"
proof -
  have "sum_list (map (\<lambda>k. chunk_size (Data k)) ks) \<le> 66 * length ks"
    using assms(2)
  proof (induction ks)
    case (Cons k ks)
    then have "chunk_size (Data k) \<le> 66"
      using isCanonicalPubKey_length [of k] by (auto simp: pushDataSize_def)
    then show ?case using Cons by simp
  qed simp
  then show ?thesis by (simp add: length_concat comp_def)
qed

text \<open>the input that spends a pay-to-script-hash multisig output, the signatures (or \<open>OP_0\<close>
  for those still missing) followed by the redeem script, is classified as a script-hash input;
  without the redeem script it is classified as multisig. \<open>bip66_check\<close> is any predicate.\<close>

theorem p2sh_multisig_input_classified:
  assumes sigs: "ss \<noteq> []" "list_all (\<lambda>c. c = Op OP_0 \<or> isCanonicalSignature bip66_check c \<and> canonical_chunk c) ss"
    and redeem: "0 < m" "m \<le> length ks" "length ks \<le> 16" "list_all (\<lambda>k. isCanonicalPubKey (Data k)) ks"
  shows "\<exists>i r b. multisigInput ss None = Inr i \<and> multisigOutput m ks = Inr r \<and>
           scriptHashInput (Buf i) (Buf r) = Inr b \<and>
           classifyInput bip66_check (Buf i) True = Inr ''multisig'' \<and>
           classifyInput bip66_check (Buf b) True = Inr ''scripthash''"
proof -
  obtain r where r: "multisigOutput m ks = Inr r" "r = concat (map chunk_bytes (multisig_shape (m, ks)))"
      "decompile (Buf r) = Inr (multisig_shape (m, ks))" "classifyOutput (Buf r) = Inr ''multisig''"
    using multisig_built [OF redeem] by (elim exE conjE)
  have nosig: "\<not> isCanonicalSignature bip66_check (Data r)"
    by (rule multisig_script_no_signature [of r "[Op (OP_INT_BASE + m)] @ map Data ks @ [Op (OP_INT_BASE + length ks)]"])
       (use r in simp_all)
  have rlen: "length r < 2 ^ 32" "r \<noteq> []"
    using multisig_script_length [OF redeem(3,4), of m] redeem(3) r(2) by auto
  let ?cs = "Op OP_0 # ss"
  obtain i where i: "multisigInput ss None = Inr i" "decompile (Buf i) = Inr ?cs"
    using multisigInput_t.built [of ss bip66_check] sigs by auto
  have canon: "list_all canonical_chunk ?cs" using sigs(2) by (auto simp: list_all_iff)
  obtain b where b: "scriptHashInput (Buf i) (Buf r) = Inr b" "decompile (Buf b) = Inr (?cs @ [Data r])"
    using decompile_scriptHashInput [OF i(2) canon rlen(2,1)] by blast
  have p2pkh: "isPubKeyHashInput bip66_check (Chunks (?cs @ ds)) = Inr False" for ds
    by (auto simp: isPubKeyHashInput_def isCanonicalSignature_def)
  have msi: "isMultisigInput bip66_check (Chunks ?cs) True = Inr True"
    using multisigInput_t.recognised [of ss bip66_check] sigs by simp
  have msb: "isMultisigInput bip66_check (Chunks (?cs @ [Data r])) True = Inr False"
    using nosig by (simp add: isMultisigInput_def)
  have ci: "classifyInput bip66_check (Chunks ?cs) True = Inr ''multisig''"
    using p2pkh [of "[]"] msi by (simp add: classifyInput.simps)
  have "classifyInput bip66_check (Buf i) True = Inr ''multisig''"
    using p2pkh [of "[]"] msi i(2) by (simp add: classifyInput.simps)
  moreover have "isScriptHashInput bip66_check (Chunks (?cs @ [Data r])) True = Inr True"
  proof -
    have "classifyOutput (Chunks (multisig_shape (m, ks))) = Inr ''multisig''"
      using r(3,4) by (simp add: classifyOutput_def)
    then show ?thesis
      using r(3) ci sigs(1) by (subst isScriptHashInput.simps) (simp add: nth_append butlast_append Suc_le_eq)
  qed
  then have "classifyInput bip66_check (Buf b) True = Inr ''scripthash''"
    using p2pkh [of "[Data r]"] msb b(2) by (simp add: classifyInput.simps)
  ultimately show ?thesis using i(1) r(1) b(1) by blast
qed

theorem p2sh_multisig_input_classified_witness:
  "\<exists>i r b. multisigInput [Data [9, 1], Op 0] None = Inr i \<and> multisigOutput 2 [2 # replicate 32 1, 3 # replicate 32 5] = Inr r \<and>
     scriptHashInput (Buf i) (Buf r) = Inr b \<and>
     classifyInput (\<lambda>_. True) (Buf i) True = Inr ''multisig'' \<and>
     classifyInput (\<lambda>_. True) (Buf b) True = Inr ''scripthash''"
  by (rule p2sh_multisig_input_classified)
     (simp_all add: isCanonicalPubKey_def byte_at_def isCanonicalSignature_def isDefinedHashType_def js_and_def js_not_def to_int32_def)

end
