(* ===== verification/Hex.thy ===== *)
theory Hex
  imports Prelude
begin

text \<open>
  Hexadecimal text of buffers, as Node's \<open>Buffer\<close> writes and reads it, and that reading inverts
  writing.
\<close>

section \<open>Hexadecimal\<close>

text \<open>\<open>buf.toString('hex')\<close>, and \<open>new Buffer(text, 'hex')\<close>: it throws on a text of odd length and
  stops at the first pair that is not hexadecimal.\<close>

definition hex_digit :: "nat \<Rightarrow> char" where
  "hex_digit d = char_of (if d < 10 then 48 + d else 87 + d)"

definition hex_value :: "char \<Rightarrow> nat option" where
  "hex_value c =
     (let v = of_char c :: nat in
      if 48 \<le> v \<and> v \<le> 57 then Some (v - 48)
      else if 97 \<le> v \<and> v \<le> 102 then Some (v - 87)
      else if 65 \<le> v \<and> v \<le> 70 then Some (v - 55)
      else None)"

primrec to_hex :: "buffer \<Rightarrow> string" where
  "to_hex [] = []"
| "to_hex (b # bs) = hex_digit (unat b div 16) # hex_digit (unat b mod 16) # to_hex bs"

fun hex_pairs :: "string \<Rightarrow> buffer" where
  "hex_pairs (c # d # cs) =
     (case (hex_value c, hex_value d) of
        (Some h, Some l) \<Rightarrow> word_of_nat (h * 16 + l) # hex_pairs cs
      | _ \<Rightarrow> [])"
| "hex_pairs _ = []"

definition from_hex :: "string \<Rightarrow> buffer res" where
  "from_hex s = (if odd (length s) then Inl (JsTypeError ''Invalid hex string'') else Inr (hex_pairs s))"

section \<open>Round trip\<close>

lemma hex_value_digit: "d < 16 \<Longrightarrow> hex_value (hex_digit d) = Some d"
  by (simp add: hex_value_def hex_digit_def)

lemma hex_digit_range: "d < 16 \<Longrightarrow> of_char (hex_digit d) \<in> {48..57} \<union> {97..102 :: nat}"
  by (simp add: hex_digit_def)

lemma length_to_hex [simp]: "length (to_hex b) = 2 * length b"
  by (induction b) simp_all

lemma nibbles: "unat (b :: byte) div 16 < 16" "unat b mod 16 < 16"
  using unat_byte_lt [of b] by (simp_all add: div_less_iff_less_mult del: unat_byte_lt)

lemma hex_pairs_to_hex [simp]: "hex_pairs (to_hex b) = b"
  by (induction b) (simp_all add: hex_value_digit nibbles)

lemma from_hex_to_hex [codec_laws]: "from_hex (to_hex b) = Inr b"
  by (simp add: from_hex_def)

lemma to_hex_chars: "c \<in> set (to_hex b) \<Longrightarrow> of_char c \<in> {48..57} \<union> {97..102 :: nat}"
proof (induction b)
  case (Cons b bs)
  then consider "c = hex_digit (unat b div 16)" | "c = hex_digit (unat b mod 16)" | "c \<in> set (to_hex bs)" by auto
  then show ?case by cases (use Cons.IH hex_digit_range nibbles [of b] in blast)+
qed simp

end
