(* ===== verification/Tx.thy ===== *)
theory Tx
  imports Bscript Hex
begin

text \<open>
  \<open>bitcoinjs-lib/src/transaction.js\<close>: transactions, their wire format, and the message that is
  signed for an input. The hash functions of \<open>crypto.js\<close> come from the create-hash package and are
  arguments.
\<close>

section \<open>Hashes\<close>

definition hash160 :: "(buffer \<Rightarrow> buffer) \<Rightarrow> (buffer \<Rightarrow> buffer) \<Rightarrow> buffer \<Rightarrow> buffer" where
  "hash160 ripemd160 sha256 b = ripemd160 (sha256 b)"

definition hash256 :: "(buffer \<Rightarrow> buffer) \<Rightarrow> buffer \<Rightarrow> buffer" where
  "hash256 sha256 b = sha256 (sha256 b)"

section \<open>Transactions\<close>

text \<open>An output made by \<open>hashForSignature\<close> has no \<open>value\<close> but the bytes of one in \<open>valueBuffer\<close>.\<close>

record tx_in =
  ti_hash :: buffer
  ti_index :: nat
  ti_script :: buffer
  ti_sequence :: nat

record tx_out =
  to_value :: "nat option"
  to_script :: buffer
  to_valueBuffer :: "buffer option"

record transaction =
  tx_version :: nat
  tx_locktime :: nat
  tx_ins :: "tx_in list"
  tx_outs :: "tx_out list"

definition new_transaction :: transaction where
  "new_transaction = \<lparr>tx_version = 1, tx_locktime = 0, tx_ins = [], tx_outs = []\<rparr>"

abbreviation (input) DEFAULT_SEQUENCE :: nat where "DEFAULT_SEQUENCE \<equiv> 0xffffffff"
abbreviation (input) SIGHASH_ALL :: int where "SIGHASH_ALL \<equiv> 0x01"
abbreviation (input) SIGHASH_NONE :: int where "SIGHASH_NONE \<equiv> 0x02"
abbreviation (input) SIGHASH_SINGLE :: int where "SIGHASH_SINGLE \<equiv> 0x03"
abbreviation (input) SIGHASH_ANYONECANPAY :: int where "SIGHASH_ANYONECANPAY \<equiv> 0x80"

section \<open>Reading\<close>

definition read_in :: "buffer \<Rightarrow> nat \<Rightarrow> (tx_in \<times> nat) res" where
  "read_in buf off =
     rbind (readSlice 32 buf off) (\<lambda>(hash, off).
     rbind (readUInt32 buf off) (\<lambda>(index, off).
     rbind (readScript buf off) (\<lambda>(script, off).
     rbind (readUInt32 buf off) (\<lambda>(sequence, off).
       Inr (\<lparr>ti_hash = hash, ti_index = index, ti_script = script, ti_sequence = sequence\<rparr>, off)))))"

definition read_out :: "buffer \<Rightarrow> nat \<Rightarrow> (tx_out \<times> nat) res" where
  "read_out buf off =
     rbind (readUInt64 buf off) (\<lambda>(value, off).
     rbind (readScript buf off) (\<lambda>(script, off).
       Inr (\<lparr>to_value = Some value, to_script = script, to_valueBuffer = None\<rparr>, off)))"

definition tx_read :: "buffer \<Rightarrow> (transaction \<times> nat) res" where
  "tx_read buf =
     rbind (readUInt32 buf 0) (\<lambda>(version, off).
     rbind (readVarIntAt buf off) (\<lambda>(vinLen, off).
     rbind (read_many read_in buf off vinLen) (\<lambda>(ins, off).
     rbind (readVarIntAt buf off) (\<lambda>(voutLen, off).
     rbind (read_many read_out buf off voutLen) (\<lambda>(outs, off).
     rbind (readUInt32 buf off) (\<lambda>(locktime, off).
       Inr (\<lparr>tx_version = version, tx_locktime = locktime, tx_ins = ins, tx_outs = outs\<rparr>, off)))))))"

definition tx_fromBuffer :: "buffer \<Rightarrow> bool \<Rightarrow> transaction res" where
  "tx_fromBuffer buf noStrict =
     rbind (tx_read buf) (\<lambda>(tx, off).
       if noStrict then Inr tx
       else if off \<noteq> length buf then Inl (JsError ''Transaction has unexpected data'')
       else Inr tx)"

definition tx_fromHex :: "string \<Rightarrow> transaction res" where
  "tx_fromHex hex = rbind (from_hex hex) (\<lambda>b. tx_fromBuffer b False)"

definition isCoinbaseHash :: "buffer \<Rightarrow> bool" where
  "isCoinbaseHash b = list_all (\<lambda>x. x = 0) b"

section \<open>Building\<close>

text \<open>Both return the transaction after the call and the index of the new element.\<close>

definition tx_addInput ::
    "transaction \<Rightarrow> buffer \<Rightarrow> nat \<Rightarrow> nat option \<Rightarrow> buffer option \<Rightarrow> (transaction \<times> nat) res" where
  "tx_addInput tx hash index sequence scriptSig =
     rbind (Hash256bit hash) (\<lambda>_.
     rbind (typeforce ''UInt32'' (UInt32 (int index))) (\<lambda>_.
     rbind (typeforce ''UInt32'' (case sequence of None \<Rightarrow> True | Some s \<Rightarrow> UInt32 (int s))) (\<lambda>_.
       let sequence = (case sequence of None \<Rightarrow> DEFAULT_SEQUENCE | Some s \<Rightarrow> s);
           script = (case scriptSig of None \<Rightarrow> [] | Some s \<Rightarrow> s);
           ins = tx_ins tx @ [\<lparr>ti_hash = hash, ti_index = index, ti_script = script, ti_sequence = sequence\<rparr>]
       in Inr (tx\<lparr>tx_ins := ins\<rparr>, length ins - 1))))"

definition tx_addOutput :: "transaction \<Rightarrow> buffer \<Rightarrow> nat \<Rightarrow> (transaction \<times> nat) res" where
  "tx_addOutput tx scriptPubKey value =
     rbind (typeforce ''UInt53'' (UInt53 (int value))) (\<lambda>_.
       let outs = tx_outs tx @ [\<lparr>to_value = Some value, to_script = scriptPubKey, to_valueBuffer = None\<rparr>]
       in Inr (tx\<lparr>tx_outs := outs\<rparr>, length outs - 1))"

definition scriptSize :: "buffer \<Rightarrow> nat" where
  "scriptSize someScript = varIntSize (length someScript) + length someScript"

definition byteLength :: "transaction \<Rightarrow> nat" where
  "byteLength tx =
     8 + varIntSize (length (tx_ins tx)) + varIntSize (length (tx_outs tx)) +
     foldl (\<lambda>sum input. sum + 40 + scriptSize (ti_script input)) 0 (tx_ins tx) +
     foldl (\<lambda>sum output. sum + 8 + scriptSize (to_script output)) 0 (tx_outs tx)"

text \<open>\<open>clone\<close> copies the fields it names; \<open>valueBuffer\<close> is not one of them.\<close>

definition tx_clone :: "transaction \<Rightarrow> transaction" where
  "tx_clone tx =
     new_transaction\<lparr>
       tx_version := tx_version tx,
       tx_locktime := tx_locktime tx,
       tx_ins := map (\<lambda>txIn. \<lparr>ti_hash = ti_hash txIn, ti_index = ti_index txIn,
                              ti_script = ti_script txIn, ti_sequence = ti_sequence txIn\<rparr>) (tx_ins tx),
       tx_outs := map (\<lambda>txOut. \<lparr>to_value = to_value txOut, to_script = to_script txOut,
                                to_valueBuffer = None\<rparr>) (tx_outs tx)\<rparr>"

definition setInputScript :: "transaction \<Rightarrow> nat \<Rightarrow> buffer \<Rightarrow> transaction res" where
  "setInputScript tx index scriptSig =
     (if index < length (tx_ins tx)
      then Inr (tx\<lparr>tx_ins := (tx_ins tx)[index := (tx_ins tx ! index)\<lparr>ti_script := scriptSig\<rparr>]\<rparr>)
      else Inl (JsTypeError ''Cannot set property script of undefined''))"

section \<open>Writing\<close>

definition write_in :: "tx_in \<Rightarrow> buffer \<times> nat \<Rightarrow> (buffer \<times> nat) res" where
  "write_in txIn st =
     rbind (writeSlice (ti_hash txIn) st) (\<lambda>st.
     rbind (writeUInt32 (ti_index txIn) st) (\<lambda>st.
     rbind (writeVarIntAt (length (ti_script txIn)) st) (\<lambda>st.
     rbind (writeSlice (ti_script txIn) st) (\<lambda>st.
       writeUInt32 (ti_sequence txIn) st))))"

definition write_value :: "tx_out \<Rightarrow> buffer \<times> nat \<Rightarrow> (buffer \<times> nat) res" where
  "write_value txOut st = (case to_valueBuffer txOut of
       None \<Rightarrow> (case to_value txOut of
           Some v \<Rightarrow> writeUInt64 v st
         | None \<Rightarrow> Inl (JsError ''cannot write a non-number as a number''))
     | Some b \<Rightarrow> writeSlice b st)"

definition write_out :: "tx_out \<Rightarrow> buffer \<times> nat \<Rightarrow> (buffer \<times> nat) res" where
  "write_out txOut st =
     rbind (write_value txOut st) (\<lambda>st.
     rbind (writeVarIntAt (length (to_script txOut)) st) (\<lambda>st.
       writeSlice (to_script txOut) st))"

definition tx_write :: "transaction \<Rightarrow> buffer \<times> nat \<Rightarrow> (buffer \<times> nat) res" where
  "tx_write tx st =
     rbind (writeUInt32 (tx_version tx) st) (\<lambda>st.
     rbind (writeVarIntAt (length (tx_ins tx)) st) (\<lambda>st.
     rbind (rfold write_in (tx_ins tx) st) (\<lambda>st.
     rbind (writeVarIntAt (length (tx_outs tx)) st) (\<lambda>st.
     rbind (rfold write_out (tx_outs tx) st) (\<lambda>st.
       writeUInt32 (tx_locktime tx) st)))))"

definition tx_toBuffer :: "transaction \<Rightarrow> buffer res" where
  "tx_toBuffer tx = rbind (tx_write tx (new_buffer (byteLength tx), 0)) (\<lambda>(buf, _). Inr buf)"

definition tx_toHex :: "transaction \<Rightarrow> string res" where
  "tx_toHex tx = rbind (tx_toBuffer tx) (\<lambda>b. Inr (to_hex b))"

definition tx_getHash :: "(buffer \<Rightarrow> buffer) \<Rightarrow> transaction \<Rightarrow> buffer res" where
  "tx_getHash sha256 tx = rbind (tx_toBuffer tx) (\<lambda>b. Inr (hash256 sha256 b))"

definition tx_getId :: "(buffer \<Rightarrow> buffer) \<Rightarrow> transaction \<Rightarrow> string res" where
  "tx_getId sha256 tx = rbind (tx_getHash sha256 tx) (\<lambda>h. Inr (to_hex (rev h)))"

section \<open>The message signed for an input\<close>

definition ONE :: buffer where "ONE = replicate 31 0 @ [1]"
definition VALUE_UINT64_MAX :: buffer where "VALUE_UINT64_MAX = replicate 8 0xff"

definition stubOut :: tx_out where
  "stubOut = \<lparr>to_value = None, to_script = [], to_valueBuffer = Some VALUE_UINT64_MAX\<rparr>"

text \<open>\<open>ins.forEach(function (input, i) { if (i !== inIndex) input.sequence = 0 })\<close>\<close>

definition zero_other_sequences :: "nat \<Rightarrow> tx_in list \<Rightarrow> tx_in list" where
  "zero_other_sequences inIndex ins =
     map (\<lambda>(i, input). if i \<noteq> inIndex then input\<lparr>ti_sequence := 0\<rparr> else input) (enumerate 0 ins)"

text \<open>The copy of the transaction that is serialised; \<open>None\<close> where the code returns the number one
  instead of a hash.\<close>

definition sighash_tx :: "transaction \<Rightarrow> nat \<Rightarrow> buffer \<Rightarrow> int \<Rightarrow> transaction option" where
  "sighash_tx tx inIndex hashScript hashType =
     (let txTmp = tx_clone tx;
          ins = map (\<lambda>input. input\<lparr>ti_script := []\<rparr>) (tx_ins txTmp);
          ins = ins[inIndex := (ins ! inIndex)\<lparr>ti_script := hashScript\<rparr>];
          txTmp = txTmp\<lparr>tx_ins := ins\<rparr>;
          blanked =
            (if js_and hashType 0x1f = SIGHASH_NONE then
               Some (txTmp\<lparr>tx_outs := [], tx_ins := zero_other_sequences inIndex ins\<rparr>)
             else if js_and hashType 0x1f = SIGHASH_SINGLE then
               (let nOut = inIndex in
                if nOut \<ge> length (tx_outs tx) then None
                else Some (txTmp\<lparr>tx_outs := replicate nOut stubOut @ drop nOut (slice (tx_outs txTmp) 0 (nOut + 1)),
                                 tx_ins := zero_other_sequences inIndex ins\<rparr>))
             else Some txTmp)
      in case blanked of
           None \<Rightarrow> None
         | Some txTmp \<Rightarrow>
             if js_and hashType SIGHASH_ANYONECANPAY \<noteq> 0
             then Some (txTmp\<lparr>tx_ins := slice ((tx_ins txTmp)[0 := tx_ins txTmp ! inIndex]) 0 1\<rparr>)
             else Some txTmp)"

definition sighash_script :: "buffer \<Rightarrow> buffer res" where
  "sighash_script prevOutScript =
     rbind (decompile (Buf prevOutScript)) (\<lambda>chunks.
       compile (Chunks (filter (\<lambda>x. x \<noteq> Op OP_CODESEPARATOR) chunks)))"

definition sighash_preimage :: "transaction \<Rightarrow> int \<Rightarrow> buffer res" where
  "sighash_preimage txTmp hashType =
     (let n = byteLength txTmp + 4 in
      rbind (writeInt32LE (new_buffer n) hashType (n - 4)) (\<lambda>buf.
      rbind (tx_toBuffer txTmp) (\<lambda>b. Inr (buf_copy b buf 0))))"

definition hashForSignature ::
    "(buffer \<Rightarrow> buffer) \<Rightarrow> transaction \<Rightarrow> nat \<Rightarrow> buffer \<Rightarrow> int \<Rightarrow> buffer res" where
  "hashForSignature sha256 tx inIndex prevOutScript hashType =
     rbind (typeforce ''UInt32'' (UInt32 (int inIndex))) (\<lambda>_.
       if inIndex \<ge> length (tx_ins tx) then Inr ONE
       else rbind (sighash_script prevOutScript) (\<lambda>hashScript.
         case sighash_tx tx inIndex hashScript hashType of
           None \<Rightarrow> Inr ONE
         | Some txTmp \<Rightarrow> rbind (sighash_preimage txTmp hashType) (\<lambda>b. Inr (hash256 sha256 b))))"

section \<open>The wire format\<close>

definition in_bytes :: "tx_in \<Rightarrow> buffer" where
  "in_bytes i = ti_hash i @ le_bytes 4 (ti_index i) @ varint_bytes (length (ti_script i)) @ ti_script i @
     le_bytes 4 (ti_sequence i)"

definition value_bytes :: "tx_out \<Rightarrow> buffer" where
  "value_bytes o' = (case to_valueBuffer o' of Some b \<Rightarrow> b | None \<Rightarrow> le_bytes 8 (the (to_value o')))"

definition out_bytes :: "tx_out \<Rightarrow> buffer" where
  "out_bytes o' = value_bytes o' @ varint_bytes (length (to_script o')) @ to_script o'"

definition tx_bytes :: "transaction \<Rightarrow> buffer" where
  "tx_bytes tx = le_bytes 4 (tx_version tx) @
     varint_bytes (length (tx_ins tx)) @ concat (map in_bytes (tx_ins tx)) @
     varint_bytes (length (tx_outs tx)) @ concat (map out_bytes (tx_outs tx)) @
     le_bytes 4 (tx_locktime tx)"

text \<open>Well-formed inputs, outputs and transactions: every field fits its place in the format.\<close>

definition in_ok :: "tx_in \<Rightarrow> bool" where
  "in_ok i \<longleftrightarrow> length (ti_hash i) = 32 \<and> ti_index i < 2 ^ 32 \<and> length (ti_script i) < 2 ^ 53 \<and> ti_sequence i < 2 ^ 32"

definition value_ok :: "tx_out \<Rightarrow> bool" where
  "value_ok o' = (case to_valueBuffer o' of Some b \<Rightarrow> length b = 8
     | None \<Rightarrow> (case to_value o' of Some v \<Rightarrow> v < 2 ^ 53 | None \<Rightarrow> False))"

definition out_ok :: "tx_out \<Rightarrow> bool" where
  "out_ok o' \<longleftrightarrow> value_ok o' \<and> length (to_script o') < 2 ^ 53"

definition writable_tx :: "transaction \<Rightarrow> bool" where
  "writable_tx tx \<longleftrightarrow> tx_version tx < 2 ^ 32 \<and> tx_locktime tx < 2 ^ 32 \<and>
     length (tx_ins tx) < 2 ^ 53 \<and> list_all in_ok (tx_ins tx) \<and>
     length (tx_outs tx) < 2 ^ 53 \<and> list_all out_ok (tx_outs tx)"

definition tx_ok :: "transaction \<Rightarrow> bool" where
  "tx_ok tx \<longleftrightarrow> writable_tx tx \<and> list_all (\<lambda>o'. to_valueBuffer o' = None) (tx_outs tx)"

lemma length_in_bytes [simp, buf_simps]: "in_ok i \<Longrightarrow> length (in_bytes i) = 40 + scriptSize (ti_script i)"
  by (simp add: in_bytes_def in_ok_def scriptSize_def)

lemma length_value_bytes [simp, buf_simps]: "value_ok o' \<Longrightarrow> length (value_bytes o') = 8"
  by (auto simp: value_bytes_def value_ok_def split: option.splits)

lemma length_out_bytes [simp, buf_simps]: "out_ok o' \<Longrightarrow> length (out_bytes o') = 8 + scriptSize (to_script o')"
  by (simp add: out_bytes_def out_ok_def scriptSize_def)

lemma sum_in_sizes:
  "list_all in_ok ins \<Longrightarrow>
     foldl (\<lambda>sum input. sum + 40 + scriptSize (ti_script input)) a ins = a + length (concat (map in_bytes ins))"
  by (induction ins arbitrary: a) simp_all

lemma sum_out_sizes:
  "list_all out_ok outs \<Longrightarrow>
     foldl (\<lambda>sum output. sum + 8 + scriptSize (to_script output)) a outs = a + length (concat (map out_bytes outs))"
  by (induction outs arbitrary: a) simp_all

lemma byteLength_bytes: "writable_tx tx \<Longrightarrow> byteLength tx = length (tx_bytes tx)"
  by (simp add: byteLength_def tx_bytes_def writable_tx_def sum_in_sizes sum_out_sizes)

interpretation in_w: field_writer write_in in_bytes in_ok
proof -
  have "field_writer write_in (\<lambda>i. ti_hash i @ le_bytes 4 (ti_index i) @ varint_bytes (length (ti_script i)) @
      ti_script i @ le_bytes 4 (ti_sequence i))
    (\<lambda>i. True \<and> ti_index i < 0x100000000 \<and> length (ti_script i) < 0x20000000000000 \<and> True \<and> ti_sequence i < 0x100000000)"
    unfolding write_in_def [abs_def]
    by (intro field_writer_seq field_writer_map [OF slice_w.field_writer_axioms, of ti_hash]
        field_writer_map [OF uint32_w.field_writer_axioms, of ti_index]
        field_writer_map [OF varint_w.field_writer_axioms, of "\<lambda>i. length (ti_script i)"]
        field_writer_map [OF slice_w.field_writer_axioms, of ti_script]
        field_writer_map [OF uint32_w.field_writer_axioms, of ti_sequence])
  then show "field_writer write_in in_bytes in_ok"
    by (auto simp: field_writer_def in_bytes_def in_ok_def)
qed

lemma value_writer: "field_writer write_value value_bytes value_ok"
proof
  fix o' :: tx_out and pre rest :: buffer
  assume "value_ok o'" "length (value_bytes o') \<le> length rest"
  then show "write_value o' (pre @ rest, length pre) =
      Inr ((pre @ value_bytes o') @ drop (length (value_bytes o')) rest, length (pre @ value_bytes o'))"
    using slice_w.fills [of _ rest pre] uint64_w.fills [of "the (to_value o')" rest pre]
    by (auto simp: write_value_def value_bytes_def value_ok_def simp del: writeSlice.simps writeUInt64.simps
        split: option.splits)
qed

interpretation out_w: field_writer write_out out_bytes out_ok
proof -
  have "field_writer write_out (\<lambda>o'. value_bytes o' @ varint_bytes (length (to_script o')) @ to_script o')
    (\<lambda>o'. value_ok o' \<and> length (to_script o') < 0x20000000000000 \<and> True)"
    unfolding write_out_def [abs_def]
    by (intro field_writer_seq value_writer
        field_writer_map [OF varint_w.field_writer_axioms, of "\<lambda>o'. length (to_script o')"]
        field_writer_map [OF slice_w.field_writer_axioms, of to_script])
  then show "field_writer write_out out_bytes out_ok"
    by (auto simp: field_writer_def out_bytes_def out_ok_def)
qed

interpretation tx_w: field_writer tx_write tx_bytes writable_tx
proof -
  have "field_writer tx_write (\<lambda>tx. le_bytes 4 (tx_version tx) @
     varint_bytes (length (tx_ins tx)) @ concat (map in_bytes (tx_ins tx)) @
     varint_bytes (length (tx_outs tx)) @ concat (map out_bytes (tx_outs tx)) @ le_bytes 4 (tx_locktime tx))
    (\<lambda>tx. tx_version tx < 0x100000000 \<and> length (tx_ins tx) < 0x20000000000000 \<and> list_all in_ok (tx_ins tx) \<and>
       length (tx_outs tx) < 0x20000000000000 \<and> list_all out_ok (tx_outs tx) \<and> tx_locktime tx < 0x100000000)"
    unfolding tx_write_def [abs_def]
    by (intro field_writer_seq
        field_writer_map [OF uint32_w.field_writer_axioms, of tx_version]
        field_writer_map [OF varint_w.field_writer_axioms, of "\<lambda>tx. length (tx_ins tx)"]
        field_writer_map [OF field_writer_list [OF in_w.field_writer_axioms], of tx_ins]
        field_writer_map [OF varint_w.field_writer_axioms, of "\<lambda>tx. length (tx_outs tx)"]
        field_writer_map [OF field_writer_list [OF out_w.field_writer_axioms], of tx_outs]
        field_writer_map [OF uint32_w.field_writer_axioms, of tx_locktime])
  then show "field_writer tx_write tx_bytes writable_tx"
    by (auto simp: field_writer_def tx_bytes_def writable_tx_def)
qed

lemma tx_toBuffer_bytes: "writable_tx tx \<Longrightarrow> tx_toBuffer tx = Inr (tx_bytes tx)"
  using tx_w.fills [of tx "new_buffer (byteLength tx)" "[]"]
  by (simp add: tx_toBuffer_def byteLength_bytes)

section \<open>Reading back what was written\<close>

interpretation in_c: codec in_bytes read_in in_ok
proof
  fix x and pre post :: buffer
  assume ok: "in_ok x"
  let ?h = "ti_hash x" and ?i = "le_bytes 4 (ti_index x)" and ?s = "script_bytes (ti_script x)"
    and ?q = "le_bytes 4 (ti_sequence x)"
  let ?buf = "pre @ in_bytes x @ post"
  have "readSlice 32 ?buf (length pre) = Inr (?h, length pre + length ?h)"
    using ok by (intro codec_at [OF hash_c.codec_axioms, of ?h ?buf pre "?i @ ?s @ ?q @ post"])
      (simp_all add: in_ok_def in_bytes_def script_bytes_def)
  moreover have "readUInt32 ?buf (length pre + length ?h) = Inr (ti_index x, length pre + length ?h + length ?i)"
    using ok by (intro codec_at [OF uint32_c.codec_axioms, of "ti_index x" ?buf "pre @ ?h" "?s @ ?q @ post"])
      (simp_all add: in_ok_def in_bytes_def script_bytes_def)
  moreover have "readScript ?buf (length pre + length ?h + length ?i) =
      Inr (ti_script x, length pre + length ?h + length ?i + length ?s)"
    using ok by (intro codec_at [OF script_c.codec_axioms, of "ti_script x" ?buf "pre @ ?h @ ?i" "?q @ post"])
      (simp_all add: in_ok_def in_bytes_def script_bytes_def)
  moreover have "readUInt32 ?buf (length pre + length ?h + length ?i + length ?s) =
      Inr (ti_sequence x, length pre + length ?h + length ?i + length ?s + length ?q)"
    using ok by (intro codec_at [OF uint32_c.codec_axioms, of "ti_sequence x" ?buf "pre @ ?h @ ?i @ ?s" post])
      (simp_all add: in_ok_def in_bytes_def script_bytes_def)
  ultimately show "read_in ?buf (length pre) = Inr (x, length pre + length (in_bytes x))"
    using ok by (simp add: read_in_def scriptSize_def in_ok_def)
qed

interpretation out_c: codec out_bytes read_out "\<lambda>o'. out_ok o' \<and> to_valueBuffer o' = None"
proof
  fix x and pre post :: buffer
  assume ok: "out_ok x \<and> to_valueBuffer x = None"
  let ?v = "le_bytes 8 (the (to_value x))" and ?s = "script_bytes (to_script x)"
  let ?buf = "pre @ out_bytes x @ post"
  have v: "the (to_value x) < 0x20000000000000" "to_value x = Some (the (to_value x))"
    using ok by (auto simp: out_ok_def value_ok_def split: option.splits)
  have "readUInt64 ?buf (length pre) = Inr (the (to_value x), length pre + length ?v)"
    using ok v by (intro codec_at [OF uint64_c.codec_axioms, of "the (to_value x)" ?buf pre "?s @ post"])
      (simp_all add: out_bytes_def value_bytes_def script_bytes_def)
  moreover have "readScript ?buf (length pre + length ?v) = Inr (to_script x, length pre + length ?v + length ?s)"
    using ok by (intro codec_at [OF script_c.codec_axioms, of "to_script x" ?buf "pre @ ?v" post])
      (simp_all add: out_ok_def out_bytes_def value_bytes_def script_bytes_def)
  ultimately show "read_out ?buf (length pre) = Inr (x, length pre + length (out_bytes x))"
    using ok v(2) by (simp add: read_out_def scriptSize_def)
qed

lemma tx_read_bytes:
  assumes ok: "tx_ok tx"
  shows "tx_read (tx_bytes tx @ post) = Inr (tx, length (tx_bytes tx))"
proof -
  let ?v = "le_bytes 4 (tx_version tx)" and ?m = "varint_bytes (length (tx_ins tx))"
    and ?is = "concat (map in_bytes (tx_ins tx))" and ?n = "varint_bytes (length (tx_outs tx))"
    and ?os = "concat (map out_bytes (tx_outs tx))" and ?l = "le_bytes 4 (tx_locktime tx)"
  let ?buf = "tx_bytes tx @ post"
  have outs: "list_all (\<lambda>o'. out_ok o' \<and> to_valueBuffer o' = None) (tx_outs tx)"
    using ok by (simp add: tx_ok_def writable_tx_def list_all_iff)
  have "readUInt32 ?buf 0 = Inr (tx_version tx, 0 + length ?v)"
    using ok by (intro codec_at [OF uint32_c.codec_axioms, of _ ?buf "[]" "?m @ ?is @ ?n @ ?os @ ?l @ post"])
      (simp_all add: tx_ok_def writable_tx_def tx_bytes_def)
  moreover have "readVarIntAt ?buf (0 + length ?v) = Inr (length (tx_ins tx), 0 + length ?v + length ?m)"
    using ok by (intro codec_at [OF varint_c.codec_axioms, of _ ?buf ?v "?is @ ?n @ ?os @ ?l @ post"])
      (simp_all add: tx_ok_def writable_tx_def tx_bytes_def)
  moreover have "read_many read_in ?buf (0 + length ?v + length ?m) (length (tx_ins tx)) =
      Inr (tx_ins tx, 0 + length ?v + length ?m + length ?is)"
    using ok by (intro codec_many_at [OF in_c.codec_axioms, of _ ?buf "?v @ ?m" "?n @ ?os @ ?l @ post"])
      (simp_all add: tx_ok_def writable_tx_def tx_bytes_def)
  moreover have "readVarIntAt ?buf (0 + length ?v + length ?m + length ?is) =
      Inr (length (tx_outs tx), 0 + length ?v + length ?m + length ?is + length ?n)"
    using ok by (intro codec_at [OF varint_c.codec_axioms, of _ ?buf "?v @ ?m @ ?is" "?os @ ?l @ post"])
      (simp_all add: tx_ok_def writable_tx_def tx_bytes_def)
  moreover have "read_many read_out ?buf (0 + length ?v + length ?m + length ?is + length ?n) (length (tx_outs tx)) =
      Inr (tx_outs tx, 0 + length ?v + length ?m + length ?is + length ?n + length ?os)"
    using outs by (intro codec_many_at [OF out_c.codec_axioms, of _ ?buf "?v @ ?m @ ?is @ ?n" "?l @ post"])
      (simp_all add: tx_bytes_def)
  moreover have "readUInt32 ?buf (0 + length ?v + length ?m + length ?is + length ?n + length ?os) =
      Inr (tx_locktime tx, 0 + length ?v + length ?m + length ?is + length ?n + length ?os + length ?l)"
    using ok by (intro codec_at [OF uint32_c.codec_axioms, of _ ?buf "?v @ ?m @ ?is @ ?n @ ?os" post])
      (simp_all add: tx_ok_def writable_tx_def tx_bytes_def)
  ultimately show ?thesis
    by (simp only: tx_read_def rbind_simps prod.case) (simp add: tx_bytes_def)
qed

text \<open>Whatever is read without an error is well formed.\<close>

lemma readUInt32_ok: "readUInt32 buf off = Inr (v, off') \<Longrightarrow> v < 2 ^ 32 \<and> off' = off + 4 \<and> off' \<le> length buf"
  using readLE_bound [of 4 buf off] by (auto simp: readUInt32_def readLE_def split: if_splits)

lemma readVarIntAt_ok: "readVarIntAt buf off = Inr (v, off') \<Longrightarrow> v < 2 ^ 53 \<and> off \<le> off' \<and> off' \<le> length buf"
  using readVarInt_inside by (fastforce simp: readVarIntAt_def)

lemma readScript_ok: "readScript buf off = Inr (s, off') \<Longrightarrow> length s < 2 ^ 53 \<and> off \<le> off'"
  by (auto simp: readScript_def readSlice_def Let_def dest!: readVarIntAt_ok)

lemma readUInt64_ok: "readUInt64 buf off = Inr (v, off') \<Longrightarrow> v < 2 ^ 53 \<and> off' = off + 8"
  using readUInt64LE_limit [of buf off] by (auto simp: readUInt64_def)

lemma read_in_ok: "read_in buf off = Inr (x, off') \<Longrightarrow> in_ok x \<and> off \<le> off'"
  by (auto simp: read_in_def readSlice_def in_ok_def Let_def dest!: readUInt32_ok readScript_ok)

lemma read_out_ok:
  "read_out buf off = Inr (x, off') \<Longrightarrow> (out_ok x \<and> to_valueBuffer x = None) \<and> off \<le> off'"
  by (auto simp: read_out_def out_ok_def value_ok_def dest!: readUInt64_ok readScript_ok)

lemma read_ins_ok:
  "read_many read_in buf off n = Inr (xs, off') \<Longrightarrow> list_all in_ok xs \<and> length xs = n \<and> off \<le> off'"
  by (erule read_many_ok) (rule read_in_ok)

lemma read_outs_ok:
  "read_many read_out buf off n = Inr (xs, off') \<Longrightarrow>
     list_all (\<lambda>x. out_ok x \<and> to_valueBuffer x = None) xs \<and> length xs = n \<and> off \<le> off'"
  by (erule read_many_ok) (rule read_out_ok)

lemma tx_read_ok: "tx_read buf = Inr (tx, off) \<Longrightarrow> tx_ok tx"
  by (auto simp: tx_read_def tx_ok_def writable_tx_def list_all_iff
      dest!: readUInt32_ok readVarIntAt_ok read_ins_ok read_outs_ok)

section \<open>What the signed message commits to\<close>

text \<open>The parts of the transaction that the signature of input \<open>i\<close> covers under a hash type, written
  from the meaning of the flags and not from the code: no scripts of inputs; one input with
  ANYONECANPAY; the sequences of the other inputs only without NONE and SINGLE; no output with
  NONE and the output at the input's own index with SINGLE.\<close>

definition blank_script :: "tx_in \<Rightarrow> tx_in" where
  "blank_script i = i\<lparr>ti_script := []\<rparr>"

definition base_type :: "int \<Rightarrow> int" where
  "base_type hashType = js_and hashType 0x1f"

definition anyone_can_pay :: "int \<Rightarrow> bool" where
  "anyone_can_pay hashType \<longleftrightarrow> js_and hashType SIGHASH_ANYONECANPAY \<noteq> 0"

definition plain_out :: "tx_out \<Rightarrow> tx_out" where
  "plain_out o' = o'\<lparr>to_valueBuffer := None\<rparr>"

definition committed_ins :: "transaction \<Rightarrow> nat \<Rightarrow> int \<Rightarrow> tx_in list" where
  "committed_ins tx i ht =
     (if anyone_can_pay ht then [blank_script (tx_ins tx ! i)]
      else map (\<lambda>j. let x = blank_script (tx_ins tx ! j) in
                    if j \<noteq> i \<and> base_type ht \<in> {SIGHASH_NONE, SIGHASH_SINGLE} then x\<lparr>ti_sequence := 0\<rparr> else x)
               [0..<length (tx_ins tx)])"

definition committed_outs :: "transaction \<Rightarrow> nat \<Rightarrow> int \<Rightarrow> tx_out list" where
  "committed_outs tx i ht =
     (if base_type ht = SIGHASH_NONE then []
      else if base_type ht = SIGHASH_SINGLE then map plain_out (take 1 (drop i (tx_outs tx)))
      else map plain_out (tx_outs tx))"

text \<open>The serialised copy is a function of those parts.\<close>

definition sighash_of_view ::
    "nat \<Rightarrow> nat \<Rightarrow> tx_in list \<Rightarrow> tx_out list \<Rightarrow> nat \<Rightarrow> buffer \<Rightarrow> int \<Rightarrow> transaction option" where
  "sighash_of_view version locktime ins outs i s ht =
     (if base_type ht = SIGHASH_SINGLE \<and> outs = [] then None
      else Some \<lparr>tx_version = version, tx_locktime = locktime,
             tx_ins = (let k = (if anyone_can_pay ht then 0 else i) in ins[k := (ins ! k)\<lparr>ti_script := s\<rparr>]),
             tx_outs = (if base_type ht = SIGHASH_SINGLE then replicate i stubOut @ outs else outs)\<rparr>)"

lemma clone_ins [simp]: "tx_ins (tx_clone tx) = tx_ins tx"
  by (simp add: tx_clone_def new_transaction_def map_idI)

lemma clone_outs [simp]: "tx_outs (tx_clone tx) = map plain_out (tx_outs tx)"
  by (simp add: tx_clone_def new_transaction_def plain_out_def)

lemma clone_rest [simp]: "tx_version (tx_clone tx) = tx_version tx" "tx_locktime (tx_clone tx) = tx_locktime tx"
  by (simp_all add: tx_clone_def new_transaction_def)

lemma zero_other_sequences_nth:
  "zero_other_sequences i ins = map (\<lambda>j. if j \<noteq> i then (ins ! j)\<lparr>ti_sequence := 0\<rparr> else ins ! j) [0..<length ins]"
  by (rule nth_equalityI) (simp_all add: zero_other_sequences_def nth_enumerate_eq)

lemma tx_eqI:
  "tx_version a = tx_version b \<Longrightarrow> tx_locktime a = tx_locktime b \<Longrightarrow> tx_ins a = tx_ins b \<Longrightarrow>
     tx_outs a = tx_outs b \<Longrightarrow> a = (b :: transaction)"
  by simp

lemma blanked_ins:
  fixes s :: buffer
  assumes "i < length ins"
  defines "blank \<equiv> (map blank_script ins)[i := (blank_script (ins ! i))\<lparr>ti_script := s\<rparr>]"
  shows "zero_other_sequences i blank =
      (map (\<lambda>j. let x = blank_script (ins ! j) in if j \<noteq> i then x\<lparr>ti_sequence := 0\<rparr> else x) [0..<length ins])
        [i := (blank_script (ins ! i))\<lparr>ti_script := s\<rparr>]"
    and "blank = (map (\<lambda>j. blank_script (ins ! j)) [0..<length ins])[i := (blank_script (ins ! i))\<lparr>ti_script := s\<rparr>]"
proof -
  show "zero_other_sequences i blank =
      (map (\<lambda>j. let x = blank_script (ins ! j) in if j \<noteq> i then x\<lparr>ti_sequence := 0\<rparr> else x) [0..<length ins])
        [i := (blank_script (ins ! i))\<lparr>ti_script := s\<rparr>]"
    using assms(1)
    by (intro nth_equalityI) (simp_all add: blank_def zero_other_sequences_nth nth_list_update Let_def)
  show "blank = (map (\<lambda>j. blank_script (ins ! j)) [0..<length ins])[i := (blank_script (ins ! i))\<lparr>ti_script := s\<rparr>]"
    using assms(1) by (intro nth_equalityI) (simp_all add: blank_def nth_list_update)
qed

lemma slice_one: "length xs = n \<Longrightarrow> 0 < n \<Longrightarrow> slice (xs[0 := y]) 0 1 = [y]"
  by (cases xs) (auto simp: slice_def)

lemma drop_slice_one: "i < length xs \<Longrightarrow> drop i (slice xs 0 (i + 1)) = take 1 (drop i xs)"
  by (simp add: slice_def drop_take)

lemma sighash_tx_view:
  assumes i: "i < length (tx_ins tx)"
  shows "sighash_tx tx i s ht =
    sighash_of_view (tx_version tx) (tx_locktime tx) (committed_ins tx i ht) (committed_outs tx i ht) i s ht"
proof -
  have bs: "(\<lambda>input. input\<lparr>ti_script := []\<rparr>) = blank_script" by (simp add: blank_script_def [abs_def])
  have nth0: "map blank_script (tx_ins tx) ! i = blank_script (tx_ins tx ! i)" using i by simp
  let ?x = "(blank_script (tx_ins tx ! i))\<lparr>ti_script := s\<rparr>"
  let ?blank = "(map blank_script (tx_ins tx))[i := ?x]"
  let ?zero = "zero_other_sequences i ?blank"
  have one: "slice (?blank[0 := ?blank ! i]) 0 1 = [?x]" "slice (?zero[0 := ?zero ! i]) 0 1 = [?x]"
  proof -
    have len: "length ?blank = length (tx_ins tx)" "length ?zero = length (tx_ins tx)" "0 < length (tx_ins tx)"
      and nth: "?blank ! i = ?x" "?zero ! i = ?x"
      using i by (auto simp: zero_other_sequences_nth)
    show "slice (?blank[0 := ?blank ! i]) 0 1 = [?x]"
      unfolding nth by (rule slice_one [OF len(1,3)])
    show "slice (?zero[0 := ?zero ! i]) 0 1 = [?x]"
      unfolding nth by (rule slice_one [OF len(2,3)])
  qed
  have ins: "tx_ins (tx_clone tx\<lparr>tx_ins := xs\<rparr>) = xs" for xs by simp
  note unf = sighash_tx_def sighash_of_view_def committed_ins_def committed_outs_def base_type_def [symmetric]
    anyone_can_pay_def [symmetric] Let_def bs clone_ins nth0
  consider (none) "base_type ht = SIGHASH_NONE" | (single) "base_type ht = SIGHASH_SINGLE" |
    (all) "base_type ht \<noteq> SIGHASH_NONE" "base_type ht \<noteq> SIGHASH_SINGLE" by blast
  then show ?thesis
  proof cases
    case none
    then show ?thesis
      unfolding unf
      using i one blanked_ins [OF i, of s] by (cases "anyone_can_pay ht") (auto intro!: tx_eqI simp: Let_def)
  next
    case single
    show ?thesis
    proof (cases "i < length (tx_outs tx)")
      case True
      then have "take 1 (drop i (tx_outs tx)) \<noteq> []" by simp
      then show ?thesis
        unfolding unf
        using i single one blanked_ins [OF i, of s] True drop_slice_one [of i "map plain_out (tx_outs tx)"]
        by (cases "anyone_can_pay ht") (auto intro!: tx_eqI simp: Let_def take_map drop_map)
    next
      case False
      then show ?thesis unfolding unf using single by simp
    qed
  next
    case all
    then show ?thesis
      unfolding unf
      using i one blanked_ins [OF i, of s] by (cases "anyone_can_pay ht") (auto intro!: tx_eqI simp: Let_def)
  qed
qed

lemma hashForSignature_cong:
  assumes "i < length (tx_ins tx)" "i < length (tx_ins tx')"
    and "tx_version tx = tx_version tx'" "tx_locktime tx = tx_locktime tx'"
    and "committed_ins tx i ht = committed_ins tx' i ht" "committed_outs tx i ht = committed_outs tx' i ht"
  shows "hashForSignature sha256 tx i s ht = hashForSignature sha256 tx' i s ht"
  using assms by (simp add: hashForSignature_def sighash_tx_view not_le)

lemma sighash_preimage_bytes:
  assumes "writable_tx t" "- (2 ^ 31) \<le> ht" "ht < 2 ^ 31"
  shows "sighash_preimage t ht = Inr (tx_bytes t @ le_bytes 4 (nat (ht mod 2 ^ 32)))"
proof -
  let ?n = "length (tx_bytes t)"
  have "writeInt32LE (new_buffer (?n + 4)) ht ?n = Inr (new_buffer ?n @ le_bytes 4 (nat (ht mod 2 ^ 32)))"
    using assms by (simp add: writeInt32LE_def write_at_def new_buffer_def)
  moreover have "buf_copy (tx_bytes t) (new_buffer ?n @ le_bytes 4 (nat (ht mod 2 ^ 32))) 0 =
      tx_bytes t @ le_bytes 4 (nat (ht mod 2 ^ 32))"
    by (simp add: buf_copy_def write_at_def)
  ultimately show ?thesis
    using assms by (simp add: sighash_preimage_def byteLength_bytes tx_toBuffer_bytes Let_def)
qed

lemma plain_out_id: "to_valueBuffer o' = None \<Longrightarrow> plain_out o' = o'"
  by (simp add: plain_out_def)

lemma sighash_of_view_writable:
  assumes tx: "tx_ok tx" and i: "i < length (tx_ins tx)" and s: "length s < 2 ^ 53"
    and t: "sighash_tx tx i s ht = Some t"
  shows "writable_tx t"
proof -
  have ins: "in_ok (tx_ins tx ! j)" if "j < length (tx_ins tx)" for j
    using tx that by (auto simp: tx_ok_def writable_tx_def list_all_iff)
  have outs: "map plain_out (tx_outs tx) = tx_outs tx"
    using tx by (auto simp: tx_ok_def list_all_iff plain_out_id intro: map_idI)
  have c1: "length (committed_ins tx i ht) < 2 ^ 53 \<and> list_all in_ok (committed_ins tx i ht) \<and>
      (if anyone_can_pay ht then 0 else i) < length (committed_ins tx i ht)"
    using ins i tx by (auto simp: committed_ins_def list_all_iff in_ok_def blank_script_def Let_def tx_ok_def writable_tx_def)
  have c2: "length (committed_outs tx i ht) < 2 ^ 53 \<and> list_all out_ok (committed_outs tx i ht)"
    using tx outs by (auto simp: committed_outs_def list_all_iff tx_ok_def writable_tx_def take_map [symmetric] drop_map [symmetric]
        dest!: in_set_takeD in_set_dropD)
  have len: "length (replicate i stubOut @ committed_outs tx i ht) < 2 ^ 53"
    if "base_type ht = SIGHASH_SINGLE" "committed_outs tx i ht \<noteq> []"
    using that tx by (auto simp: committed_outs_def tx_ok_def writable_tx_def)
  have stub: "out_ok stubOut" by (simp add: out_ok_def stubOut_def value_ok_def VALUE_UINT64_MAX_def)
  have upd: "list_all in_ok (xs[k := (xs ! k)\<lparr>ti_script := s\<rparr>])" if "list_all in_ok xs" "k < length xs" for xs k
  proof -
    have "in_ok (xs ! k)" using that by (simp add: list_all_length)
    then have "in_ok ((xs ! k)\<lparr>ti_script := s\<rparr>)" using s by (simp add: in_ok_def)
    then show ?thesis using that(1) set_update_subset_insert by (fastforce simp: list_all_iff)
  qed
  let ?ins = "committed_ins tx i ht" and ?k = "if anyone_can_pay ht then 0 else i"
  let ?outs = "if base_type ht = SIGHASH_SINGLE then replicate i stubOut @ committed_outs tx i ht else committed_outs tx i ht"
  have t': "t = \<lparr>tx_version = tx_version tx, tx_locktime = tx_locktime tx,
      tx_ins = ?ins[?k := (?ins ! ?k)\<lparr>ti_script := s\<rparr>], tx_outs = ?outs\<rparr>"
    and ne: "base_type ht = SIGHASH_SINGLE \<Longrightarrow> committed_outs tx i ht \<noteq> []"
    using t unfolding sighash_tx_view [OF i] sighash_of_view_def Let_def by (auto split: if_splits)
  have "list_all in_ok (?ins[?k := (?ins ! ?k)\<lparr>ti_script := s\<rparr>])" using c1 by (intro upd) simp_all
  moreover have "list_all out_ok ?outs" using c2 stub by (auto simp: list_all_iff)
  moreover have "length ?outs < 2 ^ 53" using len ne c2 by simp
  moreover have "length ?ins < 2 ^ 53" using c1 by simp
  ultimately show ?thesis
    using tx unfolding t' by (simp add: writable_tx_def tx_ok_def)
qed

lemma hashForSignature_message:
  assumes "tx_ok tx" "i < 2 ^ 32" "sighash_script s = Inr hs" "length hs < 2 ^ 53" "- (2 ^ 31) \<le> ht" "ht < 2 ^ 31"
  shows "hashForSignature sha256 tx i s ht =
    (if i < length (tx_ins tx) then
       case sighash_of_view (tx_version tx) (tx_locktime tx) (committed_ins tx i ht) (committed_outs tx i ht) i hs ht of
         Some t \<Rightarrow> Inr (hash256 sha256 (tx_bytes t @ le_bytes 4 (nat (ht mod 2 ^ 32))))
       | None \<Rightarrow> Inr ONE
     else Inr ONE)"
proof -
  have u: "UInt32 (int i)" using assms(2) by (simp add: UInt32_iff)
  show ?thesis
  proof (cases "i < length (tx_ins tx)")
    case True
    show ?thesis
    proof (cases "sighash_tx tx i hs ht")
      case None
      then show ?thesis using True u assms(3) by (simp add: hashForSignature_def sighash_tx_view)
    next
      case (Some t)
      have "writable_tx t" by (rule sighash_of_view_writable [OF assms(1) True assms(4) Some])
      then show ?thesis
        using True u assms(3) Some sighash_preimage_bytes [OF _ assms(5,6)]
        by (simp add: hashForSignature_def sighash_tx_view)
    qed
  qed (use u in \<open>simp add: hashForSignature_def\<close>)
qed

section \<open>Properties\<close>

text \<open>C23: \<open>toBuffer\<close> fills exactly the \<open>byteLength\<close> bytes it allocates, with the fields in wire order.
  \<open>fromBuffer\<close> reads them back to the same transaction, whether or not it insists on the end of the
  buffer.\<close>

theorem transaction_roundtrip:
  assumes "tx_ok tx"
  shows "\<exists>b. tx_toBuffer tx = Inr b \<and> b = tx_bytes tx \<and> length b = byteLength tx \<and>
           tx_fromBuffer b False = Inr tx \<and> tx_fromBuffer (b @ post) True = Inr tx"
proof -
  have w: "writable_tx tx" using assms by (simp add: tx_ok_def)
  then show ?thesis
    using tx_read_bytes [OF assms] tx_read_bytes [OF assms, of "[]"]
    by (simp add: tx_toBuffer_bytes byteLength_bytes tx_fromBuffer_def)
qed

definition sample_tx :: transaction where
  "sample_tx = \<lparr>tx_version = 1, tx_locktime = 0,
     tx_ins = [\<lparr>ti_hash = replicate 32 7, ti_index = 1, ti_script = [1, 2], ti_sequence = 0xffffffff\<rparr>],
     tx_outs = [\<lparr>to_value = Some 5000, to_script = [0x6a], to_valueBuffer = None\<rparr>]\<rparr>"

lemma sample_tx_ok: "tx_ok sample_tx"
  by (simp add: sample_tx_def tx_ok_def writable_tx_def in_ok_def out_ok_def value_ok_def)

theorem transaction_roundtrip_witness:
  "\<exists>b. tx_toBuffer sample_tx = Inr b \<and> b = tx_bytes sample_tx \<and> length b = byteLength sample_tx \<and>
     tx_fromBuffer b False = Inr sample_tx \<and> tx_fromBuffer (b @ [1, 2]) True = Inr sample_tx"
  by (rule transaction_roundtrip) (rule sample_tx_ok)

text \<open>C26: whatever bytes \<open>fromBuffer\<close> accepts, the transaction it returns has every field in range,
  so it can be serialised again, and parsing that serialisation gives the same transaction.\<close>

theorem parsed_transaction_wellformed:
  assumes "tx_fromBuffer b noStrict = Inr tx"
  shows "tx_ok tx \<and> rbind (tx_toBuffer tx) (\<lambda>b. tx_fromBuffer b False) = Inr tx"
proof -
  have "tx_ok tx" using assms by (auto simp: tx_fromBuffer_def dest: tx_read_ok split: if_splits)
  then show ?thesis
    using tx_read_bytes [of tx "[]"] by (simp add: tx_ok_def tx_toBuffer_bytes tx_fromBuffer_def)
qed

theorem parsed_transaction_wellformed_witness:
  "\<exists>tx. tx_ok tx \<and> rbind (tx_toBuffer tx) (\<lambda>b. tx_fromBuffer b False) = Inr tx"
proof -
  have "tx_fromBuffer (tx_bytes sample_tx) False = Inr sample_tx"
    using tx_read_bytes [OF sample_tx_ok, of "[]"] by (simp add: tx_fromBuffer_def)
  from parsed_transaction_wellformed [OF this] show ?thesis by (rule exI)
qed

text \<open>C24: the message signed for an input is the serialisation of the parts the hash type commits to,
  followed by the hash type; for an input or a SINGLE output that does not exist the result is the
  number one, whatever the transaction holds.\<close>

theorem sighash_message:
  assumes "tx_ok tx" "i < 2 ^ 32" "sighash_script s = Inr hs" "length hs < 2 ^ 53" "- (2 ^ 31) \<le> ht" "ht < 2 ^ 31"
  shows "hashForSignature sha256 tx i s ht =
    (if i < length (tx_ins tx) then
       case sighash_of_view (tx_version tx) (tx_locktime tx) (committed_ins tx i ht) (committed_outs tx i ht) i hs ht of
         Some t \<Rightarrow> Inr (hash256 sha256 (tx_bytes t @ le_bytes 4 (nat (ht mod 2 ^ 32))))
       | None \<Rightarrow> Inr ONE
     else Inr ONE)"
  using assms by (rule hashForSignature_message)

theorem sighash_message_witness:
  "hashForSignature id sample_tx 0 [0xac] 0x83 =
    (if 0 < length (tx_ins sample_tx) then
       case sighash_of_view (tx_version sample_tx) (tx_locktime sample_tx) (committed_ins sample_tx 0 0x83)
         (committed_outs sample_tx 0 0x83) 0 [0xac] 0x83 of
         Some t \<Rightarrow> Inr (hash256 id (tx_bytes t @ le_bytes 4 (nat (0x83 mod 2 ^ 32))))
       | None \<Rightarrow> Inr ONE
     else Inr ONE)"
proof (rule sighash_message)
  have "decompile (Buf [0xac]) = Inr [Op 172]" using decompile_concat [of "[Op 172]"] by simp
  then show "sighash_script [0xac] = Inr [0xac]"
    using compile_Chunks [of "[Op 172]"] by (simp add: sighash_script_def)
qed (simp_all add: sample_tx_ok)

text \<open>C25: a signature covers no more than its hash type says: transactions that agree on version, lock
  time and the committed parts have the same hash for the input, so input scripts, with
  ANYONECANPAY the other inputs, with NONE all outputs, and with SINGLE all outputs but the one at
  the input's index may change without invalidating it.\<close>

theorem sighash_ignores_uncommitted:
  assumes "i < length (tx_ins tx)" "i < length (tx_ins tx')"
    and "tx_version tx = tx_version tx'" "tx_locktime tx = tx_locktime tx'"
    and "committed_ins tx i ht = committed_ins tx' i ht" "committed_outs tx i ht = committed_outs tx' i ht"
  shows "hashForSignature sha256 tx i s ht = hashForSignature sha256 tx' i s ht"
  using assms by (rule hashForSignature_cong)

theorem sighash_ignores_uncommitted_witness:
  "hashForSignature id sample_tx 0 [0xac] 0x82 =
   hashForSignature id (sample_tx\<lparr>tx_ins := map blank_script (tx_ins sample_tx) @ tx_ins sample_tx, tx_outs := []\<rparr>) 0 [0xac] 0x82"
  by (rule sighash_ignores_uncommitted)
     (simp_all add: sample_tx_def committed_ins_def committed_outs_def anyone_can_pay_def base_type_def
        blank_script_def js_and_def to_int32_def)

end
