(* ===== verification/Asm.thy ===== *)
theory Asm
  imports Bscript Hex
begin

text \<open>
  The opcode table \<open>bitcoinjs-lib/src/opcodes.json\<close>, and the textual form of
  scripts: \<open>toASM\<close> and \<open>fromASM\<close> of \<open>script.js\<close>.
\<close>

section \<open>Opcode names\<close>

definition OPS :: "(string \<times> nat) list" where
  "OPS =
    [(''OP_FALSE'', 0), (''OP_0'', 0), (''OP_PUSHDATA1'', 76), (''OP_PUSHDATA2'', 77),
     (''OP_PUSHDATA4'', 78), (''OP_1NEGATE'', 79), (''OP_RESERVED'', 80), (''OP_1'', 81),
     (''OP_TRUE'', 81), (''OP_2'', 82), (''OP_3'', 83), (''OP_4'', 84), (''OP_5'', 85), (''OP_6'',
     86), (''OP_7'', 87), (''OP_8'', 88), (''OP_9'', 89), (''OP_10'', 90), (''OP_11'', 91),
     (''OP_12'', 92), (''OP_13'', 93), (''OP_14'', 94), (''OP_15'', 95), (''OP_16'', 96),
     (''OP_NOP'', 97), (''OP_VER'', 98), (''OP_IF'', 99), (''OP_NOTIF'', 100), (''OP_VERIF'', 101),
     (''OP_VERNOTIF'', 102), (''OP_ELSE'', 103), (''OP_ENDIF'', 104), (''OP_VERIFY'', 105),
     (''OP_RETURN'', 106), (''OP_TOALTSTACK'', 107), (''OP_FROMALTSTACK'', 108), (''OP_2DROP'',
     109), (''OP_2DUP'', 110), (''OP_3DUP'', 111), (''OP_2OVER'', 112), (''OP_2ROT'', 113),
     (''OP_2SWAP'', 114), (''OP_IFDUP'', 115), (''OP_DEPTH'', 116), (''OP_DROP'', 117), (''OP_DUP'',
     118), (''OP_NIP'', 119), (''OP_OVER'', 120), (''OP_PICK'', 121), (''OP_ROLL'', 122),
     (''OP_ROT'', 123), (''OP_SWAP'', 124), (''OP_TUCK'', 125), (''OP_CAT'', 126), (''OP_SUBSTR'',
     127), (''OP_LEFT'', 128), (''OP_RIGHT'', 129), (''OP_SIZE'', 130), (''OP_INVERT'', 131),
     (''OP_AND'', 132), (''OP_OR'', 133), (''OP_XOR'', 134), (''OP_EQUAL'', 135),
     (''OP_EQUALVERIFY'', 136), (''OP_RESERVED1'', 137), (''OP_RESERVED2'', 138), (''OP_1ADD'',
     139), (''OP_1SUB'', 140), (''OP_2MUL'', 141), (''OP_2DIV'', 142), (''OP_NEGATE'', 143),
     (''OP_ABS'', 144), (''OP_NOT'', 145), (''OP_0NOTEQUAL'', 146), (''OP_ADD'', 147), (''OP_SUB'',
     148), (''OP_MUL'', 149), (''OP_DIV'', 150), (''OP_MOD'', 151), (''OP_LSHIFT'', 152),
     (''OP_RSHIFT'', 153), (''OP_BOOLAND'', 154), (''OP_BOOLOR'', 155), (''OP_NUMEQUAL'', 156),
     (''OP_NUMEQUALVERIFY'', 157), (''OP_NUMNOTEQUAL'', 158), (''OP_LESSTHAN'', 159),
     (''OP_GREATERTHAN'', 160), (''OP_LESSTHANOREQUAL'', 161), (''OP_GREATERTHANOREQUAL'', 162),
     (''OP_MIN'', 163), (''OP_MAX'', 164), (''OP_WITHIN'', 165), (''OP_RIPEMD160'', 166),
     (''OP_SHA1'', 167), (''OP_SHA256'', 168), (''OP_HASH160'', 169), (''OP_HASH256'', 170),
     (''OP_CODESEPARATOR'', 171), (''OP_CHECKSIG'', 172), (''OP_CHECKSIGVERIFY'', 173),
     (''OP_CHECKMULTISIG'', 174), (''OP_CHECKMULTISIGVERIFY'', 175), (''OP_NOP1'', 176),
     (''OP_NOP2'', 177), (''OP_CHECKLOCKTIMEVERIFY'', 177), (''OP_NOP3'', 178), (''OP_NOP4'', 179),
     (''OP_NOP5'', 180), (''OP_NOP6'', 181), (''OP_NOP7'', 182), (''OP_NOP8'', 183), (''OP_NOP9'',
     184), (''OP_NOP10'', 185), (''OP_PUBKEYHASH'', 253), (''OP_PUBKEY'', 254),
     (''OP_INVALIDOPCODE'', 255)]"

text \<open>The reverse table is filled in order: the last name of an opcode wins.\<close>

definition REVERSE_OPS :: "nat \<Rightarrow> string option" where
  "REVERSE_OPS code = map_of (map (\<lambda>(op, c). (c, op)) (rev OPS)) code"

section \<open>toASM and fromASM\<close>

text \<open>\<open>xs.join(' ')\<close> and \<open>s.split(' ')\<close>.\<close>

fun join_space :: "string list \<Rightarrow> string" where
  "join_space [] = []"
| "join_space [s] = s"
| "join_space (s # t # ss) = s @ CHR '' '' # join_space (t # ss)"

fun split_space :: "string \<Rightarrow> string list" where
  "split_space [] = [[]]"
| "split_space (c # cs) =
     (if c = CHR '' '' then [] # split_space cs
      else case split_space cs of s # ss \<Rightarrow> (c # s) # ss | [] \<Rightarrow> [[c]])"

text \<open>An opcode without a name is \<open>undefined\<close>, which \<open>join\<close> shows as the empty string.\<close>

definition toASM :: "script \<Rightarrow> string res" where
  "toASM script =
     rbind (decompile script) (\<lambda>chunks.
       Inr (join_space (map (\<lambda>chunk. case chunk of
           Data d \<Rightarrow> to_hex d
         | Op opc \<Rightarrow> (case REVERSE_OPS opc of Some name \<Rightarrow> name | None \<Rightarrow> [])) chunks)))"

definition fromASM :: "string \<Rightarrow> buffer res" where
  "fromASM asm =
     rbind (rmap (\<lambda>chunkStr. case map_of OPS chunkStr of
         Some opc \<Rightarrow> Inr (Op opc)
       | None \<Rightarrow> rbind (from_hex chunkStr) (\<lambda>d. Inr (Data d))) (split_space asm))
       (\<lambda>chunks. compile (Chunks chunks))"

section \<open>Round trips\<close>

lemma split_space_no: "CHR '' '' \<notin> set s \<Longrightarrow> split_space s = [s]"
  by (induction s) auto

lemma split_space_cons: "CHR '' '' \<notin> set s \<Longrightarrow> split_space (s @ CHR '' '' # t) = s # split_space t"
  by (induction s) auto

lemma split_join: "ss \<noteq> [] \<Longrightarrow> list_all (\<lambda>s. CHR '' '' \<notin> set s) ss \<Longrightarrow> split_space (join_space ss) = ss"
  by (induction ss rule: join_space.induct) (simp_all add: split_space_no split_space_cons)

lemma OPS_names: "list_all (\<lambda>(name, code). hd name = CHR ''O'' \<and> CHR '' '' \<notin> set name) OPS"
  by (simp add: OPS_def)

lemma OPS_distinct: "distinct (map fst OPS)"
  by (simp add: OPS_def)

lemma REVERSE_OPS_name:
  assumes "opc \<in> snd ` set OPS"
  shows "\<exists>name. REVERSE_OPS opc = Some name \<and> map_of OPS name = Some opc \<and>
           hd name = CHR ''O'' \<and> CHR '' '' \<notin> set name"
proof -
  let ?rev = "map (\<lambda>(op, c). (c, op)) (rev OPS)"
  have "opc \<in> fst ` set ?rev" using assms by force
  then obtain name where name: "REVERSE_OPS opc = Some name"
    unfolding REVERSE_OPS_def by (metis map_of_eq_None_iff not_Some_eq)
  then have "(opc, name) \<in> set ?rev" unfolding REVERSE_OPS_def by (rule map_of_SomeD)
  then have "(name, opc) \<in> set OPS" by auto
  then show ?thesis
    using name OPS_distinct OPS_names by (auto simp: list_all_iff intro: map_of_is_SomeI)
qed

lemma hex_not_op: "map_of OPS (to_hex d) = None" if "d \<noteq> []"
proof (rule ccontr)
  assume "map_of OPS (to_hex d) \<noteq> None"
  then obtain c where "(to_hex d, c) \<in> set OPS" using map_of_SomeD by fastforce
  then have "hd (to_hex d) = CHR ''O''" using OPS_names by (auto simp: list_all_iff)
  moreover have "hd (to_hex d) \<in> set (to_hex d)" using that by (cases d) simp_all
  ultimately show False using to_hex_chars [of "CHR ''O''" d] by simp
qed

lemma hex_no_space: "CHR '' '' \<notin> set (to_hex d)"
  using to_hex_chars [of "CHR '' ''" d] by auto

section \<open>Property\<close>

text \<open>The text that \<open>toASM\<close> makes of a script of named opcodes and non-empty pushes is read by
  \<open>fromASM\<close> to the compiled script.\<close>

theorem asm_roundtrip:
  assumes "cs \<noteq> []" "\<forall>c\<in>set cs. case c of Op opc \<Rightarrow> opc \<in> snd ` set OPS | Data d \<Rightarrow> d \<noteq> []"
  shows "rbind (toASM (Chunks cs)) fromASM = compile (Chunks cs)"
proof -
  let ?text = "\<lambda>chunk. case chunk of Data d \<Rightarrow> to_hex d
      | Op opc \<Rightarrow> (case REVERSE_OPS opc of Some name \<Rightarrow> name | None \<Rightarrow> [])"
  let ?parse = "\<lambda>chunkStr. case map_of OPS chunkStr of Some opc \<Rightarrow> Inr (Op opc)
      | None \<Rightarrow> rbind (from_hex chunkStr) (\<lambda>d. Inr (Data d))"
  have one: "?parse (?text c) = Inr c \<and> CHR '' '' \<notin> set (?text c)" if "c \<in> set cs" for c
  proof (cases c)
    case (Op opc)
    then have "opc \<in> snd ` set OPS" using assms(2) that by fastforce
    then show ?thesis using REVERSE_OPS_name [of opc] Op by auto
  next
    case (Data d)
    then have "d \<noteq> []" using assms(2) that by fastforce
    then show ?thesis using Data by (simp add: hex_not_op hex_no_space from_hex_to_hex)
  qed
  have "rmap ?parse (map ?text cs) = Inr cs"
    using one by (induction cs) simp_all
  moreover have "split_space (join_space (map ?text cs)) = map ?text cs"
    using assms(1) one by (intro split_join) (auto simp: list_all_iff)
  ultimately show ?thesis by (simp add: toASM_def fromASM_def del: rbind_Inr_iff)
qed

theorem asm_roundtrip_witness:
  "rbind (toASM (Chunks [Op 118, Data [0xab, 7], Op 172])) fromASM = compile (Chunks [Op 118, Data [0xab, 7], Op 172])"
proof (rule asm_roundtrip)
  have "118 \<in> snd ` set OPS" by (rule image_eqI [of _ _ "(''OP_DUP'', 118)"]) (simp_all add: OPS_def)
  moreover have "172 \<in> snd ` set OPS" by (rule image_eqI [of _ _ "(''OP_CHECKSIG'', 172)"]) (simp_all add: OPS_def)
  ultimately show "\<forall>c\<in>set [Op 118, Data [0xab, 7], Op 172].
      case c of Op opc \<Rightarrow> opc \<in> snd ` set OPS | Data d \<Rightarrow> d \<noteq> []"
    by simp
qed simp

end
