(* ===== verification/Address.thy ===== *)
theory Address
  imports Asm
begin

text \<open>
  \<open>bitcoinjs-lib/src/address.js\<close>: addresses from and to output scripts. \<open>bs58check\<close> is a package
  outside the sources: its \<open>decode\<close> and \<open>encode\<close> are arguments, and what the properties rely on is
  that \<open>decode\<close> inverts \<open>encode\<close>.
\<close>

section \<open>Networks\<close>

text \<open>The fields of a network of \<open>networks.js\<close> that the modelled code reads.\<close>

record network =
  messagePrefix :: string
  pubKeyHash :: nat
  scriptHash :: nat
  wif :: nat
  bip32_public :: nat
  bip32_private :: nat
  dustThreshold :: nat

definition bitcoin_network :: network where
  "bitcoin_network = \<lparr>messagePrefix = CHR 0x18 # ''Bitcoin Signed Message:'' @ [CHR 0x0A],
     pubKeyHash = 0x00, scriptHash = 0x05, wif = 0x80,
     bip32_public = 0x0488b21e, bip32_private = 0x0488ade4, dustThreshold = 546\<rparr>"

definition testnet_network :: network where
  "testnet_network = \<lparr>messagePrefix = CHR 0x18 # ''Bitcoin Signed Message:'' @ [CHR 0x0A],
     pubKeyHash = 0x6f, scriptHash = 0xc4, wif = 0xef,
     bip32_public = 0x043587cf, bip32_private = 0x04358394, dustThreshold = 546\<rparr>"

definition litecoin_network :: network where
  "litecoin_network = \<lparr>messagePrefix = CHR 0x19 # ''Litecoin Signed Message:'' @ [CHR 0x0A],
     pubKeyHash = 0x30, scriptHash = 0x05, wif = 0xb0,
     bip32_public = 0x019da462, bip32_private = 0x019d9cfe, dustThreshold = 0\<rparr>"

definition dogecoin_network :: network where
  "dogecoin_network = \<lparr>messagePrefix = CHR 0x19 # ''Dogecoin Signed Message:'' @ [CHR 0x0A],
     pubKeyHash = 0x1e, scriptHash = 0x16, wif = 0x9e,
     bip32_public = 0x02facafd, bip32_private = 0x02fac398, dustThreshold = 0\<rparr>"

section \<open>Operations\<close>

record decoded_address =
  da_hash :: buffer
  da_version :: nat

definition fromBase58Check :: "(string \<Rightarrow> buffer res) \<Rightarrow> string \<Rightarrow> decoded_address res" where
  "fromBase58Check b58_decode address =
     rbind (b58_decode address) (\<lambda>payload.
       if length payload < 21 then Inl (JsTypeError (address @ '' is too short''))
       else if length payload > 21 then Inl (JsTypeError (address @ '' is too long''))
       else Inr \<lparr>da_hash = drop 1 payload, da_version = unat (payload ! 0)\<rparr>)"

definition toBase58Check :: "(buffer \<Rightarrow> string) \<Rightarrow> buffer \<Rightarrow> nat \<Rightarrow> string res" where
  "toBase58Check b58_encode hash version =
     rbind (Hash160bit hash) (\<lambda>_.
     rbind (typeforce ''UInt8'' (UInt8 (int version))) (\<lambda>_.
     rbind (writeUInt8 (new_buffer 21) version 0) (\<lambda>payload.
       Inr (b58_encode (buf_copy hash payload 1)))))"

definition fromOutputScript :: "(buffer \<Rightarrow> string) \<Rightarrow> script \<Rightarrow> network option \<Rightarrow> string res" where
  "fromOutputScript b58_encode scriptPubKey net =
     (let network = (case net of Some n \<Rightarrow> n | None \<Rightarrow> bitcoin_network) in
      rbind (isPubKeyHashOutput scriptPubKey) (\<lambda>p.
      if p then rbind (compile scriptPubKey) (\<lambda>b. toBase58Check b58_encode (slice b 3 23) (pubKeyHash network))
      else rbind (isScriptHashOutput scriptPubKey) (\<lambda>p.
      if p then rbind (compile scriptPubKey) (\<lambda>b. toBase58Check b58_encode (slice b 2 22) (scriptHash network))
      else rbind (toASM scriptPubKey) (\<lambda>asm. Inl (JsError (asm @ '' has no matching Address''))))))"

definition toOutputScript :: "(string \<Rightarrow> buffer res) \<Rightarrow> string \<Rightarrow> network option \<Rightarrow> buffer res" where
  "toOutputScript b58_decode address net =
     (let network = (case net of Some n \<Rightarrow> n | None \<Rightarrow> bitcoin_network) in
      rbind (fromBase58Check b58_decode address) (\<lambda>decode.
        if da_version decode = pubKeyHash network then pubKeyHashOutput (da_hash decode)
        else if da_version decode = scriptHash network then scriptHashOutput (da_hash decode)
        else Inl (JsError (address @ '' has no matching Script''))))"

section \<open>Facts\<close>

lemma toBase58Check_payload:
  assumes "length h = 20" "v < 256"
  shows "toBase58Check b58_encode h v = Inr (b58_encode (word_of_nat v # h))"
proof -
  have "writeUInt8 (new_buffer 21) v 0 = Inr (word_of_nat v # replicate 20 0)"
    using assms by (simp add: writeLE_def write_at_def new_buffer_def)
  moreover have "buf_copy h (word_of_nat v # replicate 20 0) 1 = word_of_nat v # h"
    using assms by (simp add: buf_copy_def write_at_def)
  ultimately show ?thesis
    using assms by (simp add: toBase58Check_def Hash160bit_def nBuffer_ok UInt8_iff del: One_nat_def)
qed

lemma fromBase58Check_payload:
  assumes "b58_decode a = Inr (word_of_nat v # h)" "length h = 20" "v < 256"
  shows "fromBase58Check b58_decode a = Inr \<lparr>da_hash = h, da_version = v\<rparr>"
  using assms by (simp add: fromBase58Check_def)

lemma pubKeyHashOutput_bytes: "length h = 20 \<Longrightarrow> pubKeyHashOutput h = Inr ([0x76, 0xa9, 0x14] @ h @ [0x88, 0xac])"
  using pubKeyHash_t.built [of h] by (auto simp: push_prefix_def)

lemma scriptHashOutput_bytes: "length h = 20 \<Longrightarrow> scriptHashOutput h = Inr ([0xa9, 0x14] @ h @ [0x87])"
  using scriptHash_t.built [of h] by (auto simp: push_prefix_def)

lemma isPubKeyHashOutput_no_error: "\<exists>p. isPubKeyHashOutput (Buf b) = Inr p"
  by (simp add: isPubKeyHashOutput_def)

lemma isScriptHashOutput_no_error: "\<exists>p. isScriptHashOutput (Buf b) = Inr p"
  by (simp add: isScriptHashOutput_def)

section \<open>Properties\<close>

text \<open>The two shapes, byte for byte, with the version their address has.\<close>

definition addressed :: "network \<Rightarrow> buffer \<Rightarrow> nat \<Rightarrow> buffer \<Rightarrow> bool" where
  "addressed n b v h \<longleftrightarrow> length h = 20 \<and>
     (b = [0x76, 0xa9, 0x14] @ h @ [0x88, 0xac] \<and> v = pubKeyHash n \<or> b = [0xa9, 0x14] @ h @ [0x87] \<and> v = scriptHash n)"

lemma addressed_fromOutputScript:
  assumes "pubKeyHash n < 256" "scriptHash n < 256" "addressed n b v h"
  shows "fromOutputScript b58_encode (Buf b) (Some n) = Inr (b58_encode (word_of_nat v # h))"
proof -
  have h: "length h = 20" using assms(3) by (simp add: addressed_def)
  consider (pkh) "b = [0x76, 0xa9, 0x14] @ h @ [0x88, 0xac]" "v = pubKeyHash n" | (sh) "b = [0xa9, 0x14] @ h @ [0x87]" "v = scriptHash n"
    using assms(3) by (auto simp: addressed_def)
  then show ?thesis
  proof cases
    case pkh
    have "isPubKeyHashOutput (Buf b) = Inr True" using h pkh(1) isPubKeyHashOutput_bytes by blast
    moreover have "slice b 3 23 = h" using pkh(1) h slice_append_at [of 3 "[0x76, 0xa9, 0x14]" 23 h] by simp
    ultimately show ?thesis using toBase58Check_payload [OF h assms(1)] pkh(2) by (simp add: fromOutputScript_def)
  next
    case sh
    have "isPubKeyHashOutput (Buf b) = Inr False" using h sh(1) by (simp add: isPubKeyHashOutput_def)
    moreover have "isScriptHashOutput (Buf b) = Inr True" using h sh(1) isScriptHashOutput_bytes by blast
    moreover have "slice b 2 22 = h" using sh(1) h slice_append_at [of 2 "[0xa9, 0x14]" 22 h] by simp
    ultimately show ?thesis using toBase58Check_payload [OF h assms(2)] sh(2) by (simp add: fromOutputScript_def)
  qed
qed

lemma fromOutputScript_addressed:
  assumes "fromOutputScript b58_encode (Buf b) (Some n) = Inr a"
  shows "\<exists>v h. addressed n b v h"
proof -
  obtain p q where pq: "isPubKeyHashOutput (Buf b) = Inr p" "isScriptHashOutput (Buf b) = Inr q"
    using isPubKeyHashOutput_no_error isScriptHashOutput_no_error by metis
  have "p \<or> q" using assms pq by (auto simp: fromOutputScript_def split: if_splits)
  then show ?thesis using pq isPubKeyHashOutput_bytes [of b] isScriptHashOutput_bytes [of b] by (auto simp: addressed_def)
qed

lemma addressed_toOutputScript:
  assumes "pubKeyHash n < 256" "scriptHash n < 256" "pubKeyHash n \<noteq> scriptHash n" "addressed n b v h"
    and "b58_decode a = Inr (word_of_nat v # h)"
  shows "toOutputScript b58_decode a (Some n) = Inr b"
proof -
  have h: "length h = 20" "v < 256" using assms(1,2,4) by (auto simp: addressed_def)
  show ?thesis
    using fromBase58Check_payload [of b58_decode a v h] assms(5) h pubKeyHashOutput_bytes [OF h(1)] scriptHashOutput_bytes [OF h(1)] assms(3,4)
    by (auto simp: toOutputScript_def addressed_def)
qed

text \<open>C40: an output script has an address exactly if it is byte for byte a pay-to-pubkey-hash or a
  pay-to-script-hash script. The address is the Base58Check text of the version byte of its kind and the
  20 bytes of the hash, and when \<open>bs58check\<close> inverts itself and the two version bytes of the network
  differ, \<open>toOutputScript\<close> turns it back into the same bytes.\<close>

theorem address_roundtrip:
  assumes inv: "\<And>p. b58_decode (b58_encode p) = Inr p"
    and net: "pubKeyHash n < 256" "scriptHash n < 256" "pubKeyHash n \<noteq> scriptHash n"
  shows "(fromOutputScript b58_encode (Buf b) (Some n) = Inr a \<longleftrightarrow>
      (\<exists>h. length h = 20 \<and>
        (b = [0x76, 0xa9, 0x14] @ h @ [0x88, 0xac] \<and> a = b58_encode (word_of_nat (pubKeyHash n) # h) \<or>
         b = [0xa9, 0x14] @ h @ [0x87] \<and> a = b58_encode (word_of_nat (scriptHash n) # h)))) \<and>
    (fromOutputScript b58_encode (Buf b) (Some n) = Inr a \<longrightarrow> toOutputScript b58_decode a (Some n) = Inr b)"
proof -
  note from_script = addressed_fromOutputScript [OF net(1,2), of b]
  have "fromOutputScript b58_encode (Buf b) (Some n) = Inr a \<longleftrightarrow> (\<exists>v h. addressed n b v h \<and> a = b58_encode (word_of_nat v # h))"
    using fromOutputScript_addressed [of b58_encode b n a] from_script by fastforce
  moreover have "(\<exists>v h. addressed n b v h \<and> a = b58_encode (word_of_nat v # h)) \<longleftrightarrow>
      (\<exists>h. length h = 20 \<and>
        (b = [0x76, 0xa9, 0x14] @ h @ [0x88, 0xac] \<and> a = b58_encode (word_of_nat (pubKeyHash n) # h) \<or>
         b = [0xa9, 0x14] @ h @ [0x87] \<and> a = b58_encode (word_of_nat (scriptHash n) # h)))"
    unfolding addressed_def by blast
  moreover have "toOutputScript b58_decode a (Some n) = Inr b" if "addressed n b v h" "a = b58_encode (word_of_nat v # h)" for v h
    using addressed_toOutputScript [OF net that(1), of b58_decode a] inv that(2) by simp
  ultimately show ?thesis by blast
qed

text \<open>A stand-in for Base58: one character per byte.\<close>

definition plain_encode :: "buffer \<Rightarrow> string" where
  "plain_encode p = map (\<lambda>b. char_of (unat b)) p"

definition plain_decode :: "string \<Rightarrow> buffer res" where
  "plain_decode s = Inr (map (\<lambda>c. word_of_nat (of_char c)) s)"

lemma plain_inverse: "plain_decode (plain_encode p) = Inr p"
  by (simp add: plain_decode_def plain_encode_def comp_def map_idI)

theorem address_roundtrip_witness:
  "fromOutputScript plain_encode (Buf ([0xa9, 0x14] @ replicate 20 3 @ [0x87])) (Some testnet_network) =
     Inr (plain_encode (0xc4 # replicate 20 3)) \<and>
   toOutputScript plain_decode (plain_encode (0xc4 # replicate 20 3)) (Some testnet_network) = Inr ([0xa9, 0x14] @ replicate 20 3 @ [0x87])"
proof -
  let ?b = "[0xa9, 0x14] @ replicate 20 3 @ [0x87] :: buffer" and ?a = "plain_encode (0xc4 # replicate 20 3)"
  note rt = address_roundtrip [of plain_decode plain_encode testnet_network ?b ?a, OF plain_inverse]
  have "length (replicate 20 3 :: buffer) = 20 \<and> ?b = [0xa9, 0x14] @ replicate 20 3 @ [0x87] \<and>
      ?a = plain_encode (word_of_nat (scriptHash testnet_network) # replicate 20 3)"
    by (simp add: testnet_network_def)
  moreover have "pubKeyHash testnet_network < 256" "scriptHash testnet_network < 256" "pubKeyHash testnet_network \<noteq> scriptHash testnet_network"
    by (simp_all add: testnet_network_def)
  ultimately show ?thesis using rt by blast
qed

end
