(* ===== verification/Ec_Signature.thy ===== *)
theory Ec_Signature
  imports Types
begin

text \<open>
  \<open>bitcoinjs-lib/src/ecsignature.js\<close>: ECDSA signatures in compact, DER and script form. Big integers
  and the DER frame come from the packages bigi and bip66; the functions used of them are the fields
  of \<open>sig_lib\<close>, and \<open>sig_lib_ok\<close> states what they document.
\<close>

section \<open>The functions of bigi and bip66\<close>

record sig_lib =
  bn_fromBuffer :: "buffer \<Rightarrow> int"
  bn_toBuffer32 :: "int \<Rightarrow> buffer res"
  toDERInteger :: "int \<Rightarrow> buffer"
  fromDERInteger :: "buffer \<Rightarrow> int"
  bip66_check :: "buffer \<Rightarrow> bool"
  bip66_encode :: "buffer \<Rightarrow> buffer \<Rightarrow> buffer res"
  bip66_decode :: "buffer \<Rightarrow> (buffer \<times> buffer) res"

datatype ec_signature = ECSignature (sig_r: int) (sig_s: int)

section \<open>Operations\<close>

record parsed_compact =
  pc_compressed :: bool
  pc_i :: nat
  pc_signature :: ec_signature

definition parseCompact :: "sig_lib \<Rightarrow> buffer \<Rightarrow> parsed_compact res" where
  "parseCompact L b =
     (if length b \<noteq> 65 then Inl (JsError ''Invalid signature length'')
      else rbind (readUInt8 b 0) (\<lambda>v.
        let flagByte = int v - 27 in
        if flagByte \<noteq> js_and flagByte 7 then Inl (JsError ''Invalid signature parameter'')
        else
          let compressed = js_and flagByte 4 \<noteq> 0;
              recoveryParam = js_and flagByte 3;
              r = bn_fromBuffer L (slice b 1 33);
              s = bn_fromBuffer L (drop 33 b)
          in Inr \<lparr>pc_compressed = compressed, pc_i = nat recoveryParam, pc_signature = ECSignature r s\<rparr>))"

definition fromDER :: "sig_lib \<Rightarrow> buffer \<Rightarrow> ec_signature res" where
  "fromDER L b =
     rbind (bip66_decode L b) (\<lambda>(r, s). Inr (ECSignature (fromDERInteger L r) (fromDERInteger L s)))"

record parsed_script_sig =
  ps_signature :: ec_signature
  ps_hashType :: int

definition parseScriptSignature :: "sig_lib \<Rightarrow> buffer \<Rightarrow> parsed_script_sig res" where
  "parseScriptSignature L b =
     (if b = [] then Inl JsRangeError
      else rbind (readUInt8 b (length b - 1)) (\<lambda>h.
        let hashType = int h; hashTypeMod = js_and hashType (js_not 0x80) in
        if hashTypeMod \<le> 0 \<or> hashTypeMod \<ge> 4
        then Inl (JsError (''Invalid hashType '' @ dec_string h))
        else rbind (fromDER L (butlast b)) (\<lambda>sig. Inr \<lparr>ps_signature = sig, ps_hashType = hashType\<rparr>)))"

definition toCompact :: "sig_lib \<Rightarrow> ec_signature \<Rightarrow> nat \<Rightarrow> bool \<Rightarrow> buffer res" where
  "toCompact L sig i compressed =
     (let i = (if compressed then i + 4 else i); i = i + 27 in
      rbind (writeUInt8 (new_buffer 65) i 0) (\<lambda>buf.
      rbind (bn_toBuffer32 L (sig_r sig)) (\<lambda>r.
        let buf = buf_copy r buf 1 in
        rbind (bn_toBuffer32 L (sig_s sig)) (\<lambda>s. Inr (buf_copy s buf 33)))))"

definition toDER :: "sig_lib \<Rightarrow> ec_signature \<Rightarrow> buffer res" where
  "toDER L sig =
     (let r = toDERInteger L (sig_r sig); s = toDERInteger L (sig_s sig) in bip66_encode L r s)"

definition int_string :: "int \<Rightarrow> string" where
  "int_string v = (if v < 0 then CHR ''-'' # dec_string (nat (- v)) else dec_string (nat v))"

definition toScriptSignature :: "sig_lib \<Rightarrow> ec_signature \<Rightarrow> int \<Rightarrow> buffer res" where
  "toScriptSignature L sig hashType =
     (let hashTypeMod = js_and hashType (js_not 0x80) in
      if hashTypeMod \<le> 0 \<or> hashTypeMod \<ge> 4
      then Inl (JsError (''Invalid hashType '' @ int_string hashType))
      else if hashType < 0 then Inl (JsTypeError ''value out of bounds'')
      else rbind (writeUInt8 (new_buffer 1) (nat hashType) 0) (\<lambda>hashTypeBuffer.
           rbind (toDER L sig) (\<lambda>der. Inr (der @ hashTypeBuffer))))"

section \<open>What the packages document\<close>

definition sig_lib_ok :: "sig_lib \<Rightarrow> bool" where
  "sig_lib_ok L \<longleftrightarrow>
     (\<forall>v. 0 \<le> v \<longrightarrow> v < 2 ^ 256 \<longrightarrow>
        (\<exists>b. bn_toBuffer32 L v = Inr b \<and> length b = 32 \<and> bn_fromBuffer L b = v)) \<and>
     (\<forall>r s b. bip66_encode L r s = Inr b \<longrightarrow> bip66_decode L b = Inr (r, s)) \<and>
     (\<forall>v. 0 \<le> v \<longrightarrow> fromDERInteger L (toDERInteger L v) = v)"

section \<open>The hash type byte\<close>

lemma bit_lt_8:
  assumes "0 \<le> (h :: int)" "h < 256" "bit h n"
  shows "n < 8"
proof -
  have "take_bit 8 h = h" using assms(1,2) by (simp add: take_bit_int_eq_self)
  then show ?thesis using assms(3) bit_take_bit_iff [of 8 h n] by simp
qed

lemma hash_type_mod:
  assumes "0 \<le> h" "h < 256"
  shows "js_and h (js_not 0x80) = h mod 128"
proof -
  have h: "to_int32 h = h" using assms by (intro to_int32_id) simp_all
  have nb: "bit (128 :: int) n \<longleftrightarrow> n = 7" for n using bit_exp_iff [of 7 n, where ?'a = int] by auto
  have "h AND NOT 128 = take_bit 7 h"
  proof (rule bit_eqI)
    fix n
    have "bit h n \<Longrightarrow> n < 8" using assms by (rule bit_lt_8)
    then show "bit (h AND NOT 128) n \<longleftrightarrow> bit (take_bit 7 h) n"
      by (auto simp: bit_simps nb)
  qed
  moreover have "js_and h (js_not 0x80) = h AND NOT 128"
    using h by (simp add: js_and_def js_not_def to_int32_def)
  ultimately show ?thesis by (simp add: take_bit_eq_mod)
qed

lemma hash_type_valid:
  assumes "0 \<le> h" "h < 256"
  shows "\<not> (js_and h (js_not 0x80) \<le> 0 \<or> js_and h (js_not 0x80) \<ge> 4) \<longleftrightarrow> h \<in> {1, 2, 3, 129, 130, 131}"
proof -
  have "h mod 128 \<in> {1, 2, 3} \<longleftrightarrow> h \<in> {1, 2, 3, 129, 130, 131}"
  proof (cases "h < 128")
    case True
    then have "h mod 128 = h" using assms by (intro mod_pos_pos_trivial)
    then show ?thesis using True by auto
  next
    case False
    then have "(h - 128) mod 128 = h - 128" using assms by (intro mod_pos_pos_trivial) simp_all
    then have "h mod 128 = h - 128" by (simp only: minus_mod_self2)
    then show ?thesis using False assms by auto
  qed
  then show ?thesis using hash_type_mod [OF assms] by auto
qed

lemma readUInt8_first: "v < 256 \<Longrightarrow> readUInt8 (word_of_nat v # b) 0 = Inr v"
  using readUInt8_nth [of 0 "word_of_nat v # b"] by simp

section \<open>Properties\<close>

text \<open>a signature with a hash type from BIP 62's list is written to a script push and parsed
  back, signature and hash type; every other byte value is refused on both sides.\<close>

theorem script_signature_roundtrip:
  assumes lib: "sig_lib_ok L" and sig: "0 \<le> sig_r sig" "0 \<le> sig_s sig" "toDER L sig = Inr der"
    and h: "0 \<le> h" "h < 256"
  shows "if h \<in> {1, 2, 3, 129, 130, 131}
         then rbind (toScriptSignature L sig h) (parseScriptSignature L) = Inr \<lparr>ps_signature = sig, ps_hashType = h\<rparr>
         else toScriptSignature L sig h = Inl (JsError (''Invalid hashType '' @ int_string h)) \<and>
              parseScriptSignature L (der @ [word_of_nat (nat h)]) = Inl (JsError (''Invalid hashType '' @ int_string h))"
proof -
  have der: "fromDER L der = Inr sig"
    using lib sig by (cases sig) (auto simp: sig_lib_ok_def fromDER_def toDER_def Let_def)
  have byte: "writeUInt8 (new_buffer 1) (nat h) 0 = Inr [word_of_nat (nat h)]"
    using h by (simp add: writeLE_def write_at_def new_buffer_def)
  have u: "nat h < 256" using h by simp
  have last: "readUInt8 (der @ [word_of_nat (nat h)]) (length (der @ [word_of_nat (nat h)]) - 1) = Inr (nat h)"
    using readUInt8_nth [of "length der" "der @ [word_of_nat (nat h)]"] u by simp
  have valid: "(js_and h (js_not 128) \<le> 0 \<or> js_and h (js_not 128) \<ge> 4) \<longleftrightarrow> h \<notin> {1, 2, 3, 129, 130, 131}"
    using hash_type_valid [OF h] by blast
  have int: "int (nat h) = h" "\<not> h < 0" using h by simp_all
  have parse: "parseScriptSignature L (der @ [word_of_nat (nat h)]) =
      (if h \<notin> {1, 2, 3, 129, 130, 131} then Inl (JsError (''Invalid hashType '' @ dec_string (nat h)))
       else Inr \<lparr>ps_signature = sig, ps_hashType = h\<rparr>)"
    unfolding parseScriptSignature_def last rbind_simps Let_def int valid by (simp add: der)
  have wr: "toScriptSignature L sig h =
      (if h \<notin> {1, 2, 3, 129, 130, 131} then Inl (JsError (''Invalid hashType '' @ int_string h))
       else Inr (der @ [word_of_nat (nat h)]))"
    unfolding toScriptSignature_def Let_def valid if_not_P [OF int(2)] byte rbind_simps sig(3) by (rule refl)
  have str: "int_string h = dec_string (nat h)" using int(2) by (simp only: int_string_def if_False)
  show ?thesis
  proof (cases "h \<in> {1, 2, 3, 129, 130, 131}")
    case True
    then show ?thesis unfolding wr parse if_P [OF True] by (simp only: parse not_not if_False rbind_simps simp_thms)
  next
    case False
    then show ?thesis unfolding wr parse str if_not_P [OF False] by (simp only: not_False_eq_True if_True simp_thms)
  qed
qed

text \<open>a signature whose numbers fit 256 bits is written to the 65 bytes of the compact form and parsed
  back with its recovery id and compression flag.\<close>

theorem compact_roundtrip:
  assumes lib: "sig_lib_ok L" and r: "0 \<le> sig_r sig" "sig_r sig < 2 ^ 256" and s: "0 \<le> sig_s sig" "sig_s sig < 2 ^ 256"
    and i: "i < 4"
  shows "rbind (toCompact L sig i compressed) (parseCompact L) =
           Inr \<lparr>pc_compressed = compressed, pc_i = i, pc_signature = sig\<rparr>"
proof -
  obtain rb where rb: "bn_toBuffer32 L (sig_r sig) = Inr rb" "length rb = 32" "bn_fromBuffer L rb = sig_r sig"
    using lib r by (auto simp: sig_lib_ok_def)
  obtain sb where sb: "bn_toBuffer32 L (sig_s sig) = Inr sb" "length sb = 32" "bn_fromBuffer L sb = sig_s sig"
    using lib s by (auto simp: sig_lib_ok_def)
  let ?f = "27 + (if compressed then i + 4 else i)"
  have w: "writeUInt8 (new_buffer 65) ?f 0 = Inr (word_of_nat ?f # replicate 64 0)"
    using i by (simp add: writeLE_def write_at_def new_buffer_def)
  have c1: "buf_copy rb (word_of_nat ?f # replicate 64 0) 1 = word_of_nat ?f # rb @ replicate 32 0"
    using rb(2) by (simp add: buf_copy_def write_at_def)
  have c2: "buf_copy sb (word_of_nat ?f # rb @ replicate 32 0) 33 = word_of_nat ?f # rb @ sb"
    using rb(2) sb(2) by (simp add: buf_copy_def write_at_def)
  have enc: "toCompact L sig i compressed = Inr (word_of_nat ?f # rb @ sb)"
    unfolding toCompact_def Let_def using w rb(1) sb(1) c1 c2 by (simp add: add.commute)
  have flag: "readUInt8 (word_of_nat ?f # rb @ sb) 0 = Inr ?f"
    using i by (intro readUInt8_first) simp
  have sl: "slice (word_of_nat ?f # rb @ sb) 1 33 = rb" "drop 33 (word_of_nat ?f # rb @ sb) = sb"
    using rb(2) by (simp_all add: slice_def)
  have cases_i: "i = 0 \<or> i = 1 \<or> i = 2 \<or> i = 3" using i by linarith
  have bits: "js_and (int ?f - 27) 7 = int ?f - 27" "js_and (int ?f - 27) 4 \<noteq> 0 \<longleftrightarrow> compressed"
    "nat (js_and (int ?f - 27) 3) = i"
    using cases_i by (cases compressed; auto simp: js_and_def to_int32_def)+
  have "length (word_of_nat ?f # rb @ sb) = 65" using rb(2) sb(2) by simp
  then show ?thesis
    unfolding enc rbind_simps parseCompact_def Let_def flag bits sl rb(3) sb(3) by simp
qed

text \<open>A library with the documented laws: numbers as 32 big-endian bytes, pairs framed by a length byte.\<close>

definition sample_lib :: sig_lib where
  "sample_lib = \<lparr>bn_fromBuffer = (\<lambda>b. int (be_nat b)), bn_toBuffer32 = (\<lambda>v. Inr (be_bytes 32 (nat v))),
     toDERInteger = (\<lambda>v. replicate (nat v) 0), fromDERInteger = (\<lambda>b. int (length b)),
     bip66_check = (\<lambda>_. True),
     bip66_encode = (\<lambda>r s. if length r < 256 then Inr (word_of_nat (length r) # r @ s) else Inl (JsError ''long'')),
     bip66_decode = (\<lambda>b. Inr (take (unat (hd b)) (tl b), drop (unat (hd b)) (tl b)))\<rparr>"

lemma sample_lib_ok: "sig_lib_ok sample_lib"
proof -
  have "nat v < 256 ^ 32" if "0 \<le> v" "v < 2 ^ 256" for v :: int
    using that by (simp add: nat_less_iff)
  then show ?thesis by (auto simp: sig_lib_ok_def sample_lib_def)
qed

theorem script_signature_roundtrip_witness:
  "if (0x81 :: int) \<in> {1, 2, 3, 129, 130, 131}
   then rbind (toScriptSignature sample_lib (ECSignature 2 3) 0x81) (parseScriptSignature sample_lib) =
          Inr \<lparr>ps_signature = ECSignature 2 3, ps_hashType = 0x81\<rparr>
   else toScriptSignature sample_lib (ECSignature 2 3) 0x81 = Inl (JsError (''Invalid hashType '' @ int_string 0x81)) \<and>
        parseScriptSignature sample_lib ([2, 0, 0, 0, 0, 0] @ [word_of_nat (nat 0x81)]) = Inl (JsError (''Invalid hashType '' @ int_string 0x81))"
  by (rule script_signature_roundtrip [OF sample_lib_ok])
     (simp_all add: toDER_def sample_lib_def numeral_2_eq_2 numeral_3_eq_3)

theorem compact_roundtrip_witness:
  "rbind (toCompact sample_lib (ECSignature 5 6) 1 True) (parseCompact sample_lib) =
     Inr \<lparr>pc_compressed = True, pc_i = 1, pc_signature = ECSignature 5 6\<rparr>"
  by (rule compact_roundtrip [OF sample_lib_ok]) simp_all

end
