(* ===== verification/Tx_Builder.thy ===== *)
theory Tx_Builder
  imports Tx Address Ec_Signature
begin

text \<open>
  \<open>bitcoinjs-lib/src/transaction_builder.js\<close>: building and signing transactions. An operation
  returns the builder after it; \<open>sign\<close>, which changes an input before it may throw, returns the
  builder together with the outcome. The packages it reaches (hashes, Base58, elliptic curves) are
  the fields of \<open>builder_lib\<close>; a key pair is what \<open>sign\<close> uses of one. The networks of a key pair and
  a builder are compared by their fields; the code compares the objects, which is the same for the
  networks of \<open>networks.js\<close>.
\<close>

section \<open>State\<close>

record builder_lib =
  bl_sig :: sig_lib
  bl_sha256 :: "buffer \<Rightarrow> buffer"
  bl_ripemd160 :: "buffer \<Rightarrow> buffer"
  bl_b58_decode :: "string \<Rightarrow> buffer res"
  bl_verify :: "buffer \<Rightarrow> (buffer \<Rightarrow> ec_signature \<Rightarrow> bool) res"

abbreviation bl_hash160 :: "builder_lib \<Rightarrow> buffer \<Rightarrow> buffer" where
  "bl_hash160 L \<equiv> hash160 (bl_ripemd160 L) (bl_sha256 L)"

record key_pair =
  kp_network :: network
  kp_pubKey :: buffer
  kp_sign :: "buffer \<Rightarrow> ec_signature res"

text \<open>An input of the builder; a missing property of the JavaScript object is \<open>None\<close>.\<close>

record builder_input =
  bi_hashType :: "int option"
  bi_prevOutScript :: "buffer option"
  bi_prevOutType :: "string option"
  bi_pubKeys :: "buffer list option"
  bi_redeemScript :: "buffer option"
  bi_scriptType :: "string option"
  bi_signatures :: "ec_signature option list option"

definition no_input :: builder_input where
  "no_input = \<lparr>bi_hashType = None, bi_prevOutScript = None, bi_prevOutType = None, bi_pubKeys = None,
     bi_redeemScript = None, bi_scriptType = None, bi_signatures = None\<rparr>"

record builder =
  tb_prevTxMap :: "string \<Rightarrow> nat option"
  tb_network :: network
  tb_inputs :: "builder_input list"
  tb_tx :: transaction

definition new_builder :: "network option \<Rightarrow> builder" where
  "new_builder network = \<lparr>tb_prevTxMap = (\<lambda>_. None),
     tb_network = (case network of Some n \<Rightarrow> n | None \<Rightarrow> bitcoin_network),
     tb_inputs = [], tb_tx = new_transaction\<rparr>"

text \<open>The bytes of a chunk that is known to be data.\<close>

fun data_of :: "chunk \<Rightarrow> buffer" where
  "data_of (Data b) = b"
| "data_of (Op _) = []"

section \<open>Lock time, inputs and outputs\<close>

definition has_signature :: "builder_input \<Rightarrow> bool" where
  "has_signature input = (case bi_signatures input of
       None \<Rightarrow> False
     | Some sigs \<Rightarrow> list_ex (\<lambda>s. s \<noteq> None) sigs)"

definition tb_setLockTime :: "builder \<Rightarrow> nat \<Rightarrow> builder res" where
  "tb_setLockTime b locktime =
     rbind (typeforce ''UInt32'' (UInt32 (int locktime))) (\<lambda>_.
       if list_ex has_signature (tb_inputs b) then Inl (JsError ''No, this would invalidate signatures'')
       else Inr (b\<lparr>tb_tx := (tb_tx b)\<lparr>tx_locktime := locktime\<rparr>\<rparr>))"

datatype tx_ref = HexId string | PrevTx transaction | RawHash buffer

definition resolve_prev ::
    "builder_lib \<Rightarrow> tx_ref \<Rightarrow> nat \<Rightarrow> buffer option \<Rightarrow> (buffer \<times> buffer option) res" where
  "resolve_prev L txHash vout prevOutScript = (case txHash of
       HexId s \<Rightarrow> rbind (from_hex s) (\<lambda>h. Inr (rev h, prevOutScript))
     | PrevTx t \<Rightarrow>
         if vout < length (tx_outs t)
         then rbind (tx_getHash (bl_sha256 L) t) (\<lambda>h. Inr (h, Some (to_script (tx_outs t ! vout))))
         else Inl (JsTypeError ''Cannot read property script of undefined'')
     | RawHash h \<Rightarrow> Inr (h, prevOutScript))"

definition input_of_prevOut :: "buffer option \<Rightarrow> builder_input res" where
  "input_of_prevOut prevOutScript = (case prevOutScript of
       None \<Rightarrow> Inr no_input
     | Some script \<Rightarrow>
         rbind (decompile (Buf script)) (\<lambda>chunks.
         rbind (classifyOutput (Chunks chunks)) (\<lambda>prevOutType.
           let input =
             (if prevOutType = ''multisig'' then
                let keys = map data_of (slice chunks 1 (length chunks - 2))
                in no_input\<lparr>bi_pubKeys := Some keys, bi_signatures := Some (map (\<lambda>_. None) keys)\<rparr>
              else if prevOutType = ''pubkey'' then
                no_input\<lparr>bi_pubKeys := Some (map data_of (take 1 chunks)), bi_signatures := Some [None]\<rparr>
              else no_input);
               input = (if prevOutType \<noteq> ''scripthash'' then input\<lparr>bi_scriptType := Some prevOutType\<rparr> else input)
           in Inr (input\<lparr>bi_prevOutScript := Some script, bi_prevOutType := Some prevOutType\<rparr>))))"

definition prev_out_key :: "buffer \<Rightarrow> nat \<Rightarrow> string" where
  "prev_out_key txHash vout = to_hex txHash @ '':'' @ dec_string vout"

text \<open>The guard for inputs looks only at \<open>hashType\<close>; the one against duplicates tests the stored
  index for truth, and the index 0 is false.\<close>

definition anyone_can_add :: "builder_input \<Rightarrow> bool" where
  "anyone_can_add otherInput = (case bi_hashType otherInput of
       None \<Rightarrow> True
     | Some h \<Rightarrow> js_and h SIGHASH_ANYONECANPAY \<noteq> 0)"

definition tb_addInput ::
    "builder_lib \<Rightarrow> builder \<Rightarrow> tx_ref \<Rightarrow> nat \<Rightarrow> nat option \<Rightarrow> buffer option \<Rightarrow> (builder \<times> nat) res" where
  "tb_addInput L b txRef vout sequence prevOutScript =
     rbind (resolve_prev L txRef vout prevOutScript) (\<lambda>(txHash, prevOutScript).
     rbind (input_of_prevOut prevOutScript) (\<lambda>input.
       if \<not> list_all anyone_can_add (tb_inputs b) then Inl (JsError ''No, this would invalidate signatures'')
       else
         let prevOut = prev_out_key txHash vout in
         if (case tb_prevTxMap b prevOut of Some v \<Rightarrow> v \<noteq> 0 | None \<Rightarrow> False)
         then Inl (JsError ''Transaction is already an input'')
         else rbind (tx_addInput (tb_tx b) txHash vout sequence None) (\<lambda>(tx, vin).
           Inr (b\<lparr>tb_tx := tx,
                  tb_inputs := (if vin < length (tb_inputs b) then (tb_inputs b)[vin := input] else tb_inputs b @ [input]),
                  tb_prevTxMap := (tb_prevTxMap b)(prevOut \<mapsto> vin)\<rparr>, vin))))"

definition output_can_be_added :: "nat \<Rightarrow> nat \<Rightarrow> builder_input \<Rightarrow> bool" where
  "output_can_be_added nOutputs index input = (case bi_hashType input of
       None \<Rightarrow> True
     | Some h \<Rightarrow>
         let hashTypeMod = js_and h 0x1f in
         if hashTypeMod = SIGHASH_NONE then True
         else if hashTypeMod = SIGHASH_SINGLE then index < nOutputs
         else False)"

datatype output_target = ToAddress string | ToScript buffer

definition tb_addOutput :: "builder_lib \<Rightarrow> builder \<Rightarrow> output_target \<Rightarrow> nat \<Rightarrow> (builder \<times> nat) res" where
  "tb_addOutput L b target value =
     (let nOutputs = length (tx_outs (tb_tx b)) in
      if \<not> list_all (\<lambda>(index, input). output_can_be_added nOutputs index input) (enumerate 0 (tb_inputs b))
      then Inl (JsError ''No, this would invalidate signatures'')
      else rbind (case target of
             ToAddress a \<Rightarrow> toOutputScript (bl_b58_decode L) a (Some (tb_network b))
           | ToScript s \<Rightarrow> Inr s) (\<lambda>scriptPubKey.
           rbind (tx_addOutput (tb_tx b) scriptPubKey value) (\<lambda>(tx, vout). Inr (b\<lparr>tb_tx := tx\<rparr>, vout))))"

section \<open>Signing\<close>

text \<open>\<open>[undefined]\<close>-filled lists, truthiness of the fields that decide whether an input is ready.\<close>

definition can_sign :: "builder_input \<Rightarrow> bool" where
  "can_sign input \<longleftrightarrow>
     (case bi_hashType input of Some h \<Rightarrow> h \<noteq> 0 | None \<Rightarrow> False) \<and>
     bi_prevOutScript input \<noteq> None \<and>
     bi_prevOutType input \<noteq> None \<and>
     bi_pubKeys input \<noteq> None \<and>
     bi_scriptType input \<noteq> None \<and>
     bi_signatures input \<noteq> None \<and>
     length (the (bi_signatures input)) = length (the (bi_pubKeys input))"

definition prepare_redeem :: "builder_lib \<Rightarrow> builder_input \<Rightarrow> key_pair \<Rightarrow> buffer \<Rightarrow> builder_input res" where
  "prepare_redeem L input keyPair redeemScript =
     rbind (case bi_prevOutScript input of
         None \<Rightarrow> Inr ()
       | Some prevOutScript \<Rightarrow>
           if bi_prevOutType input \<noteq> Some ''scripthash'' then Inl (JsError ''PrevOutScript must be P2SH'')
           else rbind (decompile (Buf prevOutScript)) (\<lambda>chunks.
             let scriptHash = data_of (chunks ! 1) in
             if scriptHash \<noteq> bl_hash160 L redeemScript
             then Inl (JsError (''RedeemScript does not match '' @ to_hex scriptHash))
             else Inr ())) (\<lambda>_.
     rbind (classifyOutput (Buf redeemScript)) (\<lambda>scriptType.
     rbind (decompile (Buf redeemScript)) (\<lambda>redeemScriptChunks.
     rbind (if scriptType = ''multisig'' then
              Inr (map data_of (slice redeemScriptChunks 1 (length redeemScriptChunks - 2)))
            else if scriptType = ''pubkeyhash'' then
              let pkh1 = data_of (redeemScriptChunks ! 2); pkh2 = bl_hash160 L (kp_pubKey keyPair)
              in if pkh1 \<noteq> pkh2 then Inl (JsError ''privateKey cannot sign for this input'')
                 else Inr [kp_pubKey keyPair]
            else if scriptType = ''pubkey'' then Inr (map data_of (take 1 redeemScriptChunks))
            else Inl (JsError (''RedeemScript not supported ('' @ scriptType @ '')''))) (\<lambda>pubKeys.
     rbind (case bi_prevOutScript input of
         Some _ \<Rightarrow> Inr input
       | None \<Rightarrow>
           rbind (scriptHashOutput (bl_hash160 L redeemScript)) (\<lambda>script.
             Inr (input\<lparr>bi_prevOutScript := Some script, bi_prevOutType := Some ''scripthash''\<rparr>))) (\<lambda>input.
       Inr (input\<lparr>bi_pubKeys := Some pubKeys, bi_redeemScript := Some redeemScript,
                   bi_scriptType := Some scriptType, bi_signatures := Some (map (\<lambda>_. None) pubKeys)\<rparr>))))))"

definition prepare_plain :: "builder_lib \<Rightarrow> builder_input \<Rightarrow> key_pair \<Rightarrow> builder_input res" where
  "prepare_plain L input keyPair =
     (if bi_prevOutType input = Some ''scripthash''
      then Inl (JsError ''PrevOutScript is P2SH, missing redeemScript'')
      else case bi_scriptType input of
          None \<Rightarrow>
            rbind (pubKeyHashOutput (bl_hash160 L (kp_pubKey keyPair))) (\<lambda>script.
              Inr (input\<lparr>bi_prevOutScript := Some script, bi_prevOutType := Some ''pubkeyhash'',
                          bi_pubKeys := Some [kp_pubKey keyPair], bi_scriptType := Some ''pubkeyhash'',
                          bi_signatures := Some [None]\<rparr>))
        | Some scriptType \<Rightarrow>
            if bi_pubKeys input = None \<or> bi_signatures input = None
            then Inl (JsError (scriptType @ '' not supported''))
            else Inr input)"

text \<open>The checks and preparations before signing; an error leaves the input as it was.\<close>

definition prepare_input ::
    "builder_lib \<Rightarrow> builder_input \<Rightarrow> key_pair \<Rightarrow> buffer option \<Rightarrow> int \<Rightarrow> builder_input res" where
  "prepare_input L input keyPair redeemScript hashType =
     (if can_sign input then
        rbind (case redeemScript of
            Some r \<Rightarrow> if bi_redeemScript input \<noteq> Some r then Inl (JsError ''Inconsistent redeemScript'') else Inr ()
          | None \<Rightarrow> Inr ()) (\<lambda>_.
        if bi_hashType input \<noteq> Some hashType then Inl (JsError ''Inconsistent hashType'') else Inr input)
      else
        rbind (case redeemScript of
            Some r \<Rightarrow> prepare_redeem L input keyPair r
          | None \<Rightarrow> prepare_plain L input keyPair) (\<lambda>input. Inr (input\<lparr>bi_hashType := Some hashType\<rparr>)))"

text \<open>\<open>xs[i] = x\<close> on an array extends it with \<open>undefined\<close> when the index is beyond its end.\<close>

definition set_at :: "'a option list \<Rightarrow> nat \<Rightarrow> 'a option \<Rightarrow> 'a option list" where
  "set_at xs i x = (if i < length xs then xs[i := x] else xs @ replicate (i - length xs) None @ [x])"

text \<open>\<open>pubKeys.some(...)\<close>: the first key equal to the key pair's decides.\<close>

fun sign_first ::
    "key_pair \<Rightarrow> buffer \<Rightarrow> nat \<Rightarrow> buffer list \<Rightarrow> ec_signature option list \<Rightarrow> ec_signature option list option res" where
  "sign_first keyPair signatureHash i [] sigs = Inr None"
| "sign_first keyPair signatureHash i (pubKey # pubKeys) sigs =
     (if kp_pubKey keyPair \<noteq> pubKey then sign_first keyPair signatureHash (i + 1) pubKeys sigs
      else if i < length sigs \<and> sigs ! i \<noteq> None then Inl (JsError ''Signature already exists'')
      else rbind (kp_sign keyPair signatureHash) (\<lambda>signature. Inr (Some (set_at sigs i (Some signature)))))"

definition put_input :: "builder \<Rightarrow> nat \<Rightarrow> builder_input \<Rightarrow> builder" where
  "put_input b index input = b\<lparr>tb_inputs := (tb_inputs b)[index := input]\<rparr>"

definition sign_input ::
    "builder_lib \<Rightarrow> builder \<Rightarrow> nat \<Rightarrow> builder_input \<Rightarrow> key_pair \<Rightarrow> int \<Rightarrow> builder_input res" where
  "sign_input L b index input keyPair hashType =
     rbind (case bi_redeemScript input of
         Some r \<Rightarrow> Inr r
       | None \<Rightarrow> (case bi_prevOutScript input of
           Some s \<Rightarrow> Inr s
         | None \<Rightarrow> Inl (JsTypeError ''Expected Buffer''))) (\<lambda>signatureScript.
     rbind (hashForSignature (bl_sha256 L) (tb_tx b) index signatureScript hashType) (\<lambda>signatureHash.
     rbind (sign_first keyPair signatureHash 0 (the (bi_pubKeys input)) (the (bi_signatures input))) (\<lambda>r.
        case r of
          None \<Rightarrow> Inl (JsError ''Key pair cannot sign for this input'')
        | Some sigs \<Rightarrow> Inr (input\<lparr>bi_signatures := Some sigs\<rparr>))))"

definition tb_sign ::
    "builder_lib \<Rightarrow> builder \<Rightarrow> nat \<Rightarrow> key_pair \<Rightarrow> buffer option \<Rightarrow> int option \<Rightarrow> builder \<times> unit res" where
  "tb_sign L b index keyPair redeemScript hashType =
     (if kp_network keyPair \<noteq> tb_network b then (b, Inl (JsError ''Inconsistent network''))
      else if \<not> index < length (tb_inputs b) then (b, Inl (JsError (''No input at index: '' @ dec_string index)))
      else
        let hashType = (case hashType of Some h \<Rightarrow> if h = 0 then SIGHASH_ALL else h | None \<Rightarrow> SIGHASH_ALL) in
        case prepare_input L (tb_inputs b ! index) keyPair redeemScript hashType of
          Inl e \<Rightarrow> (b, Inl e)
        | Inr input \<Rightarrow>
            let b = put_input b index input in
            (case sign_input L b index input keyPair hashType of
               Inl e \<Rightarrow> (b, Inl e)
             | Inr input \<Rightarrow> (put_input b index input, Inr ())))"

section \<open>Building\<close>

definition can_build_type :: "string \<Rightarrow> bool" where
  "can_build_type t \<longleftrightarrow> t \<in> {''multisig'', ''pubkey'', ''pubkeyhash''}"

text \<open>The \<open>scriptSig\<close> of one input, \<open>None\<close> where none is built. Reading a property of \<open>undefined\<close>
  throws.\<close>

definition first_signature :: "sig_lib \<Rightarrow> builder_input \<Rightarrow> ec_signature option list \<Rightarrow> buffer res" where
  "first_signature S input sigs =
     (if sigs = [] \<or> hd sigs = None then Inl (JsTypeError ''Cannot read property toScriptSignature of undefined'')
      else toScriptSignature S (the (hd sigs)) (case bi_hashType input of Some h \<Rightarrow> h | None \<Rightarrow> 0))"

definition script_sig_of :: "builder_lib \<Rightarrow> builder_input \<Rightarrow> bool \<Rightarrow> ec_signature option list \<Rightarrow> buffer option res" where
  "script_sig_of L input allowIncomplete sigs =
     (if bi_scriptType input = Some ''pubkeyhash'' then
        rbind (first_signature (bl_sig L) input sigs) (\<lambda>pkhSignature.
          case bi_pubKeys input of
            Some (k # _) \<Rightarrow> rbind (pubKeyHashInput pkhSignature k) (\<lambda>s. Inr (Some s))
          | _ \<Rightarrow> Inl (JsTypeError ''Expected Buffer''))
      else if bi_scriptType input = Some ''multisig'' then
        rbind (rmap (\<lambda>signature. case signature of
            None \<Rightarrow> Inr None
          | Some sig \<Rightarrow> rbind (toScriptSignature (bl_sig L) sig (case bi_hashType input of Some h \<Rightarrow> h | None \<Rightarrow> 0))
                          (\<lambda>s. Inr (Some s))) sigs) (\<lambda>msSignatures.
          let filled = (if allowIncomplete
                then map (\<lambda>s. case s of Some d \<Rightarrow> Data d | None \<Rightarrow> Op OP_0) msSignatures
                else map (\<lambda>s. Data (the s)) (filter (\<lambda>s. s \<noteq> None) msSignatures));
              redeemScript = (if allowIncomplete then None else bi_redeemScript input)
          in rbind (multisigInput filled (map_option Buf redeemScript)) (\<lambda>s. Inr (Some s)))
      else if bi_scriptType input = Some ''pubkey'' then
        rbind (first_signature (bl_sig L) input sigs) (\<lambda>pkSignature.
        rbind (pubKeyInput pkSignature) (\<lambda>s. Inr (Some s)))
      else Inr None)"

definition build_input :: "builder_lib \<Rightarrow> bool \<Rightarrow> nat \<times> builder_input \<Rightarrow> transaction \<Rightarrow> transaction res" where
  "build_input L allowIncomplete = (\<lambda>(index, input) tx.
     rbind (if allowIncomplete then Inr ()
            else case bi_scriptType input of
                None \<Rightarrow> Inl (JsError ''Transaction is not complete'')
              | Some scriptType \<Rightarrow>
                  if \<not> can_build_type scriptType then Inl (JsError (scriptType @ '' not supported''))
                  else if bi_signatures input = None then Inl (JsError ''Transaction is missing signatures'')
                  else Inr ()) (\<lambda>_.
     rbind (case bi_signatures input of
         None \<Rightarrow> Inr None
       | Some sigs \<Rightarrow> script_sig_of L input allowIncomplete sigs) (\<lambda>scriptSig.
       case scriptSig of
         None \<Rightarrow> Inr tx
       | Some s \<Rightarrow>
           rbind (if bi_prevOutType input = Some ''scripthash''
                  then (case bi_redeemScript input of
                      Some r \<Rightarrow> scriptHashInput (Buf s) (Buf r)
                    | None \<Rightarrow> Inl (JsTypeError ''Expected Array''))
                  else Inr s) (\<lambda>s. setInputScript tx index s))))"

definition tb_build :: "builder_lib \<Rightarrow> builder \<Rightarrow> bool \<Rightarrow> transaction res" where
  "tb_build L b allowIncomplete =
     (if \<not> allowIncomplete \<and> tx_ins (tb_tx b) = [] then Inl (JsError ''Transaction has no inputs'')
      else if \<not> allowIncomplete \<and> tx_outs (tb_tx b) = [] then Inl (JsError ''Transaction has no outputs'')
      else rfold (build_input L allowIncomplete) (enumerate 0 (tb_inputs b)) (tx_clone (tb_tx b)))"

section \<open>Builders from transactions\<close>

text \<open>\<open>unmatched.some(...)\<close>: the index of the first signature left that verifies.\<close>

fun first_match ::
    "builder_lib \<Rightarrow> buffer res \<Rightarrow> (buffer \<Rightarrow> ec_signature \<Rightarrow> bool) \<Rightarrow> nat \<Rightarrow> ec_signature option list \<Rightarrow> nat option res" where
  "first_match L signatureHash verify i [] = Inr None"
| "first_match L signatureHash verify i (s # ss) = (case s of
       None \<Rightarrow> first_match L signatureHash verify (i + 1) ss
     | Some signature \<Rightarrow>
         rbind signatureHash (\<lambda>hash.
           if \<not> verify hash signature then first_match L signatureHash verify (i + 1) ss
           else Inr (Some i)))"

fun match_keys ::
    "builder_lib \<Rightarrow> buffer res \<Rightarrow> buffer option \<Rightarrow> buffer list \<Rightarrow> ec_signature option list \<Rightarrow> ec_signature option list res" where
  "match_keys L signatureHash skipPubKey [] unmatched = Inr []"
| "match_keys L signatureHash skipPubKey (pubKey # pubKeys) unmatched =
     (if skipPubKey = Some pubKey
      then rbind (match_keys L signatureHash skipPubKey pubKeys unmatched) (\<lambda>sigs. Inr (None # sigs))
      else rbind (bl_verify L pubKey) (\<lambda>verify.
           rbind (first_match L signatureHash verify 0 unmatched) (\<lambda>m. case m of
             None \<Rightarrow> rbind (match_keys L signatureHash skipPubKey pubKeys unmatched) (\<lambda>sigs. Inr (None # sigs))
           | Some i \<Rightarrow>
               rbind (match_keys L signatureHash skipPubKey pubKeys (unmatched[i := None]))
                 (\<lambda>sigs. Inr (unmatched ! i # sigs)))))"

definition fixMSSignatures ::
    "builder_lib \<Rightarrow> transaction \<Rightarrow> nat \<Rightarrow> buffer list \<Rightarrow> ec_signature option list \<Rightarrow> buffer \<Rightarrow> int \<Rightarrow> buffer option \<Rightarrow>
     ec_signature option list res" where
  "fixMSSignatures L tx vin pubKeys signatures prevOutScript hashType skipPubKey =
     match_keys L (hashForSignature (bl_sha256 L) tx vin prevOutScript hashType) skipPubKey pubKeys signatures"

text \<open>The signatures of a multisig input; the hash type is the one of the last of them.\<close>

fun parse_ms_signatures ::
    "sig_lib \<Rightarrow> chunk list \<Rightarrow> int option \<Rightarrow> (ec_signature option list \<times> int option) res" where
  "parse_ms_signatures S [] hashType = Inr ([], hashType)"
| "parse_ms_signatures S (chunk # chunks) hashType =
     (if chunk = Op OP_0
      then rbind (parse_ms_signatures S chunks hashType) (\<lambda>(sigs, h). Inr (None # sigs, h))
      else rbind (parseScriptSignature S (data_of chunk)) (\<lambda>parsed.
           rbind (parse_ms_signatures S chunks (Some (ps_hashType parsed))) (\<lambda>(sigs, h).
             Inr (Some (ps_signature parsed) # sigs, h))))"

definition extract_signatures ::
    "builder_lib \<Rightarrow> transaction \<Rightarrow> nat \<Rightarrow> string \<Rightarrow> chunk list \<Rightarrow> buffer option \<Rightarrow> builder_input \<Rightarrow> builder_input res" where
  "extract_signatures L tx vin scriptType scriptSigChunks redeemScript input =
     rbind (case redeemScript of None \<Rightarrow> Inr [] | Some r \<Rightarrow> decompile (Buf r)) (\<lambda>redeemScriptChunks.
       if scriptType = ''pubkeyhash'' then
         rbind (parseScriptSignature (bl_sig L) (data_of (scriptSigChunks ! 0))) (\<lambda>parsed.
         let pubKeys = map data_of (drop 1 scriptSigChunks) in
         rbind (pubKeyHashOutput (bl_hash160 L (pubKeys ! 0))) (\<lambda>prevOutScript.
           Inr (input\<lparr>bi_hashType := Some (ps_hashType parsed), bi_pubKeys := Some pubKeys,
                       bi_signatures := Some [Some (ps_signature parsed)], bi_prevOutScript := Some prevOutScript\<rparr>)))
       else if scriptType = ''pubkey'' then
         rbind (parseScriptSignature (bl_sig L) (data_of (scriptSigChunks ! 0))) (\<lambda>parsed.
           Inr (input\<lparr>bi_hashType := Some (ps_hashType parsed), bi_signatures := Some [Some (ps_signature parsed)],
                       bi_pubKeys := (case redeemScript of
                           Some _ \<Rightarrow> Some (map data_of (take 1 redeemScriptChunks)) | None \<Rightarrow> None)\<rparr>))
       else if scriptType = ''multisig'' then
         rbind (parse_ms_signatures (bl_sig L) (drop 1 scriptSigChunks) None) (\<lambda>(signatures, hashType).
         case redeemScript of
           None \<Rightarrow> Inr (input\<lparr>bi_hashType := hashType, bi_signatures := Some signatures\<rparr>)
         | Some r \<Rightarrow>
             let pubKeys = map data_of (slice redeemScriptChunks 1 (length redeemScriptChunks - 2)) in
             rbind (if length pubKeys \<noteq> length signatures
                    then fixMSSignatures L tx vin pubKeys signatures r
                           (case hashType of Some h \<Rightarrow> h | None \<Rightarrow> 0) (Some r)
                    else Inr signatures) (\<lambda>signatures.
               Inr (input\<lparr>bi_hashType := hashType, bi_pubKeys := Some pubKeys, bi_signatures := Some signatures\<rparr>)))
       else Inr input)"

definition extractInput :: "builder_lib \<Rightarrow> transaction \<Rightarrow> tx_in \<Rightarrow> nat \<Rightarrow> builder_input res" where
  "extractInput L tx txIn vin =
     rbind (decompile (Buf (ti_script txIn))) (\<lambda>scriptSigChunks.
     rbind (classifyInput (bip66_check (bl_sig L)) (Buf (ti_script txIn)) True) (\<lambda>prevOutType.
       if prevOutType = ''scripthash'' then
         let redeemScript = data_of (last scriptSigChunks) in
         rbind (scriptHashOutput (bl_hash160 L redeemScript)) (\<lambda>prevOutScript.
         rbind (compile (Chunks (butlast scriptSigChunks))) (\<lambda>scriptSig.
         rbind (classifyInput (bip66_check (bl_sig L)) (Buf scriptSig) True) (\<lambda>scriptType.
           extract_signatures L tx vin scriptType (butlast scriptSigChunks) (Some redeemScript)
             (no_input\<lparr>bi_prevOutScript := Some prevOutScript, bi_prevOutType := Some prevOutType,
                        bi_redeemScript := Some redeemScript, bi_scriptType := Some scriptType\<rparr>))))
       else
         extract_signatures L tx vin prevOutType scriptSigChunks None
           (no_input\<lparr>bi_prevOutType := Some prevOutType, bi_scriptType := Some prevOutType\<rparr>)))"

definition tb_fromTransaction :: "builder_lib \<Rightarrow> transaction \<Rightarrow> network option \<Rightarrow> builder res" where
  "tb_fromTransaction L tx network =
     (let b = new_builder network;
          b = b\<lparr>tb_tx := (tb_tx b)\<lparr>tx_version := tx_version tx, tx_locktime := tx_locktime tx\<rparr>\<rparr> in
      rbind (rfold (\<lambda>txIn b. rbind (tb_addInput L b (RawHash (ti_hash txIn)) (ti_index txIn) (Some (ti_sequence txIn)) None)
                       (\<lambda>(b, _). Inr b)) (tx_ins tx) b) (\<lambda>b.
      rbind (rfold (\<lambda>txOut b. case to_value txOut of
                         Some v \<Rightarrow> rbind (tb_addOutput L b (ToScript (to_script txOut)) v) (\<lambda>(b, _). Inr b)
                       | None \<Rightarrow> Inl (JsTypeError ''Expected UInt53'')) (tx_outs tx) b) (\<lambda>b.
      rbind (rmap (\<lambda>(vin, txIn).
          if isCoinbaseHash (ti_hash txIn) then Inl (JsError ''coinbase inputs not supported'')
          else if ti_script txIn = [] then Inr no_input
          else extractInput L tx txIn vin) (enumerate 0 (tx_ins tx))) (\<lambda>inputs.
        Inr (b\<lparr>tb_inputs := inputs\<rparr>)))))"

section \<open>Reachable builders\<close>

text \<open>One call on a builder: an input, an output or a lock time that is accepted, or a call of \<open>sign\<close>
  with whatever outcome. The other calls leave the builder as it is.\<close>

inductive tb_step :: "builder_lib \<Rightarrow> key_pair set \<Rightarrow> builder \<Rightarrow> builder \<Rightarrow> bool" for L kps where
  add_input: "tb_addInput L b r vout sequence prevOutScript = Inr (b', vin) \<Longrightarrow> tb_step L kps b b'"
| add_output: "tb_addOutput L b target value = Inr (b', vout) \<Longrightarrow> tb_step L kps b b'"
| set_lock_time: "tb_setLockTime b locktime = Inr b' \<Longrightarrow> tb_step L kps b b'"
| sign: "keyPair \<in> kps \<Longrightarrow> tb_sign L b index keyPair redeemScript hashType = (b', outcome) \<Longrightarrow> tb_step L kps b b'"

inductive tb_reachable :: "builder_lib \<Rightarrow> key_pair set \<Rightarrow> builder \<Rightarrow> bool" for L kps where
  start: "tb_reachable L kps (new_builder network)"
| step: "tb_reachable L kps b \<Longrightarrow> tb_step L kps b b' \<Longrightarrow> tb_reachable L kps b'"

section \<open>Invariant\<close>

text \<open>An input with keys is complete but for its hash type; one with a signature is ready to sign.\<close>

definition input_inv :: "builder_input \<Rightarrow> bool" where
  "input_inv input \<longleftrightarrow>
     (bi_pubKeys input \<noteq> None \<longrightarrow>
        bi_prevOutScript input \<noteq> None \<and> bi_prevOutType input \<noteq> None \<and> bi_scriptType input \<noteq> None \<and>
        bi_signatures input \<noteq> None \<and> length (the (bi_signatures input)) = length (the (bi_pubKeys input))) \<and>
     (has_signature input \<longrightarrow> bi_pubKeys input \<noteq> None \<and> bi_hashType input \<noteq> None \<and> bi_hashType input \<noteq> Some 0)"

definition script_of :: "builder_input \<Rightarrow> buffer" where
  "script_of input = (case bi_redeemScript input of Some r \<Rightarrow> r | None \<Rightarrow> the (bi_prevOutScript input))"

text \<open>Each signature is one that the key at its place made of the input's current hash.\<close>

definition signatures_current :: "builder_lib \<Rightarrow> key_pair set \<Rightarrow> transaction \<Rightarrow> nat \<Rightarrow> builder_input \<Rightarrow> bool" where
  "signatures_current L kps tx j input \<longleftrightarrow>
     (\<forall>sigs i sig. bi_signatures input = Some sigs \<longrightarrow> i < length sigs \<longrightarrow> sigs ! i = Some sig \<longrightarrow>
        (\<exists>kp \<in> kps. \<exists>hash. kp_pubKey kp = the (bi_pubKeys input) ! i \<and>
           hashForSignature (bl_sha256 L) tx j (script_of input) (the (bi_hashType input)) = Inr hash \<and>
           kp_sign kp hash = Inr sig))"

definition builder_inv :: "builder_lib \<Rightarrow> key_pair set \<Rightarrow> builder \<Rightarrow> bool" where
  "builder_inv L kps b \<longleftrightarrow>
     length (tb_inputs b) = length (tx_ins (tb_tx b)) \<and>
     (\<forall>j < length (tb_inputs b). input_inv (tb_inputs b ! j) \<and> signatures_current L kps (tb_tx b) j (tb_inputs b ! j))"

lemma has_signature_iff:
  "has_signature input \<longleftrightarrow> (\<exists>sigs i sig. bi_signatures input = Some sigs \<and> i < length sigs \<and> sigs ! i = Some sig)"
proof (cases "bi_signatures input")
  case (Some sigs)
  have "list_ex (\<lambda>s. s \<noteq> None) sigs \<longleftrightarrow> (\<exists>i < length sigs. sigs ! i \<noteq> None)" by (rule list_ex_length)
  then show ?thesis using Some by (auto simp: has_signature_def)
qed (simp add: has_signature_def)

lemma no_signature_current: "\<not> has_signature input \<Longrightarrow> signatures_current L kps tx j input"
  by (auto simp: signatures_current_def has_signature_iff)

lemma signature_ready: "input_inv input \<Longrightarrow> has_signature input \<Longrightarrow> can_sign input"
  by (auto simp: input_inv_def can_sign_def split: option.splits)

text \<open>Signatures stay current when the hash of their input does.\<close>

lemma signatures_current_mono:
  assumes "signatures_current L kps tx j input" "input_inv input"
    and "\<And>h s. bi_hashType input = Some h \<Longrightarrow>
      hashForSignature (bl_sha256 L) tx' j s h = hashForSignature (bl_sha256 L) tx j s h"
  shows "signatures_current L kps tx' j input"
  unfolding signatures_current_def
proof (intro allI impI)
  fix sigs i sig
  assume s: "bi_signatures input = Some sigs" "i < length sigs" "sigs ! i = Some sig"
  then have "has_signature input" by (auto simp: has_signature_iff)
  then obtain h where h: "bi_hashType input = Some h" using assms(2) by (auto simp: input_inv_def)
  show "\<exists>kp \<in> kps. \<exists>hash. kp_pubKey kp = the (bi_pubKeys input) ! i \<and>
      hashForSignature (bl_sha256 L) tx' j (script_of input) (the (bi_hashType input)) = Inr hash \<and>
      kp_sign kp hash = Inr sig"
    using assms(1) s assms(3) [OF h] h by (simp add: signatures_current_def)
qed

section \<open>Additions keep the hashes of the inputs that have a hash type\<close>

lemma tx_addInput_Inr:
  "tx_addInput tx h i q s = Inr (tx', vin) \<Longrightarrow> \<exists>x. tx' = tx\<lparr>tx_ins := tx_ins tx @ [x]\<rparr> \<and> vin = length (tx_ins tx)"
  by (auto simp: tx_addInput_def Let_def)

lemma tx_addOutput_Inr:
  "tx_addOutput tx s v = Inr (tx', vout) \<Longrightarrow> \<exists>x. tx' = tx\<lparr>tx_outs := tx_outs tx @ [x]\<rparr> \<and> vout = length (tx_outs tx)"
  by (auto simp: tx_addOutput_def Let_def)

lemma added_input_hash:
  assumes "j < length (tx_ins tx)" "js_and h SIGHASH_ANYONECANPAY \<noteq> 0"
  shows "hashForSignature sha256 (tx\<lparr>tx_ins := tx_ins tx @ [x]\<rparr>) j s h = hashForSignature sha256 tx j s h"
  using assms
  by (intro hashForSignature_cong)
     (simp_all add: committed_ins_def committed_outs_def anyone_can_pay_def nth_append)

lemma added_output_hash:
  assumes "j < length (tx_ins tx)"
    and "js_and h 0x1f = SIGHASH_NONE \<or> js_and h 0x1f = SIGHASH_SINGLE \<and> j < length (tx_outs tx)"
  shows "hashForSignature sha256 (tx\<lparr>tx_outs := tx_outs tx @ [x]\<rparr>) j s h = hashForSignature sha256 tx j s h"
  using assms
  by (intro hashForSignature_cong) (auto simp: committed_ins_def committed_outs_def base_type_def)

lemma addInput_Inr:
  assumes "tb_addInput L b r vout sequence prevOutScript = Inr (b', vin)"
    "length (tb_inputs b) = length (tx_ins (tb_tx b))"
  shows "\<exists>x input pos. tb_tx b' = (tb_tx b)\<lparr>tx_ins := tx_ins (tb_tx b) @ [x]\<rparr> \<and> tb_inputs b' = tb_inputs b @ [input] \<and>
     input_of_prevOut pos = Inr input \<and> vin = length (tb_inputs b) \<and> list_all anyone_can_add (tb_inputs b)"
  using assms by (auto simp: tb_addInput_def Let_def dest!: tx_addInput_Inr split: if_splits)

lemma addOutput_Inr:
  assumes "tb_addOutput L b target value = Inr (b', vout)"
  shows "\<exists>x. tb_tx b' = (tb_tx b)\<lparr>tx_outs := tx_outs (tb_tx b) @ [x]\<rparr> \<and> tb_inputs b' = tb_inputs b \<and>
     (\<forall>j < length (tb_inputs b). output_can_be_added (length (tx_outs (tb_tx b))) j (tb_inputs b ! j))"
  using assms
  by (auto simp: tb_addOutput_def Let_def list_all_length nth_enumerate_eq dest!: tx_addOutput_Inr split: if_splits)

lemma input_of_prevOut_inv:
  assumes "input_of_prevOut p = Inr input"
  shows "input_inv input \<and> \<not> has_signature input"
proof (cases p)
  case None
  then show ?thesis using assms by (auto simp: input_of_prevOut_def no_input_def input_inv_def has_signature_def)
next
  case (Some script)
  obtain cs where cs: "decompile (Buf script) = Inr cs" "list_all readable_chunk cs" using decompile_total by blast
  have "output_kind cs = ''pubkey'' \<Longrightarrow> length (take 1 cs) = 1"
    by (auto simp: output_kind_def is_pubkey_chunks_def split: if_splits)
  then show ?thesis
    using assms Some cs
    by (auto simp: input_of_prevOut_def classifyOutput_chunks no_input_def input_inv_def has_signature_def Let_def
        list_ex_iff split: if_splits)
qed

section \<open>Signing\<close>

lemma prepare_redeem_Inr:
  assumes "prepare_redeem L input keyPair r = Inr input'"
  shows "bi_pubKeys input' \<noteq> None \<and> bi_prevOutScript input' \<noteq> None \<and> bi_scriptType input' \<noteq> None \<and>
    (bi_prevOutScript input \<noteq> None \<longrightarrow> bi_prevOutType input = Some ''scripthash'') \<and>
    bi_prevOutType input' = Some ''scripthash'' \<and> bi_redeemScript input' = Some r \<and>
    bi_signatures input' = Some (map (\<lambda>_. None) (the (bi_pubKeys input')))"
  using assms by (auto simp: prepare_redeem_def Let_def split: option.splits if_splits)

lemma no_signatures: "bi_signatures input = Some (map (\<lambda>_. None) ks) \<Longrightarrow> \<not> has_signature input"
  by (auto simp: has_signature_def list_ex_iff)

lemma prepare_plain_Inr:
  assumes "prepare_plain L input keyPair = Inr input'" "input_inv input" "\<not> has_signature input"
  shows "bi_pubKeys input' \<noteq> None \<and> input_inv (input'\<lparr>bi_hashType := Some h\<rparr>) \<and> \<not> has_signature input'"
  using assms by (auto simp: prepare_plain_def input_inv_def has_signature_def split: option.splits if_splits)

lemma has_signature_hashType [simp]: "has_signature (input\<lparr>bi_hashType := h\<rparr>) = has_signature input"
  by (simp add: has_signature_def)

lemma prepare_input_Inr:
  assumes "prepare_input L input keyPair r h = Inr input'" "input_inv input"
  shows "input_inv input' \<and> bi_pubKeys input' \<noteq> None \<and> bi_hashType input' = Some h \<and>
    (if has_signature input then input' = input else \<not> has_signature input')"
proof (cases "can_sign input")
  case True
  then show ?thesis
    using assms by (auto simp: prepare_input_def can_sign_def split: option.splits if_splits)
next
  case False
  then have no: "\<not> has_signature input" using assms(2) signature_ready by blast
  show ?thesis
  proof (cases r)
    case None
    then obtain i where i: "prepare_plain L input keyPair = Inr i" "input' = i\<lparr>bi_hashType := Some h\<rparr>"
      using False assms(1) by (auto simp: prepare_input_def)
    then show ?thesis using prepare_plain_Inr [OF i(1) assms(2) no, of h] no by simp
  next
    case (Some script)
    then obtain i where i: "prepare_redeem L input keyPair script = Inr i" "input' = i\<lparr>bi_hashType := Some h\<rparr>"
      using False assms(1) by (auto simp: prepare_input_def)
    have s: "bi_signatures i = Some (map (\<lambda>_. None) (the (bi_pubKeys i)))" using prepare_redeem_Inr [OF i(1)] by blast
    have "\<not> has_signature i" using no_signatures [OF s] .
    then show ?thesis using prepare_redeem_Inr [OF i(1)] no s i(2) by (auto simp: input_inv_def)
  qed
qed

lemma sign_first_Inr:
  assumes "sign_first keyPair hash i ks sigs = Inr (Some sigs')"
  shows "\<exists>k < length ks. ks ! k = kp_pubKey keyPair \<and> (i + k < length sigs \<longrightarrow> sigs ! (i + k) = None) \<and>
    (\<exists>sig. kp_sign keyPair hash = Inr sig \<and> sigs' = set_at sigs (i + k) (Some sig))"
  using assms
proof (induction keyPair hash i ks sigs rule: sign_first.induct)
  case (2 kp hash i k ks sigs)
  show ?case
  proof (cases "kp_pubKey kp = k")
    case True
    then show ?thesis using "2.prems" by (intro exI [of _ 0]) (auto split: if_splits)
  next
    case False
    then obtain n where "n < length ks" "ks ! n = kp_pubKey kp" "i + 1 + n < length sigs \<longrightarrow> sigs ! (i + 1 + n) = None"
      "\<exists>sig. kp_sign kp hash = Inr sig \<and> sigs' = set_at sigs (i + 1 + n) (Some sig)"
      using "2.IH" "2.prems" by auto
    then show ?thesis by (intro exI [of _ "Suc n"]) simp
  qed
qed simp

text \<open>A successful signature goes to the first place of the key, which was empty, and signs the
  current hash; everything else of the input stays.\<close>

lemma sign_input_Inr:
  assumes "sign_input L b j input keyPair h = Inr input'" "input_inv input" "bi_pubKeys input \<noteq> None"
  shows "\<exists>ks sigs k hash sig. bi_pubKeys input = Some ks \<and> bi_signatures input = Some sigs \<and> k < length sigs \<and>
    ks ! k = kp_pubKey keyPair \<and> sigs ! k = None \<and>
    hashForSignature (bl_sha256 L) (tb_tx b) j (script_of input) h = Inr hash \<and>
    kp_sign keyPair hash = Inr sig \<and> input' = input\<lparr>bi_signatures := Some (sigs[k := Some sig])\<rparr>"
proof -
  obtain ks sigs where k: "bi_pubKeys input = Some ks" "bi_signatures input = Some sigs" "length sigs = length ks"
      "bi_prevOutScript input \<noteq> None"
    using assms(2,3) by (auto simp: input_inv_def)
  obtain hash sigs' where s: "hashForSignature (bl_sha256 L) (tb_tx b) j (script_of input) h = Inr hash"
      "sign_first keyPair hash 0 ks sigs = Inr (Some sigs')" "input' = input\<lparr>bi_signatures := Some sigs'\<rparr>"
    using assms(1) k by (auto simp: sign_input_def script_of_def split: option.splits)
  obtain n sig where n: "n < length ks" "ks ! n = kp_pubKey keyPair" "n < length sigs \<longrightarrow> sigs ! n = None"
      "kp_sign keyPair hash = Inr sig" "sigs' = set_at sigs n (Some sig)"
    using sign_first_Inr [OF s(2)] by auto
  then have "sigs' = sigs[n := Some sig]" using k(3) by (simp add: set_at_def)
  then show ?thesis using k s n by auto
qed

lemma sign_input_inv:
  assumes "sign_input L b j input keyPair h = Inr input'" "input_inv input" "bi_pubKeys input \<noteq> None"
    "bi_hashType input = Some h" "h \<noteq> 0" "signatures_current L kps (tb_tx b) j input" "keyPair \<in> kps"
  shows "input_inv input' \<and> signatures_current L kps (tb_tx b) j input'"
proof -
  obtain ks sigs k hash sig where k: "bi_pubKeys input = Some ks" "bi_signatures input = Some sigs" "k < length sigs"
    "ks ! k = kp_pubKey keyPair" "sigs ! k = None"
    "hashForSignature (bl_sha256 L) (tb_tx b) j (script_of input) h = Inr hash"
    "kp_sign keyPair hash = Inr sig" "input' = input\<lparr>bi_signatures := Some (sigs[k := Some sig])\<rparr>"
    using sign_input_Inr [OF assms(1-3)] by blast
  have s': "script_of input' = script_of input" by (simp add: k(8) script_of_def split: option.splits)
  have "input_inv input'" using assms(2,4,5) k by (simp add: input_inv_def)
  moreover have "signatures_current L kps (tb_tx b) j input'"
    unfolding signatures_current_def s'
  proof (intro allI impI)
    fix sigs' i sg
    assume "bi_signatures input' = Some sigs'" "i < length sigs'" "sigs' ! i = Some sg"
    then have i: "i < length sigs" "sigs[k := Some sig] ! i = Some sg" using k(8) by auto
    show "\<exists>kp \<in> kps. \<exists>hash. kp_pubKey kp = the (bi_pubKeys input') ! i \<and>
        hashForSignature (bl_sha256 L) (tb_tx b) j (script_of input) (the (bi_hashType input')) = Inr hash \<and>
        kp_sign kp hash = Inr sg"
    proof (cases "i = k")
      case True
      then show ?thesis using k i assms(4,7) by auto
    next
      case False
      then show ?thesis using assms(6) i k by (auto simp: signatures_current_def)
    qed
  qed
  ultimately show ?thesis by blast
qed

section \<open>Every step keeps the invariant\<close>

lemma put_input_inv:
  assumes "builder_inv L kps b" "input_inv input" "signatures_current L kps (tb_tx b) j input"
  shows "builder_inv L kps (put_input b j input)"
  unfolding builder_inv_def
proof (intro conjI allI impI)
  show "length (tb_inputs (put_input b j input)) = length (tx_ins (tb_tx (put_input b j input)))"
    using assms(1) by (simp add: builder_inv_def put_input_def)
  fix i
  assume "i < length (tb_inputs (put_input b j input))"
  then have i: "i < length (tb_inputs b)" by (simp add: put_input_def)
  then show "input_inv (tb_inputs (put_input b j input) ! i)"
    and "signatures_current L kps (tb_tx (put_input b j input)) i (tb_inputs (put_input b j input) ! i)"
    using assms by (cases "j = i"; simp add: builder_inv_def put_input_def)+
qed

definition effective_hash_type :: "int option \<Rightarrow> int" where
  "effective_hash_type hashType = (case hashType of Some h \<Rightarrow> if h = 0 then SIGHASH_ALL else h | None \<Rightarrow> SIGHASH_ALL)"

lemma tb_sign_cases:
  assumes "tb_sign L b index keyPair redeemScript hashType = (b', outcome)"
  shows "b' = b \<and> outcome \<noteq> Inr () \<or>
    index < length (tb_inputs b) \<and>
    (\<exists>input. prepare_input L (tb_inputs b ! index) keyPair redeemScript (effective_hash_type hashType) = Inr input \<and>
       (b' = put_input b index input \<and> outcome \<noteq> Inr () \<or>
        (\<exists>input'. sign_input L (put_input b index input) index input keyPair (effective_hash_type hashType) = Inr input' \<and>
           b' = put_input (put_input b index input) index input' \<and> outcome = Inr ())))"
proof (cases "kp_network keyPair \<noteq> tb_network b \<or> \<not> index < length (tb_inputs b)")
  case True
  then show ?thesis using assms by (auto simp: tb_sign_def split: if_splits)
next
  case False
  show ?thesis
  proof (cases "prepare_input L (tb_inputs b ! index) keyPair redeemScript (effective_hash_type hashType)")
    case (Inl e)
    then show ?thesis using assms False by (auto simp: tb_sign_def effective_hash_type_def [symmetric])
  next
    case (Inr input)
    show ?thesis
    proof (cases "sign_input L (put_input b index input) index input keyPair (effective_hash_type hashType)")
      case (Inl e)
      then show ?thesis using assms False Inr by (auto simp: tb_sign_def effective_hash_type_def [symmetric] Let_def)
    next
      case (Inr input')
      then show ?thesis
        using assms False \<open>prepare_input _ _ _ _ _ = _\<close> by (simp add: tb_sign_def effective_hash_type_def [symmetric] Let_def)
    qed
  qed
qed

lemma tb_step_inv:
  assumes "tb_step L kps b b'" "builder_inv L kps b"
  shows "builder_inv L kps b'"
  using assms(1)
proof cases
  case (add_input r vout sequence prevOutScript vin)
  obtain x input p where a: "tb_tx b' = (tb_tx b)\<lparr>tx_ins := tx_ins (tb_tx b) @ [x]\<rparr>" "tb_inputs b' = tb_inputs b @ [input]"
      "input_of_prevOut p = Inr input" "list_all anyone_can_add (tb_inputs b)"
    using addInput_Inr [OF add_input] assms(2) by (auto simp: builder_inv_def)
  have new: "input_inv input" "signatures_current L kps (tb_tx b') j input" for j
    using input_of_prevOut_inv [OF a(3)] no_signature_current by blast+
  have old: "signatures_current L kps (tb_tx b') j (tb_inputs b ! j)" if j: "j < length (tb_inputs b)" for j
  proof (rule signatures_current_mono)
    fix h s
    assume "bi_hashType (tb_inputs b ! j) = Some h"
    then have "js_and h SIGHASH_ANYONECANPAY \<noteq> 0" using a(4) j by (fastforce simp: list_all_length anyone_can_add_def)
    then show "hashForSignature (bl_sha256 L) (tb_tx b') j s h = hashForSignature (bl_sha256 L) (tb_tx b) j s h"
      unfolding a(1) using j assms(2) by (intro added_input_hash) (simp_all add: builder_inv_def)
  qed (use j assms(2) in \<open>simp_all add: builder_inv_def\<close>)
  show ?thesis
    using assms(2) new old a(1,2) by (auto simp: builder_inv_def nth_append)
next
  case (add_output target amount vout)
  obtain x where a: "tb_tx b' = (tb_tx b)\<lparr>tx_outs := tx_outs (tb_tx b) @ [x]\<rparr>" "tb_inputs b' = tb_inputs b"
      "\<forall>j < length (tb_inputs b). output_can_be_added (length (tx_outs (tb_tx b))) j (tb_inputs b ! j)"
    using addOutput_Inr [OF add_output] by blast
  have "signatures_current L kps (tb_tx b') j (tb_inputs b ! j)" if j: "j < length (tb_inputs b)" for j
  proof (rule signatures_current_mono)
    fix h s
    assume "bi_hashType (tb_inputs b ! j) = Some h"
    then have "js_and h 0x1f = SIGHASH_NONE \<or> js_and h 0x1f = SIGHASH_SINGLE \<and> j < length (tx_outs (tb_tx b))"
      using a(3) j by (fastforce simp: output_can_be_added_def Let_def split: if_splits)
    then show "hashForSignature (bl_sha256 L) (tb_tx b') j s h = hashForSignature (bl_sha256 L) (tb_tx b) j s h"
      unfolding a(1) using j assms(2) by (intro added_output_hash) (simp_all add: builder_inv_def)
  qed (use j assms(2) in \<open>simp_all add: builder_inv_def\<close>)
  then show ?thesis using assms(2) a(1,2) by (simp add: builder_inv_def)
next
  case (set_lock_time locktime)
  then have a: "b' = b\<lparr>tb_tx := (tb_tx b)\<lparr>tx_locktime := locktime\<rparr>\<rparr>" "\<not> list_ex has_signature (tb_inputs b)"
    by (auto simp: tb_setLockTime_def split: if_splits)
  have "\<not> has_signature (tb_inputs b ! j)" if "j < length (tb_inputs b)" for j
    using a(2) that by (simp add: list_ex_length)
  then show ?thesis using assms(2) a(1) no_signature_current by (auto simp: builder_inv_def)
next
  case (sign keyPair index redeemScript hashType outcome)
  let ?h = "effective_hash_type hashType" and ?old = "tb_inputs b ! index"
  have h: "?h \<noteq> 0" by (simp add: effective_hash_type_def split: option.splits)
  from tb_sign_cases [OF sign(2)] consider (same) "b' = b"
    | (prepared) input where "index < length (tb_inputs b)" "prepare_input L ?old keyPair redeemScript ?h = Inr input"
        "b' = put_input b index input"
    | (signed) input input' where "index < length (tb_inputs b)" "prepare_input L ?old keyPair redeemScript ?h = Inr input"
        "sign_input L (put_input b index input) index input keyPair ?h = Inr input'"
        "b' = put_input (put_input b index input) index input'"
    by metis
  then show ?thesis
  proof cases
    case same
    then show ?thesis using assms(2) by simp
  next
    case prepared
    have p: "input_inv input" "if has_signature ?old then input = ?old else \<not> has_signature input"
      using prepare_input_Inr [OF prepared(2)] prepared(1) assms(2) by (auto simp: builder_inv_def)
    have "signatures_current L kps (tb_tx b) index input"
      using p(2) prepared(1) assms(2) no_signature_current by (auto simp: builder_inv_def split: if_splits)
    then show ?thesis unfolding prepared(3) using assms(2) p(1) by (intro put_input_inv)
  next
    case signed
    have p: "input_inv input" "bi_pubKeys input \<noteq> None" "bi_hashType input = Some ?h"
        "if has_signature ?old then input = ?old else \<not> has_signature input"
      using prepare_input_Inr [OF signed(2)] signed(1) assms(2) by (auto simp: builder_inv_def)
    have cur: "signatures_current L kps (tb_tx b) index input"
      using p(4) signed(1) assms(2) no_signature_current by (auto simp: builder_inv_def split: if_splits)
    have tx: "tb_tx (put_input b index input) = tb_tx b" by (simp add: put_input_def)
    have "input_inv input' \<and> signatures_current L kps (tb_tx b) index input'"
      using sign_input_inv [OF signed(3) p(1-3) h] cur tx sign(1) by simp
    moreover have "builder_inv L kps (put_input b index input)" using assms(2) p(1) cur by (rule put_input_inv)
    ultimately show ?thesis
      unfolding signed(4) using put_input_inv [of L kps "put_input b index input" input' index] tx by simp
  qed
qed

lemma reachable_inv: "tb_reachable L kps b \<Longrightarrow> builder_inv L kps b"
proof (induction rule: tb_reachable.induct)
  case (start network)
  then show ?case by (simp add: builder_inv_def new_builder_def new_transaction_def)
qed (rule tb_step_inv)

section \<open>Building changes only input scripts\<close>

lemma setInputScript_Inr:
  "setInputScript tx i s = Inr tx' \<Longrightarrow> tx' = tx\<lparr>tx_ins := (tx_ins tx)[i := (tx_ins tx ! i)\<lparr>ti_script := s\<rparr>]\<rparr>"
  by (auto simp: setInputScript_def split: if_splits)

definition same_but_scripts :: "transaction \<Rightarrow> transaction \<Rightarrow> bool" where
  "same_but_scripts tx tx' \<longleftrightarrow>
     tx_version tx' = tx_version tx \<and> tx_locktime tx' = tx_locktime tx \<and> tx_outs tx' = tx_outs tx \<and>
     map blank_script (tx_ins tx') = map blank_script (tx_ins tx)"

lemma build_input_same:
  assumes "build_input L allowIncomplete (index, input) tx = Inr tx'"
  shows "same_but_scripts tx tx'"
proof -
  have "tx' = tx \<or> (\<exists>s. setInputScript tx index s = Inr tx')"
    using assms by (auto simp: build_input_def split: option.splits)
  then show ?thesis
  proof (elim disjE exE)
    fix s
    assume "setInputScript tx index s = Inr tx'"
    note tx' = setInputScript_Inr [OF this]
    have "map blank_script ((tx_ins tx)[index := (tx_ins tx ! index)\<lparr>ti_script := s\<rparr>]) = map blank_script (tx_ins tx)"
      by (cases "index < length (tx_ins tx)")
         (simp_all add: map_update blank_script_def list_update_same_conv list_update_beyond not_less)
    then show ?thesis unfolding tx' by (simp add: same_but_scripts_def)
  qed (simp add: same_but_scripts_def)
qed

lemma build_same:
  assumes "tb_build L b allowIncomplete = Inr tx'"
  shows "same_but_scripts (tx_clone (tb_tx b)) tx'"
proof (rule rfold_invariant [where P = "same_but_scripts (tx_clone (tb_tx b))"])
  show "rfold (build_input L allowIncomplete) (enumerate 0 (tb_inputs b)) (tx_clone (tb_tx b)) = Inr tx'"
    using assms by (auto simp: tb_build_def split: if_splits)
  show "same_but_scripts (tx_clone (tb_tx b)) (tx_clone (tb_tx b))" by (simp add: same_but_scripts_def)
  fix x s t
  assume "same_but_scripts (tx_clone (tb_tx b)) s" "build_input L allowIncomplete x s = Inr t"
  then show "same_but_scripts (tx_clone (tb_tx b)) t"
    using build_input_same [of L allowIncomplete "fst x" "snd x" s t] by (simp add: same_but_scripts_def)
qed

lemma same_but_scripts_hash:
  assumes "same_but_scripts tx tx'" "j < length (tx_ins tx)"
  shows "hashForSignature sha256 tx' j s h = hashForSignature sha256 tx j s h"
proof -
  have len: "length (tx_ins tx') = length (tx_ins tx)"
    using arg_cong [of _ _ length, OF assms(1) [unfolded same_but_scripts_def, THEN conjunct2, THEN conjunct2, THEN conjunct2]] by simp
  have blank: "blank_script (tx_ins tx' ! i) = blank_script (tx_ins tx ! i)" if "i < length (tx_ins tx)" for i
    using assms(1) that len unfolding same_but_scripts_def by (metis nth_map)
  show ?thesis
    using assms len blank
    by (intro hashForSignature_cong)
       (simp_all add: same_but_scripts_def committed_ins_def committed_outs_def)
qed

lemma clone_hash:
  assumes "j < length (tx_ins tx)"
  shows "hashForSignature sha256 (tx_clone tx) j s h = hashForSignature sha256 tx j s h"
proof -
  have "plain_out (plain_out o') = plain_out o'" for o' by (simp add: plain_out_def)
  then show ?thesis
    using assms by (intro hashForSignature_cong)
      (simp_all add: committed_ins_def committed_outs_def take_map drop_map comp_def)
qed

text \<open>The script of input \<open>j\<close> is the one its own step of the loop sets.\<close>

lemma build_input_other:
  assumes "build_input L inc (index, input) tx = Inr tx'" "index \<noteq> j"
  shows "tx_ins tx' ! j = tx_ins tx ! j"
proof -
  have "tx' = tx \<or> (\<exists>s. setInputScript tx index s = Inr tx')"
    using assms(1) by (auto simp: build_input_def split: option.splits)
  then show ?thesis using assms(2) by (auto dest!: setInputScript_Inr)
qed

lemma enumerate_split:
  "j < length xs \<Longrightarrow> enumerate 0 xs = enumerate 0 (take j xs) @ (j, xs ! j) # enumerate (Suc j) (drop (Suc j) xs)"
  by (subst id_take_nth_drop [of j xs]) (simp_all add: enumerate_append_eq min_absorb2)

lemma build_script:
  assumes "tb_build L b inc = Inr tx" "j < length (tb_inputs b)"
  shows "\<exists>tx0 tx1. build_input L inc (j, tb_inputs b ! j) tx0 = Inr tx1 \<and> tx_ins tx ! j = tx_ins tx1 ! j"
proof -
  have "rfold (build_input L inc) (enumerate 0 (tb_inputs b)) (tx_clone (tb_tx b)) = Inr tx"
    using assms(1) by (auto simp: tb_build_def split: if_splits)
  then obtain tx0 tx1 where s: "build_input L inc (j, tb_inputs b ! j) tx0 = Inr tx1"
      "rfold (build_input L inc) (enumerate (Suc j) (drop (Suc j) (tb_inputs b))) tx1 = Inr tx"
    unfolding enumerate_split [OF assms(2)] rfold_append by auto
  have "tx_ins tx ! j = tx_ins tx1 ! j"
  proof (rule rfold_invariant [OF s(2), where P = "\<lambda>t. tx_ins t ! j = tx_ins tx1 ! j"])
    fix x t u
    assume x: "x \<in> set (enumerate (Suc j) (drop (Suc j) (tb_inputs b)))" "tx_ins t ! j = tx_ins tx1 ! j"
      "build_input L inc x t = Inr u"
    obtain k input where k: "x = (k, input)" by (cases x)
    then have "k \<noteq> j" using x(1) by (auto simp: in_set_enumerate_eq)
    then show "tx_ins u ! j = tx_ins tx1 ! j" using build_input_other x(2,3) k by metis
  qed simp
  then show ?thesis using s(1) by blast
qed

lemma build_input_pubkeyhash:
  assumes "build_input L False (j, input) tx0 = Inr tx1"
    "bi_scriptType input = Some ''pubkeyhash''" "bi_prevOutType input = Some ''pubkeyhash''"
  shows "\<exists>sig sigs s k ks. bi_signatures input = Some (Some sig # sigs) \<and> bi_pubKeys input = Some (k # ks) \<and>
    toScriptSignature (bl_sig L) sig (case bi_hashType input of Some h \<Rightarrow> h | None \<Rightarrow> 0) = Inr s \<and>
    pubKeyHashInput s k = Inr (ti_script (tx_ins tx1 ! j))"
proof -
  obtain sigs where sigs: "bi_signatures input = Some sigs"
    using assms by (auto simp: build_input_def split: option.splits if_splits)
  obtain k ks where ks: "bi_pubKeys input = Some (k # ks)"
  proof (cases "bi_pubKeys input")
    case None
    then show ?thesis using assms sigs by (auto simp: build_input_def script_sig_of_def)
  next
    case (Some keys)
    then show ?thesis using assms sigs that by (cases keys) (auto simp: build_input_def script_sig_of_def)
  qed
  obtain s r where s: "first_signature (bl_sig L) input sigs = Inr s" "bi_pubKeys input = Some (k # ks)"
      "pubKeyHashInput s k = Inr r" "setInputScript tx0 j r = Inr tx1"
    using assms sigs ks by (auto simp: build_input_def script_sig_of_def can_build_type_def)
  have "ti_script (tx_ins tx1 ! j) = r" using s(4) by (auto simp: setInputScript_def split: if_splits)
  moreover obtain sig rest where "sigs = Some sig # rest"
    using s(1) by (cases sigs) (auto simp: first_signature_def split: if_splits)
  ultimately show ?thesis using s sigs by (auto simp: first_signature_def)
qed

lemma sighash_script_total: "\<exists>hs. sighash_script s = Inr hs"
proof -
  obtain cs where cs: "decompile (Buf s) = Inr cs" "list_all readable_chunk cs" using decompile_total by blast
  then have "list_all writable_chunk (filter (\<lambda>x. x \<noteq> Op OP_CODESEPARATOR) cs)"
    by (auto simp: list_all_iff readable_writable)
  then show ?thesis using cs(1) compile_Chunks by (auto simp: sighash_script_def)
qed

section \<open>Inputs that pay to a key hash\<close>

text \<open>The script an input without redeem script is to spend pays to the hash of its key.\<close>

definition key_hash_inv :: "builder_lib \<Rightarrow> builder_input \<Rightarrow> bool" where
  "key_hash_inv L input \<longleftrightarrow>
     (bi_redeemScript input \<noteq> None \<longrightarrow> bi_prevOutType input = Some ''scripthash'') \<and>
     (bi_prevOutType input = Some ''pubkeyhash'' \<longrightarrow> bi_pubKeys input \<noteq> None \<longrightarrow>
        (\<exists>k script. bi_pubKeys input = Some [k] \<and> pubKeyHashOutput (bl_hash160 L k) = Inr script \<and> bi_prevOutScript input = Some script))"

lemma input_of_prevOut_key_hash: "input_of_prevOut p = Inr input \<Longrightarrow> key_hash_inv L input"
proof (cases p)
  case None
  then show "input_of_prevOut p = Inr input \<Longrightarrow> key_hash_inv L input"
    by (auto simp add: input_of_prevOut_def no_input_def key_hash_inv_def)
next
  case (Some script)
  assume a: "input_of_prevOut p = Inr input"
  obtain chunks where chunks: "decompile (Buf script) = Inr chunks"
    using a Some by (cases "decompile (Buf script)") (simp_all add: input_of_prevOut_def)
  obtain t where t: "classifyOutput (Chunks chunks) = Inr t"
    using a Some chunks by (cases "classifyOutput (Chunks chunks)") (simp_all add: input_of_prevOut_def)
  have i: "bi_redeemScript input = None" "bi_prevOutType input = Some t" "t = ''pubkeyhash'' \<longrightarrow> bi_pubKeys input = None"
    using a unfolding Some input_of_prevOut_def option.case chunks t rbind_simps Let_def by (auto simp: no_input_def)
  then show ?thesis by (simp add: key_hash_inv_def)
qed

text \<open>An input added together with the pay-to-pubkey-hash output it spends cannot be signed: its script type
  is known, but no key is, and \<open>sign\<close> fills in keys only where the type is unknown.\<close>

lemma known_pubkeyhash_unsupported:
  assumes "input_of_prevOut (Some script) = Inr input" "bi_prevOutType input = Some ''pubkeyhash''"
  shows "prepare_input L input kp None h = Inl (JsError ''pubkeyhash not supported'')"
proof -
  obtain chunks where chunks: "decompile (Buf script) = Inr chunks"
    using assms(1) by (cases "decompile (Buf script)") (simp_all add: input_of_prevOut_def)
  obtain t where t: "classifyOutput (Chunks chunks) = Inr t"
    using assms(1) chunks by (cases "classifyOutput (Chunks chunks)") (simp_all add: input_of_prevOut_def)
  have "bi_prevOutType input = Some t" using assms(1) unfolding input_of_prevOut_def option.case chunks t rbind_simps Let_def by auto
  then have "bi_scriptType input = Some ''pubkeyhash''" "bi_pubKeys input = None" "bi_hashType input = None"
    using assms unfolding input_of_prevOut_def option.case chunks t rbind_simps Let_def by (auto simp: no_input_def)
  then show ?thesis using assms(2) by (simp add: prepare_input_def can_sign_def prepare_plain_def)
qed

lemma prepare_input_key_hash:
  assumes "prepare_input L input keyPair r h = Inr input'" "key_hash_inv L input" "input_inv input"
  shows "key_hash_inv L input'"
proof (cases "can_sign input")
  case True
  then show ?thesis using assms(1,2) by (auto simp: prepare_input_def split: option.splits if_splits)
next
  case False
  show ?thesis
  proof (cases r)
    case None
    then obtain i where i: "prepare_plain L input keyPair = Inr i" "input' = i\<lparr>bi_hashType := Some h\<rparr>"
      using False assms(1) by (auto simp: prepare_input_def)
    then show ?thesis
      using assms(2) by (auto simp: prepare_plain_def key_hash_inv_def split: option.splits if_splits)
  next
    case (Some script)
    then obtain i where i: "prepare_redeem L input keyPair script = Inr i" "input' = i\<lparr>bi_hashType := Some h\<rparr>"
      using False assms(1) by (auto simp: prepare_input_def)
    then show ?thesis using prepare_redeem_Inr [OF i(1)] by (simp add: key_hash_inv_def)
  qed
qed

lemma sign_input_key_hash: "sign_input L b j input keyPair h = Inr input' \<Longrightarrow> key_hash_inv L input \<Longrightarrow> key_hash_inv L input'"
  by (auto simp: sign_input_def key_hash_inv_def split: option.splits)

lemma put_input_nth:
  "i < length (tb_inputs b) \<Longrightarrow> tb_inputs (put_input b j input) ! i = (if i = j then input else tb_inputs b ! i)"
  "length (tb_inputs (put_input b j input)) = length (tb_inputs b)"
  by (simp_all add: put_input_def)

lemma tb_step_key_hash:
  assumes "tb_step L kps b b'" "builder_inv L kps b" "\<forall>j < length (tb_inputs b). key_hash_inv L (tb_inputs b ! j)"
  shows "\<forall>j < length (tb_inputs b'). key_hash_inv L (tb_inputs b' ! j)"
  using assms(1)
proof cases
  case (add_input r vout sequence prevOutScript vin)
  obtain input p where "tb_inputs b' = tb_inputs b @ [input]" "input_of_prevOut p = Inr input"
    using addInput_Inr [OF add_input] assms(2) by (auto simp: builder_inv_def)
  then show ?thesis using assms(3) input_of_prevOut_key_hash [of p input] by (auto simp: nth_append)
next
  case (add_output target amount vout)
  then show ?thesis using addOutput_Inr [OF add_output] assms(3) by auto
next
  case (set_lock_time locktime)
  then show ?thesis using assms(3) by (auto simp: tb_setLockTime_def split: if_splits)
next
  case (sign keyPair index redeemScript hashType outcome)
  have key: "key_hash_inv L input"
    if "index < length (tb_inputs b)" "prepare_input L (tb_inputs b ! index) keyPair redeemScript (effective_hash_type hashType) = Inr input" for input
    using that assms(2,3) by (intro prepare_input_key_hash [OF that(2)]) (simp_all add: builder_inv_def)
  from tb_sign_cases [OF sign(2)] show ?thesis
    using assms(3) key by (auto simp: put_input_nth sign_input_key_hash)
qed

lemma reachable_key_hash: "tb_reachable L kps b \<Longrightarrow> \<forall>j < length (tb_inputs b). key_hash_inv L (tb_inputs b ! j)"
proof (induction rule: tb_reachable.induct)
  case (start network)
  then show ?case by (simp add: new_builder_def)
next
  case (step b b')
  then show ?case using tb_step_key_hash reachable_inv by blast
qed

lemma p2pkh_input_signed:
  assumes "tb_reachable L kps b" "j < length (tb_inputs b)" "tb_build L b False = Inr tx"
    and "bi_scriptType (tb_inputs b ! j) = Some ''pubkeyhash''" "bi_prevOutType (tb_inputs b ! j) = Some ''pubkeyhash''"
  shows "\<exists>kp \<in> kps. \<exists>ht sig s hash. toScriptSignature (bl_sig L) sig ht = Inr s \<and>
     pubKeyHashInput s (kp_pubKey kp) = Inr (ti_script (tx_ins tx ! j)) \<and>
     kp_sign kp hash = Inr sig \<and> bi_hashType (tb_inputs b ! j) = Some ht \<and>
     hashForSignature (bl_sha256 L) tx j (script_of (tb_inputs b ! j)) ht = Inr hash \<and>
     pubKeyHashOutput (bl_hash160 L (kp_pubKey kp)) = Inr (script_of (tb_inputs b ! j))"
proof -
  let ?input = "tb_inputs b ! j"
  obtain tx0 tx1 where t: "build_input L False (j, ?input) tx0 = Inr tx1" "tx_ins tx ! j = tx_ins tx1 ! j"
    using build_script [OF assms(3,2)] by blast
  obtain sig sigs s k ks where s: "bi_signatures ?input = Some (Some sig # sigs)" "bi_pubKeys ?input = Some (k # ks)"
      "toScriptSignature (bl_sig L) sig (case bi_hashType ?input of Some h \<Rightarrow> h | None \<Rightarrow> 0) = Inr s"
      "pubKeyHashInput s k = Inr (ti_script (tx_ins tx1 ! j))"
    using build_input_pubkeyhash [OF t(1) assms(4,5)] by blast
  have inv: "builder_inv L kps b" using assms(1) by (rule reachable_inv)
  then have j: "j < length (tx_ins (tb_tx b))" "input_inv ?input" "signatures_current L kps (tb_tx b) j ?input"
    using assms(2) by (auto simp: builder_inv_def)
  have "has_signature ?input" using s(1) by (simp add: has_signature_def)
  then obtain ht where ht: "bi_hashType ?input = Some ht" using j(2) by (auto simp: input_inv_def)
  obtain kp hash where k: "kp \<in> kps" "kp_pubKey kp = k"
      "hashForSignature (bl_sha256 L) (tb_tx b) j (script_of ?input) ht = Inr hash" "kp_sign kp hash = Inr sig"
    using j(3) [unfolded signatures_current_def, rule_format, OF s(1), of 0 sig] s(2) ht by auto
  have "hashForSignature (bl_sha256 L) tx j (script_of ?input) ht = Inr hash"
    using same_but_scripts_hash [OF build_same [OF assms(3)], of j] clone_hash [OF j(1)] j(1) k(3) by simp
  moreover have "pubKeyHashOutput (bl_hash160 L k) = Inr (script_of ?input)"
    using reachable_key_hash [OF assms(1)] assms(2,5) s(2) by (fastforce simp: key_hash_inv_def script_of_def split: option.splits)
  ultimately show ?thesis using s ht k t(2) by (intro bexI [OF _ k(1)] exI [of _ ht] exI [of _ sig] exI [of _ s] exI [of _ hash]) simp
qed

section \<open>Properties\<close>

text \<open>C2: the central safety property of the builder. Whatever sequence of accepted additions,
  lock-time changes and (successful or failed) calls of \<open>sign\<close> led to a builder, every signature it
  holds is one that the key at the signature's place, one of the pairs \<open>kps\<close> that \<open>sign\<close> was called
  with, made of the hash that the input has now; and
  in any transaction built from it that hash is still the hash of the input.\<close>

theorem builder_signatures_stay_valid:
  assumes "tb_reachable L kps b" "j < length (tb_inputs b)"
    and "bi_signatures (tb_inputs b ! j) = Some sigs" "i < length sigs" "sigs ! i = Some sig"
  shows "\<exists>kp \<in> kps. \<exists>hash ht. bi_hashType (tb_inputs b ! j) = Some ht \<and>
     kp_pubKey kp = the (bi_pubKeys (tb_inputs b ! j)) ! i \<and> kp_sign kp hash = Inr sig \<and>
     hashForSignature (bl_sha256 L) (tb_tx b) j (script_of (tb_inputs b ! j)) ht = Inr hash \<and>
     (\<forall>inc tx. tb_build L b inc = Inr tx \<longrightarrow>
        hashForSignature (bl_sha256 L) tx j (script_of (tb_inputs b ! j)) ht = Inr hash)"
proof -
  let ?input = "tb_inputs b ! j"
  have inv: "builder_inv L kps b" using assms(1) by (rule reachable_inv)
  then have j: "j < length (tx_ins (tb_tx b))" "input_inv ?input" "signatures_current L kps (tb_tx b) j ?input"
    using assms(2) by (auto simp: builder_inv_def)
  have "has_signature ?input" using assms(3-5) by (auto simp: has_signature_iff)
  then obtain ht where ht: "bi_hashType ?input = Some ht" using j(2) by (auto simp: input_inv_def)
  obtain kp hash where k: "kp \<in> kps" "kp_pubKey kp = the (bi_pubKeys ?input) ! i"
      "hashForSignature (bl_sha256 L) (tb_tx b) j (script_of ?input) ht = Inr hash" "kp_sign kp hash = Inr sig"
    using j(3) [unfolded signatures_current_def, rule_format, OF assms(3-5)] ht by auto
  have "hashForSignature (bl_sha256 L) tx j (script_of ?input) ht = Inr hash" if "tb_build L b inc = Inr tx" for inc tx
    using same_but_scripts_hash [OF build_same [OF that], of j] clone_hash [OF j(1)] j(1) k(3) by simp
  then show ?thesis using ht k by blast
qed

text \<open>\<open>sign\<close> commits the input to the hash type before it looks for the key. When the pair's key is
  not one of the input's keys the call fails but the hash type stays, so the next \<open>addInput\<close> is refused
  as if it would invalidate a signature although no input has one.\<close>

theorem failed_sign_blocks_addInput:
  assumes "tb_reachable L kps b" "index < length (tb_inputs b)" "kp_network kp = tb_network b"
    and "bi_scriptType (tb_inputs b ! index) = Some ''multisig''" "bi_prevOutType (tb_inputs b ! index) = Some ''multisig''"
    and "bi_hashType (tb_inputs b ! index) = None" "bi_pubKeys (tb_inputs b ! index) = Some ks" "kp_pubKey kp \<notin> set ks"
  shows "\<exists>b' e. tb_sign L b index kp None None = (b', Inl e) \<and>
     (\<forall>j < length (tb_inputs b'). has_signature (tb_inputs b' ! j) \<longleftrightarrow> has_signature (tb_inputs b ! j)) \<and>
     (\<forall>r vout q p res. tb_addInput L b' r vout q p \<noteq> Inr res)"
proof -
  let ?input = "tb_inputs b ! index"
  let ?input' = "?input\<lparr>bi_hashType := Some 1\<rparr>"
  have inv: "input_inv ?input" using reachable_inv [OF assms(1)] assms(2) by (simp add: builder_inv_def)
  then have "bi_signatures ?input \<noteq> None" using assms(7) by (simp add: input_inv_def)
  then have prep: "prepare_input L ?input kp None 1 = Inr ?input'"
    using assms by (simp add: prepare_input_def can_sign_def prepare_plain_def)
  have none: "sign_first kp hash i ks sigs = Inr None" for hash i sigs
    using assms(8) by (induction ks arbitrary: i) auto
  obtain e where sign: "sign_input L (put_input b index ?input') index ?input' kp 1 = Inl e"
  proof (cases "sign_input L (put_input b index ?input') index ?input' kp 1")
    case (Inr x)
    then show ?thesis using none assms(7) by (auto simp: sign_input_def split: option.splits)
  qed
  let ?b = "put_input b index ?input'"
  have "tb_sign L b index kp None None = (?b, Inl e)"
    using assms(2,3) prep sign by (simp add: tb_sign_def Let_def)
  moreover have "has_signature (tb_inputs ?b ! j) \<longleftrightarrow> has_signature (tb_inputs b ! j)" if "j < length (tb_inputs ?b)" for j
    using that by (cases "j = index") (simp_all add: put_input_def)
  moreover have "tb_addInput L ?b r vout q p \<noteq> Inr res" for r vout q p res
  proof -
    have one: "js_and 1 SIGHASH_ANYONECANPAY = 0" by (simp add: js_and_def to_int32_def)
    have "tb_inputs ?b ! index = ?input'" using assms(2) by (simp add: put_input_def)
    moreover have "?input' \<in> set (tb_inputs ?b)" using assms(2) by (simp add: put_input_def set_update_memI)
    moreover have "\<not> anyone_can_add ?input'" using one by (simp add: anyone_can_add_def)
    ultimately have "\<not> list_all anyone_can_add (tb_inputs ?b)" by (auto simp only: list_all_iff)
    then show ?thesis by (auto simp: tb_addInput_def split: if_splits)
  qed
  ultimately show ?thesis by blast
qed

text \<open>\<open>addInput\<close> refuses an outpoint that is an input already, except when it is the first input: its
  stored index 0 counts as absent. From a new builder the same outpoint is accepted twice, giving a
  transaction that spends it twice, and refused from the third time on.\<close>

theorem duplicate_of_first_input_accepted:
  assumes "length h = 32" "vout < 2 ^ 32"
  shows "\<exists>b1 b2. tb_addInput L (new_builder network) (RawHash h) vout None None = Inr (b1, 0) \<and>
     tb_addInput L b1 (RawHash h) vout None None = Inr (b2, 1) \<and>
     map (\<lambda>i. (ti_hash i, ti_index i)) (tx_ins (tb_tx b2)) = [(h, vout), (h, vout)] \<and>
     tb_addInput L b2 (RawHash h) vout None None = Inl (JsError ''Transaction is already an input'')"
proof -
  let ?i = "\<lparr>ti_hash = h, ti_index = vout, ti_script = [], ti_sequence = 0xffffffff\<rparr>"
  have add: "tx_addInput tx h vout None None = Inr (tx\<lparr>tx_ins := tx_ins tx @ [?i]\<rparr>, length (tx_ins tx))" for tx
    using assms by (simp add: tx_addInput_def Hash256bit_def nBuffer_ok UInt32_iff Let_def)
  have none: "anyone_can_add no_input" by (simp add: anyone_can_add_def no_input_def)
  let ?b1 = "(new_builder network)\<lparr>tb_tx := new_transaction\<lparr>tx_ins := [?i]\<rparr>, tb_inputs := [no_input],
      tb_prevTxMap := [prev_out_key h vout \<mapsto> 0]\<rparr>"
  let ?b2 = "?b1\<lparr>tb_tx := new_transaction\<lparr>tx_ins := [?i, ?i]\<rparr>, tb_inputs := [no_input, no_input],
      tb_prevTxMap := [prev_out_key h vout \<mapsto> 1]\<rparr>"
  have "tb_addInput L (new_builder network) (RawHash h) vout None None = Inr (?b1, 0)"
    using add by (simp add: tb_addInput_def resolve_prev_def input_of_prevOut_def new_builder_def new_transaction_def Let_def)
  moreover have "tb_addInput L ?b1 (RawHash h) vout None None = Inr (?b2, 1)"
    using add none by (simp add: tb_addInput_def resolve_prev_def input_of_prevOut_def new_builder_def new_transaction_def Let_def)
  moreover have "tb_addInput L ?b2 (RawHash h) vout None None = Inl (JsError ''Transaction is already an input'')"
    using none by (simp add: tb_addInput_def resolve_prev_def input_of_prevOut_def Let_def)
  ultimately show ?thesis by (intro exI [of _ ?b1] exI [of _ ?b2]) (simp add: new_transaction_def)
qed

text \<open>what a completed build hands out for a pay-to-pubkey-hash input: the input's script pushes the
  DER signature with its hash type and then the key, that signature was made by that key over
  the hash which the finished transaction has for the input, and the script the input spends pays to
  the hash of the key. The key is one of those \<open>sign\<close> was called with.\<close>

theorem built_p2pkh_input_is_signed:
  assumes "tb_reachable L kps b" "j < length (tb_inputs b)" "tb_build L b False = Inr tx"
    and "bi_scriptType (tb_inputs b ! j) = Some ''pubkeyhash''" "bi_prevOutType (tb_inputs b ! j) = Some ''pubkeyhash''"
  shows "\<exists>kp \<in> kps. \<exists>ht sig s hash. toScriptSignature (bl_sig L) sig ht = Inr s \<and>
     pubKeyHashInput s (kp_pubKey kp) = Inr (ti_script (tx_ins tx ! j)) \<and>
     kp_sign kp hash = Inr sig \<and> bi_hashType (tb_inputs b ! j) = Some ht \<and>
     hashForSignature (bl_sha256 L) tx j (script_of (tb_inputs b ! j)) ht = Inr hash \<and>
     pubKeyHashOutput (bl_hash160 L (kp_pubKey kp)) = Inr (script_of (tb_inputs b ! j))"
  by (rule p2pkh_input_signed [OF assms])

section \<open>A signed builder\<close>

text \<open>Concrete packages, a key pair, and a builder with one signed input: the instances at which the
  properties above apply.\<close>

definition sample_blib :: builder_lib where
  "sample_blib = \<lparr>bl_sig = sample_lib, bl_sha256 = id, bl_ripemd160 = (\<lambda>_. replicate 20 9),
     bl_b58_decode = plain_decode, bl_verify = (\<lambda>_. Inr (\<lambda>_ _. True))\<rparr>"

definition sample_kp :: key_pair where
  "sample_kp = \<lparr>kp_network = bitcoin_network, kp_pubKey = 2 # replicate 32 1, kp_sign = (\<lambda>_. Inr (ECSignature 1 1))\<rparr>"

definition sample_p2pkh :: buffer where
  "sample_p2pkh = [0x76, 0xa9, 0x14] @ replicate 20 9 @ [0x88, 0xac]"

definition sample_input :: tx_in where
  "sample_input = \<lparr>ti_hash = replicate 32 7, ti_index = 0, ti_script = [], ti_sequence = 0xffffffff\<rparr>"

definition sample_output :: tx_out where
  "sample_output = \<lparr>to_value = Some 100, to_script = [0x6a], to_valueBuffer = None\<rparr>"

definition sample_builder1 :: builder where
  "sample_builder1 = (new_builder None)\<lparr>tb_tx := new_transaction\<lparr>tx_ins := [sample_input]\<rparr>, tb_inputs := [no_input],
     tb_prevTxMap := [prev_out_key (replicate 32 7) 0 \<mapsto> 0]\<rparr>"

definition sample_builder2 :: builder where
  "sample_builder2 = sample_builder1\<lparr>tb_tx := (tb_tx sample_builder1)\<lparr>tx_outs := [sample_output]\<rparr>\<rparr>"

definition sample_signed_input :: builder_input where
  "sample_signed_input = \<lparr>bi_hashType = Some 1, bi_prevOutScript = Some sample_p2pkh, bi_prevOutType = Some ''pubkeyhash'',
     bi_pubKeys = Some [kp_pubKey sample_kp], bi_redeemScript = None, bi_scriptType = Some ''pubkeyhash'',
     bi_signatures = Some [Some (ECSignature 1 1)]\<rparr>"

definition sample_signed :: builder where
  "sample_signed = sample_builder2\<lparr>tb_inputs := [sample_signed_input]\<rparr>"

lemma sample_add_input: "tb_addInput sample_blib (new_builder None) (RawHash (replicate 32 7)) 0 None None = Inr (sample_builder1, 0)"
  by (simp add: tb_addInput_def resolve_prev_def input_of_prevOut_def tx_addInput_def Hash256bit_def nBuffer_ok
      UInt32_iff new_builder_def new_transaction_def sample_builder1_def sample_input_def Let_def)

lemma sample_add_output: "tb_addOutput sample_blib sample_builder1 (ToScript [0x6a]) 100 = Inr (sample_builder2, 0)"
  by (simp add: tb_addOutput_def tx_addOutput_def UInt53_def sample_builder2_def sample_builder1_def sample_output_def
      new_transaction_def output_can_be_added_def no_input_def Let_def)

lemma sample_tx2_ok: "tx_ok (tb_tx sample_builder2)"
  by (simp add: sample_builder2_def sample_builder1_def tx_ok_def writable_tx_def in_ok_def out_ok_def value_ok_def
      sample_input_def sample_output_def new_transaction_def)

lemma sample_digest: "\<exists>m. hashForSignature sha256 (tb_tx sample_builder2) 0 sample_p2pkh 1 = Inr (hash256 sha256 m)"
proof -
  let ?cs = "p2pkh_chunks (replicate 20 9)"
  have b: "concat (map chunk_bytes ?cs) = sample_p2pkh" by (simp add: p2pkh_bytes sample_p2pkh_def)
  have c: "list_all canonical_chunk ?cs" by (simp add: p2pkh_chunks_def)
  then have "list_all writable_chunk ?cs" by (auto simp: list_all_iff canonical_writable)
  then have "compile (Chunks ?cs) = Inr sample_p2pkh" using compile_Chunks [of ?cs] unfolding b by blast
  moreover have "decompile (Buf sample_p2pkh) = Inr ?cs" using decompile_concat [OF c] unfolding b .
  moreover have "filter (\<lambda>x. x \<noteq> Op OP_CODESEPARATOR) ?cs = ?cs" by (simp add: p2pkh_chunks_def)
  ultimately have s: "sighash_script sample_p2pkh = Inr sample_p2pkh"
    by (simp add: sighash_script_def del: rbind_Inr_iff)
  have t: "base_type 1 = 1" "tx_ins (tb_tx sample_builder2) \<noteq> []"
    by (simp_all add: base_type_def js_and_def to_int32_def sample_builder2_def sample_builder1_def)
  have len: "length sample_p2pkh = 25" by (simp add: sample_p2pkh_def)
  show ?thesis
    using hashForSignature_message [OF sample_tx2_ok _ s, of 0 1 sha256] t
    by (auto simp: len sighash_of_view_def Let_def)
qed

lemma sample_sign: "tb_sign sample_blib sample_builder2 0 sample_kp None None = (sample_signed, Inr ())"
proof -
  have sha: "bl_sha256 sample_blib = id" by (simp add: sample_blib_def)
  have h160: "bl_hash160 sample_blib k = replicate 20 9" for k by (simp add: sample_blib_def hash160_def)
  have out: "pubKeyHashOutput (replicate 20 9) = Inr sample_p2pkh"
    by (simp add: pubKeyHashOutput_bytes sample_p2pkh_def)
  let ?ready = "sample_signed_input\<lparr>bi_signatures := Some [None]\<rparr>"
  have prep: "prepare_input sample_blib no_input sample_kp None 1 = Inr ?ready"
    using out by (simp add: prepare_input_def can_sign_def prepare_plain_def no_input_def h160 sample_signed_input_def)
  have ins: "tb_inputs sample_builder2 = [no_input]" "tb_network sample_builder2 = bitcoin_network"
    by (simp_all add: sample_builder2_def sample_builder1_def new_builder_def)
  obtain hash where h: "hashForSignature id (tb_tx sample_builder2) 0 sample_p2pkh 1 = Inr hash" using sample_digest by blast
  have put: "tb_tx (put_input sample_builder2 0 i) = tb_tx sample_builder2" for i by (simp add: put_input_def)
  have "sign_input sample_blib (put_input sample_builder2 0 ?ready) 0 ?ready sample_kp 1 = Inr sample_signed_input"
    using h by (simp add: sign_input_def sha put sample_signed_input_def sample_kp_def set_at_def)
  then show ?thesis
    using prep ins by (simp add: tb_sign_def sample_kp_def [THEN arg_cong [of _ _ kp_network]] Let_def put_input_def
        sample_signed_def)
qed

lemma sample_reachable: "tb_reachable sample_blib {sample_kp} sample_signed"
proof -
  have "tb_reachable sample_blib {sample_kp} sample_builder1"
    by (rule tb_reachable.step [OF tb_reachable.start tb_step.add_input [OF sample_add_input]])
  then have "tb_reachable sample_blib {sample_kp} sample_builder2"
    by (rule tb_reachable.step [OF _ tb_step.add_output [OF sample_add_output]])
  then show ?thesis by (rule tb_reachable.step [OF _ tb_step.sign [OF _ sample_sign]]) simp
qed

lemma sample_build: "\<exists>tx. tb_build sample_blib sample_signed False = Inr tx"
proof -
  have sig: "toScriptSignature sample_lib (ECSignature 1 1) 1 = Inr [1, 0, 0, 1]"
    by (simp add: toScriptSignature_def toDER_def sample_lib_def js_and_def js_not_def to_int32_def writeLE_def
        write_at_def new_buffer_def)
  have "pubKeyHashInput [1, 0, 0, 1] (2 # replicate 32 1) = Inr (concat (map chunk_bytes [Data [1, 0, 0, 1], Data (2 # replicate 32 1)]))"
    unfolding pubKeyHashInput_def by (rule compile_Chunks) simp
  then show ?thesis
    using sig by (simp add: tb_build_def sample_signed_def sample_builder2_def sample_builder1_def sample_signed_input_def
        build_input_def can_build_type_def script_sig_of_def first_signature_def sample_blib_def sample_kp_def
        setInputScript_def new_transaction_def tx_clone_def)
qed

theorem builder_signatures_stay_valid_witness:
  "\<exists>kp \<in> {sample_kp}. \<exists>hash ht. bi_hashType (tb_inputs sample_signed ! 0) = Some ht \<and>
     kp_pubKey kp = the (bi_pubKeys (tb_inputs sample_signed ! 0)) ! 0 \<and> kp_sign kp hash = Inr (ECSignature 1 1) \<and>
     hashForSignature (bl_sha256 sample_blib) (tb_tx sample_signed) 0 (script_of (tb_inputs sample_signed ! 0)) ht = Inr hash"
  using builder_signatures_stay_valid [OF sample_reachable, of 0 "[Some (ECSignature 1 1)]" 0 "ECSignature 1 1"]
  by (auto simp: sample_signed_def sample_signed_input_def)

theorem built_p2pkh_input_is_signed_witness:
  "\<exists>tx. \<exists>kp \<in> {sample_kp}. \<exists>ht sig s hash. toScriptSignature (bl_sig sample_blib) sig ht = Inr s \<and>
     pubKeyHashInput s (kp_pubKey kp) = Inr (ti_script (tx_ins tx ! 0)) \<and>
     kp_sign kp hash = Inr sig \<and> bi_hashType (tb_inputs sample_signed ! 0) = Some ht \<and>
     hashForSignature (bl_sha256 sample_blib) tx 0 (script_of (tb_inputs sample_signed ! 0)) ht = Inr hash \<and>
     pubKeyHashOutput (bl_hash160 sample_blib (kp_pubKey kp)) = Inr (script_of (tb_inputs sample_signed ! 0))"
proof -
  obtain tx where "tb_build sample_blib sample_signed False = Inr tx" using sample_build by blast
  from built_p2pkh_input_is_signed [OF sample_reachable _ this]
  show ?thesis by (intro exI [of _ tx]) (simp add: sample_signed_def sample_signed_input_def)
qed

theorem duplicate_of_first_input_accepted_witness:
  "\<exists>b1 b2. tb_addInput sample_blib (new_builder None) (RawHash (replicate 32 5)) 3 None None = Inr (b1, 0) \<and>
     tb_addInput sample_blib b1 (RawHash (replicate 32 5)) 3 None None = Inr (b2, 1) \<and>
     map (\<lambda>i. (ti_hash i, ti_index i)) (tx_ins (tb_tx b2)) = [(replicate 32 5, 3), (replicate 32 5, 3)] \<and>
     tb_addInput sample_blib b2 (RawHash (replicate 32 5)) 3 None None = Inl (JsError ''Transaction is already an input'')"
  by (rule duplicate_of_first_input_accepted) simp_all

text \<open>A builder with a multisig input that no call has touched yet.\<close>

definition sample_ms_script :: buffer where
  "sample_ms_script = concat (map chunk_bytes (multisig_shape (1, [kp_pubKey sample_kp])))"

definition sample_ms_input :: builder_input where
  "sample_ms_input = no_input\<lparr>bi_pubKeys := Some [kp_pubKey sample_kp], bi_signatures := Some [None],
     bi_scriptType := Some ''multisig'', bi_prevOutScript := Some sample_ms_script, bi_prevOutType := Some ''multisig''\<rparr>"

definition sample_ms_builder :: builder where
  "sample_ms_builder = sample_builder1\<lparr>tb_inputs := [sample_ms_input]\<rparr>"

lemma sample_ms_reachable: "tb_reachable sample_blib {sample_kp} sample_ms_builder"
proof -
  have key: "isCanonicalPubKey (Data (kp_pubKey sample_kp))"
    by (simp add: isCanonicalPubKey_def byte_at_def sample_kp_def)
  then obtain b where b: "b = sample_ms_script" "decompile (Buf b) = Inr (multisig_shape (1, [kp_pubKey sample_kp]))"
      "classifyOutput (Buf b) = Inr ''multisig''"
    using multisig_built [of 1 "[kp_pubKey sample_kp]"] by (auto simp: sample_ms_script_def)
  then have "classifyOutput (Chunks (multisig_shape (1, [kp_pubKey sample_kp]))) = Inr ''multisig''"
    by (simp add: classifyOutput_def)
  then have "input_of_prevOut (Some sample_ms_script) = Inr sample_ms_input"
    using b by (simp add: input_of_prevOut_def slice_def sample_ms_input_def no_input_def Let_def)
  then have "tb_addInput sample_blib (new_builder None) (RawHash (replicate 32 7)) 0 None (Some sample_ms_script) =
      Inr (sample_ms_builder, 0)"
    by (simp add: tb_addInput_def resolve_prev_def tx_addInput_def Hash256bit_def nBuffer_ok UInt32_iff new_builder_def
        new_transaction_def sample_ms_builder_def sample_builder1_def sample_input_def Let_def)
  then show ?thesis by (rule tb_reachable.step [OF tb_reachable.start tb_step.add_input])
qed

theorem failed_sign_blocks_addInput_witness:
  "\<exists>b' e. tb_sign sample_blib sample_ms_builder 0 (sample_kp\<lparr>kp_pubKey := [4]\<rparr>) None None = (b', Inl e)"
proof -
  have "\<exists>b' e. tb_sign sample_blib sample_ms_builder 0 (sample_kp\<lparr>kp_pubKey := [4]\<rparr>) None None = (b', Inl e) \<and>
     (\<forall>j < length (tb_inputs b'). has_signature (tb_inputs b' ! j) \<longleftrightarrow> has_signature (tb_inputs sample_ms_builder ! j)) \<and>
     (\<forall>r vout q p res. tb_addInput sample_blib b' r vout q p \<noteq> Inr res)"
    by (rule failed_sign_blocks_addInput [OF sample_ms_reachable, of 0 _ "[kp_pubKey sample_kp]"])
       (simp_all add: sample_ms_builder_def sample_ms_input_def no_input_def sample_kp_def sample_builder1_def new_builder_def)
  then show ?thesis by blast
qed

end
