(* ===== verification/Blk.thy ===== *)
theory Blk
  imports Tx
begin

text \<open>
  \<open>bitcoinjs-lib/src/block.js\<close>: blocks, their wire format and the proof-of-work target.
  \<open>buffer-compare\<close> is a package; its result enters \<open>checkProofOfWork\<close> as an argument.
\<close>

section \<open>Operations\<close>

record block =
  bk_version :: nat
  bk_prevHash :: "buffer option"
  bk_merkleRoot :: "buffer option"
  bk_timestamp :: nat
  bk_bits :: nat
  bk_nonce :: nat
  bk_transactions :: "transaction list option"

definition new_block :: block where
  "new_block = \<lparr>bk_version = 1, bk_prevHash = None, bk_merkleRoot = None, bk_timestamp = 0, bk_bits = 0,
     bk_nonce = 0, bk_transactions = None\<rparr>"

text \<open>A transaction is parsed from the rest of the buffer, and the offset moves by the length that
  the transaction has when it is serialised.\<close>

definition readTransaction :: "buffer \<Rightarrow> nat \<Rightarrow> (transaction \<times> nat) res" where
  "readTransaction buf off =
     rbind (tx_fromBuffer (drop off buf) True) (\<lambda>tx. Inr (tx, off + byteLength tx))"

definition read_header :: "buffer \<Rightarrow> (block \<times> nat) res" where
  "read_header buf =
     rbind (readUInt32 buf 0) (\<lambda>(version, off).
     rbind (readSlice 32 buf off) (\<lambda>(prevHash, off).
     rbind (readSlice 32 buf off) (\<lambda>(merkleRoot, off).
     rbind (readUInt32 buf off) (\<lambda>(timestamp, off).
     rbind (readUInt32 buf off) (\<lambda>(bits, off).
     rbind (readUInt32 buf off) (\<lambda>(nonce, off).
       Inr (new_block\<lparr>bk_version := version, bk_prevHash := Some prevHash, bk_merkleRoot := Some merkleRoot,
                       bk_timestamp := timestamp, bk_bits := bits, bk_nonce := nonce\<rparr>, off)))))))"

definition blk_fromBuffer :: "buffer \<Rightarrow> block res" where
  "blk_fromBuffer buf =
     (if length buf < 80 then Inl (JsError ''Buffer too small (< 80 bytes)'')
      else rbind (read_header buf) (\<lambda>(block, off).
        if length buf = 80 then Inr block
        else rbind (readVarIntAt buf off) (\<lambda>(nTransactions, off).
             rbind (read_many readTransaction buf off nTransactions) (\<lambda>(txs, off).
               Inr (block\<lparr>bk_transactions := Some txs\<rparr>)))))"

definition blk_fromHex :: "string \<Rightarrow> block res" where
  "blk_fromHex hex = rbind (from_hex hex) blk_fromBuffer"

definition writeSlice_or_null :: "buffer option \<Rightarrow> buffer \<times> nat \<Rightarrow> (buffer \<times> nat) res" where
  "writeSlice_or_null s st = (case s of
       Some s \<Rightarrow> writeSlice s st
     | None \<Rightarrow> Inl (JsTypeError ''Cannot read property copy of null''))"

definition write_header :: "block \<Rightarrow> buffer \<times> nat \<Rightarrow> (buffer \<times> nat) res" where
  "write_header block st =
     rbind (writeUInt32 (bk_version block) st) (\<lambda>st.
     rbind (writeSlice_or_null (bk_prevHash block) st) (\<lambda>st.
     rbind (writeSlice_or_null (bk_merkleRoot block) st) (\<lambda>st.
     rbind (writeUInt32 (bk_timestamp block) st) (\<lambda>st.
     rbind (writeUInt32 (bk_bits block) st) (\<lambda>st.
       writeUInt32 (bk_nonce block) st)))))"

definition blk_toBuffer :: "block \<Rightarrow> bool \<Rightarrow> buffer res" where
  "blk_toBuffer block headersOnly =
     rbind (write_header block (new_buffer 80, 0)) (\<lambda>(buf, _).
       case bk_transactions block of
         None \<Rightarrow> Inr buf
       | Some txs \<Rightarrow>
           if headersOnly then Inr buf
           else rbind (varIntBuffer (length txs)) (\<lambda>txLenBuffer.
                rbind (rmap tx_toBuffer txs) (\<lambda>txBuffers.
                  Inr (buf @ txLenBuffer @ concat txBuffers))))"

definition blk_getHash :: "(buffer \<Rightarrow> buffer) \<Rightarrow> block \<Rightarrow> buffer res" where
  "blk_getHash sha256 block = rbind (blk_toBuffer block True) (\<lambda>b. Inr (hash256 sha256 b))"

definition blk_getId :: "(buffer \<Rightarrow> buffer) \<Rightarrow> block \<Rightarrow> string res" where
  "blk_getId sha256 block = rbind (blk_getHash sha256 block) (\<lambda>h. Inr (to_hex (rev h)))"

text \<open>A \<open>Date\<close> is its time in milliseconds.\<close>

definition blk_getUTCDate :: "block \<Rightarrow> nat" where
  "blk_getUTCDate block = 1000 * bk_timestamp block"

definition blk_toHex :: "block \<Rightarrow> bool \<Rightarrow> string res" where
  "blk_toHex block headersOnly = rbind (blk_toBuffer block headersOnly) (\<lambda>b. Inr (to_hex b))"

text \<open>\<open>target[i] = v\<close> stores the low byte and does nothing when the index is not in the buffer.\<close>

definition set_byte :: "buffer \<Rightarrow> int \<Rightarrow> int \<Rightarrow> buffer" where
  "set_byte buf i v = (if 0 \<le> i \<and> i < int (length buf) then buf[nat i := word_of_int v] else buf)"

definition calculateTarget :: "int \<Rightarrow> buffer" where
  "calculateTarget bits =
     (let exponent = js_sar (js_and bits 0xff000000) 24 - 3;
          mantissa = js_and bits 0x007fffff;
          i = 31 - exponent;
          target = new_buffer 32;
          target = set_byte target i (js_and mantissa 0xff);
          target = set_byte target (i - 1) (js_sar mantissa 8);
          target = set_byte target (i - 2) (js_sar mantissa 16);
          target = set_byte target (i - 3) (js_sar mantissa 24)
      in target)"

definition checkProofOfWork :: "(buffer \<Rightarrow> buffer) \<Rightarrow> (buffer \<Rightarrow> buffer \<Rightarrow> int) \<Rightarrow> block \<Rightarrow> bool res" where
  "checkProofOfWork sha256 compare block =
     rbind (blk_getHash sha256 block) (\<lambda>h.
       let hash = rev h; target = calculateTarget (int (bk_bits block))
       in Inr (compare hash target \<le> 0))"

section \<open>The wire format\<close>

definition header_bytes :: "block \<Rightarrow> buffer" where
  "header_bytes k = le_bytes 4 (bk_version k) @ the (bk_prevHash k) @ the (bk_merkleRoot k) @
     le_bytes 4 (bk_timestamp k) @ le_bytes 4 (bk_bits k) @ le_bytes 4 (bk_nonce k)"

definition header_ok :: "block \<Rightarrow> bool" where
  "header_ok k \<longleftrightarrow> bk_version k < 2 ^ 32 \<and> bk_timestamp k < 2 ^ 32 \<and> bk_bits k < 2 ^ 32 \<and> bk_nonce k < 2 ^ 32 \<and>
     (\<exists>h. bk_prevHash k = Some h \<and> length h = 32) \<and> (\<exists>h. bk_merkleRoot k = Some h \<and> length h = 32)"

definition block_bytes :: "block \<Rightarrow> buffer" where
  "block_bytes k = header_bytes k @ (case bk_transactions k of None \<Rightarrow> []
     | Some txs \<Rightarrow> varint_bytes (length txs) @ concat (map tx_bytes txs))"

definition block_ok :: "block \<Rightarrow> bool" where
  "block_ok k \<longleftrightarrow> header_ok k \<and> (case bk_transactions k of None \<Rightarrow> True
     | Some txs \<Rightarrow> length txs < 2 ^ 53 \<and> list_all tx_ok txs)"

lemma length_header_bytes: "header_ok k \<Longrightarrow> length (header_bytes k) = 80"
  by (auto simp: header_bytes_def header_ok_def)

lemma null_writer: "field_writer writeSlice_or_null the (\<lambda>s. s \<noteq> None)"
proof
  fix s :: "buffer option" and pre rest :: buffer
  assume "s \<noteq> None" "length (the s) \<le> length rest"
  then show "writeSlice_or_null s (pre @ rest, length pre) =
      Inr ((pre @ the s) @ drop (length (the s)) rest, length (pre @ the s))"
    using slice_w.fills [of "the s" rest pre] by (auto simp: writeSlice_or_null_def simp del: writeSlice.simps)
qed

interpretation header_w: field_writer write_header header_bytes header_ok
proof -
  have "field_writer write_header (\<lambda>k. le_bytes 4 (bk_version k) @ the (bk_prevHash k) @ the (bk_merkleRoot k) @
      le_bytes 4 (bk_timestamp k) @ le_bytes 4 (bk_bits k) @ le_bytes 4 (bk_nonce k))
    (\<lambda>k. bk_version k < 0x100000000 \<and> bk_prevHash k \<noteq> None \<and> bk_merkleRoot k \<noteq> None \<and>
      bk_timestamp k < 0x100000000 \<and> bk_bits k < 0x100000000 \<and> bk_nonce k < 0x100000000)"
    unfolding write_header_def [abs_def]
    by (intro field_writer_seq
        field_writer_map [OF uint32_w.field_writer_axioms, of bk_version]
        field_writer_map [OF null_writer, of bk_prevHash] field_writer_map [OF null_writer, of bk_merkleRoot]
        field_writer_map [OF uint32_w.field_writer_axioms, of bk_timestamp]
        field_writer_map [OF uint32_w.field_writer_axioms, of bk_bits]
        field_writer_map [OF uint32_w.field_writer_axioms, of bk_nonce])
  then show "field_writer write_header header_bytes header_ok"
    by (auto simp: field_writer_def header_bytes_def header_ok_def)
qed

interpretation transaction_c: codec tx_bytes readTransaction tx_ok
proof
  fix tx and pre post :: buffer
  assume ok: "tx_ok tx"
  then have "writable_tx tx" by (simp add: tx_ok_def)
  then show "readTransaction (pre @ tx_bytes tx @ post) (length pre) = Inr (tx, length pre + length (tx_bytes tx))"
    using tx_read_bytes [OF ok, of post] by (simp add: readTransaction_def tx_fromBuffer_def byteLength_bytes)
qed

lemma rmap_map: "(\<And>x. x \<in> set xs \<Longrightarrow> f x = Inr (g x)) \<Longrightarrow> rmap f xs = Inr (map g xs)"
  by (induction xs) simp_all

lemma blk_toBuffer_bytes:
  assumes "block_ok k"
  shows "blk_toBuffer k False = Inr (block_bytes k)" "blk_toBuffer k True = Inr (header_bytes k)"
proof -
  have h: "header_ok k" using assms by (simp add: block_ok_def)
  have w: "write_header k (new_buffer 80, 0) = Inr (header_bytes k, 80)"
    using header_w.fills [OF h, of "new_buffer 80" "[]"] length_header_bytes [OF h] by simp
  show "blk_toBuffer k True = Inr (header_bytes k)"
    using w by (simp add: blk_toBuffer_def split: option.splits)
  show "blk_toBuffer k False = Inr (block_bytes k)"
  proof (cases "bk_transactions k")
    case (Some txs)
    then have txs: "length txs < 0x20000000000000" "\<And>tx. tx \<in> set txs \<Longrightarrow> tx_ok tx"
      using assms by (auto simp: block_ok_def list_all_iff)
    then have "rmap tx_toBuffer txs = Inr (map tx_bytes txs)"
      by (intro rmap_map tx_toBuffer_bytes) (simp add: tx_ok_def)
    then show ?thesis
      using w Some txs(1) by (simp add: blk_toBuffer_def block_bytes_def varIntBuffer_eq)
  qed (use w in \<open>simp add: blk_toBuffer_def block_bytes_def\<close>)
qed

lemma read_header_bytes:
  assumes ok: "header_ok k"
  shows "read_header (header_bytes k @ post) = Inr (k\<lparr>bk_transactions := None\<rparr>, 80)"
proof -
  obtain p m where pm: "bk_prevHash k = Some p" "length p = 32" "bk_merkleRoot k = Some m" "length m = 32"
    using ok by (auto simp: header_ok_def)
  let ?v = "le_bytes 4 (bk_version k)" and ?t = "le_bytes 4 (bk_timestamp k)" and ?b = "le_bytes 4 (bk_bits k)"
    and ?n = "le_bytes 4 (bk_nonce k)"
  let ?buf = "header_bytes k @ post"
  have "readUInt32 ?buf 0 = Inr (bk_version k, 0 + length ?v)"
    using ok pm by (intro codec_at [OF uint32_c.codec_axioms, of _ ?buf "[]" "p @ m @ ?t @ ?b @ ?n @ post"])
      (simp_all add: header_ok_def header_bytes_def)
  moreover have "readSlice 32 ?buf (0 + length ?v) = Inr (p, 0 + length ?v + length p)"
    using ok pm by (intro codec_at [OF hash_c.codec_axioms, of p ?buf ?v "m @ ?t @ ?b @ ?n @ post"])
      (simp_all add: header_bytes_def)
  moreover have "readSlice 32 ?buf (0 + length ?v + length p) = Inr (m, 0 + length ?v + length p + length m)"
    using ok pm by (intro codec_at [OF hash_c.codec_axioms, of m ?buf "?v @ p" "?t @ ?b @ ?n @ post"])
      (simp_all add: header_bytes_def)
  moreover have "readUInt32 ?buf (0 + length ?v + length p + length m) =
      Inr (bk_timestamp k, 0 + length ?v + length p + length m + length ?t)"
    using ok pm by (intro codec_at [OF uint32_c.codec_axioms, of _ ?buf "?v @ p @ m" "?b @ ?n @ post"])
      (simp_all add: header_ok_def header_bytes_def)
  moreover have "readUInt32 ?buf (0 + length ?v + length p + length m + length ?t) =
      Inr (bk_bits k, 0 + length ?v + length p + length m + length ?t + length ?b)"
    using ok pm by (intro codec_at [OF uint32_c.codec_axioms, of _ ?buf "?v @ p @ m @ ?t" "?n @ post"])
      (simp_all add: header_ok_def header_bytes_def)
  moreover have "readUInt32 ?buf (0 + length ?v + length p + length m + length ?t + length ?b) =
      Inr (bk_nonce k, 0 + length ?v + length p + length m + length ?t + length ?b + length ?n)"
    using ok pm by (intro codec_at [OF uint32_c.codec_axioms, of _ ?buf "?v @ p @ m @ ?t @ ?b" post])
      (simp_all add: header_ok_def header_bytes_def)
  ultimately show ?thesis
    unfolding read_header_def rbind_simps prod.case using pm by (simp only: rbind_simps prod.case) (simp add: new_block_def)
qed

lemma blk_fromBuffer_bytes:
  assumes ok: "block_ok k"
  shows "blk_fromBuffer (block_bytes k) = Inr k"
proof -
  have h: "header_ok k" and len: "length (header_bytes k) = 80"
    using ok length_header_bytes by (simp_all add: block_ok_def)
  show ?thesis
  proof (cases "bk_transactions k")
    case None
    then show ?thesis
      using read_header_bytes [OF h, of "[]"] len by (simp add: blk_fromBuffer_def block_bytes_def)
  next
    case (Some txs)
    let ?c = "varint_bytes (length txs)"
    let ?buf = "header_bytes k @ ?c @ concat (map tx_bytes txs)"
    have txs: "length txs < 2 ^ 53" "list_all tx_ok txs" using ok Some by (simp_all add: block_ok_def)
    have n: "readVarIntAt ?buf 80 = Inr (length txs, 80 + length ?c)"
      using txs len by (intro codec_at [OF varint_c.codec_axioms, of _ ?buf "header_bytes k"]) simp_all
    have "read_many readTransaction ?buf (80 + length ?c) (length txs) =
        Inr (txs, 80 + length ?c + length (concat (map tx_bytes txs)))"
      using txs len
      by (intro codec_many_at [OF transaction_c.codec_axioms, of _ ?buf "header_bytes k @ ?c" "[]"]) simp_all
    moreover have "\<not> length ?buf < 80" "length ?buf \<noteq> 80"
      using len varIntSize_pos [of "length txs"] by simp_all
    moreover have "block_bytes k = ?buf" using Some by (simp add: block_bytes_def)
    ultimately show ?thesis
      using read_header_bytes [OF h, of "?c @ concat (map tx_bytes txs)"] n Some
      by (simp only: blk_fromBuffer_def if_False rbind_simps prod.case) simp
  qed
qed

section \<open>The compact target\<close>

lemma be_nat_zeros [simp]: "be_nat (replicate a 0 @ bs) = be_nat bs"
  by (induction a) (simp_all add: be_nat_def le_nat_append)

lemma be_nat_append: "be_nat (xs @ ys) = be_nat xs * 256 ^ length ys + be_nat ys"
  by (simp add: be_nat_def le_nat_append)

lemma be_nat_shift: "be_nat (bs @ replicate k 0) = be_nat bs * 256 ^ k"
  using be_nat_zeros [of k "[]"] unfolding be_nat_append by (simp add: be_nat_def)

lemma mantissa_bytes:
  assumes "0 \<le> m" "m < 2 ^ 23"
  shows "word_of_int (js_and m 0xff) = (word_of_nat (nat m) :: byte)"
    "word_of_int (js_sar m 8) = (word_of_nat (nat m div 256) :: byte)"
    "word_of_int (js_sar m 16) = (word_of_nat (nat m div 65536) :: byte)"
    "word_of_int (js_sar m 24) = (0 :: byte)"
proof -
  have id: "to_int32 m = m" using assms by (intro to_int32_small) simp_all
  have d: "m div 256 = int (nat m div 256)" "m div 65536 = int (nat m div 65536)"
    using assms by (simp_all add: zdiv_int)
  have "word_of_int (m mod 256) = (word_of_int m :: byte)" by (simp add: word_of_int_eq_iff take_bit_eq_mod)
  then show "word_of_int (js_and m 0xff) = (word_of_nat (nat m) :: byte)"
    using assms by (simp add: js_and_def and_255_mod id to_int32_small)
  show "word_of_int (js_sar m 8) = (word_of_nat (nat m div 256) :: byte)"
    "word_of_int (js_sar m 16) = (word_of_nat (nat m div 65536) :: byte)"
    unfolding js_sar_def id using d by simp_all
  have "m div 2 ^ 24 = 0" using assms by (intro div_pos_pos_trivial) simp_all
  then show "word_of_int (js_sar m 24) = (0 :: byte)" by (simp add: js_sar_def id)
qed

lemma be_nat_mantissa:
  assumes "n < 2 ^ 24"
  shows "be_nat [word_of_nat (n div 65536), word_of_nat (n div 256), word_of_nat n :: byte] = n"
proof -
  have "n div 65536 < 256" using assms by (simp add: less_mult_imp_div_less)
  then have "be_nat [word_of_nat (n div 65536), word_of_nat (n div 256), word_of_nat n :: byte] =
      n mod 256 + 256 * (n div 256 mod 256) + 65536 * (n div 256 div 256)"
    by (simp add: be_nat_def div_mult2_eq [symmetric])
  also have "\<dots> = n"
    using mod_mult_div_eq [of n 256] mod_mult_div_eq [of "n div 256" 256] by linarith
  finally show ?thesis .
qed

lemma compact_fields:
  assumes "0 \<le> bits" "bits < 2 ^ 31"
  shows "js_sar (js_and bits 0xff000000) 24 = bits div 2 ^ 24" "js_and bits 0x007fffff = bits mod 2 ^ 23"
proof -
  have b: "to_int32 bits = bits" using assms by (intro to_int32_small) simp_all
  have mask: "to_int32 0xff000000 = - (2 ^ 24)" by (simp add: to_int32_def)
  have neg: "- (2 ^ 24) = NOT (mask 24 :: int)" by (simp add: mask_eq_exp_minus_1 not_int_def)
  have "bits AND - (2 ^ 24) = push_bit 24 (drop_bit 24 bits)"
    unfolding neg by (rule bit_eqI) (auto simp: bit_simps)
  then have a: "js_and bits 0xff000000 = 2 ^ 24 * (bits div 2 ^ 24)"
    by (simp add: js_and_def b mask push_bit_eq_mult drop_bit_eq_div)
  have "2 ^ 24 * (bits div 2 ^ 24) \<le> bits" using mult_div_mod_eq [of "2 ^ 24" bits] pos_mod_sign [of "2 ^ 24" bits] by simp
  moreover have "0 \<le> bits div 2 ^ 24" using assms by (simp add: pos_imp_zdiv_nonneg_iff)
  ultimately have "to_int32 (2 ^ 24 * (bits div 2 ^ 24)) = 2 ^ 24 * (bits div 2 ^ 24)"
    using assms by (intro to_int32_small) simp_all
  then show "js_sar (js_and bits 0xff000000) 24 = bits div 2 ^ 24" by (simp add: a js_sar_def)
  have "to_int32 0x007fffff = mask 23" by (simp add: to_int32_def mask_eq_exp_minus_1)
  then show "js_and bits 0x007fffff = bits mod 2 ^ 23"
    unfolding js_and_def b take_bit_eq_mask [symmetric] take_bit_eq_mod by (simp only: take_bit_eq_mask [symmetric] take_bit_eq_mod)
qed

text \<open>The three bytes of the mantissa at their place, for an index the bytes fit at.\<close>

lemma target_inside:
  assumes "2 \<le> i" "i \<le> (31 :: nat)" "a = word_of_int x" "b = word_of_int y" "c = word_of_int z" "word_of_int w = (0 :: byte)"
  shows "set_byte (set_byte (set_byte (set_byte (new_buffer 32) (int i) x) (int i - 1) y) (int i - 2) z) (int i - 3) w =
    replicate (i - 2) 0 @ [c, b, a] @ replicate (31 - i) 0"
proof -
  have "\<exists>j. i = j + 2 \<and> j \<le> 29" using assms(1,2) by (intro exI [of _ "i - 2"]) arith
  then obtain j where j: "i = j + 2" "j \<le> 29" by blast
  have k: "(replicate 32 0 :: buffer) = replicate j 0 @ [0, 0, 0] @ replicate (29 - j) 0"
  proof -
    have "(32 :: nat) = j + (3 + (29 - j))" using j(2) by simp
    then show ?thesis by (metis replicate_add numeral_3_eq_3 replicate_Suc replicate_0)
  qed
  have "set_byte (set_byte (set_byte (new_buffer 32) (int i) x) (int i - 1) y) (int i - 2) z =
      replicate j 0 @ [c, b, a] @ replicate (29 - j) 0"
    using assms(3-5) j by (simp add: set_byte_def new_buffer_def k list_update_append nat_add_distrib Suc_nat_eq_nat_zadd1)
  moreover have "set_byte (replicate j 0 @ [c, b, a] @ replicate (29 - j) 0) (int i - 3) w =
      replicate j 0 @ [c, b, a] @ replicate (29 - j) 0"
    using assms(6) j by (auto simp: set_byte_def list_update_append list_update_same_conv nat_diff_distrib)
  ultimately show ?thesis using j by simp
qed

text \<open>The first indices beyond the end of the target, for exponents below 3.\<close>

lemma target_beyond:
  assumes "word_of_int w = (0 :: byte)"
  shows "set_byte (set_byte (set_byte (set_byte (new_buffer 32) 32 x) 31 y) 30 z) 29 w =
      replicate 30 0 @ [word_of_int z, word_of_int y]"
    "set_byte (set_byte (set_byte (set_byte (new_buffer 32) 33 x) 32 y) 31 z) 30 w = replicate 31 0 @ [word_of_int z]"
    "set_byte (set_byte (set_byte (set_byte (new_buffer 32) 34 x) 33 y) 32 z) 31 w = replicate 32 0"
proof -
  have r: "(replicate 32 0 :: buffer) = replicate 29 0 @ [0, 0, 0]" "(replicate 30 0 :: buffer) = replicate 29 0 @ [0]"
    "(replicate 31 0 :: buffer) = replicate 29 0 @ [0, 0]"
    by (simp_all add: replicate_add [symmetric] numeral_eq_Suc)
  show "set_byte (set_byte (set_byte (set_byte (new_buffer 32) 32 x) 31 y) 30 z) 29 w =
      replicate 30 0 @ [word_of_int z, word_of_int y]"
    "set_byte (set_byte (set_byte (set_byte (new_buffer 32) 33 x) 32 y) 31 z) 30 w = replicate 31 0 @ [word_of_int z]"
    "set_byte (set_byte (set_byte (set_byte (new_buffer 32) 34 x) 33 y) 32 z) 31 w = replicate 32 0"
    using assms by (simp_all add: set_byte_def new_buffer_def r list_update_append)
qed

section \<open>Properties\<close>

text \<open>C37: a block with fields in range, with or without its transactions, is serialised to its header
  followed by the count and the transactions, and parsed back to the same block.\<close>

theorem block_roundtrip:
  assumes "block_ok k"
  shows "\<exists>b. blk_toBuffer k False = Inr b \<and> b = block_bytes k \<and> blk_fromBuffer b = Inr k \<and>
           blk_toBuffer k True = Inr (take 80 b)"
  using blk_toBuffer_bytes [OF assms] blk_fromBuffer_bytes [OF assms] assms length_header_bytes [of k]
  by (auto simp: block_bytes_def block_ok_def)

definition sample_block :: block where
  "sample_block = \<lparr>bk_version = 2, bk_prevHash = Some (replicate 32 1), bk_merkleRoot = Some (replicate 32 2),
     bk_timestamp = 5, bk_bits = 0x1d00ffff, bk_nonce = 9, bk_transactions = Some [sample_tx]\<rparr>"

theorem block_roundtrip_witness:
  "\<exists>b. blk_toBuffer sample_block False = Inr b \<and> b = block_bytes sample_block \<and> blk_fromBuffer b = Inr sample_block \<and>
     blk_toBuffer sample_block True = Inr (take 80 b)"
  by (rule block_roundtrip) (simp add: block_ok_def header_ok_def sample_block_def sample_tx_ok)

text \<open>\<open>calculateTarget\<close> computes the number that the compact form of a target denotes, as 32
  big-endian bytes: the 23-bit mantissa shifted by the exponent byte less three bytes, to the right
  for exponents below three. It does so for every exponent that fits 32 bytes.\<close>

theorem calculateTarget_compact:
  assumes "0 \<le> bits" "bits < 2 ^ 31" "bits div 2 ^ 24 \<le> 32"
  shows "length (calculateTarget bits) = 32 \<and>
    be_nat (calculateTarget bits) =
      (let e = nat (bits div 2 ^ 24); m = nat (bits mod 2 ^ 23)
       in if 3 \<le> e then m * 256 ^ (e - 3) else m div 256 ^ (3 - e))"
proof -
  define m where "m = bits mod 2 ^ 23"
  define e where "e = nat (bits div 2 ^ 24)"
  have m: "0 \<le> m" "m < 2 ^ 23" by (simp_all add: m_def)
  have e: "bits div 2 ^ 24 = int e" "e \<le> 32"
    using assms by (simp_all add: e_def pos_imp_zdiv_nonneg_iff)
  note mb = mantissa_bytes [OF m]
  have small: "nat m < 2 ^ 24" using m by (simp add: nat_less_iff)
  have t: "calculateTarget bits = set_byte (set_byte (set_byte (set_byte (new_buffer 32) (34 - int e) (js_and m 0xff))
      (34 - int e - 1) (js_sar m 8)) (34 - int e - 2) (js_sar m 16)) (34 - int e - 3) (js_sar m 24)"
    unfolding calculateTarget_def Let_def compact_fields [OF assms(1,2)] m_def [symmetric] e(1) by simp
  have "length (calculateTarget bits) = 32 \<and>
      be_nat (calculateTarget bits) = (if 3 \<le> e then nat m * 256 ^ (e - 3) else nat m div 256 ^ (3 - e))"
  proof (cases "3 \<le> e")
    case True
    have i: "int (34 - e) = 34 - int e" using e(2) by simp
    have "calculateTarget bits = replicate (34 - e - 2) 0 @
        [word_of_nat (nat m div 65536), word_of_nat (nat m div 256), word_of_nat (nat m)] @ replicate (31 - (34 - e)) 0"
      unfolding t i [symmetric]
      by (rule target_inside) (use True e(2) mb in simp_all)
    moreover have "31 - (34 - e) = e - 3" using True e(2) by simp
    moreover have "be_nat ([word_of_nat (nat m div 65536), word_of_nat (nat m div 256), word_of_nat (nat m)] @ replicate (e - 3) 0) =
        nat m * 256 ^ (e - 3)"
      unfolding be_nat_shift be_nat_mantissa [OF small] ..
    ultimately show ?thesis using True e(2) be_nat_zeros by simp
  next
    case False
    then consider "e = 2" | "e = 1" | "e = 0" by linarith
    then show ?thesis
    proof cases
      case 1
      have "nat m div 65536 < 256" using small by (simp add: less_mult_imp_div_less)
      then have "be_nat [word_of_nat (nat m div 65536), word_of_nat (nat m div 256) :: byte] = nat m div 256"
        using mod_mult_div_eq [of "nat m div 256" 256] by (simp add: be_nat_def div_mult2_eq [symmetric])
      then show ?thesis
        unfolding t using 1 target_beyond(1) [OF mb(4)] mb(2,3) by simp
    next
      case 2
      have "nat m div 65536 < 256" using small by (simp add: less_mult_imp_div_less)
      then have "be_nat [word_of_nat (nat m div 65536) :: byte] = nat m div 65536" by (simp add: be_nat_def)
      then show ?thesis unfolding t using 2 target_beyond(2) [OF mb(4)] mb(3) by simp
    next
      case 3
      have "nat m div 256 ^ 3 = 0" using small by simp
      moreover have "be_nat (replicate 32 0) = 0" using be_nat_zeros [of 32 "[]"] by (simp add: be_nat_def)
      ultimately show ?thesis unfolding t using 3 target_beyond(3) [OF mb(4)] by simp
    qed
  qed
  then show ?thesis by (simp only: e_def m_def Let_def)
qed

theorem calculateTarget_compact_witness:
  "length (calculateTarget 0x1d00ffff) = 32 \<and>
   be_nat (calculateTarget 0x1d00ffff) =
     (let e = nat (0x1d00ffff div 2 ^ 24); m = nat (0x1d00ffff mod 2 ^ 23)
      in if 3 \<le> e then m * 256 ^ (e - 3) else m div 256 ^ (3 - e))"
  by (rule calculateTarget_compact) simp_all

text \<open>the block reader advances by the length a transaction has when serialised and not by what it
  read. A transaction with a count that is not in its shortest form (here the count 0 of inputs
  in three bytes instead of one) is parsed, but the reader then stands two bytes before its end and
  takes its last bytes for the start of the next transaction.\<close>

theorem block_reader_desynchronises:
  "tx_read (le_bytes 4 v @ [0xfd, 0, 0] @ [0] @ le_bytes 4 l @ rest) =
     Inr (\<lparr>tx_version = v mod 2 ^ 32, tx_locktime = l mod 2 ^ 32, tx_ins = [], tx_outs = []\<rparr>, 12) \<and>
   readTransaction (le_bytes 4 v @ [0xfd, 0, 0] @ [0] @ le_bytes 4 l @ rest) 0 =
     Inr (\<lparr>tx_version = v mod 2 ^ 32, tx_locktime = l mod 2 ^ 32, tx_ins = [], tx_outs = []\<rparr>, 10)"
proof -
  let ?buf = "le_bytes 4 v @ [0xfd, 0, 0] @ [0] @ le_bytes 4 l @ rest"
  have "readUInt32 ?buf 0 = Inr (v mod 2 ^ 32, 4)"
    using readLE_middle [of "le_bytes 4 v" 4 "[]"] by (simp add: readUInt32_def le_nat_le_bytes)
  moreover have "readVarIntAt ?buf 4 = Inr (0, 7)"
  proof -
    have "readLE 1 ?buf 4 = Inr 253" using readLE_middle [of "[0xfd]" 1 "le_bytes 4 v"] by simp
    moreover have "readLE 2 ?buf 5 = Inr 0" using readLE_middle [of "[0, 0]" 2 "le_bytes 4 v @ [0xfd]"] by simp
    ultimately show ?thesis by (simp add: readVarIntAt_def readVarInt_def)
  qed
  moreover have "readVarIntAt ?buf 7 = Inr (0, 8)"
  proof -
    have "readLE 1 ?buf 7 = Inr 0" using readLE_middle [of "[0]" 1 "le_bytes 4 v @ [0xfd, 0, 0]"] by simp
    then show ?thesis by (simp add: readVarIntAt_def readVarInt_def)
  qed
  moreover have "readUInt32 ?buf 8 = Inr (l mod 2 ^ 32, 12)"
    using readLE_middle [of "le_bytes 4 l" 4 "le_bytes 4 v @ [0xfd, 0, 0, 0]"] by (simp add: readUInt32_def le_nat_le_bytes)
  ultimately have "tx_read ?buf = Inr (\<lparr>tx_version = v mod 2 ^ 32, tx_locktime = l mod 2 ^ 32, tx_ins = [], tx_outs = []\<rparr>, 12)"
    by (simp only: tx_read_def rbind_simps prod.case read_many.simps)
  then show ?thesis
    by (simp add: readTransaction_def tx_fromBuffer_def byteLength_def varIntSize_def)
qed

end
