(* ===== verification/Radix.thy ===== *)
theory Radix
  imports Prelude
begin

text \<open>
  Positional notation in two bases. \<open>rebase\<close> is the reference description of Base58: a text with
  leading zero digits becomes as many zero digits followed by the number in the other base. Between
  any two bases it is a bijection on digit strings, which is what makes the codecs built on it
  lossless.
\<close>

section \<open>Digits and values\<close>

function radix_digits :: "nat \<Rightarrow> nat \<Rightarrow> nat list" where
  "radix_digits B n = (if n = 0 \<or> B < 2 then [] else n mod B # radix_digits B (n div B))"
  by pat_completeness auto

termination by (relation "measure snd") (auto intro: div_less_dividend)

declare radix_digits.simps [simp del]

primrec radix_value :: "nat \<Rightarrow> nat list \<Rightarrow> nat" where
  "radix_value B [] = 0"
| "radix_value B (d # ds) = d + B * radix_value B ds"

definition leading_zeros :: "nat list \<Rightarrow> nat" where
  "leading_zeros ds = length (takeWhile (\<lambda>d. d = 0) ds)"

text \<open>Digit strings have the most significant digit first.\<close>

definition rebase :: "nat \<Rightarrow> nat \<Rightarrow> nat list \<Rightarrow> nat list" where
  "rebase B C ds = replicate (leading_zeros ds) 0 @ rev (radix_digits C (radix_value B (rev ds)))"

lemma radix_digits_0 [simp]: "radix_digits B 0 = []"
  by (simp add: radix_digits.simps)

lemma radix_value_append: "radix_value B (xs @ ys) = radix_value B xs + B ^ length xs * radix_value B ys"
  by (induction xs) (simp_all add: algebra_simps)

lemma radix_value_zeros [simp]: "radix_value B (replicate n 0) = 0"
  by (induction n) simp_all

lemma radix_value_pad [simp]: "radix_value B (ds @ replicate n 0) = radix_value B ds"
  by (simp add: radix_value_append)

lemma leading_zeros_split: "ds = replicate (leading_zeros ds) 0 @ dropWhile (\<lambda>d. d = 0) ds"
proof -
  have "takeWhile (\<lambda>d. d = 0) ds = replicate (leading_zeros ds) 0"
    unfolding leading_zeros_def by (rule replicate_eqI) (auto dest: set_takeWhileD)
  then show ?thesis by (metis takeWhile_dropWhile_id)
qed

lemma leading_zeros_replicate:
  "(ds = [] \<or> hd ds \<noteq> 0) \<Longrightarrow> leading_zeros (replicate n 0 @ ds) = n"
  by (cases ds) (simp_all add: leading_zeros_def takeWhile_append)

lemma leading_zeros_le: "leading_zeros ds \<le> length ds"
  by (simp add: leading_zeros_def length_takeWhile_le)

section \<open>One base\<close>

locale radix =
  fixes B :: nat
  assumes base_ge_2: "2 \<le> B"
begin

lemma digits_rec: "n \<noteq> 0 \<Longrightarrow> radix_digits B n = n mod B # radix_digits B (n div B)"
  using base_ge_2 by (simp add: radix_digits.simps [of B n])

lemma value_digits [simp]: "radix_value B (radix_digits B n) = n"
proof (induction n rule: less_induct)
  case (less n)
  then show ?case using base_ge_2 by (cases "n = 0") (simp_all add: digits_rec)
qed

lemma digits_lt: "d \<in> set (radix_digits B n) \<Longrightarrow> d < B"
proof (induction n rule: less_induct)
  case (less n)
  show ?case
  proof (cases "n = 0")
    case False
    then have "n div B < n" using base_ge_2 by simp
    then have "d \<in> set (radix_digits B (n div B)) \<Longrightarrow> d < B" by (rule less.IH)
    then show ?thesis using less.prems base_ge_2 False by (auto simp: digits_rec)
  qed (use less in simp)
qed

lemma digits_last: "n \<noteq> 0 \<Longrightarrow> radix_digits B n \<noteq> [] \<and> last (radix_digits B n) \<noteq> 0"
proof (induction n rule: less_induct)
  case (less n)
  show ?case
  proof (cases "n div B = 0")
    case True
    then have "n < B" using base_ge_2 by (simp add: div_eq_0_iff)
    then show ?thesis using less.prems by (simp add: digits_rec)
  next
    case False
    then show ?thesis using less base_ge_2 by (simp add: digits_rec)
  qed
qed

lemma value_lt: "set ds \<subseteq> {..<B} \<Longrightarrow> radix_value B ds < B ^ length ds"
proof (induction ds)
  case (Cons d ds)
  then have "d < B" "Suc (radix_value B ds) \<le> B ^ length ds" by auto
  then have "d + B * radix_value B ds < B * Suc (radix_value B ds)" by simp
  also have "\<dots> \<le> B * B ^ length ds" using \<open>Suc _ \<le> _\<close> by (rule mult_le_mono2)
  finally show ?case by simp
qed simp

lemma value_pos: "ds \<noteq> [] \<Longrightarrow> last ds \<noteq> 0 \<Longrightarrow> 0 < radix_value B ds"
  using base_ge_2 by (induction ds) (auto split: if_splits)

lemma digits_value:
  "set ds \<subseteq> {..<B} \<Longrightarrow> ds = [] \<or> last ds \<noteq> 0 \<Longrightarrow> radix_digits B (radix_value B ds) = ds"
proof (induction ds)
  case (Cons d ds)
  have pos: "radix_value B (d # ds) \<noteq> 0" using value_pos [of "d # ds"] Cons.prems(2) by simp
  have "ds = [] \<or> last ds \<noteq> 0" using Cons.prems(2) by (auto split: if_splits)
  then show ?case using Cons digits_rec [OF pos] by auto
qed simp

lemma digits_length: "n < B ^ k \<Longrightarrow> length (radix_digits B n) \<le> k"
proof (induction k arbitrary: n)
  case (Suc k)
  show ?case
  proof (cases "n = 0")
    case False
    have "n div B < B ^ k" using Suc.prems base_ge_2 by (simp add: div_less_iff_less_mult mult.commute)
    then show ?thesis using Suc.IH False by (simp add: digits_rec)
  qed simp
qed simp

lemma canonical:
  assumes "set ds \<subseteq> {..<B}"
  shows "replicate (leading_zeros ds) 0 @ rev (radix_digits B (radix_value B (rev ds))) = ds"
proof -
  define r where "r = dropWhile (\<lambda>d. d = 0) ds"
  have ds: "ds = replicate (leading_zeros ds) 0 @ r" unfolding r_def by (rule leading_zeros_split)
  have v: "radix_value B (rev ds) = radix_value B (rev r)" by (subst ds) simp
  have "set (rev r) \<subseteq> {..<B}" using assms unfolding r_def by (auto dest: set_dropWhileD)
  moreover have "rev r = [] \<or> last (rev r) \<noteq> 0"
    using hd_dropWhile [of "\<lambda>d. d = 0" ds] by (cases "r = []") (auto simp: last_rev r_def)
  ultimately have "radix_digits B (radix_value B (rev ds)) = rev r" unfolding v by (rule digits_value)
  then show ?thesis using ds by simp
qed

end

section \<open>Two bases\<close>

locale radix_pair = radix B + target: radix C for B C :: nat
begin

lemma rebase_lt: "set (rebase B C ds) \<subseteq> {..<C}"
  using target.digits_lt target.base_ge_2 by (auto simp: rebase_def)

lemma rebase_leading: "leading_zeros (rebase B C ds) = leading_zeros ds"
  unfolding rebase_def
  by (rule leading_zeros_replicate)
     (cases "radix_value B (rev ds) = 0", simp_all add: hd_rev target.digits_last)

lemma rebase_value: "radix_value C (rev (rebase B C ds)) = radix_value B (rev ds)"
  by (simp add: rebase_def)

lemma rebase_inverse: "set ds \<subseteq> {..<B} \<Longrightarrow> rebase C B (rebase B C ds) = ds"
  unfolding rebase_def [of C B] rebase_leading rebase_value by (rule canonical)

lemma rebase_length:
  assumes "B \<le> C ^ k" "1 \<le> k" "set ds \<subseteq> {..<B}"
  shows "length (rebase B C ds) \<le> k * length ds"
proof -
  define r where "r = dropWhile (\<lambda>d. d = 0) ds"
  have ds: "ds = replicate (leading_zeros ds) 0 @ r" unfolding r_def by (rule leading_zeros_split)
  have v: "radix_value B (rev ds) = radix_value B (rev r)" by (subst ds) simp
  have "set (rev r) \<subseteq> {..<B}" using assms(3) unfolding r_def by (auto dest: set_dropWhileD)
  then have "radix_value B (rev r) < B ^ length r" using value_lt [of "rev r"] by simp
  also have "\<dots> \<le> (C ^ k) ^ length r" using assms(1) by (rule power_mono) simp
  finally have "radix_value B (rev ds) < C ^ (k * length r)" unfolding v by (simp add: power_mult)
  then have "length (rebase B C ds) \<le> leading_zeros ds + k * length r"
    using target.digits_length by (simp add: rebase_def)
  also have "\<dots> \<le> k * leading_zeros ds + k * length r" using assms(2) by simp
  also have "\<dots> = k * (leading_zeros ds + length r)" by (simp add: algebra_simps)
  also have "leading_zeros ds + length r = length ds" by (subst (2) ds) simp
  finally show ?thesis .
qed

end

end
