(* ===== verification/Script_Number.thy ===== *)
theory Script_Number
  imports Prelude
begin

text \<open>
  \<open>bitcoinjs-lib/src/script_number.js\<close>: Script's sign-and-magnitude numbers. The code works with
  32-bit operators and a special case for five bytes; the specification is one arithmetic
  reading of the bytes.
\<close>

section \<open>Operations\<close>

abbreviation (input) byte_int :: "buffer \<Rightarrow> nat \<Rightarrow> int" where
  "byte_int buf i \<equiv> uint (buf ! i)"

definition sn_decode :: "buffer \<Rightarrow> nat option \<Rightarrow> bool option \<Rightarrow> int res" where
  "sn_decode buf maxLength minimal =
     (let maxLength = (case maxLength of None \<Rightarrow> 4 | Some m \<Rightarrow> if m = 0 then 4 else m);
          minimal = (case minimal of None \<Rightarrow> True | Some b \<Rightarrow> b);
          len = length buf
      in if len = 0 then Inr 0
         else if len > maxLength then Inl (JsTypeError ''Script number overflow'')
         else if minimal \<and> js_and (byte_int buf (len - 1)) 0x7f = 0 \<and>
                 (len \<le> 1 \<or> js_and (byte_int buf (len - 2)) 0x80 = 0)
           then Inl (JsError ''Non-minimally encoded script number'')
         else if len = 5 then
           rbind (readUInt32LE buf 0) (\<lambda>a.
           rbind (readUInt8 buf 4) (\<lambda>b.
             if js_and (int b) 0x80 \<noteq> 0
             then Inr (- (js_and (int b) (js_not 0x80) * 0x100000000 + int a))
             else Inr (int b * 0x100000000 + int a)))
         else
           let result = foldl (\<lambda>r i. js_or r (js_shl (byte_int buf i) (8 * i))) 0 [0..<len]
           in if js_and (byte_int buf (len - 1)) 0x80 \<noteq> 0
              then Inr (- js_and result (js_not (js_shl 0x80 (8 * (len - 1)))))
              else Inr result)"

definition scriptNumSize :: "int \<Rightarrow> nat" where
  "scriptNumSize i =
     (if i > 0x7fffffff then 5 else if i > 0x7fffff then 4 else if i > 0x7fff then 3
      else if i > 0x7f then 2 else if i > 0 then 1 else 0)"

text \<open>The loop of \<open>encode\<close>: one byte per round, the value shifted right as a signed 32-bit number.\<close>

fun sn_bytes :: "nat \<Rightarrow> int \<Rightarrow> buffer" where
  "sn_bytes 0 value = []"
| "sn_bytes (Suc n) value = word_of_int (js_and value 0xff) # sn_bytes n (js_sar value 8)"

definition sn_encode :: "int \<Rightarrow> buffer" where
  "sn_encode number =
     (let value = \<bar>number\<bar>;
          size = scriptNumSize value;
          buf = sn_bytes size value;
          negative = number < 0
      in if size = 0 then buf
         else if js_and (byte_int buf (size - 1)) 0x80 \<noteq> 0
         then buf[size - 1 := (if negative then 0x80 else 0x00)]
         else if negative then buf[size - 1 := buf ! (size - 1) OR 0x80]
         else buf)"

section \<open>Specification: sign and magnitude\<close>

definition sm_value :: "buffer \<Rightarrow> int" where
  "sm_value bs =
     (if bs = [] then 0
      else let m = int (le_nat bs); top = 2 ^ (8 * length bs - 1)
           in if m < top then m else - (m - top))"

text \<open>Minimal: no byte could be dropped without losing a bit of the magnitude or the sign.\<close>

definition sm_minimal :: "buffer \<Rightarrow> bool" where
  "sm_minimal bs \<longleftrightarrow>
     bs = [] \<or> uint (last bs) mod 128 \<noteq> 0 \<or> (2 \<le> length bs \<and> 128 \<le> uint (bs ! (length bs - 2)))"

section \<open>The 32-bit operators on bytes\<close>

lemma to_int32_signed: "to_int32 v = signed_take_bit 31 v"
  by (simp add: to_int32_def signed_take_bit_eq_take_bit_shift take_bit_eq_mod)

lemma uint_byte_range [simp]: "0 \<le> uint (b :: byte)" "uint (b :: byte) < 256" "uint (b :: byte) \<le> 255"
  using uint_lt2p [of b] by simp_all

lemma to_int32_byte [simp]: "to_int32 (uint (b :: byte)) = uint b"
  by (rule to_int32_small) (use uint_byte_range [of b] in linarith)+

lemma int_unat_byte: "int (unat (b :: byte)) = uint b"
  by simp

lemma bit_7_byte: "0 \<le> v \<Longrightarrow> v < 256 \<Longrightarrow> bit (v :: int) 7 \<longleftrightarrow> 128 \<le> v"
  by (simp add: bit_iff_odd) presburger

lemma sign_bit_byte: "js_and (uint (b :: byte)) 0x80 = 0 \<longleftrightarrow> uint b < 128"
  using and_exp_eq_0_iff_not_bit [of "uint b" 7] bit_7_byte [of "uint b"]
  by (simp add: js_and_def not_le)

lemma low_bits_byte: "js_and (uint (b :: byte)) 0x7f = uint b mod 128"
  using take_bit_eq_mask [of 7 "uint b"] by (simp add: js_and_def take_bit_eq_mod mask_eq_exp_minus_1)

text \<open>Clearing the top bit that is set.\<close>

lemma clear_top_bit:
  assumes "0 \<le> m" "m < 2 ^ Suc k" "2 ^ k \<le> (m :: int)"
  shows "m AND NOT (2 ^ k) = m - 2 ^ k"
proof -
  have m: "take_bit (Suc k) m = m"
    using assms by (simp add: take_bit_int_eq_self)
  have "m AND NOT (2 ^ k) = take_bit k m"
  proof (rule bit_eqI)
    fix n
    have "bit m n \<longleftrightarrow> n < Suc k \<and> bit m n"
      by (metis m bit_take_bit_iff)
    then show "bit (m AND NOT (2 ^ k)) n \<longleftrightarrow> bit (take_bit k m) n"
      by (auto simp: bit_simps less_Suc_eq)
  qed
  also have "\<dots> = m mod 2 ^ k" by (simp add: take_bit_eq_mod)
  also have "\<dots> = m - 2 ^ k"
    using assms by (metis diff_ge_0_iff_ge mod_pos_pos_trivial minus_mod_self2 mult_2 power_Suc
        diff_less_eq add.commute add_less_cancel_left)
  finally show ?thesis .
qed

lemma or_disjoint:
  assumes "0 \<le> a" "a < 2 ^ k"
  shows "(a :: int) OR c * 2 ^ k = a + c * 2 ^ k"
proof -
  have "take_bit k a = a" using assms by (simp add: take_bit_int_eq_self)
  then have "\<not> bit a n \<or> \<not> bit (c * 2 ^ k) n" for n
    by (metis bit_take_bit_iff bit_push_bit_iff_int push_bit_eq_mult linorder_not_less)
  then show ?thesis by (simp add: disjunctive_add)
qed

lemma to_int32_or: "to_int32 a OR to_int32 b = to_int32 (a OR b)"
  unfolding to_int32_signed by (rule bit_eqI) (auto simp: bit_simps)

lemma to_int32_idem [simp]: "to_int32 (to_int32 a) = to_int32 a"
  by (simp add: to_int32_signed)

lemma js_and_not: "js_and a (js_not b) = to_int32 (a AND NOT b)"
  unfolding js_and_def js_not_def to_int32_signed by (rule bit_eqI) (auto simp: bit_simps)

lemma js_or_step:
  assumes "0 \<le> a" "a < 2 ^ k" "k < 32"
  shows "js_or (to_int32 a) (js_shl c k) = to_int32 (a + to_int32 c * 2 ^ k)"
  using assms
  by (simp add: js_or_def js_shl_def to_int32_or or_disjoint)

lemma fold_bytes:
  assumes "n \<le> length bs" "n \<le> 4"
  shows "foldl (\<lambda>r i. js_or r (js_shl (byte_int bs i) (8 * i))) 0 [0..<n] =
           to_int32 (int (le_nat (take n bs)))"
  using assms
proof (induction n)
  case (Suc n)
  have "le_nat (take n bs) < 256 ^ n"
    using le_nat_bound [of "take n bs"] Suc.prems by (simp add: min_absorb2)
  then have "int (le_nat (take n bs)) < int (256 ^ n)"
    by (rule of_nat_less_iff [THEN iffD2])
  then have "int (le_nat (take n bs)) < 2 ^ (8 * n)"
    by (simp add: power_mult)
  then have "js_or (to_int32 (int (le_nat (take n bs)))) (js_shl (byte_int bs n) (8 * n)) =
      to_int32 (int (le_nat (take n bs)) + uint (bs ! n) * 2 ^ (8 * n))"
    using js_or_step [of "int (le_nat (take n bs))" "8 * n" "uint (bs ! n)"] Suc.prems by simp
  also have "int (le_nat (take n bs)) + uint (bs ! n) * 2 ^ (8 * n) = int (le_nat (take (Suc n) bs))"
    using Suc.prems by (simp add: take_Suc_conv_app_nth le_nat_append power_mult min_absorb2)
  finally show ?case using Suc by simp
qed simp

lemma le_nat_int_less: "int (le_nat bs) < 256 ^ length bs"
proof -
  have "int (le_nat bs) < int (256 ^ length bs)"
    by (simp only: of_nat_less_iff le_nat_bound)
  then show ?thesis by simp
qed

lemma last_top_bit:
  assumes "bs \<noteq> []"
  shows "uint (last bs) < 128 \<longleftrightarrow> int (le_nat bs) < 2 ^ (8 * length bs - 1)"
proof -
  obtain xs b where bs: "bs = xs @ [b]" using assms by (metis rev_exhaust)
  have top: "2 ^ (8 * length bs - 1) = 128 * (256 :: int) ^ length xs"
    using bs by (simp add: power_add power_mult)
  have m: "int (le_nat bs) = int (le_nat xs) + 256 ^ length xs * uint b"
    using bs by (simp add: le_nat_append)
  have lo: "int (le_nat xs) < 256 ^ length xs"
    by (rule le_nat_int_less)
  have last: "last bs = b" using bs by simp
  show ?thesis
  proof (cases "uint b < 128")
    case True
    then have "uint b \<le> 127" by simp
    then have "256 ^ length xs * uint b \<le> 256 ^ length xs * (127 :: int)"
      by (rule mult_left_mono) simp
    then show ?thesis unfolding top last m using True lo by linarith
  next
    case False
    then have "256 ^ length xs * (128 :: int) \<le> 256 ^ length xs * uint b"
      by (intro mult_left_mono) simp_all
    then show ?thesis unfolding top last m using False by linarith
  qed
qed

lemma last_nth: "bs \<noteq> [] \<Longrightarrow> last bs = bs ! (length bs - 1)"
  by (rule last_conv_nth)

lemma le_nat_int_bound: "int (le_nat bs) < 2 ^ (8 * length bs)"
proof -
  have "(2 :: int) ^ (8 * length bs) = 256 ^ length bs" by (simp add: power_mult)
  then show ?thesis using le_nat_int_less [of bs] by simp
qed

section \<open>The code computes the specification\<close>

lemma decode_small_sign:
  assumes "bs \<noteq> []" "length bs \<le> 4"
  shows "(if js_and (byte_int bs (length bs - 1)) 0x80 \<noteq> 0
          then - js_and (to_int32 (int (le_nat bs))) (js_not (js_shl 0x80 (8 * (length bs - 1))))
          else to_int32 (int (le_nat bs))) = sm_value bs"
proof -
  let ?m = "int (le_nat bs)" and ?k = "8 * length bs - 1"
  have k: "?k \<le> 31" using assms by simp
  have k1: "8 * (length bs - 1) < 32" "8 * (length bs - 1) + 7 = ?k" using assms by (cases bs; simp)+
  have top: "2 ^ ?k \<le> (2 ^ 31 :: int)" using k by (intro power_increasing) simp_all
  have m: "?m < 2 ^ Suc ?k"
    using le_nat_int_bound [of bs] assms by (cases bs) simp_all
  have shl: "js_shl 0x80 (8 * (length bs - 1)) = to_int32 (2 ^ ?k)"
  proof -
    have "128 * 2 ^ (8 * (length bs - 1)) = (2 :: int) ^ ?k"
      unfolding k1(2) [symmetric] by (simp add: power_add)
    then show ?thesis using k1 by (simp add: js_shl_def)
  qed
  have sign: "js_and (byte_int bs (length bs - 1)) 0x80 \<noteq> 0 \<longleftrightarrow> \<not> ?m < 2 ^ ?k"
    using last_top_bit [OF assms(1)] by (simp only: sign_bit_byte last_nth [OF assms(1)])
  have val_eq: "sm_value bs = (if ?m < 2 ^ ?k then ?m else - (?m - 2 ^ ?k))"
    using assms(1) by (simp only: sm_value_def Let_def if_False)
  have nonneg: "0 \<le> ?m" by simp
  show ?thesis unfolding sign val_eq shl
  proof (cases "?m < 2 ^ ?k")
    case True
    have "to_int32 ?m = ?m"
      by (rule to_int32_id) (use True top nonneg in linarith)+
    then show "(if \<not> ?m < 2 ^ ?k then - js_and (to_int32 ?m) (js_not (to_int32 (2 ^ ?k)))
        else to_int32 ?m) = (if ?m < 2 ^ ?k then ?m else - (?m - 2 ^ ?k))"
      using True by (simp only: if_True not_not if_False simp_thms)
  next
    case False
    then have clr: "?m AND NOT (2 ^ ?k) = ?m - 2 ^ ?k"
      using m nonneg by (intro clear_top_bit) (simp_all only: not_less)
    have "js_and (to_int32 ?m) (js_not (to_int32 (2 ^ ?k))) = to_int32 (?m AND NOT (2 ^ ?k))"
      by (metis js_and_def js_and_not js_not_def to_int32_idem)
    also have "\<dots> = ?m - 2 ^ ?k"
      unfolding clr by (rule to_int32_id) (use m top False in \<open>simp_all only: power_Suc; linarith\<close>)+
    finally show "(if \<not> ?m < 2 ^ ?k then - js_and (to_int32 ?m) (js_not (to_int32 (2 ^ ?k)))
        else to_int32 ?m) = (if ?m < 2 ^ ?k then ?m else - (?m - 2 ^ ?k))"
      using False by (simp only: if_False not_False_eq_True if_True)
  qed
qed

lemma decode_five:
  assumes "length bs = 5"
  shows "rbind (readUInt32LE bs 0) (\<lambda>a. rbind (readUInt8 bs 4) (\<lambda>b.
             if js_and (int b) 0x80 \<noteq> 0
             then Inr (- (js_and (int b) (js_not 0x80) * 0x100000000 + int a))
             else Inr (int b * 0x100000000 + int a))) = Inr (sm_value bs)"
proof -
  have "bs \<noteq> []" using assms by auto
  then have "bs = butlast bs @ [last bs]" "length (butlast bs) = 4" using assms by simp_all
  then obtain xs b where bs: "bs = xs @ [b]" and xs: "length xs = 4" by blast
  have a: "readUInt32LE bs 0 = Inr (le_nat xs)"
    using readLE_middle [of xs 4 "[]" "[b]"] bs xs by simp
  have b: "readUInt8 bs 4 = Inr (unat b)"
    using readUInt8_nth [of 4 bs] bs xs by (simp add: nth_append)
  have m: "int (le_nat bs) = int (le_nat xs) + 4294967296 * uint b"
    using bs xs by (simp add: le_nat_append)
  have clr: "js_and (uint b) (js_not 0x80) = uint b - 128" if "128 \<le> uint b"
  proof -
    have "uint b AND NOT 128 = uint b - 128"
      using clear_top_bit [of "uint b" 7] that by simp
    moreover have "to_int32 (uint b - 128) = uint b - 128"
      by (rule to_int32_small) (use that uint_byte_range [of b] in linarith)+
    ultimately show ?thesis by (simp only: js_and_not)
  qed
  have top: "uint b < 128 \<longleftrightarrow> int (le_nat bs) < 549755813888"
    using last_top_bit [of bs] bs xs by (simp only: last_snoc) simp
  have val_eq: "sm_value bs = (if uint b < 128 then int (le_nat bs) else - (int (le_nat bs) - 549755813888))"
    unfolding top using bs xs by (simp add: sm_value_def Let_def)
  show ?thesis
    unfolding a b val_eq rbind_simps int_unat_byte sign_bit_byte m
    by (simp add: clr not_less del: One_nat_def)
qed

lemma sm_minimal_code:
  assumes "bs \<noteq> []"
  shows "(js_and (byte_int bs (length bs - 1)) 0x7f = 0 \<and>
          (length bs \<le> 1 \<or> js_and (byte_int bs (length bs - 2)) 0x80 = 0)) \<longleftrightarrow> \<not> sm_minimal bs"
proof -
  show ?thesis
    using assms by (auto simp: sign_bit_byte low_bits_byte sm_minimal_def last_nth not_le)
qed

definition sn_limit :: "nat option \<Rightarrow> nat" where
  "sn_limit maxLength = (case maxLength of None \<Rightarrow> 4 | Some m \<Rightarrow> if m = 0 then 4 else m)"

lemma sn_decode_eq:
  assumes "length bs \<le> 5"
  shows "sn_decode bs maxLength minimal =
     (if bs = [] then Inr 0
      else if length bs > sn_limit maxLength then Inl (JsTypeError ''Script number overflow'')
      else if minimal \<noteq> Some False \<and> \<not> sm_minimal bs
        then Inl (JsError ''Non-minimally encoded script number'')
      else Inr (sm_value bs))"
proof (cases "bs = []")
  case False
  have body: "(if length bs = 5 then
           rbind (readUInt32LE bs 0) (\<lambda>a. rbind (readUInt8 bs 4) (\<lambda>b.
             if js_and (int b) 0x80 \<noteq> 0
             then Inr (- (js_and (int b) (js_not 0x80) * 0x100000000 + int a))
             else Inr (int b * 0x100000000 + int a)))
         else
           let result = foldl (\<lambda>r i. js_or r (js_shl (byte_int bs i) (8 * i))) 0 [0..<length bs]
           in if js_and (byte_int bs (length bs - 1)) 0x80 \<noteq> 0
              then Inr (- js_and result (js_not (js_shl 0x80 (8 * (length bs - 1)))))
              else Inr result) = Inr (sm_value bs)"
  proof (cases "length bs = 5")
    case True
    then show ?thesis using decode_five by (simp only: if_True simp_thms)
  next
    case short: False
    then have "length bs \<le> 4" using assms by simp
    then show ?thesis
      using fold_bytes [of "length bs" bs] decode_small_sign [OF False] short
      by (auto simp: Let_def split: if_splits)
  qed
  have min: "(case minimal of None \<Rightarrow> True | Some b \<Rightarrow> b) \<longleftrightarrow> minimal \<noteq> Some False"
    by (cases minimal) auto
  show ?thesis
    unfolding sn_decode_def Let_def [of "length bs"] body [unfolded Let_def] min
      sn_limit_def [symmetric] Let_def
    using False sm_minimal_code [OF False] by simp
qed (simp add: sn_decode_def Let_def)

text \<open>The loop of \<open>encode\<close> writes the little-endian bytes of the value reduced to 32 bits and
  sign-extended.\<close>

lemma nat_mod_step: "nat (w mod (256 * 256 ^ k)) div 256 = nat ((w div 256) mod 256 ^ k)"
proof -
  have "w mod (256 * 256 ^ k) = 256 * (w div 256 mod 256 ^ k) + w mod 256"
    by (rule zmod_zmult2_eq) simp
  then have "(w mod (256 * 256 ^ k)) div 256 = w div 256 mod 256 ^ k" by simp
  then show ?thesis by (simp add: nat_div_distrib [symmetric] flip: nat_numeral)
qed

lemma sn_bytes_eq: "sn_bytes k v = le_bytes k (nat (to_int32 v mod 256 ^ k))"
proof (induction k arbitrary: v)
  case (Suc k)
  have sar: "js_sar v 8 = to_int32 v div 256" by (simp add: js_sar_def)
  have "to_int32 (to_int32 v div 256) = to_int32 v div 256"
    using to_int32_bounds_num [of v] by (intro to_int32_small) linarith+
  moreover have "js_and v 255 = v mod 256"
    by (simp add: js_and_def and_255_mod to_int32_mod_256 to_int32_small)
  moreover have "nat (to_int32 v mod (256 * 256 ^ k)) mod 256 = nat (v mod 256)"
    by (simp add: to_int32_mod_256 mod_mod_cancel flip: nat_mod_distrib nat_numeral)
  ultimately show ?case
    by (simp add: Suc sar nat_mod_step)
qed simp

definition sn_magnitude :: "int \<Rightarrow> nat" where
  "sn_magnitude n = nat (\<bar>n\<bar> mod 2 ^ 32)"

lemma size_small: "\<bar>n\<bar> < 2 ^ 31 \<Longrightarrow> n \<noteq> 0 \<Longrightarrow>
   0 < scriptNumSize \<bar>n\<bar> \<and> scriptNumSize \<bar>n\<bar> \<le> 4 \<and> \<bar>n\<bar> < 2 ^ (8 * scriptNumSize \<bar>n\<bar> - 1)"
  by (simp add: scriptNumSize_def)

lemma le_bytes_snoc:
  assumes "m < 256 ^ n" "k < 256"
  shows "le_bytes (Suc n) (m + 256 ^ n * k) = le_bytes n m @ [word_of_nat k]"
  using le_bytes_le_nat [of "le_bytes n m @ [word_of_nat k]"] assms by (simp add: le_nat_append)

lemma or_128: "uint (b :: byte) < 128 \<Longrightarrow> unat (b OR 0x80) = unat b + 128"
proof -
  assume b: "uint b < 128"
  have "uint (b OR 0x80) = uint b OR 128" by (simp add: uint_or)
  also have "\<dots> = uint b + 128" using or_disjoint [of "uint b" 7 1] b by simp
  finally have "int (unat (b OR 0x80)) = int (unat b + 128)" by simp
  then show ?thesis by (simp only: of_nat_eq_iff)
qed

lemma set_sign_bit:
  assumes "bs \<noteq> []" "uint (last bs) < 128"
  shows "bs[length bs - 1 := last bs OR 0x80] = le_bytes (length bs) (le_nat bs + 2 ^ (8 * length bs - 1))"
proof -
  obtain xs b where bs: "bs = xs @ [b]" using assms(1) by (metis rev_exhaust)
  have "le_nat (xs @ [b OR 0x80]) = le_nat bs + 128 * 256 ^ length xs"
    using assms(2) by (simp add: bs le_nat_append or_128 algebra_simps)
  moreover have "(128 :: nat) * 256 ^ length xs = 2 ^ (8 * length bs - 1)"
    by (simp add: bs power_add power_mult)
  moreover have "bs[length bs - 1 := last bs OR 0x80] = xs @ [b OR 0x80]"
    by (simp add: bs list_update_append)
  ultimately show ?thesis
    using le_bytes_le_nat [of "xs @ [b OR 0x80]"] by (simp add: bs)
qed

lemma sn_encode_small:
  assumes "\<bar>n\<bar> < 2 ^ 31" "n \<noteq> 0"
  defines "s \<equiv> scriptNumSize \<bar>n\<bar>"
  shows "sn_encode n = le_bytes s (nat \<bar>n\<bar> + (if n < 0 then 2 ^ (8 * s - 1) else 0))"
proof -
  define bs where "bs = le_bytes s (nat \<bar>n\<bar>)"
  have s: "0 < s" "s \<le> 4" "\<bar>n\<bar> < 2 ^ (8 * s - 1)"
    using size_small [OF assms(1,2)] by (simp_all add: s_def)
  have top: "(2 :: int) ^ (8 * s - 1) \<le> 256 ^ s"
  proof -
    have "(2 :: int) ^ (8 * s - 1) \<le> 2 ^ (8 * s)" by (intro power_increasing) simp_all
    then show ?thesis by (simp add: power_mult)
  qed
  have "to_int32 \<bar>n\<bar> = \<bar>n\<bar>" using assms(1) by (intro to_int32_small) simp_all
  moreover have "\<bar>n\<bar> mod 256 ^ s = \<bar>n\<bar>" using s top by (intro mod_pos_pos_trivial) linarith+
  ultimately have buf: "sn_bytes s \<bar>n\<bar> = bs" by (simp add: sn_bytes_eq bs_def)
  have "int (nat \<bar>n\<bar>) < int (256 ^ s)" using s top by simp
  then have "nat \<bar>n\<bar> < 256 ^ s" by (simp only: of_nat_less_iff)
  then have val_eq: "le_nat bs = nat \<bar>n\<bar>" by (simp add: bs_def)
  have len: "length bs = s" by (simp add: bs_def)
  then have ne: "bs \<noteq> []" using s by auto
  have last: "uint (last bs) < 128"
    using last_top_bit [OF ne] s by (simp add: val_eq len)
  then have "js_and (byte_int bs (s - 1)) 0x80 = 0"
    by (simp add: sign_bit_byte last_nth [OF ne] len)
  then have "sn_encode n = (if n < 0 then bs[length bs - 1 := last bs OR 0x80] else bs)"
    unfolding sn_encode_def Let_def s_def [symmetric] buf last_nth [OF ne] len using s by simp
  also have "\<dots> = le_bytes s (nat \<bar>n\<bar> + (if n < 0 then 2 ^ (8 * s - 1) else 0))"
    using set_sign_bit [OF ne last] by (simp add: val_eq len) (simp add: bs_def)
  finally show ?thesis .
qed

lemma sn_encode_big:
  assumes "2 ^ 31 \<le> \<bar>n\<bar>"
  shows "sn_encode n = le_bytes 4 (sn_magnitude n) @ [if n < 0 then 0x80 else 0]"
proof -
  let ?m = "\<bar>n\<bar> mod 2 ^ 32"
  have size: "scriptNumSize \<bar>n\<bar> = 5" using assms by (simp add: scriptNumSize_def)
  obtain c where c: "to_int32 \<bar>n\<bar> mod 256 ^ 5 = ?m + c * 2 ^ 32" "c = 0 \<or> c = 255"
  proof (cases "0 \<le> to_int32 \<bar>n\<bar>")
    case True
    then have "to_int32 \<bar>n\<bar> mod 2 ^ 32 = to_int32 \<bar>n\<bar>"
      using to_int32_bounds_num [of "\<bar>n\<bar>"] by (intro mod_pos_pos_trivial) simp_all
    moreover have "to_int32 \<bar>n\<bar> mod 256 ^ 5 = to_int32 \<bar>n\<bar>"
      using True to_int32_bounds_num [of "\<bar>n\<bar>"] by (intro mod_pos_pos_trivial) simp_all
    ultimately show ?thesis using that [of 0] by (simp only: to_int32_mod) simp
  next
    case False
    have "(to_int32 \<bar>n\<bar> + 2 ^ 32) mod 2 ^ 32 = to_int32 \<bar>n\<bar> + 2 ^ 32"
      using False to_int32_bounds_num [of "\<bar>n\<bar>"] by (intro mod_pos_pos_trivial) simp_all
    then have "?m = to_int32 \<bar>n\<bar> + 2 ^ 32" by (simp only: mod_add_self2 to_int32_mod)
    moreover have "(to_int32 \<bar>n\<bar> + 256 ^ 5) mod 256 ^ 5 = to_int32 \<bar>n\<bar> + 256 ^ 5"
      using False to_int32_bounds_num [of "\<bar>n\<bar>"] by (intro mod_pos_pos_trivial) simp_all
    ultimately show ?thesis using that [of 255] by simp
  qed
  have m: "0 \<le> ?m" "?m < 2 ^ 32" by simp_all
  have "nat (?m + c * 2 ^ 32) = sn_magnitude n + nat c * 2 ^ 32"
    using c(2) m by (auto simp: sn_magnitude_def nat_add_distrib)
  then have "sn_bytes 5 \<bar>n\<bar> = le_bytes (4 + 1) (sn_magnitude n + nat c * 2 ^ 32)"
    unfolding sn_bytes_eq c(1) by simp
  also have "\<dots> = le_bytes 4 (sn_magnitude n + nat c * 2 ^ 32) @ [word_of_nat ((sn_magnitude n + nat c * 2 ^ 32) div 2 ^ 32 mod 256)]"
    unfolding le_bytes_append by simp
  also have "le_bytes 4 (sn_magnitude n + nat c * 2 ^ 32) = le_bytes 4 (sn_magnitude n)"
    using le_bytes_mod [of 4 "sn_magnitude n + nat c * 2 ^ 32"] le_bytes_mod [of 4 "sn_magnitude n"] by simp
  also have "(sn_magnitude n + nat c * 2 ^ 32) div 2 ^ 32 mod 256 = nat c"
  proof -
    have "sn_magnitude n < 2 ^ 32" using m by (simp add: sn_magnitude_def nat_less_iff)
    then show ?thesis using c(2) by auto
  qed
  finally have buf: "sn_bytes 5 \<bar>n\<bar> = le_bytes 4 (sn_magnitude n) @ [word_of_nat (nat c)]" .
  have len: "length (le_bytes 4 (sn_magnitude n)) = 4" by simp
  have "js_and (uint (word_of_nat (nat c) :: byte)) 0x80 \<noteq> 0 \<longleftrightarrow> c = 255"
    using c(2) by (auto simp: sign_bit_byte)
  then show ?thesis
    unfolding sn_encode_def Let_def size buf using c(2) len
    by (auto simp: nth_append list_update_append)
qed

lemma sm_value_sign:
  assumes "0 < s" "m < 2 ^ (8 * s - 1)"
  shows "sm_value (le_bytes s (m + (if neg then 2 ^ (8 * s - 1) else 0))) = (if neg then - int m else int m)"
proof -
  have "(2 :: nat) * 2 ^ (8 * s - 1) = 256 ^ s"
    using assms(1) by (cases s) (simp_all add: power_mult power_add)
  then have "m + (if neg then 2 ^ (8 * s - 1) else 0) < 256 ^ s" using assms(2) by auto
  then have v: "le_nat (le_bytes s (m + (if neg then 2 ^ (8 * s - 1) else 0))) = m + (if neg then 2 ^ (8 * s - 1) else 0)"
    by (rule le_nat_le_bytes_small)
  have ne: "le_bytes s k \<noteq> []" for k using assms(1) by (cases s) simp_all
  have "int m < int (2 ^ (8 * s - 1))" using assms(2) by (simp only: of_nat_less_iff)
  then have "int m < 2 ^ (8 * s - 1)" by simp
  then show ?thesis
    unfolding sm_value_def Let_def v length_le_bytes using ne by (cases neg) auto
qed

lemma sm_value_abs:
  "\<bar>sm_value (xs @ [b])\<bar> = int (le_nat xs) + 256 ^ length xs * (uint b mod 128)"
proof -
  let ?p = "(256 :: int) ^ length xs"
  have top: "2 ^ (8 * length (xs @ [b]) - 1) = 128 * ?p" by (simp add: power_add power_mult)
  have m: "int (le_nat (xs @ [b])) = int (le_nat xs) + ?p * uint b" by (simp add: le_nat_append)
  have sign: "int (le_nat (xs @ [b])) < 128 * ?p \<longleftrightarrow> uint b < 128"
    using last_top_bit [of "xs @ [b]"] unfolding top by simp
  show ?thesis
  proof (cases "uint b < 128")
    case True
    then have "uint b mod 128 = uint b" by (intro mod_pos_pos_trivial) simp_all
    then show ?thesis
      using True unfolding sm_value_def Let_def top sign by (simp add: m)
  next
    case False
    then have "(uint b - 128) mod 128 = uint b - 128"
      using uint_byte_range [of b] by (intro mod_pos_pos_trivial) linarith+
    then have b: "uint b mod 128 = uint b - 128" by (simp only: minus_mod_self2)
    have "sm_value (xs @ [b]) = - (int (le_nat xs) + ?p * uint b - 128 * ?p)"
      using False unfolding sm_value_def Let_def top sign unfolding m by simp
    moreover have "0 \<le> int (le_nat xs) + ?p * (uint b - 128)"
      using False by (simp add: not_less)
    ultimately show ?thesis
      unfolding b by (simp add: algebra_simps)
  qed
qed

lemma sm_minimal_iff:
  assumes "bs \<noteq> []"
  shows "sm_minimal bs \<longleftrightarrow> (if length bs = 1 then 1 else 2 ^ (8 * (length bs - 1) - 1)) \<le> \<bar>sm_value bs\<bar>"
proof -
  obtain xs b where bs: "bs = xs @ [b]" using assms by (metis rev_exhaust)
  have b: "0 \<le> uint b mod 128" by simp
  show ?thesis
  proof (cases xs rule: rev_cases)
    case Nil
    then show ?thesis using sm_value_abs [of "[]" b] b by (simp add: bs sm_minimal_def) linarith
  next
    case (snoc ys a)
    let ?p = "(256 :: int) ^ length ys"
    have top: "(2 :: int) ^ (8 * (length bs - 1) - 1) = 128 * ?p"
      by (simp add: bs snoc power_add power_mult)
    have abs: "\<bar>sm_value bs\<bar> = int (le_nat ys) + ?p * (uint a + 256 * (uint b mod 128))"
      unfolding bs sm_value_abs by (simp add: snoc le_nat_append algebra_simps)
    have ys: "0 \<le> int (le_nat ys)" "int (le_nat ys) < ?p" using le_nat_int_less [of ys] by simp_all
    have min: "sm_minimal bs \<longleftrightarrow> uint b mod 128 \<noteq> 0 \<or> 128 \<le> uint a"
      by (simp add: bs snoc sm_minimal_def nth_append)
    have "128 * ?p \<le> \<bar>sm_value bs\<bar> \<longleftrightarrow> 128 \<le> uint a + 256 * (uint b mod 128)"
    proof (cases "128 \<le> uint a + 256 * (uint b mod 128)")
      case True
      then have "?p * 128 \<le> ?p * (uint a + 256 * (uint b mod 128))" by (intro mult_left_mono) simp_all
      then show ?thesis using True ys unfolding abs by linarith
    next
      case False
      then have "?p * (uint a + 256 * (uint b mod 128)) \<le> ?p * 127" by (intro mult_left_mono) simp_all
      then show ?thesis using False ys unfolding abs by linarith
    qed
    moreover have "128 \<le> uint a + 256 * (uint b mod 128) \<longleftrightarrow> uint b mod 128 \<noteq> 0 \<or> 128 \<le> uint a"
      using b uint_byte_range [of a] by linarith
    ultimately show ?thesis unfolding top min by (simp add: bs snoc)
  qed
qed

lemma sm_value_bound:
  "bs \<noteq> [] \<Longrightarrow> \<bar>sm_value bs\<bar> < 2 ^ (8 * length bs - 1)"
proof -
  assume ne: "bs \<noteq> []"
  then have "(2 :: int) * 2 ^ (8 * length bs - 1) = 2 ^ (8 * length bs)"
    by (cases bs) (simp_all flip: power_Suc)
  moreover have "sm_value bs = int (le_nat bs) \<and> int (le_nat bs) < 2 ^ (8 * length bs - 1) \<or>
      sm_value bs = - (int (le_nat bs) - 2 ^ (8 * length bs - 1)) \<and> \<not> int (le_nat bs) < 2 ^ (8 * length bs - 1)"
    using ne unfolding sm_value_def Let_def by argo
  ultimately show ?thesis
    using le_nat_int_bound [of bs] by linarith
qed

lemma scriptNumSize_minimal:
  assumes "sm_minimal bs" "length bs \<le> 4"
  shows "scriptNumSize \<bar>sm_value bs\<bar> = length bs"
proof (cases "bs = []")
  case False
  then have "length bs \<noteq> 0" by simp
  then have "length bs = 1 \<or> length bs = 2 \<or> length bs = 3 \<or> length bs = 4" using assms(2) by linarith
  then show ?thesis
    using sm_minimal_iff [OF False] sm_value_bound [OF False] assms(1)
    by (auto simp: scriptNumSize_def)
qed (simp add: sm_value_def scriptNumSize_def)

text \<open>What \<open>decode\<close> makes of an encoded number, for any number.\<close>

lemma encode_facts:
  "length (sn_encode n) = scriptNumSize \<bar>n\<bar> \<and> scriptNumSize \<bar>n\<bar> \<le> 5 \<and>
   sm_value (sn_encode n) = sgn n * (if \<bar>n\<bar> < 2 ^ 31 then \<bar>n\<bar> else \<bar>n\<bar> mod 2 ^ 32)"
proof -
  consider "n = 0" | "n \<noteq> 0" "\<bar>n\<bar> < 2 ^ 31" | "2 ^ 31 \<le> \<bar>n\<bar>" by fastforce
  then show ?thesis
  proof cases
    case 1
    then show ?thesis by (simp add: sn_encode_def scriptNumSize_def Let_def sm_value_def)
  next
    case 2
    let ?s = "scriptNumSize \<bar>n\<bar>"
    have s: "0 < ?s" "?s \<le> 4" "\<bar>n\<bar> < 2 ^ (8 * ?s - 1)" using size_small [OF 2(2,1)] by simp_all
    have "int (nat \<bar>n\<bar>) < int (2 ^ (8 * ?s - 1))" using s(3) by simp
    then have "nat \<bar>n\<bar> < 2 ^ (8 * ?s - 1)" by (simp only: of_nat_less_iff)
    then have v: "sm_value (sn_encode n) = (if n < 0 then - int (nat \<bar>n\<bar>) else int (nat \<bar>n\<bar>))"
      unfolding sn_encode_small [OF 2(2,1)] by (rule sm_value_sign [OF s(1)])
    have "sm_value (sn_encode n) = sgn n * \<bar>n\<bar>" unfolding v by (simp add: abs_if sgn_if)
    then show ?thesis using s 2 by (simp only: sn_encode_small [OF 2(2,1)] if_True) simp
  next
    case 3
    have "sn_magnitude n < 2 ^ 32" by (simp add: sn_magnitude_def nat_less_iff)
    then have "le_bytes 4 (sn_magnitude n) @ [if n < 0 then 0x80 else 0] =
        le_bytes 5 (sn_magnitude n + (if n < 0 then 2 ^ (8 * 5 - 1) else 0))"
      using le_bytes_snoc [of "sn_magnitude n" 4 128] le_bytes_snoc [of "sn_magnitude n" 4 0]
      by simp
    then have "sm_value (sn_encode n) = (if n < 0 then - int (sn_magnitude n) else int (sn_magnitude n))"
      using sm_value_sign [of 5 "sn_magnitude n" "n < 0"] \<open>sn_magnitude n < 2 ^ 32\<close>
      by (simp add: sn_encode_big [OF 3])
    then show ?thesis
      using 3 by (simp add: sn_encode_big scriptNumSize_def sn_magnitude_def sgn_if)
  qed
qed

lemma decode_encode:
  "sn_decode (sn_encode n) (Some 5) (Some False) =
     Inr (sgn n * (if \<bar>n\<bar> < 2 ^ 31 then \<bar>n\<bar> else \<bar>n\<bar> mod 2 ^ 32))"
  using encode_facts [of n] by (auto simp: sn_decode_eq sn_limit_def sm_value_def)

lemma encode_exact: "\<bar>n\<bar> < 2 ^ 32 \<Longrightarrow> sm_value (sn_encode n) = n"
  using encode_facts [of n] by (simp add: sgn_mult_abs)

lemma encode_minimal:
  assumes "\<bar>n\<bar> < 2 ^ 32"
  shows "sm_minimal (sn_encode n)"
proof (cases "sn_encode n = []")
  case False
  have "length (sn_encode n) = scriptNumSize \<bar>n\<bar>" using encode_facts [of n] by simp
  moreover have "n \<noteq> 0" using False by (auto simp: sn_encode_def scriptNumSize_def Let_def)
  ultimately show ?thesis
    unfolding sm_minimal_iff [OF False] encode_exact [OF assms]
    by (auto simp: scriptNumSize_def)
qed (simp add: sm_minimal_def)

lemma sn_encode_sm_value:
  assumes "sm_minimal bs" "length bs \<le> 4"
  shows "sn_encode (sm_value bs) = bs"
proof (cases "bs = []")
  case False
  let ?s = "length bs" and ?n = "sm_value bs"
  have s: "scriptNumSize \<bar>?n\<bar> = ?s" using assms by (rule scriptNumSize_minimal)
  have "(1 :: int) \<le> 2 ^ (8 * (?s - 1) - 1)" by simp
  then have "1 \<le> \<bar>?n\<bar>" using sm_minimal_iff [OF False] assms(1) by (smt (verit) if_splits)
  moreover have "(2 :: int) ^ (8 * ?s - 1) \<le> 2 ^ 31" using assms(2) by (intro power_increasing) simp_all
  then have "\<bar>?n\<bar> < 2 ^ 31" using sm_value_bound [OF False] by linarith
  ultimately have e: "sn_encode ?n = le_bytes ?s (nat \<bar>?n\<bar> + (if ?n < 0 then 2 ^ (8 * ?s - 1) else 0))"
    using sn_encode_small [of ?n] unfolding s by fastforce
  have "int (nat \<bar>?n\<bar> + (if ?n < 0 then 2 ^ (8 * ?s - 1) else 0)) = int (le_nat bs)"
  proof -
    have "sm_value bs = int (le_nat bs) \<or> sm_value bs = - (int (le_nat bs) - 2 ^ (8 * length bs - 1)) \<and> \<not> int (le_nat bs) < 2 ^ (8 * length bs - 1)"
      using False unfolding sm_value_def Let_def by argo
    then show ?thesis using \<open>1 \<le> \<bar>?n\<bar>\<close> by auto
  qed
  then show ?thesis unfolding e by (simp only: of_nat_eq_iff le_bytes_le_nat)
qed (simp add: sm_value_def sn_encode_def scriptNumSize_def Let_def)

section \<open>Properties\<close>

text \<open>\<open>decode\<close> reads a buffer of at most five bytes as its sign-and-magnitude number, whatever
  the operators and special cases it goes through, and refuses it exactly when it is longer than
  the limit or (unless told not to look) not minimal.\<close>

theorem decode_is_sign_magnitude:
  assumes "bs \<noteq> []" "length bs \<le> 5"
  shows "sn_decode bs maxLength minimal =
     (if length bs > sn_limit maxLength then Inl (JsTypeError ''Script number overflow'')
      else if minimal \<noteq> Some False \<and> \<not> sm_minimal bs
        then Inl (JsError ''Non-minimally encoded script number'')
      else Inr (sm_value bs))"
  using assms sn_decode_eq [of bs maxLength minimal] by simp

theorem decode_is_sign_magnitude_witness:
  "sn_decode [0, 1, 0x80] (Some 5) None =
     (if length ([0, 1, 0x80] :: buffer) > sn_limit (Some 5) then Inl (JsTypeError ''Script number overflow'')
      else if (None :: bool option) \<noteq> Some False \<and> \<not> sm_minimal [0, 1, 0x80]
        then Inl (JsError ''Non-minimally encoded script number'')
      else Inr (sm_value [0, 1, 0x80]))"
  by (rule decode_is_sign_magnitude) simp_all

text \<open>a buffer of at most four bytes that \<open>decode\<close> accepts is the one \<open>encode\<close> makes of the number,
  and a number below 2^32 in magnitude survives \<open>encode\<close> and \<open>decode\<close>: the two are inverse there.\<close>

theorem script_number_roundtrip:
  "(\<bar>n\<bar> < 2 ^ 32 \<longrightarrow> sn_decode (sn_encode n) (Some 5) None = Inr n) \<and>
   (sn_decode bs None None = Inr m \<longrightarrow> sn_encode m = bs)"
proof (intro conjI impI)
  assume "\<bar>n\<bar> < 2 ^ 32"
  then show "sn_decode (sn_encode n) (Some 5) None = Inr n"
    using encode_facts [of n] encode_minimal [of n] encode_exact [of n]
    by (auto simp: sn_decode_eq sn_limit_def sm_value_def)
next
  assume dec: "sn_decode bs None None = Inr m"
  then have len: "length bs \<le> 4"
    by (auto simp: sn_decode_def Let_def split: if_splits)
  then have "sm_minimal bs \<and> m = sm_value bs"
    using dec sn_decode_eq [of bs None None]
    by (auto simp: sm_value_def sm_minimal_def split: if_splits)
  then show "sn_encode m = bs" using sn_encode_sm_value len by simp
qed

theorem script_number_roundtrip_witness:
  "sn_decode (sn_encode (-300)) (Some 5) None = Inr (-300)"
  using script_number_roundtrip [of "-300" "[]" 0] by simp

text \<open>beyond 32 bits \<open>encode\<close> drops the upper bits without an error, although \<open>decode\<close> accepts
  five-byte numbers: every number from 2^31 in magnitude on encodes to five bytes that hold only
  its value modulo 2^32 and its sign.\<close>

theorem encode_drops_high_bits:
  assumes "2 ^ 31 \<le> \<bar>n\<bar>"
  shows "sn_encode n = le_bytes 4 (nat (\<bar>n\<bar> mod 2 ^ 32)) @ [if n < 0 then 0x80 else 0] \<and>
         sn_decode (sn_encode n) (Some 5) (Some False) = Inr (sgn n * (\<bar>n\<bar> mod 2 ^ 32)) \<and>
         (2 ^ 32 \<le> \<bar>n\<bar> \<longrightarrow> sn_decode (sn_encode n) (Some 5) (Some False) \<noteq> Inr n)"
proof -
  have e: "sn_encode n = le_bytes 4 (nat (\<bar>n\<bar> mod 2 ^ 32)) @ [if n < 0 then 0x80 else 0]"
    using sn_encode_big [OF assms] by (simp only: sn_magnitude_def)
  have d: "sn_decode (sn_encode n) (Some 5) (Some False) = Inr (sgn n * (\<bar>n\<bar> mod 2 ^ 32))"
    using decode_encode [of n] assms by simp
  have "\<bar>sgn n * (\<bar>n\<bar> mod 2 ^ 32)\<bar> < 2 ^ 32"
    using assms by (auto simp: abs_mult sgn_if)
  then have "sgn n * (\<bar>n\<bar> mod 2 ^ 32) \<noteq> n" if "2 ^ 32 \<le> \<bar>n\<bar>" using that by linarith
  then show ?thesis using e d by (simp only: sum.inject) blast
qed

theorem encode_drops_high_bits_witness:
  "sn_decode (sn_encode (-4294967301)) (Some 5) (Some False) = Inr (-5)"
proof -
  have "sn_decode (sn_encode (-4294967301)) (Some 5) (Some False) =
      Inr (sgn (-4294967301) * (\<bar>-4294967301\<bar> mod 2 ^ 32))"
    by (rule conjunct1 [OF conjunct2 [OF encode_drops_high_bits]]) simp
  then show ?thesis by simp
qed

end
