(* ===== verification/Js_Number.thy ===== *)
theory Js_Number
  imports Prelude
begin

text \<open>
  The number JavaScript makes of a buffer that is compared with a number, as bitcore does with
  script chunks (\<open>opcode > 96\<close>, \<open>chunk == 169\<close>): the buffer's bytes are decoded as UTF-8 text and
  the text is read as a numeric literal, rounded to a double.
\<close>

section \<open>Doubles\<close>

text \<open>A finite double is a sign with a fraction of two naturals.\<close>

datatype js_number = NaN | Infinite bool | Finite bool nat nat

fun bit_len :: "nat \<Rightarrow> nat" where
  "bit_len n = (if n = 0 then 0 else Suc (bit_len (n div 2)))"

declare bit_len.simps [simp del]

text \<open>\<open>p/d\<close> rounded to the nearest integer, ties to even.\<close>

definition round_half_even :: "nat \<Rightarrow> nat \<Rightarrow> nat" where
  "round_half_even p d =
     (let f = p div d; r = p mod d
      in if 2 * r < d then f else if d < 2 * r then f + 1 else if even f then f else f + 1)"

text \<open>The exponent of the last place of \<open>p/d\<close> in binary64: 52 places below the leading one, and no
  smaller than that of the subnormal numbers.\<close>

definition last_place :: "nat \<Rightarrow> nat \<Rightarrow> int" where
  "last_place p d =
     (let e0 = int (bit_len p) - int (bit_len d);
          e = (if (if 0 \<le> e0 then d * 2 ^ nat e0 \<le> p else d \<le> p * 2 ^ nat (- e0)) then e0 else e0 - 1)
      in max (e - 52) (- 1074))"

definition to_double :: "bool \<Rightarrow> nat \<Rightarrow> nat \<Rightarrow> js_number" where
  "to_double neg p d =
     (if p = 0 then Finite neg 0 1
      else let u = last_place p d
           in if 0 \<le> u
              then let n = round_half_even p (d * 2 ^ nat u) * 2 ^ nat u
                   in if 2 ^ 1024 \<le> n then Infinite neg else Finite neg n 1
              else Finite neg (round_half_even (p * 2 ^ nat (- u)) d) (2 ^ nat (- u)))"

text \<open>Comparison with a natural number; every comparison with \<open>NaN\<close> is false.\<close>

fun num_gt :: "js_number \<Rightarrow> nat \<Rightarrow> bool" where
  "num_gt NaN k = False"
| "num_gt (Infinite neg) k = (\<not> neg)"
| "num_gt (Finite neg p d) k = (\<not> neg \<and> k * d < p)"

fun num_eq :: "js_number \<Rightarrow> nat \<Rightarrow> bool" where
  "num_eq NaN k = False"
| "num_eq (Infinite neg) k = False"
| "num_eq (Finite neg p d) k = (if neg then p = 0 \<and> k = 0 else p = k * d)"

fun num_lt :: "js_number \<Rightarrow> nat \<Rightarrow> bool" where
  "num_lt NaN k = False"
| "num_lt (Infinite neg) k = neg"
| "num_lt (Finite neg p d) k = (if neg then p \<noteq> 0 \<or> 0 < k else p < k * d)"

definition num_ge :: "js_number \<Rightarrow> nat \<Rightarrow> bool" where
  "num_ge x k \<longleftrightarrow> num_gt x k \<or> num_eq x k"

definition num_le :: "js_number \<Rightarrow> nat \<Rightarrow> bool" where
  "num_le x k \<longleftrightarrow> num_lt x k \<or> num_eq x k"

section \<open>Numeric literals\<close>

text \<open>White space and line ends of ECMAScript in UTF-8, removed at both ends of the text.\<close>

definition spaces :: "buffer list" where
  "spaces = [[9], [10], [11], [12], [13], [32], [0xC2, 0xA0], [0xE1, 0x9A, 0x80]] @
     map (\<lambda>c. [0xE2, 0x80, word_of_nat c]) ([0x80..<0x8B] @ [0xA8, 0xA9, 0xAF]) @
     [[0xE2, 0x81, 0x9F], [0xE3, 0x80, 0x80], [0xEF, 0xBB, 0xBF]]"

function skip_space :: "buffer list \<Rightarrow> buffer \<Rightarrow> buffer" where
  "skip_space ws bs =
     (case find (\<lambda>w. w \<noteq> [] \<and> take (length w) bs = w) ws of
        Some w \<Rightarrow> skip_space ws (drop (length w) bs)
      | None \<Rightarrow> bs)"
  by pat_completeness auto

termination
proof (relation "measure (\<lambda>(_, bs). length bs)", goal_cases)
  case (2 ws bs w)
  then have "w \<noteq> []" "take (length w) bs = w" by (auto simp: find_Some_iff)
  then show ?case by (cases bs) auto
qed simp

declare skip_space.simps [simp del]

definition trim_space :: "buffer \<Rightarrow> buffer" where
  "trim_space bs = rev (skip_space (map rev spaces) (rev (skip_space spaces bs)))"

text \<open>Digits in a base, \<open>None\<close> for any other byte.\<close>

definition digit_value :: "byte \<Rightarrow> nat option" where
  "digit_value b = (let c = unat b in
     if 48 \<le> c \<and> c \<le> 57 then Some (c - 48)
     else if 65 \<le> c \<and> c \<le> 70 then Some (c - 55)
     else if 97 \<le> c \<and> c \<le> 102 then Some (c - 87) else None)"

definition is_digit :: "nat \<Rightarrow> byte \<Rightarrow> bool" where
  "is_digit base b = (case digit_value b of Some v \<Rightarrow> v < base | None \<Rightarrow> False)"

definition digits_value :: "nat \<Rightarrow> buffer \<Rightarrow> nat" where
  "digits_value base bs = foldl (\<lambda>a b. a * base + the (digit_value b)) 0 bs"

text \<open>\<open>[digits][.digits][e[+-]digits]\<close> with a digit before or after the point; the value is
  \<open>n * 10^e\<close>.\<close>

definition exponent_literal :: "buffer \<Rightarrow> int option" where
  "exponent_literal bs = (case bs of
       [] \<Rightarrow> Some 0
     | b # bs \<Rightarrow>
         if b \<noteq> 69 \<and> b \<noteq> 101 then None
         else let (neg, ds) = (case bs of c # cs \<Rightarrow> if c = 45 then (True, cs) else if c = 43 then (False, cs) else (False, bs)
                                | [] \<Rightarrow> (False, []))
              in if ds = [] \<or> \<not> list_all (is_digit 10) ds then None
                 else Some (if neg then - int (digits_value 10 ds) else int (digits_value 10 ds)))"

definition decimal_literal :: "buffer \<Rightarrow> (nat \<times> int) option" where
  "decimal_literal bs =
     (let whole = takeWhile (is_digit 10) bs;
          rest = dropWhile (is_digit 10) bs;
          (frac, rest) = (case rest of
              b # cs \<Rightarrow> if b = 46 then (takeWhile (is_digit 10) cs, dropWhile (is_digit 10) cs) else ([], rest)
            | [] \<Rightarrow> ([], []))
      in if whole = [] \<and> frac = [] then None
         else map_option (\<lambda>e. (digits_value 10 (whole @ frac), e - int (length frac))) (exponent_literal rest))"

definition scale10 :: "bool \<Rightarrow> nat \<times> int \<Rightarrow> js_number" where
  "scale10 neg = (\<lambda>(n, e). if 0 \<le> e then to_double neg (n * 10 ^ nat e) 1 else to_double neg n (10 ^ nat (- e)))"

definition radix_literal :: "nat \<Rightarrow> buffer \<Rightarrow> js_number" where
  "radix_literal base ds =
     (if ds = [] \<or> \<not> list_all (is_digit base) ds then NaN else to_double False (digits_value base ds) 1)"

definition signed_literal :: "bool \<Rightarrow> buffer \<Rightarrow> js_number" where
  "signed_literal neg bs =
     (if bs = [73, 110, 102, 105, 110, 105, 116, 121] then Infinite neg
      else case decimal_literal bs of Some v \<Rightarrow> scale10 neg v | None \<Rightarrow> NaN)"

definition text_number :: "buffer \<Rightarrow> js_number" where
  "text_number b = (case trim_space b of
       [] \<Rightarrow> Finite False 0 1
     | c # cs \<Rightarrow>
         if c = 48 \<and> cs \<noteq> [] \<and> (hd cs = 88 \<or> hd cs = 120) then radix_literal 16 (tl cs)
         else if c = 48 \<and> cs \<noteq> [] \<and> (hd cs = 79 \<or> hd cs = 111) then radix_literal 8 (tl cs)
         else if c = 48 \<and> cs \<noteq> [] \<and> (hd cs = 66 \<or> hd cs = 98) then radix_literal 2 (tl cs)
         else if c = 43 then signed_literal False cs
         else if c = 45 then signed_literal True cs
         else signed_literal False (c # cs))"

section \<open>Evaluation\<close>

text \<open>Text whose first and last bytes are printable ASCII is not trimmed.\<close>

definition visible :: "byte \<Rightarrow> bool" where
  "visible b \<longleftrightarrow> 33 \<le> unat b \<and> unat b < 128"

lemma skip_space_id:
  assumes "\<And>w. w \<in> set ws \<Longrightarrow> w = [] \<or> take (length w) bs \<noteq> w"
  shows "skip_space ws bs = bs"
proof -
  have "find (\<lambda>w. w \<noteq> [] \<and> take (length w) bs = w) ws = None"
    using assms by (auto simp: find_None_iff)
  then show ?thesis by (subst skip_space.simps) simp
qed

lemma spaces_hidden: "w \<in> set spaces \<Longrightarrow> w \<noteq> [] \<and> \<not> visible (hd w) \<and> \<not> visible (last w)"
  by (auto simp: spaces_def visible_def)

lemma trim_space_visible:
  assumes "bs \<noteq> []" "visible (hd bs)" "visible (last bs)"
  shows "trim_space bs = bs"
proof -
  have "skip_space spaces bs = bs"
  proof (rule skip_space_id)
    fix w assume "w \<in> set spaces"
    with spaces_hidden [of w] assms show "w = [] \<or> take (length w) bs \<noteq> w"
      by (cases bs; cases w) auto
  qed
  moreover have "skip_space (map rev spaces) (rev bs) = rev bs"
  proof (rule skip_space_id)
    fix w assume "w \<in> set (map rev spaces)"
    then obtain v where v: "w = rev v" "v \<in> set spaces" by auto
    have "\<not> visible (hd w)" using spaces_hidden [OF v(2)] v(1) by (simp add: hd_rev)
    with assms show "w = [] \<or> take (length w) (rev bs) \<noteq> w"
      by (cases "rev bs"; cases w) (auto simp: hd_rev [symmetric])
  qed
  ultimately show ?thesis by (simp add: trim_space_def)
qed

lemma trim_space_Nil [simp]: "trim_space [] = []"
proof -
  have "skip_space ws [] = []" for ws by (rule skip_space_id) auto
  then show ?thesis by (simp add: trim_space_def)
qed

text \<open>An empty buffer counts as 0.\<close>

lemma text_number_Nil [simp]: "text_number [] = Finite False 0 1"
  by (simp add: text_number_def)

text \<open>Naturals below \<open>2^53\<close> are exact.\<close>

lemma bit_len_le: "p < 2 ^ n \<Longrightarrow> bit_len p \<le> n"
proof (induction n arbitrary: p)
  case 0
  then show ?case by (simp add: bit_len.simps)
next
  case (Suc n)
  then have "p div 2 < 2 ^ n" by auto
  then have "bit_len (p div 2) \<le> n" by (rule Suc.IH)
  then show ?case by (subst bit_len.simps) simp
qed

lemma bit_len_1 [simp]: "bit_len (Suc 0) = 1"
  by (simp add: bit_len.simps)

lemma round_half_even_1 [simp]: "round_half_even p (Suc 0) = p"
  by (simp add: round_half_even_def)

lemma to_double_nat:
  assumes "p < 2 ^ 53"
  shows "\<exists>k. to_double neg p 1 = Finite neg (p * 2 ^ k) (2 ^ k)"
proof (cases "p = 0")
  case True
  then show ?thesis by (intro exI [of _ 0]) (simp add: to_double_def)
next
  case False
  have len: "bit_len p \<le> 53" using assms by (rule bit_len_le)
  then have u: "last_place p 1 \<le> 0" by (simp add: last_place_def Let_def)
  show ?thesis
  proof (cases "last_place p 1 = 0")
    case True
    have "\<not> 2 ^ 1024 \<le> p"
    proof
      assume "2 ^ 1024 \<le> p"
      moreover have "(2::nat) ^ 53 < 2 ^ 1024" by (rule power_strict_increasing) simp_all
      ultimately show False using assms by linarith
    qed
    then show ?thesis using False True by (intro exI [of _ 0]) (simp add: to_double_def)
  next
    case neg: False
    then show ?thesis using False u
      by (intro exI [of _ "nat (- last_place p 1)"]) (simp add: to_double_def Let_def)
  qed
qed

lemma compare_exact [simp]:
  "num_gt (Finite False (p * 2 ^ k) (2 ^ k)) n \<longleftrightarrow> n < p"
  "num_lt (Finite False (p * 2 ^ k) (2 ^ k)) n \<longleftrightarrow> p < n"
  "num_eq (Finite False (p * 2 ^ k) (2 ^ k)) n \<longleftrightarrow> p = n"
  by simp_all

text \<open>Text of decimal digits without a leading zero is the number it writes.\<close>

lemma digit_visible: "is_digit 10 b \<Longrightarrow> visible b \<and> b \<noteq> 43 \<and> b \<noteq> 45 \<and> b \<noteq> 46 \<and> b \<noteq> 73"
  by (auto simp: is_digit_def digit_value_def visible_def Let_def split: if_splits)

lemma text_number_digits:
  assumes "ds \<noteq> []" "list_all (is_digit 10) ds" "hd ds \<noteq> 48" "digits_value 10 ds < 2 ^ 53"
  shows "\<exists>k. text_number ds = Finite False (digits_value 10 ds * 2 ^ k) (2 ^ k)"
proof -
  obtain c cs where ds: "ds = c # cs" using assms(1) by (cases ds) auto
  have d: "is_digit 10 c" "is_digit 10 (last ds)" using assms(1,2) ds by (auto simp: list_all_iff)
  have "trim_space ds = ds"
    using assms(1) d digit_visible ds by (intro trim_space_visible) auto
  moreover have "decimal_literal ds = Some (digits_value 10 ds, 0)"
  proof -
    have tw: "takeWhile (is_digit 10) ds = ds" and dw: "dropWhile (is_digit 10) ds = []"
      using assms(2) by (auto simp: list_all_iff)
    show ?thesis unfolding decimal_literal_def Let_def tw dw using assms(1) by (simp add: exponent_literal_def)
  qed
  moreover have "ds \<noteq> [73, 110, 102, 105, 110, 105, 116, 121]" using digit_visible [OF d(1)] ds by auto
  ultimately have "text_number ds = to_double False (digits_value 10 ds) 1"
    using digit_visible [OF d(1)] assms(3) ds
    by (simp add: text_number_def signed_literal_def scale10_def)
  then show ?thesis using to_double_nat [OF assms(4), of False] by simp
qed

end
