(* ===== verification/Bc_Util.thy ===== *)
theory Bc_Util
  imports Buffer_Utils Script_Number Js_Number
begin

text \<open>
  \<open>bitcore/util/BinaryParser.js\<close>, the number encodings of \<open>bitcore/util/util.js\<close>, and the byte
  writer \<open>Put\<close> of the bundled bufferput library: what bitcore's scripts and transactions are read
  and written with.
\<close>

section \<open>BinaryParser.js\<close>

text \<open>The parser is the buffer with a position. It never throws: a read beyond the end gives the
  bytes that are there, and the position moves by the whole length all the same.\<close>

record parser =
  ps_subject :: buffer
  ps_pos :: nat

definition new_parser :: "buffer \<Rightarrow> parser" where
  "new_parser b = \<lparr>ps_subject = b, ps_pos = 0\<rparr>"

definition ps_buffer :: "nat \<Rightarrow> parser \<Rightarrow> buffer \<times> parser" where
  "ps_buffer len p = (slice (ps_subject p) (ps_pos p) (ps_pos p + len), p\<lparr>ps_pos := ps_pos p + len\<rparr>)"

definition ps_eof :: "parser \<Rightarrow> bool" where
  "ps_eof p \<longleftrightarrow> ps_pos p \<ge> length (ps_subject p)"

text \<open>Sums of doubles are rounded to 53 bits; the summands are exact.\<close>

definition double_nat :: "nat \<Rightarrow> nat" where
  "double_nat n = (if n < 2 ^ 53 then n else let u = bit_len n - 53 in round_half_even n (2 ^ u) * 2 ^ u)"

definition decodeLEu :: "buffer \<Rightarrow> nat" where
  "decodeLEu bytes = foldl (\<lambda>acc i. double_nat (acc + 256 ^ i * unat (bytes ! i))) 0 [0..<length bytes]"

definition decodeBEu :: "buffer \<Rightarrow> nat" where
  "decodeBEu bytes = foldl (\<lambda>acc i. double_nat (acc + 256 ^ (length bytes - i - 1) * unat (bytes ! i))) 0 [0..<length bytes]"

definition getDecoder :: "nat \<Rightarrow> (buffer \<Rightarrow> nat) \<Rightarrow> parser \<Rightarrow> nat \<times> parser" where
  "getDecoder len fn p = (let (buf, p) = ps_buffer len p in (fn buf, p))"

definition word8 :: "parser \<Rightarrow> nat \<times> parser" where "word8 = getDecoder 1 decodeBEu"
definition word16le :: "parser \<Rightarrow> nat \<times> parser" where "word16le = getDecoder 2 decodeLEu"
definition word32le :: "parser \<Rightarrow> nat \<times> parser" where "word32le = getDecoder 4 decodeLEu"
definition word64le :: "parser \<Rightarrow> nat \<times> parser" where "word64le = getDecoder 8 decodeLEu"

definition ps_varInt :: "parser \<Rightarrow> nat \<times> parser" where
  "ps_varInt p =
     (let (firstByte, p) = word8 p
      in if firstByte = 0xFD then word16le p
         else if firstByte = 0xFE then word32le p
         else if firstByte = 0xFF then word64le p
         else (firstByte, p))"

definition ps_varStr :: "parser \<Rightarrow> buffer \<times> parser" where
  "ps_varStr p = (let (len, p) = ps_varInt p in ps_buffer len p)"

section \<open>bufferput\<close>

text \<open>What has been put so far, in order. Words are written byte by byte from the lowest, so that
  only their value modulo the size of the word counts. The bound of the four-byte form of
  \<open>varint\<close> is \<open>1 << 32\<close>, which is 1.\<close>

definition put_buffer :: "buffer \<Rightarrow> buffer \<Rightarrow> buffer" where
  "put_buffer b acc = acc @ b"

definition put_le :: "nat \<Rightarrow> nat \<Rightarrow> buffer \<Rightarrow> buffer" where
  "put_le bytes v acc = acc @ le_bytes bytes v"

abbreviation "put_word8 \<equiv> put_le 1"
abbreviation "put_word16le \<equiv> put_le 2"
abbreviation "put_word32le \<equiv> put_le 4"
abbreviation "put_word64le \<equiv> put_le 8"

definition put_varint :: "nat \<Rightarrow> buffer \<Rightarrow> buffer" where
  "put_varint i acc =
     (if i < 253 then put_word8 i acc
      else if i \<le> 65536 then put_word16le i (put_word8 253 acc)
      else if i \<le> 1 then put_word32le i (put_word8 254 acc)
      else put_word64le i (put_word8 255 acc))"

section \<open>util.js\<close>

text \<open>\<open>bignum.toBuffer()\<close> of a positive number: big-endian, no leading zero byte.\<close>

fun le_minimal :: "nat \<Rightarrow> buffer" where
  "le_minimal n = (if n = 0 then [] else word_of_nat (n mod 256) # le_minimal (n div 256))"

declare le_minimal.simps [simp del]

definition bignum_buffer :: "nat \<Rightarrow> buffer" where
  "bignum_buffer n = rev (le_minimal n)"

definition padSign :: "buffer \<Rightarrow> buffer" where
  "padSign b = (if (case b of x # _ \<Rightarrow> x AND 0x80 \<noteq> 0 | [] \<Rightarrow> False) then 0 # b else b)"

definition intToBufferSM :: "int \<Rightarrow> buffer" where
  "intToBufferSM v =
     (if v > 0 then rev (padSign (bignum_buffer (nat v)))
      else if v = 0 then []
      else let c = padSign (bignum_buffer (nat (- v))) in rev (c[0 := c ! 0 OR 0x80]))"

definition bufferSMToInt :: "buffer \<Rightarrow> int res" where
  "bufferSMToInt v =
     (if length v = 0 then Inr 0
      else if length v > 4 then Inl (JsError ''Bigint cast overflow (> 4 bytes)'')
      else let w = rev v; isNeg = w ! 0 AND 0x80 \<noteq> 0
           in if isNeg then Inr (- int (be_nat (w[0 := w ! 0 AND 0x7f]))) else Inr (int (be_nat w)))"

definition getVarIntSize :: "nat \<Rightarrow> nat" where
  "getVarIntSize i = (if i < 253 then 1 else if i < 0x10000 then 3 else if i < 0x100000000 then 5 else 9)"

text \<open>\<open>n & -1\<close> is the signed low half of \<open>n\<close>.\<close>

definition varIntBuf :: "nat \<Rightarrow> buffer res" where
  "varIntBuf n =
     (if n < 253 then writeUInt8 (new_buffer 1) n 0
      else if n < 0x10000 then
        rbind (writeUInt8 (new_buffer 3) 253 0) (\<lambda>buf. writeUInt16LE buf n 1)
      else if n < 0x100000000 then
        rbind (writeUInt8 (new_buffer 5) 254 0) (\<lambda>buf. writeUInt32LE buf n 1)
      else
        rbind (writeUInt8 (new_buffer 9) 255 0) (\<lambda>buf.
        rbind (writeInt32LE buf (js_and (int n) (- 1)) 1) (\<lambda>buf.
          writeUInt32LE buf (n div 0x100000000) 5)))"

definition varStrBuf :: "buffer \<Rightarrow> buffer res" where
  "varStrBuf s = rbind (varIntBuf (length s)) (\<lambda>b. Inr (b @ s))"

text \<open>The difficulty target of the compact form: the mantissa doubled bit by bit.\<close>

fun double_times :: "nat \<Rightarrow> nat \<Rightarrow> nat" where
  "double_times 0 target = target"
| "double_times (Suc mov) target = double_times mov (target * 2)"

definition decodeDiffBits :: "nat \<Rightarrow> buffer res" where
  "decodeDiffBits diffBits =
     (let target = nat (js_and (int diffBits) 0xffffff);
          mov = 8 * (int (diffBits mod 2 ^ 32 div 2 ^ 24) - 3);
          target = double_times (nat mov) target;
          diffBuf = bignum_buffer target
      in if length diffBuf \<le> 32 then Inr (buf_copy diffBuf (new_buffer 32) (32 - length diffBuf))
         else Inl JsRangeError)"

section \<open>Reading\<close>

lemma double_nat_small [simp]: "n < 2 ^ 53 \<Longrightarrow> double_nat n = n"
  by (simp add: double_nat_def)

lemma le_nat_prefix_le: "n \<le> length bytes \<Longrightarrow> le_nat (take n bytes) \<le> le_nat bytes"
  using le_nat_append [of "take n bytes" "drop n bytes"] by simp

lemma decodeLEu_exact:
  assumes "le_nat bytes < 2 ^ 53"
  shows "decodeLEu bytes = le_nat bytes"
proof -
  have "foldl (\<lambda>acc i. double_nat (acc + 256 ^ i * unat (bytes ! i))) 0 [0..<n] = le_nat (take n bytes)"
    if "n \<le> length bytes" for n
    using that
  proof (induction n)
    case (Suc n)
    have t: "le_nat (take (Suc n) bytes) = le_nat (take n bytes) + 256 ^ n * unat (bytes ! n)"
      using Suc.prems by (simp add: take_Suc_conv_app_nth le_nat_append)
    have "le_nat (take (Suc n) bytes) < 2 ^ 53"
      using le_nat_prefix_le [OF Suc.prems] assms by linarith
    then show ?case using Suc by (simp add: t)
  qed simp
  from this [of "length bytes"] show ?thesis by (simp add: decodeLEu_def)
qed

lemma decodeBEu_byte [simp]: "decodeBEu [b] = unat b"
proof -
  have "unat b < 2 ^ 53" using unat_byte_lt [of b] by (rule less_trans) simp
  then show ?thesis by (simp add: decodeBEu_def)
qed

lemma decodeLEu_short: "length bytes \<le> 6 \<Longrightarrow> decodeLEu bytes = le_nat bytes"
proof (rule decodeLEu_exact)
  assume "length bytes \<le> 6"
  then have "(256 :: nat) ^ length bytes \<le> 256 ^ 6" by (intro power_increasing) simp_all
  then show "le_nat bytes < 2 ^ 53" using le_nat_bound [of bytes] by simp
qed

text \<open>The parser's methods as readers of a buffer at an offset.\<close>

definition ps_reader :: "(parser \<Rightarrow> 'a \<times> parser) \<Rightarrow> buffer \<Rightarrow> nat \<Rightarrow> ('a \<times> nat) res" where
  "ps_reader rd buf off = (case rd \<lparr>ps_subject = buf, ps_pos = off\<rparr> of (x, p) \<Rightarrow> Inr (x, ps_pos p))"

lemma ps_buffer_at [simp]:
  "ps_buffer (length bs) \<lparr>ps_subject = pre @ bs @ post, ps_pos = length pre\<rparr> =
     (bs, \<lparr>ps_subject = pre @ bs @ post, ps_pos = length pre + length bs\<rparr>)"
  by (simp add: ps_buffer_def)

lemma ps_buffer_at':
  "len = length bs \<Longrightarrow> off = length pre \<Longrightarrow> buf = pre @ bs @ post \<Longrightarrow>
   ps_buffer len \<lparr>ps_subject = buf, ps_pos = off\<rparr> = (bs, \<lparr>ps_subject = buf, ps_pos = off + len\<rparr>)"
  by simp

lemma word_at:
  "len = length bs \<Longrightarrow> fn bs = v \<Longrightarrow> off = length pre \<Longrightarrow> buf = pre @ bs @ post \<Longrightarrow>
   getDecoder len fn \<lparr>ps_subject = buf, ps_pos = off\<rparr> = (v, \<lparr>ps_subject = buf, ps_pos = off + len\<rparr>)"
  by (simp add: getDecoder_def ps_buffer_at')

lemma word8_at:
  "v < 256 \<Longrightarrow> off = length pre \<Longrightarrow> buf = pre @ le_bytes 1 v @ post \<Longrightarrow>
   word8 \<lparr>ps_subject = buf, ps_pos = off\<rparr> = (v, \<lparr>ps_subject = buf, ps_pos = off + 1\<rparr>)"
  unfolding word8_def by (rule word_at [of _ "le_bytes 1 v"]) simp_all

lemma word16le_at:
  "v < 2 ^ 16 \<Longrightarrow> off = length pre \<Longrightarrow> buf = pre @ le_bytes 2 v @ post \<Longrightarrow>
   word16le \<lparr>ps_subject = buf, ps_pos = off\<rparr> = (v, \<lparr>ps_subject = buf, ps_pos = off + 2\<rparr>)"
  unfolding word16le_def by (rule word_at [of _ "le_bytes 2 v"]) (simp_all add: decodeLEu_short)

lemma word32le_at:
  "v < 2 ^ 32 \<Longrightarrow> off = length pre \<Longrightarrow> buf = pre @ le_bytes 4 v @ post \<Longrightarrow>
   word32le \<lparr>ps_subject = buf, ps_pos = off\<rparr> = (v, \<lparr>ps_subject = buf, ps_pos = off + 4\<rparr>)"
  unfolding word32le_def by (rule word_at [of _ "le_bytes 4 v"]) (simp_all add: decodeLEu_short)

lemma word64le_at:
  "v < 2 ^ 53 \<Longrightarrow> off = length pre \<Longrightarrow> buf = pre @ le_bytes 8 v @ post \<Longrightarrow>
   word64le \<lparr>ps_subject = buf, ps_pos = off\<rparr> = (v, \<lparr>ps_subject = buf, ps_pos = off + 8\<rparr>)"
  unfolding word64le_def by (rule word_at [of _ "le_bytes 8 v"]) (simp_all add: decodeLEu_exact)

lemma varInt_at:
  assumes "v < 2 ^ 53" "off = length pre" "buf = pre @ varint_bytes v @ post"
  shows "ps_varInt \<lparr>ps_subject = buf, ps_pos = off\<rparr> = (v, \<lparr>ps_subject = buf, ps_pos = off + length (varint_bytes v)\<rparr>)"
proof -
  consider "v < 253" | "253 \<le> v" "v < 0x10000" | "0x10000 \<le> v" "v < 0x100000000" | "0x100000000 \<le> v" by linarith
  then show ?thesis
  proof cases
    case 1
    then have "word8 \<lparr>ps_subject = buf, ps_pos = off\<rparr> = (v, \<lparr>ps_subject = buf, ps_pos = off + 1\<rparr>)"
      using assms by (intro word8_at [of _ _ pre _ post]) (simp_all add: varint_bytes_def)
    then show ?thesis using 1 by (simp add: ps_varInt_def varIntSize_def)
  next
    case 2
    then have b: "buf = pre @ le_bytes 1 253 @ le_bytes 2 v @ post" using assms(3) by (simp add: varint_bytes_def)
    have "word8 \<lparr>ps_subject = buf, ps_pos = off\<rparr> = (253, \<lparr>ps_subject = buf, ps_pos = off + 1\<rparr>)"
      using assms(2) b by (intro word8_at) simp_all
    moreover have "word16le \<lparr>ps_subject = buf, ps_pos = off + 1\<rparr> = (v, \<lparr>ps_subject = buf, ps_pos = off + 1 + 2\<rparr>)"
      using assms(2) b 2 by (intro word16le_at [of _ _ "pre @ le_bytes 1 253"]) simp_all
    ultimately show ?thesis using 2 by (simp add: ps_varInt_def varIntSize_def)
  next
    case 3
    then have b: "buf = pre @ le_bytes 1 254 @ le_bytes 4 v @ post" using assms(3) by (simp add: varint_bytes_def)
    have "word8 \<lparr>ps_subject = buf, ps_pos = off\<rparr> = (254, \<lparr>ps_subject = buf, ps_pos = off + 1\<rparr>)"
      using assms(2) b by (intro word8_at) simp_all
    moreover have "word32le \<lparr>ps_subject = buf, ps_pos = off + 1\<rparr> = (v, \<lparr>ps_subject = buf, ps_pos = off + 1 + 4\<rparr>)"
      using assms(2) b 3 by (intro word32le_at [of _ _ "pre @ le_bytes 1 254"]) simp_all
    ultimately show ?thesis using 3 by (simp add: ps_varInt_def varIntSize_def)
  next
    case 4
    then have b: "buf = pre @ le_bytes 1 255 @ le_bytes 8 v @ post" using assms(3) by (simp add: varint_bytes_def)
    have "word8 \<lparr>ps_subject = buf, ps_pos = off\<rparr> = (255, \<lparr>ps_subject = buf, ps_pos = off + 1\<rparr>)"
      using assms(2) b by (intro word8_at) simp_all
    moreover have "word64le \<lparr>ps_subject = buf, ps_pos = off + 1\<rparr> = (v, \<lparr>ps_subject = buf, ps_pos = off + 1 + 8\<rparr>)"
      using assms(1,2) b by (intro word64le_at [of _ _ "pre @ le_bytes 1 255"]) simp_all
    ultimately show ?thesis using 4 by (simp add: ps_varInt_def varIntSize_def)
  qed
qed

text \<open>A method of the parser promises to read back an encoding at the position it was written at and
  to move behind it; the loops \<open>for (i = 0; i < n; i++) xs.push(read())\<close> then do so too, and every
  such method is a codec of theory Prelude.\<close>

fun parse_times :: "(parser \<Rightarrow> 'a \<times> parser) \<Rightarrow> nat \<Rightarrow> parser \<Rightarrow> 'a list \<times> parser" where
  "parse_times rd 0 p = ([], p)"
| "parse_times rd (Suc n) p =
     (let (x, p) = rd p; (xs, p) = parse_times rd n p in (x # xs, p))"

locale stream_codec =
  fixes enc :: "'a \<Rightarrow> buffer"
    and rd :: "parser \<Rightarrow> 'a \<times> parser"
    and ok :: "'a \<Rightarrow> bool"
  assumes read_at: "ok x \<Longrightarrow> rd \<lparr>ps_subject = pre @ enc x @ post, ps_pos = length pre\<rparr> =
    (x, \<lparr>ps_subject = pre @ enc x @ post, ps_pos = length pre + length (enc x)\<rparr>)"
begin

lemma read_in_middle:
  "ok x \<Longrightarrow> off = length pre \<Longrightarrow> buf = pre @ enc x @ post \<Longrightarrow>
   rd \<lparr>ps_subject = buf, ps_pos = off\<rparr> = (x, \<lparr>ps_subject = buf, ps_pos = off + length (enc x)\<rparr>)"
  using read_at by simp

lemma read_times:
  "list_all ok xs \<Longrightarrow> off = length pre \<Longrightarrow> buf = pre @ concat (map enc xs) @ post \<Longrightarrow> n = length xs \<Longrightarrow>
   parse_times rd n \<lparr>ps_subject = buf, ps_pos = off\<rparr> =
     (xs, \<lparr>ps_subject = buf, ps_pos = off + length (concat (map enc xs))\<rparr>)"
proof (induction xs arbitrary: pre off n)
  case (Cons x xs)
  have "rd \<lparr>ps_subject = buf, ps_pos = off\<rparr> = (x, \<lparr>ps_subject = buf, ps_pos = off + length (enc x)\<rparr>)"
    using Cons.prems by (intro read_in_middle) simp_all
  moreover have "parse_times rd (length xs) \<lparr>ps_subject = buf, ps_pos = off + length (enc x)\<rparr> =
      (xs, \<lparr>ps_subject = buf, ps_pos = off + length (enc x) + length (concat (map enc xs))\<rparr>)"
    using Cons.prems by (intro Cons.IH [of _ "pre @ enc x"]) simp_all
  ultimately show ?case using Cons.prems(4) by (simp add: add.assoc)
qed simp

end

sublocale stream_codec \<subseteq> codec enc "ps_reader rd" ok
  by unfold_locales (simp add: ps_reader_def read_at)

interpretation ps_word32: stream_codec "le_bytes 4" word32le "\<lambda>v. v < 2 ^ 32"
  by unfold_locales (simp add: word32le_at)

interpretation ps_varint: stream_codec varint_bytes ps_varInt "\<lambda>v. v < 2 ^ 53"
  by unfold_locales (simp add: varInt_at)

interpretation ps_slice: stream_codec "\<lambda>b. b" "ps_buffer n" "\<lambda>b. length b = n"
  by unfold_locales auto

section \<open>Writing\<close>

lemma put_varint_small: "i < 0x10000 \<Longrightarrow> put_varint i acc = acc @ varint_bytes i"
  by (simp add: put_varint_def put_le_def varint_bytes_def)

lemma varIntBuf_bytes: "n < 2 ^ 53 \<Longrightarrow> varIntBuf n = Inr (varint_bytes n)"
proof -
  assume n: "n < 2 ^ 53"
  consider "n < 253" | "253 \<le> n" "n < 0x10000" | "0x10000 \<le> n" "n < 0x100000000" | "0x100000000 \<le> n" by linarith
  then show ?thesis
  proof cases
    case 1
    then show ?thesis using writeLE_fill [of n 1 "new_buffer 1" "[]"]
      by (simp add: varIntBuf_def varint_bytes_def)
  next
    case 2
    then show ?thesis using writeLE_fill2 [of 253 1 n 2 "new_buffer 3" "[]"]
      by (simp add: varIntBuf_def varint_bytes_def)
  next
    case 3
    then show ?thesis using writeLE_fill2 [of 254 1 n 4 "new_buffer 5" "[]"]
      by (simp add: varIntBuf_def varint_bytes_def)
  next
    case 4
    have a: "writeUInt8 (new_buffer 9) 255 0 = Inr (le_bytes 1 255 @ new_buffer 8)"
      using writeLE_fill [of 255 1 "new_buffer 9" "[]"] by (simp add: new_buffer_def)
    have b: "writeInt32LE (le_bytes 1 255 @ new_buffer 8) (js_and (int n) (- 1)) 1 =
        Inr (le_bytes 1 255 @ le_bytes 4 n @ new_buffer 4)"
      using writeInt32LE_low [of "new_buffer 8" "le_bytes 1 255" n] by (simp add: new_buffer_def)
    have "n div 0x100000000 < 256 ^ 4" using n by (simp add: less_mult_imp_div_less)
    then have c: "writeUInt32LE (le_bytes 1 255 @ le_bytes 4 n @ new_buffer 4) (n div 0x100000000) 5 =
        Inr (le_bytes 1 255 @ le_bytes 4 n @ le_bytes 4 (n div 0x100000000))"
      using writeLE_fill [of "n div 0x100000000" 4 "new_buffer 4" "le_bytes 1 255 @ le_bytes 4 n"] by simp
    show ?thesis using 4 a b c le_bytes_8 [of n] by (simp add: varIntBuf_def varint_bytes_def)
  qed
qed

lemma getVarIntSize_eq: "getVarIntSize n = varIntSize n"
  by (simp add: getVarIntSize_def varIntSize_def)

end
