(* ===== verification/Bc_Number.thy ===== *)
theory Bc_Number
  imports Bc_Util
begin

text \<open>
  What bitcore's sign-and-magnitude numbers mean: \<open>intToBufferSM\<close> writes the one minimal form of
  any integer, and \<open>bufferSMToInt\<close> reads every form of at most four bytes.
\<close>

section \<open>Sign-and-magnitude numbers\<close>

lemma le_nat_le_minimal [simp]: "le_nat (le_minimal n) = n"
proof (induction n rule: le_minimal.induct)
  case (1 n)
  then show ?case by (cases "n = 0") (simp_all add: le_minimal.simps [of n] le_minimal.simps [of 0])
qed

lemma le_minimal_last: "n \<noteq> 0 \<Longrightarrow> le_minimal n \<noteq> [] \<and> last (le_minimal n) \<noteq> 0"
proof (induction n rule: le_minimal.induct)
  case (1 n)
  show ?case
  proof (cases "n div 256 = 0")
    case True
    then have "n < 256" by auto
    moreover have "le_minimal n = [word_of_nat n]"
      using True 1(2) \<open>n < 256\<close> by (simp add: le_minimal.simps [of n] le_minimal.simps [of 0])
    moreover have "unat (word_of_nat n :: byte) = n" using \<open>n < 256\<close> by simp
    ultimately show ?thesis using 1(2) by (metis last.simps list.discI unat_0)
  next
    case False
    then have "n \<noteq> 0" by auto
    then show ?thesis using 1(1) False by (simp add: le_minimal.simps [of n])
  qed
qed

lemma top_bit: "(b :: byte) AND 0x80 \<noteq> 0 \<longleftrightarrow> 128 \<le> uint b"
proof -
  have "b AND 0x80 = 0 \<longleftrightarrow> uint (b AND 0x80) = 0" by (simp add: unsigned_eq_0_iff)
  also have "\<dots> \<longleftrightarrow> uint b AND 0x80 = 0" by (simp add: uint_and)
  also have "\<dots> \<longleftrightarrow> uint b < 128" using sign_bit_byte [of b] by (simp add: js_and_def)
  finally show ?thesis by linarith
qed

lemma low_bits: "uint ((b :: byte) AND 0x7f) = uint b mod 128"
  using low_bits_byte [of b] by (simp add: js_and_def uint_and)

lemma sm_value_snoc:
  "sm_value (xs @ [b]) =
     (if uint b < 128 then 1 else -1) * (int (le_nat xs) + 256 ^ length xs * (uint b mod 128))"
proof -
  have "sm_value (xs @ [b]) \<ge> 0 \<longleftrightarrow> uint b < 128 \<or> sm_value (xs @ [b]) = 0"
    using last_top_bit [of "xs @ [b]"] by (auto simp: sm_value_def Let_def simp del: le_nat_append)
  then show ?thesis using sm_value_abs [of xs b] by (smt (verit) mult_cancel_right1 mult_minus_left)
qed

lemma bufferSMToInt_value:
  "bufferSMToInt v = (if length v > 4 then Inl (JsError ''Bigint cast overflow (> 4 bytes)'') else Inr (sm_value v))"
proof (cases v rule: rev_cases)
  case Nil
  then show ?thesis by (simp add: bufferSMToInt_def sm_value_def)
next
  case (snoc xs b)
  have "int (unat (b AND 0x7f)) = uint b mod 128" unfolding int_unat_byte by (rule low_bits)
  moreover have "uint b mod 128 = uint b" if "uint b < 128" using that by simp
  ultimately show ?thesis
    using snoc sm_value_snoc [of xs b] top_bit [of b]
    by (auto simp: bufferSMToInt_def Let_def be_nat_def le_nat_append int_unat_byte)
qed

lemma rev_padSign:
  assumes "b \<noteq> []"
  shows "rev (padSign (rev b)) = (if 128 \<le> uint (last b) then b @ [0] else b)"
  using assms top_bit [of "last b"] by (cases b rule: rev_cases) (auto simp: padSign_def)

lemma intToBufferSM_shape:
  assumes "n \<noteq> 0"
  obtains xs b where "le_minimal n = xs @ [b]" "b \<noteq> 0"
    "rev (padSign (bignum_buffer n)) = (if 128 \<le> uint b then xs @ [b, 0] else xs @ [b])"
proof -
  obtain xs b where xb: "le_minimal n = xs @ [b]" using le_minimal_last [OF assms] by (metis append_butlast_last_id)
  then show ?thesis
    using le_minimal_last [OF assms] rev_padSign [of "le_minimal n"] that [of xs b]
    by (simp add: bignum_buffer_def)
qed

lemma uint_or_128: "uint (b :: byte) < 128 \<Longrightarrow> uint (b OR 0x80) = uint b + 128"
proof -
  assume "uint b < 128"
  then have "int (unat (b OR 0x80)) = int (unat b) + 128" using or_128 [of b] by simp
  then show ?thesis unfolding int_unat_byte .
qed

lemma uint_pos: "(b :: byte) \<noteq> 0 \<Longrightarrow> 0 < uint b"
  using uint_byte_range(1) [of b] by (simp add: order_less_le unsigned_eq_0_iff)

lemma intToBufferSM_spec: "sm_value (intToBufferSM v) = v \<and> sm_minimal (intToBufferSM v)"
proof (cases "v = 0")
  case True
  then show ?thesis by (simp add: intToBufferSM_def sm_value_def sm_minimal_def)
next
  case False
  define n where "n = nat \<bar>v\<bar>"
  have n: "n \<noteq> 0" using False by (simp add: n_def)
  obtain xs b where s: "le_minimal n = xs @ [b]" "b \<noteq> 0"
    "rev (padSign (bignum_buffer n)) = (if 128 \<le> uint b then xs @ [b, 0] else xs @ [b])"
    using intToBufferSM_shape [OF n] by blast
  have val: "int n = int (le_nat xs) + 256 ^ length xs * uint b"
  proof -
    have "n = le_nat (xs @ [b])" using le_nat_le_minimal [of n] unfolding s(1) by simp
    then show ?thesis by (simp add: le_nat_append int_unat_byte)
  qed
  have b: "0 < uint b" using s(2) by (rule uint_pos)
  show ?thesis
  proof (cases "0 < v")
    case pos: True
    then have i: "intToBufferSM v = (if 128 \<le> uint b then xs @ [b, 0] else xs @ [b])"
      using s(3) by (simp add: intToBufferSM_def n_def)
    show ?thesis
    proof (cases "128 \<le> uint b")
      case True
      then have i: "intToBufferSM v = (xs @ [b]) @ [0]" using i by simp
      show ?thesis unfolding i sm_value_snoc
        using True val pos by (simp add: sm_minimal_def nth_append le_nat_append n_def int_unat_byte)
    next
      case f: False
      then have i: "intToBufferSM v = xs @ [b]" using i by simp
      show ?thesis unfolding i sm_value_snoc
        using f val pos b by (simp add: sm_minimal_def n_def)
    qed
  next
    case neg: False
    define c where "c = padSign (bignum_buffer n)"
    have c: "rev c = (if 128 \<le> uint b then xs @ [b, 0] else xs @ [b])" using s(3) by (simp add: c_def)
    have i: "intToBufferSM v = rev (c[0 := c ! 0 OR 0x80])"
      using neg False by (simp add: intToBufferSM_def n_def c_def Let_def)
    show ?thesis
    proof (cases "128 \<le> uint b")
      case True
      then have "c = 0 # b # rev xs" using c by (metis rev_rev_ident rev_append rev.simps append.simps)
      then have i: "intToBufferSM v = (xs @ [b]) @ [0x80]" using i by simp
      show ?thesis unfolding i sm_value_snoc
        using True val neg by (simp add: sm_minimal_def nth_append le_nat_append n_def int_unat_byte)
    next
      case f: False
      then have "rev c = xs @ [b]" using c by simp
      then have "c = b # rev xs" by (metis rev_rev_ident rev_append rev.simps append.simps)
      then have i: "intToBufferSM v = xs @ [b OR 0x80]" using i by simp
      have m: "(uint b + 128) mod 128 = uint b" using f by simp
      have u: "uint (b OR 0x80) = uint b + 128" using f by (intro uint_or_128) simp
      show ?thesis unfolding i sm_value_snoc u m
        using f val neg b by (simp add: sm_minimal_def u m n_def)
    qed
  qed
qed

text \<open>A number has one minimal representation.\<close>

lemma sm_minimal_unique:
  assumes "sm_minimal a" "sm_minimal b" "sm_value a = sm_value b"
  shows "a = b"
proof -
  have size: "length x = length y"
    if m: "sm_minimal x" "sm_minimal y" and v: "sm_value x = sm_value y" and le: "length x \<le> length y" for x y
  proof (rule ccontr)
    assume "length x \<noteq> length y"
    then have lt: "length x < length y" using le by simp
    then have y: "y \<noteq> []" by auto
    have lo: "(if length y = 1 then 1 else 2 ^ (8 * (length y - 1) - 1)) \<le> \<bar>sm_value y\<bar>"
      using sm_minimal_iff [OF y] m(2) by simp
    show False
    proof (cases "x = []")
      case True
      have "(1 :: int) \<le> 2 ^ (8 * (length y - 1) - 1)" by simp
      then have "1 \<le> \<bar>sm_value y\<bar>" using lo by (smt (verit))
      then show False using v True by (simp add: sm_value_def)
    next
      case False
      have "(2 :: int) ^ (8 * length x - 1) \<le> 2 ^ (8 * (length y - 1) - 1)"
        using lt by (intro power_increasing) simp_all
      moreover have "length y \<noteq> 1" using lt False by (cases x) auto
      ultimately show False using lo sm_value_bound [OF False] unfolding v by (simp only: if_False)
    qed
  qed
  have len: "length a = length b"
    using size [OF assms] size [OF assms(2,1) assms(3) [symmetric]] by (metis nat_le_linear)
  show ?thesis
  proof (cases a rule: rev_cases)
    case Nil
    then show ?thesis using len by simp
  next
    case a: (snoc xs x)
    then obtain ys y where b: "b = ys @ [y]" using len by (cases b rule: rev_cases) auto
    have ne: "a \<noteq> []" using a by simp
    define m n where "m = int (le_nat xs) + 256 ^ length xs * (uint x mod 128)"
      and "n = int (le_nat ys) + 256 ^ length ys * (uint y mod 128)"
    have v: "sm_value a = (if uint x < 128 then 1 else -1) * m" "sm_value b = (if uint y < 128 then 1 else -1) * n"
      unfolding a b m_def n_def by (rule sm_value_snoc)+
    have "1 \<le> \<bar>sm_value a\<bar>"
      using sm_minimal_iff [OF ne] assms(1) by (smt (verit) one_le_power)
    moreover have "0 \<le> m" "0 \<le> n" by (simp_all add: m_def n_def)
    ultimately have sg: "uint x < 128 \<longleftrightarrow> uint y < 128"
      using v assms(3) by (cases "uint x < 128"; cases "uint y < 128") simp_all
    have top: "int (le_nat c) < 2 ^ (8 * length c - 1) \<longleftrightarrow> uint (last c) < 128" if "c \<noteq> []" for c
      using last_top_bit [OF that] by simp
    have "int (le_nat a) = int (le_nat b)"
      using assms(3) sg len top [of a] top [of b] a b by (simp add: sm_value_def Let_def split: if_splits)
    then show ?thesis using len by (intro le_nat_inj) simp_all
  qed
qed

lemma intToBufferSM_length:
  assumes "\<bar>v\<bar> < 2 ^ (8 * k - 1)" "0 < k"
  shows "length (intToBufferSM v) \<le> k"
proof (rule ccontr)
  let ?b = "intToBufferSM v"
  assume "\<not> length ?b \<le> k"
  then have k: "k \<le> length ?b - 1" "?b \<noteq> []" "length ?b \<noteq> 1" using assms(2) by auto
  then have "2 ^ (8 * (length ?b - 1) - 1) \<le> \<bar>v\<bar>"
    using sm_minimal_iff [OF k(2)] intToBufferSM_spec [of v] by simp
  moreover have "(2 :: int) ^ (8 * k - 1) \<le> 2 ^ (8 * (length ?b - 1) - 1)"
    using k(1) by (intro power_increasing) simp_all
  ultimately show False using assms(1) by linarith
qed

lemma intToBufferSM_sn_encode: "\<bar>v\<bar> < 2 ^ 32 \<Longrightarrow> intToBufferSM v = sn_encode v"
  using intToBufferSM_spec [of v] encode_exact [of v] encode_minimal [of v]
  by (intro sm_minimal_unique) simp_all

lemma bufferSMToInt_intToBufferSM: "\<bar>v\<bar> < 2 ^ 31 \<Longrightarrow> bufferSMToInt (intToBufferSM v) = Inr v"
  using intToBufferSM_length [of v 4] intToBufferSM_spec [of v] by (simp add: bufferSMToInt_value)

section \<open>Properties\<close>

text \<open>bitcore's numbers: \<open>intToBufferSM\<close> writes the minimal sign-and-magnitude form of every
  integer, however large; \<open>bufferSMToInt\<close> reads back those of 31 bits, and it accepts the same
  buffers with the same value as bitcoinjs-lib's \<open>decode\<close> with the minimality check off. Below 2^32
  the two libraries encode alike.\<close>

theorem bitcore_numbers_agree:
  "sm_value (intToBufferSM v) = v \<and> sm_minimal (intToBufferSM v) \<and>
   (\<bar>v\<bar> < 2 ^ 31 \<longrightarrow> bufferSMToInt (intToBufferSM v) = Inr v) \<and>
   (\<bar>v\<bar> < 2 ^ 32 \<longrightarrow> intToBufferSM v = sn_encode v) \<and>
   (bufferSMToInt bs = Inr n \<longleftrightarrow> sn_decode bs None (Some False) = Inr n)"
proof -
  have "bufferSMToInt bs = Inr n \<longleftrightarrow> sn_decode bs None (Some False) = Inr n"
  proof (cases "length bs \<le> 4")
    case True
    then show ?thesis
      using sn_decode_eq [of bs None "Some False"]
      by (cases "bs = []") (auto simp: bufferSMToInt_value sn_limit_def sn_decode_def sm_value_def)
  next
    case False
    then have "bs \<noteq> []" "4 < length bs" by auto
    then show ?thesis by (simp add: bufferSMToInt_value sn_decode_def Let_def)
  qed
  then show ?thesis
    using intToBufferSM_spec [of v] intToBufferSM_sn_encode [of v] bufferSMToInt_intToBufferSM [of v] by blast
qed

theorem bitcore_numbers_agree_witness:
  "bufferSMToInt (intToBufferSM (- 255)) = Inr (- 255) \<and> intToBufferSM (- 255) = sn_encode (- 255)"
proof -
  have "\<bar>- 255 :: int\<bar> < 2 ^ 31" "\<bar>- 255 :: int\<bar> < 2 ^ 32" by simp_all
  then show ?thesis using bitcore_numbers_agree [of "- 255" "[]" 0] by blast
qed

end
