(* ===== verification/Bc_Base58.thy ===== *)
theory Bc_Base58
  imports Radix Bc_Number Hex
begin

text \<open>
  \<open>bitcore/lib/Base58.js\<close>: Base58 and Base58Check. The encoder writes from the end of a buffer that
  all calls share; that buffer is an argument and comes back as the call leaves it. The big number
  package is not in the sources: \<open>add_undefined n\<close> is what its \<open>add\<close> does to \<open>n\<close> when the alphabet
  has no value for a character, and what the properties rely on is that it throws then. SHA-256 is
  Node's.
\<close>

section \<open>The alphabet\<close>

definition ALPHABET :: string where
  "ALPHABET = ''123456789ABCDEFGHJKLMNPQRSTUVWXYZabcdefghijkmnopqrstuvwxyz''"

definition ALPHABET_BUF :: buffer where
  "ALPHABET_BUF = map (\<lambda>c. word_of_nat (of_char c)) ALPHABET"

definition ALPHABET_INV :: "char \<Rightarrow> nat option" where
  "ALPHABET_INV = map_of (zip ALPHABET [0..<length ALPHABET])"

section \<open>Encoding\<close>

text \<open>\<open>str[i] = b\<close> of a buffer, with no effect out of range; \<open>str.slice(i, str.length)\<close>, where a
  negative \<open>i\<close> counts from the end; and \<open>toString('ascii')\<close>, which drops the top bit.\<close>

definition put_at :: "int \<Rightarrow> byte \<Rightarrow> buffer \<Rightarrow> buffer" where
  "put_at i b str = (if 0 \<le> i then str[nat i := b] else str)"

definition slice_from :: "int \<Rightarrow> buffer \<Rightarrow> buffer" where
  "slice_from i str = drop (nat (if i < 0 then int (length str) + i else i)) str"

definition ascii_string :: "buffer \<Rightarrow> string" where
  "ascii_string = map (\<lambda>b. char_of (unat b mod 128))"

function put_digits :: "nat \<Rightarrow> int \<Rightarrow> buffer \<Rightarrow> int \<times> buffer" where
  "put_digits x i str =
     (if x > 0 then put_digits (x div 58) (i - 1) (put_at i (ALPHABET_BUF ! (x mod 58)) str) else (i, str))"
  by pat_completeness auto

termination by (relation "measure fst") auto

declare put_digits.simps [simp del]

fun put_zeros :: "buffer \<Rightarrow> int \<Rightarrow> buffer \<Rightarrow> int \<times> buffer" where
  "put_zeros (b # bs) i str =
     (if b = 0 then put_zeros bs (i - 1) (put_at i (ALPHABET_BUF ! 0) str) else (i, str))"
| "put_zeros [] i str = (i, str)"

definition base58_encode :: "buffer \<Rightarrow> buffer \<Rightarrow> string \<times> buffer" where
  "base58_encode globalBuffer buf =
     (let x = be_nat buf;
          str = (if length buf < 512 then globalBuffer else new_buffer (2 * length buf));
          i = int (length str) - 1;
          (i, str) = put_digits x i str;
          (i, str) = put_zeros buf i str
      in (ascii_string (slice_from (i + 1) str), if length buf < 512 then str else globalBuffer))"

section \<open>Decoding\<close>

definition add_digit :: "(nat \<Rightarrow> nat res) \<Rightarrow> char \<Rightarrow> nat \<Rightarrow> nat res" where
  "add_digit add_undefined c answer =
     (case ALPHABET_INV c of Some d \<Rightarrow> Inr (answer * 58 + d) | None \<Rightarrow> add_undefined (answer * 58))"

definition ones_count :: "string \<Rightarrow> nat" where
  "ones_count str = length (takeWhile (\<lambda>c. c = ALPHABET ! 0) str)"

definition base58_decode :: "(nat \<Rightarrow> nat res) \<Rightarrow> string \<Rightarrow> buffer res" where
  "base58_decode add_undefined str =
     (if length str = 0 then Inr []
      else rbind (rfold (add_digit add_undefined) str 0) (\<lambda>answer.
        let i = ones_count str in
        if i > 0 then
          (if i = length str then Inr (replicate i 0)
           else Inr (replicate i 0 @ bignum_buffer answer))
        else Inr (bignum_buffer answer)))"

section \<open>Base58Check\<close>

definition doubleSHA256 :: "(buffer \<Rightarrow> buffer) \<Rightarrow> buffer \<Rightarrow> buffer" where
  "doubleSHA256 sha256 data = sha256 (sha256 data)"

definition base58check_encode :: "(buffer \<Rightarrow> buffer) \<Rightarrow> buffer \<Rightarrow> buffer \<Rightarrow> string \<times> buffer" where
  "base58check_encode sha256 globalBuffer buf =
     (let checkedBuf = new_buffer (length buf + 4);
          hash = doubleSHA256 sha256 buf;
          checkedBuf = buf_copy buf checkedBuf 0;
          checkedBuf = buf_copy hash checkedBuf (length buf)
      in base58_encode globalBuffer checkedBuf)"

definition base58check_decode :: "(nat \<Rightarrow> nat res) \<Rightarrow> (buffer \<Rightarrow> buffer) \<Rightarrow> string \<Rightarrow> buffer res" where
  "base58check_decode add_undefined sha256 s =
     rbind (base58_decode add_undefined s) (\<lambda>buf.
       if length buf < 4 then Inl (JsError ''invalid input: too short'')
       else let data = take (length buf - 4) buf;
                csum = drop (length buf - 4) buf;
                hash4 = slice (doubleSHA256 sha256 data) 0 4
            in if to_hex csum \<noteq> to_hex hash4 then Inl (JsError ''checksum mismatch'') else Inr data)"


section \<open>The alphabet as digits\<close>

interpretation b58: radix_pair 256 58 by unfold_locales simp_all

interpretation b256: radix_pair 58 256 by unfold_locales simp_all

lemma ALPHABET_length [simp]: "length ALPHABET = 58"
  by (simp add: ALPHABET_def)

lemma ALPHABET_distinct: "distinct ALPHABET"
  by (simp add: ALPHABET_def)

lemma ALPHABET_ascii: "d < 58 \<Longrightarrow> char_of (of_char (ALPHABET ! d) mod 128 :: nat) = ALPHABET ! d"
proof -
  have "\<forall>c \<in> set ALPHABET. (of_char c :: nat) < 128" by (simp add: ALPHABET_def)
  then show "d < 58 \<Longrightarrow> ?thesis" by simp
qed

lemma ALPHABET_BUF_ascii: "d < 58 \<Longrightarrow> char_of (unat (ALPHABET_BUF ! d) mod 128) = ALPHABET ! d"
proof -
  assume d: "d < 58"
  have "unat (ALPHABET_BUF ! d) = of_char (ALPHABET ! d)" using d by (simp add: ALPHABET_BUF_def)
  then show ?thesis using ALPHABET_ascii [OF d] by simp
qed

lemma ALPHABET_INV_iff: "ALPHABET_INV c = Some d \<longleftrightarrow> d < 58 \<and> ALPHABET ! d = c"
proof
  assume "ALPHABET_INV c = Some d"
  then have "(c, d) \<in> set (zip ALPHABET [0..<length ALPHABET])"
    unfolding ALPHABET_INV_def by (rule map_of_SomeD)
  then show "d < 58 \<and> ALPHABET ! d = c" by (auto simp: set_zip)
next
  assume d: "d < 58 \<and> ALPHABET ! d = c"
  have "map_of (zip ALPHABET [0..<length ALPHABET]) (ALPHABET ! d) = Some ([0..<length ALPHABET] ! d)"
    using d by (intro map_of_zip_nth ALPHABET_distinct) simp_all
  then show "ALPHABET_INV c = Some d" using d by (simp add: ALPHABET_INV_def)
qed

lemma ALPHABET_zero_iff: "d < 58 \<Longrightarrow> ALPHABET ! d = ALPHABET ! 0 \<longleftrightarrow> d = 0"
  using ALPHABET_distinct by (simp add: nth_eq_iff_index_eq)

lemma le_nat_radix: "le_nat bs = radix_value 256 (map unat bs)"
  by (induction bs) simp_all

lemma be_nat_radix: "be_nat bs = radix_value 256 (rev (map unat bs))"
  by (simp add: be_nat_def le_nat_radix rev_map)

lemma le_minimal_radix: "le_minimal n = map word_of_nat (radix_digits 256 n)"
proof (induction n rule: le_minimal.induct)
  case (1 n)
  then show ?case
    by (cases "n = 0") (simp_all add: le_minimal.simps [of n] radix_digits.simps [of 256 n] le_minimal.simps [of 0])
qed

lemma bignum_buffer_radix: "bignum_buffer n = map word_of_nat (rev (radix_digits 256 n))"
  by (simp add: bignum_buffer_def le_minimal_radix rev_map)

section \<open>What the encoder writes\<close>

text \<open>Both loops write downwards: one more character stands before what is there already.\<close>

lemma put_at_drop:
  assumes "0 \<le> i" "i < int (length str)"
  shows "drop (nat i) (put_at i b str) = b # drop (nat (i + 1)) str"
    and "length (put_at i b str) = length str"
proof -
  have "nat i < length (str[nat i := b])" using assms by simp
  from Cons_nth_drop_Suc [OF this, symmetric]
  show "drop (nat i) (put_at i b str) = b # drop (nat (i + 1)) str"
    using assms by (simp add: put_at_def nat_add_distrib)
qed (simp add: put_at_def)

lemma put_digits_text:
  assumes "int (length (radix_digits 58 x)) \<le> i + 1" "i < int (length str)"
  shows "\<exists>str'. put_digits x i str = (i - int (length (radix_digits 58 x)), str') \<and> length str' = length str \<and>
           drop (nat (i + 1 - int (length (radix_digits 58 x)))) str' =
           rev (map ((!) ALPHABET_BUF) (radix_digits 58 x)) @ drop (nat (i + 1)) str"
  using assms
proof (induction x i str rule: put_digits.induct)
  case (1 x i str)
  show ?case
  proof (cases "x = 0")
    case True
    then show ?thesis by (simp add: put_digits.simps [of 0])
  next
    case False
    let ?ds = "radix_digits 58 (x div 58)" and ?s = "put_at i (ALPHABET_BUF ! (x mod 58)) str"
    have ds: "radix_digits 58 x = x mod 58 # ?ds" using False by (simp add: radix_digits.simps [of 58 x])
    have i: "0 \<le> i" using 1(2) unfolding ds by simp
    note w = put_at_drop [OF i 1(3), of "ALPHABET_BUF ! (x mod 58)"]
    have "\<exists>str'. put_digits (x div 58) (i - 1) ?s = (i - 1 - int (length ?ds), str') \<and> length str' = length ?s \<and>
           drop (nat (i - 1 + 1 - int (length ?ds))) str' =
           rev (map ((!) ALPHABET_BUF) ?ds) @ drop (nat (i - 1 + 1)) ?s"
      using False 1(2,3) unfolding ds by (intro 1(1)) (simp_all add: w(2))
    then obtain str' where "put_digits (x div 58) (i - 1) ?s = (i - 1 - int (length ?ds), str')"
      "length str' = length str"
      "drop (nat (i - int (length ?ds))) str' = rev (map ((!) ALPHABET_BUF) ?ds) @ drop (nat i) ?s"
      using w(2) by auto
    then show ?thesis using False w(1) unfolding ds
      by (simp add: put_digits.simps [of x] algebra_simps)
  qed
qed

lemma put_zeros_text:
  assumes "int (leading_zeros (map unat buf)) \<le> i + 1" "i < int (length str)"
  shows "\<exists>str'. put_zeros buf i str = (i - int (leading_zeros (map unat buf)), str') \<and> length str' = length str \<and>
           drop (nat (i + 1 - int (leading_zeros (map unat buf)))) str' =
           replicate (leading_zeros (map unat buf)) (ALPHABET_BUF ! 0) @ drop (nat (i + 1)) str"
  using assms
proof (induction buf arbitrary: i str)
  case Nil
  then show ?case by (simp add: leading_zeros_def)
next
  case (Cons b bs)
  show ?case
  proof (cases "b = 0")
    case False
    then show ?thesis by (simp add: leading_zeros_def unat_eq_0)
  next
    case True
    let ?z = "leading_zeros (map unat bs)" and ?s = "put_at i (ALPHABET_BUF ! 0) str"
    have z: "leading_zeros (map unat (b # bs)) = Suc ?z" using True by (simp add: leading_zeros_def)
    have i: "0 \<le> i" using Cons.prems(1) unfolding z by simp
    note w = put_at_drop [OF i Cons.prems(2), of "ALPHABET_BUF ! 0"]
    have "\<exists>str'. put_zeros bs (i - 1) ?s = (i - 1 - int ?z, str') \<and> length str' = length ?s \<and>
           drop (nat (i - 1 + 1 - int ?z)) str' = replicate ?z (ALPHABET_BUF ! 0) @ drop (nat (i - 1 + 1)) ?s"
      using Cons.prems unfolding z by (intro Cons.IH) (simp_all add: w(2))
    then obtain str' where "put_zeros bs (i - 1) ?s = (i - 1 - int ?z, str')" "length str' = length str"
      "drop (nat (i - int ?z)) str' = replicate ?z (ALPHABET_BUF ! 0) @ drop (nat i) ?s"
      using w(2) by auto
    then show ?thesis using True w(1) unfolding z
      by (simp add: algebra_simps replicate_app_Cons_same flip: replicate_Suc)
  qed
qed


lemma byte_digits: "set (map unat (buf :: buffer)) \<subseteq> {..<256}"
  by auto

lemma rebase_58_length: "length (rebase 256 58 (map unat (buf :: buffer))) \<le> 2 * length buf"
  using b58.rebase_length [of 2 "map unat buf"] byte_digits [of buf] by simp

definition room :: "buffer \<Rightarrow> buffer \<Rightarrow> bool" where
  "room globalBuffer buf \<longleftrightarrow> (length buf < 512 \<longrightarrow> 2 * length buf \<le> length globalBuffer)"

lemma room_1024: "1024 \<le> length gb \<Longrightarrow> room gb buf"
  by (simp add: room_def)

lemma base58_encode_text:
  assumes "room gb buf"
  shows "fst (base58_encode gb buf) = map ((!) ALPHABET) (rebase 256 58 (map unat buf))"
proof -
  define str where "str = (if length buf < 512 then gb else new_buffer (2 * length buf))"
  define L where "L = int (length str)"
  let ?ds = "radix_digits 58 (be_nat buf)" and ?z = "leading_zeros (map unat buf)"
  define txt_digits where "txt_digits = rebase 256 58 (map unat buf)"
  have txt_digits: "txt_digits = replicate ?z 0 @ rev ?ds" by (simp add: txt_digits_def rebase_def be_nat_radix)
  have "2 * length buf \<le> length str" using assms by (simp add: str_def room_def)
  then have "length txt_digits \<le> length str" using rebase_58_length [of buf] unfolding txt_digits_def by linarith
  then have len: "int (length ?ds) + int ?z \<le> L" unfolding txt_digits L_def by simp
  obtain s1 where s1: "put_digits (be_nat buf) (L - 1) str = (L - 1 - int (length ?ds), s1)"
    "length s1 = length str" "drop (nat (L - int (length ?ds))) s1 = rev (map ((!) ALPHABET_BUF) ?ds)"
    using put_digits_text [of "be_nat buf" "L - 1" str] len by (auto simp: L_def)
  obtain s2 where s2: "put_zeros buf (L - 1 - int (length ?ds)) s1 = (L - 1 - int (length ?ds) - int ?z, s2)"
    "length s2 = length str"
    "drop (nat (L - int (length ?ds) - int ?z)) s2 =
     replicate ?z (ALPHABET_BUF ! 0) @ drop (nat (L - int (length ?ds))) s1"
    using put_zeros_text [of buf "L - 1 - int (length ?ds)" s1] len s1(2) by (auto simp: L_def)
  have "drop (nat (L - int (length ?ds) - int ?z)) s2 = map ((!) ALPHABET_BUF) txt_digits"
    unfolding s2(3) s1(3) txt_digits by (simp add: rev_map)
  then have "slice_from (L - 1 - int (length ?ds) - int ?z + 1) s2 = map ((!) ALPHABET_BUF) txt_digits"
    using len by (simp add: slice_from_def algebra_simps)
  moreover have "ascii_string (map ((!) ALPHABET_BUF) txt_digits) = map ((!) ALPHABET) txt_digits"
    using b58.rebase_lt [of "map unat buf"] unfolding txt_digits_def
    by (auto simp: ascii_string_def intro!: ALPHABET_BUF_ascii)
  moreover have "fst (base58_encode gb buf) =
      ascii_string (slice_from (L - 1 - int (length ?ds) - int ?z + 1) s2)"
    using s1(1) s2(1) unfolding base58_encode_def str_def [symmetric] Let_def L_def [symmetric] by simp
  ultimately show ?thesis by (simp add: txt_digits_def)
qed

section \<open>What the decoder reads\<close>

definition symbols :: "string \<Rightarrow> bool" where
  "symbols s \<longleftrightarrow> set s \<subseteq> set ALPHABET"

definition digits_of :: "string \<Rightarrow> nat list" where
  "digits_of s = map (\<lambda>c. the (ALPHABET_INV c)) s"

lemma symbol_digit: "c \<in> set ALPHABET \<Longrightarrow> \<exists>d < 58. ALPHABET_INV c = Some d \<and> ALPHABET ! d = c"
  using ALPHABET_INV_iff by (auto simp: in_set_conv_nth)

lemma symbol_text: "set ds \<subseteq> {..<58} \<Longrightarrow> symbols (map ((!) ALPHABET) ds)"
  by (auto simp: symbols_def)

lemma digits_of_text: "set ds \<subseteq> {..<58} \<Longrightarrow> digits_of (map ((!) ALPHABET) ds) = ds"
proof (induction ds)
  case (Cons d ds)
  moreover have "ALPHABET_INV (ALPHABET ! d) = Some d" using Cons.prems by (simp add: ALPHABET_INV_iff)
  ultimately show ?case by (simp add: digits_of_def)
qed (simp add: digits_of_def)

lemma digits_of_lt: "symbols s \<Longrightarrow> set (digits_of s) \<subseteq> {..<58}"
  using symbol_digit by (fastforce simp: symbols_def digits_of_def)

lemma text_of_digits: "symbols s \<Longrightarrow> map ((!) ALPHABET) (digits_of s) = s"
  using symbol_digit by (induction s) (fastforce simp: symbols_def digits_of_def)+

lemma rfold_add_digit:
  "symbols s \<Longrightarrow> rfold (add_digit au) s n = Inr (n * 58 ^ length s + radix_value 58 (rev (digits_of s)))"
proof (induction s arbitrary: n)
  case (Cons c s)
  then obtain d where d: "ALPHABET_INV c = Some d" using symbol_digit [of c] by (auto simp: symbols_def)
  have "symbols s" using Cons.prems by (simp add: symbols_def)
  then show ?case using Cons.IH [of "n * 58 + d"] d
    by (simp add: add_digit_def digits_of_def radix_value_append algebra_simps)
qed (simp add: digits_of_def)

lemma rfold_add_digit_fails:
  assumes "\<And>n. isl (au n)" "\<not> symbols s"
  shows "isl (rfold (add_digit au) s n)"
  using assms(2)
proof (induction s arbitrary: n)
  case (Cons c s)
  show ?case
  proof (cases "c \<in> set ALPHABET")
    case True
    then obtain d where d: "ALPHABET_INV c = Some d" using symbol_digit by blast
    have "\<not> symbols s" using True Cons.prems by (simp add: symbols_def)
    then show ?thesis using Cons.IH d by (simp add: add_digit_def)
  next
    case False
    then have "ALPHABET_INV c = None"
      using ALPHABET_INV_iff [of c] by (cases "ALPHABET_INV c") (auto simp: in_set_conv_nth)
    then show ?thesis using assms(1) [of "n * 58"] by (auto simp: add_digit_def isl_def)
  qed
qed (simp add: symbols_def)

lemma ones_count_digits: "symbols s \<Longrightarrow> ones_count s = leading_zeros (digits_of s)"
proof (induction s)
  case (Cons c s)
  then obtain d where d: "ALPHABET_INV c = Some d" "d < 58" "ALPHABET ! d = c"
    using symbol_digit [of c] by (auto simp: symbols_def)
  have "c = ALPHABET ! 0 \<longleftrightarrow> d = 0" using ALPHABET_zero_iff d by metis
  moreover have "symbols s" using Cons.prems by (simp add: symbols_def)
  ultimately show ?case using Cons.IH d(1)
    by (simp add: ones_count_def leading_zeros_def digits_of_def)
qed (simp add: ones_count_def leading_zeros_def digits_of_def)

lemma base58_decode_bytes:
  assumes "symbols s"
  shows "base58_decode au s = Inr (map word_of_nat (rebase 58 256 (digits_of s)))"
proof (cases "s = []")
  case True
  then show ?thesis by (simp add: base58_decode_def digits_of_def rebase_def leading_zeros_def)
next
  case False
  let ?v = "radix_value 58 (rev (digits_of s))"
  have z: "ones_count s = leading_zeros (digits_of s)" by (rule ones_count_digits [OF assms])
  have all: "?v = 0" if "leading_zeros (digits_of s) = length s"
  proof -
    have "length (digits_of s) = length s" by (simp add: digits_of_def)
    then have "dropWhile (\<lambda>d. d = 0) (digits_of s) = []"
      using leading_zeros_split [of "digits_of s"] that
      by (metis length_replicate add_cancel_right_right length_append length_0_conv)
    then have "digits_of s = replicate (length s) 0"
      using leading_zeros_split [of "digits_of s"] that by (metis append_Nil2)
    then show ?thesis by (metis radix_value_zeros rev_replicate)
  qed
  have "map word_of_nat (rebase 58 256 (digits_of s)) =
      replicate (leading_zeros (digits_of s)) 0 @ bignum_buffer ?v"
    by (simp add: rebase_def bignum_buffer_radix)
  then show ?thesis
    using False rfold_add_digit [OF assms, of au 0] all
    by (auto simp: base58_decode_def z Let_def bignum_buffer_radix)
qed

lemma base58_decode_symbols:
  assumes "\<And>n. isl (au n)" "base58_decode au s = Inr b"
  shows "symbols s"
proof (rule ccontr)
  assume "\<not> symbols s"
  moreover from this have "s \<noteq> []" by (auto simp: symbols_def)
  moreover have "isl (rfold (add_digit au) s 0)"
    by (rule rfold_add_digit_fails) (use assms(1) \<open>\<not> symbols s\<close> in auto)
  ultimately show False using assms(2) by (auto simp: base58_decode_def isl_def)
qed

lemma base58_decode_encode: "room gb b \<Longrightarrow> base58_decode au (fst (base58_encode gb b)) = Inr b"
proof -
  assume "room gb b"
  let ?ds = "rebase 256 58 (map unat b)"
  have lt: "set ?ds \<subseteq> {..<58}" by (rule b58.rebase_lt)
  have "base58_decode au (fst (base58_encode gb b)) = Inr (map word_of_nat (rebase 58 256 ?ds))"
    using base58_decode_bytes [OF symbol_text [OF lt], of au] digits_of_text [OF lt]
      base58_encode_text [OF \<open>room gb b\<close>] by simp
  also have "rebase 58 256 ?ds = map unat b" by (rule b58.rebase_inverse [OF byte_digits])
  finally show ?thesis by (simp add: comp_def map_idI)
qed

lemma base58_encode_decode:
  assumes "\<And>n. isl (au n)" "base58_decode au s = Inr b" "room gb b"
  shows "fst (base58_encode gb b) = s"
proof -
  have s: "symbols s" by (rule base58_decode_symbols [OF assms(1,2)])
  let ?ds = "rebase 58 256 (digits_of s)"
  have b: "b = map word_of_nat ?ds" using base58_decode_bytes [OF s, of au] assms(2) by simp
  have "map unat b = ?ds"
    using b256.rebase_lt [of "digits_of s"] unfolding b by (auto intro!: map_idI)
  then have "fst (base58_encode gb b) = map ((!) ALPHABET) (rebase 256 58 ?ds)"
    using base58_encode_text [OF assms(3)] by simp
  also have "rebase 256 58 ?ds = digits_of s" by (rule b256.rebase_inverse [OF digits_of_lt [OF s]])
  finally show ?thesis by (simp add: text_of_digits [OF s])
qed


lemma base58_exact_codec:
  assumes "\<And>n. isl (au n)" "1024 \<le> length gb"
  shows "base58_decode au s = Inr b \<longleftrightarrow> fst (base58_encode gb b) = s"
proof
  assume "base58_decode au s = Inr b"
  then show "fst (base58_encode gb b) = s" by (rule base58_encode_decode [rotated]) (use assms room_1024 in auto)
next
  assume "fst (base58_encode gb b) = s"
  then show "base58_decode au s = Inr b" using base58_decode_encode [OF room_1024 [OF assms(2)], of au b] by simp
qed

lemma length_put_at [simp]: "length (put_at i b str) = length str"
  by (simp add: put_at_def)

lemma length_put_digits: "length (snd (put_digits x i str)) = length str"
proof (induction x i str rule: put_digits.induct)
  case (1 x i str)
  then show ?case by (cases "x = 0") (simp_all add: put_digits.simps [of x] put_digits.simps [of 0])
qed

lemma length_put_zeros: "length (snd (put_zeros buf i str)) = length str"
  by (induction buf i str rule: put_zeros.induct) simp_all

lemma base58_encode_buffer: "length (snd (base58_encode gb buf)) = length gb"
proof -
  have "length (snd (put_zeros buf (fst p) (snd p))) = length gb" if "p = put_digits x i gb" for p x i
    using length_put_zeros [of buf "fst p" "snd p"] length_put_digits [of x i gb] that by simp
  then show ?thesis by (simp add: base58_encode_def Let_def case_prod_beta)
qed

section \<open>Base58Check\<close>

lemma base58check_encode_sum:
  assumes "\<And>x. length (sha256 x) = 32"
  shows "base58check_encode sha256 gb buf = base58_encode gb (buf @ take 4 (doubleSHA256 sha256 buf))"
proof -
  have "buf_copy buf (new_buffer (length buf + 4)) 0 = buf @ new_buffer 4"
    using buf_copy_fill [of buf "new_buffer (length buf + 4)" "[]"] by (simp add: new_buffer_def)
  moreover have "buf_copy (doubleSHA256 sha256 buf) (buf @ new_buffer 4) (length buf) =
      buf @ take 4 (doubleSHA256 sha256 buf)"
    using assms by (simp add: buf_copy_def write_at_def doubleSHA256_def)
  ultimately show ?thesis by (simp add: base58check_encode_def)
qed

lemma to_hex_eq_iff [simp]: "to_hex a = to_hex b \<longleftrightarrow> a = b"
  by (metis hex_pairs_to_hex)

lemma base58check_decode_iff:
  assumes "\<And>x. length (sha256 x) = 32"
  shows "base58check_decode au sha256 s = Inr d \<longleftrightarrow>
    base58_decode au s = Inr (d @ take 4 (doubleSHA256 sha256 d))"
proof -
  have len: "length (take 4 (doubleSHA256 sha256 x)) = 4" for x using assms by (simp add: doubleSHA256_def)
  have "(\<not> length b < 4 \<and> drop (length b - 4) b = take 4 (doubleSHA256 sha256 (take (length b - 4) b)) \<and>
      take (length b - 4) b = d) \<longleftrightarrow> b = d @ take 4 (doubleSHA256 sha256 d)" for b
  proof
    assume "b = d @ take 4 (doubleSHA256 sha256 d)"
    then show "\<not> length b < 4 \<and> drop (length b - 4) b = take 4 (doubleSHA256 sha256 (take (length b - 4) b)) \<and>
      take (length b - 4) b = d" using len [of d] by simp
  qed (metis append_take_drop_id)
  then show ?thesis
    by (cases "base58_decode au s") (auto simp: base58check_decode_def slice_def Let_def)
qed

lemma base58check_inverse:
  assumes "\<And>n. isl (au n)" "\<And>x. length (sha256 x) = 32" "1024 \<le> length gb"
  shows "base58check_decode au sha256 s = Inr d \<longleftrightarrow> fst (base58check_encode sha256 gb d) = s"
  using base58_exact_codec [OF assms(1,3)]
  unfolding base58check_decode_iff [OF assms(2)] base58check_encode_sum [OF assms(2)] .

section \<open>Properties\<close>

text \<open>C17: Base58 and Base58Check lose nothing and accept nothing else. As long as the shared buffer
  has the 1024 bytes it starts with - and a call leaves its length alone - a text decodes to given
  bytes exactly if those bytes encode to that text, leading zeros and ones, foreign characters,
  wrong checksums and texts that are too short included.\<close>

theorem base58_exact:
  assumes "\<And>n. isl (au n)" "\<And>x. length (sha256 x) = 32" "1024 \<le> length gb"
  shows "(base58_decode au s = Inr b \<longleftrightarrow> fst (base58_encode gb b) = s) \<and>
         (base58check_decode au sha256 s = Inr b \<longleftrightarrow> fst (base58check_encode sha256 gb b) = s) \<and>
         length (snd (base58_encode gb b)) = length gb \<and>
         length (snd (base58check_encode sha256 gb b)) = length gb"
  using base58_exact_codec [OF assms(1,3)] base58check_inverse [OF assms]
  by (simp add: base58check_encode_sum [OF assms(2)] base58_encode_buffer)

definition no_digit :: "nat \<Rightarrow> nat res" where
  "no_digit n = Inl (JsTypeError ''Cannot read property of undefined'')"

definition b58_hash :: "buffer \<Rightarrow> buffer" where
  "b58_hash b = le_bytes 32 (le_nat b)"

lemma b58_samples: "isl (no_digit n)" "length (b58_hash b) = 32"
  by (simp_all add: no_digit_def b58_hash_def)

theorem base58_exact_witness:
  "base58_decode no_digit ''112g'' = Inr [0, 0, 0x61] \<and>
   fst (base58_encode (new_buffer 1024) [0, 0, 0x61]) = ''112g''"
proof -
  have d: "base58_decode no_digit ''112g'' = Inr [0, 0, 0x61]" by code_simp
  then show ?thesis
    using base58_exact [of no_digit b58_hash "new_buffer 1024" "''112g''" "[0, 0, 0x61]"] b58_samples by simp
qed

end
