(* ===== verification/Bc_Script.thy ===== *)
theory Bc_Script
  imports Complex_Main Bc_Number Tx
begin

text \<open>
  \<open>bitcore/lib/Script.js\<close>: bitcore's scripts. A script keeps its bytes and its chunks; the
  operations change the one and bring the other up to date. The opcode numbers of
  \<open>bitcore/lib/Opcode.js\<close> are those of bitcoinjs-lib, and chunks are shared with theory Bscript.
\<close>

record bc_script =
  bs_buffer :: buffer
  bs_chunks :: "chunk list"

section \<open>Parsing\<close>

lemma word8_moves [simp]:
  "ps_pos (snd (word8 p)) = ps_pos p + 1" "ps_subject (snd (word8 p)) = ps_subject p"
  by (simp_all add: word8_def getDecoder_def ps_buffer_def)

lemma word16le_moves [simp]:
  "ps_pos (snd (word16le p)) = ps_pos p + 2" "ps_subject (snd (word16le p)) = ps_subject p"
  by (simp_all add: word16le_def getDecoder_def ps_buffer_def)

lemma word32le_moves [simp]:
  "ps_pos (snd (word32le p)) = ps_pos p + 4" "ps_subject (snd (word32le p)) = ps_subject p"
  by (simp_all add: word32le_def getDecoder_def ps_buffer_def)

lemma ps_buffer_moves [simp]:
  "ps_pos (snd (ps_buffer n p)) = ps_pos p + n" "ps_subject (snd (ps_buffer n p)) = ps_subject p"
  by (simp_all add: ps_buffer_def)

text \<open>One round of the loop: the chunk that is read and the parser after it.\<close>

definition parse_chunk :: "parser \<Rightarrow> chunk \<times> parser" where
  "parse_chunk p =
     (let (opcode, p) = word8 p
      in if opcode > 0 \<and> opcode < 76 then map_prod Data id (ps_buffer opcode p)
         else if opcode = 76 then (let (len, p) = word8 p in map_prod Data id (ps_buffer len p))
         else if opcode = 77 then (let (len, p) = word16le p in map_prod Data id (ps_buffer len p))
         else if opcode = 78 then (let (len, p) = word32le p in map_prod Data id (ps_buffer len p))
         else (Op opcode, p))"

lemma parse_chunk_moves:
  "ps_pos p < ps_pos (snd (parse_chunk p))" "ps_subject (snd (parse_chunk p)) = ps_subject p"
  by (simp_all add: parse_chunk_def case_prod_unfold Let_def)

function parse_loop :: "parser \<Rightarrow> chunk list \<Rightarrow> chunk list" where
  "parse_loop p chunks =
     (if ps_eof p then chunks
      else let (chunk, p) = parse_chunk p in parse_loop p (chunks @ [chunk]))"
  by pat_completeness auto

termination
proof (relation "measure (\<lambda>(p, _). length (ps_subject p) - ps_pos p)", goal_cases)
  case (2 p chunks x chunk p')
  then show ?case
    using parse_chunk_moves [of p] by (auto simp: ps_eof_def dest: arg_cong [of _ _ snd])
qed simp

declare parse_loop.simps [simp del]

definition bc_parse :: "buffer \<Rightarrow> chunk list" where
  "bc_parse b = parse_loop (new_parser b) []"

definition new_script :: "buffer \<Rightarrow> bc_script" where
  "new_script b = \<lparr>bs_buffer = b, bs_chunks = bc_parse b\<rparr>"

text \<open>\<open>new Script(chunk)\<close>: no chunk and the number 0 are falsy and give the empty script; any other
  number has no \<open>slice\<close> method.\<close>

definition script_of_chunk :: "chunk option \<Rightarrow> bc_script res" where
  "script_of_chunk c = (case c of
       None \<Rightarrow> Inr (new_script [])
     | Some (Data b) \<Rightarrow> Inr (new_script b)
     | Some (Op n) \<Rightarrow> if n = 0 then Inr (new_script []) else Inl (JsTypeError ''subject.slice is not a function''))"

section \<open>Chunks compared with opcodes\<close>

text \<open>The comparisons are JavaScript's loose ones: a buffer counts as the number its text spells, and
  a chunk that is not there as no number at all.\<close>

definition chunk_at :: "chunk list \<Rightarrow> nat \<Rightarrow> chunk option" where
  "chunk_at chunks i = (if i < length chunks then Some (chunks ! i) else None)"

definition loose_eq :: "chunk option \<Rightarrow> nat \<Rightarrow> bool" where
  "loose_eq c n = (case c of None \<Rightarrow> False | Some (Op k) \<Rightarrow> k = n | Some (Data b) \<Rightarrow> num_eq (text_number b) n)"

definition loose_ge :: "chunk option \<Rightarrow> nat \<Rightarrow> bool" where
  "loose_ge c n = (case c of None \<Rightarrow> False | Some (Op k) \<Rightarrow> n \<le> k | Some (Data b) \<Rightarrow> num_ge (text_number b) n)"

definition loose_le :: "chunk option \<Rightarrow> nat \<Rightarrow> bool" where
  "loose_le c n = (case c of None \<Rightarrow> False | Some (Op k) \<Rightarrow> k \<le> n | Some (Data b) \<Rightarrow> num_le (text_number b) n)"

definition loose_gt :: "chunk option \<Rightarrow> nat \<Rightarrow> bool" where
  "loose_gt c n = (case c of None \<Rightarrow> False | Some (Op k) \<Rightarrow> n < k | Some (Data b) \<Rightarrow> num_gt (text_number b) n)"

fun is_data :: "chunk option \<Rightarrow> bool" where
  "is_data (Some (Data b)) = True"
| "is_data _ = False"

fun data_of :: "chunk option \<Rightarrow> buffer" where
  "data_of (Some (Data b)) = b"
| "data_of _ = []"

section \<open>Recognisers\<close>

definition isReturnOnly :: "bc_script \<Rightarrow> bool" where
  "isReturnOnly s = (let opc = chunk_at (bs_chunks s) 0 in \<not> is_data opc \<and> loose_eq opc 106)"

definition isPushOnly :: "bc_script \<Rightarrow> bool" where
  "isPushOnly s = list_all (\<lambda>opc. \<not> (\<not> is_data (Some opc) \<and> loose_gt (Some opc) 96)) (bs_chunks s)"

definition isP2SH :: "bc_script \<Rightarrow> bool" where
  "isP2SH s =
     (let c = chunk_at (bs_chunks s) in
      length (bs_chunks s) = 3 \<and> loose_eq (c 0) 169 \<and> is_data (c 1) \<and> length (data_of (c 1)) = 20 \<and> loose_eq (c 2) 135)"

definition isPubkey :: "bc_script \<Rightarrow> bool" where
  "isPubkey s =
     (let c = chunk_at (bs_chunks s) in length (bs_chunks s) = 2 \<and> is_data (c 0) \<and> loose_eq (c 1) 172)"

definition isPubkeyHash :: "bc_script \<Rightarrow> bool" where
  "isPubkeyHash s =
     (let c = chunk_at (bs_chunks s) in
      length (bs_chunks s) = 5 \<and> loose_eq (c 0) 118 \<and> loose_eq (c 1) 169 \<and> is_data (c 2) \<and>
      length (data_of (c 2)) = 20 \<and> loose_eq (c 3) 136 \<and> loose_eq (c 4) 172)"

definition isSmallIntOp :: "chunk option \<Rightarrow> bool" where
  "isSmallIntOp opcode \<longleftrightarrow> loose_eq opcode 0 \<or> (loose_ge opcode 81 \<and> loose_le opcode 96)"

definition isMultiSig :: "bc_script \<Rightarrow> bool" where
  "isMultiSig s =
     (let cs = bs_chunks s; n = length cs in
      n > 3 \<and> isSmallIntOp (chunk_at cs 0) \<and> list_all (\<lambda>i. is_data (Some i)) (slice cs 1 (n - 2)) \<and>
      isSmallIntOp (chunk_at cs (n - 2)) \<and> loose_eq (chunk_at cs (n - 1)) 174)"

definition isPubkeyHashScriptSig :: "bc_script \<Rightarrow> bool" where
  "isPubkeyHashScriptSig s =
     (let cs = bs_chunks s in length cs = 2 \<and> is_data (chunk_at cs 0) \<and> is_data (chunk_at cs 1))"

definition isPubkeyScriptSig :: "bc_script \<Rightarrow> bool" where
  "isPubkeyScriptSig s = (let cs = bs_chunks s in length cs = 1 \<and> is_data (chunk_at cs 0))"

datatype tx_type = TX_UNKNOWN | TX_PUBKEY | TX_PUBKEYHASH | TX_MULTISIG | TX_SCRIPTHASH

definition bc_classify :: "bc_script \<Rightarrow> tx_type" where
  "bc_classify s =
     (if isPubkeyHash s then TX_PUBKEYHASH
      else if isP2SH s then TX_SCRIPTHASH
      else if isMultiSig s then TX_MULTISIG
      else if isPubkey s then TX_PUBKEY
      else TX_UNKNOWN)"

text \<open>\<open>isSmallIntOp(c) && c === 0\<close> holds of the number 0 alone.\<close>

definition starts_with_op0 :: "bc_script \<Rightarrow> bool" where
  "starts_with_op0 s = (let c = chunk_at (bs_chunks s) 0 in isSmallIntOp c \<and> c = Some (Op 0))"

definition isP2shScriptSig :: "bc_script \<Rightarrow> bool res" where
  "isP2shScriptSig s =
     (if \<not> starts_with_op0 s then Inr False
      else rbind (script_of_chunk (chunk_at (bs_chunks s) (length (bs_chunks s) - 1))) (\<lambda>redeemScript.
             Inr (bc_classify redeemScript \<noteq> TX_UNKNOWN)))"

definition isMultiSigScriptSig :: "bc_script \<Rightarrow> bool res" where
  "isMultiSigScriptSig s =
     (if \<not> starts_with_op0 s then Inr False else rbind (isP2shScriptSig s) (\<lambda>b. Inr (\<not> b)))"

section \<open>Signatures in an input script\<close>

definition countSignatures :: "bc_script \<Rightarrow> int res" where
  "countSignatures s =
     (let l = int (length (bs_chunks s)) in
      rbind (isMultiSigScriptSig s) (\<lambda>m. if m then Inr (l - 1) else
      rbind (isP2shScriptSig s) (\<lambda>p. if p then Inr (l - 2) else
      if isPubkeyHashScriptSig s then Inr 1 else Inr 0)))"

definition getSignatures :: "bc_script \<Rightarrow> chunk list res" where
  "getSignatures s =
     (let l = length (bs_chunks s) in
      rbind (isMultiSigScriptSig s) (\<lambda>m. if m then Inr (slice (bs_chunks s) 1 l) else
      rbind (isP2shScriptSig s) (\<lambda>p. if p then Inr (slice (bs_chunks s) 1 (l - 1)) else
      if isPubkeyHashScriptSig s then Inr [bs_chunks s ! 0] else Inr [])))"

text \<open>\<open>sig[sig.length - 1]\<close> is \<open>undefined\<close> for a number and for an empty buffer. The result is
  \<open>null\<close> (\<open>None\<close>) when there is no signature or two differ.\<close>

definition sig_type :: "chunk \<Rightarrow> nat option" where
  "sig_type sig = (case sig of Op _ \<Rightarrow> None | Data b \<Rightarrow> if b = [] then None else Some (unat (last b)))"

fun hash_type_loop :: "chunk list \<Rightarrow> nat option option \<Rightarrow> nat option option" where
  "hash_type_loop [] hashType = hashType"
| "hash_type_loop (sig # sigs) hashType =
     (if hashType \<noteq> None \<and> hashType \<noteq> Some (sig_type sig) then None
      else hash_type_loop sigs (Some (sig_type sig)))"

definition bc_getHashType :: "bc_script \<Rightarrow> nat option option res" where
  "bc_getHashType s = rbind (getSignatures s) (\<lambda>sigs. Inr (hash_type_loop sigs None))"

text \<open>\<open>chunk - 80\<close> of a chunk that passed \<open>isSmallIntOp\<close>; text may spell a fraction.\<close>

definition chunk_number :: "chunk \<Rightarrow> rat" where
  "chunk_number c = (case c of
       Op n \<Rightarrow> of_nat n
     | Data b \<Rightarrow> (case text_number b of Finite neg p d \<Rightarrow> (if neg then - 1 else 1) * (of_nat p / of_nat d) | _ \<Rightarrow> 0))"

definition countMissingSignatures :: "bc_script \<Rightarrow> rat option res" where
  "countMissingSignatures s =
     (if isMultiSig s then Inr None
      else let l = length (bs_chunks s) in
        if starts_with_op0 s then
          rbind (script_of_chunk (chunk_at (bs_chunks s) (l - 1))) (\<lambda>redeemScript.
            if \<not> isSmallIntOp (chunk_at (bs_chunks redeemScript) 0) then Inr (Some 0)
            else let nreq = chunk_number (bs_chunks redeemScript ! 0) - 80
                 in Inr (Some (nreq - (of_nat l - 2))))
        else if bs_buffer s = [] then Inr (Some 1) else Inr (Some 0))"

definition finishedMultiSig :: "bc_script \<Rightarrow> bool option res" where
  "finishedMultiSig s = rbind (countMissingSignatures s) (\<lambda>missing. Inr (map_option (\<lambda>m. m = 0) missing))"

record multisig_info =
  mi_nsigs :: rat
  mi_npubkeys :: rat
  mi_pubkeys :: "chunk list"

definition getMultiSigInfo :: "bc_script \<Rightarrow> multisig_info res" where
  "getMultiSigInfo s =
     (if \<not> isMultiSig s then Inl (JsError ''Script.getMultiSigInfo(): Not a multiSig script.'')
      else let cs = bs_chunks s;
               nsigs = chunk_number (cs ! 0) - 80;
               npubkeys = chunk_number (cs ! (length cs - 2)) - 80;
               pubkeys = slice cs 1 (length cs - 2)
           in if of_nat (length pubkeys) \<noteq> npubkeys
              then Inl (JsError ''Script.getMultiSigInfo(): Amount of PKs does not match what the script specifies.'')
              else Inr \<lparr>mi_nsigs = nsigs, mi_npubkeys = npubkeys, mi_pubkeys = pubkeys\<rparr>)"

section \<open>Data in known scripts\<close>

definition bc_capture :: "bc_script \<Rightarrow> chunk list" where
  "bc_capture s = (case bc_classify s of
       TX_PUBKEY \<Rightarrow> [bs_chunks s ! 0]
     | TX_PUBKEYHASH \<Rightarrow> [bs_chunks s ! 2]
     | TX_MULTISIG \<Rightarrow> slice (bs_chunks s) 1 (length (bs_chunks s) - 2)
     | TX_SCRIPTHASH \<Rightarrow> [bs_chunks s ! 1]
     | TX_UNKNOWN \<Rightarrow> [])"

definition captureOne :: "bc_script \<Rightarrow> chunk option" where
  "captureOne s = chunk_at (bc_capture s) 0"

definition getOutType :: "bc_script \<Rightarrow> string" where
  "getOutType s = (case bc_classify s of TX_PUBKEY \<Rightarrow> ''Pubkey'' | TX_PUBKEYHASH \<Rightarrow> ''Address'' | _ \<Rightarrow> ''Strange'')"

definition getRawOutType :: "bc_script \<Rightarrow> string" where
  "getRawOutType s = (case bc_classify s of
       TX_UNKNOWN \<Rightarrow> ''unknown'' | TX_PUBKEY \<Rightarrow> ''pubkey'' | TX_PUBKEYHASH \<Rightarrow> ''pubkeyhash''
     | TX_MULTISIG \<Rightarrow> ''multisig'' | TX_SCRIPTHASH \<Rightarrow> ''scripthash'')"

text \<open>\<open>sha256ripe160\<close> of util.js over the two hash functions of Node's crypto.\<close>

definition sha256ripe160 :: "(buffer \<Rightarrow> buffer) \<Rightarrow> (buffer \<Rightarrow> buffer) \<Rightarrow> buffer \<Rightarrow> buffer" where
  "sha256ripe160 sha256 ripe160 data = ripe160 (sha256 data)"

definition simpleOutHash :: "(buffer \<Rightarrow> buffer) \<Rightarrow> (buffer \<Rightarrow> buffer) \<Rightarrow> bc_script \<Rightarrow> buffer option" where
  "simpleOutHash sha256 ripe160 s =
     (if getOutType s = ''Address'' then Some (data_of (chunk_at (bs_chunks s) 2))
      else if getOutType s = ''Pubkey''
      then Some (sha256ripe160 sha256 ripe160 (data_of (chunk_at (bs_chunks s) 0)))
      else None)"

definition getInType :: "bc_script \<Rightarrow> string" where
  "getInType s =
     (let cs = bs_chunks s in
      if length cs = 1 then ''Pubkey''
      else if length cs = 2 \<and> is_data (chunk_at cs 0) \<and> is_data (chunk_at cs 1) then ''Address''
      else ''Strange'')"

definition simpleInPubKey :: "bc_script \<Rightarrow> chunk option" where
  "simpleInPubKey s = (if getInType s = ''Address'' then chunk_at (bs_chunks s) 1 else None)"

section \<open>Writing\<close>

definition writeOp :: "nat \<Rightarrow> bc_script \<Rightarrow> bc_script res" where
  "writeOp opcode s =
     (let n = length (bs_buffer s) in
      rbind (writeUInt8 (buf_copy (bs_buffer s) (new_buffer (n + 1)) 0) opcode n) (\<lambda>buf.
        Inr \<lparr>bs_buffer = buf, bs_chunks = bs_chunks s @ [Op opcode]\<rparr>))"

definition writeN :: "int \<Rightarrow> bc_script \<Rightarrow> bc_script res" where
  "writeN n s =
     (if n < 0 \<or> n > 16 then Inl (JsError (''writeN: out of range value '' @ (if n < 0 then ''-'' else []) @ dec_string (nat \<bar>n\<bar>)))
      else if n = 0 then writeOp 0 s else writeOp (nat (81 + n - 1)) s)"

definition prefixSize :: "nat \<Rightarrow> nat" where
  "prefixSize data_length =
     (if data_length < 76 then 1 else if data_length \<le> 0xff then 1 + 1
      else if data_length \<le> 0xffff then 1 + 2 else 1 + 4)"

definition encodeLen :: "nat \<Rightarrow> buffer res" where
  "encodeLen data_length =
     (if data_length < 76 then writeUInt8 (new_buffer 1) data_length 0
      else if data_length \<le> 0xff then
        rbind (writeUInt8 (new_buffer 2) 76 0) (\<lambda>buf. writeUInt8 buf data_length 1)
      else if data_length \<le> 0xffff then
        rbind (writeUInt8 (new_buffer 3) 77 0) (\<lambda>buf. writeUInt16LE buf data_length 1)
      else
        rbind (writeUInt8 (new_buffer 5) 78 0) (\<lambda>buf. writeUInt32LE buf data_length 1))"

definition writeBytes :: "buffer \<Rightarrow> bc_script \<Rightarrow> bc_script res" where
  "writeBytes data s =
     rbind (encodeLen (length data)) (\<lambda>len.
       Inr \<lparr>bs_buffer = bs_buffer s @ len @ data, bs_chunks = bs_chunks s @ [Data data]\<rparr>)"

fun put_chunk :: "chunk \<Rightarrow> buffer \<Rightarrow> buffer" where
  "put_chunk (Data data) buf =
     put_buffer data
       (if length data < 76 then put_word8 (length data) buf
        else if length data \<le> 0xff then put_word8 (length data) (put_word8 76 buf)
        else if length data \<le> 0xffff then put_word16le (length data) (put_word8 77 buf)
        else put_word32le (length data) (put_word8 78 buf))"
| "put_chunk (Op data) buf = put_word8 data buf"

definition chunksToBuffer :: "chunk list \<Rightarrow> buffer" where
  "chunksToBuffer chunks = foldl (\<lambda>buf data. put_chunk data buf) [] chunks"

definition updateBuffer :: "bc_script \<Rightarrow> bc_script" where
  "updateBuffer s = s\<lparr>bs_buffer := chunksToBuffer (bs_chunks s)\<rparr>"

definition fromChunks :: "chunk list \<Rightarrow> bc_script" where
  "fromChunks chunks = updateBuffer ((new_script [])\<lparr>bs_chunks := chunks\<rparr>)"

definition prependOp0 :: "bc_script \<Rightarrow> bc_script" where
  "prependOp0 s = updateBuffer (s\<lparr>bs_chunks := Op 0 # bs_chunks s\<rparr>)"

text \<open>The loop removes with \<open>splice(i, 1)\<close> while it counts to the length the list had at first.\<close>

function delete_loop :: "chunk \<Rightarrow> nat \<Rightarrow> nat \<Rightarrow> chunk list \<Rightarrow> bool \<Rightarrow> chunk list \<times> bool" where
  "delete_loop chunk i l chunks dirty =
     (if i < l then
        if i < length chunks \<and> chunks ! i = chunk
        then delete_loop chunk i l (take i chunks @ drop (i + 1) chunks) True
        else delete_loop chunk (i + 1) l chunks dirty
      else (chunks, dirty))"
  by pat_completeness auto

termination
  by (relation "measure (\<lambda>(_, i, l, chunks, _). (l - i) + length chunks)") auto

declare delete_loop.simps [simp del]

definition findAndDelete :: "chunk \<Rightarrow> bc_script \<Rightarrow> bc_script" where
  "findAndDelete chunk s =
     (let (chunks, dirty) = delete_loop chunk 0 (length (bs_chunks s)) (bs_chunks s) False;
          s = s\<lparr>bs_chunks := chunks\<rparr>
      in if dirty then updateBuffer s else s)"

section \<open>Builders\<close>

definition createPubKeyOut :: "buffer \<Rightarrow> bc_script res" where
  "createPubKeyOut pubkey = rbind (writeBytes pubkey (new_script [])) (writeOp 172)"

definition createPubKeyHashOut :: "buffer \<Rightarrow> bc_script res" where
  "createPubKeyHashOut pubKeyHash =
     rbind (writeOp 118 (new_script [])) (\<lambda>s.
     rbind (writeOp 169 s) (\<lambda>s.
     rbind (writeBytes pubKeyHash s) (\<lambda>s.
     rbind (writeOp 136 s) (\<lambda>s. writeOp 172 s))))"

definition createP2SH :: "buffer \<Rightarrow> bc_script res" where
  "createP2SH scriptHash =
     rbind (writeOp 169 (new_script [])) (\<lambda>s. rbind (writeBytes scriptHash s) (\<lambda>s. writeOp 135 s))"

text \<open>The comparison function of \<open>_sortKeys\<close>; \<open>len\<close> is always the length of the second key. The
  sort of short arrays is insertion sort, which moves an element up while the one below is greater.\<close>

function key_compare :: "nat \<Rightarrow> buffer \<Rightarrow> buffer \<Rightarrow> int" where
  "key_compare i buf1 buf2 =
     (if i \<le> length buf2 then
        if i \<ge> length buf1 then -1
        else if i \<ge> length buf2 then 1
        else if buf1 ! i < buf2 ! i then -1
        else if buf1 ! i > buf2 ! i then 1
        else key_compare (i + 1) buf1 buf2
      else 0)"
  by pat_completeness auto

termination by (relation "measure (\<lambda>(i, _, buf2). length buf2 + 1 - i)") auto

declare key_compare.simps [simp del]

fun insert_key :: "buffer \<Rightarrow> buffer list \<Rightarrow> buffer list" where
  "insert_key element [] = [element]"
| "insert_key element (tmp # below) =
     (if key_compare 0 tmp element > 0 then tmp # insert_key element below else element # tmp # below)"

definition sortKeys :: "buffer list \<Rightarrow> buffer list" where
  "sortKeys keys = rev (foldl (\<lambda>below element. insert_key element below) [] keys)"

definition createMultisig :: "int \<Rightarrow> buffer list \<Rightarrow> bool \<Rightarrow> bc_script res" where
  "createMultisig n_required inKeys noSorting =
     (let keys = (if noSorting then inKeys else sortKeys inKeys) in
      rbind (writeN n_required (new_script [])) (\<lambda>s.
      rbind (rfold writeBytes keys s) (\<lambda>s.
      rbind (writeN (int (length keys)) s) (\<lambda>s. writeOp 174 s))))"

end
