(* ===== verification/Bc_Script_Laws.thy ===== *)
theory Bc_Script_Laws
  imports Bc_Script "HOL-Library.List_Lexorder" "HOL-Library.Multiset"
begin

text \<open>
  What the operations of theory Bc_Script do: reading and writing chunks, agreement with
  bitcoinjs-lib's \<open>decompile\<close> and \<open>compile\<close>, \<open>findAndDelete\<close> as a filter, and the key order of
  \<open>createMultisig\<close>.
\<close>

section \<open>Parsing agrees with decompile\<close>

lemma word_of_readLE:
  "readLE n buf off = Inr v \<Longrightarrow> n \<le> 6 \<Longrightarrow>
   getDecoder n decodeLEu \<lparr>ps_subject = buf, ps_pos = off\<rparr> = (v, \<lparr>ps_subject = buf, ps_pos = off + n\<rparr>)"
  by (auto simp: getDecoder_def ps_buffer_def readLE_def decodeLEu_short split: if_splits)

lemma word8_of_readLE:
  assumes "readUInt8 buf off = Inr v"
  shows "word8 \<lparr>ps_subject = buf, ps_pos = off\<rparr> = (v, \<lparr>ps_subject = buf, ps_pos = off + 1\<rparr>)"
proof -
  obtain b where b: "slice buf off (off + 1) = [b]" "v = unat b"
    using assms by (auto simp: readLE_def slice_def take_Suc_conv_app_nth split: if_splits)
  then show ?thesis by (simp add: word8_def getDecoder_def ps_buffer_def)
qed

lemma parse_chunk_push:
  assumes "readPushDataInt buf i = Inr (Some d)" "i < length buf" "0 < unat (buf ! i)" "unat (buf ! i) \<le> 78"
  shows "parse_chunk \<lparr>ps_subject = buf, ps_pos = i\<rparr> =
    (Data (slice buf (i + pi_size d) (i + pi_size d + pi_number d)),
     \<lparr>ps_subject = buf, ps_pos = i + pi_size d + pi_number d\<rparr>)"
proof -
  have opc: "readUInt8 buf i = Inr (unat (buf ! i))" using assms(2) by (rule readUInt8_nth)
  show ?thesis
    using assms opc word8_of_readLE [OF opc] word8_of_readLE [of buf "i + 1"]
      word_of_readLE [of 2 buf "i + 1"] word_of_readLE [of 4 buf "i + 1"]
    by (auto simp: readPushDataInt_def parse_chunk_def word16le_def word32le_def ps_buffer_def Let_def
        split: if_splits) (simp_all add: numeral_3_eq_3 add.commute)
qed

lemma parse_loop_decompile:
  assumes "decompile_loop buf i chunks = Inr cs" "cs \<noteq> []"
  shows "parse_loop \<lparr>ps_subject = buf, ps_pos = i\<rparr> chunks = cs"
  using assms
proof (induction buf i chunks rule: decompile_loop.induct)
  case (1 buf i chunks)
  show ?case
  proof (cases "i < length buf")
    case False
    then show ?thesis using 1(3) by (simp add: decompile_loop.simps parse_loop.simps ps_eof_def)
  next
    case True
    let ?opc = "unat (buf ! i)"
    show ?thesis
    proof (cases "0 < ?opc \<and> ?opc \<le> 78")
      case push: True
      have loop: "decompile_loop buf i chunks = rbind (readPushDataInt buf i) (\<lambda>d. case d of
              None \<Rightarrow> Inr []
            | Some d \<Rightarrow>
                let i = i + pi_size d in
                if i + pi_number d > length buf then Inr []
                else decompile_loop buf (i + pi_number d) (chunks @ [Data (slice buf i (i + pi_number d))]))"
        using True push by (subst decompile_loop.simps) (simp add: Let_def)
      note res = 1(3) [unfolded loop]
      obtain d where d: "readPushDataInt buf i = Inr (Some d)"
        using res 1(4) by (auto split: option.splits)
      have "decompile_loop buf (i + pi_size d + pi_number d)
          (chunks @ [Data (slice buf (i + pi_size d) (i + pi_size d + pi_number d))]) = Inr cs"
        and fits: "\<not> i + pi_size d + pi_number d > length buf"
        using res 1(4) d by (auto simp: Let_def split: if_splits)
      then have "parse_loop \<lparr>ps_subject = buf, ps_pos = i + pi_size d + pi_number d\<rparr>
          (chunks @ [Data (slice buf (i + pi_size d) (i + pi_size d + pi_number d))]) = cs"
        using 1(1) [OF True refl push d] 1(4) by simp
      then show ?thesis
        using push parse_chunk_push [OF d True] True by (subst parse_loop.simps) (simp add: ps_eof_def)
    next
      case False
      have opc: "readUInt8 buf i = Inr ?opc" using True by (rule readUInt8_nth)
      have "decompile_loop buf (i + 1) (chunks @ [Op ?opc]) = Inr cs"
        using 1(3) True False by (subst (asm) decompile_loop.simps) (auto simp: Let_def split: if_splits)
      then have "parse_loop \<lparr>ps_subject = buf, ps_pos = i + 1\<rparr> (chunks @ [Op ?opc]) = cs"
        using 1(2) True False 1(4) by (simp add: not_less)
      moreover have "parse_chunk \<lparr>ps_subject = buf, ps_pos = i\<rparr> = (Op ?opc, \<lparr>ps_subject = buf, ps_pos = i + 1\<rparr>)"
        using False word8_of_readLE [OF opc] by (auto simp: parse_chunk_def)
      ultimately show ?thesis using True by (subst parse_loop.simps) (simp add: ps_eof_def)
    qed
  qed
qed

section \<open>Writing chunks\<close>

abbreviation bc_chunk_bytes :: "chunk \<Rightarrow> buffer" where
  "bc_chunk_bytes c \<equiv> put_chunk c []"

lemma put_chunk_append: "put_chunk c buf = buf @ bc_chunk_bytes c"
  by (cases c) (simp_all add: put_buffer_def put_le_def)

lemma chunksToBuffer_concat: "chunksToBuffer cs = concat (map bc_chunk_bytes cs)"
proof -
  have "foldl (\<lambda>buf data. put_chunk data buf) buf cs = buf @ concat (map bc_chunk_bytes cs)" for buf
  proof (induction cs arbitrary: buf)
    case (Cons c cs)
    then show ?case using put_chunk_append [of c buf] by simp
  qed simp
  then show ?thesis by (simp add: chunksToBuffer_def)
qed

text \<open>The two libraries write the same prefix for every length but 255 and 65535.\<close>

fun same_prefix :: "chunk \<Rightarrow> bool" where
  "same_prefix (Data d) \<longleftrightarrow> length d \<noteq> 255 \<and> length d \<noteq> 65535"
| "same_prefix (Op n) \<longleftrightarrow> True"

lemma byte_mod: "word_of_nat (n mod 256) = (word_of_nat n :: byte)"
  using byte_of_unat [of "word_of_nat n"] by simp

lemma bc_chunk_bytes_eq: "same_prefix c \<Longrightarrow> bc_chunk_bytes c = chunk_bytes c"
  by (cases c) (auto simp: put_buffer_def put_le_def push_prefix_def byte_mod)

lemma chunksToBuffer_eq: "list_all same_prefix cs \<Longrightarrow> chunksToBuffer cs = concat (map chunk_bytes cs)"
  by (induction cs) (simp_all add: chunksToBuffer_concat bc_chunk_bytes_eq)

lemma parse_chunk_bytes:
  assumes "canonical_chunk c"
  shows "parse_chunk \<lparr>ps_subject = pre @ bc_chunk_bytes c @ post, ps_pos = length pre\<rparr> =
    (c, \<lparr>ps_subject = pre @ bc_chunk_bytes c @ post, ps_pos = length pre + length (bc_chunk_bytes c)\<rparr>)"
proof (cases c)
  case (Op n)
  have "word8 \<lparr>ps_subject = pre @ bc_chunk_bytes c @ post, ps_pos = length pre\<rparr> =
      (n, \<lparr>ps_subject = pre @ bc_chunk_bytes c @ post, ps_pos = length pre + 1\<rparr>)"
    using Op assms by (intro word8_at) (auto simp: put_le_def)
  then show ?thesis using Op assms by (auto simp: parse_chunk_def put_le_def)
next
  case (Data d)
  let ?n = "length d" and ?buf = "pre @ bc_chunk_bytes c @ post"
  have n: "0 < ?n" "?n < 2 ^ 32" using assms Data by auto
  consider "?n < 76" | "76 \<le> ?n" "?n \<le> 255" | "255 < ?n" "?n \<le> 65535" | "65535 < ?n" by linarith
  then show ?thesis
  proof cases
    case 1
    have "word8 \<lparr>ps_subject = ?buf, ps_pos = length pre\<rparr> = (?n, \<lparr>ps_subject = ?buf, ps_pos = length pre + 1\<rparr>)"
      using 1 Data by (intro word8_at [where post = "d @ post"]) (simp_all add: put_le_def put_buffer_def)
    moreover have "ps_buffer ?n \<lparr>ps_subject = ?buf, ps_pos = length pre + 1\<rparr> =
        (d, \<lparr>ps_subject = ?buf, ps_pos = length pre + 1 + ?n\<rparr>)"
      using 1 Data by (intro ps_buffer_at' [where pre = "pre @ le_bytes 1 ?n"]) (simp_all add: put_le_def put_buffer_def)
    ultimately show ?thesis using 1 n Data by (simp add: parse_chunk_def put_le_def put_buffer_def)
  next
    case 2
    have "word8 \<lparr>ps_subject = ?buf, ps_pos = length pre\<rparr> = (76, \<lparr>ps_subject = ?buf, ps_pos = length pre + 1\<rparr>)"
      using 2 Data by (intro word8_at) (simp_all add: put_le_def put_buffer_def)
    moreover have "word8 \<lparr>ps_subject = ?buf, ps_pos = length pre + 1\<rparr> = (?n, \<lparr>ps_subject = ?buf, ps_pos = length pre + 1 + 1\<rparr>)"
      using 2 Data by (intro word8_at [where pre = "pre @ le_bytes 1 76"]) (simp_all add: put_le_def put_buffer_def)
    moreover have "ps_buffer ?n \<lparr>ps_subject = ?buf, ps_pos = length pre + 1 + 1\<rparr> =
        (d, \<lparr>ps_subject = ?buf, ps_pos = length pre + 1 + 1 + ?n\<rparr>)"
      using 2 Data by (intro ps_buffer_at' [where pre = "pre @ le_bytes 1 76 @ le_bytes 1 ?n"])
        (simp_all add: put_le_def put_buffer_def)
    ultimately show ?thesis using 2 n Data by (simp add: parse_chunk_def put_le_def put_buffer_def)
  next
    case 3
    have "word8 \<lparr>ps_subject = ?buf, ps_pos = length pre\<rparr> = (77, \<lparr>ps_subject = ?buf, ps_pos = length pre + 1\<rparr>)"
      using 3 Data by (intro word8_at) (simp_all add: put_le_def put_buffer_def)
    moreover have "word16le \<lparr>ps_subject = ?buf, ps_pos = length pre + 1\<rparr> = (?n, \<lparr>ps_subject = ?buf, ps_pos = length pre + 1 + 2\<rparr>)"
      using 3 Data by (intro word16le_at [where pre = "pre @ le_bytes 1 77"]) (simp_all add: put_le_def put_buffer_def)
    moreover have "ps_buffer ?n \<lparr>ps_subject = ?buf, ps_pos = length pre + 1 + 2\<rparr> =
        (d, \<lparr>ps_subject = ?buf, ps_pos = length pre + 1 + 2 + ?n\<rparr>)"
      using 3 Data by (intro ps_buffer_at' [where pre = "pre @ le_bytes 1 77 @ le_bytes 2 ?n"])
        (simp_all add: put_le_def put_buffer_def)
    ultimately show ?thesis using 3 n Data by (simp add: parse_chunk_def put_le_def put_buffer_def)
  next
    case 4
    have "word8 \<lparr>ps_subject = ?buf, ps_pos = length pre\<rparr> = (78, \<lparr>ps_subject = ?buf, ps_pos = length pre + 1\<rparr>)"
      using 4 Data by (intro word8_at) (simp_all add: put_le_def put_buffer_def)
    moreover have "word32le \<lparr>ps_subject = ?buf, ps_pos = length pre + 1\<rparr> = (?n, \<lparr>ps_subject = ?buf, ps_pos = length pre + 1 + 4\<rparr>)"
      using 4 n Data by (intro word32le_at [where pre = "pre @ le_bytes 1 78"]) (simp_all add: put_le_def put_buffer_def)
    moreover have "ps_buffer ?n \<lparr>ps_subject = ?buf, ps_pos = length pre + 1 + 4\<rparr> =
        (d, \<lparr>ps_subject = ?buf, ps_pos = length pre + 1 + 4 + ?n\<rparr>)"
      using 4 Data by (intro ps_buffer_at' [where pre = "pre @ le_bytes 1 78 @ le_bytes 4 ?n"])
        (simp_all add: put_le_def put_buffer_def)
    ultimately show ?thesis using 4 n Data by (simp add: parse_chunk_def put_le_def put_buffer_def)
  qed
qed

interpretation bc_chunk_c: stream_codec bc_chunk_bytes parse_chunk canonical_chunk
  by unfold_locales (rule parse_chunk_bytes)

lemma bc_chunk_bytes_nonempty: "bc_chunk_bytes c \<noteq> []"
  by (cases c) (auto simp: put_le_def put_buffer_def)

lemma parse_loop_chunks:
  "list_all canonical_chunk cs \<Longrightarrow>
   parse_loop \<lparr>ps_subject = pre @ concat (map bc_chunk_bytes cs), ps_pos = length pre\<rparr> acc = acc @ cs"
proof (induction cs arbitrary: pre acc)
  case Nil
  then show ?case by (simp add: parse_loop.simps ps_eof_def)
next
  case (Cons c cs)
  have "parse_loop \<lparr>ps_subject = (pre @ bc_chunk_bytes c) @ concat (map bc_chunk_bytes cs),
      ps_pos = length (pre @ bc_chunk_bytes c)\<rparr> (acc @ [c]) = (acc @ [c]) @ cs"
    using Cons.prems by (intro Cons.IH) simp
  moreover have "parse_chunk \<lparr>ps_subject = pre @ bc_chunk_bytes c @ concat (map bc_chunk_bytes cs), ps_pos = length pre\<rparr> =
      (c, \<lparr>ps_subject = pre @ bc_chunk_bytes c @ concat (map bc_chunk_bytes cs), ps_pos = length pre + length (bc_chunk_bytes c)\<rparr>)"
    using Cons.prems by (intro bc_chunk_c.read_at) simp
  moreover have "0 < length (bc_chunk_bytes c)" using bc_chunk_bytes_nonempty [of c] by simp
  ultimately show ?case by (subst parse_loop.simps) (simp add: ps_eof_def)
qed

lemma bc_parse_chunks: "list_all canonical_chunk cs \<Longrightarrow> bc_parse (chunksToBuffer cs) = cs"
  using parse_loop_chunks [of cs "[]" "[]"] by (simp add: bc_parse_def new_parser_def chunksToBuffer_concat)

lemma bc_parse_decompile: "decompile (Buf b) = Inr cs \<Longrightarrow> cs \<noteq> [] \<Longrightarrow> bc_parse b = cs"
  using parse_loop_decompile [of b 0 "[]" cs] by (simp add: decompile_def bc_parse_def new_parser_def)

section \<open>findAndDelete is a filter\<close>

lemma delete_loop_filter:
  "length cs \<le> l \<Longrightarrow> i \<le> length cs \<Longrightarrow>
   delete_loop c i l cs dirty = (take i cs @ filter (\<lambda>x. x \<noteq> c) (drop i cs), dirty \<or> c \<in> set (drop i cs))"
proof (induction c i l cs dirty rule: delete_loop.induct)
  case (1 c i l cs dirty)
  show ?case
  proof (cases "i < length cs")
    case True
    then have d: "drop i cs = cs ! i # drop (i + 1) cs" by (simp add: Cons_nth_drop_Suc)
    show ?thesis
    proof (cases "cs ! i = c")
      case eq: True
      have "delete_loop c i l cs dirty = delete_loop c i l (take i cs @ drop (i + 1) cs) True"
        using True eq 1(3) by (subst delete_loop.simps) simp
      then show ?thesis using 1(1) True eq 1(3) d by simp
    next
      case neq: False
      have "delete_loop c i l cs dirty = delete_loop c (i + 1) l cs dirty"
        using True neq 1(3) by (subst delete_loop.simps) simp
      then show ?thesis using 1(2) True neq 1(3) d by (simp add: take_Suc_conv_app_nth)
    qed
  next
    case False
    then have i: "i = length cs" using 1(4) by simp
    have "delete_loop c j l cs dirty = (cs, dirty)" if "length cs \<le> j" for j
      using that
    proof (induction "l - j" arbitrary: j)
      case (Suc n)
      then show ?case using Suc.hyps(1) [of "j + 1"] by (subst delete_loop.simps) simp
    qed (simp add: delete_loop.simps)
    then show ?thesis using i by simp
  qed
qed

lemma findAndDelete_filter:
  "findAndDelete c s =
     (if c \<in> set (bs_chunks s) then updateBuffer (s\<lparr>bs_chunks := filter (\<lambda>x. x \<noteq> c) (bs_chunks s)\<rparr>) else s)"
proof -
  have "filter (\<lambda>x. x \<noteq> c) (bs_chunks s) = bs_chunks s" if "c \<notin> set (bs_chunks s)"
    using that by (auto simp: filter_id_conv)
  then show ?thesis
    by (simp add: findAndDelete_def delete_loop_filter)
qed

lemma filter_absent: "c \<notin> set xs \<Longrightarrow> filter (\<lambda>x. x \<noteq> c) xs = xs"
  by (auto simp: filter_id_conv)

lemma findAndDelete_chunks [simp]: "bs_chunks (findAndDelete c s) = filter (\<lambda>x. x \<noteq> c) (bs_chunks s)"
  by (simp add: findAndDelete_filter updateBuffer_def filter_absent)

text \<open>A script whose bytes are those of its chunks stays so.\<close>

definition synced :: "bc_script \<Rightarrow> bool" where
  "synced s \<longleftrightarrow> bs_buffer s = chunksToBuffer (bs_chunks s)"

lemma synced_updateBuffer [simp]: "synced (updateBuffer s)"
  by (simp add: synced_def updateBuffer_def)

lemma synced_findAndDelete [simp]: "synced s \<Longrightarrow> synced (findAndDelete c s)"
  by (simp add: findAndDelete_filter)

lemma synced_fromChunks [simp]:
  "synced (fromChunks cs)" "bs_chunks (fromChunks cs) = cs" "bs_buffer (fromChunks cs) = chunksToBuffer cs"
  by (simp_all add: fromChunks_def updateBuffer_def synced_def)

section \<open>Key order\<close>

lemma key_compare_less:
  assumes "i \<le> length b" "i \<le> length a"
  shows "key_compare i a b > 0 \<longleftrightarrow> drop i b < drop i a"
  using assms
proof (induction i a b rule: key_compare.induct)
  case (1 i a b)
  consider "i = length a" | "i < length a" "i = length b" | "i < length a" "i < length b"
    using 1(2,3) by linarith
  then show ?case
  proof cases
    case 1
    then show ?thesis using \<open>i \<le> length b\<close> by (subst key_compare.simps) simp
  next
    case 2
    then have "drop i a = a ! i # drop (Suc i) a" by (simp add: Cons_nth_drop_Suc)
    then show ?thesis using 2 by (subst key_compare.simps) simp
  next
    case 3
    then have d: "drop i a = a ! i # drop (Suc i) a" "drop i b = b ! i # drop (Suc i) b"
      by (simp_all add: Cons_nth_drop_Suc)
    have "key_compare i a b = (if a ! i < b ! i then -1 else if a ! i > b ! i then 1 else key_compare (i + 1) a b)"
      using 3 by (subst key_compare.simps) simp
    then show ?thesis using 1(1) 3 d by auto
  qed
qed

lemma insert_key_mset: "mset (insert_key e xs) = add_mset e (mset xs)"
  by (induction xs) auto

lemma insert_key_sorted: "sorted (rev xs) \<Longrightarrow> sorted (rev (insert_key e xs))"
proof (induction xs)
  case (Cons x xs)
  have c: "key_compare 0 x e > 0 \<longleftrightarrow> e < x" using key_compare_less [of 0 e x] by simp
  have m: "set (insert_key e xs) = insert e (set xs)"
    using insert_key_mset [of e xs] by (metis set_mset_mset set_mset_add_mset_insert)
  show ?case
    using Cons c m by (auto simp: sorted_append)
qed simp

lemma sortKeys_sort: "sortKeys keys = sort keys"
proof -
  have "sorted (rev (foldl (\<lambda>below element. insert_key element below) xs keys)) \<and>
      mset (foldl (\<lambda>below element. insert_key element below) xs keys) = mset xs + mset keys"
    if "sorted (rev xs)" for xs
    using that
    by (induction keys arbitrary: xs) (simp_all add: insert_key_sorted insert_key_mset)
  from this [of "[]"] show ?thesis
    unfolding sortKeys_def by (intro properties_for_sort [symmetric]) simp_all
qed

section \<open>Builders\<close>

lemma new_script_empty [simp]: "new_script [] = \<lparr>bs_buffer = [], bs_chunks = []\<rparr>"
  by (simp add: new_script_def bc_parse_def new_parser_def parse_loop.simps ps_eof_def)

definition bc_prefix :: "nat \<Rightarrow> buffer" where
  "bc_prefix n =
     (if n < 76 then le_bytes 1 n
      else if n \<le> 0xff then le_bytes 1 76 @ le_bytes 1 n
      else if n \<le> 0xffff then le_bytes 1 77 @ le_bytes 2 n
      else le_bytes 1 78 @ le_bytes 4 n)"

lemma bc_chunk_bytes_simps:
  "bc_chunk_bytes (Data d) = bc_prefix (length d) @ d" "bc_chunk_bytes (Op n) = [word_of_nat n]"
  by (simp_all add: put_buffer_def put_le_def bc_prefix_def byte_mod)

lemma encodeLen_prefix:
  "n < 2 ^ 32 \<Longrightarrow> encodeLen n = Inr (bc_prefix n)"
  using writeLE_fill2 [of 76 1 n 1 "new_buffer 2" "[]"] writeLE_fill2 [of 77 1 n 2 "new_buffer 3" "[]"]
    writeLE_fill2 [of 78 1 n 4 "new_buffer 5" "[]"] writeLE_fill [of n 1 "new_buffer 1" "[]"]
  by (simp add: encodeLen_def bc_prefix_def)

lemma length_bc_prefix: "length (bc_prefix n) = prefixSize n"
  by (simp add: bc_prefix_def prefixSize_def)

lemma synced_eq: "synced s \<Longrightarrow> synced t \<Longrightarrow> bs_chunks s = bs_chunks t \<Longrightarrow> s = (t :: bc_script)"
  by (simp add: synced_def)

text \<open>The writing methods promise to append chunks and to keep the bytes those of the chunks.\<close>

locale script_appender =
  fixes wr :: "'a \<Rightarrow> bc_script \<Rightarrow> bc_script res"
    and ch :: "'a \<Rightarrow> chunk list"
    and ok :: "'a \<Rightarrow> bool"
  assumes appends: "ok x \<Longrightarrow> synced s \<Longrightarrow> wr x s = Inr (fromChunks (bs_chunks s @ ch x))"
begin

lemma appends_many:
  "list_all ok xs \<Longrightarrow> synced s \<Longrightarrow> rfold wr xs s = Inr (fromChunks (bs_chunks s @ concat (map ch xs)))"
proof (induction xs arbitrary: s)
  case Nil
  have "fromChunks (bs_chunks s) = s" using Nil(2) by (intro synced_eq) simp_all
  then show ?case by simp
next
  case (Cons x xs)
  then show ?case by (simp add: appends)
qed

end

interpretation op_a: script_appender writeOp "\<lambda>n. [Op n]" "\<lambda>n. n < 256"
proof
  fix n s assume n: "n < (256 :: nat)" and s: "synced s"
  have "new_buffer (length (bs_buffer s) + 1) = new_buffer (length (bs_buffer s)) @ new_buffer 1"
    by (simp add: new_buffer_def replicate_add [symmetric] del: replicate_Suc)
  then have "buf_copy (bs_buffer s) (new_buffer (length (bs_buffer s) + 1)) 0 = bs_buffer s @ new_buffer 1"
    by (simp add: buf_copy_def write_at_def)
  then have "writeOp n s = Inr \<lparr>bs_buffer = bs_buffer s @ [word_of_nat n], bs_chunks = bs_chunks s @ [Op n]\<rparr>"
    using n writeLE_fill [of n 1 "new_buffer 1" "bs_buffer s"] by (simp add: writeOp_def)
  moreover have "\<lparr>bs_buffer = bs_buffer s @ [word_of_nat n], bs_chunks = bs_chunks s @ [Op n]\<rparr> =
      fromChunks (bs_chunks s @ [Op n])"
    using s by (intro synced_eq) (simp_all add: synced_def chunksToBuffer_concat bc_chunk_bytes_simps del: put_chunk.simps)
  ultimately show "writeOp n s = Inr (fromChunks (bs_chunks s @ [Op n]))" by simp
qed

interpretation bytes_a: script_appender writeBytes "\<lambda>d. [Data d]" "\<lambda>d. length d < 2 ^ 32"
proof
  fix d :: buffer and s assume d: "length d < 2 ^ 32" and s: "synced s"
  have "\<lparr>bs_buffer = bs_buffer s @ bc_prefix (length d) @ d, bs_chunks = bs_chunks s @ [Data d]\<rparr> =
      fromChunks (bs_chunks s @ [Data d])"
    using s by (intro synced_eq) (simp_all add: synced_def chunksToBuffer_concat bc_chunk_bytes_simps del: put_chunk.simps)
  then show "writeBytes d s = Inr (fromChunks (bs_chunks s @ [Data d]))"
    by (simp add: writeBytes_def encodeLen_prefix [OF d])
qed

definition small_int_op :: "nat \<Rightarrow> nat" where
  "small_int_op n = (if n = 0 then 0 else 80 + n)"

interpretation int_a: script_appender writeN "\<lambda>n. [Op (small_int_op (nat n))]" "\<lambda>n. 0 \<le> n \<and> n \<le> 16"
proof
  fix n s assume n: "0 \<le> n \<and> n \<le> (16 :: int)" and s: "synced s"
  have "nat (81 + n - 1) = 80 + nat n" using n by (simp add: nat_add_distrib)
  then show "writeN n s = Inr (fromChunks (bs_chunks s @ [Op (small_int_op (nat n))]))"
    using n op_a.appends [OF _ s] by (auto simp: writeN_def small_int_op_def)
qed

lemma createMultisig_chunks:
  assumes "0 \<le> m" "m \<le> 16" "length keys \<le> 16" "\<And>k. k \<in> set keys \<Longrightarrow> length k < 2 ^ 32"
  shows "createMultisig m keys noSorting =
    Inr (fromChunks ([Op (small_int_op (nat m))] @ map Data (if noSorting then keys else sort keys) @
                     [Op (small_int_op (length keys)), Op 174]))"
proof -
  define ks where "ks = (if noSorting then keys else sort keys)"
  have ks: "list_all (\<lambda>d. length d < 2 ^ 32) ks" "length ks = length keys"
    using assms(4) by (simp_all add: ks_def list_all_iff)
  have data: "concat (map (\<lambda>d. [Data d]) ks) = map Data ks" by (induction ks) simp_all
  have s0: "synced (new_script [])" by (simp add: synced_def chunksToBuffer_def)
  have c0: "bs_chunks (new_script []) = []" by simp
  have "(if noSorting then keys else sortKeys keys) = ks" by (simp add: ks_def sortKeys_sort)
  then have "createMultisig m keys noSorting =
      rbind (writeN m (new_script [])) (\<lambda>s. rbind (rfold writeBytes ks s) (\<lambda>s.
      rbind (writeN (int (length ks)) s) (\<lambda>s. writeOp 174 s)))"
    by (simp only: createMultisig_def Let_def)
  also have "\<dots> = Inr (fromChunks ([Op (small_int_op (nat m))] @ map Data ks @ [Op (small_int_op (length ks)), Op 174]))"
    using assms(1-3) ks int_a.appends [OF _ s0, of m] int_a.appends [of "int (length ks)"]
      bytes_a.appends_many [OF ks(1)] op_a.appends [of 174]
    by (simp add: data c0 del: new_script_empty)
  finally show ?thesis using ks(2) by (simp only: ks_def)
qed

section \<open>Properties\<close>

text \<open>the two libraries read and write scripts alike: what bitcoinjs-lib's \<open>decompile\<close> makes of a
  byte string is what bitcore's parser makes of it, unless a push runs off its end; bitcore's
  bytes of canonical chunks parse to those chunks, and they are the bytes \<open>compile\<close> writes unless a
  push is 255 or 65535 bytes long.\<close>

theorem bitcore_parse_agrees:
  "(decompile (Buf b) = Inr cs \<and> cs \<noteq> [] \<longrightarrow> bs_chunks (new_script b) = cs) \<and>
   (list_all canonical_chunk ds \<longrightarrow> bs_chunks (new_script (chunksToBuffer ds)) = ds) \<and>
   (list_all canonical_chunk ds \<and> list_all same_prefix ds \<longrightarrow> compile (Chunks ds) = Inr (chunksToBuffer ds))"
proof -
  have "compile (Chunks ds) = Inr (chunksToBuffer ds)" if "list_all canonical_chunk ds" "list_all same_prefix ds"
    using that compile_Chunks [of ds] canonical_writable
    by (simp add: chunksToBuffer_eq list_all_iff)
  then show ?thesis by (auto simp: new_script_def bc_parse_decompile bc_parse_chunks)
qed

theorem bitcore_parse_agrees_witness:
  "bs_chunks (new_script (chunksToBuffer [Op 0, Data [1, 2], Op 172])) = [Op 0, Data [1, 2], Op 172]"
  using bitcore_parse_agrees [of "[]" "[]" "[Op 0, Data [1, 2], Op 172]"] by simp

text \<open>\<open>createMultisig\<close> does not depend on the order of the keys: they are sorted as byte strings,
  although the comparison function takes the wrong length and calls equal keys different. For up to
  16 public keys the script is the one bitcoinjs-lib builds of the sorted keys, and both libraries
  recognise it.\<close>

theorem multisig_independent_of_key_order:
  assumes "multisig_ok (m, keys)" "mset keys' = mset keys"
  shows "createMultisig (int m) keys' False = createMultisig (int m) keys False \<and>
    (\<exists>s. createMultisig (int m) keys False = Inr s \<and> multisigOutput m (sort keys) = Inr (bs_buffer s) \<and>
         bs_chunks s = multisig_shape (m, sort keys) \<and> bc_classify s = TX_MULTISIG \<and>
         bs_chunks (new_script (bs_buffer s)) = bs_chunks s)"
proof -
  have len: "length keys' = length keys" "set keys' = set keys"
    using assms(2) mset_eq_length mset_eq_setD by blast+
  have srt: "sort keys' = sort keys"
    using assms(2) by (intro properties_for_sort) simp_all
  have k: "length k = 33 \<or> length k = 65" if "k \<in> set keys" for k
    using assms(1) that isCanonicalPubKey_length by (auto simp: list_all_iff)
  then have small: "length k < 2 ^ 32" if "k \<in> set keys" for k using that by fastforce
  have ops: "small_int_op (nat (int m)) = 80 + m" "small_int_op (length keys) = 80 + length keys"
    using assms(1) by (auto simp: small_int_op_def)
  let ?cs = "multisig_shape (m, sort keys)"
  have c: "createMultisig (int m) xs False = Inr (fromChunks ?cs)" if "set xs = set keys" "length xs = length keys" "sort xs = sort keys" for xs
    using createMultisig_chunks [of "int m" xs False] assms(1) small that ops by simp
  have ok: "multisig_ok (m, sort keys)" using assms(1) by (auto simp: list_all_iff)
  have canon: "list_all canonical_chunk ?cs" "list_all same_prefix ?cs"
    using assms(1) k by (fastforce simp: list_all_iff)+
  have "multisigOutput m (sort keys) = Inr (chunksToBuffer ?cs)"
    using multisig_built [of m "sort keys"] ok chunksToBuffer_eq [OF canon(2)] by auto
  moreover have "bc_classify (fromChunks ?cs) = TX_MULTISIG"
    using assms(1)
    by (auto simp: bc_classify_def isPubkeyHash_def isP2SH_def isMultiSig_def Let_def chunk_at_def
        isSmallIntOp_def loose_eq_def loose_ge_def loose_le_def nth_append slice_def list_all_iff)
  moreover have "bs_chunks (new_script (chunksToBuffer ?cs)) = ?cs"
    using bc_parse_chunks [OF canon(1)] by (simp add: new_script_def)
  ultimately show ?thesis using c [OF len(2,1) srt] c [of keys] by simp
qed

definition sample_keys :: "buffer list" where
  "sample_keys = [0x03 # replicate 32 9, 0x02 # replicate 32 7]"

theorem multisig_independent_of_key_order_witness:
  "createMultisig 2 (rev sample_keys) False = createMultisig 2 sample_keys False"
  using multisig_independent_of_key_order [of 2 sample_keys "rev sample_keys"]
  by (simp add: sample_keys_def isCanonicalPubKey_def byte_at_def)

text \<open>chunks are compared with opcodes by loose equality, so that data whose text spells the number
  of an opcode passes for it: three pushes, of the texts \<open>169\<close> and \<open>135\<close> around 20 bytes, are a
  pay-to-script-hash output for bitcore and for no other reader of scripts.\<close>

theorem text_passes_for_opcode:
  assumes "length h = 20"
  defines "b \<equiv> [3, 49, 54, 57, 20] @ h @ [3, 49, 51, 53]"
  shows "isP2SH (new_script b) \<and> bc_classify (new_script b) = TX_SCRIPTHASH \<and> isScriptHashOutput (Buf b) = Inr False"
proof -
  have "chunksToBuffer [Data [49, 54, 57], Data h, Data [49, 51, 53]] = b"
    using assms(1) by (simp add: chunksToBuffer_concat bc_chunk_bytes_simps bc_prefix_def b_def del: put_chunk.simps)
  moreover have "list_all canonical_chunk [Data [49, 54, 57], Data h, Data [49, 51, 53]]" using assms(1) by auto
  ultimately have c: "bs_chunks (new_script b) = [Data [49, 54, 57], Data h, Data [49, 51, 53]]"
    using bc_parse_chunks by (metis bc_script.select_convs(2) new_script_def)
  have n: "num_eq (text_number [49, 54, 57]) 169" "num_eq (text_number [49, 51, 53]) 135"
    using text_number_digits [of "[49, 54, 57]"] text_number_digits [of "[49, 51, 53]"]
    by (auto simp: is_digit_def digit_value_def digits_value_def)
  have "length b = 29" using assms(1) by (simp add: b_def)
  then have "isScriptHashOutput (Buf b) = Inr False" by (simp add: isScriptHashOutput_def del: rbind_Inr_iff)
  then show ?thesis
    using assms(1) n c
    by (simp add: bc_classify_def isPubkeyHash_def isP2SH_def Let_def chunk_at_def loose_eq_def)
qed

theorem text_passes_for_opcode_witness:
  "isP2SH (new_script ([3, 49, 54, 57, 20] @ replicate 20 7 @ [3, 49, 51, 53]))"
  using text_passes_for_opcode [of "replicate 20 7"] by simp

end
