(* ===== verification/Bc_Address.thy ===== *)
theory Bc_Address
  imports Bc_Base58 Bc_Script_Laws Address
begin

text \<open>
  \<open>bitcore/util/EncodedData.js\<close>, \<open>bitcore/util/VersionedData.js\<close> and \<open>bitcore/lib/Address.js\<close> over
  the versions of \<open>bitcore/networks.js\<close>: data that is held in one of three encodings and changes its
  encoding in place, and addresses on top of it. Base58Check is an argument here, as it is in the
  model of bitcoinjs-lib's addresses; the properties put the codec of \<open>Bc_Base58\<close> in its place. They
  relate the two libraries: which address each gives a script, and which script each pays for an
  address.
\<close>

section \<open>networks.js\<close>

record bc_network =
  nw_name :: string
  addressVersion :: nat
  privKeyVersion :: nat
  P2SHVersion :: nat
  hkeyPublicVersion :: nat
  hkeyPrivateVersion :: nat

definition livenet :: bc_network where
  "livenet = \<lparr>nw_name = ''livenet'', addressVersion = 0x00, privKeyVersion = 128, P2SHVersion = 5,
     hkeyPublicVersion = 0x0488b21e, hkeyPrivateVersion = 0x0488ade4\<rparr>"

definition testnet :: bc_network where
  "testnet = \<lparr>nw_name = ''testnet'', addressVersion = 0x6f, privKeyVersion = 239, P2SHVersion = 196,
     hkeyPublicVersion = 0x043587cf, hkeyPrivateVersion = 0x04358394\<rparr>"

definition networks :: "string \<Rightarrow> bc_network option" where
  "networks n =
     (if n = ''livenet'' \<or> n = ''mainnet'' then Some livenet else if n = ''testnet'' then Some testnet else None)"

text \<open>\<open>networks[network]\<close> with the default; a property of an unknown network throws.\<close>

definition network_of :: "string option \<Rightarrow> bc_network res" where
  "network_of network =
     (let n = (case network of Some n \<Rightarrow> if n = [] then ''livenet'' else n | None \<Rightarrow> ''livenet'') in
      case networks n of Some nw \<Rightarrow> Inr nw | None \<Rightarrow> Inl (JsTypeError ''Cannot read property of undefined''))"

section \<open>EncodedData.js\<close>

text \<open>An object is its data and its encoding. Looking up an encoding or a converter by a name that
  is none of the three is the error of \<open>as\<close> (names that every object inherits apart).\<close>

datatype encoded = Ed_binary buffer | Ed_base58 string | Ed_hex string

fun ed_encoding :: "encoded \<Rightarrow> string" where
  "ed_encoding (Ed_binary b) = ''binary''"
| "ed_encoding (Ed_base58 s) = ''base58''"
| "ed_encoding (Ed_hex s) = ''hex''"

fun to_binary :: "(string \<Rightarrow> buffer res) \<Rightarrow> encoded \<Rightarrow> buffer res" where
  "to_binary dec (Ed_binary b) = Inr b"
| "to_binary dec (Ed_base58 s) = dec s"
| "to_binary dec (Ed_hex s) = from_hex s"

fun to_base58 :: "(buffer \<Rightarrow> string) \<Rightarrow> (string \<Rightarrow> buffer res) \<Rightarrow> encoded \<Rightarrow> string res" where
  "to_base58 enc dec (Ed_binary b) = Inr (enc b)"
| "to_base58 enc dec (Ed_base58 s) = Inr s"
| "to_base58 enc dec (Ed_hex s) = rbind (from_hex s) (\<lambda>b. Inr (enc b))"

fun to_hex_text :: "(string \<Rightarrow> buffer res) \<Rightarrow> encoded \<Rightarrow> string res" where
  "to_hex_text dec (Ed_binary b) = Inr (to_hex b)"
| "to_hex_text dec (Ed_base58 s) = rbind (dec s) (\<lambda>b. Inr (to_hex b))"
| "to_hex_text dec (Ed_hex s) = Inr s"

definition ed_withEncoding :: "(buffer \<Rightarrow> string) \<Rightarrow> (string \<Rightarrow> buffer res) \<Rightarrow> string \<Rightarrow> encoded \<Rightarrow> encoded res" where
  "ed_withEncoding enc dec encoding d =
     (if encoding = ''binary'' then rbind (to_binary dec d) (\<lambda>b. Inr (Ed_binary b))
      else if encoding = ''base58'' then rbind (to_base58 enc dec d) (\<lambda>s. Inr (Ed_base58 s))
      else if encoding = ''hex'' then rbind (to_hex_text dec d) (\<lambda>s. Inr (Ed_hex s))
      else Inl (JsError (''invalid encoding: '' @ encoding)))"

definition ed_set_encoding :: "(buffer \<Rightarrow> string) \<Rightarrow> (string \<Rightarrow> buffer res) \<Rightarrow> string \<Rightarrow> encoded \<Rightarrow> encoded res" where
  "ed_set_encoding enc dec encoding d =
     (if encoding \<noteq> [] \<and> encoding \<noteq> ed_encoding d then ed_withEncoding enc dec encoding d else Inr d)"

text \<open>A callback sees the object in binary and may change it. When anything throws, the object stays
  as it is then: the old encoding comes back only at the end.\<close>

type_synonym 'a ed_call = "encoded \<Rightarrow> 'a res \<times> encoded"

definition doAsBinary :: "(buffer \<Rightarrow> string) \<Rightarrow> (string \<Rightarrow> buffer res) \<Rightarrow> unit ed_call \<Rightarrow> unit ed_call" where
  "doAsBinary enc dec callback d =
     (case ed_set_encoding enc dec ''binary'' d of
        Inl e \<Rightarrow> (Inl e, d)
      | Inr d1 \<Rightarrow> (case callback d1 of
          (Inl e, d2) \<Rightarrow> (Inl e, d2)
        | (Inr _, d2) \<Rightarrow> (case ed_set_encoding enc dec (ed_encoding d) d2 of
            Inl e \<Rightarrow> (Inl e, d2)
          | Inr d3 \<Rightarrow> (Inr (), d3))))"

definition ed_validate :: "(string \<Rightarrow> buffer res) \<Rightarrow> unit ed_call" where
  "ed_validate dec d = (rbind (to_binary dec d) (\<lambda>_. Inr ()), d)"

section \<open>VersionedData.js\<close>

definition vd_version :: "(string \<Rightarrow> buffer res) \<Rightarrow> encoded \<Rightarrow> nat res" where
  "vd_version dec d = rbind (to_binary dec d) (\<lambda>b. readUInt8 b 0)"

definition vd_payload :: "(string \<Rightarrow> buffer res) \<Rightarrow> encoded \<Rightarrow> buffer res" where
  "vd_payload dec d = rbind (to_binary dec d) (\<lambda>b. Inr (drop 1 b))"

fun write_version :: "nat \<Rightarrow> unit ed_call" where
  "write_version num (Ed_binary b) =
     (case writeUInt8 b num 0 of Inl e \<Rightarrow> (Inl e, Ed_binary b) | Inr b' \<Rightarrow> (Inr (), Ed_binary b'))"
| "write_version num d = (Inl (JsTypeError ''this.data.writeUInt8 is not a function''), d)"

fun write_payload :: "buffer \<Rightarrow> unit ed_call" where
  "write_payload data (Ed_binary b) = (Inr (), Ed_binary (buf_copy data b 1))"
| "write_payload data d = (Inr (), d)"

definition vd_set_version :: "(buffer \<Rightarrow> string) \<Rightarrow> (string \<Rightarrow> buffer res) \<Rightarrow> nat \<Rightarrow> unit ed_call" where
  "vd_set_version enc dec num = doAsBinary enc dec (write_version num)"

definition vd_set_payload :: "(buffer \<Rightarrow> string) \<Rightarrow> (string \<Rightarrow> buffer res) \<Rightarrow> buffer \<Rightarrow> unit ed_call" where
  "vd_set_payload enc dec data = doAsBinary enc dec (write_payload data)"

text \<open>The constructor passes the payload on as the name of an encoding. A buffer is looked up under
  its text, and the one text of 20 bytes that every object has a property under is
  \<open>propertyIsEnumerable\<close>; the object then has no converters.\<close>

definition inherited_name :: buffer where
  "inherited_name = map (\<lambda>c. word_of_nat (of_char c)) ''propertyIsEnumerable''"

definition new_VersionedData :: "(buffer \<Rightarrow> string) \<Rightarrow> (string \<Rightarrow> buffer res) \<Rightarrow> nat \<Rightarrow> buffer \<Rightarrow> encoded res" where
  "new_VersionedData enc dec version payload =
     (if payload = inherited_name then Inl (JsTypeError ''Cannot read property of undefined'')
      else let d = Ed_binary (new_buffer (length payload + 1));
               (r, d) = vd_set_version enc dec version d
           in rbind r (\<lambda>_. let (r, d) = vd_set_payload enc dec payload d in rbind r (\<lambda>_. Inr d)))"

section \<open>Address.js\<close>

definition new_Address :: "(buffer \<Rightarrow> string) \<Rightarrow> (string \<Rightarrow> buffer res) \<Rightarrow> nat \<Rightarrow> buffer \<Rightarrow> encoded res" where
  "new_Address enc dec version hash =
     (if length hash \<noteq> 0 \<and> length hash \<noteq> 20 then Inl (JsError ''Hash must be 20 bytes'')
      else new_VersionedData enc dec version hash)"

definition ad_network :: "(string \<Rightarrow> buffer res) \<Rightarrow> encoded \<Rightarrow> bc_network option res" where
  "ad_network dec d = rbind (vd_version dec d) (\<lambda>version.
     Inr (if version = addressVersion livenet \<or> version = P2SHVersion livenet then Some livenet
          else if version = addressVersion testnet \<or> version = P2SHVersion testnet then Some testnet
          else None))"

definition check_binary_length :: "(string \<Rightarrow> buffer res) \<Rightarrow> unit ed_call" where
  "check_binary_length dec d = (case ed_validate dec d of
       (Inl e, d) \<Rightarrow> (Inl e, d)
     | (Inr _, d) \<Rightarrow> (rbind (to_binary dec d) (\<lambda>b.
         if length b \<noteq> 21 then Inl (JsError ''invalid data length'') else Inr ()), d))"

definition ad_validate :: "(buffer \<Rightarrow> string) \<Rightarrow> (string \<Rightarrow> buffer res) \<Rightarrow> unit ed_call" where
  "ad_validate enc dec d = (case doAsBinary enc dec (check_binary_length dec) d of
       (Inl e, d) \<Rightarrow> (Inl e, d)
     | (Inr _, d) \<Rightarrow> (rbind (ad_network dec d) (\<lambda>nw.
         if nw = None then Inl (JsError ''invalid network'') else Inr ()), d))"

definition ad_isValid :: "(buffer \<Rightarrow> string) \<Rightarrow> (string \<Rightarrow> buffer res) \<Rightarrow> encoded \<Rightarrow> bool \<times> encoded" where
  "ad_isValid enc dec d = (case ad_validate enc dec d of (r, d) \<Rightarrow> (\<not> isl r, d))"

definition ad_isScript :: "(buffer \<Rightarrow> string) \<Rightarrow> (string \<Rightarrow> buffer res) \<Rightarrow> bool ed_call" where
  "ad_isScript enc dec d = (case ad_isValid enc dec d of (valid, d) \<Rightarrow>
     (if valid then
        rbind (vd_version dec d) (\<lambda>version.
        rbind (ad_network dec d) (\<lambda>nw. case nw of
          None \<Rightarrow> Inl (JsTypeError ''Cannot read property of undefined'')
        | Some nw \<Rightarrow> Inr (version = P2SHVersion nw)))
      else Inr False, d))"

definition ad_getScriptPubKey :: "(string \<Rightarrow> buffer res) \<Rightarrow> encoded \<Rightarrow> bc_script res" where
  "ad_getScriptPubKey dec d = rbind (vd_version dec d) (\<lambda>version.
     if version = addressVersion livenet \<or> version = addressVersion testnet
     then rbind (vd_payload dec d) createPubKeyHashOut
     else if version = P2SHVersion livenet \<or> version = P2SHVersion testnet
     then rbind (vd_payload dec d) createP2SH
     else Inl (JsError ''invalid address - unknown version''))"

definition getScriptPubKeyFor :: "(string \<Rightarrow> buffer res) \<Rightarrow> string \<Rightarrow> bc_script res" where
  "getScriptPubKeyFor dec s = ad_getScriptPubKey dec (Ed_base58 s)"

definition Address_validate :: "(buffer \<Rightarrow> string) \<Rightarrow> (string \<Rightarrow> buffer res) \<Rightarrow> string \<Rightarrow> bool" where
  "Address_validate enc dec s = fst (ad_isValid enc dec (Ed_base58 s))"

subsection \<open>Addresses of keys and scripts\<close>

text \<open>The codec and the two hash functions of Node's crypto.\<close>

record address_env =
  ae_enc :: "buffer \<Rightarrow> string"
  ae_dec :: "string \<Rightarrow> buffer res"
  ae_sha256 :: "buffer \<Rightarrow> buffer"
  ae_ripe160 :: "buffer \<Rightarrow> buffer"

abbreviation ae_hash160 :: "address_env \<Rightarrow> buffer \<Rightarrow> buffer" where
  "ae_hash160 env \<equiv> sha256ripe160 (ae_sha256 env) (ae_ripe160 env)"

definition fromPubKey :: "address_env \<Rightarrow> buffer \<Rightarrow> string option \<Rightarrow> encoded res" where
  "fromPubKey env pubKey network =
     (if length pubKey \<noteq> 33 \<and> length pubKey \<noteq> 65 then Inl (JsError ''Invalid public key'')
      else rbind (network_of network) (\<lambda>nw.
        new_Address (ae_enc env) (ae_dec env) (addressVersion nw) (ae_hash160 env pubKey)))"

text \<open>A script is given as an object or as hexadecimal text.\<close>

definition script_arg :: "string + bc_script \<Rightarrow> bc_script res" where
  "script_arg script = (case script of Inl text \<Rightarrow> rbind (from_hex text) (\<lambda>b. Inr (new_script b)) | Inr s \<Rightarrow> Inr s)"

definition fromScript :: "address_env \<Rightarrow> string + bc_script \<Rightarrow> string option \<Rightarrow> encoded res" where
  "fromScript env script network =
     rbind (script_arg script) (\<lambda>script.
     rbind (network_of network) (\<lambda>nw.
       new_Address (ae_enc env) (ae_dec env) (P2SHVersion nw) (ae_hash160 env (bs_buffer script))))"

definition fromPubKeys :: "address_env \<Rightarrow> int \<Rightarrow> buffer list \<Rightarrow> string option \<Rightarrow> bool \<Rightarrow> encoded res" where
  "fromPubKeys env mReq pubKeys network noSorting =
     rbind (rmap (\<lambda>pubKey. if length pubKey \<noteq> 33 \<and> length pubKey \<noteq> 65 then Inl (JsError ''Invalid public key'')
                            else Inr ()) pubKeys) (\<lambda>_.
     rbind (createMultisig mReq pubKeys noSorting) (\<lambda>script. fromScript env (Inr script) network))"

definition captured_hashes :: "address_env \<Rightarrow> bc_script \<Rightarrow> buffer list" where
  "captured_hashes env s =
     (let payload = map (\<lambda>c. data_of (Some c)) (bc_capture s) in
      case bc_classify s of
        TX_PUBKEY \<Rightarrow> map (ae_hash160 env) payload
      | TX_MULTISIG \<Rightarrow> map (ae_hash160 env) payload
      | _ \<Rightarrow> payload)"

definition captured_version :: "bc_network \<Rightarrow> bc_script \<Rightarrow> nat" where
  "captured_version nw s = (if bc_classify s = TX_SCRIPTHASH then P2SHVersion nw else addressVersion nw)"

definition fromScriptPubKey :: "address_env \<Rightarrow> string + bc_script \<Rightarrow> string option \<Rightarrow> encoded list res" where
  "fromScriptPubKey env scriptPubKey network =
     rbind (script_arg scriptPubKey) (\<lambda>s.
       if bc_classify s = TX_UNKNOWN then Inr []
       else rbind (network_of network) (\<lambda>nw.
         rmap (new_Address (ae_enc env) (ae_dec env) (captured_version nw s)) (captured_hashes env s)))"

definition fromPubkeyHashScriptSig :: "address_env \<Rightarrow> bc_script \<Rightarrow> string option \<Rightarrow> encoded res" where
  "fromPubkeyHashScriptSig env scriptSig network =
     (case chunk_at (bs_chunks scriptSig) 1 of
        Some (Data pubKey) \<Rightarrow> fromPubKey env pubKey network
      | Some (Op n) \<Rightarrow> Inl (JsError ''Invalid public key'')
      | None \<Rightarrow> Inl (JsTypeError ''Cannot read property of undefined''))"

definition fromScriptSig :: "address_env \<Rightarrow> string + bc_script \<Rightarrow> string option \<Rightarrow> encoded option res" where
  "fromScriptSig env scriptSig network =
     rbind (script_arg scriptSig) (\<lambda>s.
       if length (bs_chunks s) = 2 then rbind (fromPubkeyHashScriptSig env s network) (\<lambda>a. Inr (Some a))
       else Inr None)"


section \<open>The versions\<close>

lemma network_known:
  assumes "vd_version dec d = Inr (unat (v :: byte))"
  shows "isl (rbind (ad_network dec d) (\<lambda>nw. if nw = None then Inl (JsError ''invalid network'') else Inr ())) \<longleftrightarrow>
    v \<notin> {0x00, 0x05, 0x6f, 0xc4}"
  using assms by (auto simp: ad_network_def livenet_def testnet_def word_unat_eq_iff)

section \<open>The codec of bitcore\<close>

abbreviation bc_enc :: "(buffer \<Rightarrow> buffer) \<Rightarrow> buffer \<Rightarrow> buffer \<Rightarrow> string" where
  "bc_enc sha256 gb p \<equiv> fst (base58check_encode sha256 gb p)"

abbreviation bc_dec :: "(nat \<Rightarrow> nat res) \<Rightarrow> (buffer \<Rightarrow> buffer) \<Rightarrow> string \<Rightarrow> buffer res" where
  "bc_dec au sha256 s \<equiv> base58check_decode au sha256 s"

text \<open>What the encoded data relies on, and that Base58Check of bitcore provides it.\<close>

locale data_codec =
  fixes enc :: "'c \<Rightarrow> buffer \<Rightarrow> string" and dec :: "'c \<Rightarrow> string \<Rightarrow> buffer res" and ok :: "'c \<Rightarrow> bool"
  assumes dec_iff: "ok c \<Longrightarrow> dec c s = Inr p \<longleftrightarrow> enc c p = s"
begin

lemma dec_enc: "ok c \<Longrightarrow> dec c (enc c p) = Inr p"
  by (simp add: dec_iff)

lemma enc_inj: "ok c \<Longrightarrow> enc c p = enc c q \<Longrightarrow> p = q"
  by (metis dec_enc Inr_inject)

lemma binary_of_text: "ok c \<Longrightarrow> to_base58 (enc c) (dec c) d = Inr s \<Longrightarrow> to_binary (dec c) d = Inr p \<Longrightarrow> enc c p = s"
  by (cases d) (auto simp: dec_iff)

lemma text_of_binary: "ok c \<Longrightarrow> to_binary (dec c) d = Inr p \<Longrightarrow> to_base58 (enc c) (dec c) d = Inr (enc c p)"
  by (cases d) (auto simp: dec_iff)

text \<open>Going to binary, leaving the data alone and coming back keeps the text.\<close>

lemma encoding_keeps_text:
  "ok c \<Longrightarrow> ed_set_encoding (enc c) (dec c) k d = Inr d' \<Longrightarrow>
     to_binary (dec c) d = Inr p \<Longrightarrow> to_binary (dec c) d' = Inr p"
  by (cases d) (auto simp: ed_set_encoding_def ed_withEncoding_def dec_iff from_hex_to_hex dest: enc_inj split: if_splits)

lemma binary_of_encoding:
  "ed_set_encoding (enc c) (dec c) ''binary'' d = Inr d' \<Longrightarrow> \<exists>p. to_binary (dec c) d = Inr p \<and> d' = Ed_binary p"
  by (cases d) (auto simp: ed_set_encoding_def ed_withEncoding_def)

lemma validate_keeps_text:
  assumes "ok c"
  shows "to_base58 (enc c) (dec c) (snd (ad_isValid (enc c) (dec c) d)) = to_base58 (enc c) (dec c) d"
proof (cases "ed_set_encoding (enc c) (dec c) ''binary'' d")
  case (Inl e)
  then show ?thesis by (simp add: ad_isValid_def ad_validate_def doAsBinary_def)
next
  case (Inr d1)
  then obtain p where p: "to_binary (dec c) d = Inr p" "d1 = Ed_binary p" using binary_of_encoding by blast
  define d' where "d' = snd (ad_isValid (enc c) (dec c) d)"
  have "d' = d1 \<or> ed_set_encoding (enc c) (dec c) (ed_encoding d) d1 = Inr d'"
    using Inr unfolding d'_def
    by (auto simp: ad_isValid_def ad_validate_def doAsBinary_def check_binary_length_def ed_validate_def
          split: sum.splits prod.splits)
  then have "to_binary (dec c) d' = Inr p" using encoding_keeps_text [OF assms] p by auto
  then show ?thesis using text_of_binary [OF assms] p(1) by (simp add: d'_def)
qed

lemma validate_iff:
  assumes "ok c"
  shows "fst (ad_isValid (enc c) (dec c) d) \<longleftrightarrow>
    (\<exists>v h. to_binary (dec c) d = Inr (v # h) \<and> length h = 20 \<and> v \<in> {0x00, 0x05, 0x6f, 0xc4})"
proof (cases "ed_set_encoding (enc c) (dec c) ''binary'' d")
  case (Inl e)
  then have "\<exists>e. to_binary (dec c) d = Inl e"
    by (cases d) (auto simp: ed_set_encoding_def ed_withEncoding_def rbind_Inl_iff split: if_splits)
  then show ?thesis using Inl by (auto simp: ad_isValid_def ad_validate_def doAsBinary_def)
next
  case (Inr d1)
  then obtain p where p: "to_binary (dec c) d = Inr p" "d1 = Ed_binary p" using binary_of_encoding by blast
  obtain d2 where d2: "ed_set_encoding (enc c) (dec c) (ed_encoding d) d1 = Inr d2"
    using p(2) by (cases d) (auto simp: ed_set_encoding_def ed_withEncoding_def)
  have b: "to_binary (dec c) d2 = Inr p" using encoding_keeps_text [OF assms d2] p(2) by simp
  have "fst (ad_isValid (enc c) (dec c) d) \<longleftrightarrow> length p = 21 \<and>
      \<not> isl (rbind (ad_network (dec c) d2) (\<lambda>nw. if nw = None then Inl (JsError ''invalid network'') else Inr ()))"
    using Inr d2 p(2) by (simp add: ad_isValid_def ad_validate_def doAsBinary_def check_binary_length_def ed_validate_def)
  also have "\<dots> \<longleftrightarrow> (\<exists>v h. p = v # h \<and> length h = 20 \<and> v \<in> {0x00, 0x05, 0x6f, 0xc4})"
  proof (cases p)
    case (Cons v h)
    then have "vd_version (dec c) d2 = Inr (unat v)" using b by (simp add: vd_version_def readUInt8_nth del: One_nat_def)
    then show ?thesis using Cons by (auto simp: network_known)
  qed simp
  finally show ?thesis using p(1) by auto
qed

end

type_synonym codec = "(nat \<Rightarrow> nat res) \<times> (buffer \<Rightarrow> buffer) \<times> buffer"

definition codec_ok :: "codec \<Rightarrow> bool" where
  "codec_ok c = (case c of (au, sha256, gb) \<Rightarrow>
     (\<forall>n. isl (au n)) \<and> (\<forall>x. length (sha256 x) = 32) \<and> 1024 \<le> length gb)"

definition codec_enc :: "codec \<Rightarrow> buffer \<Rightarrow> string" where
  "codec_enc c p = (case c of (au, sha256, gb) \<Rightarrow> bc_enc sha256 gb p)"

definition codec_dec :: "codec \<Rightarrow> string \<Rightarrow> buffer res" where
  "codec_dec c s = (case c of (au, sha256, gb) \<Rightarrow> bc_dec au sha256 s)"

interpretation bc58: data_codec codec_enc codec_dec codec_ok
proof
  fix c s p assume "codec_ok c"
  obtain au sha256 gb where c: "c = (au, sha256, gb)" by (cases c)
  show "codec_dec c s = Inr p \<longleftrightarrow> codec_enc c p = s"
    using \<open>codec_ok c\<close> base58check_inverse [of au sha256 gb s p]
    by (auto simp: c codec_ok_def codec_enc_def codec_dec_def)
qed


section \<open>The constructor and the two scripts\<close>

lemma new_Address_bytes:
  assumes "length h = 20" "v < 256"
  shows "new_Address enc dec v h =
    (if h = inherited_name then Inl (JsTypeError ''Cannot read property of undefined'')
     else Inr (Ed_binary (word_of_nat v # h)))"
proof -
  have "writeUInt8 (new_buffer 21) v 0 = Inr (word_of_nat v # new_buffer 20)"
    using assms by (simp add: writeLE_def write_at_def new_buffer_def)
  moreover have "buf_copy h (word_of_nat v # new_buffer 20) 1 = word_of_nat v # h"
    using assms by (simp add: buf_copy_def write_at_def)
  ultimately show ?thesis
    using assms by (simp add: new_Address_def new_VersionedData_def vd_set_version_def vd_set_payload_def doAsBinary_def
          ed_set_encoding_def del: One_nat_def)
qed

lemma createPubKeyHashOut_chunks:
  "length h < 2 ^ 32 \<Longrightarrow> createPubKeyHashOut h = Inr (fromChunks (p2pkh_chunks h))"
  by (simp add: createPubKeyHashOut_def op_a.appends bytes_a.appends synced_def p2pkh_chunks_def chunksToBuffer_concat
        fromChunks_def updateBuffer_def)

lemma createP2SH_chunks:
  "length h < 2 ^ 32 \<Longrightarrow> createP2SH h = Inr (fromChunks (p2sh_chunks h))"
  by (simp add: createP2SH_def op_a.appends bytes_a.appends synced_def p2sh_chunks_def chunksToBuffer_concat
        fromChunks_def updateBuffer_def)

lemma script_bytes:
  assumes "length h < 76"
  shows "bs_buffer (fromChunks (p2pkh_chunks h)) = [0x76, 0xa9, word_of_nat (length h)] @ h @ [0x88, 0xac]"
    and "bs_buffer (fromChunks (p2sh_chunks h)) = [0xa9, word_of_nat (length h)] @ h @ [0x87]"
  using assms by (simp_all add: fromChunks_def updateBuffer_def p2pkh_chunks_def p2sh_chunks_def
      chunksToBuffer_concat bc_chunk_bytes_simps bc_prefix_def del: put_chunk.simps)

lemma new_script_chunks:
  "list_all canonical_chunk cs \<Longrightarrow> bs_buffer (fromChunks cs) = b \<Longrightarrow> bs_chunks (new_script b) = cs"
  using bc_parse_chunks [of cs] by (auto simp: new_script_def fromChunks_def updateBuffer_def)

lemma p2pkh_parsed:
  "length h = 20 \<Longrightarrow> bs_chunks (new_script ([0x76, 0xa9, 0x14] @ h @ [0x88, 0xac])) = p2pkh_chunks h"
  using script_bytes(1) [of h] by (intro new_script_chunks) (auto simp: p2pkh_chunks_def)

lemma p2sh_parsed:
  "length h = 20 \<Longrightarrow> bs_chunks (new_script ([0xa9, 0x14] @ h @ [0x87])) = p2sh_chunks h"
  using script_bytes(2) [of h] by (intro new_script_chunks) (auto simp: p2sh_chunks_def)

lemma p2pkh_classified:
  assumes "bs_chunks s = p2pkh_chunks h" "length h = 20"
  shows "bc_classify s = TX_PUBKEYHASH" "captured_hashes env s = [h]"
proof -
  show c: "bc_classify s = TX_PUBKEYHASH"
    using assms by (simp add: p2pkh_chunks_def bc_classify_def isPubkeyHash_def Let_def chunk_at_def loose_eq_def)
  show "captured_hashes env s = [h]"
    using assms by (simp add: captured_hashes_def bc_capture_def c p2pkh_chunks_def)
qed

lemma p2sh_classified:
  assumes "bs_chunks s = p2sh_chunks h" "length h = 20"
  shows "bc_classify s = TX_SCRIPTHASH" "captured_hashes env s = [h]"
proof -
  show c: "bc_classify s = TX_SCRIPTHASH"
    using assms by (simp add: p2sh_chunks_def bc_classify_def isPubkeyHash_def isP2SH_def Let_def chunk_at_def loose_eq_def)
  show "captured_hashes env s = [h]"
    using assms by (simp add: captured_hashes_def bc_capture_def c p2sh_chunks_def)
qed

text \<open>Which bytes bitcoinjs-lib gives an address, and which address.\<close>

lemma fromOutputScript_cases:
  assumes "fromOutputScript enc (Buf b) (Some n) = Inr a" "pubKeyHash n < 256" "scriptHash n < 256"
  obtains h where "length h = 20" "b = [0x76, 0xa9, 0x14] @ h @ [0x88, 0xac]" "a = enc (word_of_nat (pubKeyHash n) # h)"
  | h where "length h = 20" "b = [0xa9, 0x14] @ h @ [0x87]" "a = enc (word_of_nat (scriptHash n) # h)"
proof -
  obtain p q where pq: "isPubKeyHashOutput (Buf b) = Inr p" "isScriptHashOutput (Buf b) = Inr q"
    using isPubKeyHashOutput_no_error isScriptHashOutput_no_error by metis
  show ?thesis
  proof (cases p)
    case True
    then obtain h where h: "length h = 20" "b = [0x76, 0xa9, 0x14] @ h @ [0x88, 0xac]"
      using pq isPubKeyHashOutput_bytes [of b] by auto
    have "slice b 3 23 = h" using h slice_append_at [of 3 "[0x76, 0xa9, 0x14]" 23 h] by simp
    then have "a = enc (word_of_nat (pubKeyHash n) # h)"
      using assms(1) True pq toBase58Check_payload [OF h(1) assms(2), of enc] by (simp add: fromOutputScript_def)
    then show ?thesis using h that(1) by blast
  next
    case False
    then have q using assms(1) pq by (cases q) (simp_all add: fromOutputScript_def)
    then obtain h where h: "length h = 20" "b = [0xa9, 0x14] @ h @ [0x87]"
      using pq isScriptHashOutput_bytes [of b] by auto
    have "slice b 2 22 = h" using h slice_append_at [of 2 "[0xa9, 0x14]" 22 h] by simp
    then have "a = enc (word_of_nat (scriptHash n) # h)"
      using assms(1) False \<open>q\<close> pq toBase58Check_payload [OF h(1) assms(3), of enc] by (simp add: fromOutputScript_def)
    then show ?thesis using h that(2) by blast
  qed
qed

lemma toOutputScript_iff:
  assumes "n = bitcoin_network \<or> n = testnet_network"
  shows "toOutputScript dec s (Some n) = Inr b \<longleftrightarrow>
    (\<exists>v h. dec s = Inr (v # h) \<and> length h = 20 \<and>
      (unat v = pubKeyHash n \<and> b = [0x76, 0xa9, 0x14] @ h @ [0x88, 0xac] \<or>
       unat v = scriptHash n \<and> b = [0xa9, 0x14] @ h @ [0x87]))"
proof (cases "dec s")
  case (Inl e)
  then show ?thesis by (simp add: toOutputScript_def fromBase58Check_def)
next
  case (Inr p)
  consider "length p \<noteq> 21" | v h where "p = v # h" "length h = 20"
    by (metis One_nat_def Suc_inject Suc_length_conv eval_nat_numeral(3) numeral_eq_Suc)
  then show ?thesis
  proof cases
    case 1
    then show ?thesis using Inr by (auto simp: toOutputScript_def fromBase58Check_def)
  next
    case 2
    have ne: "pubKeyHash n \<noteq> scriptHash n" using assms by (auto simp: bitcoin_network_def testnet_network_def)
    have "fromBase58Check dec s = Inr \<lparr>da_hash = h, da_version = unat v\<rparr>"
      using 2 Inr by (simp add: fromBase58Check_def)
    then show ?thesis using 2 Inr ne
      by (auto simp: toOutputScript_def pubKeyHashOutput_bytes scriptHashOutput_bytes split: if_splits)
  qed
qed


lemma toOutputScript_decoder:
  assumes "\<And>s p. dec s = Inr p \<longleftrightarrow> dec' s = Inr p"
  shows "toOutputScript dec s (Some bitcoin_network) = Inr b \<or> toOutputScript dec s (Some testnet_network) = Inr b \<longleftrightarrow>
    (\<exists>v h. dec' s = Inr (v # h) \<and> length h = 20 \<and>
      (v \<in> {0x00, 0x6f} \<and> b = [0x76, 0xa9, 0x14] @ h @ [0x88, 0xac] \<or>
       v \<in> {0x05, 0xc4} \<and> b = [0xa9, 0x14] @ h @ [0x87]))"
  unfolding toOutputScript_iff [OF disjI1 [OF refl]] toOutputScript_iff [OF disjI2 [OF refl]] assms
  by (auto simp: bitcoin_network_def testnet_network_def word_unat_eq_iff)

lemma getScriptPubKey_bytes:
  assumes "to_binary dec d = Inr (v # h)" "length h < 76" "v \<in> {0x00, 0x05, 0x6f, 0xc4}"
  shows "\<exists>sc. ad_getScriptPubKey dec d = Inr sc \<and> bs_buffer sc =
    (if v \<in> {0x00, 0x6f} then [0x76, 0xa9, word_of_nat (length h)] @ h @ [0x88, 0xac]
     else [0xa9, word_of_nat (length h)] @ h @ [0x87])"
proof -
  have "vd_version dec d = Inr (unat v)" using assms(1) by (simp add: vd_version_def readUInt8_nth del: One_nat_def)
  moreover have "vd_payload dec d = Inr h" using assms(1) by (simp add: vd_payload_def)
  ultimately have "ad_getScriptPubKey dec d =
      Inr (fromChunks (if v \<in> {0x00, 0x6f} then p2pkh_chunks h else p2sh_chunks h))"
    using assms(2,3) createPubKeyHashOut_chunks [of h] createP2SH_chunks [of h]
    by (auto simp: ad_getScriptPubKey_def livenet_def testnet_def)
  then show ?thesis using script_bytes [OF assms(2)] by auto
qed

section \<open>Properties\<close>

text \<open>C15: a text is a valid address for bitcore with a given output script exactly if bitcoinjs-lib
  turns it into the same bytes, on the main or on the test network. The bs58check package of
  bitcoinjs-lib is assumed to decode what bitcore's own Base58Check decodes.\<close>

theorem address_scripts_agree:
  assumes "\<And>n. isl (au n)" "\<And>x. length (sha256 x) = 32" "1024 \<le> length gb"
    and "\<And>s p. b58_decode s = Inr p \<longleftrightarrow> base58check_decode au sha256 s = Inr p"
  shows "Address_validate (bc_enc sha256 gb) (bc_dec au sha256) s \<and>
      (\<exists>sc. getScriptPubKeyFor (bc_dec au sha256) s = Inr sc \<and> bs_buffer sc = b) \<longleftrightarrow>
    toOutputScript b58_decode s (Some bitcoin_network) = Inr b \<or>
    toOutputScript b58_decode s (Some testnet_network) = Inr b"
proof -
  have ok: "codec_ok (au, sha256, gb)" using assms(1-3) by (simp add: codec_ok_def)
  have valid: "Address_validate (bc_enc sha256 gb) (bc_dec au sha256) s \<longleftrightarrow>
      (\<exists>v h. bc_dec au sha256 s = Inr (v # h) \<and> length h = 20 \<and> v \<in> {0x00, 0x05, 0x6f, 0xc4})"
    using bc58.validate_iff [OF ok, of "Ed_base58 s"]
    by (simp add: Address_validate_def codec_enc_def [abs_def] codec_dec_def [abs_def])
  have script: "\<exists>sc. getScriptPubKeyFor (bc_dec au sha256) s = Inr sc \<and> bs_buffer sc =
      (if v \<in> {0x00, 0x6f} then [0x76, 0xa9, 0x14] @ h @ [0x88, 0xac] else [0xa9, 0x14] @ h @ [0x87])"
    if "bc_dec au sha256 s = Inr (v # h)" "length h = 20" "v \<in> {0x00, 0x05, 0x6f, 0xc4}" for v h
    using getScriptPubKey_bytes [of "bc_dec au sha256" "Ed_base58 s" v h] that by (auto simp: getScriptPubKeyFor_def)
  show ?thesis
    unfolding toOutputScript_decoder [of b58_decode "bc_dec au sha256", OF assms(4)] valid
    using script by fastforce
qed

text \<open>C16: an output script with an address in bitcoinjs-lib has exactly that address in bitcore, and
  bitcore finds it valid - except for the scripts whose hash spells \<open>propertyIsEnumerable\<close>, on which
  bitcore throws.\<close>

theorem script_addresses_agree:
  assumes "\<And>n. isl (au n)" "\<And>x. length (sha256 x) = 32" "1024 \<le> length gb"
    and "ae_enc env = bc_enc sha256 gb" "ae_dec env = bc_dec au sha256"
    and "fromOutputScript (bc_enc sha256 gb) (Buf b) (Some bitcoin_network) = Inr a"
  shows "if b \<in> {[0x76, 0xa9, 0x14] @ inherited_name @ [0x88, 0xac], [0xa9, 0x14] @ inherited_name @ [0x87]}
    then isl (fromScriptPubKey env (Inr (new_script b)) None)
    else \<exists>d. fromScriptPubKey env (Inr (new_script b)) None = Inr [d] \<and>
             to_base58 (ae_enc env) (ae_dec env) d = Inr a \<and> Address_validate (ae_enc env) (ae_dec env) a"
proof -
  have ok: "codec_ok (au, sha256, gb)" using assms(1-3) by (simp add: codec_ok_def)
  have valid: "Address_validate (ae_enc env) (ae_dec env) (bc_enc sha256 gb (v # h))"
    if "length h = 20" "v \<in> {0x00, 0x05}" for v h
    using bc58.validate_iff [OF ok, of "Ed_base58 (bc_enc sha256 gb (v # h))"] bc58.dec_enc [OF ok] that
    by (auto simp: assms(4,5) Address_validate_def codec_enc_def [abs_def] codec_dec_def [abs_def])
  have nw: "network_of None = Inr livenet" by (simp add: network_of_def networks_def)
  show ?thesis
  proof (rule fromOutputScript_cases [OF assms(6)])
    fix h assume h: "length h = 20" "b = [0x76, 0xa9, 0x14] @ h @ [0x88, 0xac]"
      "a = bc_enc sha256 gb (word_of_nat (pubKeyHash bitcoin_network) # h)"
    note c = p2pkh_classified [OF p2pkh_parsed [OF h(1)] h(1), folded h(2)]
    have "fromScriptPubKey env (Inr (new_script b)) None =
        (if h = inherited_name then Inl (JsTypeError ''Cannot read property of undefined'')
         else Inr [Ed_binary (0 # h)])"
      by (simp add: fromScriptPubKey_def script_arg_def c captured_version_def nw livenet_def new_Address_bytes [OF h(1)])
    then show ?thesis using h valid [of h 0] by (auto simp: bitcoin_network_def assms(4))
  next
    fix h assume h: "length h = 20" "b = [0xa9, 0x14] @ h @ [0x87]"
      "a = bc_enc sha256 gb (word_of_nat (scriptHash bitcoin_network) # h)"
    note c = p2sh_classified [OF p2sh_parsed [OF h(1)] h(1), folded h(2)]
    have "fromScriptPubKey env (Inr (new_script b)) None =
        (if h = inherited_name then Inl (JsTypeError ''Cannot read property of undefined'')
         else Inr [Ed_binary (5 # h)])"
      by (simp add: fromScriptPubKey_def script_arg_def c captured_version_def nw livenet_def new_Address_bytes [OF h(1)])
    then show ?thesis using h valid [of h 5] by (auto simp: bitcoin_network_def assms(4))
  qed (simp_all add: bitcoin_network_def)
qed


text \<open>asking an address whether it is valid does not change what it prints, whatever encoding
  its data is in and whatever the answer is, although a failing check leaves the data in binary.\<close>

theorem validation_keeps_text:
  assumes "\<And>n. isl (au n)" "\<And>x. length (sha256 x) = 32" "1024 \<le> length gb"
  shows "to_base58 (bc_enc sha256 gb) (bc_dec au sha256) (snd (ad_isValid (bc_enc sha256 gb) (bc_dec au sha256) d)) =
    to_base58 (bc_enc sha256 gb) (bc_dec au sha256) d"
proof -
  have "codec_ok (au, sha256, gb)" using assms by (simp add: codec_ok_def)
  from bc58.validate_keeps_text [OF this, of d] show ?thesis
    by (simp add: codec_enc_def [abs_def] codec_dec_def [abs_def])
qed

text \<open>Only \<open>isValid\<close> checks the length: \<open>getScriptPubKeyFor\<close> makes an output of any hash that a text
  with a correct checksum carries.\<close>

theorem script_of_short_hash:
  assumes "dec s = Inr (0 # h)" "length h < 76"
  shows "\<exists>sc. getScriptPubKeyFor dec s = Inr sc \<and>
    bs_buffer sc = [0x76, 0xa9, word_of_nat (length h)] @ h @ [0x88, 0xac]"
  using getScriptPubKey_bytes [of dec "Ed_base58 s" 0 h] assms by (simp add: getScriptPubKeyFor_def)

theorem script_of_short_hash_witness:
  "\<exists>sc. getScriptPubKeyFor (\<lambda>s. Inr [0, 7, 7]) ''x'' = Inr sc \<and> bs_buffer sc = [0x76, 0xa9, 2, 7, 7, 0x88, 0xac]"
  using script_of_short_hash [of "\<lambda>s. Inr [0, 7, 7]" "''x''" "[7, 7]"] by simp

section \<open>Examples\<close>

abbreviation sample_enc :: "buffer \<Rightarrow> string" where
  "sample_enc \<equiv> bc_enc b58_hash (new_buffer 1024)"

abbreviation sample_dec :: "string \<Rightarrow> buffer res" where
  "sample_dec \<equiv> bc_dec no_digit b58_hash"

definition sample_address_env :: address_env where
  "sample_address_env = \<lparr>ae_enc = sample_enc, ae_dec = sample_dec, ae_sha256 = b58_hash, ae_ripe160 = take 20\<rparr>"

lemma sample_dec_enc: "sample_dec (sample_enc p) = Inr p"
  using base58check_inverse [of no_digit b58_hash "new_buffer 1024" "sample_enc p" p] b58_samples by simp

theorem address_scripts_agree_witness:
  "Address_validate sample_enc sample_dec (sample_enc (5 # replicate 20 9)) \<and>
   (\<exists>sc. getScriptPubKeyFor sample_dec (sample_enc (5 # replicate 20 9)) = Inr sc \<and>
         bs_buffer sc = [0xa9, 0x14] @ replicate 20 9 @ [0x87])"
proof -
  have "toOutputScript sample_dec (sample_enc (5 # replicate 20 9)) (Some bitcoin_network) =
      Inr ([0xa9, 0x14] @ replicate 20 9 @ [0x87])"
    unfolding toOutputScript_iff [OF disjI1 [OF refl]] sample_dec_enc
    by (intro exI [of _ 5] exI [of _ "replicate 20 9"]) (simp add: bitcoin_network_def)
  then show ?thesis
    using address_scripts_agree [of no_digit b58_hash "new_buffer 1024" sample_dec "sample_enc (5 # replicate 20 9)"
        "[0xa9, 0x14] @ replicate 20 9 @ [0x87]"] b58_samples by simp
qed

theorem script_addresses_agree_witness:
  "isl (fromScriptPubKey sample_address_env (Inr (new_script ([0xa9, 0x14] @ inherited_name @ [0x87]))) None)"
proof -
  let ?b = "[0xa9, 0x14] @ inherited_name @ [0x87]"
  have "length inherited_name = 20" by (simp add: inherited_name_def)
  then have "isPubKeyHashOutput (Buf ?b) = Inr False" "isScriptHashOutput (Buf ?b) = Inr True"
    using isScriptHashOutput_bytes [of ?b] by (auto simp: isPubKeyHashOutput_def)
  then obtain a where "fromOutputScript sample_enc (Buf ?b) (Some bitcoin_network) = Inr a"
    using \<open>length inherited_name = 20\<close> toBase58Check_payload [of inherited_name 5 sample_enc]
      slice_append_at [of 2 "[0xa9, 0x14]" 22 inherited_name "[0x87]"]
    by (simp add: fromOutputScript_def bitcoin_network_def)
  then show ?thesis
    using script_addresses_agree [of no_digit b58_hash "new_buffer 1024" sample_address_env ?b a] b58_samples
    by (simp add: sample_address_env_def)
qed

theorem validation_keeps_text_witness:
  "to_base58 sample_enc sample_dec (snd (ad_isValid sample_enc sample_dec (Ed_base58 ''1T''))) = Inr ''1T''"
  using validation_keeps_text [of no_digit b58_hash "new_buffer 1024" "Ed_base58 ''1T''"] b58_samples by simp

end
