(* ===== verification/Bc_Tx.thy ===== *)
theory Bc_Tx
  imports Bc_Script_Laws
begin

text \<open>
  \<open>bitcore/lib/Transaction.js\<close>: bitcore's transactions, which keep outpoints and values as bytes
  and cache their serialisation and hash; their wire format; and the message that is signed for an
  input, which a serialiser object writes piece by piece. The hash function of Node's crypto module
  is an argument.
\<close>

section \<open>Inputs and outputs\<close>

record btx_in =
  bi_o :: buffer
  bi_s :: buffer
  bi_q :: nat

record btx_out =
  bo_v :: buffer
  bo_s :: buffer

record btx =
  bt_version :: nat
  bt_lock_time :: nat
  bt_ins :: "btx_in list"
  bt_outs :: "btx_out list"
  bt_hash :: "buffer option"
  bt_buffer :: "buffer option"

definition twoSha256 :: "(buffer \<Rightarrow> buffer) \<Rightarrow> buffer \<Rightarrow> buffer" where
  "twoSha256 sha256 data = sha256 (sha256 data)"

definition COINBASE_OP :: buffer where
  "COINBASE_OP = replicate 32 0 @ [0xff, 0xff, 0xff, 0xff]"

definition in_isCoinBase :: "btx_in \<Rightarrow> bool" where
  "in_isCoinBase i \<longleftrightarrow> bi_o i = COINBASE_OP"

definition in_serialize :: "btx_in \<Rightarrow> buffer res" where
  "in_serialize i =
     rbind (varIntBuf (length (bi_s i))) (\<lambda>slen.
     rbind (writeUInt32LE (new_buffer 4) (bi_q i) 0) (\<lambda>qbuf.
       Inr (bi_o i @ slen @ bi_s i @ qbuf)))"

definition getOutpointHash :: "btx_in \<Rightarrow> buffer" where
  "getOutpointHash i = slice (bi_o i) 0 32"

text \<open>\<open><<\<close> gives signed 32-bit numbers, so that the top byte can make the sum negative; \<open>o[k]\<close>
  beyond the end is \<open>undefined\<close>, which \<open><<\<close> reads as 0.\<close>

definition byte_or_0 :: "buffer \<Rightarrow> nat \<Rightarrow> int" where
  "byte_or_0 b k = (case byte_at b k of Some v \<Rightarrow> int v | None \<Rightarrow> 0)"

definition getOutpointIndex :: "btx_in \<Rightarrow> int" where
  "getOutpointIndex i =
     byte_or_0 (bi_o i) 32 + js_shl (byte_or_0 (bi_o i) 33) 8 +
     js_shl (byte_or_0 (bi_o i) 34) 16 + js_shl (byte_or_0 (bi_o i) 35) 24"

text \<open>Stores to bytes beyond the end of the buffer are ignored, as by \<open>list_update\<close>.\<close>

definition setOutpointIndex :: "btx_in \<Rightarrow> int \<Rightarrow> btx_in" where
  "setOutpointIndex i n =
     i\<lparr>bi_o := (bi_o i)[32 := word_of_int (js_and n 0xff), 33 := word_of_int (js_and (js_sar n 8) 0xff),
                        34 := word_of_int (js_and (js_sar n 16) 0xff), 35 := word_of_int (js_and (js_sar n 24) 0xff)]\<rparr>"

definition out_getValue :: "btx_out \<Rightarrow> nat" where
  "out_getValue o' = fst (word64le (new_parser (bo_v o')))"

definition out_serialize :: "btx_out \<Rightarrow> buffer res" where
  "out_serialize o' = rbind (varIntBuf (length (bo_s o'))) (\<lambda>slen. Inr (bo_v o' @ slen @ bo_s o'))"

section \<open>Transactions\<close>

definition bt_isCoinBase :: "btx \<Rightarrow> bool" where
  "bt_isCoinBase tx \<longleftrightarrow> length (bt_ins tx) = 1 \<and> in_isCoinBase (bt_ins tx ! 0)"

definition isStandard :: "btx \<Rightarrow> bool" where
  "isStandard tx \<longleftrightarrow>
     list_all (\<lambda>i. getInType (new_script (bi_s i)) \<noteq> ''Strange'') (bt_ins tx) \<and>
     list_all (\<lambda>o'. getOutType (new_script (bo_s o')) \<noteq> ''Strange'') (bt_outs tx)"

text \<open>The serialisation and the transaction with it in its cache.\<close>

definition bt_serialize :: "btx \<Rightarrow> (buffer \<times> btx) res" where
  "bt_serialize tx =
     rbind (writeUInt32LE (new_buffer 4) (bt_version tx) 0) (\<lambda>version.
     rbind (varIntBuf (length (bt_ins tx))) (\<lambda>nIns.
     rbind (rmap in_serialize (bt_ins tx)) (\<lambda>ins.
     rbind (varIntBuf (length (bt_outs tx))) (\<lambda>nOuts.
     rbind (rmap out_serialize (bt_outs tx)) (\<lambda>outs.
     rbind (writeUInt32LE (new_buffer 4) (bt_lock_time tx) 0) (\<lambda>lock_time.
       let b = version @ nIns @ concat ins @ nOuts @ concat outs @ lock_time
       in Inr (b, tx\<lparr>bt_buffer := Some b\<rparr>)))))))"

definition bt_getBuffer :: "btx \<Rightarrow> (buffer \<times> btx) res" where
  "bt_getBuffer tx = (case bt_buffer tx of Some b \<Rightarrow> Inr (b, tx) | None \<Rightarrow> bt_serialize tx)"

definition bt_calcHash :: "(buffer \<Rightarrow> buffer) \<Rightarrow> btx \<Rightarrow> (buffer \<times> btx) res" where
  "bt_calcHash sha256 tx =
     rbind (bt_getBuffer tx) (\<lambda>(b, tx).
       let h = twoSha256 sha256 b in Inr (h, tx\<lparr>bt_hash := Some h\<rparr>))"

definition no_hash :: "btx \<Rightarrow> bool" where
  "no_hash tx \<longleftrightarrow> bt_hash tx = None \<or> bt_hash tx = Some []"

text \<open>\<open>compare(this.calcHash(), this.hash)\<close> evaluates its arguments in this order.\<close>

definition bt_checkHash :: "(buffer \<Rightarrow> buffer) \<Rightarrow> btx \<Rightarrow> (bool \<times> btx) res" where
  "bt_checkHash sha256 tx =
     (if no_hash tx then Inr (False, tx)
      else rbind (bt_calcHash sha256 tx) (\<lambda>(h, tx). Inr (Some h = bt_hash tx, tx)))"

definition bt_getHash :: "(buffer \<Rightarrow> buffer) \<Rightarrow> btx \<Rightarrow> (buffer \<times> btx) res" where
  "bt_getHash sha256 tx =
     (if no_hash tx
      then rbind (bt_calcHash sha256 tx) (\<lambda>(h, tx). Inr (h, tx\<lparr>bt_hash := Some h\<rparr>))
      else Inr (the (bt_hash tx), tx))"

definition bt_inputs :: "btx \<Rightarrow> (buffer \<times> int) list" where
  "bt_inputs tx = map (\<lambda>txin. (getOutpointHash txin, getOutpointIndex txin)) (bt_ins tx)"

definition bt_calcSize :: "btx \<Rightarrow> nat" where
  "bt_calcSize tx =
     foldl (\<lambda>totalSize txout. totalSize + (getVarIntSize (length (bo_s txout)) + length (bo_s txout) + 8))
       (foldl (\<lambda>totalSize txin. totalSize + (36 + getVarIntSize (length (bi_s txin)) + length (bi_s txin) + 4))
          (8 + getVarIntSize (length (bt_ins tx))) (bt_ins tx) + getVarIntSize (length (bt_outs tx)))
       (bt_outs tx)"

section \<open>Parsing\<close>

definition parse_in :: "parser \<Rightarrow> btx_in \<times> parser" where
  "parse_in p =
     (let (o', p) = ps_buffer 36 p; (sLen, p) = ps_varInt p; (s, p) = ps_buffer sLen p; (q, p) = word32le p
      in (\<lparr>bi_o = o', bi_s = s, bi_q = q\<rparr>, p))"

definition parse_out :: "parser \<Rightarrow> btx_out \<times> parser" where
  "parse_out p =
     (let (v, p) = ps_buffer 8 p; (sLen, p) = ps_varInt p; (s, p) = ps_buffer sLen p
      in (\<lparr>bo_v = v, bo_s = s\<rparr>, p))"

text \<open>\<open>parse\<close> of a buffer keeps the whole buffer as the transaction's serialisation; of a parser,
  which may have more to read, it keeps none.\<close>

definition bt_parse_from :: "(buffer \<Rightarrow> buffer) \<Rightarrow> buffer option \<Rightarrow> parser \<Rightarrow> (btx \<times> parser) res" where
  "bt_parse_from sha256 cached p =
     (let (version, p) = word32le p;
          (txinCount, p) = ps_varInt p;
          (ins, p) = parse_times parse_in txinCount p;
          (txoutCount, p) = ps_varInt p;
          (outs, p) = parse_times parse_out txoutCount p;
          (lock_time, p) = word32le p;
          tx = \<lparr>bt_version = version, bt_lock_time = lock_time, bt_ins = ins, bt_outs = outs,
                bt_hash = None, bt_buffer = cached\<rparr>
      in rbind (bt_calcHash sha256 tx) (\<lambda>(_, tx). Inr (tx, p)))"

definition bt_parse :: "(buffer \<Rightarrow> buffer) \<Rightarrow> buffer \<Rightarrow> btx res" where
  "bt_parse sha256 b = rbind (bt_parse_from sha256 (Some b) (new_parser b)) (\<lambda>(tx, _). Inr tx)"

section \<open>The message signed for an input\<close>

record sig_serializer =
  ss_txTo :: btx
  ss_scriptCode :: bc_script
  ss_nIn :: nat
  ss_anyoneCanPay :: bool
  ss_hashSingle :: bool
  ss_hashNone :: bool
  ss_bytes :: buffer

definition new_serializer :: "btx \<Rightarrow> bc_script \<Rightarrow> nat \<Rightarrow> int \<Rightarrow> sig_serializer" where
  "new_serializer txTo scriptCode nIn nHashType =
     (let hashTypeMode = js_and nHashType 0x1f in
      \<lparr>ss_txTo = txTo, ss_scriptCode = scriptCode, ss_nIn = nIn,
       ss_anyoneCanPay = (js_and nHashType 0x80 \<noteq> 0), ss_hashSingle = (hashTypeMode = 3),
       ss_hashNone = (hashTypeMode = 2), ss_bytes = []\<rparr>)"

abbreviation put :: "(buffer \<Rightarrow> buffer) \<Rightarrow> sig_serializer \<Rightarrow> sig_serializer" where
  "put f z \<equiv> z\<lparr>ss_bytes := f (ss_bytes z)\<rparr>"

definition INT64_MAX :: buffer where "INT64_MAX = replicate 8 0xff"

definition serializeOutput :: "nat \<Rightarrow> sig_serializer \<Rightarrow> sig_serializer" where
  "serializeOutput nOutput z =
     (if ss_hashSingle z \<and> nOutput \<noteq> ss_nIn z
      then put (put_varint 0) (put (put_buffer INT64_MAX) z)
      else let out = bt_outs (ss_txTo z) ! nOutput
           in put (put_buffer (bo_s out)) (put (put_varint (length (bo_s out))) (put (put_buffer (bo_v out)) z)))"

definition serializeScriptCode :: "sig_serializer \<Rightarrow> sig_serializer" where
  "serializeScriptCode z =
     (let z = z\<lparr>ss_scriptCode := findAndDelete (Op 171) (ss_scriptCode z)\<rparr>;
          b = bs_buffer (ss_scriptCode z)
      in put (put_buffer b) (put (put_varint (length b)) z))"

definition serializeInput :: "nat \<Rightarrow> sig_serializer \<Rightarrow> sig_serializer" where
  "serializeInput nInput z =
     (let nInput = (if ss_anyoneCanPay z then ss_nIn z else nInput);
          txin = bt_ins (ss_txTo z) ! nInput;
          z = put (put_buffer (bi_o txin)) z;
          z = (if nInput \<noteq> ss_nIn z then put (put_varint 0) z else serializeScriptCode z)
      in if nInput \<noteq> ss_nIn z \<and> (ss_hashSingle z \<or> ss_hashNone z)
         then put (put_word32le 0) z
         else put (put_word32le (bi_q txin)) z)"

definition sig_serialize :: "sig_serializer \<Rightarrow> sig_serializer" where
  "sig_serialize z =
     (let z = put (put_word32le (bt_version (ss_txTo z))) z;
          nInputs = (if ss_anyoneCanPay z then 1 else length (bt_ins (ss_txTo z)));
          z = put (put_varint nInputs) z;
          z = fold serializeInput [0..<nInputs] z;
          nOutputs = (if ss_hashNone z then 0 else if ss_hashSingle z then ss_nIn z + 1 else length (bt_outs (ss_txTo z)));
          z = put (put_varint nOutputs) z;
          z = fold serializeOutput [0..<nOutputs] z
      in put (put_word32le (bt_lock_time (ss_txTo z))) z)"

definition oneBuffer :: buffer where "oneBuffer = 1 # replicate 31 0"

text \<open>The hash, and the script after the call: the serialiser deletes the code separators of the
  script it is given.\<close>

definition bc_hashForSignature ::
    "(buffer \<Rightarrow> buffer) \<Rightarrow> btx \<Rightarrow> bc_script \<Rightarrow> nat \<Rightarrow> int \<Rightarrow> buffer \<times> bc_script" where
  "bc_hashForSignature sha256 tx script inIndex hashType =
     (if inIndex \<ge> length (bt_ins tx) then (oneBuffer, script)
      else if js_and hashType 0x1f = 3 \<and> inIndex \<ge> length (bt_outs tx) then (oneBuffer, script)
      else let z = sig_serialize (new_serializer tx script inIndex hashType);
               hashBuf = put_word32le (nat (hashType mod 2 ^ 32)) []
           in (twoSha256 sha256 (ss_bytes z @ hashBuf), ss_scriptCode z))"

definition calcNormalizedHash :: "(buffer \<Rightarrow> buffer) \<Rightarrow> btx \<Rightarrow> buffer" where
  "calcNormalizedHash sha256 tx = fst (bc_hashForSignature sha256 tx (new_script []) 0 1)"

section \<open>Signatures in the inputs\<close>

definition input_script :: "btx \<Rightarrow> nat \<Rightarrow> bc_script res" where
  "input_script tx index =
     (if index < length (bt_ins tx) then Inr (new_script (bi_s (bt_ins tx ! index)))
      else Inl (JsTypeError ''Cannot read property s of undefined''))"

definition countInputSignatures :: "btx \<Rightarrow> nat \<Rightarrow> int res" where
  "countInputSignatures tx index = rbind (input_script tx index) countSignatures"

definition countInputMissingSignatures :: "btx \<Rightarrow> nat \<Rightarrow> rat option res" where
  "countInputMissingSignatures tx index = rbind (input_script tx index) countMissingSignatures"

definition isInputComplete :: "btx \<Rightarrow> nat \<Rightarrow> bool option res" where
  "isInputComplete tx index = rbind (countInputMissingSignatures tx index) (\<lambda>m. Inr (map_option (\<lambda>m. m = 0) m))"

text \<open>The loop stops at the first input whose answer is \<open>false\<close> or \<open>null\<close>.\<close>

fun complete_from :: "btx \<Rightarrow> nat list \<Rightarrow> bool res" where
  "complete_from tx [] = Inr True"
| "complete_from tx (i # is) =
     rbind (isInputComplete tx i) (\<lambda>c. if c \<noteq> Some True then Inr False else complete_from tx is)"

definition isComplete :: "btx \<Rightarrow> bool res" where
  "isComplete tx = complete_from tx [0..<length (bt_ins tx)]"

section \<open>The wire format\<close>

definition bin_bytes :: "btx_in \<Rightarrow> buffer" where
  "bin_bytes i = bi_o i @ varint_bytes (length (bi_s i)) @ bi_s i @ le_bytes 4 (bi_q i)"

definition bout_bytes :: "btx_out \<Rightarrow> buffer" where
  "bout_bytes o' = bo_v o' @ varint_bytes (length (bo_s o')) @ bo_s o'"

definition btx_bytes :: "btx \<Rightarrow> buffer" where
  "btx_bytes tx = le_bytes 4 (bt_version tx) @
     varint_bytes (length (bt_ins tx)) @ concat (map bin_bytes (bt_ins tx)) @
     varint_bytes (length (bt_outs tx)) @ concat (map bout_bytes (bt_outs tx)) @
     le_bytes 4 (bt_lock_time tx)"

definition bin_ok :: "btx_in \<Rightarrow> bool" where
  "bin_ok i \<longleftrightarrow> length (bi_o i) = 36 \<and> length (bi_s i) < 2 ^ 53 \<and> bi_q i < 2 ^ 32"

definition bout_ok :: "btx_out \<Rightarrow> bool" where
  "bout_ok o' \<longleftrightarrow> length (bo_v o') = 8 \<and> length (bo_s o') < 2 ^ 53"

definition btx_ok :: "btx \<Rightarrow> bool" where
  "btx_ok tx \<longleftrightarrow> bt_version tx < 2 ^ 32 \<and> bt_lock_time tx < 2 ^ 32 \<and>
     length (bt_ins tx) < 2 ^ 53 \<and> list_all bin_ok (bt_ins tx) \<and>
     length (bt_outs tx) < 2 ^ 53 \<and> list_all bout_ok (bt_outs tx)"

lemma write32: "v < 2 ^ 32 \<Longrightarrow> writeUInt32LE (new_buffer 4) v 0 = Inr (le_bytes 4 v)"
  using writeLE_fill [of v 4 "new_buffer 4" "[]"] by simp

lemma in_serialize_bytes: "bin_ok i \<Longrightarrow> in_serialize i = Inr (bin_bytes i)"
  by (simp add: in_serialize_def bin_ok_def bin_bytes_def varIntBuf_bytes write32 del: rbind_Inr_iff)

lemma out_serialize_bytes: "bout_ok o' \<Longrightarrow> out_serialize o' = Inr (bout_bytes o')"
  by (simp add: out_serialize_def bout_ok_def bout_bytes_def varIntBuf_bytes del: rbind_Inr_iff)

lemma rmap_Inr: "(\<And>x. x \<in> set xs \<Longrightarrow> f x = Inr (g x)) \<Longrightarrow> rmap f xs = Inr (map g xs)"
  by (induction xs) simp_all

lemma bt_serialize_bytes: "btx_ok tx \<Longrightarrow> bt_serialize tx = Inr (btx_bytes tx, tx\<lparr>bt_buffer := Some (btx_bytes tx)\<rparr>)"
proof -
  assume ok: "btx_ok tx"
  have "rmap in_serialize (bt_ins tx) = Inr (map bin_bytes (bt_ins tx))"
    using ok by (intro rmap_Inr in_serialize_bytes) (simp add: btx_ok_def list_all_iff)
  moreover have "rmap out_serialize (bt_outs tx) = Inr (map bout_bytes (bt_outs tx))"
    using ok by (intro rmap_Inr out_serialize_bytes) (simp add: btx_ok_def list_all_iff)
  ultimately show ?thesis
    using ok by (simp add: bt_serialize_def btx_ok_def btx_bytes_def varIntBuf_bytes write32 Let_def del: rbind_Inr_iff)
qed

interpretation bin_c: stream_codec bin_bytes parse_in bin_ok
proof
  fix x and pre post :: buffer
  assume ok: "bin_ok x"
  let ?o = "bi_o x" and ?n = "varint_bytes (length (bi_s x))" and ?s = "bi_s x" and ?q = "le_bytes 4 (bi_q x)"
  let ?buf = "pre @ bin_bytes x @ post"
  have "ps_buffer 36 \<lparr>ps_subject = ?buf, ps_pos = length pre\<rparr> = (?o, \<lparr>ps_subject = ?buf, ps_pos = length pre + length ?o\<rparr>)"
    using ok by (intro ps_slice.read_in_middle) (simp_all add: bin_bytes_def bin_ok_def)
  moreover have "ps_varInt \<lparr>ps_subject = ?buf, ps_pos = length pre + length ?o\<rparr> =
      (length ?s, \<lparr>ps_subject = ?buf, ps_pos = length pre + length ?o + length ?n\<rparr>)"
    using ok by (intro ps_varint.read_in_middle [where pre = "pre @ ?o"]) (simp_all add: bin_bytes_def bin_ok_def)
  moreover have "ps_buffer (length ?s) \<lparr>ps_subject = ?buf, ps_pos = length pre + length ?o + length ?n\<rparr> =
      (?s, \<lparr>ps_subject = ?buf, ps_pos = length pre + length ?o + length ?n + length ?s\<rparr>)"
    by (intro ps_slice.read_in_middle [where pre = "pre @ ?o @ ?n"]) (simp_all add: bin_bytes_def)
  moreover have "word32le \<lparr>ps_subject = ?buf, ps_pos = length pre + length ?o + length ?n + length ?s\<rparr> =
      (bi_q x, \<lparr>ps_subject = ?buf, ps_pos = length pre + length ?o + length ?n + length ?s + length ?q\<rparr>)"
    using ok by (intro ps_word32.read_in_middle [where pre = "pre @ ?o @ ?n @ ?s"]) (simp_all add: bin_bytes_def bin_ok_def)
  ultimately show "parse_in \<lparr>ps_subject = ?buf, ps_pos = length pre\<rparr> =
      (x, \<lparr>ps_subject = ?buf, ps_pos = length pre + length (bin_bytes x)\<rparr>)"
    unfolding parse_in_def by (simp only: Let_def prod.case) (simp add: bin_bytes_def)
qed

interpretation bout_c: stream_codec bout_bytes parse_out bout_ok
proof
  fix x and pre post :: buffer
  assume ok: "bout_ok x"
  let ?v = "bo_v x" and ?n = "varint_bytes (length (bo_s x))" and ?s = "bo_s x"
  let ?buf = "pre @ bout_bytes x @ post"
  have "ps_buffer 8 \<lparr>ps_subject = ?buf, ps_pos = length pre\<rparr> = (?v, \<lparr>ps_subject = ?buf, ps_pos = length pre + length ?v\<rparr>)"
    using ok by (intro ps_slice.read_in_middle) (simp_all add: bout_bytes_def bout_ok_def)
  moreover have "ps_varInt \<lparr>ps_subject = ?buf, ps_pos = length pre + length ?v\<rparr> =
      (length ?s, \<lparr>ps_subject = ?buf, ps_pos = length pre + length ?v + length ?n\<rparr>)"
    using ok by (intro ps_varint.read_in_middle [where pre = "pre @ ?v"]) (simp_all add: bout_bytes_def bout_ok_def)
  moreover have "ps_buffer (length ?s) \<lparr>ps_subject = ?buf, ps_pos = length pre + length ?v + length ?n\<rparr> =
      (?s, \<lparr>ps_subject = ?buf, ps_pos = length pre + length ?v + length ?n + length ?s\<rparr>)"
    by (intro ps_slice.read_in_middle [where pre = "pre @ ?v @ ?n"]) (simp_all add: bout_bytes_def)
  ultimately show "parse_out \<lparr>ps_subject = ?buf, ps_pos = length pre\<rparr> =
      (x, \<lparr>ps_subject = ?buf, ps_pos = length pre + length (bout_bytes x)\<rparr>)"
    unfolding parse_out_def by (simp only: Let_def prod.case) (simp add: bout_bytes_def)
qed

text \<open>What \<open>parse\<close> reads from the serialisation of a transaction, with the cache given.\<close>

lemma bt_parse_from_bytes:
  assumes ok: "btx_ok tx"
  shows "bt_parse_from sha256 cached \<lparr>ps_subject = pre @ btx_bytes tx @ post, ps_pos = length pre\<rparr> =
    rbind (bt_calcHash sha256 (tx\<lparr>bt_hash := None, bt_buffer := cached\<rparr>)) (\<lambda>(_, tx').
      Inr (tx', \<lparr>ps_subject = pre @ btx_bytes tx @ post, ps_pos = length pre + length (btx_bytes tx)\<rparr>))"
proof -
  let ?v = "le_bytes 4 (bt_version tx)" and ?m = "varint_bytes (length (bt_ins tx))"
    and ?is = "concat (map bin_bytes (bt_ins tx))" and ?n = "varint_bytes (length (bt_outs tx))"
    and ?os = "concat (map bout_bytes (bt_outs tx))" and ?l = "le_bytes 4 (bt_lock_time tx)"
  let ?buf = "pre @ btx_bytes tx @ post" and ?i = "length pre"
  have "word32le \<lparr>ps_subject = ?buf, ps_pos = ?i\<rparr> = (bt_version tx, \<lparr>ps_subject = ?buf, ps_pos = ?i + length ?v\<rparr>)"
    using ok by (intro ps_word32.read_in_middle [where pre = pre and post = "?m @ ?is @ ?n @ ?os @ ?l @ post"])
      (simp_all add: btx_ok_def btx_bytes_def)
  moreover have "ps_varInt \<lparr>ps_subject = ?buf, ps_pos = ?i + length ?v\<rparr> =
      (length (bt_ins tx), \<lparr>ps_subject = ?buf, ps_pos = ?i + length ?v + length ?m\<rparr>)"
    using ok by (intro ps_varint.read_in_middle [where pre = "pre @ ?v" and post = "?is @ ?n @ ?os @ ?l @ post"])
      (simp_all add: btx_ok_def btx_bytes_def)
  moreover have "parse_times parse_in (length (bt_ins tx)) \<lparr>ps_subject = ?buf, ps_pos = ?i + length ?v + length ?m\<rparr> =
      (bt_ins tx, \<lparr>ps_subject = ?buf, ps_pos = ?i + length ?v + length ?m + length ?is\<rparr>)"
    using ok by (intro bin_c.read_times [where pre = "pre @ ?v @ ?m" and post = "?n @ ?os @ ?l @ post"])
      (simp_all add: btx_ok_def btx_bytes_def)
  moreover have "ps_varInt \<lparr>ps_subject = ?buf, ps_pos = ?i + length ?v + length ?m + length ?is\<rparr> =
      (length (bt_outs tx), \<lparr>ps_subject = ?buf, ps_pos = ?i + length ?v + length ?m + length ?is + length ?n\<rparr>)"
    using ok by (intro ps_varint.read_in_middle [where pre = "pre @ ?v @ ?m @ ?is" and post = "?os @ ?l @ post"])
      (simp_all add: btx_ok_def btx_bytes_def)
  moreover have "parse_times parse_out (length (bt_outs tx))
        \<lparr>ps_subject = ?buf, ps_pos = ?i + length ?v + length ?m + length ?is + length ?n\<rparr> =
      (bt_outs tx, \<lparr>ps_subject = ?buf, ps_pos = ?i + length ?v + length ?m + length ?is + length ?n + length ?os\<rparr>)"
    using ok by (intro bout_c.read_times [where pre = "pre @ ?v @ ?m @ ?is @ ?n" and post = "?l @ post"])
      (simp_all add: btx_ok_def btx_bytes_def)
  moreover have "word32le \<lparr>ps_subject = ?buf, ps_pos = ?i + length ?v + length ?m + length ?is + length ?n + length ?os\<rparr> =
      (bt_lock_time tx, \<lparr>ps_subject = ?buf, ps_pos = ?i + length ?v + length ?m + length ?is + length ?n + length ?os + length ?l\<rparr>)"
    using ok by (intro ps_word32.read_in_middle [where pre = "pre @ ?v @ ?m @ ?is @ ?n @ ?os" and post = post])
      (simp_all add: btx_ok_def btx_bytes_def)
  moreover have "?i + length ?v + length ?m + length ?is + length ?n + length ?os + length ?l = ?i + length (btx_bytes tx)"
    by (simp add: btx_bytes_def)
  moreover have "\<lparr>bt_version = bt_version tx, bt_lock_time = bt_lock_time tx, bt_ins = bt_ins tx, bt_outs = bt_outs tx,
      bt_hash = None, bt_buffer = cached\<rparr> = tx\<lparr>bt_hash := None, bt_buffer := cached\<rparr>"
    by simp
  ultimately show ?thesis
    unfolding bt_parse_from_def by (simp only: Let_def prod.case)
qed

section \<open>The transactions of the two libraries\<close>

definition bc_in :: "tx_in \<Rightarrow> btx_in" where
  "bc_in i = \<lparr>bi_o = ti_hash i @ le_bytes 4 (ti_index i), bi_s = ti_script i, bi_q = ti_sequence i\<rparr>"

definition bc_out :: "tx_out \<Rightarrow> btx_out" where
  "bc_out o' = \<lparr>bo_v = value_bytes o', bo_s = to_script o'\<rparr>"

definition bc_tx :: "transaction \<Rightarrow> btx" where
  "bc_tx tx = \<lparr>bt_version = tx_version tx, bt_lock_time = tx_locktime tx, bt_ins = map bc_in (tx_ins tx),
     bt_outs = map bc_out (tx_outs tx), bt_hash = None, bt_buffer = None\<rparr>"

lemma bc_in_bytes [simp]: "bin_bytes (bc_in i) = in_bytes i"
  by (simp add: bin_bytes_def bc_in_def in_bytes_def)

lemma bc_out_bytes [simp]: "bout_bytes (bc_out o') = out_bytes o'"
  by (simp add: bout_bytes_def bc_out_def out_bytes_def)

lemma bc_tx_cache [simp]: "bt_buffer (bc_tx tx) = None" "bt_hash (bc_tx tx) = None"
  by (simp_all add: bc_tx_def)

lemma bc_tx_bytes: "btx_bytes (bc_tx tx) = tx_bytes tx"
  by (simp add: btx_bytes_def bc_tx_def tx_bytes_def comp_def)

lemma bc_tx_ok: "writable_tx tx \<Longrightarrow> btx_ok (bc_tx tx)"
  by (auto simp: btx_ok_def bc_tx_def writable_tx_def list_all_iff bin_ok_def bout_ok_def bc_in_def bc_out_def
      in_ok_def out_ok_def)

lemma bt_calcSize_length: "btx_ok tx \<Longrightarrow> bt_calcSize tx = length (btx_bytes tx)"
proof -
  assume ok: "btx_ok tx"
  have i: "foldl (\<lambda>totalSize txin. totalSize + (36 + getVarIntSize (length (bi_s txin)) + length (bi_s txin) + 4)) a xs =
      a + length (concat (map bin_bytes xs))" if "list_all bin_ok xs" for a xs
    using that by (induction xs arbitrary: a) (simp_all add: bin_bytes_def bin_ok_def getVarIntSize_eq)
  have o': "foldl (\<lambda>totalSize txout. totalSize + (getVarIntSize (length (bo_s txout)) + length (bo_s txout) + 8)) a xs =
      a + length (concat (map bout_bytes xs))" if "list_all bout_ok xs" for a xs
    using that by (induction xs arbitrary: a) (simp_all add: bout_bytes_def bout_ok_def getVarIntSize_eq)
  have "list_all bin_ok (bt_ins tx)" "list_all bout_ok (bt_outs tx)" using ok by (simp_all add: btx_ok_def)
  from i [OF this(1)] o' [OF this(2)] show ?thesis
    unfolding bt_calcSize_def by (simp only: getVarIntSize_eq) (simp add: btx_bytes_def)
qed

lemma to_int32_wrapped: "2147483648 \<le> v \<Longrightarrow> v < 4294967296 \<Longrightarrow> to_int32 v = v - 4294967296"
proof -
  assume v: "2147483648 \<le> v" "v < 4294967296"
  have "(v + 2147483648) mod 4294967296 = ((v - 2147483648) + 4294967296) mod 4294967296"
    by (simp only: diff_add_eq add_diff_eq [symmetric]) simp
  also have "\<dots> = (v - 2147483648) mod 4294967296" by (rule mod_add_self2)
  also have "\<dots> = v - 2147483648" by (rule mod_pos_pos_trivial) (use v in simp_all)
  finally show ?thesis by (simp add: to_int32_def)
qed

lemma outpoint_bytes:
  assumes "length h = 32" "n < 2 ^ 32"
  shows "getOutpointIndex \<lparr>bi_o = h @ le_bytes 4 n, bi_s = s, bi_q = q\<rparr> =
    (if n < 2 ^ 31 then int n else int n - 2 ^ 32)"
proof -
  define b0 b1 b2 b3 where b: "b0 = int (n mod 256)" "b1 = int (n div 256 mod 256)"
    "b2 = int (n div 65536 mod 256)" "b3 = int (n div 16777216)"
  have r: "0 \<le> b0" "b0 < 256" "0 \<le> b1" "b1 < 256" "0 \<le> b2" "b2 < 256" "0 \<le> b3" "b3 < 256"
    using assms(2) by (simp_all add: b less_mult_imp_div_less)
  have d: "n div 65536 = n div 256 div 256" "n div 16777216 = n div 65536 div 256"
    by (simp_all add: div_mult2_eq [symmetric])
  have "n = n mod 256 + 256 * (n div 256)" "n div 256 = n div 256 mod 256 + 256 * (n div 65536)"
    "n div 65536 = n div 65536 mod 256 + 256 * (n div 16777216)"
    unfolding d by (simp_all only: mod_mult_div_eq)
  then have n: "int n = b0 + 256 * b1 + 65536 * b2 + 16777216 * b3" unfolding b by linarith
  have le: "le_bytes 4 n = [word_of_nat (n mod 256), word_of_nat (n div 256 mod 256),
      word_of_nat (n div 65536 mod 256), word_of_nat (n div 16777216 mod 256)]"
  proof -
    have four: "4 = Suc (Suc (Suc (Suc 0)))" by simp
    show ?thesis unfolding four by (simp only: le_bytes.simps d)
  qed
  have m: "n div 16777216 mod 256 = n div 16777216" using r(8) by (simp add: b)
  have at: "byte_or_0 (h @ le_bytes 4 n) 32 = b0" "byte_or_0 (h @ le_bytes 4 n) 33 = b1"
    "byte_or_0 (h @ le_bytes 4 n) 34 = b2" "byte_or_0 (h @ le_bytes 4 n) 35 = b3"
    using assms(1) m unfolding le b by (simp_all add: byte_or_0_def byte_at_def nth_append)
  have s8: "js_shl b1 8 = 256 * b1" and s16: "js_shl b2 16 = 65536 * b2"
    using r by (simp_all add: js_shl_def to_int32_small)
  show ?thesis
  proof (cases "b3 < 128")
    case True
    then have "js_shl b3 24 = 16777216 * b3" using r by (simp add: js_shl_def to_int32_small)
    moreover have "int n < 2147483648" using True n r by linarith
    ultimately show ?thesis using at s8 s16 n by (simp add: getOutpointIndex_def)
  next
    case False
    then have "js_shl b3 24 = 16777216 * b3 - 4294967296" using r by (simp add: js_shl_def to_int32_small to_int32_wrapped)
    moreover have "\<not> int n < 2147483648" using False n r by linarith
    ultimately show ?thesis using at s8 s16 n by (simp add: getOutpointIndex_def)
  qed
qed

section \<open>Properties\<close>

text \<open>C32: the two libraries have one wire format: bitcore serialises the same transaction to the same
  bytes, computes the same size, and parses bitcoinjs-lib's bytes to the transaction, with the same
  hash, also in front of further bytes.\<close>

theorem bitcore_wire_format_agrees:
  assumes "tx_ok tx"
  shows "tx_toBuffer tx = Inr (tx_bytes tx) \<and> bt_serialize (bc_tx tx) = Inr (tx_bytes tx, (bc_tx tx)\<lparr>bt_buffer := Some (tx_bytes tx)\<rparr>) \<and>
    bt_calcSize (bc_tx tx) = byteLength tx \<and>
    bt_parse sha256 (tx_bytes tx) =
      Inr ((bc_tx tx)\<lparr>bt_hash := Some (twoSha256 sha256 (tx_bytes tx)), bt_buffer := Some (tx_bytes tx)\<rparr>) \<and>
    tx_getHash sha256 tx = Inr (twoSha256 sha256 (tx_bytes tx)) \<and>
    rbind (bt_parse_from sha256 None (new_parser (tx_bytes tx @ post))) (\<lambda>(t, p). Inr (bt_ins t, bt_outs t, ps_pos p)) =
      Inr (map bc_in (tx_ins tx), map bc_out (tx_outs tx), length (tx_bytes tx))"
proof -
  have w: "writable_tx tx" using assms by (simp add: tx_ok_def)
  note ok = bc_tx_ok [OF w]
  have p: "bt_parse_from sha256 cached (new_parser (tx_bytes tx @ rest)) =
      rbind (bt_calcHash sha256 ((bc_tx tx)\<lparr>bt_buffer := cached\<rparr>)) (\<lambda>(_, tx').
        Inr (tx', \<lparr>ps_subject = tx_bytes tx @ rest, ps_pos = length (tx_bytes tx)\<rparr>))" for cached rest
  proof -
    have e: "(bc_tx tx)\<lparr>bt_hash := None, bt_buffer := cached\<rparr> = (bc_tx tx)\<lparr>bt_buffer := cached\<rparr>"
      by (simp add: bc_tx_def)
    show ?thesis
      using bt_parse_from_bytes [OF ok, of sha256 cached "[]" rest]
      by (simp add: bc_tx_bytes new_parser_def e)
  qed
  have cached: "bt_calcHash sha256 ((bc_tx tx)\<lparr>bt_buffer := Some b\<rparr>) =
      Inr (twoSha256 sha256 b, (bc_tx tx)\<lparr>bt_hash := Some (twoSha256 sha256 b), bt_buffer := Some b\<rparr>)" for b
    by (simp add: bt_calcHash_def bt_getBuffer_def Let_def del: rbind_Inr_iff)
  have none: "(bc_tx tx)\<lparr>bt_buffer := None\<rparr> = bc_tx tx" by (simp add: bc_tx_def)
  have fresh: "bt_calcHash sha256 ((bc_tx tx)\<lparr>bt_buffer := None\<rparr>) =
      Inr (twoSha256 sha256 (tx_bytes tx),
           (bc_tx tx)\<lparr>bt_hash := Some (twoSha256 sha256 (tx_bytes tx)), bt_buffer := Some (tx_bytes tx)\<rparr>)"
    unfolding none using bt_serialize_bytes [OF ok] by (simp add: bt_calcHash_def bt_getBuffer_def bc_tx_bytes Let_def del: rbind_Inr_iff)
  have "bt_parse sha256 (tx_bytes tx) =
      Inr ((bc_tx tx)\<lparr>bt_hash := Some (twoSha256 sha256 (tx_bytes tx)), bt_buffer := Some (tx_bytes tx)\<rparr>)"
    using p [of "Some (tx_bytes tx)" "[]"] cached by (simp add: bt_parse_def del: rbind_Inr_iff)
  moreover have "rbind (bt_parse_from sha256 None (new_parser (tx_bytes tx @ post))) (\<lambda>(t, p). Inr (bt_ins t, bt_outs t, ps_pos p)) =
      Inr (map bc_in (tx_ins tx), map bc_out (tx_outs tx), length (tx_bytes tx))"
    unfolding p fresh by (simp add: bc_tx_def)
  moreover have "tx_getHash sha256 tx = Inr (twoSha256 sha256 (tx_bytes tx))"
    using w by (simp add: tx_getHash_def tx_toBuffer_bytes hash256_def twoSha256_def del: rbind_Inr_iff)
  ultimately show ?thesis
    using w bt_serialize_bytes [OF ok] bt_calcSize_length [OF ok]
    by (simp add: bc_tx_bytes byteLength_bytes tx_toBuffer_bytes)
qed

theorem bitcore_wire_format_agrees_witness:
  "bt_parse id (tx_bytes sample_tx) =
     Inr ((bc_tx sample_tx)\<lparr>bt_hash := Some (tx_bytes sample_tx), bt_buffer := Some (tx_bytes sample_tx)\<rparr>)"
  using bitcore_wire_format_agrees [OF sample_tx_ok, of id] by (simp add: twoSha256_def)

text \<open>a parsed transaction keeps the bytes it was parsed from: whatever is changed in it afterwards,
  its hash stays that of those bytes, and \<open>checkHash\<close>, which overwrites the hash it is to compare
  with, accepts every hash that is not empty.\<close>

theorem stale_hash_passes_check:
  fixes v l :: nat and ins :: "btx_in list" and outs :: "btx_out list"
  assumes "bt_parse sha256 b = Inr tx"
  defines "changed \<equiv> tx\<lparr>bt_version := v, bt_lock_time := l, bt_ins := ins, bt_outs := outs\<rparr>"
  shows "(\<exists>t. bt_getHash sha256 changed = Inr (twoSha256 sha256 b, t)) \<and>
    (h \<noteq> [] \<longrightarrow> (\<exists>t. bt_checkHash sha256 (changed\<lparr>bt_hash := Some h\<rparr>) = Inr (True, t)))"
proof -
  obtain p where "bt_parse_from sha256 (Some b) (new_parser b) = Inr (tx, p)"
    using assms(1) by (auto simp: bt_parse_def)
  then have "bt_buffer tx = Some b \<and> bt_hash tx = Some (twoSha256 sha256 b)"
    by (auto simp: bt_parse_from_def bt_calcHash_def bt_getBuffer_def Let_def split: prod.splits)
  then show ?thesis
    by (simp add: changed_def bt_getHash_def bt_checkHash_def no_hash_def bt_calcHash_def bt_getBuffer_def Let_def)
qed

theorem stale_hash_passes_check_witness:
  "\<exists>tx t. bt_parse id (tx_bytes sample_tx) = Inr tx \<and>
     bt_checkHash id (tx\<lparr>bt_version := 2, bt_lock_time := 0, bt_ins := [], bt_outs := []\<rparr>\<lparr>bt_hash := Some [1]\<rparr>) = Inr (True, t)"
proof -
  obtain tx where t: "bt_parse id (tx_bytes sample_tx) = Inr tx"
    using bitcore_wire_format_agrees [OF sample_tx_ok, of id "[]"] by blast
  then show ?thesis using stale_hash_passes_check [OF t, where v = 2 and l = 0 and ins = "[]" and outs = "[]" and h = "[1]"] by blast
qed

text \<open>\<open>getOutpointIndex\<close> puts the four bytes of the index together with signed operators: an index
  from 2^31 on, that of a coinbase input among them, comes out negative.\<close>

theorem outpoint_index_signed:
  assumes "in_ok i"
  shows "getOutpointHash (bc_in i) = ti_hash i \<and>
    getOutpointIndex (bc_in i) = (if ti_index i < 2 ^ 31 then int (ti_index i) else int (ti_index i) - 2 ^ 32)"
proof -
  have h: "length (ti_hash i) = 32" and n: "ti_index i < 2 ^ 32" using assms by (simp_all add: in_ok_def)
  show ?thesis using outpoint_bytes [OF h n] h by (simp add: getOutpointHash_def bc_in_def slice_def)
qed

theorem outpoint_index_signed_witness:
  "getOutpointIndex (bc_in \<lparr>ti_hash = replicate 32 0, ti_index = 0xffffffff, ti_script = [], ti_sequence = 0\<rparr>) = - 1"
  using outpoint_index_signed [of "\<lparr>ti_hash = replicate 32 0, ti_index = 0xffffffff, ti_script = [], ti_sequence = 0\<rparr>"]
  by (simp add: in_ok_def)

end
