(* ===== verification/Bc_Block.thy ===== *)
theory Bc_Block
  imports Bc_Tx Blk Bc_Base58
begin

text \<open>
  \<open>bitcore/lib/Block.js\<close>: bitcore's blocks, their header and parser, the hash they cache, proof of
  work, the tree of transaction hashes and the checks of a block. The hash function of Node's crypto
  and the clock are arguments. \<open>buffertools\<close> is read as the copy in the browser bundle has it: it
  compares lengths first and reverses into a new buffer.
\<close>

section \<open>Blocks\<close>

record bc_block =
  bb_hash :: "buffer option"
  bb_prev_hash :: buffer
  bb_merkle_root :: buffer
  bb_timestamp :: nat
  bb_bits :: nat
  bb_nonce :: nat
  bb_version :: nat
  bb_height :: nat
  bb_size :: nat
  bb_active :: bool
  bb_chainWork :: buffer
  bb_txs :: "btx list"

definition NULL_HASH :: buffer where
  "NULL_HASH = replicate 32 0"

text \<open>\<open>new Block()\<close>; the data that may be given replaces fields.\<close>

definition new_bc_block :: bc_block where
  "new_bc_block = \<lparr>bb_hash = None, bb_prev_hash = NULL_HASH, bb_merkle_root = NULL_HASH, bb_timestamp = 0, bb_bits = 0,
     bb_nonce = 0, bb_version = 0, bb_height = 0, bb_size = 0, bb_active = False, bb_chainWork = [], bb_txs = []\<rparr>"

definition getHeader :: "bc_block \<Rightarrow> buffer res" where
  "getHeader k =
     rbind (writeUInt32LE (new_buffer 80) (bb_version k) 0) (\<lambda>buf.
     let buf = buf_copy (bb_prev_hash k) buf 4;
         buf = buf_copy (bb_merkle_root k) buf 36
     in rbind (writeUInt32LE buf (bb_timestamp k) 68) (\<lambda>buf.
        rbind (writeUInt32LE buf (bb_bits k) 72) (\<lambda>buf. writeUInt32LE buf (bb_nonce k) 76)))"

fun parse_txs :: "(buffer \<Rightarrow> buffer) \<Rightarrow> nat \<Rightarrow> parser \<Rightarrow> (btx list \<times> parser) res" where
  "parse_txs sha256 0 p = Inr ([], p)"
| "parse_txs sha256 (Suc n) p =
     rbind (bt_parse_from sha256 None p) (\<lambda>(tx, p).
     rbind (parse_txs sha256 n p) (\<lambda>(txs, p). Inr (tx # txs, p)))"

definition bb_parse_header :: "parser \<Rightarrow> bc_block \<Rightarrow> bc_block \<times> parser" where
  "bb_parse_header p k =
     (let (version, p) = word32le p;
          (prev_hash, p) = ps_buffer 32 p;
          (merkle_root, p) = ps_buffer 32 p;
          (timestamp, p) = word32le p;
          (bits, p) = word32le p;
          (nonce, p) = word32le p
      in (k\<lparr>bb_version := version, bb_prev_hash := prev_hash, bb_merkle_root := merkle_root, bb_timestamp := timestamp,
            bb_bits := bits, bb_nonce := nonce, bb_txs := [], bb_size := 0\<rparr>, p))"

definition bb_parse :: "(buffer \<Rightarrow> buffer) \<Rightarrow> bool \<Rightarrow> parser \<Rightarrow> bc_block \<Rightarrow> (bc_block \<times> parser) res" where
  "bb_parse sha256 headerOnly p k =
     (let (k, p) = bb_parse_header p k
      in if headerOnly then Inr (k, p)
         else let (txCount, p) = ps_varInt p
              in rbind (parse_txs sha256 txCount p) (\<lambda>(txs, p). Inr (k\<lparr>bb_txs := txs\<rparr>, p)))"

definition bb_calcHash :: "(buffer \<Rightarrow> buffer) \<Rightarrow> bc_block \<Rightarrow> buffer res" where
  "bb_calcHash sha256 k = rbind (getHeader k) (\<lambda>header. Inr (twoSha256 sha256 header))"

definition bb_no_hash :: "bc_block \<Rightarrow> bool" where
  "bb_no_hash k \<longleftrightarrow> bb_hash k = None \<or> bb_hash k = Some []"

definition bb_checkHash :: "(buffer \<Rightarrow> buffer) \<Rightarrow> bc_block \<Rightarrow> bool res" where
  "bb_checkHash sha256 k =
     (if bb_no_hash k then Inr False else rbind (bb_calcHash sha256 k) (\<lambda>h. Inr (Some h = bb_hash k)))"

definition bb_getHash :: "(buffer \<Rightarrow> buffer) \<Rightarrow> bc_block \<Rightarrow> (buffer \<times> bc_block) res" where
  "bb_getHash sha256 k =
     (if bb_no_hash k then rbind (bb_calcHash sha256 k) (\<lambda>h. Inr (h, k\<lparr>bb_hash := Some h\<rparr>))
      else Inr (the (bb_hash k), k))"

section \<open>Proof of work and time\<close>

text \<open>\<open>buffertools.compare\<close>, and the target of the compact form as a number.\<close>

fun compare_bytes :: "buffer \<Rightarrow> buffer \<Rightarrow> int" where
  "compare_bytes (a # as) (b # bs) = (if a > b then 1 else if a < b then -1 else compare_bytes as bs)"
| "compare_bytes _ _ = 0"

definition buffer_compare :: "buffer \<Rightarrow> buffer \<Rightarrow> int" where
  "buffer_compare a b =
     (if length a \<noteq> length b then (if length a > length b then 1 else -1) else compare_bytes a b)"

definition decodeDiffBits_bignum :: "nat \<Rightarrow> nat" where
  "decodeDiffBits_bignum diffBits =
     (let target = nat (js_and (int diffBits) 0xffffff);
          mov = 8 * (int (diffBits mod 2 ^ 32 div 2 ^ 24) - 3)
      in double_times (nat mov) target)"

definition bb_checkProofOfWork :: "bc_block \<Rightarrow> bool res" where
  "bb_checkProofOfWork k =
     rbind (decodeDiffBits (bb_bits k)) (\<lambda>target. case bb_hash k of
       None \<Rightarrow> Inl (JsTypeError ''Argument should be a buffer object'')
     | Some h \<Rightarrow> if buffer_compare (rev h) target > 0 then Inl (JsError ''Difficulty target not met'') else Inr True)"

definition getWork :: "bc_block \<Rightarrow> nat" where
  "getWork k = 2 ^ 256 div (decodeDiffBits_bignum (bb_bits k) + 1)"

text \<open>\<open>now\<close> is the clock in milliseconds; \<open>now / 1000 + 7200\<close> is compared in milliseconds.\<close>

definition checkTimestamp :: "nat \<Rightarrow> bc_block \<Rightarrow> bool res" where
  "checkTimestamp now k =
     (if 1000 * bb_timestamp k > now + 1000 * (2 * 60 * 60)
      then Inl (JsError ''Timestamp too far into the future'') else Inr True)"

section \<open>Transactions of a block\<close>

text \<open>A list of transactions, or of their hashes. \<open>getHash\<close> fills the cache of a transaction.\<close>

type_synonym leaf = "btx + buffer"

definition leaf_isCoinBase :: "leaf \<Rightarrow> bool res" where
  "leaf_isCoinBase l = (case l of
       Inl tx \<Rightarrow> Inr (bt_isCoinBase tx)
     | Inr h \<Rightarrow> Inl (JsTypeError ''txs[i].isCoinBase is not a function''))"

fun no_coinbase_from :: "nat \<Rightarrow> leaf list \<Rightarrow> bool res" where
  "no_coinbase_from i [] = Inr True"
| "no_coinbase_from i (l # ls) =
     rbind (leaf_isCoinBase l) (\<lambda>c.
       if c then Inl (JsError (''Tx index '' @ dec_string i @ '' must not be coinbase''))
       else no_coinbase_from (i + 1) ls)"

definition checkTransactions :: "leaf list \<Rightarrow> bool res" where
  "checkTransactions txs = (case txs of
       [] \<Rightarrow> Inl (JsError ''No transactions'')
     | l # ls \<Rightarrow> rbind (leaf_isCoinBase l) (\<lambda>c.
         if \<not> c then Inl (JsError ''First tx must be coinbase'') else no_coinbase_from 1 ls))"

definition leaf_hash :: "(buffer \<Rightarrow> buffer) \<Rightarrow> leaf \<Rightarrow> (buffer \<times> leaf) res" where
  "leaf_hash sha256 l = (case l of
       Inl tx \<Rightarrow> rbind (bt_getHash sha256 tx) (\<lambda>(h, tx). Inr (h, Inl tx))
     | Inr h \<Rightarrow> Inr (h, Inr h))"

function tree_level :: "(buffer \<Rightarrow> buffer) \<Rightarrow> nat \<Rightarrow> nat \<Rightarrow> nat \<Rightarrow> buffer list \<Rightarrow> buffer list" where
  "tree_level sha256 i sz j tree =
     (if i < sz then
        let i2 = min (i + 1) (sz - 1); a = tree ! (j + i); b = tree ! (j + i2)
        in tree_level sha256 (i + 2) sz j (tree @ [twoSha256 sha256 (a @ b)])
      else tree)"
  by pat_completeness auto

termination by (relation "measure (\<lambda>(_, i, sz, _). sz - i)") auto

function tree_levels :: "(buffer \<Rightarrow> buffer) \<Rightarrow> nat \<Rightarrow> nat \<Rightarrow> buffer list \<Rightarrow> buffer list" where
  "tree_levels sha256 sz j tree =
     (if sz > 1 then tree_levels sha256 ((sz + 1) div 2) (j + sz) (tree_level sha256 0 sz j tree) else tree)"
  by pat_completeness auto

termination by (relation "measure (\<lambda>(_, sz, _). sz)") auto

declare tree_level.simps [simp del] tree_levels.simps [simp del]

text \<open>The tree, and the transactions with their caches filled.\<close>

definition getMerkleTree :: "(buffer \<Rightarrow> buffer) \<Rightarrow> leaf list \<Rightarrow> (buffer list \<times> leaf list) res" where
  "getMerkleTree sha256 txs =
     (if length txs = 0 then Inr ([NULL_HASH], txs)
      else rbind (rmap (leaf_hash sha256) txs) (\<lambda>hs.
        Inr (tree_levels sha256 (length txs) 0 (map fst hs), map snd hs)))"

definition calcMerkleRoot :: "(buffer \<Rightarrow> buffer) \<Rightarrow> leaf list \<Rightarrow> (buffer \<times> leaf list) res" where
  "calcMerkleRoot sha256 txs = rbind (getMerkleTree sha256 txs) (\<lambda>(tree, txs). Inr (tree ! (length tree - 1), txs))"

definition checkMerkleRoot :: "(buffer \<Rightarrow> buffer) \<Rightarrow> leaf list \<Rightarrow> bc_block \<Rightarrow> bool res" where
  "checkMerkleRoot sha256 txs k =
     (if bb_merkle_root k = [] then Inl (JsError ''No merkle root'')
      else rbind (calcMerkleRoot sha256 txs) (\<lambda>(root, _).
        if buffer_compare root (bb_merkle_root k) \<noteq> 0 then Inl (JsError ''Merkle root incorrect'') else Inr True))"

definition checkBlock :: "(buffer \<Rightarrow> buffer) \<Rightarrow> nat \<Rightarrow> leaf list option \<Rightarrow> bc_block \<Rightarrow> bool res" where
  "checkBlock sha256 now txs k =
     rbind (bb_checkHash sha256 k) (\<lambda>ok.
     if \<not> ok then Inl (JsError ''Block hash invalid'')
     else rbind (bb_checkProofOfWork k) (\<lambda>_.
          rbind (checkTimestamp now k) (\<lambda>_.
          case txs of
            None \<Rightarrow> Inr True
          | Some txs \<Rightarrow>
              rbind (checkTransactions txs) (\<lambda>_.
              rbind (checkMerkleRoot sha256 txs k) (\<lambda>ok.
                if \<not> ok then Inl (JsError ''Merkle hash invalid'') else Inr True)))))"

section \<open>The reward\<close>

text \<open>A quotient of 50 coins by a power of two is exact in a double, and its floor is the quotient of
  whole numbers; from the power 1024 on, which is infinite in a double, both are 0.\<close>

definition BC_COIN :: nat where
  "BC_COIN = 100000000"

definition getBlockValue :: "nat \<Rightarrow> nat" where
  "getBlockValue height = 50 * BC_COIN div 2 ^ (height div 210000)"

text \<open>The transaction has no version and no lock time yet: its inputs and outputs.\<close>

definition createCoinbaseTx :: "bc_block \<Rightarrow> buffer \<Rightarrow> (btx_in list \<times> btx_out list) res" where
  "createCoinbaseTx k beneficiary =
     rbind (createPubKeyOut beneficiary) (\<lambda>script.
       Inr ([\<lparr>bi_o = COINBASE_OP, bi_s = [], bi_q = 0xffffffff\<rparr>],
            [\<lparr>bo_v = le_bytes 8 (getBlockValue (bb_height k)), bo_s = bs_buffer script\<rparr>]))"


section \<open>The wire format\<close>

text \<open>What bitcore makes of a header and of a transaction of bitcoinjs-lib.\<close>

definition with_header :: "block \<Rightarrow> bc_block \<Rightarrow> bc_block" where
  "with_header k b = b\<lparr>bb_version := bk_version k, bb_prev_hash := the (bk_prevHash k), bb_merkle_root := the (bk_merkleRoot k),
     bb_timestamp := bk_timestamp k, bb_bits := bk_bits k, bb_nonce := bk_nonce k, bb_txs := [], bb_size := 0\<rparr>"

definition parsed_tx :: "(buffer \<Rightarrow> buffer) \<Rightarrow> transaction \<Rightarrow> btx" where
  "parsed_tx sha256 tx = (bc_tx tx)\<lparr>bt_hash := Some (twoSha256 sha256 (tx_bytes tx)), bt_buffer := Some (tx_bytes tx)\<rparr>"

lemma getHeader_bytes:
  assumes "header_ok k"
  shows "getHeader (with_header k b) = Inr (header_bytes k)"
proof -
  obtain p m where pm: "bk_prevHash k = Some p" "length p = 32" "bk_merkleRoot k = Some m" "length m = 32"
    and w: "bk_version k < 256 ^ 4" "bk_timestamp k < 256 ^ 4" "bk_bits k < 256 ^ 4" "bk_nonce k < 256 ^ 4"
    using assms by (auto simp: header_ok_def)
  let ?v = "le_bytes 4 (bk_version k)" and ?t = "le_bytes 4 (bk_timestamp k)" and ?b = "le_bytes 4 (bk_bits k)"
    and ?n = "le_bytes 4 (bk_nonce k)"
  have d: "drop a (new_buffer n) = new_buffer (n - a)" for a n by (simp add: new_buffer_def)
  have "writeUInt32LE (new_buffer 80) (bk_version k) 0 = Inr (?v @ new_buffer 76)"
    using writeLE_fill [OF w(1), of "new_buffer 80" "[]"] by (simp add: d)
  moreover have "buf_copy p (?v @ new_buffer 76) 4 = (?v @ p) @ new_buffer 44"
    using buf_copy_fill [of p "new_buffer 76" ?v] pm by (simp add: d)
  moreover have "buf_copy m ((?v @ p) @ new_buffer 44) 36 = (?v @ p @ m) @ new_buffer 12"
    using buf_copy_fill [of m "new_buffer 44" "?v @ p"] pm by (simp add: d)
  moreover have "writeUInt32LE ((?v @ p @ m) @ new_buffer 12) (bk_timestamp k) 68 = Inr ((?v @ p @ m @ ?t) @ new_buffer 8)"
    using writeLE_fill [OF w(2), of "new_buffer 12" "?v @ p @ m"] pm by (simp add: d)
  moreover have "writeUInt32LE ((?v @ p @ m @ ?t) @ new_buffer 8) (bk_bits k) 72 = Inr ((?v @ p @ m @ ?t @ ?b) @ new_buffer 4)"
    using writeLE_fill [OF w(3), of "new_buffer 8" "?v @ p @ m @ ?t"] pm by (simp add: d)
  moreover have "writeUInt32LE ((?v @ p @ m @ ?t @ ?b) @ new_buffer 4) (bk_nonce k) 76 = Inr (header_bytes k)"
    using writeLE_fill [OF w(4), of "new_buffer 4" "?v @ p @ m @ ?t @ ?b"] pm by (simp add: d header_bytes_def new_buffer_def)
  ultimately show ?thesis
    using pm by (simp add: getHeader_def with_header_def Let_def del: rbind_Inr_iff append_assoc)
qed

lemma parse_header_bytes:
  assumes "header_ok k"
  shows "bb_parse_header (new_parser (header_bytes k @ post)) b =
    (with_header k b, \<lparr>ps_subject = header_bytes k @ post, ps_pos = 80\<rparr>)"
proof -
  obtain p m where pm: "bk_prevHash k = Some p" "length p = 32" "bk_merkleRoot k = Some m" "length m = 32"
    using assms by (auto simp: header_ok_def)
  note w = assms [unfolded header_ok_def]
  let ?v = "le_bytes 4 (bk_version k)" and ?t = "le_bytes 4 (bk_timestamp k)" and ?b = "le_bytes 4 (bk_bits k)"
    and ?n = "le_bytes 4 (bk_nonce k)"
  let ?buf = "header_bytes k @ post"
  have b: "?buf = ?v @ p @ m @ ?t @ ?b @ ?n @ post" using pm by (simp add: header_bytes_def)
  have "word32le \<lparr>ps_subject = ?buf, ps_pos = 0\<rparr> = (bk_version k, \<lparr>ps_subject = ?buf, ps_pos = 0 + length ?v\<rparr>)"
    using w by (intro ps_word32.read_in_middle [where pre = "[]" and post = "p @ m @ ?t @ ?b @ ?n @ post"]) (simp_all add: b)
  moreover have "ps_buffer 32 \<lparr>ps_subject = ?buf, ps_pos = 4\<rparr> = (p, \<lparr>ps_subject = ?buf, ps_pos = 4 + length p\<rparr>)"
    using pm by (intro ps_slice.read_in_middle [where pre = ?v and post = "m @ ?t @ ?b @ ?n @ post"]) (simp_all add: b)
  moreover have "ps_buffer 32 \<lparr>ps_subject = ?buf, ps_pos = 36\<rparr> = (m, \<lparr>ps_subject = ?buf, ps_pos = 36 + length m\<rparr>)"
    using pm by (intro ps_slice.read_in_middle [where pre = "?v @ p" and post = "?t @ ?b @ ?n @ post"]) (simp_all add: b)
  moreover have "word32le \<lparr>ps_subject = ?buf, ps_pos = 68\<rparr> = (bk_timestamp k, \<lparr>ps_subject = ?buf, ps_pos = 68 + length ?t\<rparr>)"
    using w pm by (intro ps_word32.read_in_middle [where pre = "?v @ p @ m" and post = "?b @ ?n @ post"]) (simp_all add: b)
  moreover have "word32le \<lparr>ps_subject = ?buf, ps_pos = 72\<rparr> = (bk_bits k, \<lparr>ps_subject = ?buf, ps_pos = 72 + length ?b\<rparr>)"
    using w pm by (intro ps_word32.read_in_middle [where pre = "?v @ p @ m @ ?t" and post = "?n @ post"]) (simp_all add: b)
  moreover have "word32le \<lparr>ps_subject = ?buf, ps_pos = 76\<rparr> = (bk_nonce k, \<lparr>ps_subject = ?buf, ps_pos = 76 + length ?n\<rparr>)"
    using w pm by (intro ps_word32.read_in_middle [where pre = "?v @ p @ m @ ?t @ ?b" and post = post]) (simp_all add: b)
  ultimately show ?thesis
    using pm by (simp add: bb_parse_header_def new_parser_def with_header_def)
qed

lemma parse_txs_bytes:
  "list_all tx_ok txs \<Longrightarrow> off = length pre \<Longrightarrow> buf = pre @ concat (map tx_bytes txs) @ post \<Longrightarrow>
   parse_txs sha256 (length txs) \<lparr>ps_subject = buf, ps_pos = off\<rparr> =
     Inr (map (parsed_tx sha256) txs, \<lparr>ps_subject = buf, ps_pos = off + length (concat (map tx_bytes txs))\<rparr>)"
proof (induction txs arbitrary: pre off)
  case (Cons tx txs)
  have ok: "btx_ok (bc_tx tx)" using Cons.prems(1) by (intro bc_tx_ok) (simp add: tx_ok_def)
  have e: "(bc_tx tx)\<lparr>bt_hash := None, bt_buffer := None\<rparr> = bc_tx tx" by (simp add: bc_tx_def)
  have "bt_calcHash sha256 (bc_tx tx) = Inr (twoSha256 sha256 (tx_bytes tx), parsed_tx sha256 tx)"
    by (simp add: bt_calcHash_def bt_getBuffer_def bt_serialize_bytes [OF ok] bc_tx_bytes parsed_tx_def Let_def del: rbind_Inr_iff)
  then have "bt_parse_from sha256 None \<lparr>ps_subject = buf, ps_pos = off\<rparr> =
      Inr (parsed_tx sha256 tx, \<lparr>ps_subject = buf, ps_pos = off + length (tx_bytes tx)\<rparr>)"
    using bt_parse_from_bytes [OF ok, of sha256 None pre "concat (map tx_bytes txs) @ post"] Cons.prems(2,3)
    by (simp add: bc_tx_bytes e del: rbind_Inr_iff)
  moreover have "parse_txs sha256 (length txs) \<lparr>ps_subject = buf, ps_pos = off + length (tx_bytes tx)\<rparr> =
      Inr (map (parsed_tx sha256) txs,
        \<lparr>ps_subject = buf, ps_pos = off + length (tx_bytes tx) + length (concat (map tx_bytes txs))\<rparr>)"
    using Cons.prems by (intro Cons.IH [of _ "pre @ tx_bytes tx"]) simp_all
  ultimately show ?case by (simp add: add.assoc del: rbind_Inr_iff)
qed simp

lemma bb_parse_bytes:
  assumes ok: "block_ok k" and txs: "bk_transactions k = Some txs"
  shows "bb_parse sha256 False (new_parser (block_bytes k @ post)) b =
    Inr ((with_header k b)\<lparr>bb_txs := map (parsed_tx sha256) txs\<rparr>,
         \<lparr>ps_subject = block_bytes k @ post, ps_pos = length (block_bytes k)\<rparr>)"
proof -
  have h: "header_ok k" and len: "length (header_bytes k) = 80" and t: "length txs < 2 ^ 53" "list_all tx_ok txs"
    using ok txs length_header_bytes by (auto simp: block_ok_def)
  let ?c = "varint_bytes (length txs)" and ?ts = "concat (map tx_bytes txs)"
  let ?buf = "header_bytes k @ ?c @ ?ts @ post"
  have b: "block_bytes k @ post = ?buf" using txs by (simp add: block_bytes_def)
  have "ps_varInt \<lparr>ps_subject = ?buf, ps_pos = 80\<rparr> = (length txs, \<lparr>ps_subject = ?buf, ps_pos = 80 + length ?c\<rparr>)"
    using t len by (intro ps_varint.read_in_middle [where pre = "header_bytes k" and post = "?ts @ post"]) simp_all
  moreover have "parse_txs sha256 (length txs) \<lparr>ps_subject = ?buf, ps_pos = 80 + length ?c\<rparr> =
      Inr (map (parsed_tx sha256) txs, \<lparr>ps_subject = ?buf, ps_pos = 80 + length ?c + length ?ts\<rparr>)"
    using t len by (intro parse_txs_bytes [where pre = "header_bytes k @ ?c" and post = post]) simp_all
  moreover have "length (block_bytes k) = 80 + length ?c + length ?ts" using len txs by (simp add: block_bytes_def)
  ultimately show ?thesis
    unfolding b using parse_header_bytes [OF h, of "?c @ ?ts @ post" b]
    by (simp add: bb_parse_def del: rbind_Inr_iff)
qed


section \<open>The tree of hashes\<close>

text \<open>The reference description: hash the nodes of a level in pairs, the last one with itself if it is
  alone, until one is left.\<close>

fun pair_up :: "('a \<Rightarrow> 'a \<Rightarrow> 'a) \<Rightarrow> 'a list \<Rightarrow> 'a list" where
  "pair_up H (a # b # xs) = H a b # pair_up H xs"
| "pair_up H [a] = [H a a]"
| "pair_up H [] = []"

lemma length_pair_up: "length (pair_up H xs) = (length xs + 1) div 2"
  by (induction H xs rule: pair_up.induct) simp_all

function merkle :: "('a \<Rightarrow> 'a \<Rightarrow> 'a) \<Rightarrow> 'a list \<Rightarrow> 'a" where
  "merkle H xs = (if length xs \<le> 1 then hd xs else merkle H (pair_up H xs))"
  by pat_completeness auto

termination by (relation "measure (\<lambda>(_, xs). length xs)") (auto simp: length_pair_up)

declare merkle.simps [simp del]

abbreviation node_hash :: "(buffer \<Rightarrow> buffer) \<Rightarrow> buffer \<Rightarrow> buffer \<Rightarrow> buffer" where
  "node_hash sha256 a b \<equiv> twoSha256 sha256 (a @ b)"

lemma tree_level_pairs:
  assumes "length level = sz" "i \<le> sz" "even i \<or> i = sz"
  shows "tree_level sha256 i sz (length pre) (pre @ level @ new) =
    pre @ level @ new @ pair_up (node_hash sha256) (drop i level)"
  using assms(2,3)
proof (induction "sz - i" arbitrary: i new rule: less_induct)
  case less
  show ?case
  proof (cases "i < sz")
    case False
    then show ?thesis using less.prems assms(1) by (simp add: tree_level.simps)
  next
    case True
    let ?i2 = "min (i + 1) (sz - 1)"
    let ?h = "node_hash sha256 (level ! i) (level ! ?i2)"
    have "?i2 < sz" using True by simp
    then have nth: "(pre @ level @ new) ! (length pre + i) = level ! i"
      "(pre @ level @ new) ! (length pre + ?i2) = level ! ?i2"
      using True assms(1) by (simp_all add: nth_append del: min_less_iff_conj)
    have step: "tree_level sha256 i sz (length pre) (pre @ level @ new) =
        tree_level sha256 (i + 2) sz (length pre) (pre @ level @ new @ [?h])"
      using True nth by (subst tree_level.simps) (simp add: Let_def)
    show ?thesis
    proof (cases "i + 1 < sz")
      case True
      then have "drop i level = level ! i # level ! (i + 1) # drop (i + 2) level"
        using assms(1) by (simp add: Cons_nth_drop_Suc)
      then show ?thesis
        using True less.hyps [of "i + 2" "new @ [?h]"] less.prems unfolding step by auto
    next
      case False
      then have "sz = i + 1" using \<open>i < sz\<close> by simp
      then have "drop i level = [level ! i]" using assms(1) Cons_nth_drop_Suc [of i level] by simp
      moreover have "tree_level sha256 (i + 2) sz (length pre) t = t" for t
        using \<open>sz = i + 1\<close> by (simp add: tree_level.simps)
      ultimately show ?thesis using \<open>sz = i + 1\<close> unfolding step by simp
    qed
  qed
qed

lemma tree_levels_merkle:
  "level \<noteq> [] \<Longrightarrow> \<exists>t. tree_levels sha256 (length level) (length pre) (pre @ level) = t @ [merkle (node_hash sha256) level]"
proof (induction "length level" arbitrary: level pre rule: less_induct)
  case less
  show ?case
  proof (cases "length level > 1")
    case False
    then obtain a where "level = [a]" using less.prems by (cases level) auto
    then show ?thesis by (simp add: tree_levels.simps merkle.simps)
  next
    case True
    let ?up = "pair_up (node_hash sha256) level"
    have up: "length ?up = (length level + 1) div 2" by (rule length_pair_up)
    then have "?up \<noteq> []" "length ?up < length level" using True by auto
    then obtain t where t: "tree_levels sha256 (length ?up) (length (pre @ level)) ((pre @ level) @ ?up) =
        t @ [merkle (node_hash sha256) ?up]" using less.hyps by blast
    have "tree_level sha256 0 (length level) (length pre) (pre @ level) = pre @ level @ ?up"
      using tree_level_pairs [of level "length level" 0 sha256 pre "[]"] by simp
    then have "tree_levels sha256 (length level) (length pre) (pre @ level) =
        tree_levels sha256 (length ?up) (length (pre @ level)) ((pre @ level) @ ?up)"
      using True up by (simp add: tree_levels.simps [of sha256 "length level"])
    moreover have "merkle (node_hash sha256) level = merkle (node_hash sha256) ?up"
      using True by (simp add: merkle.simps [of _ level])
    ultimately show ?thesis using t by auto
  qed
qed

lemma calcMerkleRoot_merkle:
  assumes "txs \<noteq> []"
  shows "calcMerkleRoot sha256 txs =
    rbind (rmap (leaf_hash sha256) txs) (\<lambda>hs. Inr (merkle (node_hash sha256) (map fst hs), map snd hs))"
proof (cases "rmap (leaf_hash sha256) txs")
  case (Inr hs)
  then have len: "length hs = length txs" by (rule rmap_length)
  then have "map fst hs \<noteq> []" using assms by auto
  then obtain t where "tree_levels sha256 (length txs) 0 (map fst hs) = t @ [merkle (node_hash sha256) (map fst hs)]"
    using tree_levels_merkle [of "map fst hs" sha256 "[]"] len by auto
  then show ?thesis
    using assms Inr by (simp add: calcMerkleRoot_def getMerkleTree_def del: rbind_Inr_iff)
qed (use assms in \<open>simp add: calcMerkleRoot_def getMerkleTree_def\<close>)

text \<open>What the tree over a list of nodes hashes, level by level.\<close>

fun joined :: "('a \<Rightarrow> 'a \<Rightarrow> 'b) \<Rightarrow> 'a list \<Rightarrow> 'b list" where
  "joined join (a # b # xs) = join a b # joined join xs"
| "joined join [a] = [join a a]"
| "joined join [] = []"

lemma pair_up_joined: "pair_up (\<lambda>a b. digest (join a b)) xs = map digest (joined join xs)"
  by (induction xs rule: induct_list012) simp_all

lemma length_joined: "length (joined join xs) = (length xs + 1) div 2"
  by (induction join xs rule: joined.induct) simp_all

function merkle_inputs :: "('b \<Rightarrow> 'a) \<Rightarrow> ('a \<Rightarrow> 'a \<Rightarrow> 'b) \<Rightarrow> 'a list \<Rightarrow> 'b list" where
  "merkle_inputs digest join xs =
     (if length xs \<le> 1 then []
      else joined join xs @ merkle_inputs digest join (map digest (joined join xs)))"
  by pat_completeness auto

termination by (relation "measure (\<lambda>(_, _, xs). length xs)") (auto simp: length_joined)

declare merkle_inputs.simps [simp del]

text \<open>Two lists of nodes of the same length with one root are the same, or among what the two trees
  hash there is a collision.\<close>

definition collide :: "('b \<Rightarrow> 'a) \<Rightarrow> 'b list \<Rightarrow> 'b list \<Rightarrow> bool" where
  "collide digest xs ys \<longleftrightarrow> (\<exists>x \<in> set xs. \<exists>y \<in> set ys. x \<noteq> y \<and> digest x = digest y)"

lemma collide_append: "collide digest xs ys \<or> collide digest xs' ys' \<Longrightarrow> collide digest (xs @ xs') (ys @ ys')"
  by (auto simp: collide_def)

locale node_hashing =
  fixes digest :: "'c \<Rightarrow> 'b \<Rightarrow> 'a" and join :: "'a \<Rightarrow> 'a \<Rightarrow> 'b" and node :: "'a \<Rightarrow> bool" and ok :: "'c \<Rightarrow> bool"
  assumes digest_node: "ok s \<Longrightarrow> node (digest s x)"
    and join_inject: "node a \<Longrightarrow> node b \<Longrightarrow> node c \<Longrightarrow> node d \<Longrightarrow> join a b = join c d \<Longrightarrow> a = c \<and> b = d"
begin

lemma joined_inject:
  "length xs = length ys \<Longrightarrow> list_all node xs \<Longrightarrow> list_all node ys \<Longrightarrow> joined join xs = joined join ys \<Longrightarrow> xs = ys"
proof (induction xs arbitrary: ys rule: induct_list012)
  case (2 a)
  then obtain c where "ys = [c]" by (cases ys) auto
  then show ?case using 2 join_inject [of a a c c] by auto
next
  case (3 a b xs)
  obtain c ys' where "ys = c # ys'" "length ys' = Suc (length xs)" using 3(3) by (cases ys) auto
  moreover then obtain d zs where "ys' = d # zs" "length zs = length xs" by (cases ys') auto
  ultimately have ys: "ys = c # d # zs" "length zs = length xs" by simp_all
  then have "a = c \<and> b = d" using 3(4-6) by (intro join_inject) auto
  moreover have "xs = zs" using 3(1) [of zs] 3(4-6) ys by auto
  ultimately show ?case using ys by auto
qed simp

lemma map_digest_collide:
  "length us = length vs \<Longrightarrow> map (digest s) us = map (digest s) vs \<Longrightarrow> us = vs \<or> collide (digest s) us vs"
proof (induction us vs rule: list_induct2)
  case (Cons u us v vs)
  then have "digest s u = digest s v" "us = vs \<or> collide (digest s) us vs" by simp_all
  then show ?case by (auto simp: collide_def)
qed simp

lemma merkle_inject:
  assumes "ok s"
  defines "H \<equiv> \<lambda>a b. digest s (join a b)" and "inputs \<equiv> merkle_inputs (digest s) join"
  shows "length xs = length ys \<Longrightarrow> xs \<noteq> [] \<Longrightarrow> list_all node xs \<Longrightarrow> list_all node ys \<Longrightarrow>
    merkle H xs = merkle H ys \<Longrightarrow> xs = ys \<or> collide (digest s) (inputs xs) (inputs ys)"
proof (induction "length xs" arbitrary: xs ys rule: less_induct)
  case less
  show ?case
  proof (cases "length xs > 1")
    case False
    then have "length xs = 1" using less.prems(2) by (cases xs) auto
    then obtain a c where "xs = [a]" "ys = [c]" using less.prems(1) by (metis length_Suc_conv length_0_conv One_nat_def)
    then show ?thesis using less.prems(5) by (simp add: merkle.simps)
  next
    case True
    let ?us = "joined join xs" and ?vs = "joined join ys"
    have up: "pair_up H zs = map (digest s) (joined join zs)" for zs unfolding H_def by (rule pair_up_joined)
    have inputs: "inputs zs = joined join zs @ inputs (map (digest s) (joined join zs))" if "length zs > 1" for zs
      using that by (simp add: inputs_def merkle_inputs.simps [of _ _ zs])
    have n: "length ?us = length ?vs" "?us \<noteq> []" "length ?us < length xs"
      using True less.prems(1) length_joined [of join xs] by (auto simp: length_joined simp flip: length_0_conv)
    moreover have "merkle H (map (digest s) ?us) = merkle H (map (digest s) ?vs)"
      using True less.prems(1,5) by (simp add: merkle.simps [of _ xs] merkle.simps [of _ ys] up)
    moreover have "list_all node (map (digest s) zs)" for zs using digest_node [OF assms(1)] by (simp add: list_all_iff)
    ultimately consider "map (digest s) ?us = map (digest s) ?vs" |
      "collide (digest s) (inputs (map (digest s) ?us)) (inputs (map (digest s) ?vs))"
      using less.hyps [of "map (digest s) ?us" "map (digest s) ?vs"] by auto
    then have "?us = ?vs \<or> collide (digest s) (inputs xs) (inputs ys)"
    proof cases
      case 1
      from map_digest_collide [OF n(1) this] show ?thesis
        using True less.prems(1) collide_append by (metis inputs)
    next
      case 2
      then show ?thesis using True less.prems(1) collide_append by (metis inputs)
    qed
    then show ?thesis using joined_inject less.prems(1,3,4) by blast
  qed
qed

end

definition sha_ok :: "(buffer \<Rightarrow> buffer) \<Rightarrow> bool" where
  "sha_ok sha256 \<longleftrightarrow> (\<forall>x. length (sha256 x) = 32)"

interpretation tx_tree: node_hashing twoSha256 "(@)" "\<lambda>h. length h = 32" sha_ok
  by unfold_locales (auto simp: sha_ok_def twoSha256_def)

lemma pair_up_repeat: "odd (length xs) \<Longrightarrow> pair_up H (xs @ [last xs]) = pair_up H xs"
  by (induction xs rule: induct_list012) auto

lemma merkle_repeat:
  assumes "odd (length xs)" "length xs \<noteq> 1"
  shows "merkle H (xs @ [last xs]) = merkle H xs"
proof -
  have "length xs > 1" "xs \<noteq> []" using assms by (cases xs; auto)+
  then show ?thesis
    using pair_up_repeat [OF assms(1)] by (simp add: merkle.simps [of _ xs] merkle.simps [of _ "xs @ [last xs]"])
qed


section \<open>Comparisons and targets\<close>

lemma buffer_compare_eq [simp]: "buffer_compare a b = 0 \<longleftrightarrow> a = b"
proof -
  have "length a = length b \<Longrightarrow> compare_bytes a b = 0 \<longleftrightarrow> a = b"
    by (induction a b rule: compare_bytes.induct) auto
  then show ?thesis by (auto simp: buffer_compare_def)
qed

lemma be_nat_Cons: "be_nat (x # xs) = unat x * 256 ^ length xs + be_nat xs"
  using be_nat_append [of "[x]" xs] by (simp add: be_nat_def)

lemma be_nat_less_Cons:
  fixes x y :: byte
  assumes "x < y" "length xs = length ys"
  shows "be_nat (x # xs) < be_nat (y # ys)"
proof -
  have "Suc (unat x) \<le> unat y" using assms(1) by (simp add: word_less_nat_alt)
  then have "Suc (unat x) * 256 ^ length xs \<le> unat y * 256 ^ length xs" by (rule mult_le_mono1)
  moreover have "be_nat xs < 256 ^ length xs" by (rule be_nat_bound)
  ultimately show ?thesis using assms(2) by (simp add: be_nat_Cons)
qed

text \<open>Buffers of one length compare like the numbers they are in big-endian order.\<close>

lemma buffer_compare_be:
  assumes "length a = length b"
  shows "buffer_compare a b > 0 \<longleftrightarrow> be_nat a > be_nat b"
proof -
  have "compare_bytes a b > 0 \<longleftrightarrow> be_nat a > be_nat b"
    using assms
  proof (induction a b rule: compare_bytes.induct)
    case (1 a as b bs)
    then show ?case
      using be_nat_less_Cons [of a b as bs] be_nat_less_Cons [of b a bs as]
      by (cases a b rule: linorder_cases) (auto simp: be_nat_Cons)
  qed auto
  then show ?thesis using assms by (simp add: buffer_compare_def)
qed

lemma bignum_buffer_fits: "length (bignum_buffer n) \<le> 32 \<longleftrightarrow> n < 2 ^ 256"
proof
  assume "n < 2 ^ 256"
  then have "n < 256 ^ 32" by simp
  then show "length (bignum_buffer n) \<le> 32"
    using b58.digits_length [of n 32] by (simp add: bignum_buffer_radix)
next
  assume "length (bignum_buffer n) \<le> 32"
  then have "(256 :: nat) ^ length (bignum_buffer n) \<le> 256 ^ 32" by (intro power_increasing) simp_all
  moreover have "be_nat (bignum_buffer n) < 256 ^ length (bignum_buffer n)" by (rule be_nat_bound)
  moreover have "be_nat (bignum_buffer n) = n" by (simp add: be_nat_def bignum_buffer_def)
  ultimately show "n < 2 ^ 256" by simp
qed

lemma decodeDiffBits_number:
  "decodeDiffBits d = Inr t \<longleftrightarrow> decodeDiffBits_bignum d < 2 ^ 256 \<and> length t = 32 \<and> be_nat t = decodeDiffBits_bignum d"
proof -
  let ?n = "decodeDiffBits_bignum d"
  let ?b = "bignum_buffer ?n"
  have D: "decodeDiffBits d =
      (if length ?b \<le> 32 then Inr (buf_copy ?b (new_buffer 32) (32 - length ?b)) else Inl JsRangeError)"
    by (simp add: decodeDiffBits_def decodeDiffBits_bignum_def Let_def)
  show ?thesis
  proof (cases "length ?b \<le> 32")
    case True
    define t' where "t' = replicate (32 - length ?b) 0 @ ?b"
    have "new_buffer 32 = replicate (32 - length ?b) 0 @ new_buffer (length ?b)"
      using True by (simp add: new_buffer_def replicate_add [symmetric])
    then have "buf_copy ?b (new_buffer 32) (32 - length ?b) = t'"
      using buf_copy_fill [of ?b "new_buffer (length ?b)" "replicate (32 - length ?b) 0"]
      by (simp add: t'_def new_buffer_def)
    then have "decodeDiffBits d = Inr t'" using D True by simp
    moreover have "length t' = 32" using True by (simp add: t'_def)
    moreover have "be_nat t' = ?n" unfolding t'_def be_nat_zeros by (simp add: be_nat_def bignum_buffer_def)
    moreover have "t = t'" if "length t = 32" "be_nat t = be_nat t'"
      using that \<open>length t' = 32\<close> be_bytes_be_nat [of t] be_bytes_be_nat [of t'] by simp
    ultimately show ?thesis using True bignum_buffer_fits by auto
  next
    case False
    then show ?thesis using D bignum_buffer_fits by auto
  qed
qed


section \<open>The checks\<close>

lemma proof_of_work_iff:
  assumes "bb_hash k = Some h" "length h = 32"
  shows "bb_checkProofOfWork k = Inr True \<longleftrightarrow>
    decodeDiffBits_bignum (bb_bits k) < 2 ^ 256 \<and> le_nat h \<le> decodeDiffBits_bignum (bb_bits k)"
proof (cases "decodeDiffBits (bb_bits k)")
  case (Inl e)
  let ?n = "decodeDiffBits_bignum (bb_bits k)"
  have "\<not> ?n < 2 ^ 256"
  proof
    assume n: "?n < 2 ^ 256"
    then have "?n < 256 ^ 32" by simp
    then have "be_nat (be_bytes 32 ?n) = ?n" by (simp add: be_nat_be_bytes)
    then show False using Inl n decodeDiffBits_number [of "bb_bits k" "be_bytes 32 ?n"] by simp
  qed
  then show ?thesis using Inl by (simp add: bb_checkProofOfWork_def)
next
  case (Inr t)
  then have t: "decodeDiffBits_bignum (bb_bits k) < 2 ^ 256" "length t = 32" "be_nat t = decodeDiffBits_bignum (bb_bits k)"
    using decodeDiffBits_number by auto
  have "buffer_compare (rev h) t > 0 \<longleftrightarrow> le_nat h > decodeDiffBits_bignum (bb_bits k)"
    using buffer_compare_be [of "rev h" t] assms(2) t(2,3) by (simp add: be_nat_def)
  then show ?thesis using Inr assms(1) t(1) by (auto simp: bb_checkProofOfWork_def)
qed

lemma no_coinbase_iff:
  "no_coinbase_from i ls = Inr b \<longleftrightarrow> b \<and> (\<exists>rest. ls = map Inl rest \<and> list_all (\<lambda>tx. \<not> bt_isCoinBase tx) rest)"
proof (induction ls arbitrary: i)
  case (Cons l ls)
  show ?case
  proof (cases l)
    case (Inl tx)
    then show ?thesis using Cons by (auto simp: leaf_isCoinBase_def Cons_eq_map_conv)
  qed (auto simp: leaf_isCoinBase_def)
qed auto

lemma checkTransactions_iff:
  "checkTransactions txs = Inr b \<longleftrightarrow> b \<and> (\<exists>cb rest. txs = map Inl (cb # rest) \<and> bt_isCoinBase cb \<and>
     list_all (\<lambda>tx. \<not> bt_isCoinBase tx) rest)"
proof (cases txs)
  case (Cons l ls)
  then show ?thesis by (cases l) (auto simp: checkTransactions_def leaf_isCoinBase_def no_coinbase_iff)
qed (simp add: checkTransactions_def)

lemma checkMerkleRoot_iff:
  assumes "txs \<noteq> []"
  shows "checkMerkleRoot sha256 txs k = Inr b \<longleftrightarrow> b \<and> bb_merkle_root k \<noteq> [] \<and>
    (\<exists>hs. rmap (leaf_hash sha256) txs = Inr hs \<and> bb_merkle_root k = merkle (node_hash sha256) (map fst hs))"
  by (cases "rmap (leaf_hash sha256) txs") (auto simp: checkMerkleRoot_def calcMerkleRoot_merkle [OF assms])

lemma checkHash_iff:
  "bb_checkHash sha256 k = Inr True \<longleftrightarrow> (\<exists>h. bb_hash k = Some h \<and> h \<noteq> [] \<and> bb_calcHash sha256 k = Inr h)"
  by (auto simp: bb_checkHash_def bb_no_hash_def)

lemma checkBlock_steps:
  "checkBlock sha256 now (Some txs) k = Inr True \<longleftrightarrow>
    bb_checkHash sha256 k = Inr True \<and> bb_checkProofOfWork k = Inr True \<and> checkTimestamp now k = Inr True \<and>
    checkTransactions txs = Inr True \<and> checkMerkleRoot sha256 txs k = Inr True"
proof -
  have pow: "bb_checkProofOfWork k = Inr b \<Longrightarrow> b" for b
    by (auto simp: bb_checkProofOfWork_def split: option.splits if_splits)
  have time: "checkTimestamp now k = Inr b \<Longrightarrow> b" for b by (auto simp: checkTimestamp_def split: if_splits)
  have "checkTransactions txs = Inr b \<Longrightarrow> b" for b using checkTransactions_iff by blast
  with pow time show ?thesis by (auto simp: checkBlock_def split: if_splits)
qed

lemma calcHash_length: "(\<And>x. length (sha256 x) = 32) \<Longrightarrow> bb_calcHash sha256 k = Inr h \<Longrightarrow> length h = 32"
  by (auto simp: bb_calcHash_def twoSha256_def)

section \<open>Properties\<close>

text \<open>C21: bitcore and bitcoinjs-lib have one format of blocks: the header bitcore writes is the one
  bitcoinjs-lib writes, with the same hash, and bitcore parses the bytes of a block to the same
  header and transactions, also in front of further bytes.\<close>

theorem block_formats_agree:
  assumes "block_ok k" "bk_transactions k = Some txs"
  shows "getHeader (with_header k b) = blk_toBuffer k True \<and> bb_calcHash sha256 (with_header k b) = blk_getHash sha256 k \<and>
    (\<exists>bytes. blk_toBuffer k False = Inr bytes \<and>
      bb_parse sha256 False (new_parser (bytes @ post)) b =
        Inr ((with_header k b)\<lparr>bb_txs := map (parsed_tx sha256) txs\<rparr>,
             \<lparr>ps_subject = bytes @ post, ps_pos = length bytes\<rparr>))"
proof -
  have h: "header_ok k" using assms(1) by (simp add: block_ok_def)
  have "bb_calcHash sha256 (with_header k b) = blk_getHash sha256 k"
    by (simp add: bb_calcHash_def blk_getHash_def getHeader_bytes [OF h] blk_toBuffer_bytes [OF assms(1)] twoSha256_def hash256_def)
  then show ?thesis
    using getHeader_bytes [OF h] blk_toBuffer_bytes [OF assms(1)] bb_parse_bytes [OF assms] by simp
qed

lemma checkBlock_iff:
  assumes "\<And>x. length (sha256 x) = 32"
  shows "checkBlock sha256 now (Some txs) k = Inr True \<longleftrightarrow>
    (\<exists>h. bb_hash k = Some h \<and> bb_calcHash sha256 k = Inr h \<and>
       decodeDiffBits_bignum (bb_bits k) < 2 ^ 256 \<and> le_nat h \<le> decodeDiffBits_bignum (bb_bits k)) \<and>
    1000 * bb_timestamp k \<le> now + 7200000 \<and>
    (\<exists>cb rest. txs = map Inl (cb # rest) \<and> bt_isCoinBase cb \<and> list_all (\<lambda>tx. \<not> bt_isCoinBase tx) rest) \<and>
    bb_merkle_root k \<noteq> [] \<and>
    (\<exists>hs. rmap (leaf_hash sha256) txs = Inr hs \<and> bb_merkle_root k = merkle (node_hash sha256) (map fst hs))"
proof -
  have len: "length h = 32" if "bb_calcHash sha256 k = Inr h" for h
    using that by (intro calcHash_length [of sha256 k h] assms)
  have hash: "bb_checkHash sha256 k = Inr True \<and> bb_checkProofOfWork k = Inr True \<longleftrightarrow>
      (\<exists>h. bb_hash k = Some h \<and> bb_calcHash sha256 k = Inr h \<and>
        decodeDiffBits_bignum (bb_bits k) < 2 ^ 256 \<and> le_nat h \<le> decodeDiffBits_bignum (bb_bits k))"
    using len proof_of_work_iff [of k] unfolding checkHash_iff by fastforce
  have time: "checkTimestamp now k = Inr True \<longleftrightarrow> 1000 * bb_timestamp k \<le> now + 7200000"
    by (auto simp: checkTimestamp_def)
  have "checkTransactions txs = Inr True \<Longrightarrow> txs \<noteq> []" by (auto simp: checkTransactions_def)
  then have txs: "checkTransactions txs = Inr True \<and> checkMerkleRoot sha256 txs k = Inr True \<longleftrightarrow>
      (\<exists>cb rest. txs = map Inl (cb # rest) \<and> bt_isCoinBase cb \<and> list_all (\<lambda>tx. \<not> bt_isCoinBase tx) rest) \<and>
      bb_merkle_root k \<noteq> [] \<and>
      (\<exists>hs. rmap (leaf_hash sha256) txs = Inr hs \<and> bb_merkle_root k = merkle (node_hash sha256) (map fst hs))"
    using checkTransactions_iff [of txs True] checkMerkleRoot_iff [of txs sha256 k True] by auto
  show ?thesis unfolding checkBlock_steps using hash time txs by blast
qed

text \<open>C18: \<open>checkBlock\<close> accepts a block with its transactions exactly if the hash it carries is the hash of
  its header, that hash as a number is at most the target of its difficulty, its time is at most two
  hours ahead, the first transaction and no other is a coinbase, and the root in the header is that of
  the tree of transaction hashes.\<close>

theorem checkBlock_exact:
  assumes "\<And>x. length (sha256 x) = 32"
  shows "checkBlock sha256 now (Some txs) k = Inr True \<longleftrightarrow>
    (\<exists>h. bb_hash k = Some h \<and> bb_calcHash sha256 k = Inr h \<and>
       decodeDiffBits_bignum (bb_bits k) < 2 ^ 256 \<and> le_nat h \<le> decodeDiffBits_bignum (bb_bits k)) \<and>
    1000 * bb_timestamp k \<le> now + 7200000 \<and>
    (\<exists>cb rest. txs = map Inl (cb # rest) \<and> bt_isCoinBase cb \<and> list_all (\<lambda>tx. \<not> bt_isCoinBase tx) rest) \<and>
    bb_merkle_root k \<noteq> [] \<and>
    (\<exists>hs. rmap (leaf_hash sha256) txs = Inr hs \<and> bb_merkle_root k = merkle (node_hash sha256) (map fst hs))"
  by (rule checkBlock_iff [OF assms])


text \<open>C19: the root in a header binds the transactions. If two lists of the same number of transaction hashes
  both pass \<open>checkMerkleRoot\<close> for a block, they are the same list, or the two trees contain a collision of
  the hash function: two different pairs of nodes, one hashed in each of them, with the same hash.\<close>

theorem merkle_root_binds:
  assumes "\<And>x. length (sha256 x) = 32" "length xs = length ys" "xs \<noteq> []"
    and "list_all (\<lambda>h. length h = 32) xs" "list_all (\<lambda>h. length h = 32) ys"
    and "checkMerkleRoot sha256 (map Inr xs) k = Inr True" "checkMerkleRoot sha256 (map Inr ys) k = Inr True"
  shows "xs = ys \<or>
    (\<exists>a \<in> set (merkle_inputs (twoSha256 sha256) (@) xs). \<exists>b \<in> set (merkle_inputs (twoSha256 sha256) (@) ys).
       a \<noteq> b \<and> twoSha256 sha256 a = twoSha256 sha256 b)"
proof -
  have hashes: "rmap (leaf_hash sha256) (map Inr zs) = Inr (map (\<lambda>h. (h, Inr h)) zs)" for zs
    by (induction zs) (simp_all add: leaf_hash_def)
  have "ys \<noteq> []" using assms(2,3) by auto
  then have "merkle (node_hash sha256) xs = merkle (node_hash sha256) ys"
    using assms(3,6,7) checkMerkleRoot_iff [of "map Inr xs" sha256 k True] checkMerkleRoot_iff [of "map Inr ys" sha256 k True]
    by (simp add: hashes comp_def)
  then show ?thesis
    using tx_tree.merkle_inject [of sha256 xs ys] assms(1-5) by (simp add: sha_ok_def collide_def)
qed

lemma rmap_snoc: "rmap f (xs @ [x]) = rbind (rmap f xs) (\<lambda>ys. rbind (f x) (\<lambda>y. Inr (ys @ [y])))"
proof (induction xs)
  case Nil
  then show ?case by (cases "f x") simp_all
next
  case (Cons a xs)
  then show ?case by (cases "f a"; cases "rmap f xs"; cases "f x") simp_all
qed

lemma rmap_last: "rmap f xs = Inr ys \<Longrightarrow> xs \<noteq> [] \<Longrightarrow> f (last xs) = Inr (last ys)"
proof -
  assume r: "rmap f xs = Inr ys" and ne: "xs \<noteq> []"
  have len: "length ys = length xs" by (rule rmap_length [OF r])
  then have "ys \<noteq> []" using ne by auto
  then show "f (last xs) = Inr (last ys)" using rmap_nth [OF r, of "length xs - 1"] ne len by (simp add: last_conv_nth)
qed

lemma checkMerkleRoot_repeat:
  assumes "odd (length txs)" "length txs \<noteq> 1"
  shows "checkMerkleRoot sha256 (txs @ [last txs]) k = checkMerkleRoot sha256 txs k"
proof -
  have ne: "txs \<noteq> []" using assms by auto
  show ?thesis
  proof (cases "rmap (leaf_hash sha256) txs")
    case (Inr hs)
    then have l: "leaf_hash sha256 (last txs) = Inr (last hs)" and n: "length hs = length txs"
      using rmap_last ne rmap_length by blast+
    then have "hs \<noteq> []" using ne by auto
    then have "merkle (node_hash sha256) (map fst (hs @ [last hs])) = merkle (node_hash sha256) (map fst hs)"
      using merkle_repeat [of "map fst hs" "node_hash sha256"] assms n by (simp add: last_map)
    then show ?thesis
      using Inr l ne by (simp add: checkMerkleRoot_def calcMerkleRoot_merkle rmap_snoc del: rbind_Inr_iff)
  qed (use ne in \<open>simp add: checkMerkleRoot_def calcMerkleRoot_merkle rmap_snoc\<close>)
qed

lemma no_coinbase_repeat:
  "ls \<noteq> [] \<Longrightarrow> no_coinbase_from i (ls @ [last ls]) = no_coinbase_from i ls"
proof -
  have snoc: "no_coinbase_from i (ls @ ms) = rbind (no_coinbase_from i ls) (\<lambda>_. no_coinbase_from (i + length ls) ms)" for i ls ms
  proof (induction ls arbitrary: i)
    case (Cons l ls)
    then show ?case by (cases "leaf_isCoinBase l") simp_all
  qed simp
  assume ne: "ls \<noteq> []"
  show ?thesis
  proof (cases "no_coinbase_from i ls")
    case (Inr b)
    then obtain rest where r: "b" "ls = map Inl rest" "list_all (\<lambda>tx. \<not> bt_isCoinBase tx) rest"
      using no_coinbase_iff by blast
    then have "rest \<noteq> []" using ne by auto
    then have "no_coinbase_from (i + length ls) [last ls] = Inr True"
      using r by (auto simp: last_map leaf_isCoinBase_def list_all_iff)
    then show ?thesis using Inr r(1) by (simp add: snoc)
  qed (simp add: snoc)
qed

text \<open>C20: nothing in \<open>checkBlock\<close> tells a block from the same block with its last transaction repeated:
  for an odd number of transactions greater than one both have the same root, and the answer is the
  same, an acceptance or an error.\<close>

theorem repeated_transaction_accepted:
  assumes "odd (length txs)" "length txs \<noteq> 1"
  shows "checkBlock sha256 now (Some (txs @ [last txs])) k = checkBlock sha256 now (Some txs) k"
proof -
  obtain l ls where txs: "txs = l # ls" "ls \<noteq> []" using assms by (cases txs) auto
  have c: "checkTransactions (txs @ [last txs]) = checkTransactions txs"
    using no_coinbase_repeat [OF txs(2), of 1] txs
    by (cases "leaf_isCoinBase l") (auto simp: checkTransactions_def simp del: One_nat_def)
  show ?thesis unfolding checkBlock_def option.case c checkMerkleRoot_repeat [OF assms] ..
qed

section \<open>The supply of coins\<close>

definition epoch_value :: "nat \<Rightarrow> nat" where
  "epoch_value e = 50 * BC_COIN div 2 ^ e"

lemma epoch_sum: "(\<Sum>h < 210000 * m. getBlockValue h) = (\<Sum>e < m. 210000 * epoch_value e)"
proof (induction m)
  case (Suc m)
  have "(\<Sum>h < 210000 * Suc m. getBlockValue h) =
      (\<Sum>h < 210000 * m. getBlockValue h) + (\<Sum>h = 210000 * m ..< 210000 * Suc m. getBlockValue h)"
    by (simp add: sum.atLeastLessThan_concat lessThan_atLeast0)
  also have "(\<Sum>h = 210000 * m ..< 210000 * Suc m. getBlockValue h) = (\<Sum>h = 210000 * m ..< 210000 * Suc m. epoch_value m)"
  proof (rule sum.cong [OF refl])
    fix h assume "h \<in> {210000 * m ..< 210000 * Suc m}"
    then have "h div 210000 = m" by (intro div_nat_eqI) simp_all
    then show "getBlockValue h = epoch_value m" by (simp add: getBlockValue_def epoch_value_def)
  qed
  finally show ?case using Suc by simp
qed simp

lemma epoch_end: "33 \<le> e \<Longrightarrow> epoch_value e = 0"
proof -
  assume "33 \<le> e"
  then have "(2 :: nat) ^ 33 \<le> 2 ^ e" by (intro power_increasing) simp_all
  then show ?thesis by (simp add: epoch_value_def BC_COIN_def div_eq_0_iff)
qed

text \<open>C22: the rewards of all blocks up to any height are less than 21 million coins together, and from
  the 33rd halving on they are exactly 20999999.9769 coins.\<close>

theorem coin_supply:
  "(\<Sum>h < n. getBlockValue h) \<le> 2099999997690000 \<and> 2099999997690000 < 21000000 * BC_COIN \<and>
   ((\<Sum>h < n + 6930000. getBlockValue h) = 2099999997690000)"
proof -
  have total: "(\<Sum>h < 6930000. getBlockValue h) = 2099999997690000"
  proof -
    have "(\<Sum>e < 33. epoch_value e) = (\<Sum>e \<leftarrow> [0..<33]. epoch_value e)"
      by (simp add: interv_sum_list_conv_sum_set_nat lessThan_atLeast0)
    also have "\<dots> = 9999999989" by (simp add: upt_conv_Cons epoch_value_def BC_COIN_def)
    finally have "(\<Sum>e < 33. epoch_value e) = 9999999989" .
    then show ?thesis using epoch_sum [of 33] by (simp add: sum_distrib_left [symmetric])
  qed
  have later: "getBlockValue h = 0" if "6930000 \<le> h" for h
    using that epoch_end [of "h div 210000"] div_le_mono [of 6930000 h 210000]
    by (simp add: getBlockValue_def epoch_value_def)
  have all: "(\<Sum>h < m + 6930000. getBlockValue h) = 2099999997690000" for m
  proof (induction m)
    case (Suc m)
    then show ?case unfolding add_Suc sum.lessThan_Suc using later [of "m + 6930000"] by simp
  qed (simp add: total)
  have "(\<Sum>h < n. getBlockValue h) \<le> (\<Sum>h < n + 6930000. getBlockValue h)"
    by (rule sum_mono2) auto
  then show ?thesis using all by (simp add: BC_COIN_def)
qed


section \<open>Examples\<close>

definition zero_hash :: "buffer \<Rightarrow> buffer" where
  "zero_hash b = NULL_HASH"

definition sample_coinbase :: btx where
  "sample_coinbase = \<lparr>bt_version = 1, bt_lock_time = 0, bt_ins = [\<lparr>bi_o = COINBASE_OP, bi_s = [1], bi_q = 0xffffffff\<rparr>],
     bt_outs = [\<lparr>bo_v = le_bytes 8 5000, bo_s = [0x6a]\<rparr>], bt_hash = Some NULL_HASH, bt_buffer = None\<rparr>"

definition sample_spend :: btx where
  "sample_spend = sample_coinbase\<lparr>bt_ins := [\<lparr>bi_o = replicate 36 7, bi_s = [1], bi_q = 0\<rparr>]\<rparr>"

definition sample_bc_block :: bc_block where
  "sample_bc_block = new_bc_block\<lparr>bb_hash := Some NULL_HASH, bb_bits := 0x1d00ffff, bb_version := 2\<rparr>"

lemma merkle_small:
  "merkle H [a] = a" "merkle H [a, b] = H a b" "merkle H [a, b, c] = H (H a b) (H c c)"
proof -
  show one: "merkle H [a] = a" for a by (simp add: merkle.simps)
  show two: "merkle H [a, b] = H a b" for a b by (simp add: merkle.simps [of H "[a, b]"] one)
  show "merkle H [a, b, c] = H (H a b) (H c c)" by (simp add: merkle.simps [of H "[a, b, c]"] two)
qed

lemma zero_hash_length: "length (zero_hash b) = 32"
  by (simp add: zero_hash_def NULL_HASH_def)

lemma sample_header_hash: "bb_calcHash zero_hash sample_bc_block = Inr NULL_HASH"
proof -
  let ?k = "\<lparr>bk_version = 2, bk_prevHash = Some NULL_HASH, bk_merkleRoot = Some NULL_HASH, bk_timestamp = 0,
    bk_bits = 0x1d00ffff, bk_nonce = 0, bk_transactions = None\<rparr>"
  have "header_ok ?k" by (simp add: header_ok_def NULL_HASH_def)
  moreover have "with_header ?k sample_bc_block = sample_bc_block"
    by (simp add: with_header_def sample_bc_block_def new_bc_block_def)
  ultimately have "getHeader sample_bc_block = Inr (header_bytes ?k)" using getHeader_bytes by metis
  then show ?thesis by (simp add: bb_calcHash_def twoSha256_def zero_hash_def)
qed

lemma double_times_power: "double_times n t = t * 2 ^ n"
  by (induction n arbitrary: t) simp_all

lemma sample_root: "NULL_HASH \<noteq> []"
  by (simp add: NULL_HASH_def)

lemma sample_target: "decodeDiffBits_bignum 0x1d00ffff = 65535 * 2 ^ 208"
  by (simp add: decodeDiffBits_bignum_def double_times_power js_and_def to_int32_def)

lemma sample_leaves: "rmap (leaf_hash zero_hash) [Inl sample_coinbase, Inl sample_spend, Inl sample_spend] =
    Inr [(NULL_HASH, Inl sample_coinbase), (NULL_HASH, Inl sample_spend), (NULL_HASH, Inl sample_spend)]"
  by (simp add: leaf_hash_def sample_coinbase_def sample_spend_def bt_getHash_def no_hash_def NULL_HASH_def)

lemma sample_conditions:
  "(\<exists>h. bb_hash sample_bc_block = Some h \<and> bb_calcHash zero_hash sample_bc_block = Inr h \<and>
     decodeDiffBits_bignum (bb_bits sample_bc_block) < 2 ^ 256 \<and> le_nat h \<le> decodeDiffBits_bignum (bb_bits sample_bc_block)) \<and>
   1000 * bb_timestamp sample_bc_block \<le> 0 + 7200000 \<and>
   (\<exists>cb rest. [Inl sample_coinbase, Inl sample_spend, Inl sample_spend] = map Inl (cb # rest) \<and> bt_isCoinBase cb \<and>
     list_all (\<lambda>tx. \<not> bt_isCoinBase tx) rest) \<and>
   bb_merkle_root sample_bc_block \<noteq> [] \<and>
   (\<exists>hs. rmap (leaf_hash zero_hash) [Inl sample_coinbase, Inl sample_spend, Inl sample_spend] = Inr hs \<and>
     bb_merkle_root sample_bc_block = merkle (node_hash zero_hash) (map fst hs))"
proof (intro conjI)
  have "bb_bits sample_bc_block = 0x1d00ffff" "bb_hash sample_bc_block = Some NULL_HASH"
    by (simp_all add: sample_bc_block_def)
  moreover have "le_nat NULL_HASH = 0" by (simp add: NULL_HASH_def) code_simp
  ultimately show "\<exists>h. bb_hash sample_bc_block = Some h \<and> bb_calcHash zero_hash sample_bc_block = Inr h \<and>
     decodeDiffBits_bignum (bb_bits sample_bc_block) < 2 ^ 256 \<and> le_nat h \<le> decodeDiffBits_bignum (bb_bits sample_bc_block)"
    using sample_header_hash by (simp add: sample_target)
  show "1000 * bb_timestamp sample_bc_block \<le> 0 + 7200000"
    by (simp add: sample_bc_block_def new_bc_block_def)
  have "hd COINBASE_OP = 0" by (simp add: COINBASE_OP_def hd_append)
  moreover have "hd (replicate 36 (7 :: byte)) = 7" by simp
  moreover have "(0 :: byte) \<noteq> 7" by simp
  ultimately have "replicate 36 7 \<noteq> COINBASE_OP" by metis
  then have "bt_isCoinBase sample_coinbase" "\<not> bt_isCoinBase sample_spend"
    by (simp_all add: bt_isCoinBase_def in_isCoinBase_def sample_coinbase_def sample_spend_def)
  then show "\<exists>cb rest. [Inl sample_coinbase, Inl sample_spend, Inl sample_spend] = map Inl (cb # rest) \<and>
      bt_isCoinBase cb \<and> list_all (\<lambda>tx. \<not> bt_isCoinBase tx) rest"
    by (intro exI [of _ sample_coinbase] exI [of _ "[sample_spend, sample_spend]"]) simp
  show "bb_merkle_root sample_bc_block \<noteq> []"
    by (simp add: sample_bc_block_def new_bc_block_def NULL_HASH_def)
  show "\<exists>hs. rmap (leaf_hash zero_hash) [Inl sample_coinbase, Inl sample_spend, Inl sample_spend] = Inr hs \<and>
     bb_merkle_root sample_bc_block = merkle (node_hash zero_hash) (map fst hs)"
    unfolding sample_leaves by (simp add: merkle_small twoSha256_def zero_hash_def sample_bc_block_def new_bc_block_def)
qed

theorem block_formats_agree_witness:
  "getHeader (with_header sample_block new_bc_block) = blk_toBuffer sample_block True"
  using block_formats_agree [of sample_block "[sample_tx]" new_bc_block id "[]"] sample_tx_ok
  by (simp add: block_ok_def header_ok_def sample_block_def)

theorem checkBlock_exact_witness:
  "checkBlock zero_hash 0 (Some [Inl sample_coinbase, Inl sample_spend, Inl sample_spend]) sample_bc_block = Inr True"
  using checkBlock_exact [of zero_hash 0 "[Inl sample_coinbase, Inl sample_spend, Inl sample_spend]" sample_bc_block]
    sample_conditions zero_hash_length by blast

theorem repeated_transaction_accepted_witness:
  "checkBlock zero_hash 0 (Some [Inl sample_coinbase, Inl sample_spend, Inl sample_spend, Inl sample_spend]) sample_bc_block =
     Inr True"
proof -
  have "checkBlock zero_hash 0 (Some [Inl sample_coinbase, Inl sample_spend, Inl sample_spend]) sample_bc_block = Inr True"
    using checkBlock_iff [of zero_hash 0 "[Inl sample_coinbase, Inl sample_spend, Inl sample_spend]" sample_bc_block]
      sample_conditions zero_hash_length by blast
  then show ?thesis
    using repeated_transaction_accepted [of "[Inl sample_coinbase, Inl sample_spend, Inl sample_spend]" zero_hash 0 sample_bc_block]
    by simp
qed

text \<open>Two lists of two hashes, the first of them different, have the root of the sample block when every
  hash is zero: the collision is in their lowest level.\<close>

theorem merkle_root_binds_witness:
  "\<exists>a \<in> set (merkle_inputs (twoSha256 zero_hash) (@) [replicate 32 1, NULL_HASH]).
   \<exists>b \<in> set (merkle_inputs (twoSha256 zero_hash) (@) [NULL_HASH, NULL_HASH]). a \<noteq> b \<and> twoSha256 zero_hash a = twoSha256 zero_hash b"
proof -
  have len: "length NULL_HASH = 32" "length (replicate 32 1 :: buffer) = 32" and ne: "replicate 32 1 \<noteq> NULL_HASH"
    by (simp_all add: NULL_HASH_def)
  have "checkMerkleRoot zero_hash (map Inr [h, NULL_HASH]) sample_bc_block = Inr True" for h
    using sample_root by (simp add: checkMerkleRoot_iff leaf_hash_def merkle_small twoSha256_def zero_hash_def
        sample_bc_block_def new_bc_block_def)
  from merkle_root_binds [of zero_hash "[replicate 32 1, NULL_HASH]" "[NULL_HASH, NULL_HASH]" sample_bc_block, OF _ _ _ _ _ this this]
  show ?thesis using len ne zero_hash_length by simp
qed

end
