(* ===== verification/Bc_Sighash.thy ===== *)
theory Bc_Sighash
  imports Bc_Tx
begin

text \<open>
  The two libraries sign the same message: bitcore's serialiser object and bitcoinjs-lib's blanked
  copy of the transaction give the same bytes.
\<close>

section \<open>The script of the signed message\<close>

lemma findAndDelete_idem: "findAndDelete c (findAndDelete c s) = findAndDelete c s"
  by (subst findAndDelete_filter) simp

definition standard_pushes :: "chunk list \<Rightarrow> bool" where
  "standard_pushes cs \<longleftrightarrow> list_all canonical_chunk cs \<and> list_all same_prefix cs"

lemma standard_pushes_filter: "standard_pushes cs \<Longrightarrow> standard_pushes (filter P cs)"
  by (auto simp: standard_pushes_def list_all_iff)

lemma new_script_bytes:
  "standard_pushes cs \<Longrightarrow> new_script (concat (map chunk_bytes cs)) = fromChunks cs"
  using bc_parse_chunks [of cs] chunksToBuffer_eq [of cs]
  by (intro synced_eq) (simp_all add: synced_def new_script_def standard_pushes_def)

lemma deleted_script:
  assumes "standard_pushes cs"
  shows "bs_buffer (findAndDelete c (new_script (concat (map chunk_bytes cs)))) =
    concat (map chunk_bytes (filter (\<lambda>x. x \<noteq> c) cs))"
proof -
  have "synced (findAndDelete c (fromChunks cs))" by simp
  then show ?thesis
    using standard_pushes_filter [OF assms, of "\<lambda>x. x \<noteq> c"]
    by (simp add: new_script_bytes [OF assms] synced_def chunksToBuffer_eq standard_pushes_def)
qed

lemma sighash_script_bytes:
  assumes "standard_pushes cs"
  shows "sighash_script (concat (map chunk_bytes cs)) = Inr (concat (map chunk_bytes (filter (\<lambda>x. x \<noteq> Op 171) cs)))"
proof -
  have "list_all writable_chunk (filter (\<lambda>x. x \<noteq> Op 171) cs)"
    using assms canonical_writable by (auto simp: standard_pushes_def list_all_iff)
  then show ?thesis
    using assms by (simp add: sighash_script_def decompile_concat compile_Chunks standard_pushes_def del: rbind_Inr_iff)
qed

section \<open>What the serialiser writes\<close>

definition input_part :: "sig_serializer \<Rightarrow> bc_script \<Rightarrow> nat \<Rightarrow> buffer" where
  "input_part z script n =
     (let k = (if ss_anyoneCanPay z then ss_nIn z else n);
          txin = bt_ins (ss_txTo z) ! k;
          s = (if k = ss_nIn z then bs_buffer script else []);
          q = (if k \<noteq> ss_nIn z \<and> (ss_hashSingle z \<or> ss_hashNone z) then 0 else bi_q txin)
      in bi_o txin @ varint_bytes (length s) @ s @ le_bytes 4 q)"

definition output_part :: "sig_serializer \<Rightarrow> nat \<Rightarrow> buffer" where
  "output_part z n =
     (if ss_hashSingle z \<and> n \<noteq> ss_nIn z then replicate 8 0xff @ varint_bytes 0
      else bout_bytes (bt_outs (ss_txTo z) ! n))"

text \<open>Two states of the serialiser of one transaction: only the bytes and the script change.\<close>

definition same_job :: "sig_serializer \<Rightarrow> sig_serializer \<Rightarrow> bool" where
  "same_job z y \<longleftrightarrow> ss_txTo z = ss_txTo y \<and> ss_nIn z = ss_nIn y \<and> ss_anyoneCanPay z = ss_anyoneCanPay y \<and>
     ss_hashSingle z = ss_hashSingle y \<and> ss_hashNone z = ss_hashNone y \<and>
     findAndDelete (Op 171) (ss_scriptCode z) = findAndDelete (Op 171) (ss_scriptCode y)"

lemma same_job_parts:
  "same_job z y \<Longrightarrow> input_part z s n = input_part y s n" "same_job z y \<Longrightarrow> output_part z n = output_part y n"
  by (simp_all add: same_job_def input_part_def output_part_def)

lemma serializeInput_part:
  assumes "length (bs_buffer (findAndDelete (Op 171) (ss_scriptCode z))) < 0x10000"
  shows "ss_bytes (serializeInput n z) = ss_bytes z @ input_part z (findAndDelete (Op 171) (ss_scriptCode z)) n"
    and "same_job (serializeInput n z) z"
  using assms
  by (simp_all add: serializeInput_def serializeScriptCode_def input_part_def same_job_def Let_def put_buffer_def
      put_le_def put_varint_small findAndDelete_idem)

lemma serializeOutput_part:
  assumes "\<not> (ss_hashSingle z \<and> n \<noteq> ss_nIn z) \<Longrightarrow> length (bo_s (bt_outs (ss_txTo z) ! n)) < 0x10000"
  shows "ss_bytes (serializeOutput n z) = ss_bytes z @ output_part z n"
    and "same_job (serializeOutput n z) z" "ss_scriptCode (serializeOutput n z) = ss_scriptCode z"
  using assms
  by (auto simp: serializeOutput_def output_part_def same_job_def Let_def put_buffer_def
      put_le_def put_varint_small bout_bytes_def INT64_MAX_def)

lemma fold_inputs:
  assumes "length (bs_buffer (findAndDelete (Op 171) (ss_scriptCode z))) < 0x10000"
  shows "ss_bytes (fold serializeInput ns z) =
      ss_bytes z @ concat (map (input_part z (findAndDelete (Op 171) (ss_scriptCode z))) ns) \<and>
    same_job (fold serializeInput ns z) z"
  using assms
proof (induction ns arbitrary: z)
  case (Cons n ns)
  let ?y = "serializeInput n z"
  note step = serializeInput_part [OF Cons.prems, of n]
  have same: "findAndDelete (Op 171) (ss_scriptCode ?y) = findAndDelete (Op 171) (ss_scriptCode z)"
    using step(2) by (simp add: same_job_def)
  have IH: "ss_bytes (fold serializeInput ns ?y) =
      ss_bytes ?y @ concat (map (input_part ?y (findAndDelete (Op 171) (ss_scriptCode ?y))) ns) \<and>
      same_job (fold serializeInput ns ?y) ?y"
    using Cons.prems same by (intro Cons.IH) simp
  moreover have "input_part ?y = input_part z" using same_job_parts(1) [OF step(2)] by (intro ext)
  ultimately show ?case using step same by (simp add: same_job_def)
qed (simp add: same_job_def)

lemma fold_outputs:
  assumes "\<And>n. n \<in> set ns \<Longrightarrow> \<not> (ss_hashSingle z \<and> n \<noteq> ss_nIn z) \<Longrightarrow> length (bo_s (bt_outs (ss_txTo z) ! n)) < 0x10000"
  shows "ss_bytes (fold serializeOutput ns z) = ss_bytes z @ concat (map (output_part z) ns) \<and>
    same_job (fold serializeOutput ns z) z \<and> ss_scriptCode (fold serializeOutput ns z) = ss_scriptCode z"
  using assms
proof (induction ns arbitrary: z)
  case (Cons n ns)
  let ?y = "serializeOutput n z"
  have step: "ss_bytes ?y = ss_bytes z @ output_part z n" "same_job ?y z" "ss_scriptCode ?y = ss_scriptCode z"
    using Cons.prems by (auto intro!: serializeOutput_part)
  have "ss_bytes (fold serializeOutput ns ?y) = ss_bytes ?y @ concat (map (output_part ?y) ns) \<and>
      same_job (fold serializeOutput ns ?y) ?y \<and> ss_scriptCode (fold serializeOutput ns ?y) = ss_scriptCode ?y"
    using Cons.prems step(2) by (intro Cons.IH) (simp add: same_job_def)
  moreover have "output_part ?y = output_part z" using same_job_parts(2) [OF step(2)] by (intro ext)
  ultimately show ?case using step by (simp add: same_job_def)
qed (simp add: same_job_def)

definition n_inputs :: "sig_serializer \<Rightarrow> nat" where
  "n_inputs z = (if ss_anyoneCanPay z then 1 else length (bt_ins (ss_txTo z)))"

definition n_outputs :: "sig_serializer \<Rightarrow> nat" where
  "n_outputs z = (if ss_hashNone z then 0 else if ss_hashSingle z then ss_nIn z + 1 else length (bt_outs (ss_txTo z)))"

lemma same_job_counts: "same_job y z \<Longrightarrow> n_outputs y = n_outputs z"
  by (simp add: same_job_def n_outputs_def)

lemma sig_serialize_steps:
  "sig_serialize z =
     (let y1 = put (put_varint (n_inputs z)) (put (put_word32le (bt_version (ss_txTo z))) z);
          y2 = fold serializeInput [0..<n_inputs z] y1;
          y3 = put (put_varint (n_outputs y2)) y2;
          y4 = fold serializeOutput [0..<n_outputs y2] y3
      in put (put_word32le (bt_lock_time (ss_txTo y4))) y4)"
  unfolding sig_serialize_def n_inputs_def n_outputs_def Let_def by simp

lemma sig_serialize_bytes:
  assumes "length (bs_buffer (findAndDelete (Op 171) (ss_scriptCode z))) < 0x10000"
    and "n_inputs z < 0x10000" "n_outputs z < 0x10000"
    and "\<And>n. n < n_outputs z \<Longrightarrow> \<not> (ss_hashSingle z \<and> n \<noteq> ss_nIn z) \<Longrightarrow> length (bo_s (bt_outs (ss_txTo z) ! n)) < 0x10000"
  shows "ss_bytes (sig_serialize z) = ss_bytes z @ le_bytes 4 (bt_version (ss_txTo z)) @ varint_bytes (n_inputs z) @
      concat (map (input_part z (findAndDelete (Op 171) (ss_scriptCode z))) [0..<n_inputs z]) @
      varint_bytes (n_outputs z) @ concat (map (output_part z) [0..<n_outputs z]) @ le_bytes 4 (bt_lock_time (ss_txTo z))"
proof -
  define y1 where "y1 = put (put_varint (n_inputs z)) (put (put_word32le (bt_version (ss_txTo z))) z)"
  define y2 where "y2 = fold serializeInput [0..<n_inputs z] y1"
  define y3 where "y3 = put (put_varint (n_outputs y2)) y2"
  define y4 where "y4 = fold serializeOutput [0..<n_outputs y2] y3"
  let ?f = "findAndDelete (Op 171) (ss_scriptCode z)"
  have s1: "same_job y1 z" "ss_scriptCode y1 = ss_scriptCode z"
    and b1: "ss_bytes y1 = ss_bytes z @ le_bytes 4 (bt_version (ss_txTo z)) @ varint_bytes (n_inputs z)"
    using assms(2) by (simp_all add: y1_def same_job_def put_le_def put_varint_small)
  have f2: "ss_bytes y2 = ss_bytes y1 @ concat (map (input_part y1 (findAndDelete (Op 171) (ss_scriptCode y1))) [0..<n_inputs z]) \<and>
      same_job y2 y1"
    unfolding y2_def using assms(1) s1(2) by (intro fold_inputs) simp
  have i1: "input_part y1 = input_part z" using same_job_parts(1) [OF s1(1)] by (intro ext)
  have s2: "same_job y2 z" using f2 s1(1) by (simp add: same_job_def)
  have n2: "n_outputs y2 = n_outputs z" using s2 by (rule same_job_counts)
  have s3: "same_job y3 z" using s2 by (simp add: y3_def same_job_def)
  have b3: "ss_bytes y3 = ss_bytes y2 @ varint_bytes (n_outputs z)"
    using assms(3) n2 by (simp add: y3_def put_varint_small)
  have f4: "ss_bytes y4 = ss_bytes y3 @ concat (map (output_part y3) [0..<n_outputs y2]) \<and> same_job y4 y3 \<and>
      ss_scriptCode y4 = ss_scriptCode y3"
    unfolding y4_def using assms(4) s3 n2 by (intro fold_outputs) (simp add: same_job_def)
  have o3: "output_part y3 = output_part z" using same_job_parts(2) [OF s3] by (intro ext)
  have t4: "ss_txTo y4 = ss_txTo z" using f4 s3 by (simp add: same_job_def)
  have "sig_serialize z = put (put_word32le (bt_lock_time (ss_txTo y4))) y4"
    unfolding sig_serialize_steps Let_def y1_def [symmetric] y2_def [symmetric] y3_def [symmetric] y4_def [symmetric] ..
  then show ?thesis using b1 f2 b3 f4 by (simp add: put_le_def s1(2) i1 o3 n2 t4)
qed

section \<open>It is the serialised copy of bitcoinjs-lib\<close>

lemma new_serializer_sel:
  "ss_txTo (new_serializer tx s i ht) = tx" "ss_scriptCode (new_serializer tx s i ht) = s"
  "ss_nIn (new_serializer tx s i ht) = i" "ss_bytes (new_serializer tx s i ht) = []"
  "ss_anyoneCanPay (new_serializer tx s i ht) = anyone_can_pay ht"
  "ss_hashSingle (new_serializer tx s i ht) = (base_type ht = 3)"
  "ss_hashNone (new_serializer tx s i ht) = (base_type ht = 2)"
  by (simp_all add: new_serializer_def anyone_can_pay_def base_type_def Let_def)

text \<open>The inputs of the copy, with the script at the place of the signed input.\<close>

definition copied_ins :: "transaction \<Rightarrow> nat \<Rightarrow> buffer \<Rightarrow> int \<Rightarrow> tx_in list" where
  "copied_ins tx i hs ht =
     (let ins = committed_ins tx i ht; k = (if anyone_can_pay ht then 0 else i)
      in ins[k := (ins ! k)\<lparr>ti_script := hs\<rparr>])"

definition copied_outs :: "transaction \<Rightarrow> nat \<Rightarrow> int \<Rightarrow> tx_out list" where
  "copied_outs tx i ht =
     (if base_type ht = SIGHASH_SINGLE then replicate i stubOut @ committed_outs tx i ht else committed_outs tx i ht)"

lemma copied_ins_parts:
  fixes s scr :: bc_script and ht :: int
  assumes "i < length (tx_ins tx)"
  defines "z \<equiv> new_serializer (bc_tx tx) scr i ht"
  shows "map (input_part z s) [0..<n_inputs z] = map in_bytes (copied_ins tx i (bs_buffer s) ht)"
proof (cases "anyone_can_pay ht")
  case True
  then show ?thesis
    using assms(1)
    by (simp add: z_def n_inputs_def input_part_def copied_ins_def committed_ins_def new_serializer_sel bc_tx_def
        bc_in_def in_bytes_def blank_script_def Let_def)
next
  case False
  have part: "input_part z s j = in_bytes (copied_ins tx i (bs_buffer s) ht ! j)" if "j < length (tx_ins tx)" for j
    using that assms(1) False
    by (auto simp: z_def input_part_def copied_ins_def committed_ins_def new_serializer_sel bc_tx_def
        bc_in_def in_bytes_def blank_script_def Let_def nth_list_update)
  have len: "length (copied_ins tx i (bs_buffer s) ht) = length (tx_ins tx)"
    using False by (simp add: copied_ins_def committed_ins_def Let_def)
  have "n_inputs z = length (tx_ins tx)" using False by (simp add: z_def n_inputs_def new_serializer_sel bc_tx_def)
  then show ?thesis using part len by (intro nth_equalityI) simp_all
qed

lemma copied_outs_parts:
  fixes scr :: bc_script
  assumes "tx_ok tx" "base_type ht = 3 \<Longrightarrow> i < length (tx_outs tx)"
  defines "z \<equiv> new_serializer (bc_tx tx) scr i ht"
  shows "map (output_part z) [0..<n_outputs z] = map out_bytes (copied_outs tx i ht)"
proof -
  have plain: "plain_out (tx_outs tx ! j) = tx_outs tx ! j" if "j < length (tx_outs tx)" for j
    using assms(1) that by (auto simp: tx_ok_def list_all_length intro: plain_out_id)
  consider (none) "base_type ht = 2" | (single) "base_type ht = 3" | (all) "base_type ht \<noteq> 2" "base_type ht \<noteq> 3"
    by blast
  then show ?thesis
  proof cases
    case none
    then show ?thesis
      by (simp add: z_def n_outputs_def new_serializer_sel copied_outs_def committed_outs_def)
  next
    case single
    then have i: "i < length (tx_outs tx)" by (rule assms(2))
    then have one: "take 1 (drop i (tx_outs tx)) = [tx_outs tx ! i]" by (simp add: take_Suc_conv_app_nth)
    have "map (output_part z) [0..<i] = replicate i (out_bytes stubOut)"
      using single
      by (intro nth_equalityI)
        (simp_all add: z_def output_part_def new_serializer_sel out_bytes_def value_bytes_def stubOut_def VALUE_UINT64_MAX_def)
    then show ?thesis
      using single i plain [OF i] one
      by (simp add: z_def n_outputs_def new_serializer_sel copied_outs_def committed_outs_def output_part_def bc_tx_def)
  next
    case all
    then show ?thesis
      using plain
      by (intro nth_equalityI)
        (simp_all add: z_def n_outputs_def new_serializer_sel copied_outs_def committed_outs_def output_part_def bc_tx_def)
  qed
qed

lemma serialised_message:
  fixes scr :: bc_script
  assumes "tx_ok tx" "i < length (tx_ins tx)" "base_type ht = 3 \<Longrightarrow> i < length (tx_outs tx)"
    and "length (tx_ins tx) < 0x10000" "length (tx_outs tx) < 0x10000"
    and "\<And>o'. o' \<in> set (tx_outs tx) \<Longrightarrow> length (to_script o') < 0x10000"
    and hs: "hs = bs_buffer (findAndDelete (Op 171) scr)" "length hs < 0x10000"
  shows "ss_bytes (sig_serialize (new_serializer (bc_tx tx) scr i ht)) =
    tx_bytes \<lparr>tx_version = tx_version tx, tx_locktime = tx_locktime tx,
      tx_ins = copied_ins tx i hs ht, tx_outs = copied_outs tx i ht\<rparr>"
proof -
  let ?z = "new_serializer (bc_tx tx) scr i ht"
  let ?f = "findAndDelete (Op 171) scr"
  note ins = copied_ins_parts [OF assms(2), of scr ht ?f] and outs = copied_outs_parts [of tx ht i scr, OF assms(1,3)]
  have n: "length (copied_ins tx i hs ht) = n_inputs ?z" "length (copied_outs tx i ht) = n_outputs ?z"
    using arg_cong [OF ins, of length] arg_cong [OF outs, of length] hs(1) by simp_all
  have small: "n_inputs ?z < 0x10000" "n_outputs ?z < 0x10000"
    using assms(3-5) by (auto simp: n_inputs_def n_outputs_def new_serializer_sel bc_tx_def)
  have scripts: "length (bo_s (bt_outs (ss_txTo ?z) ! k)) < 0x10000"
    if "k < n_outputs ?z" "\<not> (ss_hashSingle ?z \<and> k \<noteq> ss_nIn ?z)" for k
    using that assms(3,6)
    by (auto simp: n_outputs_def new_serializer_sel bc_tx_def bc_out_def split: if_splits)
  show ?thesis
    using sig_serialize_bytes [of ?z] small scripts hs ins outs n
    by (simp add: new_serializer_sel tx_bytes_def bc_tx_def)
qed

lemma bc_hash_message:
  fixes scr :: bc_script
  assumes "tx_ok tx" "length (tx_ins tx) < 0x10000" "length (tx_outs tx) < 0x10000"
    and "\<And>o'. o' \<in> set (tx_outs tx) \<Longrightarrow> length (to_script o') < 0x10000"
    and "hs = bs_buffer (findAndDelete (Op 171) scr)" "length hs < 0x10000"
  shows "fst (bc_hashForSignature sha256 (bc_tx tx) scr i ht) =
    (if i < length (tx_ins tx) \<and> (base_type ht = 3 \<longrightarrow> i < length (tx_outs tx))
     then sha256 (sha256 (tx_bytes \<lparr>tx_version = tx_version tx, tx_locktime = tx_locktime tx,
            tx_ins = copied_ins tx i hs ht, tx_outs = copied_outs tx i ht\<rparr> @ le_bytes 4 (nat (ht mod 2 ^ 32))))
     else oneBuffer)"
proof (cases "i < length (tx_ins tx) \<and> (base_type ht = 3 \<longrightarrow> i < length (tx_outs tx))")
  case True
  then show ?thesis
    using serialised_message [OF assms(1) _ _ assms(2-6), of i ht]
    by (auto simp: bc_hashForSignature_def Let_def base_type_def twoSha256_def put_le_def bc_tx_def)
next
  case False
  then show ?thesis by (auto simp: bc_hashForSignature_def base_type_def bc_tx_def)
qed

section \<open>Property\<close>

lemma same_sighash:
  assumes "tx_ok tx" "i < 2 ^ 32" "- (2 ^ 31) \<le> ht" "ht < 2 ^ 31"
    and "standard_pushes cs" "s = concat (map chunk_bytes cs)" "length s < 0x10000"
    and "length (tx_ins tx) < 0x10000" "length (tx_outs tx) < 0x10000"
    and "list_all (\<lambda>o'. length (to_script o') < 0x10000) (tx_outs tx)"
  shows "hashForSignature sha256 tx i s ht =
    (if i < length (tx_ins tx) \<and> (base_type ht = 3 \<longrightarrow> i < length (tx_outs tx))
     then Inr (fst (bc_hashForSignature sha256 (bc_tx tx) (new_script s) i ht))
     else Inr (rev (fst (bc_hashForSignature sha256 (bc_tx tx) (new_script s) i ht))))"
proof -
  define hs where "hs = concat (map chunk_bytes (filter (\<lambda>x. x \<noteq> Op 171) cs))"
  have script: "sighash_script s = Inr hs" "hs = bs_buffer (findAndDelete (Op 171) (new_script s))"
    using sighash_script_bytes [OF assms(5)] deleted_script [OF assms(5), of "Op 171"] assms(6) by (simp_all add: hs_def)
  have "length (concat (map chunk_bytes (filter P cs))) \<le> length (concat (map chunk_bytes cs))" for P
    by (induction cs) auto
  then have len: "length hs < 0x10000" using assms(6,7) unfolding hs_def by (meson le_less_trans)
  have "length (to_script o') < 0x10000" if "o' \<in> set (tx_outs tx)" for o'
    using assms(10) that by (simp add: list_all_iff)
  from bc_hash_message [OF assms(1,8,9) this script(2) len, of sha256 i ht]
  have bc: "fst (bc_hashForSignature sha256 (bc_tx tx) (new_script s) i ht) =
    (if i < length (tx_ins tx) \<and> (base_type ht = 3 \<longrightarrow> i < length (tx_outs tx))
     then sha256 (sha256 (tx_bytes \<lparr>tx_version = tx_version tx, tx_locktime = tx_locktime tx,
            tx_ins = copied_ins tx i hs ht, tx_outs = copied_outs tx i ht\<rparr> @ le_bytes 4 (nat (ht mod 2 ^ 32))))
     else oneBuffer)" by simp
  have "length hs < 2 ^ 53" using len by simp
  note js = hashForSignature_message [OF assms(1,2) script(1) this assms(3,4), of sha256]
  have one: "ONE = rev oneBuffer" by (simp add: ONE_def oneBuffer_def)
  have view: "sighash_of_view (tx_version tx) (tx_locktime tx) (committed_ins tx i ht) (committed_outs tx i ht) i hs ht =
      (if base_type ht = 3 \<longrightarrow> i < length (tx_outs tx)
       then Some \<lparr>tx_version = tx_version tx, tx_locktime = tx_locktime tx,
            tx_ins = copied_ins tx i hs ht, tx_outs = copied_outs tx i ht\<rparr> else None)"
    by (auto simp: sighash_of_view_def copied_ins_def copied_outs_def committed_outs_def Let_def)
  show ?thesis unfolding js bc view one by (simp add: hash256_def)
qed

text \<open>Only the chunks of the script matter to bitcoinjs-lib, and an empty push is as good as \<open>OP_0\<close>.\<close>

lemma recompiled_script:
  assumes "decompile (Buf s) = Inr cs" "compile (Chunks cs) = Inr s'" "list_all same_prefix cs"
  shows "standard_pushes (map canonicalise cs)" "s' = concat (map chunk_bytes (map canonicalise cs))"
    and "sighash_script s = sighash_script s'"
proof -
  have r: "list_all readable_chunk cs" using assms(1) decompile_total [of s] by auto
  have "same_prefix (canonicalise c)" if "same_prefix c" for c using that by (cases c) auto
  then show p: "standard_pushes (map canonicalise cs)"
    using r assms(3) canonicalise_canonical by (auto simp: standard_pushes_def list_all_iff)
  show s': "s' = concat (map chunk_bytes (map canonicalise cs))" using assms(2) compile_decompile [OF r] by (simp add: comp_def)
  have keep: "canonicalise c \<noteq> Op 171 \<longleftrightarrow> c \<noteq> Op 171" for c by (cases c) auto
  have "list_all writable_chunk (filter (\<lambda>x. x \<noteq> Op 171) cs)" using r readable_writable by (auto simp: list_all_iff)
  then have "sighash_script s = Inr (concat (map chunk_bytes (filter (\<lambda>x. x \<noteq> Op 171) cs)))"
    using assms(1) by (simp add: sighash_script_def compile_Chunks del: rbind_Inr_iff)
  moreover have "sighash_script s' = Inr (concat (map chunk_bytes (filter (\<lambda>x. x \<noteq> Op 171) (map canonicalise cs))))"
    unfolding s' by (rule sighash_script_bytes [OF p])
  ultimately show "sighash_script s = sighash_script s'" by (simp add: filter_map comp_def keep)
qed

text \<open>C31: the two libraries sign the same message. For every input and hash type, what bitcoinjs-lib
  hashes for a script is what bitcore's serialiser writes for the script recompiled, that is for the same
  script where its pushes are as \<open>compile\<close> writes them; a script with longer pushes bitcoinjs-lib
  signs in that other form. The two differ in the answer for an input, or for the output of SINGLE, that
  does not exist: each returns the number one, bitcore as little-endian and bitcoinjs-lib as big-endian
  bytes. No count and no script may reach 65536, where bitcore's writer has no five-byte form, and no
  push may have 255 or 65535 bytes, for which the two choose different prefixes.\<close>

theorem sighash_agrees:
  assumes "tx_ok tx" "i < 2 ^ 32" "- (2 ^ 31) \<le> ht" "ht < 2 ^ 31"
    and "decompile (Buf s) = Inr cs" "compile (Chunks cs) = Inr s'" "list_all same_prefix cs" "length s' < 0x10000"
    and "length (tx_ins tx) < 0x10000" "length (tx_outs tx) < 0x10000"
    and "list_all (\<lambda>o'. length (to_script o') < 0x10000) (tx_outs tx)"
  shows "hashForSignature sha256 tx i s ht =
    (if i < length (tx_ins tx) \<and> (base_type ht = 3 \<longrightarrow> i < length (tx_outs tx))
     then Inr (fst (bc_hashForSignature sha256 (bc_tx tx) (new_script s') i ht))
     else Inr (rev (fst (bc_hashForSignature sha256 (bc_tx tx) (new_script s') i ht))))"
proof -
  note r = recompiled_script [OF assms(5-7)]
  have "hashForSignature sha256 tx i s ht = hashForSignature sha256 tx i s' ht" by (simp only: hashForSignature_def r(3))
  then show ?thesis using same_sighash [OF assms(1-4) r(1,2) assms(8-11)] by (simp only:)
qed

text \<open>A transaction with one input and one output; the script pushes a byte with a needless
  \<open>OP_PUSHDATA1\<close>, which bitcore keeps and bitcoinjs-lib does not.\<close>

theorem sighash_agrees_witness:
  "hashForSignature id sample_tx 0 [0x4c, 1, 0xaa] 0x81 =
     Inr (fst (bc_hashForSignature id (bc_tx sample_tx) (new_script [1, 0xaa]) 0 0x81)) \<and>
   hashForSignature id sample_tx 1 [0xac] 1 = Inr (rev (fst (bc_hashForSignature id (bc_tx sample_tx) (new_script [0xac]) 1 1)))"
proof -
  have d: "decompile (Buf [0x4c, 1, 0xaa]) = Inr [Data [0xaa]]" "decompile (Buf [0xac]) = Inr [Op 172]"
    by (simp_all add: decompile_def decompile_loop.simps readPushDataInt_def readLE_def slice_def Let_def)
  have c: "compile (Chunks [Data [0xaa]]) = Inr [1, 0xaa]" "compile (Chunks [Op 172]) = Inr [0xac]"
    using compile_Chunks [of "[Data [0xaa]]"] compile_Chunks [of "[Op 172]"] by (simp_all add: push_prefix_def)
  have n: "length (tx_ins sample_tx) = 1" "length (tx_outs sample_tx) = 1"
    "list_all (\<lambda>o'. length (to_script o') < 0x10000) (tx_outs sample_tx)" by (simp_all add: sample_tx_def)
  have "base_type 0x81 = 1" by (simp add: base_type_def js_and_def to_int32_def)
  then show ?thesis
    using sighash_agrees [OF sample_tx_ok _ _ _ d(1) c(1), of 0 "0x81" id] sighash_agrees [OF sample_tx_ok _ _ _ d(2) c(2), of 1 1 id] n
    by simp
qed

lemma needless_prefix_kept:
  "sighash_script [0x4c, 1, 0xaa] = Inr [1, 0xaa]"
  "bs_buffer (findAndDelete (Op 171) (new_script [0x4c, 1, 0xaa])) = [0x4c, 1, 0xaa]"
proof -
  show "sighash_script [0x4c, 1, 0xaa] = Inr [1, 0xaa]"
    using compile_Chunks [of "[Data [0xaa]]"]
    by (simp add: sighash_script_def decompile_def decompile_loop.simps readPushDataInt_def readLE_def slice_def Let_def push_prefix_def)
  show "bs_buffer (findAndDelete (Op 171) (new_script [0x4c, 1, 0xaa])) = [0x4c, 1, 0xaa]"
  proof -
    have "bs_chunks (new_script [0x4c, 1, 0xaa]) = [Data [0xaa]]"
      by (simp add: new_script_def bc_parse_def parse_loop.simps parse_chunk_def word8_def ps_buffer_def new_parser_def
          getDecoder_def decodeBEu_def double_nat_def ps_eof_def slice_def)
    then show ?thesis by (simp add: findAndDelete_def delete_loop.simps new_script_def)
  qed
qed

end
