(* ===== verification/Bc_Interp.thy ===== *)
theory Bc_Interp
  imports Bc_Sighash
begin

text \<open>
  \<open>bitcore/lib/ScriptInterpreter.js\<close>: the machine that runs scripts and decides whether an input may
  spend an output. The stack is a list with its top at the end, as the code's array. The chain of
  callbacks is a chain of results: a callback's error is \<open>Inl\<close>. Signatures are verified by the
  key module, an argument; its callback is taken to be called before \<open>verifySignature\<close> returns, as
  bitcore's own key module for the browser does, so that what it throws is caught by \<open>executeStep\<close>
  (which of two errors is reported when a failed \<open>VERIFY\<close> is caught twice is not modelled).
\<close>

section \<open>The stack\<close>

type_synonym stack = "buffer list"

abbreviation (input) underrun :: js_error where
  "underrun \<equiv> JsError ''ScriptInterpreter.stackTop(): Stack underrun''"

definition stackTop :: "nat \<Rightarrow> stack \<Rightarrow> buffer res" where
  "stackTop offset s =
     (let offset = (if offset < 1 then 1 else offset)
      in if offset > length s then Inl underrun else Inr (s ! (length s - offset)))"

definition stackBack :: "stack \<Rightarrow> buffer" where
  "stackBack s = s ! (length s - 1)"

definition stackPop :: "stack \<Rightarrow> (buffer \<times> stack) res" where
  "stackPop s = (if length s < 1 then Inl underrun else Inr (last s, butlast s))"

definition stackSwap :: "nat \<Rightarrow> nat \<Rightarrow> stack \<Rightarrow> stack res" where
  "stackSwap a b s =
     (if length s < a \<or> length s < b then Inl underrun
      else let l = length s; tmp = s ! (l - a) in Inr (s[l - a := s ! (l - b), l - b := tmp]))"

text \<open>\<open>s.splice(i, n)\<close> removes \<open>n\<close> elements at \<open>i\<close>.\<close>

definition splice :: "nat \<Rightarrow> nat \<Rightarrow> 'a list \<Rightarrow> 'a list" where
  "splice i n s = take i s @ drop (i + n) s"

definition push :: "buffer \<Rightarrow> stack \<Rightarrow> stack" where
  "push x s = s @ [x]"

fun castBool :: "buffer \<Rightarrow> bool" where
  "castBool [] = False"
| "castBool (x # v) = (if x \<noteq> 0 then \<not> (v = [] \<and> x = 0x80) else castBool v)"

definition castInt :: "buffer \<Rightarrow> int res" where
  "castInt v = bufferSMToInt v"

definition bool_buffer :: "bool \<Rightarrow> buffer" where
  "bool_buffer b = [if b then 1 else 0]"

section \<open>Signatures\<close>

record si_opts =
  so_dontVerifyStrictEnc :: bool
  so_verifyEvenS :: bool
  so_verifyP2SH :: bool

text \<open>The hash functions and the key module, the transaction and the input that is checked.\<close>

record si_env =
  se_sha256 :: "buffer \<Rightarrow> buffer"
  se_sha1 :: "buffer \<Rightarrow> buffer"
  se_ripe160 :: "buffer \<Rightarrow> buffer"
  se_verifySignature :: "buffer \<Rightarrow> buffer \<Rightarrow> buffer \<Rightarrow> bool res"
  se_tx :: btx
  se_inIndex :: nat
  se_hashType :: int
  se_opts :: si_opts

definition non_canonical :: "string \<Rightarrow> 'a res" where
  "non_canonical why = Inl (JsError (''Non-canonical signature: '' @ why))"

text \<open>Both integers of a signature are checked alike.\<close>

definition check_integer :: "string \<Rightarrow> buffer \<Rightarrow> nat \<Rightarrow> nat \<Rightarrow> unit res" where
  "check_integer name sig pos len =
     (let v = slice sig pos (pos + len) in
      if byte_at sig (pos - 2) \<noteq> Some 0x02 then non_canonical (name @ '' value type mismatch'')
      else if len = 0 then non_canonical (name @ '' length is zero'')
      else if js_and (byte_or_0 v 0) 0x80 \<noteq> 0 then non_canonical (name @ '' value negative'')
      else if len > 1 \<and> byte_at v 0 = Some 0x00 \<and> js_and (byte_or_0 v 1) 0x80 = 0
        then non_canonical (name @ '' value excessively padded'')
      else Inr ())"

definition si_isCanonicalSignature :: "si_opts \<Rightarrow> buffer \<Rightarrow> bool res" where
  "si_isCanonicalSignature opts sig =
     (if so_dontVerifyStrictEnc opts then Inr True
      else let l = length sig in
      if l < 9 then non_canonical ''too short''
      else if l > 73 then non_canonical ''too long''
      else let nHashType = js_and (byte_or_0 sig (l - 1)) (js_not 0x80) in
      if nHashType < 1 \<or> nHashType > 3 then non_canonical ''unknown hashtype byte''
      else if byte_at sig 0 \<noteq> Some 0x30 then non_canonical ''wrong type''
      else if byte_at sig 1 \<noteq> Some (l - 3) then non_canonical ''wrong length marker''
      else let nLenR = unat (sig ! 3) in
      if 5 + nLenR \<ge> l then non_canonical ''S length misplaced''
      else let nLenS = unat (sig ! (5 + nLenR)) in
      if nLenR + nLenS + 7 \<noteq> l then non_canonical ''R+S length mismatch''
      else rbind (check_integer ''R'' sig 4 nLenR) (\<lambda>_.
           rbind (check_integer ''S'' sig (6 + nLenR) nLenS) (\<lambda>_.
             let S = slice sig (6 + nLenR) (6 + nLenR + nLenS) in
             if so_verifyEvenS opts \<and> js_and (byte_or_0 S (nLenS - 1)) 1 \<noteq> 0
             then non_canonical ''S value odd'' else Inr True)))"

text \<open>What is passed to the callback, and the script after \<open>hashForSignature\<close>.\<close>

definition checkSig :: "si_env \<Rightarrow> buffer \<Rightarrow> buffer \<Rightarrow> bc_script \<Rightarrow> bool res \<times> bc_script" where
  "checkSig env sig pubkey scriptCode =
     (if length sig = 0 then (Inr False, scriptCode)
      else let lastByte = int (unat (last sig)) in
      if se_hashType env \<noteq> 0 \<and> se_hashType env \<noteq> lastByte then (Inr False, scriptCode)
      else let hashType = lastByte;
               sig = slice sig 0 (length sig - 1);
               (hash, scriptCode) = bc_hashForSignature (se_sha256 env) (se_tx env) scriptCode (se_inIndex env) hashType;
               pubkey = (if length pubkey = 0 then [0x00] else pubkey)
           in (se_verifySignature env pubkey hash sig, scriptCode))"

section \<open>Machine states\<close>

record machine =
  mc_stack :: stack
  mc_alt :: stack
  mc_exec :: "bool list"
  mc_hashStart :: nat
  mc_opCount :: nat

definition with_stack :: "stack res \<Rightarrow> machine \<Rightarrow> machine res" where
  "with_stack r m = rbind r (\<lambda>s. Inr (m\<lparr>mc_stack := s\<rparr>))"

section \<open>Opcodes\<close>

definition disabled_opcode :: "nat \<Rightarrow> bool" where
  "disabled_opcode n \<longleftrightarrow>
     n = 126 \<or> n = 127 \<or> n = 128 \<or> n = 129 \<or> n = 131 \<or> n = 132 \<or> n = 133 \<or> n = 134 \<or> n = 141 \<or> n = 142 \<or>
     n = 149 \<or> n = 150 \<or> n = 151 \<or> n = 152 \<or> n = 153"

text \<open>Constants: \<open>OP_0\<close>, \<open>OP_1NEGATE\<close>, \<open>OP_1\<close> to \<open>OP_16\<close>.\<close>

definition is_constant :: "nat \<Rightarrow> bool" where
  "is_constant n \<longleftrightarrow> n = 0 \<or> n = 79 \<or> (81 \<le> n \<and> n \<le> 96)"

definition op_constant :: "nat \<Rightarrow> stack \<Rightarrow> stack" where
  "op_constant n s = (if n = 0 then push [] s else push (intToBufferSM (int n - 81 + 1)) s)"

definition is_nop :: "nat \<Rightarrow> bool" where
  "is_nop n \<longleftrightarrow> n = 97 \<or> (176 \<le> n \<and> n \<le> 185)"

text \<open>Flow control: \<open>OP_IF\<close>, \<open>OP_NOTIF\<close>, \<open>OP_ELSE\<close>, \<open>OP_ENDIF\<close>, \<open>OP_VERIFY\<close>, \<open>OP_RETURN\<close>.\<close>

definition op_flow :: "nat \<Rightarrow> bool \<Rightarrow> machine \<Rightarrow> machine res" where
  "op_flow n exec m =
     (if n = 99 \<or> n = 100 then
        (if exec then
           rbind (stackPop (mc_stack m)) (\<lambda>(x, s).
             let v = castBool x; v = (if n = 100 then \<not> v else v)
             in Inr (m\<lparr>mc_stack := s, mc_exec := mc_exec m @ [v]\<rparr>))
         else Inr (m\<lparr>mc_exec := mc_exec m @ [False]\<rparr>))
      else if n = 103 then
        (if length (mc_exec m) < 1 then Inl (JsError ''Unmatched OP_ELSE'')
         else Inr (m\<lparr>mc_exec := (mc_exec m)[length (mc_exec m) - 1 := \<not> mc_exec m ! (length (mc_exec m) - 1)]\<rparr>))
      else if n = 104 then
        (if length (mc_exec m) < 1 then Inl (JsError ''Unmatched OP_ENDIF'')
         else Inr (m\<lparr>mc_exec := butlast (mc_exec m)\<rparr>))
      else if n = 105 then
        rbind (stackTop 1 (mc_stack m)) (\<lambda>x.
          if castBool x then with_stack (rbind (stackPop (mc_stack m)) (\<lambda>(_, s). Inr s)) m
          else Inl (JsError ''OP_VERIFY negative''))
      else Inl (JsError ''OP_RETURN''))"

definition is_flow :: "nat \<Rightarrow> bool" where
  "is_flow n \<longleftrightarrow> n = 99 \<or> n = 100 \<or> n = 103 \<or> n = 104 \<or> n = 105 \<or> n = 106"

definition op_alt :: "nat \<Rightarrow> machine \<Rightarrow> machine res" where
  "op_alt n m =
     (if n = 107 then
        rbind (stackPop (mc_stack m)) (\<lambda>(x, s). Inr (m\<lparr>mc_stack := s, mc_alt := push x (mc_alt m)\<rparr>))
      else if length (mc_alt m) < 1 then Inl (JsError ''OP_FROMALTSTACK with alt stack empty'')
      else Inr (m\<lparr>mc_stack := push (last (mc_alt m)) (mc_stack m), mc_alt := butlast (mc_alt m)\<rparr>))"

text \<open>Stack operations, in the order of the code.\<close>

definition is_stack_op :: "nat \<Rightarrow> bool" where
  "is_stack_op n \<longleftrightarrow> (109 \<le> n \<and> n \<le> 125) \<or> n = 130"

definition op_2dup :: "stack \<Rightarrow> stack res" where
  "op_2dup s = rbind (stackTop 2 s) (\<lambda>v1. rbind (stackTop 1 s) (\<lambda>v2. Inr (push v2 (push v1 s))))"

definition op_3dup :: "stack \<Rightarrow> stack res" where
  "op_3dup s =
     rbind (stackTop 3 s) (\<lambda>v1. rbind (stackTop 2 s) (\<lambda>v2. rbind (stackTop 1 s) (\<lambda>v3.
       Inr (push v3 (push v2 (push v1 s))))))"

definition op_2over :: "stack \<Rightarrow> stack res" where
  "op_2over s = rbind (stackTop 4 s) (\<lambda>v1. rbind (stackTop 3 s) (\<lambda>v2. Inr (push v2 (push v1 s))))"

definition op_2rot :: "stack \<Rightarrow> stack res" where
  "op_2rot s =
     rbind (stackTop 6 s) (\<lambda>v1. rbind (stackTop 5 s) (\<lambda>v2.
       Inr (push v2 (push v1 (splice (length s - 6) 2 s)))))"

definition op_pick_roll :: "nat \<Rightarrow> stack \<Rightarrow> stack res" where
  "op_pick_roll opcode s =
     rbind (stackPop s) (\<lambda>(x, s).
     rbind (castInt x) (\<lambda>n.
       if n < 0 \<or> n \<ge> int (length s) then Inl (JsError ''OP_PICK/OP_ROLL insufficient stack size'')
       else rbind (stackTop (nat n + 1) s) (\<lambda>v.
         let s = (if opcode = 122 then splice (length s - nat n - 1) 1 s else s) in Inr (push v s))))"

definition op_tuck :: "stack \<Rightarrow> stack res" where
  "op_tuck s =
     (if length s < 2 then Inl (JsError ''OP_TUCK insufficient stack size'')
      else rbind (stackTop 1 s) (\<lambda>x. Inr (take (length s - 2) s @ [x] @ drop (length s - 2) s)))"

definition op_stack :: "nat \<Rightarrow> stack \<Rightarrow> stack res" where
  "op_stack n s =
     (if n = 109 then rbind (stackPop s) (\<lambda>(_, s). rbind (stackPop s) (\<lambda>(_, s). Inr s))
      else if n = 110 then op_2dup s
      else if n = 111 then op_3dup s
      else if n = 112 then op_2over s
      else if n = 113 then op_2rot s
      else if n = 114 then rbind (stackSwap 4 2 s) (stackSwap 3 1)
      else if n = 115 then rbind (stackTop 1 s) (\<lambda>v. Inr (if castBool v then push v s else s))
      else if n = 116 then Inr (push (intToBufferSM (int (length s))) s)
      else if n = 117 then rbind (stackPop s) (\<lambda>(_, s). Inr s)
      else if n = 118 then rbind (stackTop 1 s) (\<lambda>x. Inr (push x s))
      else if n = 119 then
        (if length s < 2 then Inl (JsError ''OP_NIP insufficient stack size'') else Inr (splice (length s - 2) 1 s))
      else if n = 120 then rbind (stackTop 2 s) (\<lambda>x. Inr (push x s))
      else if n = 121 \<or> n = 122 then op_pick_roll n s
      else if n = 123 then rbind (stackSwap 3 2 s) (stackSwap 2 1)
      else if n = 124 then stackSwap 2 1 s
      else if n = 125 then op_tuck s
      else rbind (stackTop 1 s) (\<lambda>x. Inr (push (intToBufferSM (int (length x))) s)))"

text \<open>Two pops and a push.\<close>

definition replace2 :: "buffer \<Rightarrow> stack \<Rightarrow> stack res" where
  "replace2 x s = rbind (stackPop s) (\<lambda>(_, s). rbind (stackPop s) (\<lambda>(_, s). Inr (push x s)))"

definition op_equal :: "nat \<Rightarrow> stack \<Rightarrow> stack res" where
  "op_equal opcode s =
     rbind (stackTop 2 s) (\<lambda>v1. rbind (stackTop 1 s) (\<lambda>v2.
       let equal = v1 = v2 in
       rbind (replace2 (bool_buffer equal) s) (\<lambda>s.
         if opcode = 136
         then (if equal then rbind (stackPop s) (\<lambda>(_, s). Inr s) else Inl (JsError ''OP_EQUALVERIFY negative''))
         else Inr s)))"

definition is_unary :: "nat \<Rightarrow> bool" where
  "is_unary n \<longleftrightarrow> n = 139 \<or> n = 140 \<or> (143 \<le> n \<and> n \<le> 146)"

definition unary_value :: "nat \<Rightarrow> int \<Rightarrow> int" where
  "unary_value opcode num =
     (if opcode = 139 then num + 1
      else if opcode = 140 then num - 1
      else if opcode = 143 then - num
      else if opcode = 144 then \<bar>num\<bar>
      else if opcode = 145 then (if num = 0 then 1 else 0)
      else (if num = 0 then 0 else 1))"

definition op_unary :: "nat \<Rightarrow> stack \<Rightarrow> stack res" where
  "op_unary opcode s =
     rbind (stackTop 1 s) (\<lambda>x. rbind (bufferSMToInt x) (\<lambda>num.
       Inr (s[length s - 1 := intToBufferSM (unary_value opcode num)])))"

definition is_binary :: "nat \<Rightarrow> bool" where
  "is_binary n \<longleftrightarrow> n = 147 \<or> n = 148 \<or> (154 \<le> n \<and> n \<le> 164)"

definition bool_int :: "bool \<Rightarrow> int" where
  "bool_int b = (if b then 1 else 0)"

definition binary_value :: "nat \<Rightarrow> int \<Rightarrow> int \<Rightarrow> int" where
  "binary_value opcode v1 v2 =
     (if opcode = 147 then v1 + v2
      else if opcode = 148 then v1 - v2
      else if opcode = 154 then bool_int (v1 \<noteq> 0 \<and> v2 \<noteq> 0)
      else if opcode = 155 then bool_int (v1 \<noteq> 0 \<or> v2 \<noteq> 0)
      else if opcode = 156 \<or> opcode = 157 then bool_int (v1 = v2)
      else if opcode = 158 then bool_int (v1 \<noteq> v2)
      else if opcode = 159 then bool_int (v1 < v2)
      else if opcode = 160 then bool_int (v1 > v2)
      else if opcode = 161 then (if v1 > v2 then 0 else 1)
      else if opcode = 162 then (if v1 < v2 then 0 else 1)
      else if opcode = 163 then (if v1 < v2 then v1 else v2)
      else (if v1 > v2 then v1 else v2))"

definition op_binary :: "nat \<Rightarrow> stack \<Rightarrow> stack res" where
  "op_binary opcode s =
     rbind (stackTop 2 s) (\<lambda>x1. rbind (bufferSMToInt x1) (\<lambda>v1.
     rbind (stackTop 1 s) (\<lambda>x2. rbind (bufferSMToInt x2) (\<lambda>v2.
     rbind (replace2 (intToBufferSM (binary_value opcode v1 v2)) s) (\<lambda>s.
       if opcode = 157
       then rbind (stackTop 1 s) (\<lambda>x.
              if castBool x then rbind (stackPop s) (\<lambda>(_, s). Inr s)
              else Inl (JsError ''OP_NUMEQUALVERIFY negative''))
       else Inr s)))))"

definition op_within :: "stack \<Rightarrow> stack res" where
  "op_within s =
     rbind (stackTop 3 s) (\<lambda>x1. rbind (bufferSMToInt x1) (\<lambda>v1.
     rbind (stackTop 2 s) (\<lambda>x2. rbind (bufferSMToInt x2) (\<lambda>v2.
     rbind (stackTop 1 s) (\<lambda>x3. rbind (bufferSMToInt x3) (\<lambda>v3.
     rbind (stackPop s) (\<lambda>(_, s).
       replace2 (intToBufferSM (bool_int (v1 \<ge> v2 \<and> v1 < v3))) s)))))))"

definition is_hash_op :: "nat \<Rightarrow> bool" where
  "is_hash_op n \<longleftrightarrow> 166 \<le> n \<and> n \<le> 170"

definition hash_value :: "si_env \<Rightarrow> nat \<Rightarrow> buffer \<Rightarrow> buffer" where
  "hash_value env opcode v =
     (if opcode = 166 then se_ripe160 env v
      else if opcode = 167 then se_sha1 env v
      else if opcode = 168 then se_sha256 env v
      else if opcode = 169 then sha256ripe160 (se_sha256 env) (se_ripe160 env) v
      else twoSha256 (se_sha256 env) v)"

definition op_hash :: "si_env \<Rightarrow> nat \<Rightarrow> stack \<Rightarrow> stack res" where
  "op_hash env opcode s = rbind (stackPop s) (\<lambda>(v, s). Inr (push (hash_value env opcode v) s))"

section \<open>Signature opcodes\<close>

text \<open>The part of the script since the last \<open>OP_CODESEPARATOR\<close>.\<close>

definition script_code :: "bc_script \<Rightarrow> nat \<Rightarrow> bc_script" where
  "script_code script hashStart = fromChunks (drop hashStart (bs_chunks script))"

definition verify_tail :: "string \<Rightarrow> bool \<Rightarrow> bool \<Rightarrow> stack \<Rightarrow> stack res" where
  "verify_tail name verify success s =
     (if verify
      then (if success then rbind (stackPop s) (\<lambda>(_, s). Inr s) else Inl (JsError (name @ '' negative'')))
      else Inr s)"

definition op_checksig :: "si_env \<Rightarrow> bc_script \<Rightarrow> nat \<Rightarrow> machine \<Rightarrow> machine res" where
  "op_checksig env script opcode m =
     rbind (stackTop 2 (mc_stack m)) (\<lambda>sig.
     rbind (stackTop 1 (mc_stack m)) (\<lambda>pubkey.
       let scriptCode = findAndDelete (Data sig) (script_code script (mc_hashStart m)) in
       rbind (si_isCanonicalSignature (se_opts env) sig) (\<lambda>_.
         let success = (case fst (checkSig env sig pubkey scriptCode) of Inl e \<Rightarrow> False | Inr result \<Rightarrow> result) in
         with_stack
           (rbind (replace2 (bool_buffer success) (mc_stack m)) (verify_tail ''OP_CHECKSIGVERIFY'' (opcode = 173) success))
           m)))"

fun pop_many :: "nat \<Rightarrow> stack \<Rightarrow> (buffer list \<times> stack) res" where
  "pop_many 0 s = Inr ([], s)"
| "pop_many (Suc n) s = rbind (stackPop s) (\<lambda>(x, s). rbind (pop_many n s) (\<lambda>(xs, s). Inr (x # xs, s)))"

text \<open>\<open>checkMultiSigStep\<close>: a signature that fits moves on to the next signature, one that does not to
  the next key.\<close>

function multisig_loop ::
    "si_env \<Rightarrow> buffer list \<Rightarrow> buffer list \<Rightarrow> nat \<Rightarrow> nat \<Rightarrow> int \<Rightarrow> int \<Rightarrow> bool \<Rightarrow> bc_script \<Rightarrow> bool" where
  "multisig_loop env sigs keys isig ikey sigsCount keysCount success scriptCode =
     (if success \<and> sigsCount > 0 then
        (case checkSig env (sigs ! isig) (keys ! ikey) scriptCode of (r, scriptCode) \<Rightarrow>
           if r = Inr True
           then multisig_loop env sigs keys (isig + 1) ikey (sigsCount - 1) keysCount success scriptCode
           else multisig_loop env sigs keys isig (ikey + 1) sigsCount (keysCount - 1)
                  (if sigsCount > keysCount - 1 then False else success) scriptCode)
      else success)"
  by pat_completeness auto

termination
  by (relation "measure (\<lambda>(_, _, _, _, _, sigsCount, keysCount, success, _).
      if success then 1 + nat sigsCount + nat keysCount else 0)") auto

declare multisig_loop.simps [simp del]

definition op_checkmultisig :: "si_env \<Rightarrow> bc_script \<Rightarrow> nat \<Rightarrow> machine \<Rightarrow> machine res" where
  "op_checkmultisig env script opcode m =
     rbind (stackPop (mc_stack m)) (\<lambda>(x, s).
     rbind (castInt x) (\<lambda>keysCount.
       if keysCount < 0 \<or> keysCount > 20 then Inl (JsError ''OP_CHECKMULTISIG keysCount out of bounds'')
       else let opCount = mc_opCount m + nat keysCount in
       if opCount > 201 then Inl (JsError ''Opcode limit exceeded (>200)'')
       else
     rbind (pop_many (nat keysCount) s) (\<lambda>(keys, s).
     rbind (stackPop s) (\<lambda>(x, s).
     rbind (castInt x) (\<lambda>sigsCount.
       if sigsCount < 0 \<or> sigsCount > keysCount then Inl (JsError ''OP_CHECKMULTISIG sigsCount out of bounds'')
       else
     rbind (pop_many (nat sigsCount) s) (\<lambda>(sigs, s).
     rbind (stackPop s) (\<lambda>(_, s).
     rbind (rfold (\<lambda>sig scriptCode.
              rbind (si_isCanonicalSignature (se_opts env) sig) (\<lambda>_. Inr (findAndDelete (Data sig) scriptCode)))
              sigs (script_code script (mc_hashStart m))) (\<lambda>scriptCode.
       let success = multisig_loop env sigs keys 0 0 sigsCount keysCount True scriptCode in
       with_stack (verify_tail ''OP_CHECKMULTISIGVERIFY'' (opcode = 175) success (push (bool_buffer success) s))
         (m\<lparr>mc_opCount := opCount\<rparr>)))))))))"

section \<open>Running a script\<close>

text \<open>The opcodes that end in the size check, and those that run the next step by themselves.\<close>

definition run_opcode :: "si_env \<Rightarrow> nat \<Rightarrow> nat \<Rightarrow> bool \<Rightarrow> machine \<Rightarrow> machine res" where
  "run_opcode env pc n exec m =
     (if is_constant n then Inr (m\<lparr>mc_stack := op_constant n (mc_stack m)\<rparr>)
      else if is_nop n then Inr m
      else if is_flow n then op_flow n exec m
      else if n = 107 \<or> n = 108 then op_alt n m
      else if is_stack_op n then with_stack (op_stack n (mc_stack m)) m
      else if n = 135 \<or> n = 136 then with_stack (op_equal n (mc_stack m)) m
      else if is_unary n then with_stack (op_unary n (mc_stack m)) m
      else if is_binary n then with_stack (op_binary n (mc_stack m)) m
      else if n = 165 then with_stack (op_within (mc_stack m)) m
      else if is_hash_op n then with_stack (op_hash env n (mc_stack m)) m
      else if n = 171 then Inr (m\<lparr>mc_hashStart := pc\<rparr>)
      else Inl (JsError ''Unknown opcode encountered''))"

definition check_size :: "machine \<Rightarrow> machine res" where
  "check_size m =
     (if length (mc_stack m) + length (mc_alt m) > 1000 then Inl (JsError ''Maximum stack size exceeded'') else Inr m)"

text \<open>One step, from the chunk at \<open>pc\<close>; opcodes see \<open>pc\<close> already moved on.\<close>

definition eval_step :: "si_env \<Rightarrow> bc_script \<Rightarrow> nat \<Rightarrow> machine \<Rightarrow> machine res" where
  "eval_step env script pc m =
     (let exec = (False \<notin> set (mc_exec m));
          opcode = bs_chunks script ! pc;
          counted = loose_gt (Some opcode) 96;
          m = (if counted then m\<lparr>mc_opCount := mc_opCount m + 1\<rparr> else m)
      in if length (data_of (Some opcode)) > 520 then Inl (JsError ''Max push value size exceeded (>520)'')
         else if counted \<and> mc_opCount m > 201 then Inl (JsError ''Opcode limit exceeded (>200)'')
         else case opcode of
             Data b \<Rightarrow>
               if exec then check_size (m\<lparr>mc_stack := push b (mc_stack m)\<rparr>)
               else if loose_ge (Some opcode) 99 \<and> loose_le (Some opcode) 104
                 then Inl (JsError ''Unknown opcode encountered'')
               else check_size m
           | Op n \<Rightarrow>
               if disabled_opcode n then Inl (JsError ''Encountered a disabled opcode'')
               else if exec \<or> (99 \<le> n \<and> n \<le> 104) then
                 (if n = 172 \<or> n = 173 then op_checksig env script n m
                  else if n = 174 \<or> n = 175 then op_checkmultisig env script n m
                  else rbind (run_opcode env (pc + 1) n exec m) check_size)
               else check_size m)"

function eval_loop :: "si_env \<Rightarrow> bc_script \<Rightarrow> nat \<Rightarrow> machine \<Rightarrow> machine res" where
  "eval_loop env script pc m =
     (if pc \<ge> length (bs_chunks script) then
        (if mc_exec m \<noteq> [] then Inl (JsError ''Execution stack ended non-empty'') else Inr m)
      else rbind (eval_step env script pc m) (eval_loop env script (pc + 1)))"
  by pat_completeness auto

termination by (relation "measure (\<lambda>(_, script, pc, _). length (bs_chunks script) - pc)") auto

declare eval_loop.simps [simp del]

definition start_machine :: "stack \<Rightarrow> machine" where
  "start_machine s = \<lparr>mc_stack = s, mc_alt = [], mc_exec = [], mc_hashStart = 0, mc_opCount = 0\<rparr>"

definition eval :: "si_env \<Rightarrow> bc_script \<Rightarrow> stack \<Rightarrow> stack res" where
  "eval env script s =
     (if length (bs_buffer script) > 10000 then Inl (JsError ''Oversized script (> 10k bytes)'')
      else rbind (eval_loop env script 0 (start_machine s)) (\<lambda>m. Inr (mc_stack m)))"

definition evalTwo :: "si_env \<Rightarrow> bc_script \<Rightarrow> bc_script \<Rightarrow> stack \<Rightarrow> stack res" where
  "evalTwo env scriptSig scriptPubkey s = rbind (eval env scriptSig s) (eval env scriptPubkey)"

definition getResult :: "stack \<Rightarrow> bool res" where
  "getResult s =
     (if length s = 0 then Inl (JsError ''Empty stack after script evaluation'') else Inr (castBool (s ! (length s - 1))))"

definition no_opts :: si_opts where
  "no_opts = \<lparr>so_dontVerifyStrictEnc = False, so_verifyEvenS = False, so_verifyP2SH = False\<rparr>"

definition verify_two :: "si_env \<Rightarrow> bc_script \<Rightarrow> bc_script \<Rightarrow> bool res" where
  "verify_two env scriptSig scriptPubKey =
     rbind (evalTwo (env\<lparr>se_opts := no_opts\<rparr>) scriptSig scriptPubKey []) getResult"

section \<open>Verifying an input\<close>

definition verifyStep4 :: "stack \<Rightarrow> bool res" where
  "verifyStep4 siCopy = (if length siCopy = 0 then Inr False else Inr (castBool (stackBack siCopy)))"

definition verifyStep3 :: "si_env \<Rightarrow> bc_script \<Rightarrow> bc_script \<Rightarrow> stack \<Rightarrow> stack \<Rightarrow> bool res" where
  "verifyStep3 env scriptSig scriptPubKey s siCopy =
     (if length s = 0 then Inr False
      else if castBool (stackBack s) = False then Inr False
      else if \<not> so_verifyP2SH (se_opts env) \<or> \<not> isP2SH scriptPubKey then Inr True
      else if \<not> isPushOnly scriptSig then Inr False
      else rbind (stackPop siCopy) (\<lambda>(x, siCopy).
             let subscript = new_script x in
             rbind (eval env subscript siCopy) verifyStep4))"

definition verifyStep2 :: "si_env \<Rightarrow> bc_script \<Rightarrow> bc_script \<Rightarrow> stack \<Rightarrow> bool res" where
  "verifyStep2 env scriptSig scriptPubKey s =
     (let siCopy = s in rbind (eval env scriptPubKey s) (\<lambda>s. verifyStep3 env scriptSig scriptPubKey s siCopy))"

definition verifyFull :: "si_env \<Rightarrow> bc_script \<Rightarrow> bc_script \<Rightarrow> bool res" where
  "verifyFull env scriptSig scriptPubKey = rbind (eval env scriptSig []) (verifyStep2 env scriptSig scriptPubKey)"

text \<open>\<open>Transaction.prototype.verifyInput\<close>.\<close>

definition verifyInput :: "si_env \<Rightarrow> btx \<Rightarrow> nat \<Rightarrow> bc_script \<Rightarrow> bool res" where
  "verifyInput env tx n scriptPubKey =
     (if n < length (bt_ins tx)
      then verifyFull (env\<lparr>se_tx := tx, se_inIndex := n, se_hashType := 0\<rparr>)
             (new_script (bi_s (bt_ins tx ! n))) scriptPubKey
      else Inl (JsTypeError ''Cannot read property getScript of undefined''))"

end
