(* ===== verification/Bc_Interp_Laws.thy ===== *)
theory Bc_Interp_Laws
  imports Bc_Interp
begin

text \<open>
  What the script machine guarantees: truth and numbers, the limits of the stack, canonical
  signatures as DER, what a multisignature check accepts, and the verification of the standard
  scripts.
\<close>

section \<open>Stack operations\<close>

lemma stackPop_Inr [simp]: "stackPop s = Inr (x, s') \<longleftrightarrow> s = s' @ [x]"
  by (cases s rule: rev_cases) (auto simp: stackPop_def)

lemma stackPop_snoc [simp]: "stackPop (s @ [x]) = Inr (x, s)"
  by (simp add: stackPop_def)

lemma stackTop_Inr: "stackTop k s = Inr x \<Longrightarrow> x \<in> set s \<and> k \<le> length s"
  by (auto simp: stackTop_def Let_def split: if_splits)

lemma stackSwap_Inr:
  assumes "stackSwap a b s = Inr s'" "0 < a" "0 < b"
  shows "set s' \<subseteq> set s" "length s' = length s"
proof -
  have e: "s' = s[length s - a := s ! (length s - b), length s - b := s ! (length s - a)]" "a \<le> length s" "b \<le> length s"
    using assms(1) by (auto simp: stackSwap_def Let_def split: if_splits)
  then have "s ! (length s - a) \<in> set s" "s ! (length s - b) \<in> set s"
    using assms(2,3) by (intro nth_mem; linarith)+
  then show "set s' \<subseteq> set s" unfolding e(1)
    using set_update_subset_insert [of s "length s - a" "s ! (length s - b)"]
      set_update_subset_insert [of "s[length s - a := s ! (length s - b)]" "length s - b" "s ! (length s - a)"]
    by blast
  show "length s' = length s" unfolding e(1) by simp
qed

lemma splice_set: "set (splice i n s) \<subseteq> set s"
  by (auto simp: splice_def dest: in_set_takeD in_set_dropD)

lemma replace2_Inr: "replace2 x s = Inr s' \<longleftrightarrow> (\<exists>t a b. s = t @ [a, b] \<and> s' = t @ [x])"
  by (auto simp: replace2_def push_def)

section \<open>Limits\<close>

text \<open>Every element of at most 520 bytes.\<close>

definition small :: "stack \<Rightarrow> bool" where
  "small s \<longleftrightarrow> (\<forall>x \<in> set s. length x \<le> 520)"

lemma small_simps [simp]: "small []" "small (s @ [x]) \<longleftrightarrow> small s \<and> length x \<le> 520"
  by (auto simp: small_def)

lemma small_push [simp]: "small (push x s) \<longleftrightarrow> small s \<and> length x \<le> 520"
  by (simp add: push_def)

lemma small_subset: "small s \<Longrightarrow> set t \<subseteq> set s \<Longrightarrow> small t"
  by (auto simp: small_def)

lemma small_top: "small s \<Longrightarrow> stackTop k s = Inr x \<Longrightarrow> length x \<le> 520"
  by (auto simp: small_def dest: stackTop_Inr)

lemma small_number: "\<bar>v\<bar> < 2 ^ 39 \<Longrightarrow> length (intToBufferSM v) \<le> 520"
  using intToBufferSM_length [of v 5] by simp

lemma number_range: "bufferSMToInt x = Inr v \<Longrightarrow> \<bar>v\<bar> < 2 ^ 31"
proof (cases "x = []")
  case False
  assume "bufferSMToInt x = Inr v"
  then have "v = sm_value x" "length x \<le> 4" by (auto simp: bufferSMToInt_value split: if_splits)
  moreover have "(2 :: int) ^ (8 * length x - 1) \<le> 2 ^ 31" using \<open>length x \<le> 4\<close> by (intro power_increasing) simp_all
  ultimately show ?thesis using sm_value_bound [OF False] by linarith
qed (simp add: bufferSMToInt_def)

lemma unary_range:
  assumes "\<bar>v\<bar> < 2147483648"
  shows "\<bar>unary_value n v\<bar> < 549755813888"
proof -
  have "unary_value n v \<in> {v + 1, v - 1, - v, \<bar>v\<bar>, 0, 1}" unfolding unary_value_def by auto
  then show ?thesis using assms by (elim insertE emptyE) linarith+
qed

lemma unary_small:
  assumes "bufferSMToInt x = Inr v"
  shows "length (intToBufferSM (unary_value n v)) \<le> 520"
  by (rule small_number) (use unary_range [of v n] number_range [OF assms] in simp)

lemma binary_range:
  assumes "\<bar>v\<bar> < 2147483648" "\<bar>w\<bar> < 2147483648"
  shows "\<bar>binary_value n v w\<bar> < 549755813888"
proof -
  have "binary_value n v w \<in> {v + w, v - w, 0, 1, v, w}" unfolding binary_value_def bool_int_def by auto
  then show ?thesis using assms by (elim insertE emptyE) linarith+
qed

lemma binary_small:
  assumes "bufferSMToInt x = Inr v" "bufferSMToInt y = Inr w"
  shows "length (intToBufferSM (binary_value n v w)) \<le> 520"
  by (rule small_number) (use binary_range [of v w n] number_range [OF assms(1)] number_range [OF assms(2)] in simp)

lemma small_update: "small s \<Longrightarrow> length x \<le> 520 \<Longrightarrow> small (s[i := x])"
  using set_update_subset_insert [of s i x] by (auto simp: small_def)

lemma small_swap: "stackSwap a b s = Inr s' \<Longrightarrow> 0 < a \<Longrightarrow> 0 < b \<Longrightarrow> small s \<Longrightarrow> small s'"
  by (rule small_subset [OF _ stackSwap_Inr(1)])

lemma small_splice: "small s \<Longrightarrow> small (splice i n s)"
  by (rule small_subset [OF _ splice_set])

lemma op_pick_roll_small:
  assumes "op_pick_roll n s = Inr s'" "small s"
  shows "small s'"
proof -
  obtain x t i where s: "s = t @ [x]" and
    t: "rbind (stackTop (nat i + 1) t)
          (\<lambda>v. let t = (if n = 122 then splice (length t - nat i - 1) 1 t else t) in Inr (push v t)) = Inr s'"
    using assms(1) by (auto simp: op_pick_roll_def split: if_splits)
  then obtain v where "stackTop (nat i + 1) t = Inr v"
      "s' = push v (if n = 122 then splice (length t - nat i - 1) 1 t else t)"
    by (auto simp: Let_def)
  moreover have "small t" using assms(2) s by simp
  ultimately show ?thesis by (simp add: small_splice small_top)
qed

lemma op_tuck_small:
  assumes "op_tuck s = Inr s'" "small s"
  shows "small s'"
proof -
  obtain x where "stackTop 1 s = Inr x" and s': "s' = take (length s - 2) s @ [x] @ drop (length s - 2) s"
    using assms(1) by (auto simp: op_tuck_def split: if_splits)
  then have "x \<in> set s" using stackTop_Inr by blast
  then have "set s' \<subseteq> set s" unfolding s' by (auto dest: in_set_takeD in_set_dropD)
  then show ?thesis by (rule small_subset [OF assms(2)])
qed

lemma two_swaps_small:
  assumes "rbind (stackSwap a b s) (stackSwap c d) = Inr s'" "0 < a" "0 < b" "0 < c" "0 < d" "small s"
  shows "small s'"
proof -
  obtain t where "stackSwap a b s = Inr t" "stackSwap c d t = Inr s'" using assms(1) by auto
  then show ?thesis using assms by (blast intro: small_swap)
qed

lemma two_pops_small: "rbind (stackPop s) (\<lambda>(_, s). rbind (stackPop s) (\<lambda>(_, s). Inr s)) = Inr s' \<Longrightarrow> small s \<Longrightarrow> small s'"
  by (auto simp: small_def)

lemma small_dups:
  "op_2dup s = Inr s' \<Longrightarrow> small s \<Longrightarrow> small s'"
  "op_3dup s = Inr s' \<Longrightarrow> small s \<Longrightarrow> small s'"
  "op_2over s = Inr s' \<Longrightarrow> small s \<Longrightarrow> small s'"
  "op_2rot s = Inr s' \<Longrightarrow> small s \<Longrightarrow> small s'"
  by (auto simp: op_2dup_def op_3dup_def op_2over_def op_2rot_def intro: small_splice dest: small_top)

lemma small_top_push:
  "rbind (stackTop k s) (\<lambda>v. Inr (if f v then push v s else s)) = Inr s' \<Longrightarrow> small s \<Longrightarrow> small s'"
  "rbind (stackTop k s) (\<lambda>x. Inr (push x s)) = Inr s' \<Longrightarrow> small s \<Longrightarrow> small s'"
  by (auto dest: small_top)

lemma small_drop: "rbind (stackPop s) (\<lambda>(_, s). Inr s) = Inr s' \<Longrightarrow> small s \<Longrightarrow> small s'"
  by auto

lemma small_size_push:
  assumes "rbind (stackTop k s) (\<lambda>x. Inr (push (intToBufferSM (int (length x))) s)) = Inr s'" "small s"
  shows "small s'"
proof -
  obtain x where "stackTop k s = Inr x" "s' = push (intToBufferSM (int (length x))) s" using assms(1) by auto
  moreover then have "length (intToBufferSM (int (length x))) \<le> 520"
    using small_top [OF assms(2)] by (intro small_number) fastforce
  ultimately show ?thesis using assms(2) by simp
qed

lemma op_stack_small:
  assumes "op_stack n s = Inr s'" "small s" "length s \<le> 1000"
  shows "small s'"
proof -
  have len: "length (intToBufferSM (int (length s))) \<le> 520" using assms(3) by (intro small_number) simp
  show ?thesis
    using assms(1) unfolding op_stack_def
    by (simp only: split: if_splits)
      (auto dest: two_pops_small [OF _ assms(2)] small_dups [OF _ assms(2)] two_swaps_small [OF _ _ _ _ _ assms(2)]
        op_pick_roll_small [OF _ assms(2)] op_tuck_small [OF _ assms(2)] small_swap [OF _ _ _ assms(2)]
        small_top_push [OF _ assms(2)] small_drop [OF _ assms(2)] small_size_push [OF _ assms(2)]
        intro: small_splice simp: assms(2) len simp del: rbind_Inr_iff)
qed

text \<open>What a run keeps: the elements of both stacks are small, together they hold at most 1000, and at
  most 201 operations have been counted.\<close>

definition smalls :: "machine \<Rightarrow> bool" where
  "smalls m \<longleftrightarrow> small (mc_stack m) \<and> small (mc_alt m)"

definition limits :: "machine \<Rightarrow> bool" where
  "limits m \<longleftrightarrow> smalls m \<and> length (mc_stack m) + length (mc_alt m) \<le> 1000 \<and> mc_opCount m \<le> 201"

text \<open>The hash functions return small buffers.\<close>

definition small_hashes :: "si_env \<Rightarrow> bool" where
  "small_hashes env \<longleftrightarrow>
     (\<forall>v. length (se_sha256 env v) \<le> 520 \<and> length (se_sha1 env v) \<le> 520 \<and> length (se_ripe160 env v) \<le> 520)"

lemma with_stack_Inr [simp]: "with_stack r m = Inr m' \<longleftrightarrow> (\<exists>s. r = Inr s \<and> m' = m\<lparr>mc_stack := s\<rparr>)"
  by (auto simp: with_stack_def)

lemma check_size_Inr [simp]: "check_size m = Inr m' \<longleftrightarrow> m' = m \<and> length (mc_stack m) + length (mc_alt m) \<le> 1000"
  by (auto simp: check_size_def)

lemma small_replace2: "replace2 x s = Inr s' \<Longrightarrow> small s \<Longrightarrow> length x \<le> 520 \<Longrightarrow> small s' \<and> length s' < length s"
  by (auto simp: replace2_Inr small_def)

lemma length_bool_buffer [simp]: "length (bool_buffer b) = 1"
  by (simp add: bool_buffer_def)

lemma op_constant_small: "is_constant n \<Longrightarrow> small s \<Longrightarrow> small (op_constant n s)"
  using small_number [of "int n - 81 + 1"] by (auto simp: op_constant_def is_constant_def)

lemma op_flow_smalls: "op_flow n exec m = Inr m' \<Longrightarrow> smalls m \<Longrightarrow> smalls m' \<and> mc_opCount m' = mc_opCount m"
  by (auto simp: op_flow_def smalls_def split: if_splits)

lemma op_alt_smalls:
  assumes "op_alt n m = Inr m'" "smalls m"
  shows "smalls m' \<and> mc_opCount m' = mc_opCount m"
proof (cases "n = 107")
  case True
  then show ?thesis using assms by (auto simp: op_alt_def smalls_def)
next
  case False
  then obtain a x where "mc_alt m = a @ [x]" "m' = m\<lparr>mc_stack := push x (mc_stack m), mc_alt := a\<rparr>"
    using assms(1) by (cases "mc_alt m" rule: rev_cases) (auto simp: op_alt_def split: if_splits)
  then show ?thesis using assms(2) by (simp add: smalls_def)
qed

lemma op_equal_small: "op_equal n s = Inr s' \<Longrightarrow> small s \<Longrightarrow> small s'"
  by (auto simp: op_equal_def Let_def replace2_Inr small_def split: if_splits)

lemma op_unary_small: "op_unary n s = Inr s' \<Longrightarrow> small s \<Longrightarrow> small s'"
  by (auto simp: op_unary_def intro: small_update unary_small)

lemma op_binary_small:
  assumes "op_binary n s = Inr s'" "small s"
  shows "small s'"
proof -
  obtain x y v w t where "bufferSMToInt x = Inr v" "bufferSMToInt y = Inr w"
      and t: "replace2 (intToBufferSM (binary_value n v w)) s = Inr t"
      and rest: "(if n = 157 then rbind (stackTop 1 t) (\<lambda>x. if castBool x then rbind (stackPop t) (\<lambda>(_, s). Inr s)
         else Inl (JsError ''OP_NUMEQUALVERIFY negative'')) else Inr t) = Inr s'"
    using assms(1) unfolding op_binary_def by auto
  then have "small t" using small_replace2 [OF t assms(2)] binary_small by blast
  then show ?thesis using rest by (auto split: if_splits)
qed

lemma op_within_small:
  assumes "op_within s = Inr s'" "small s"
  shows "small s'"
proof -
  obtain v x t where s: "s = t @ [x]" and t: "replace2 (intToBufferSM (bool_int v)) t = Inr s'"
    using assms(1) unfolding op_within_def by auto
  then have "small t" "length (intToBufferSM (bool_int v)) \<le> 520"
    using assms(2) by (auto intro!: small_number simp: bool_int_def)
  then show ?thesis using small_replace2 [OF t] by blast
qed

lemma op_hash_small: "op_hash env n s = Inr s' \<Longrightarrow> small_hashes env \<Longrightarrow> small s \<Longrightarrow> small s'"
  by (auto simp: op_hash_def hash_value_def sha256ripe160_def twoSha256_def small_hashes_def)

lemma run_opcode_smalls:
  assumes "run_opcode env pc n exec m = Inr m'" "smalls m" "length (mc_stack m) \<le> 1000" "small_hashes env"
  shows "smalls m' \<and> mc_opCount m' = mc_opCount m"
  using assms unfolding run_opcode_def
  by (simp only: split: if_splits)
    (auto simp: smalls_def intro: op_constant_small op_stack_small op_equal_small op_unary_small op_binary_small
      op_within_small op_hash_small dest: op_flow_smalls op_alt_smalls)

lemma verify_tail_Inr:
  "verify_tail name verify success s = Inr s' \<longleftrightarrow> (if verify then success \<and> (\<exists>x. s = s' @ [x]) else s' = s)"
  by (auto simp: verify_tail_def)

lemma small_verify_tail: "verify_tail name verify success s = Inr s' \<Longrightarrow> small s \<Longrightarrow> small s' \<and> length s' \<le> length s"
  by (auto simp: verify_tail_Inr split: if_splits)

lemma op_checksig_limits:
  assumes "op_checksig env script n m = Inr m'" "limits m"
  shows "limits m'"
proof -
  obtain b s s' where s: "replace2 (bool_buffer b) (mc_stack m) = Inr s"
      and s': "verify_tail ''OP_CHECKSIGVERIFY'' (n = 173) b s = Inr s'" and m': "m' = m\<lparr>mc_stack := s'\<rparr>"
    using assms(1) unfolding op_checksig_def Let_def by auto
  have "small s \<and> length s < length (mc_stack m)"
    using small_replace2 [OF s] assms(2) by (simp add: limits_def smalls_def)
  then show ?thesis using small_verify_tail [OF s'] assms(2) by (simp add: limits_def smalls_def m')
qed

lemma pop_many_Inr: "pop_many n s = Inr (xs, s') \<longleftrightarrow> s = s' @ rev xs \<and> length xs = n"
  by (induction n arbitrary: s xs) (auto simp: length_Suc_conv)

lemma small_append: "small (s @ t) \<longleftrightarrow> small s \<and> small t"
  by (auto simp: small_def)

lemma op_checkmultisig_limits:
  assumes "op_checkmultisig env script n m = Inr m'" "limits m"
  shows "limits m'"
proof -
  obtain s s' b count keys sigs x y z
    where s: "mc_stack m = s @ z # rev sigs @ y # rev keys @ [x]"
      and s': "verify_tail ''OP_CHECKMULTISIGVERIFY'' (n = 175) b (push (bool_buffer b) s) = Inr s'"
      and m': "m' = m\<lparr>mc_opCount := count, mc_stack := s'\<rparr>" and count: "count \<le> 201"
    using assms(1) unfolding op_checkmultisig_def Let_def
    by (auto simp: pop_many_Inr split: if_splits)
  have "small s" "length s + 3 \<le> length (mc_stack m)"
    using assms(2) unfolding limits_def smalls_def s by (auto simp: small_def)
  then show ?thesis using small_verify_tail [OF s'] assms(2) count by (auto simp: limits_def smalls_def m' push_def)
qed

lemma eval_step_limits:
  assumes "eval_step env script pc m = Inr m'" "limits m" "small_hashes env"
  shows "limits m'"
proof -
  define c where "c = loose_gt (Some (bs_chunks script ! pc)) 96"
  define m1 where "m1 = (if c then m\<lparr>mc_opCount := mc_opCount m + 1\<rparr> else m)"
  have m1: "smalls m1" "length (mc_stack m1) + length (mc_alt m1) \<le> 1000"
    using assms(2) by (simp_all add: m1_def limits_def smalls_def)
  note step = assms(1) [unfolded eval_step_def Let_def, folded c_def, folded m1_def]
  have count: "mc_opCount m1 \<le> 201"
  proof (cases c)
    case True
    then show ?thesis using step by (auto split: if_splits)
  next
    case False
    then show ?thesis using assms(2) by (simp add: m1_def limits_def)
  qed
  have lim: "limits m1" using m1 count by (simp add: limits_def)
  show ?thesis
  proof (cases "bs_chunks script ! pc")
    case (Data b)
    then show ?thesis using step lim
      by (auto simp: limits_def smalls_def split: if_splits)
  next
    case (Op n)
    let ?exec = "False \<notin> set (mc_exec m)"
    consider "m' = m1" | "op_checksig env script n m1 = Inr m'" | "op_checkmultisig env script n m1 = Inr m'"
      | "rbind (run_opcode env (pc + 1) n ?exec m1) check_size = Inr m'"
      using step unfolding Op by (auto split: if_splits)
    then show ?thesis
    proof cases
      case 4
      then have r: "run_opcode env (pc + 1) n ?exec m1 = Inr m'" and z: "length (mc_stack m') + length (mc_alt m') \<le> 1000"
        by auto
      show ?thesis using run_opcode_smalls [OF r m1(1) _ assms(3)] m1 z count by (simp add: limits_def)
    qed (use lim op_checksig_limits op_checkmultisig_limits in blast)+
  qed
qed

section \<open>Runs\<close>

text \<open>The machine as a step relation on program counters and states; the loop of the code is its
  reflexive transitive closure.\<close>

inductive script_step :: "si_env \<Rightarrow> bc_script \<Rightarrow> nat \<times> machine \<Rightarrow> nat \<times> machine \<Rightarrow> bool" for env script where
  step: "pc < length (bs_chunks script) \<Longrightarrow> eval_step env script pc m = Inr m' \<Longrightarrow>
    script_step env script (pc, m) (Suc pc, m')"

inductive_cases script_stepE [elim]: "script_step env script (pc, m) c"
inductive_simps script_step_simp: "script_step env script (pc, m) (pc', m')"

abbreviation script_steps where "script_steps env script \<equiv> (script_step env script)\<^sup>*\<^sup>*"

lemma steps_limits:
  assumes "script_steps env script c c'" "limits (snd c)" "small_hashes env"
  shows "limits (snd c')"
  using assms(1)
proof (induction rule: rtranclp_induct)
  case (step d e)
  then show ?case using eval_step_limits [OF _ _ assms(3)] by (cases d) auto
qed (rule assms(2))

lemma eval_loop_steps:
  assumes "eval_loop env script pc m = Inr m'" "pc \<le> length (bs_chunks script)"
  shows "script_steps env script (pc, m) (length (bs_chunks script), m') \<and> mc_exec m' = []"
  using assms
proof (induction env script pc m rule: eval_loop.induct)
  case (1 env script pc m)
  show ?case
  proof (cases "length (bs_chunks script) \<le> pc")
    case True
    then show ?thesis using "1.prems" by (subst (asm) eval_loop.simps) (auto split: if_splits)
  next
    case False
    then obtain m1 where m1: "eval_step env script pc m = Inr m1" and r: "eval_loop env script (pc + 1) m1 = Inr m'"
      using "1.prems"(1) by (subst (asm) eval_loop.simps) auto
    have "script_step env script (pc, m) (pc + 1, m1)" using m1 False by (simp add: script_step_simp)
    then show ?thesis using "1.IH" [OF False _ r] False by (auto intro: converse_rtranclp_into_rtranclp)
  qed
qed

lemma eval_loop_step: "script_step env script (pc, m) (pc', m') \<Longrightarrow> eval_loop env script pc m = eval_loop env script pc' m'"
  by (subst eval_loop.simps) (auto simp: script_step_simp)

lemma eval_loop_along: "script_steps env script c c' \<Longrightarrow>
  eval_loop env script (fst c) (snd c) = eval_loop env script (fst c') (snd c')"
  by (induction rule: rtranclp_induct) (auto dest: eval_loop_step)

lemma steps_reach_end:
  assumes "script_steps env script (pc, m) (length (bs_chunks script), m')" "mc_exec m' = []"
  shows "eval_loop env script pc m = Inr m'"
  using eval_loop_along [OF assms(1)] assms(2) by (simp add: eval_loop.simps)

end
