(* ===== verification/Bc_Interp_Checks.thy ===== *)
theory Bc_Interp_Checks
  imports Bc_Interp_Laws
begin

text \<open>
  What the signature opcodes accept: scripts that differ only in code separators sign alike, the
  canonical signatures are DER, and a multisignature check succeeds exactly if the signatures match
  the keys in weakly increasing order.
\<close>

section \<open>The signed script\<close>

text \<open>Scripts that are equal once the code separators are deleted.\<close>

definition signs_alike :: "bc_script \<Rightarrow> bc_script \<Rightarrow> bool" where
  "signs_alike s t \<longleftrightarrow> findAndDelete (Op 171) s = findAndDelete (Op 171) t"

lemma signs_alike_refl [simp]: "signs_alike s s"
  by (simp add: signs_alike_def)

lemma signs_alike_trans: "signs_alike s t \<Longrightarrow> signs_alike t u \<Longrightarrow> signs_alike s u"
  by (simp add: signs_alike_def)

lemma signs_alike_deleted [simp]: "signs_alike (findAndDelete (Op 171) s) s"
  by (simp add: signs_alike_def findAndDelete_idem)

definition same_work :: "sig_serializer \<Rightarrow> sig_serializer \<Rightarrow> bool" where
  "same_work y z \<longleftrightarrow> same_job y z \<and> ss_bytes y = ss_bytes z"

lemma same_work_put: "same_work y z \<Longrightarrow> same_work (put f y) (put f z)"
  by (simp add: same_work_def same_job_def)

lemma same_work_if: "same_work a b \<Longrightarrow> same_work c d \<Longrightarrow> same_work (if P then a else c) (if P then b else d)"
  by simp

lemma serializeScriptCode_same: "same_work y z \<Longrightarrow> same_work (serializeScriptCode y) (serializeScriptCode z)"
  by (simp add: same_work_def same_job_def serializeScriptCode_def Let_def)

lemma serializeScriptCode_sel [simp]:
  "ss_txTo (serializeScriptCode z) = ss_txTo z" "ss_nIn (serializeScriptCode z) = ss_nIn z"
  "ss_hashSingle (serializeScriptCode z) = ss_hashSingle z" "ss_hashNone (serializeScriptCode z) = ss_hashNone z"
  by (simp_all add: serializeScriptCode_def Let_def)

lemma same_work_sel:
  "same_work y z \<Longrightarrow> ss_txTo y = ss_txTo z" "same_work y z \<Longrightarrow> ss_nIn y = ss_nIn z"
  "same_work y z \<Longrightarrow> ss_anyoneCanPay y = ss_anyoneCanPay z" "same_work y z \<Longrightarrow> ss_hashSingle y = ss_hashSingle z"
  "same_work y z \<Longrightarrow> ss_hashNone y = ss_hashNone z"
  by (simp_all add: same_work_def same_job_def)

lemma serializeInput_alt:
  "serializeInput n z =
     (let k = (if ss_anyoneCanPay z then ss_nIn z else n);
          z0 = put (put_buffer (bi_o (bt_ins (ss_txTo z) ! k))) z;
          z1 = (if k = ss_nIn z then serializeScriptCode z0 else put (put_varint 0) z0);
          q = (if k \<noteq> ss_nIn z \<and> (ss_hashSingle z \<or> ss_hashNone z) then 0 else bi_q (bt_ins (ss_txTo z) ! k))
      in put (put_word32le q) z1)"
  by (simp add: serializeInput_def Let_def)

lemma serializeInput_same:
  assumes "same_work y z"
  shows "same_work (serializeInput n y) (serializeInput n z)"
  unfolding serializeInput_alt Let_def same_work_sel [OF assms]
  by (intro same_work_put same_work_if serializeScriptCode_same assms)

lemma serializeOutput_same:
  assumes "same_work y z"
  shows "same_work (serializeOutput n y) (serializeOutput n z)"
  unfolding serializeOutput_def Let_def same_work_sel [OF assms]
  by (intro same_work_put same_work_if assms)

lemma fold_same:
  assumes "\<And>n y z. same_work y z \<Longrightarrow> same_work (f n y) (f n z)" "same_work y z"
  shows "same_work (fold f ns y) (fold f ns z)"
  using assms(2) by (induction ns arbitrary: y z) (simp_all add: assms(1))

lemma same_work_counts:
  "same_work a b \<Longrightarrow> ss_txTo a = ss_txTo b" "same_work a b \<Longrightarrow> n_inputs a = n_inputs b"
  "same_work a b \<Longrightarrow> n_outputs a = n_outputs b"
  by (simp_all add: same_work_def same_job_def n_inputs_def n_outputs_def)

lemma sig_serialize_same: "same_work y z \<Longrightarrow> same_work (sig_serialize y) (sig_serialize z)"
proof -
  assume same: "same_work y z"
  note eqs = same_work_counts
  define y2 z2 where
    "y2 = fold serializeInput [0..<n_inputs y] (put (put_varint (n_inputs y)) (put (put_word32le (bt_version (ss_txTo y))) y))"
    and "z2 = fold serializeInput [0..<n_inputs z] (put (put_varint (n_inputs z)) (put (put_word32le (bt_version (ss_txTo z))) z))"
  have 2: "same_work y2 z2"
    unfolding y2_def z2_def eqs [OF same]
    by (intro fold_same serializeInput_same same_work_put same)
  define y4 z4 where
    "y4 = fold serializeOutput [0..<n_outputs y2] (put (put_varint (n_outputs y2)) y2)"
    and "z4 = fold serializeOutput [0..<n_outputs z2] (put (put_varint (n_outputs z2)) z2)"
  have 4: "same_work y4 z4"
    unfolding y4_def z4_def eqs [OF 2] by (intro fold_same serializeOutput_same same_work_put 2)
  show ?thesis
    unfolding sig_serialize_steps Let_def y2_def [symmetric] z2_def [symmetric] y4_def [symmetric] z4_def [symmetric]
      eqs [OF 4] by (intro same_work_put 4)
qed

lemma serializeInput_script: "signs_alike (ss_scriptCode (serializeInput n z)) (ss_scriptCode z)"
  by (simp add: serializeInput_def serializeScriptCode_def Let_def)

lemma serializeOutput_script: "ss_scriptCode (serializeOutput n z) = ss_scriptCode z"
  by (simp add: serializeOutput_def Let_def)

lemma fold_script:
  assumes "\<And>n z. signs_alike (ss_scriptCode (f n z)) (ss_scriptCode z)"
  shows "signs_alike (ss_scriptCode (fold f ns z)) (ss_scriptCode z)"
  by (induction ns arbitrary: z) (use assms in \<open>auto intro: signs_alike_trans\<close>)

lemma sig_serialize_script: "signs_alike (ss_scriptCode (sig_serialize z)) (ss_scriptCode z)"
proof -
  define y1 where "y1 = put (put_varint (n_inputs z)) (put (put_word32le (bt_version (ss_txTo z))) z)"
  define y2 where "y2 = fold serializeInput [0..<n_inputs z] y1"
  define y3 where "y3 = put (put_varint (n_outputs y2)) y2"
  define y4 where "y4 = fold serializeOutput [0..<n_outputs y2] y3"
  have "sig_serialize z = put (put_word32le (bt_lock_time (ss_txTo y4))) y4"
    unfolding sig_serialize_steps Let_def y1_def [symmetric] y2_def [symmetric] y3_def [symmetric] y4_def [symmetric] ..
  moreover have "signs_alike (ss_scriptCode y4) (ss_scriptCode y3)"
    unfolding y4_def by (rule fold_script) (simp add: serializeOutput_script)
  moreover have "signs_alike (ss_scriptCode y2) (ss_scriptCode y1)"
    unfolding y2_def by (rule fold_script) (rule serializeInput_script)
  ultimately show ?thesis by (simp add: y1_def y3_def signs_alike_def)
qed

lemma bc_hash_same:
  assumes "signs_alike s t"
  shows "fst (bc_hashForSignature sha tx s i ht) = fst (bc_hashForSignature sha tx t i ht)"
proof -
  have "same_work (new_serializer tx s i ht) (new_serializer tx t i ht)"
    using assms by (simp add: same_work_def same_job_def new_serializer_sel signs_alike_def)
  from sig_serialize_same [OF this] show ?thesis
    by (simp add: bc_hashForSignature_def Let_def same_work_def)
qed

lemma bc_hash_script: "signs_alike (snd (bc_hashForSignature sha tx s i ht)) s"
  using sig_serialize_script [of "new_serializer tx s i ht"]
  by (simp add: bc_hashForSignature_def Let_def new_serializer_sel)

lemma checkSig_same:
  assumes "signs_alike s t"
  shows "fst (checkSig env sig pub s) = fst (checkSig env sig pub t)"
  unfolding checkSig_def Let_def case_prod_beta bc_hash_same [OF assms] by simp

lemma checkSig_script: "signs_alike (snd (checkSig env sig pub s)) s"
  unfolding checkSig_def Let_def case_prod_beta by (simp add: bc_hash_script)

section \<open>Matching signatures with keys\<close>

text \<open>The search of the loop on lists: a signature that fits leaves the key in place.\<close>

fun fits_in_order :: "('a \<Rightarrow> 'b \<Rightarrow> bool) \<Rightarrow> 'a list \<Rightarrow> 'b list \<Rightarrow> bool" where
  "fits_in_order ok [] ks = True"
| "fits_in_order ok (s # ss) [] = False"
| "fits_in_order ok (s # ss) (k # ks) =
     (if ok s k then fits_in_order ok ss (k # ks) else length (s # ss) \<le> length ks \<and> fits_in_order ok (s # ss) ks)"

text \<open>An assignment of keys to signatures that never goes back, and that leaves a key for each
  signature that follows.\<close>

definition assigns :: "('a \<Rightarrow> 'b \<Rightarrow> bool) \<Rightarrow> 'a list \<Rightarrow> 'b list \<Rightarrow> (nat \<Rightarrow> nat) \<Rightarrow> bool" where
  "assigns ok ss ks f \<longleftrightarrow>
     (\<forall>i < length ss. f i + (length ss - i) \<le> length ks \<and> ok (ss ! i) (ks ! f i)) \<and>
     (\<forall>i j. i \<le> j \<longrightarrow> j < length ss \<longrightarrow> f i \<le> f j)"

lemma assigns_first: "ok s k \<Longrightarrow> assigns ok ss (k # ks) g \<Longrightarrow> length ss \<le> length ks \<Longrightarrow>
  assigns ok (s # ss) (k # ks) (\<lambda>i. case i of 0 \<Rightarrow> 0 | Suc j \<Rightarrow> g j)"
  unfolding assigns_def by (auto split: nat.splits simp: less_Suc_eq_0_disj)

lemma assigns_rest: "assigns ok (s # ss) ks f \<Longrightarrow> assigns ok ss ks (\<lambda>i. f (Suc i))"
  unfolding assigns_def by (auto simp: less_Suc_eq_0_disj)

lemma assigns_skip: "assigns ok ss ks g \<Longrightarrow> assigns ok ss (k # ks) (\<lambda>i. Suc (g i))"
  unfolding assigns_def by auto

lemma assigns_unskip:
  assumes "assigns ok (s # ss) (k # ks) f" "\<not> ok s k"
  shows "assigns ok (s # ss) ks (\<lambda>i. f i - 1)" "length (s # ss) \<le> length ks"
proof -
  have f0: "f 0 \<noteq> 0" "f 0 + Suc (length ss) \<le> Suc (length ks)"
    using assms unfolding assigns_def by (metis nth_Cons_0 length_greater_0_conv list.distinct(1), force)
  then show "length (s # ss) \<le> length ks" by simp
  have pos: "0 < f i" if "i < length (s # ss)" for i
    using assms(1) that f0(1) unfolding assigns_def by (metis le0 gr0I le_zero_eq)
  show "assigns ok (s # ss) ks (\<lambda>i. f i - 1)"
    unfolding assigns_def
  proof (intro conjI allI impI)
    fix i assume i: "i < length (s # ss)"
    have b: "f i + (length (s # ss) - i) \<le> length (k # ks)" and o: "ok ((s # ss) ! i) ((k # ks) ! f i)"
      using assms(1) i unfolding assigns_def by blast+
    show "f i - 1 + (length (s # ss) - i) \<le> length ks" using b pos [OF i] by simp
    show "ok ((s # ss) ! i) (ks ! (f i - 1))" using o pos [OF i] by (simp add: nth_Cons')
  next
    fix i j assume "i \<le> j" "j < length (s # ss)"
    then show "f i - 1 \<le> f j - 1" using assms(1) unfolding assigns_def by (meson diff_le_mono)
  qed
qed

lemma fits_in_order_iff:
  "length ss \<le> length ks \<Longrightarrow> fits_in_order ok ss ks \<longleftrightarrow> (\<exists>f. assigns ok ss ks f)"
proof (induction ok ss ks rule: fits_in_order.induct)
  case (3 ok s ss k ks)
  show ?case
  proof (cases "ok s k")
    case True
    have "fits_in_order ok ss (k # ks) \<longleftrightarrow> (\<exists>f. assigns ok ss (k # ks) f)" using 3 True by simp
    then show ?thesis
      using True assigns_first [of ok s k ss ks] assigns_rest [of ok s ss "k # ks"] "3.prems" by (auto; metis)
  next
    case False
    then have "length (s # ss) \<le> length ks \<Longrightarrow> fits_in_order ok (s # ss) ks \<longleftrightarrow> (\<exists>f. assigns ok (s # ss) ks f)"
      using 3 by blast
    then show ?thesis
      using False assigns_unskip [of ok s ss k ks] assigns_skip [of ok "s # ss" ks _ k] by (auto; metis)
  qed
qed (auto simp: assigns_def)

definition sig_ok :: "si_env \<Rightarrow> bc_script \<Rightarrow> buffer \<Rightarrow> buffer \<Rightarrow> bool" where
  "sig_ok env scriptCode sig key \<longleftrightarrow> fst (checkSig env sig key scriptCode) = Inr True"

lemma multisig_loop_fits:
  assumes "signs_alike sc sc0" "i \<le> length sigs" "j \<le> length keys" "length sigs - i \<le> length keys - j"
  shows "multisig_loop env sigs keys i j (int (length sigs - i)) (int (length keys - j)) True sc =
    fits_in_order (sig_ok env sc0) (drop i sigs) (drop j keys)"
  using assms
proof (induction "(length sigs - i) + (length keys - j)" arbitrary: i j sc rule: less_induct)
  case less
  show ?case
  proof (cases "i = length sigs")
    case True
    then show ?thesis by (subst multisig_loop.simps) simp
  next
    case False
    then have i: "i < length sigs" "j < length keys" using less.prems by linarith+
    obtain r sc' where r: "checkSig env (sigs ! i) (keys ! j) sc = (r, sc')" by (cases "checkSig env (sigs ! i) (keys ! j) sc")
    have ok: "r = Inr True \<longleftrightarrow> sig_ok env sc0 (sigs ! i) (keys ! j)" and alike: "signs_alike sc' sc0"
      using checkSig_same [OF less.prems(1), of env "sigs ! i" "keys ! j"] less.prems(1)
        checkSig_script [of env "sigs ! i" "keys ! j" sc] r
      by (auto simp: sig_ok_def intro: signs_alike_trans)
    have drops: "drop i sigs = sigs ! i # drop (Suc i) sigs" "drop j keys = keys ! j # drop (Suc j) keys"
      using i by (simp_all add: Cons_nth_drop_Suc)
    obtain p q where p: "length sigs - i = Suc p" "length sigs - Suc i = p"
        and q: "length keys - j = Suc q" "length keys - Suc j = q"
      using i by (metis Suc_diff_Suc)
    show ?thesis
    proof (cases "r = Inr True")
      case True
      have "multisig_loop env sigs keys (Suc i) j (int p) (int (Suc q)) True sc' =
          fits_in_order (sig_ok env sc0) (drop (Suc i) sigs) (drop j keys)"
        using i less.prems(4) less.hyps [of "Suc i" j sc'] alike p q by simp
      then show ?thesis using True ok r drops p q by (subst multisig_loop.simps) simp
    next
      case False
      show ?thesis
      proof (cases "Suc p \<le> q")
        case True
        have "multisig_loop env sigs keys i (Suc j) (int (Suc p)) (int q) True sc' =
            fits_in_order (sig_ok env sc0) (drop i sigs) (drop (Suc j) keys)"
          using i True less.hyps [of i "Suc j" sc'] alike p q by simp
        then show ?thesis using True False ok r drops p q by (subst multisig_loop.simps) simp
      next
        case few: False
        then show ?thesis using False ok r drops p q i
          by (subst multisig_loop.simps, simp, subst multisig_loop.simps) simp
      qed
    qed
  qed
qed

section \<open>Canonical signatures\<close>

text \<open>A positive DER integer without a byte to spare.\<close>

definition der_integer :: "buffer \<Rightarrow> bool" where
  "der_integer v \<longleftrightarrow> v \<noteq> [] \<and> uint (v ! 0) < 128 \<and> (1 < length v \<and> v ! 0 = 0 \<longrightarrow> 128 \<le> uint (v ! 1))"

definition der_signature :: "buffer \<Rightarrow> buffer \<Rightarrow> buffer" where
  "der_signature R S =
     [0x30, word_of_nat (length R + length S + 4), 2, word_of_nat (length R)] @ R @ [2, word_of_nat (length S)] @ S"

lemma byte_or_0_nth: "i < length b \<Longrightarrow> byte_or_0 b i = uint (b ! i)"
  by (simp add: byte_or_0_def byte_at_def)

lemma not_sign_bit: "js_and (uint (b :: byte)) 0x80 = 0 \<longleftrightarrow> uint b < 128"
  by (rule sign_bit_byte)

lemma check_integer_Inr:
  assumes "sig = pre @ [t, n] @ v @ post" "pos = length pre + 2" "len = length v"
  shows "check_integer name sig pos len = Inr () \<longleftrightarrow> t = 2 \<and> der_integer v"
proof -
  have s: "slice sig pos (pos + len) = v" "byte_at sig (pos - 2) = Some (unat t)"
    unfolding assms by (simp_all add: slice_def byte_at_def nth_append)
  have t: "unat t = 2 \<longleftrightarrow> t = 2" by (simp add: word_unat_eq_iff)
  show ?thesis
  proof (cases v)
    case Nil
    then show ?thesis using s t assms(3) by (simp add: check_integer_def non_canonical_def der_integer_def)
  next
    case (Cons x xs)
    have x: "js_and (byte_or_0 v 0) 0x80 = 0 \<longleftrightarrow> uint x < 128" unfolding Cons by (simp add: byte_or_0_nth not_sign_bit)
    have z: "byte_at v 0 = Some 0 \<longleftrightarrow> x = 0" unfolding Cons by (simp add: byte_at_def unat_eq_zero)
    show ?thesis
    proof (cases xs)
      case Nil
      then show ?thesis using s t x z assms(3) Cons
        by (simp add: check_integer_def non_canonical_def der_integer_def Let_def)
    next
      case (Cons y ys)
      have "js_and (byte_or_0 v 1) 0x80 = 0 \<longleftrightarrow> uint y < 128"
        unfolding Cons \<open>v = x # xs\<close> by (simp add: byte_or_0_nth not_sign_bit)
      then show ?thesis using s t x z assms(3) Cons \<open>v = x # xs\<close>
        by (simp add: check_integer_def non_canonical_def der_integer_def Let_def not_less)
    qed
  qed
qed

definition hash_type_ok :: "byte \<Rightarrow> bool" where
  "hash_type_ok h \<longleftrightarrow> uint h mod 128 \<in> {1, 2, 3}"

lemma hash_type_bits: "js_and (uint (h :: byte)) (js_not 0x80) = uint h mod 128"
proof -
  have "uint h AND NOT 128 = uint h mod 128"
  proof (rule bit_eqI)
    fix n
    show "bit (uint h AND NOT 128) n \<longleftrightarrow> bit (uint h mod 128) n"
      using bit_imp_le_length [of h n] bit_uint_iff [of h n] 
      by (simp add: bit_simps take_bit_eq_mod [of 7, simplified, symmetric]) (auto simp: bit_exp_iff [of 7, simplified])
  qed
  moreover have "0 \<le> uint h mod 128" "uint h mod 128 < 128" by simp_all
  ultimately show ?thesis unfolding js_and_not by (simp add: to_int32_small)
qed

lemma unat_byte_eq: "k < 256 \<Longrightarrow> unat (b :: byte) = k \<longleftrightarrow> b = word_of_nat k"
  by (auto simp: unat_of_nat)

lemma unit_ex_simp: "(\<exists>x. r = Inr x \<and> P) \<longleftrightarrow> r = Inr () \<and> P"
  by auto

lemma guard_Inr: "(if c then Inl e else r) = Inr x \<longleftrightarrow> \<not> c \<and> r = Inr x"
  by simp

lemma canonical_conjuncts:
  fixes sig :: buffer
  defines "l \<equiv> length sig" and "ht \<equiv> js_and (byte_or_0 sig (length sig - 1)) (js_not 0x80)"
    and "nR \<equiv> unat (sig ! 3)" and "nS \<equiv> unat (sig ! (5 + unat (sig ! 3)))"
  assumes "\<not> so_dontVerifyStrictEnc opts"
  shows "si_isCanonicalSignature opts sig = Inr True \<longleftrightarrow>
    9 \<le> l \<and> l \<le> 73 \<and> (1 \<le> ht \<and> ht \<le> 3) \<and> byte_at sig 0 = Some 0x30 \<and> byte_at sig 1 = Some (l - 3) \<and>
    5 + nR < l \<and> nR + nS + 7 = l \<and> check_integer ''R'' sig 4 nR = Inr () \<and> check_integer ''S'' sig (6 + nR) nS = Inr () \<and>
    (so_verifyEvenS opts \<longrightarrow> js_and (byte_or_0 (slice sig (6 + nR) (6 + nR + nS)) (nS - 1)) 1 = 0)"
  unfolding si_isCanonicalSignature_def Let_def non_canonical_def guard_Inr rbind_Inr_iff unit_ex_simp
    l_def ht_def nR_def nS_def if_not_P [OF assms(5)] not_less de_Morgan_disj not_not de_Morgan_conj not_le
  by blast

lemma canonical_signature_frame:
  assumes sig: "sig = [a, b, c, d] @ R @ [e, f] @ S @ [h]" and len: "length R = unat d" "length S = unat f"
    and strict: "\<not> so_dontVerifyStrictEnc opts"
  shows "si_isCanonicalSignature opts sig = Inr True \<longleftrightarrow>
    a = 0x30 \<and> b = word_of_nat (length R + length S + 4) \<and> c = 2 \<and> e = 2 \<and> der_integer R \<and> der_integer S \<and>
    length R + length S \<le> 66 \<and> hash_type_ok h \<and> (so_verifyEvenS opts \<longrightarrow> even (uint (last S)))"
proof -
  have l: "length sig = length R + length S + 7" unfolding sig by simp
  have at: "sig ! 3 = d" "sig ! (5 + unat d) = f" unfolding sig using len by (simp_all add: nth_append)
  have ends: "byte_at sig 0 = Some (unat a)" "byte_at sig 1 = Some (unat b)" "byte_or_0 sig (length sig - 1) = uint h"
    using l unfolding sig by (simp_all add: byte_at_def byte_or_0_nth nth_append)
  have "slice (([a, b, c, d] @ R @ [e, f]) @ S @ [h]) (length ([a, b, c, d] @ R @ [e, f]))
      (length ([a, b, c, d] @ R @ [e, f]) + length S) = S"
    unfolding slice_def append_eq_conv_conj [THEN iffD1, OF refl, THEN conjunct2] by simp
  then have slice: "slice sig (6 + unat d) (6 + unat d + unat f) = S" unfolding sig by (simp add: len [symmetric] eval_nat_numeral)
  have R: "check_integer ''R'' sig 4 (unat d) = Inr () \<longleftrightarrow> c = 2 \<and> der_integer R"
    by (rule check_integer_Inr [of _ "[a, b]" _ d _ "[e, f] @ S @ [h]"]) (simp_all add: sig len)
  have S: "check_integer ''S'' sig (6 + unat d) (unat f) = Inr () \<longleftrightarrow> e = 2 \<and> der_integer S"
    by (rule check_integer_Inr [of _ "[a, b, c, d] @ R" _ f _ "[h]"]) (simp_all add: sig len)
  have a: "byte_at sig 0 = Some 0x30 \<longleftrightarrow> a = 0x30" unfolding ends by (simp add: word_unat_eq_iff)
  have b: "byte_at sig 1 = Some (length sig - 3) \<longleftrightarrow> b = word_of_nat (length R + length S + 4)" if "length sig \<le> 73"
  proof -
    have "length sig - 3 = length R + length S + 4" using l by simp
    then show ?thesis using that l unfolding ends option.inject by (simp only:) (intro unat_byte_eq, simp)
  qed
  have short: "length sig \<le> 73 \<longleftrightarrow> length R + length S \<le> 66" using l by linarith
  have long: "9 \<le> length sig" if "der_integer R" "der_integer S"
    using that l by (cases R; cases S) (simp_all add: der_integer_def)
  have sum: "5 + unat d < length sig" "unat d + unat f + 7 = length sig" using l len by linarith+
  have h: "1 \<le> uint h mod 128 \<and> uint h mod 128 \<le> 3 \<longleftrightarrow> hash_type_ok h"
    unfolding hash_type_ok_def by (simp add: insert_iff) linarith
  have even: "js_and (byte_or_0 S (unat f - 1)) 1 = 0 \<longleftrightarrow> even (uint (last S))" if "der_integer S"
  proof -
    have "S \<noteq> []" using that by (simp add: der_integer_def)
    then have "byte_or_0 S (length S - 1) = uint (last S)" by (simp add: byte_or_0_nth last_conv_nth)
    then have "byte_or_0 S (unat f - 1) = uint (last S)" by (simp only: len(2))
    moreover have "to_int32 (uint (last S)) = uint (last S)" by (simp add: to_int32_small)
    ultimately show ?thesis by (simp add: js_and_def and_one_eq even_iff_mod_2_eq_zero to_int32_small)
  qed
  show ?thesis
    unfolding canonical_conjuncts [OF strict] ends(3) at slice hash_type_bits h R S a short
    using b even long sum short by blast
qed

lemma signature_frame:
  assumes "9 \<le> length sig" "unat (sig ! 3) + unat (sig ! (5 + unat (sig ! 3))) + 7 = length sig"
  obtains a b c d R e f S h where "sig = [a, b, c, d] @ R @ [e, f] @ S @ [h]" "length R = unat d" "length S = unat f"
proof -
  let ?n = "unat (sig ! 3)" and ?m = "unat (sig ! (5 + unat (sig ! 3)))"
  have d: "drop i sig = sig ! i # drop (Suc i) sig" if "i < length sig" for i
    using that by (simp add: Cons_nth_drop_Suc)
  have t: "drop i sig = take k (drop i sig) @ drop (i + k) sig" for i k
    by (metis append_take_drop_id drop_drop add.commute)
  have "sig \<noteq> []" using assms(1) by auto
  then have "sig = sig ! 0 # sig ! 1 # sig ! 2 # sig ! 3 # drop 4 sig"
    using d [of 0] d [of 1] d [of 2] d [of 3] assms(1) by (simp add: eval_nat_numeral)
  also have "drop 4 sig = take ?n (drop 4 sig) @ drop (4 + ?n) sig"
    by (rule t)
  also have "drop (4 + ?n) sig = sig ! (4 + ?n) # sig ! (5 + ?n) # drop (6 + ?n) sig"
    using d [of "4 + ?n"] d [of "5 + ?n"] assms(2) by (simp add: eval_nat_numeral)
  also have "drop (6 + ?n) sig = take ?m (drop (6 + ?n) sig) @ drop (6 + ?n + ?m) sig"
    by (rule t)
  also have "drop (6 + ?n + ?m) sig = [sig ! (6 + ?n + ?m)]"
    using d [of "6 + ?n + ?m"] assms(2) by simp
  finally have "sig = [sig ! 0, sig ! 1, sig ! 2, sig ! 3] @ take ?n (drop 4 sig) @ [sig ! (4 + ?n), sig ! (5 + ?n)] @
      take ?m (drop (6 + ?n) sig) @ [sig ! (6 + ?n + ?m)]" by simp
  moreover have "length (take ?n (drop 4 sig)) = ?n" "length (take ?m (drop (6 + ?n) sig)) = ?m"
    using assms(2) by simp_all
  ultimately show thesis using that by blast
qed

lemma canonical_needs_frame:
  assumes "si_isCanonicalSignature opts sig = Inr True" "\<not> so_dontVerifyStrictEnc opts"
  shows "9 \<le> length sig" "unat (sig ! 3) + unat (sig ! (5 + unat (sig ! 3))) + 7 = length sig"
  using assms(1) unfolding canonical_conjuncts [OF assms(2)] by blast+

lemma canonical_der:
  assumes ok: "der_integer R" "der_integer S" "length R + length S \<le> 66" "hash_type_ok h"
      "so_verifyEvenS opts \<longrightarrow> even (uint (last S))"
  shows "si_isCanonicalSignature opts (der_signature R S @ [h]) = Inr True"
proof (cases "so_dontVerifyStrictEnc opts")
  case False
  have len: "length R = unat (word_of_nat (length R) :: byte)" "length S = unat (word_of_nat (length S) :: byte)"
    by (rule unat_byte_eq [THEN iffD2, OF _ refl, symmetric]; use ok(3) in linarith)+
  have sig: "der_signature R S @ [h] = [0x30, word_of_nat (length R + length S + 4), 2, word_of_nat (length R)] @ R @
      [2, word_of_nat (length S)] @ S @ [h]"
    unfolding der_signature_def append_assoc ..
  show ?thesis by (rule iffD2 [OF canonical_signature_frame [OF sig len False]]) (intro conjI refl ok)
qed (simp add: si_isCanonicalSignature_def)

text \<open>C30: The check of signatures accepts exactly the byte strings that are two positive DER integers without
  padding, in one DER sequence, followed by a hash type of 1, 2 or 3 with or without the top bit; on
  request the last byte of S must be even.\<close>

theorem canonical_signatures_are_der:
  "si_isCanonicalSignature opts sig = Inr True \<longleftrightarrow>
     so_dontVerifyStrictEnc opts \<or>
     (\<exists>R S h. sig = der_signature R S @ [h] \<and> der_integer R \<and> der_integer S \<and> length R + length S \<le> 66 \<and>
        hash_type_ok h \<and> (so_verifyEvenS opts \<longrightarrow> even (uint (last S))))"
proof (cases "so_dontVerifyStrictEnc opts")
  case False
  show ?thesis
  proof
    assume canon: "si_isCanonicalSignature opts sig = Inr True"
    obtain a b c d R e f S h where sig: "sig = [a, b, c, d] @ R @ [e, f] @ S @ [h]"
        and len: "length R = unat d" "length S = unat f"
      by (rule signature_frame [OF canonical_needs_frame [OF canon False]])
    have df: "d = word_of_nat (length R)" "f = word_of_nat (length S)" using len by simp_all
    note frame = iffD1 [OF canonical_signature_frame [OF sig len False] canon]
    then have eqs: "a = 0x30" "b = word_of_nat (length R + length S + 4)" "c = 2" "e = 2" by blast+
    have "sig = der_signature R S @ [h]"
      unfolding sig der_signature_def eqs df append_assoc append_Cons append_Nil ..
    then have "sig = der_signature R S @ [h] \<and> der_integer R \<and> der_integer S \<and> length R + length S \<le> 66 \<and>
        hash_type_ok h \<and> (so_verifyEvenS opts \<longrightarrow> even (uint (last S)))"
      using frame by blast
    then show "so_dontVerifyStrictEnc opts \<or> (\<exists>R S h. sig = der_signature R S @ [h] \<and> der_integer R \<and> der_integer S \<and>
        length R + length S \<le> 66 \<and> hash_type_ok h \<and> (so_verifyEvenS opts \<longrightarrow> even (uint (last S))))" by blast
  next
    assume "so_dontVerifyStrictEnc opts \<or> (\<exists>R S h. sig = der_signature R S @ [h] \<and> der_integer R \<and> der_integer S \<and>
        length R + length S \<le> 66 \<and> hash_type_ok h \<and> (so_verifyEvenS opts \<longrightarrow> even (uint (last S))))"
    then obtain R S h where sig: "sig = der_signature R S @ [h]" and ok: "der_integer R" "der_integer S"
        "length R + length S \<le> 66" "hash_type_ok h" "so_verifyEvenS opts \<longrightarrow> even (uint (last S))"
      using False by blast
    show "si_isCanonicalSignature opts sig = Inr True" unfolding sig by (rule canonical_der [OF ok])
  qed
qed (simp add: si_isCanonicalSignature_def)

theorem canonical_signatures_are_der_witness:
  "si_isCanonicalSignature \<lparr>so_dontVerifyStrictEnc = False, so_verifyEvenS = True, so_verifyP2SH = False\<rparr>
     [0x30, 6, 2, 1, 1, 2, 1, 2, 0x81] = Inr True"
proof -
  have "[0x30, 6, 2, 1, 1, 2, 1, 2, 0x81] = der_signature [1] [2] @ [0x81]" by (simp add: der_signature_def)
  moreover have "der_integer [1]" "der_integer [2]" "hash_type_ok 0x81" by (simp_all add: der_integer_def hash_type_ok_def)
  ultimately show ?thesis
    by (intro iffD2 [OF canonical_signatures_are_der] disjI2 exI [of _ "[1]"] exI [of _ "[2]"] exI [of _ "0x81"]) simp
qed

section \<open>Truth\<close>

lemma nonzero_magnitude: "b \<noteq> 0 \<and> b \<noteq> 0x80 \<longleftrightarrow> uint (b :: byte) mod 128 \<noteq> 0"
proof -
  have "uint b < 256" using uint_lt2p [of b] by simp
  then have "uint b mod 128 = 0 \<longleftrightarrow> uint b = 0 \<or> uint b = 128" using uint_ge_0 [of b] by presburger
  then show ?thesis by (auto simp: word_uint_eq_iff)
qed

lemma castBool_snoc: "castBool (xs @ [b]) \<longleftrightarrow> le_nat xs \<noteq> 0 \<or> uint b mod 128 \<noteq> 0"
proof (induction xs)
  case Nil
  then show ?case using nonzero_magnitude [of b] by auto
next
  case (Cons x xs)
  then show ?case by (cases "x = 0") (auto simp: unat_eq_zero)
qed

text \<open>A stack element counts as true exactly if the number it encodes is not zero: negative zero and
  every padding of zero are false.\<close>

theorem castBool_is_nonzero: "castBool v \<longleftrightarrow> sm_value v \<noteq> 0"
proof (cases v rule: rev_cases)
  case (snoc xs b)
  have "int (le_nat xs) + 256 ^ length xs * (uint b mod 128) = 0 \<longleftrightarrow> le_nat xs = 0 \<and> uint b mod 128 = 0"
    by (subst add_nonneg_eq_0_iff) auto
  then show ?thesis unfolding snoc castBool_snoc sm_value_snoc by auto
qed (simp add: sm_value_def)

lemma castBool_bool_buffer [simp]: "castBool (bool_buffer b) = b"
  by (simp add: bool_buffer_def)

section \<open>Multisignature checks\<close>

definition strict_canonical :: "si_env \<Rightarrow> buffer \<Rightarrow> bool" where
  "strict_canonical env sig \<longleftrightarrow> si_isCanonicalSignature (se_opts env) sig = Inr True"

text \<open>The script that multisignatures sign: without the signatures themselves.\<close>

definition multisig_code :: "buffer list \<Rightarrow> bc_script \<Rightarrow> bc_script" where
  "multisig_code sigs scriptCode = fold (\<lambda>sig. findAndDelete (Data sig)) sigs scriptCode"

lemma delete_signatures:
  "list_all (strict_canonical env) sigs \<Longrightarrow>
    rfold (\<lambda>sig scriptCode. rbind (si_isCanonicalSignature (se_opts env) sig) (\<lambda>_. Inr (findAndDelete (Data sig) scriptCode)))
      sigs sc = Inr (multisig_code sigs sc)"
  by (induction sigs arbitrary: sc) (simp_all add: multisig_code_def strict_canonical_def del: rbind_Inr_iff)

lemma multisig_loop_assigns:
  assumes "length sigs \<le> length keys"
  shows "multisig_loop env sigs keys 0 0 (int (length sigs)) (int (length keys)) True sc \<longleftrightarrow>
    (\<exists>f. assigns (sig_ok env sc) sigs keys f)"
  using multisig_loop_fits [of sc sc 0 sigs 0 keys env] fits_in_order_iff [OF assms] assms by simp

lemma pop_many_append: "pop_many (length xs) (s @ rev xs) = Inr (xs, s)"
  by (simp add: pop_many_Inr)

lemma op_checkmultisig_run:
  assumes stack: "mc_stack m = s @ [dummy] @ rev sigs @ [mb] @ rev keys @ [nb]"
    and counts: "castInt mb = Inr (int (length sigs))" "castInt nb = Inr (int (length keys))"
    and bounds: "length sigs \<le> length keys" "length keys \<le> 20" "mc_opCount m + length keys \<le> 201"
    and canonical: "list_all (strict_canonical env) sigs"
  shows "op_checkmultisig env script n m =
    (let ok = (\<exists>f. assigns (sig_ok env (multisig_code sigs (script_code script (mc_hashStart m)))) sigs keys f)
     in with_stack (verify_tail ''OP_CHECKMULTISIGVERIFY'' (n = 175) ok (push (bool_buffer ok) s))
          (m\<lparr>mc_opCount := mc_opCount m + length keys\<rparr>))"
proof -
  have p1: "stackPop (mc_stack m) = Inr (nb, s @ [dummy] @ rev sigs @ [mb] @ rev keys)" unfolding stack by simp
  have p2: "pop_many (length keys) (s @ [dummy] @ rev sigs @ [mb] @ rev keys) = Inr (keys, s @ [dummy] @ rev sigs @ [mb])"
    by (simp add: pop_many_Inr)
  have p3: "stackPop (s @ [dummy] @ rev sigs @ [mb]) = Inr (mb, s @ [dummy] @ rev sigs)" by simp
  have p4: "pop_many (length sigs) (s @ [dummy] @ rev sigs) = Inr (sigs, s @ [dummy])" by (simp add: pop_many_Inr)
  have loop: "multisig_loop env sigs keys 0 0 (int (length sigs)) (int (length keys)) True sc \<longleftrightarrow>
      (\<exists>f. assigns (sig_ok env sc) sigs keys f)" for sc
    by (rule multisig_loop_assigns [OF bounds(1)])
  show ?thesis
    unfolding op_checkmultisig_def p1 rbind_simps prod.case counts nat_int p2 p3 p4 stackPop_snoc
      delete_signatures [OF canonical] loop Let_def
    using bounds by simp
qed

lemma multisig_code_replicate: "multisig_code (replicate (Suc k) sig) sc = findAndDelete (Data sig) sc"
proof (induction k)
  case (Suc k)
  have "multisig_code (replicate (Suc (Suc k)) sig) sc = multisig_code (replicate (Suc k) sig) (findAndDelete (Data sig) sc)"
    by (simp add: multisig_code_def)
  also have "\<dots> = multisig_code (replicate (Suc k) sig) sc"
    by (simp add: multisig_code_def findAndDelete_idem)
  finally show ?case using Suc by simp
qed (simp add: multisig_code_def)

text \<open>A concrete environment: one key signs, whatever the message.\<close>

definition sample_env :: si_env where
  "sample_env =
     \<lparr>se_sha256 = id, se_sha1 = id, se_ripe160 = id,
      se_verifySignature = (\<lambda>pub hash sig. Inr (pub = [7])),
      se_tx = \<lparr>bt_version = 1, bt_lock_time = 0, bt_ins = [], bt_outs = [], bt_hash = None, bt_buffer = None\<rparr>,
      se_inIndex = 0, se_hashType = 0, se_opts = no_opts\<rparr>"

definition sample_sig :: buffer where
  "sample_sig = der_signature [1] [1] @ [1]"

lemma sample_sig_canonical: "strict_canonical sample_env sample_sig"
  unfolding strict_canonical_def sample_sig_def
  by (rule canonical_der) (simp_all add: der_integer_def hash_type_ok_def sample_env_def no_opts_def)

lemma sample_sig_ok: "sig_ok sample_env sc sample_sig key \<longleftrightarrow> key = [7]"
  by (auto simp: sig_ok_def checkSig_def sample_env_def sample_sig_def der_signature_def Let_def split: prod.split)

text \<open>C7: \<open>OP_CHECKMULTISIG\<close> with m signatures and n keys, all counts in bounds and all signatures canonical,
  pops them with one element more and pushes whether the signatures can be assigned to keys that
  verify them, in an order that never goes back and with at least as many keys left as signatures; the
  verifying form fails exactly where the other pushes false.\<close>

theorem checkmultisig_exact:
  fixes script :: bc_script
  assumes "mc_stack m = s @ [dummy] @ rev sigs @ [mb] @ rev keys @ [nb]"
    and "castInt mb = Inr (int (length sigs))" "castInt nb = Inr (int (length keys))"
    and "length sigs \<le> length keys" "length keys \<le> 20" "mc_opCount m + length keys \<le> 201"
    and "list_all (strict_canonical env) sigs"
  defines "m' \<equiv> m\<lparr>mc_opCount := mc_opCount m + length keys\<rparr>"
    and "ok \<equiv> \<exists>f. assigns (sig_ok env (multisig_code sigs (script_code script (mc_hashStart m)))) sigs keys f"
  shows "op_checkmultisig env script 174 m = Inr (m'\<lparr>mc_stack := s @ [bool_buffer ok]\<rparr>) \<and>
    op_checkmultisig env script 175 m =
      (if ok then Inr (m'\<lparr>mc_stack := s\<rparr>) else Inl (JsError ''OP_CHECKMULTISIGVERIFY negative''))"
  unfolding op_checkmultisig_run [OF assms(1-7)] Let_def ok_def [symmetric] m'_def [symmetric]
  by (simp add: verify_tail_def push_def with_stack_def)

theorem checkmultisig_exact_witness:
  "op_checkmultisig sample_env (fromChunks []) 174
     \<lparr>mc_stack = [[], sample_sig, [1], [7], [8], [2]], mc_alt = [], mc_exec = [], mc_hashStart = 0, mc_opCount = 0\<rparr> =
   Inr \<lparr>mc_stack = [[1]], mc_alt = [], mc_exec = [], mc_hashStart = 0, mc_opCount = 2\<rparr>"
proof -
  let ?m = "\<lparr>mc_stack = [[], sample_sig, [1], [7], [8], [2]], mc_alt = [], mc_exec = [], mc_hashStart = 0, mc_opCount = 0\<rparr>"
  have n: "castInt [1] = Inr (int (length [sample_sig]))" "castInt [2] = Inr (int (length [[8::byte], [7]]))"
    by (simp_all add: castInt_def bufferSMToInt_value sm_value_def)
  have "assigns (sig_ok sample_env sc) [sample_sig] [[8], [7]] (\<lambda>_. 1)" for sc
    by (simp add: assigns_def sample_sig_ok)
  then have a: "(\<exists>f. assigns (sig_ok sample_env sc) [sample_sig] [[8], [7]] f) = True" for sc by blast
  have "list_all (strict_canonical sample_env) [sample_sig]" using sample_sig_canonical by simp
  with checkmultisig_exact [of ?m "[]" "[]" "[sample_sig]" "[1]" "[[8], [7]]" "[2]" sample_env "fromChunks []"] n
  show ?thesis unfolding a by (simp add: bool_buffer_def)
qed

text \<open>One signature satisfies any threshold: as a key stays the current one after it has verified a
  signature, m copies of one valid signature pass an m of n check, provided that its key is not among
  the last m - 1 the check comes to.\<close>

theorem one_signature_meets_threshold:
  assumes "mc_stack m = s @ [dummy] @ replicate (Suc k) sig @ [mb] @ rev keys @ [nb]"
    and "castInt mb = Inr (int (Suc k))" "castInt nb = Inr (int (length keys))"
    and "length keys \<le> 20" "mc_opCount m + length keys \<le> 201"
    and "strict_canonical env sig"
    and "j + Suc k \<le> length keys"
    and "fst (checkSig env sig (keys ! j) (findAndDelete (Data sig) (script_code script (mc_hashStart m)))) = Inr True"
  shows "op_checkmultisig env script 174 m =
    Inr (m\<lparr>mc_opCount := mc_opCount m + length keys, mc_stack := s @ [[1]]\<rparr>)"
proof -
  let ?sigs = "replicate (Suc k) sig"
  have "assigns (sig_ok env (multisig_code ?sigs (script_code script (mc_hashStart m)))) ?sigs keys (\<lambda>_. j)"
    unfolding multisig_code_replicate using assms(7,8) by (auto simp: assigns_def sig_ok_def simp del: replicate_Suc)
  then have ok: "(\<exists>f. assigns (sig_ok env (multisig_code ?sigs (script_code script (mc_hashStart m)))) ?sigs keys f) = True"
    by blast
  have run: "op_checkmultisig env script 174 m =
    with_stack (verify_tail ''OP_CHECKMULTISIGVERIFY'' (174 = (175 :: nat)) True (push (bool_buffer True) s))
      (m\<lparr>mc_opCount := mc_opCount m + length keys\<rparr>)"
    using assms(1-7) op_checkmultisig_run [of m s dummy ?sigs mb keys nb env script 174] unfolding ok Let_def
    by (simp add: list_all_iff replicate_append_same)
  show ?thesis unfolding run by (simp add: verify_tail_def with_stack_def push_def bool_buffer_def)
qed

theorem one_signature_meets_threshold_witness:
  "op_checkmultisig sample_env (fromChunks []) 174
     \<lparr>mc_stack = [[], sample_sig, sample_sig, [2], [9], [8], [7], [3]], mc_alt = [], mc_exec = [],
      mc_hashStart = 0, mc_opCount = 0\<rparr> =
   Inr \<lparr>mc_stack = [[1]], mc_alt = [], mc_exec = [], mc_hashStart = 0, mc_opCount = 3\<rparr>"
proof -
  let ?m = "\<lparr>mc_stack = [[], sample_sig, sample_sig, [2], [9], [8], [7], [3]], mc_alt = [], mc_exec = [],
      mc_hashStart = 0, mc_opCount = 0\<rparr>"
  have n: "castInt [2] = Inr (int (Suc 1))" "castInt [3] = Inr (int (length [[7::byte], [8], [9]]))"
    by (simp_all add: castInt_def bufferSMToInt_value sm_value_def)
  have "fst (checkSig sample_env sample_sig ([[7], [8], [9]] ! 0) sc) = Inr True" for sc
    using sample_sig_ok [of sc "[7]"] by (simp add: sig_ok_def)
  then show ?thesis
    using one_signature_meets_threshold [of ?m "[]" "[]" 1 sample_sig "[2]" "[[7], [8], [9]]" "[3]" sample_env 0 "fromChunks []"]
      n sample_sig_canonical by simp
qed

end
