(* ===== verification/Bc_Interp_Verify.thy ===== *)
theory Bc_Interp_Verify
  imports Bc_Interp_Checks
begin

text \<open>
  Whole scripts: every run stays within the limits; the verification of pay-to-public-key-hash and
  pay-to-script-hash inputs, over the opcodes they are made of.
\<close>

section \<open>Limits of every run\<close>

text \<open>C27: Whatever a script does, in every state it reaches the two stacks hold at most 1000 elements of at
  most 520 bytes, and at most 201 operations have been counted.\<close>

theorem script_limits:
  assumes "script_steps env script (0, start_machine s) (pc, m)" "small_hashes env"
    and "length s \<le> 1000" "\<forall>x \<in> set s. length x \<le> 520"
  shows "length (mc_stack m) + length (mc_alt m) \<le> 1000 \<and> (\<forall>x \<in> set (mc_stack m @ mc_alt m). length x \<le> 520) \<and>
    mc_opCount m \<le> 201"
proof -
  have "limits (start_machine s)" using assms(3,4) by (simp add: limits_def smalls_def start_machine_def small_def)
  then have "limits m" using steps_limits [OF assms(1) _ assms(2)] by simp
  then show ?thesis by (auto simp: limits_def smalls_def small_def)
qed

section \<open>Steps\<close>

definition counted :: "chunk \<Rightarrow> nat" where
  "counted c = (if loose_gt (Some c) 96 then 1 else 0)"

lemma count_chunk:
  "(if loose_gt (Some c) 96 then m\<lparr>mc_opCount := mc_opCount m + 1\<rparr> else m) =
    m\<lparr>mc_opCount := mc_opCount m + counted c\<rparr>"
  by (simp add: counted_def)

lemma counted_le: "counted c \<le> 1"
  by (simp add: counted_def)

lemma eval_step_data:
  assumes "bs_chunks script ! pc = Data b" "mc_exec m = []" "length b \<le> 520"
    and "mc_opCount m + 1 \<le> 201" "length (mc_stack m) + length (mc_alt m) < 1000"
  shows "eval_step env script pc m =
    Inr (m\<lparr>mc_stack := push b (mc_stack m), mc_opCount := mc_opCount m + counted (Data b)\<rparr>)"
proof -
  let ?m = "m\<lparr>mc_opCount := mc_opCount m + counted (Data b)\<rparr>"
  have c: "(loose_gt (Some (Data b)) 96 \<and> 201 < mc_opCount ?m) = False"
    using assms(4) counted_le [of "Data b"] by simp
  have l: "(520 < length (data_of (Some (Data b)))) = False" using assms(3) by simp
  have e: "False \<notin> set (mc_exec m)" using assms(2) by simp
  show ?thesis
    unfolding eval_step_def Let_def assms(1) count_chunk c l if_False chunk.case if_P [OF e]
    using assms(5) by (simp add: check_size_def push_def)
qed

lemma eval_step_op:
  assumes "bs_chunks script ! pc = Op n" "mc_exec m = []" "\<not> disabled_opcode n" "mc_opCount m + 1 \<le> 201"
  shows "eval_step env script pc m =
    (let m = m\<lparr>mc_opCount := mc_opCount m + counted (Op n)\<rparr>
     in if n = 172 \<or> n = 173 then op_checksig env script n m
        else if n = 174 \<or> n = 175 then op_checkmultisig env script n m
        else rbind (run_opcode env (pc + 1) n True m) check_size)"
proof -
  let ?m = "m\<lparr>mc_opCount := mc_opCount m + counted (Op n)\<rparr>"
  have c: "(loose_gt (Some (Op n)) 96 \<and> 201 < mc_opCount ?m) = False"
    using assms(4) counted_le [of "Op n"] by simp
  have e: "False \<notin> set (mc_exec m)" and l: "(520 < length (data_of (Some (Op n)))) = False" using assms(2) by simp_all
  show ?thesis
    unfolding eval_step_def Let_def assms(1) count_chunk c l if_False chunk.case if_not_P [OF assms(3)]
    using e by simp
qed

lemma eval_loop_next:
  "pc < length (bs_chunks script) \<Longrightarrow> eval_loop env script pc m = rbind (eval_step env script pc m) (eval_loop env script (Suc pc))"
  by (subst eval_loop.simps) simp

lemma eval_loop_end: "mc_exec m = [] \<Longrightarrow> eval_loop env script (length (bs_chunks script)) m = Inr m"
  by (subst eval_loop.simps) simp

text \<open>Scripts that only push.\<close>

fun pushed :: "chunk \<Rightarrow> buffer" where
  "pushed (Data b) = b"
| "pushed (Op n) = (if n = 0 then [] else intToBufferSM (int n - 81 + 1))"

fun push_chunk :: "chunk \<Rightarrow> bool" where
  "push_chunk (Data b) \<longleftrightarrow> length b \<le> 520"
| "push_chunk (Op n) \<longleftrightarrow> is_constant n"

lemma op_constant_push: "op_constant n s = push (pushed (Op n)) s"
  by (simp add: op_constant_def push_def)

lemma eval_step_push:
  assumes "push_chunk (bs_chunks script ! pc)" "mc_exec m = []" "mc_opCount m + 1 \<le> 201"
    "length (mc_stack m) + length (mc_alt m) < 1000"
  shows "eval_step env script pc m =
    Inr (m\<lparr>mc_stack := push (pushed (bs_chunks script ! pc)) (mc_stack m),
      mc_opCount := mc_opCount m + counted (bs_chunks script ! pc)\<rparr>)"
proof (cases "bs_chunks script ! pc")
  case (Op n)
  have c: "is_constant n" using assms(1) Op by simp
  then have n: "\<not> disabled_opcode n" "\<not> (n = 172 \<or> n = 173)" "\<not> (n = 174 \<or> n = 175)"
    by (auto simp: is_constant_def disabled_opcode_def)
  have "eval_step env script pc m =
      rbind (run_opcode env (pc + 1) n True (m\<lparr>mc_opCount := mc_opCount m + counted (Op n)\<rparr>)) check_size"
    unfolding eval_step_op [OF Op assms(2) n(1) assms(3)] Let_def if_not_P [OF n(2)] if_not_P [OF n(3)] ..
  then show ?thesis
    using assms(4) c Op by (simp add: run_opcode_def op_constant_push push_def check_size_def del: pushed.simps)
next
  case (Data b)
  then show ?thesis using eval_step_data [OF Data assms(2) _ assms(3,4)] assms(1) by simp
qed

lemma eval_loop_pushes:
  assumes "list_all push_chunk (bs_chunks script)" "pc \<le> length (bs_chunks script)"
    and "mc_exec m = []" "mc_alt m = []" "mc_opCount m + (length (bs_chunks script) - pc) \<le> 201"
    and "length (mc_stack m) + (length (bs_chunks script) - pc) \<le> 1000"
  shows "\<exists>m'. eval_loop env script pc m = Inr m' \<and> mc_stack m' = mc_stack m @ map pushed (drop pc (bs_chunks script))"
  using assms(2-6)
proof (induction "length (bs_chunks script) - pc" arbitrary: pc m)
  case 0
  then show ?case by (subst eval_loop.simps) simp
next
  case (Suc k)
  then have pc: "pc < length (bs_chunks script)" by simp
  let ?c = "bs_chunks script ! pc"
  let ?m = "m\<lparr>mc_stack := push (pushed ?c) (mc_stack m), mc_opCount := mc_opCount m + counted ?c\<rparr>"
  have "push_chunk ?c" using assms(1) pc by (simp add: list_all_length)
  then have step: "eval_step env script pc m = Inr ?m" using Suc pc by (intro eval_step_push) simp_all
  have prems: "mc_exec ?m = []" "mc_alt ?m = []" "length (mc_stack ?m) + (length (bs_chunks script) - Suc pc) \<le> 1000"
    "mc_opCount ?m + (length (bs_chunks script) - Suc pc) \<le> 201"
    using Suc.prems pc counted_le [of ?c] by (simp_all add: push_def)
  have "k = length (bs_chunks script) - Suc pc" "Suc pc \<le> length (bs_chunks script)" using Suc.hyps(2) pc by simp_all
  from Suc.hyps(1) [OF this prems(1,2,4,3)]
  obtain m' where "eval_loop env script (Suc pc) ?m = Inr m'"
      "mc_stack m' = mc_stack ?m @ map pushed (drop (Suc pc) (bs_chunks script))" by blast
  then show ?case using step pc by (simp add: eval_loop_next push_def flip: Cons_nth_drop_Suc)
qed

lemma eval_pushes:
  assumes "list_all push_chunk (bs_chunks script)" "length (bs_chunks script) \<le> 201" "length (bs_buffer script) \<le> 10000"
  shows "eval env script [] = Inr (map pushed (bs_chunks script))"
  using eval_loop_pushes [OF assms(1), of 0 "start_machine []" env] assms(2,3)
  by (auto simp: eval_def start_machine_def simp del: rbind_Inr_iff)

section \<open>The opcodes of the standard scripts\<close>

lemma counted_op: "counted (Op n) = (if 96 < n then 1 else 0)"
  by (simp add: counted_def loose_gt_def)

lemma eval_step_plain:
  assumes "bs_chunks script ! pc = Op n" "mc_exec m = []" "\<not> disabled_opcode n" "mc_opCount m + 1 \<le> 201"
    and "n < 172 \<or> 175 < n" "96 < n"
  shows "eval_step env script pc m =
    rbind (run_opcode env (pc + 1) n True (m\<lparr>mc_opCount := mc_opCount m + 1\<rparr>)) check_size"
proof -
  have n: "\<not> (n = 172 \<or> n = 173)" "\<not> (n = 174 \<or> n = 175)" using assms(5) by auto
  show ?thesis
    unfolding eval_step_op [OF assms(1-4)] Let_def if_not_P [OF n(1)] if_not_P [OF n(2)] counted_op if_P [OF assms(6)] ..
qed

lemma step_dup:
  assumes "bs_chunks script ! pc = Op 118" "mc_exec m = []" "mc_opCount m + 1 \<le> 201"
    and "mc_stack m = s @ [x]" "length s + 2 + length (mc_alt m) \<le> 1000"
  shows "eval_step env script pc m = Inr (m\<lparr>mc_opCount := mc_opCount m + 1, mc_stack := s @ [x, x]\<rparr>)"
proof -
  have "eval_step env script pc m =
      rbind (run_opcode env (pc + 1) 118 True (m\<lparr>mc_opCount := mc_opCount m + 1\<rparr>)) check_size"
    by (rule eval_step_plain) (use assms in \<open>simp_all add: disabled_opcode_def\<close>)
  moreover have "run_opcode env (pc + 1) 118 True k = with_stack (op_stack 118 (mc_stack k)) k" for k
    by (simp add: run_opcode_def is_constant_def is_nop_def is_flow_def is_stack_op_def)
  moreover have "op_stack 118 (s @ [x]) = Inr (s @ [x, x])"
    by (simp add: op_stack_def stackTop_def push_def nth_append del: rbind_Inr_iff)
  ultimately show ?thesis using assms(4,5) by (simp add: with_stack_def check_size_def)
qed

lemma step_hash160:
  assumes "bs_chunks script ! pc = Op 169" "mc_exec m = []" "mc_opCount m + 1 \<le> 201"
    and "mc_stack m = s @ [x]" "length s + 1 + length (mc_alt m) \<le> 1000"
  shows "eval_step env script pc m =
    Inr (m\<lparr>mc_opCount := mc_opCount m + 1, mc_stack := s @ [sha256ripe160 (se_sha256 env) (se_ripe160 env) x]\<rparr>)"
proof -
  have "eval_step env script pc m =
      rbind (run_opcode env (pc + 1) 169 True (m\<lparr>mc_opCount := mc_opCount m + 1\<rparr>)) check_size"
    by (rule eval_step_plain) (use assms in \<open>simp_all add: disabled_opcode_def\<close>)
  moreover have "run_opcode env (pc + 1) 169 True k = with_stack (op_hash env 169 (mc_stack k)) k" for k
    by (simp add: run_opcode_def is_constant_def is_nop_def is_flow_def is_stack_op_def is_unary_def is_binary_def is_hash_op_def)
  ultimately show ?thesis using assms(4,5) by (simp add: op_hash_def hash_value_def with_stack_def check_size_def push_def)
qed

lemma op_equal_run:
  "op_equal n (s @ [x, y]) =
    (if n = 136 then (if x = y then Inr s else Inl (JsError ''OP_EQUALVERIFY negative'')) else Inr (s @ [bool_buffer (x = y)]))"
proof -
  have p: "stackPop (s @ [x, y]) = Inr (y, s @ [x])" using stackPop_snoc [of "s @ [x]" y] by simp
  have "stackTop 2 (s @ [x, y]) = Inr x" "stackTop 1 (s @ [x, y]) = Inr y"
    by (simp_all add: stackTop_def nth_append)
  then show ?thesis by (simp add: op_equal_def replace2_def p push_def Let_def del: rbind_Inr_iff)
qed

lemma step_equal:
  assumes "bs_chunks script ! pc = Op n" "n = 135 \<or> n = 136" "mc_exec m = []" "mc_opCount m + 1 \<le> 201"
    and "mc_stack m = s @ [x, y]" "length s + 1 + length (mc_alt m) \<le> 1000"
  shows "eval_step env script pc m =
    (if n = 136 then (if x = y then Inr (m\<lparr>mc_opCount := mc_opCount m + 1, mc_stack := s\<rparr>)
       else Inl (JsError ''OP_EQUALVERIFY negative''))
     else Inr (m\<lparr>mc_opCount := mc_opCount m + 1, mc_stack := s @ [bool_buffer (x = y)]\<rparr>))"
proof -
  have "eval_step env script pc m =
      rbind (run_opcode env (pc + 1) n True (m\<lparr>mc_opCount := mc_opCount m + 1\<rparr>)) check_size"
    by (rule eval_step_plain) (use assms in \<open>auto simp: disabled_opcode_def\<close>)
  moreover have "run_opcode env (pc + 1) n True k = with_stack (op_equal n (mc_stack k)) k" for k
    using assms(2) by (auto simp: run_opcode_def is_constant_def is_nop_def is_flow_def is_stack_op_def)
  ultimately show ?thesis using assms(5,6) by (simp add: op_equal_run with_stack_def check_size_def)
qed

lemma step_checksig:
  assumes "bs_chunks script ! pc = Op 172" "mc_exec m = []" "mc_opCount m + 1 \<le> 201"
    and "mc_stack m = s @ [sig, pub]"
  defines "sc \<equiv> findAndDelete (Data sig) (script_code script (mc_hashStart m))"
  shows "eval_step env script pc m = rbind (si_isCanonicalSignature (se_opts env) sig) (\<lambda>_.
    Inr (m\<lparr>mc_opCount := mc_opCount m + 1, mc_stack := s @ [bool_buffer (sig_ok env sc sig pub)]\<rparr>))"
proof -
  have p: "stackPop (s @ [sig, pub]) = Inr (pub, s @ [sig])" using stackPop_snoc [of "s @ [sig]" pub] by simp
  have t: "stackTop 2 (s @ [sig, pub]) = Inr sig" "stackTop 1 (s @ [sig, pub]) = Inr pub"
    by (simp_all add: stackTop_def nth_append)
  have ok: "(case fst (checkSig env sig pub sc) of Inl e \<Rightarrow> False | Inr result \<Rightarrow> result) = sig_ok env sc sig pub"
    by (simp add: sig_ok_def split: sum.split)
  have "eval_step env script pc m = op_checksig env script 172 (m\<lparr>mc_opCount := mc_opCount m + 1\<rparr>)"
    using eval_step_op [OF assms(1,2) _ assms(3)] by (simp add: disabled_opcode_def counted_op)
  then show ?thesis
    using assms(4) ok
    by (simp add: op_checksig_def t [unfolded One_nat_def] p replace2_def push_def verify_tail_def with_stack_def Let_def sc_def
        del: rbind_Inr_iff)
qed

section \<open>Pay to public key hash\<close>

lemma sig_ok_reduces: "sig_ok env (findAndDelete c sc) sig pub \<longleftrightarrow> fst (checkSig env sig pub (findAndDelete c sc)) = Inr True"
  by (simp add: sig_ok_def)

lemma getResult_snoc: "castBool (stackBack (s @ [x])) = castBool x"
  by (simp add: stackBack_def nth_append)

lemma eval_p2pkh:
  assumes "bs_chunks spk = [Op 118, Op 169, Data h, Op 136, Op 172]" "length (bs_buffer spk) \<le> 10000" "length h \<le> 520"
  shows "eval env spk [sig, pub] =
    (if sha256ripe160 (se_sha256 env) (se_ripe160 env) pub = h
     then rbind (si_isCanonicalSignature (se_opts env) sig) (\<lambda>_.
            Inr [bool_buffer (sig_ok env (findAndDelete (Data sig) (fromChunks (bs_chunks spk))) sig pub)])
     else Inl (JsError ''OP_EQUALVERIFY negative''))"
proof -
  let ?H = "sha256ripe160 (se_sha256 env) (se_ripe160 env) pub"
  let ?m = "\<lambda>k s. \<lparr>mc_stack = s, mc_alt = [], mc_exec = [], mc_hashStart = 0, mc_opCount = k\<rparr>"
  note len = arg_cong [OF assms(1), of length, simplified]
  have 0: "eval_step env spk 0 (?m 0 [sig, pub]) = Inr (?m 1 [sig, pub, pub])"
    using step_dup [of spk 0 "?m 0 [sig, pub]" "[sig]" pub env] assms(1) by simp
  have 1: "eval_step env spk (Suc 0) (?m 1 [sig, pub, pub]) = Inr (?m 2 [sig, pub, ?H])"
    using step_hash160 [of spk "Suc 0" "?m 1 [sig, pub, pub]" "[sig, pub]" pub env] assms(1) by simp
  have 2: "eval_step env spk 2 (?m 2 [sig, pub, ?H]) = Inr (?m (2 + counted (Data h)) [sig, pub, ?H, h])"
    using eval_step_data [of spk 2 h "?m 2 [sig, pub, ?H]" env] assms(1,3) by (simp add: push_def)
  have c: "counted (Data h) \<le> 1" by (rule counted_le)
  have 3: "eval_step env spk 3 (?m (2 + counted (Data h)) [sig, pub, ?H, h]) =
      (if ?H = h then Inr (?m (3 + counted (Data h)) [sig, pub]) else Inl (JsError ''OP_EQUALVERIFY negative''))"
    using step_equal [of spk 3 136 "?m (2 + counted (Data h)) [sig, pub, ?H, h]" "[sig, pub]" ?H h env] assms(1) c by simp
  have 4: "eval_step env spk 4 (?m (3 + counted (Data h)) [sig, pub]) = rbind (si_isCanonicalSignature (se_opts env) sig) (\<lambda>_.
      Inr (?m (4 + counted (Data h)) [bool_buffer (sig_ok env (findAndDelete (Data sig) (fromChunks (bs_chunks spk))) sig pub)]))"
    using step_checksig [of spk 4 "?m (3 + counted (Data h)) [sig, pub]" "[]" sig pub env] assms(1) c
    by (simp add: script_code_def)
  have e: "eval_loop env spk 5 m = (if mc_exec m \<noteq> [] then Inl (JsError ''Execution stack ended non-empty'') else Inr m)" for m
    by (subst eval_loop.simps) (simp add: len)
  have "eval_loop env spk 0 (?m 0 [sig, pub]) =
      (if ?H = h then rbind (si_isCanonicalSignature (se_opts env) sig) (\<lambda>_.
         Inr (?m (4 + counted (Data h)) [bool_buffer (sig_ok env (findAndDelete (Data sig) (fromChunks (bs_chunks spk))) sig pub)]))
       else Inl (JsError ''OP_EQUALVERIFY negative''))"
  proof -
    have "eval_loop env spk 0 (?m 0 [sig, pub]) = eval_loop env spk 3 (?m (2 + counted (Data h)) [sig, pub, ?H, h])"
      using 0 1 2 len by (simp add: eval_loop_next numeral_2_eq_2 numeral_3_eq_3)
    also have "\<dots> = rbind (if ?H = h then Inr (?m (3 + counted (Data h)) [sig, pub]) else Inl (JsError ''OP_EQUALVERIFY negative''))
        (eval_loop env spk 4)"
      unfolding 3 [symmetric] using eval_loop_next [of 3 spk] len by simp
    finally show ?thesis
      using 4 eval_loop_next [of 4 spk env] len
      by (cases "si_isCanonicalSignature (se_opts env) sig") (simp_all add: e)
  qed
  then show ?thesis
    using assms(2) by (cases "si_isCanonicalSignature (se_opts env) sig") (simp_all add: eval_def start_machine_def)
qed

lemma eval_p2sh_output:
  assumes "bs_chunks spk = [Op 169, Data h, Op 135]" "length (bs_buffer spk) \<le> 10000" "length h \<le> 520"
    and "length s + 2 \<le> 1000"
  shows "eval env spk (s @ [x]) = Inr (s @ [bool_buffer (sha256ripe160 (se_sha256 env) (se_ripe160 env) x = h)])"
proof -
  let ?H = "sha256ripe160 (se_sha256 env) (se_ripe160 env) x"
  let ?m = "\<lambda>k s. \<lparr>mc_stack = s, mc_alt = [], mc_exec = [], mc_hashStart = 0, mc_opCount = k\<rparr>"
  note len = arg_cong [OF assms(1), of length, simplified]
  have 0: "eval_step env spk 0 (?m 0 (s @ [x])) = Inr (?m 1 (s @ [?H]))"
    using step_hash160 [of spk 0 "?m 0 (s @ [x])" s x env] assms(1,4) by simp
  have 1: "eval_step env spk (Suc 0) (?m 1 (s @ [?H])) = Inr (?m (1 + counted (Data h)) (s @ [?H, h]))"
    using eval_step_data [of spk "Suc 0" h "?m 1 (s @ [?H])" env] assms(1,3,4) by (simp add: push_def)
  have c: "counted (Data h) \<le> 1" by (rule counted_le)
  have 2: "eval_step env spk 2 (?m (1 + counted (Data h)) (s @ [?H, h])) = Inr (?m (2 + counted (Data h)) (s @ [bool_buffer (?H = h)]))"
    using step_equal [of spk 2 135 "?m (1 + counted (Data h)) (s @ [?H, h])" s ?H h env] assms(1,4) c by simp
  have "eval_loop env spk 3 (?m (2 + counted (Data h)) (s @ [bool_buffer (?H = h)])) =
      Inr (?m (2 + counted (Data h)) (s @ [bool_buffer (?H = h)]))"
    by (subst eval_loop.simps) (simp add: len)
  then have "eval_loop env spk 0 (?m 0 (s @ [x])) = Inr (?m (2 + counted (Data h)) (s @ [bool_buffer (?H = h)]))"
    using 0 1 2 len by (simp add: eval_loop_next numeral_2_eq_2 numeral_3_eq_3 del: rbind_Inr_iff)
  then show ?thesis using assms(2) by (simp add: eval_def start_machine_def del: rbind_Inr_iff)
qed

lemma pushes_only: "list_all push_chunk (bs_chunks ss) \<Longrightarrow> isPushOnly ss"
proof -
  have "\<not> (\<not> is_data (Some c) \<and> loose_gt (Some c) 96)" if "push_chunk c" for c
    using that by (cases c) (auto simp: loose_gt_def is_constant_def)
  then show "list_all push_chunk (bs_chunks ss) \<Longrightarrow> isPushOnly ss" by (auto simp: isPushOnly_def list_all_iff)
qed

lemma intToBufferSM_1: "intToBufferSM 1 = [1]"
  by code_simp

lemma verify_p2pkh:
  assumes "bs_chunks ss = [Data sig, Data pub]" "length sig \<le> 520" "length pub \<le> 520" "length (bs_buffer ss) \<le> 10000"
    and "bs_chunks spk = [Op 118, Op 169, Data h, Op 136, Op 172]" "length h \<le> 520" "length (bs_buffer spk) \<le> 10000"
  shows "verifyFull env ss spk =
    (if sha256ripe160 (se_sha256 env) (se_ripe160 env) pub = h
     then rbind (si_isCanonicalSignature (se_opts env) sig) (\<lambda>_.
            Inr (fst (checkSig env sig pub (findAndDelete (Data sig) (fromChunks (bs_chunks spk)))) = Inr True))
     else Inl (JsError ''OP_EQUALVERIFY negative''))"
proof -
  have "eval env ss [] = Inr [sig, pub]" using eval_pushes [of ss env] assms(1-4) by simp
  moreover have "isP2SH spk = False" using assms(5) by (simp add: isP2SH_def Let_def)
  moreover note eval_p2pkh [OF assms(5,7,6), of env sig pub]
  ultimately show ?thesis
    by (cases "si_isCanonicalSignature (se_opts env) sig")
      (auto simp: verifyFull_def verifyStep2_def verifyStep3_def stackBack_def sig_ok_def Let_def simp del: rbind_Inr_iff)
qed

text \<open>C5: A pay-to-public-key-hash input with a signature and a public key verifies exactly if the key hashes
  to the address, the signature is canonical and it verifies the transaction under that key; a wrong
  key and a signature that is not canonical are errors, a signature that does not verify is false.\<close>

theorem p2pkh_verification:
  assumes "bs_chunks ss = [Data sig, Data pub]" "length sig \<le> 520" "length pub \<le> 520" "length (bs_buffer ss) \<le> 10000"
    and "bs_chunks spk = [Op 118, Op 169, Data h, Op 136, Op 172]" "length h \<le> 520" "length (bs_buffer spk) \<le> 10000"
  shows "verifyFull env ss spk =
    (if sha256ripe160 (se_sha256 env) (se_ripe160 env) pub = h
     then rbind (si_isCanonicalSignature (se_opts env) sig) (\<lambda>_.
            Inr (fst (checkSig env sig pub (findAndDelete (Data sig) (fromChunks (bs_chunks spk)))) = Inr True))
     else Inl (JsError ''OP_EQUALVERIFY negative''))"
  by (rule verify_p2pkh [OF assms])

theorem p2pkh_verification_witness:
  "verifyFull sample_env (fromChunks [Data sample_sig, Data [7]]) (fromChunks [Op 118, Op 169, Data [7], Op 136, Op 172]) = Inr True"
proof -
  have "si_isCanonicalSignature (se_opts sample_env) sample_sig = Inr True"
    using sample_sig_canonical by (simp add: strict_canonical_def)
  moreover have "fst (checkSig sample_env sample_sig [7] sc) = Inr True" for sc
    using sample_sig_ok [of sc "[7]"] by (simp add: sig_ok_def)
  moreover have "length sample_sig = 9" by (simp add: sample_sig_def der_signature_def)
  ultimately show ?thesis
    using p2pkh_verification [of "fromChunks [Data sample_sig, Data [7]]" sample_sig "[7]"
        "fromChunks [Op 118, Op 169, Data [7], Op 136, Op 172]" "[7]" sample_env]
    by (simp add: sample_env_def sha256ripe160_def fromChunks_def updateBuffer_def chunksToBuffer_concat bc_chunk_bytes_simps
        bc_prefix_def del: rbind_Inr_iff put_chunk.simps)
qed

text \<open>C6: A pay-to-script-hash input of pushes verifies exactly as the script that is pushed last, run on
  the values pushed before it, provided that the script hashes to the address.\<close>

theorem p2sh_verification:
  assumes "bs_chunks ss = cs @ [Data redeem]" "list_all push_chunk (bs_chunks ss)" "length cs \<le> 200"
    and "length (bs_buffer ss) \<le> 10000"
    and "bs_chunks spk = [Op 169, Data h, Op 135]" "length h = 20" "length (bs_buffer spk) \<le> 10000"
    and "so_verifyP2SH (se_opts env)"
  shows "verifyFull env ss spk =
    (if sha256ripe160 (se_sha256 env) (se_ripe160 env) redeem = h
     then rbind (eval env (new_script redeem) (map pushed cs)) verifyStep4 else Inr False)"
proof -
  let ?ok = "sha256ripe160 (se_sha256 env) (se_ripe160 env) redeem = h"
  have "eval env ss [] = Inr (map pushed cs @ [redeem])" using eval_pushes [OF assms(2) _ assms(4)] assms(1,3) by simp
  moreover have "eval env spk (map pushed cs @ [redeem]) = Inr (map pushed cs @ [bool_buffer ?ok])"
    using assms(3,6) by (intro eval_p2sh_output assms(5,7)) simp_all
  moreover have "isP2SH spk" using assms(5,6) by (simp add: isP2SH_def Let_def chunk_at_def loose_eq_def)
  moreover have "isPushOnly ss" by (rule pushes_only [OF assms(2)])
  ultimately show ?thesis
    using assms(8) by (simp add: verifyFull_def verifyStep2_def verifyStep3_def stackBack_def nth_append Let_def del: rbind_Inr_iff)
qed

theorem p2sh_verification_witness:
  "verifyFull (sample_env\<lparr>se_ripe160 := \<lambda>_. replicate 20 9, se_opts := no_opts\<lparr>so_verifyP2SH := True\<rparr>\<rparr>)
     (fromChunks [Data [81]]) (fromChunks [Op 169, Data (replicate 20 9), Op 135]) = Inr True"
proof -
  let ?env = "sample_env\<lparr>se_ripe160 := \<lambda>_. replicate 20 9, se_opts := no_opts\<lparr>so_verifyP2SH := True\<rparr>\<rparr>"
  have "bc_parse (chunksToBuffer [Op 81]) = [Op 81]" by (rule bc_parse_chunks) simp
  then have "bs_chunks (new_script [81]) = [Op 81]" "length (bs_buffer (new_script [81])) = 1"
    by (simp_all add: new_script_def chunksToBuffer_concat bc_chunk_bytes_simps del: put_chunk.simps)
  then have "eval ?env (new_script [81]) [] = Inr [intToBufferSM 1]"
    using eval_pushes [of "new_script [81]" ?env] by (simp add: is_constant_def)
  moreover have "castBool (intToBufferSM 1)" by (simp add: intToBufferSM_1)
  ultimately have "rbind (eval ?env (new_script [81]) []) verifyStep4 = Inr True"
    by (simp add: verifyStep4_def stackBack_def del: rbind_Inr_iff)
  then show ?thesis
    using p2sh_verification [of "fromChunks [Data [81]]" "[]" "[81]" "fromChunks [Op 169, Data (replicate 20 9), Op 135]" "replicate 20 9" ?env]
    by (simp add: sha256ripe160_def fromChunks_def updateBuffer_def chunksToBuffer_concat bc_chunk_bytes_simps
        bc_prefix_def del: rbind_Inr_iff put_chunk.simps)
qed

section \<open>Data taken for an opcode\<close>

lemma opcode_texts:
  assumes "b \<in> {[57, 57], [49, 48, 48], [49, 48, 49], [49, 48, 50], [49, 48, 51], [49, 48, 52]}"
  shows "\<exists>k n. text_number b = Finite False (n * 2 ^ k) (2 ^ k) \<and> 99 \<le> n \<and> n \<le> 104"
proof -
  have b: "b \<noteq> []" "list_all (is_digit 10) b" "hd b \<noteq> 48" "99 \<le> digits_value 10 b" "digits_value 10 b \<le> 104"
    using assms by (auto simp: is_digit_def digit_value_def digits_value_def)
  then have "digits_value 10 b < 2 ^ 53" by simp
  then show ?thesis using text_number_digits [OF b(1-3)] b(4,5) by blast
qed

text \<open>A push in a branch that is not executed still raises an error if its bytes are the decimal text of a
  number from 99 to 104, as opcode and data are compared alike; executed, the same push is data.\<close>

theorem skipped_push_unknown_opcode:
  assumes "bs_chunks script ! pc = Data b" "b \<in> {[57, 57], [49, 48, 48], [49, 48, 49], [49, 48, 50], [49, 48, 51], [49, 48, 52]}"
    and "mc_opCount m \<le> 200"
    and "length (mc_stack m) + length (mc_alt m) < 1000"
  shows "eval_step env script pc m =
    (if False \<in> set (mc_exec m) then Inl (JsError ''Unknown opcode encountered'')
     else Inr (m\<lparr>mc_opCount := mc_opCount m + 1, mc_stack := mc_stack m @ [b]\<rparr>))"
proof -
  obtain k n where k: "text_number b = Finite False (n * 2 ^ k) (2 ^ k)" "99 \<le> n" "n \<le> 104"
    using opcode_texts [OF assms(2)] by blast
  have "loose_gt (Some (Data b)) 96" "loose_ge (Some (Data b)) 99" "loose_le (Some (Data b)) 104"
    using k(2,3) by (auto simp: loose_gt_def loose_ge_def loose_le_def k(1) num_ge_def num_le_def)
  moreover have "length b \<le> 520" using assms(2) by auto
  ultimately show ?thesis using assms(1,3,4) by (simp add: eval_step_def Let_def push_def check_size_def)
qed

theorem skipped_push_unknown_opcode_witness:
  "eval_step sample_env (fromChunks [Op 0, Op 99, Data [57, 57], Op 104, Op 81]) 2
     \<lparr>mc_stack = [], mc_alt = [], mc_exec = [False], mc_hashStart = 0, mc_opCount = 1\<rparr> =
   Inl (JsError ''Unknown opcode encountered'')"
  using skipped_push_unknown_opcode [of "fromChunks [Op 0, Op 99, Data [57, 57], Op 104, Op 81]" 2 "[57, 57]"
      "\<lparr>mc_stack = [], mc_alt = [], mc_exec = [False], mc_hashStart = 0, mc_opCount = 1\<rparr>" sample_env]
  by (simp add: fromChunks_def updateBuffer_def)

theorem script_limits_witness:
  "small_hashes (sample_env\<lparr>se_sha256 := \<lambda>_. [], se_sha1 := \<lambda>_. [], se_ripe160 := \<lambda>_. []\<rparr>) \<and> (\<exists>m.
     script_steps (sample_env\<lparr>se_sha256 := \<lambda>_. [], se_sha1 := \<lambda>_. [], se_ripe160 := \<lambda>_. []\<rparr>) (fromChunks [Data [1], Op 118])
       (0, start_machine [[2]]) (1, m) \<and> mc_stack m = [[2], [1]] \<and> length (mc_stack m) + length (mc_alt m) \<le> 1000)"
proof -
  let ?env = "sample_env\<lparr>se_sha256 := \<lambda>_. [], se_sha1 := \<lambda>_. [], se_ripe160 := \<lambda>_. []\<rparr>"
  let ?s = "fromChunks [Data [1], Op 118]"
  have h: "small_hashes ?env" by (simp add: small_hashes_def)
  have "eval_step ?env ?s 0 (start_machine [[2]]) =
      Inr ((start_machine [[2]])\<lparr>mc_stack := [[2], [1]], mc_opCount := counted (Data [1])\<rparr>)" (is "_ = Inr ?m")
    using eval_step_data [of ?s 0 "[1]" "start_machine [[2]]" ?env]
    by (simp add: fromChunks_def updateBuffer_def start_machine_def push_def)
  then have "script_step ?env ?s (0, start_machine [[2]]) (1, ?m)"
    by (simp add: script_step_simp fromChunks_def updateBuffer_def)
  then have steps: "script_steps ?env ?s (0, start_machine [[2]]) (1, ?m)" by blast
  show ?thesis using script_limits [OF steps h] steps h by (intro conjI exI [of _ ?m]) simp_all
qed

end
