(* ===== verification/Bc_Interp_Opcodes.thy ===== *)
theory Bc_Interp_Opcodes
  imports Bc_Interp_Verify
begin

text \<open>
  The opcodes of the stack against a table of what Bitcoin documents of them, and the conditions on the
  text of a script that every successful evaluation has checked, in the branches it did not run as well.
\<close>

section \<open>The stack opcodes\<close>

text \<open>A value is true unless it is zero or negative zero.\<close>

definition script_true :: "buffer \<Rightarrow> bool" where
  "script_true v \<longleftrightarrow> (\<exists>i < length v. v ! i \<noteq> 0 \<and> \<not> (i + 1 = length v \<and> v ! i = 0x80))"

lemma castBool_iff: "castBool v \<longleftrightarrow> script_true v"
  unfolding script_true_def
proof (induction v)
  case (Cons x v)
  have "(\<exists>i < length (x # v). (x # v) ! i \<noteq> 0 \<and> \<not> (i + 1 = length (x # v) \<and> (x # v) ! i = 0x80)) \<longleftrightarrow>
      (x \<noteq> 0 \<and> \<not> (v = [] \<and> x = 0x80)) \<or> castBool v"
    unfolding Cons.IH by (simp only: length_Cons Suc_eq_plus1 [symmetric] Ex_less_Suc2 nth_Cons_0 nth_Cons_Suc nat.inject) auto
  then show ?case by auto
qed simp

text \<open>What each opcode makes of the stack, the top first; \<open>None\<close> where there are too few elements, or no
  such element. The numbers of \<open>OP_DEPTH\<close>, \<open>OP_PICK\<close>, \<open>OP_ROLL\<close> and \<open>OP_SIZE\<close> are script numbers.\<close>

definition stack_effect :: "nat \<Rightarrow> buffer list \<Rightarrow> buffer list option" where
  "stack_effect n s =
     (if n = 109 then (case s of x2 # x1 # s \<Rightarrow> Some s | _ \<Rightarrow> None)
      else if n = 110 then (case s of x2 # x1 # s \<Rightarrow> Some (x2 # x1 # x2 # x1 # s) | _ \<Rightarrow> None)
      else if n = 111 then (case s of x3 # x2 # x1 # s \<Rightarrow> Some (x3 # x2 # x1 # x3 # x2 # x1 # s) | _ \<Rightarrow> None)
      else if n = 112 then (case s of x4 # x3 # x2 # x1 # s \<Rightarrow> Some (x2 # x1 # x4 # x3 # x2 # x1 # s) | _ \<Rightarrow> None)
      else if n = 113 then (case s of x6 # x5 # x4 # x3 # x2 # x1 # s \<Rightarrow> Some (x2 # x1 # x6 # x5 # x4 # x3 # s) | _ \<Rightarrow> None)
      else if n = 114 then (case s of x4 # x3 # x2 # x1 # s \<Rightarrow> Some (x2 # x1 # x4 # x3 # s) | _ \<Rightarrow> None)
      else if n = 115 then (case s of x # s \<Rightarrow> Some (if script_true x then x # x # s else x # s) | _ \<Rightarrow> None)
      else if n = 116 then Some (intToBufferSM (int (length s)) # s)
      else if n = 117 then (case s of x # s \<Rightarrow> Some s | _ \<Rightarrow> None)
      else if n = 118 then (case s of x # s \<Rightarrow> Some (x # x # s) | _ \<Rightarrow> None)
      else if n = 119 then (case s of x2 # x1 # s \<Rightarrow> Some (x2 # s) | _ \<Rightarrow> None)
      else if n = 120 then (case s of x2 # x1 # s \<Rightarrow> Some (x1 # x2 # x1 # s) | _ \<Rightarrow> None)
      else if n = 121 then (case s of x # s \<Rightarrow> (case castInt x of
          Inr i \<Rightarrow> if 0 \<le> i \<and> i < int (length s) then Some (s ! nat i # s) else None | Inl _ \<Rightarrow> None) | _ \<Rightarrow> None)
      else if n = 122 then (case s of x # s \<Rightarrow> (case castInt x of
          Inr i \<Rightarrow> if 0 \<le> i \<and> i < int (length s) then Some (s ! nat i # take (nat i) s @ drop (nat i + 1) s) else None
        | Inl _ \<Rightarrow> None) | _ \<Rightarrow> None)
      else if n = 123 then (case s of x3 # x2 # x1 # s \<Rightarrow> Some (x1 # x3 # x2 # s) | _ \<Rightarrow> None)
      else if n = 124 then (case s of x2 # x1 # s \<Rightarrow> Some (x1 # x2 # s) | _ \<Rightarrow> None)
      else if n = 125 then (case s of x2 # x1 # s \<Rightarrow> Some (x2 # x1 # x2 # s) | _ \<Rightarrow> None)
      else if n = 130 then (case s of x # s \<Rightarrow> Some (intToBufferSM (int (length x)) # x # s) | _ \<Rightarrow> None)
      else None)"

lemma stackTop_rev: "0 < k \<Longrightarrow> stackTop k (rev t) = (if k \<le> length t then Inr (t ! (k - 1)) else Inl underrun)"
  by (auto simp: stackTop_def rev_nth)

lemma stackPop_rev: "stackPop (rev t) = (case t of x # t' \<Rightarrow> Inr (x, rev t') | [] \<Rightarrow> Inl underrun)"
  by (cases t) (simp_all add: stackPop_def)

lemma push_rev: "push x (rev t) = rev (x # t)"
  by (simp add: push_def)

lemma stackSwap_rev:
  "0 < a \<Longrightarrow> 0 < b \<Longrightarrow> stackSwap a b (rev t) =
    (if length t < a \<or> length t < b then Inl underrun else Inr (rev (t[a - 1 := t ! (b - 1), b - 1 := t ! (a - 1)])))"
  by (auto simp: stackSwap_def rev_nth rev_update Let_def Suc_diff_Suc)

lemma splice_rev: "k + n \<le> length t \<Longrightarrow> splice (length t - k - n) n (rev t) = rev (take k t @ drop (k + n) t)"
  by (simp add: splice_def take_rev drop_rev)

definition stack_res :: "buffer list option \<Rightarrow> stack res \<Rightarrow> bool" where
  "stack_res r s = (case r of Some t \<Rightarrow> s = Inr (rev t) | None \<Rightarrow> (\<exists>e. s = Inl e))"

lemma stack_empty: "stackPop [] = Inl underrun" "0 < k \<Longrightarrow> stackTop k [] = Inl underrun"
  "0 < a \<Longrightarrow> stackSwap a b [] = Inl underrun"
  by (simp_all add: stackPop_def stackTop_def stackSwap_def)

lemma op_stack_effect:
  assumes "is_stack_op n"
  shows "stack_res (stack_effect n t) (op_stack n (rev t))"
proof -
  have n: "n \<in> {109, 110, 111, 112, 113, 114, 115, 116, 117, 118, 119, 120, 121, 122, 123, 124, 125, 130}"
    using assms unfolding is_stack_op_def by (auto simp: less_Suc_eq_le) presburger
  note top = stack_empty stackTop_rev stackPop_rev push_rev stack_res_def op_stack_def stack_effect_def
  from n consider "n = 109" | "n = 110" | "n = 111" | "n = 112" | "n = 113" | "n = 114" | "n = 115" | "n = 116" | "n = 117" |
    "n = 118" | "n = 119" | "n = 120" | (pick) "n = 121 \<or> n = 122" | "n = 123" | "n = 124" | "n = 125" | "n = 130" by auto
  then show ?thesis
  proof cases
    case 1
    then show ?thesis by (simp add: top del: rev.simps split: list.split)
  next
    case 2
    then show ?thesis by (simp add: top op_2dup_def del: rev.simps split: list.split)
  next
    case 3
    then show ?thesis by (simp add: top op_3dup_def del: rev.simps split: list.split)
  next
    case 4
    then show ?thesis by (simp add: top op_2over_def del: rev.simps split: list.split)
  next
    case 5
    then show ?thesis
      by (simp add: top op_2rot_def del: rev.simps split: list.split) (auto simp: splice_def push_def)
  next
    case 6
    then show ?thesis by (simp add: top stackSwap_rev del: rev.simps split: list.split)
  next
    case 7
    then show ?thesis by (simp add: top castBool_iff del: rev.simps split: list.split)
  next
    case 8
    then show ?thesis by (simp add: top del: rev.simps split: list.split)
  next
    case 9
    then show ?thesis by (simp add: top del: rev.simps split: list.split)
  next
    case 10
    then show ?thesis by (simp add: top del: rev.simps split: list.split)
  next
    case 11
    then show ?thesis by (simp add: top splice_def split: list.split)
  next
    case 12
    then show ?thesis by (simp add: top del: rev.simps split: list.split)
  next
    case pick
    show ?thesis
    proof (cases t)
      case Nil
      then show ?thesis using pick by (auto simp: top op_pick_roll_def simp del: rev.simps)
    next
      case (Cons x s)
      have roll: "splice (length s - nat i - 1) 1 (rev s) = rev (take (nat i) s @ drop (nat i + 1) s)" if "i < int (length s)" "0 \<le> i" for i
        using splice_rev [of "nat i" 1 s] that by (simp add: nat_less_iff)
      have top: "stackTop (nat i + 1) (rev s) = Inr (s ! nat i)" if "i < int (length s)" "0 \<le> i" for i
        using stackTop_rev [of "nat i + 1" s] that by simp
      show ?thesis
      proof (cases "castInt x")
        case (Inl e)
        then show ?thesis using pick Cons
          by (auto simp: stack_res_def op_stack_def stack_effect_def op_pick_roll_def stackPop_rev simp del: rev.simps)
      next
        case (Inr i)
        then show ?thesis using pick Cons roll top
          by (auto simp: stack_res_def op_stack_def stack_effect_def op_pick_roll_def stackPop_rev push_def Let_def simp del: rev.simps)
            simp_all
      qed
    qed
  next
    case 14
    then show ?thesis by (simp add: top stackSwap_rev del: rev.simps split: list.split)
  next
    case 15
    then show ?thesis by (simp add: top stackSwap_rev del: rev.simps split: list.split)
  next
    case 16
    then show ?thesis
      by (simp add: top op_tuck_def del: rev.simps split: list.split) (auto simp: nth_append stackTop_def)
  next
    case 17
    then show ?thesis by (simp add: top del: rev.simps split: list.split)
  qed
qed

lemma stack_op_range: "is_stack_op n \<Longrightarrow> 96 < n \<and> n < 172 \<and> \<not> disabled_opcode n \<and> \<not> is_constant n \<and> \<not> is_nop n \<and> \<not> is_flow n \<and> n \<noteq> 107 \<and> n \<noteq> 108"
  by (auto simp: is_stack_op_def disabled_opcode_def is_constant_def is_nop_def is_flow_def)

section \<open>What a successful evaluation has checked\<close>
















section \<open>Properties\<close>

text \<open>A stack opcode that is allowed by the count of operations runs, or is skipped with its branch.\<close>

lemma eval_step_stack_op:
  fixes m :: machine
  assumes "bs_chunks script ! pc = Op n" "is_stack_op n"
  defines "m1 \<equiv> m\<lparr>mc_opCount := mc_opCount m + 1\<rparr>"
  shows "eval_step env script pc m =
    (if mc_opCount m \<ge> 201 then Inl (JsError ''Opcode limit exceeded (>200)'')
     else if False \<in> set (mc_exec m) then check_size m1
     else rbind (with_stack (op_stack n (mc_stack m)) m1) check_size)"
proof -
  note n = stack_op_range [OF assms(2)]
  have run: "run_opcode env (pc + 1) n True m1 = with_stack (op_stack n (mc_stack m)) m1"
    using n assms(2) by (simp add: run_opcode_def m1_def)
  have flow: "\<not> (99 \<le> n \<and> n \<le> 104)" using assms(2) by (auto simp: is_stack_op_def)
  have c: "counted (Op n) = 1" "loose_gt (Some (Op n)) 96" using n by (simp_all add: counted_op loose_gt_def)
  show ?thesis
  proof (cases "False \<in> set (mc_exec m)")
    case True
    have flow: "(99 \<le> n \<and> n \<le> 104) = False" using flow by blast
    show ?thesis using True n c unfolding eval_step_def Let_def assms(1) count_chunk m1_def by (simp add: flow)
  next
    case False
    then show ?thesis using n c run unfolding eval_step_def Let_def assms(1) count_chunk m1_def by simp
  qed
qed

text \<open>C28: each of the 18 stack opcodes does to the stack what Bitcoin documents, moving, copying or removing
  the elements it names and nothing else; in a branch that does not run it leaves the stack alone. It
  fails exactly if 201 operations were counted before, there are too few elements, the number of \<open>OP_PICK\<close>
  or \<open>OP_ROLL\<close> is no script number in range, or the stacks then have more than 1000 elements.\<close>

theorem stack_opcodes_exact:
  assumes "bs_chunks script ! pc = Op n" "is_stack_op n"
  shows "eval_step env script pc m = Inr m' \<longleftrightarrow>
    (\<exists>t. (if False \<in> set (mc_exec m) then t = rev (mc_stack m) else stack_effect n (rev (mc_stack m)) = Some t) \<and>
       mc_opCount m < 201 \<and> length t + length (mc_alt m) \<le> 1000 \<and>
       m' = m\<lparr>mc_stack := rev t, mc_opCount := mc_opCount m + 1\<rparr>)"
proof -
  have "stack_res (stack_effect n (rev (mc_stack m))) (op_stack n (mc_stack m))"
    using op_stack_effect [OF assms(2), of "rev (mc_stack m)"] by simp
  moreover have "m\<lparr>mc_opCount := k\<rparr> = m\<lparr>mc_stack := mc_stack m, mc_opCount := k\<rparr>" for k by simp
  ultimately show ?thesis
    unfolding eval_step_stack_op [OF assms]
    by (cases "stack_effect n (rev (mc_stack m))") (auto simp: stack_res_def with_stack_def)
qed

theorem stack_opcodes_exact_witness:
  "\<forall>env. eval_step env (fromChunks [Op 123]) 0 (start_machine [[1], [2], [3]]) =
     Inr (start_machine [[1], [2], [3]]\<lparr>mc_stack := [[2], [3], [1]], mc_opCount := 1\<rparr>)"
proof
  fix env
  have c: "bs_chunks (fromChunks [Op 123]) ! 0 = Op 123" by (simp add: fromChunks_def updateBuffer_def)
  have "stack_effect 123 (rev [[1], [2], [3]]) = Some [[1], [3], [2 :: byte]]" by (simp add: stack_effect_def)
  then show "eval_step env (fromChunks [Op 123]) 0 (start_machine [[1], [2], [3]]) =
      Inr (start_machine [[1], [2], [3]]\<lparr>mc_stack := [[2], [3], [1]], mc_opCount := 1\<rparr>)"
    using stack_opcodes_exact [OF c, of env "start_machine [[1], [2], [3]]"] by (simp add: is_stack_op_def start_machine_def)
qed



end
