(* ===== verification/Bip39.thy ===== *)
theory Bip39
  imports Complex_Main Asm
begin

text \<open>
  \<open>bip39/index.js\<close>: mnemonic sentences of entropy. The hash function, the key derivation and the
  text normalisation come from packages (create-hash, pbkdf2, unorm) and are arguments; so is the
  word list, which is an argument in the source too. The binary digits are text, as in the source.
\<close>

section \<open>Binary text\<close>

text \<open>\<open>n.toString(2)\<close> and \<open>parseInt(text, 2)\<close> of a text of binary digits that is not empty.\<close>

definition bin_digit :: "nat \<Rightarrow> char" where
  "bin_digit b = (if b = 0 then CHR ''0'' else CHR ''1'')"

fun toString2 :: "nat \<Rightarrow> string" where
  "toString2 n = (if n < 2 then [bin_digit n] else toString2 (n div 2) @ [bin_digit (n mod 2)])"

declare toString2.simps [simp del]

definition parseInt2 :: "string \<Rightarrow> nat" where
  "parseInt2 s = foldl (\<lambda>n c. 2 * n + (if c = CHR ''1'' then 1 else 0)) 0 s"

text \<open>The padding is a single character in every call.\<close>

function lpad :: "string \<Rightarrow> char \<Rightarrow> nat \<Rightarrow> string" where
  "lpad str padString len = (if length str < len then lpad (padString # str) padString len else str)"
  by pat_completeness auto
termination by (relation "measure (\<lambda>(str, _, len). len - length str)") auto

declare lpad.simps [simp del]

definition bytesToBinary :: "buffer \<Rightarrow> string" where
  "bytesToBinary bytes = concat (map (\<lambda>x. lpad (toString2 (unat x)) (CHR ''0'') 8) bytes)"

text \<open>\<open>bits.match(/(.{1,n})/g)\<close>, which is \<open>null\<close> when there is nothing to match.\<close>

function chunks_of :: "nat \<Rightarrow> 'a list \<Rightarrow> 'a list list" where
  "chunks_of n xs = (if xs = [] \<or> n = 0 then [] else take n xs # chunks_of n (drop n xs))"
  by pat_completeness auto
termination by (relation "measure (\<lambda>(n, xs). length xs)") auto

declare chunks_of.simps [simp del]

definition match_chunks :: "nat \<Rightarrow> string \<Rightarrow> string list res" where
  "match_chunks n bits =
     (if bits = [] then Inl (JsTypeError ''Cannot read property map of null'') else Inr (chunks_of n bits))"

section \<open>Mnemonics\<close>

text \<open>\<open>bytes.slice(0, CS)\<close> truncates the fraction \<open>CS = ENT / 32\<close> may have.\<close>

definition checksumBits :: "(buffer \<Rightarrow> buffer) \<Rightarrow> buffer \<Rightarrow> string" where
  "checksumBits sha256 entropyBuffer =
     (let hash = sha256 entropyBuffer; ENT = length entropyBuffer * 8; CS = ENT div 32
      in take CS (bytesToBinary hash))"

primrec indexOf :: "'a list \<Rightarrow> 'a \<Rightarrow> nat option" where
  "indexOf [] w = None"
| "indexOf (x # xs) w = (if x = w then Some 0 else map_option Suc (indexOf xs w))"

definition mnemonicToEntropy :: "(buffer \<Rightarrow> buffer) \<Rightarrow> string list \<Rightarrow> string \<Rightarrow> string res" where
  "mnemonicToEntropy sha256 wordlist mnemonic =
     (let words = split_space mnemonic in
      if length words mod 3 \<noteq> 0 then Inl (JsAssert ''Invalid mnemonic'')
      else if \<not> list_all (\<lambda>word. indexOf wordlist word \<noteq> None) words then Inl (JsAssert ''Invalid mnemonic'')
      else
        let bits = concat (map (\<lambda>word. lpad (toString2 (the (indexOf wordlist word))) (CHR ''0'') 11) words);
            dividerIndex = length bits div 33 * 32;
            entropy = take dividerIndex bits;
            checksum = drop dividerIndex bits in
        rbind (match_chunks 8 entropy) (\<lambda>bins.
          let entropyBuffer = map (\<lambda>bin. word_of_nat (parseInt2 bin)) bins;
              newChecksum = checksumBits sha256 entropyBuffer in
          if newChecksum \<noteq> checksum then Inl (JsAssert ''Invalid mnemonic checksum'')
          else Inr (to_hex entropyBuffer)))"

text \<open>An index beyond the list gives \<open>undefined\<close>, which \<open>join\<close> writes as nothing.\<close>

definition entropyToMnemonic :: "(buffer \<Rightarrow> buffer) \<Rightarrow> string list \<Rightarrow> string \<Rightarrow> string res" where
  "entropyToMnemonic sha256 wordlist entropy =
     rbind (from_hex entropy) (\<lambda>entropyBuffer.
       let entropyBits = bytesToBinary entropyBuffer;
           checksum = checksumBits sha256 entropyBuffer;
           bits = entropyBits @ checksum in
       rbind (match_chunks 11 bits) (\<lambda>chunks.
         let words = map (\<lambda>binary. let index = parseInt2 binary in
                      if index < length wordlist then wordlist ! index else '''') chunks
         in Inr (join_space words)))"

text \<open>The random number generator is asked for \<open>strength / 8\<close> bytes.\<close>

definition generateMnemonic ::
    "(buffer \<Rightarrow> buffer) \<Rightarrow> (rat \<Rightarrow> buffer) \<Rightarrow> string list \<Rightarrow> nat option \<Rightarrow> string res" where
  "generateMnemonic sha256 rng wordlist strength =
     (let strength = (case strength of None \<Rightarrow> 128 | Some s \<Rightarrow> if s = 0 then 128 else s);
          hex = to_hex (rng (of_nat strength / 8))
      in entropyToMnemonic sha256 wordlist hex)"

definition validateMnemonic :: "(buffer \<Rightarrow> buffer) \<Rightarrow> string list \<Rightarrow> string \<Rightarrow> bool" where
  "validateMnemonic sha256 wordlist mnemonic =
     (case mnemonicToEntropy sha256 wordlist mnemonic of Inl _ \<Rightarrow> False | Inr _ \<Rightarrow> True)"

section \<open>Seeds\<close>

definition salt :: "(string option \<Rightarrow> string option) \<Rightarrow> string option \<Rightarrow> string" where
  "salt nfkd password = ''mnemonic'' @ (case nfkd password of Some p \<Rightarrow> p | None \<Rightarrow> '''')"

definition mnemonicToSeed ::
    "(string \<Rightarrow> buffer) \<Rightarrow> (buffer \<Rightarrow> buffer \<Rightarrow> nat \<Rightarrow> nat \<Rightarrow> string \<Rightarrow> buffer) \<Rightarrow> (string option \<Rightarrow> string option) \<Rightarrow>
     string \<Rightarrow> string option \<Rightarrow> buffer" where
  "mnemonicToSeed utf8 pbkdf2 nfkd mnemonic password =
     (let mnemonicBuffer = utf8 mnemonic; saltBuffer = utf8 (salt nfkd password)
      in pbkdf2 mnemonicBuffer saltBuffer 2048 64 ''sha512'')"

definition mnemonicToSeedHex ::
    "(string \<Rightarrow> buffer) \<Rightarrow> (buffer \<Rightarrow> buffer \<Rightarrow> nat \<Rightarrow> nat \<Rightarrow> string \<Rightarrow> buffer) \<Rightarrow> (string option \<Rightarrow> string option) \<Rightarrow>
     string \<Rightarrow> string option \<Rightarrow> string" where
  "mnemonicToSeedHex utf8 pbkdf2 nfkd mnemonic password = to_hex (mnemonicToSeed utf8 pbkdf2 nfkd mnemonic password)"

section \<open>Fixed-width binary text\<close>

primrec fixed :: "nat \<Rightarrow> nat \<Rightarrow> string" where
  "fixed 0 n = []"
| "fixed (Suc k) n = fixed k (n div 2) @ [bin_digit (n mod 2)]"

definition binary :: "string \<Rightarrow> bool" where
  "binary s \<longleftrightarrow> set s \<subseteq> {CHR ''0'', CHR ''1''}"

lemma binary_simps [simp]: "binary []" "binary (c # s) \<longleftrightarrow> c \<in> {CHR ''0'', CHR ''1''} \<and> binary s"
    "binary (s @ t) \<longleftrightarrow> binary s \<and> binary t" "binary (concat ss) \<longleftrightarrow> list_all binary ss"
  by (auto simp: binary_def list_all_iff)

lemma binary_take: "binary s \<Longrightarrow> binary (take n s)" "binary s \<Longrightarrow> binary (drop n s)"
  by (meson binary_def set_take_subset set_drop_subset subset_trans)+

lemma binary_fixed [simp]: "binary (fixed k n)"
  by (induction k arbitrary: n) (simp_all add: bin_digit_def)

lemma length_fixed [simp]: "length (fixed k n) = k"
  by (induction k arbitrary: n) simp_all

lemma fixed_0: "fixed k 0 = replicate k (CHR ''0'')"
  by (induction k) (simp_all add: bin_digit_def replicate_append_same)

lemma fixed_toString2: "length (toString2 n) \<le> k \<Longrightarrow> fixed k n = replicate (k - length (toString2 n)) (CHR ''0'') @ toString2 n"
proof (induction n arbitrary: k rule: toString2.induct)
  case (1 n)
  then obtain j where k: "k = Suc j" by (cases k) (auto simp: toString2.simps [of n] split: if_splits)
  show ?case
  proof (cases "n < 2")
    case True
    then have "n div 2 = 0" "n mod 2 = n" by simp_all
    then show ?thesis using True k by (simp add: toString2.simps [of n] fixed_0)
  next
    case False
    then have "length (toString2 (n div 2)) \<le> j" using 1(2) k by (simp add: toString2.simps [of n])
    then show ?thesis using 1(1) False k by (simp add: toString2.simps [of n])
  qed
qed

lemma length_toString2: "n < 2 ^ k \<Longrightarrow> 0 < k \<Longrightarrow> length (toString2 n) \<le> k"
proof (induction n arbitrary: k rule: toString2.induct)
  case (1 n)
  show ?case
  proof (cases "n < 2")
    case False
    then obtain j where "k = Suc j" "0 < j" using 1(2,3) by (cases k; cases "k - 1") auto
    then show ?thesis using 1 False by (simp add: toString2.simps [of n] less_mult_imp_div_less mult.commute)
  qed (use 1 in \<open>simp add: toString2.simps [of n]\<close>)
qed

lemma lpad_replicate: "lpad s c n = replicate (n - length s) c @ s"
proof (induction s c n rule: lpad.induct)
  case (1 s c n)
  then show ?case
    by (cases "length s < n") (auto simp: lpad.simps [of s] replicate_append_same Suc_diff_Suc [symmetric])
qed

lemma lpad_fixed: "n < 2 ^ k \<Longrightarrow> 0 < k \<Longrightarrow> lpad (toString2 n) (CHR ''0'') k = fixed k n"
  by (simp add: lpad_replicate fixed_toString2 length_toString2)

lemma parseInt2_fixed [simp]: "n < 2 ^ k \<Longrightarrow> parseInt2 (fixed k n) = n"
proof (induction k arbitrary: n)
  case (Suc k)
  then have "n div 2 < 2 ^ k" by auto
  then show ?case using Suc.IH [of "n div 2"] by (simp add: parseInt2_def bin_digit_def) presburger
qed (simp add: parseInt2_def)

lemma parseInt2_snoc: "parseInt2 (s @ [c]) = 2 * parseInt2 s + (if c = CHR ''1'' then 1 else 0)"
  by (simp add: parseInt2_def)

lemma parseInt2_bound: "parseInt2 s < 2 ^ length s"
  by (induction s rule: rev_induct) (auto simp: parseInt2_snoc parseInt2_def [of "[]"])

lemma fixed_parseInt2 [simp]: "binary s \<Longrightarrow> length s = k \<Longrightarrow> fixed k (parseInt2 s) = s"
  by (induction s arbitrary: k rule: rev_induct) (auto simp: parseInt2_snoc bin_digit_def)

section \<open>Chunks\<close>

lemma chunks_of_Nil [simp]: "chunks_of n [] = []"
  by (simp add: chunks_of.simps)

lemma concat_chunks_of [simp]: "0 < n \<Longrightarrow> concat (chunks_of n xs) = xs"
  by (induction n xs rule: chunks_of.induct) (subst chunks_of.simps, simp)

lemma chunks_of_concat: "0 < n \<Longrightarrow> list_all (\<lambda>c. length c = n) cs \<Longrightarrow> chunks_of n (concat cs) = cs"
proof (induction cs)
  case (Cons c cs)
  then have "c \<noteq> []" "length c = n" "chunks_of n (concat cs) = cs" by auto
  then show ?case using Cons.prems(1) by (simp add: chunks_of.simps [of n "c @ concat cs"])
qed simp

lemma chunks_of_length: "0 < n \<Longrightarrow> n dvd length xs \<Longrightarrow> list_all (\<lambda>c. length c = n) (chunks_of n xs)"
proof (induction n xs rule: chunks_of.induct)
  case (1 n xs)
  show ?case
  proof (cases "xs = []")
    case False
    then have "n \<le> length xs" "n dvd length (drop n xs)" using 1(2,3) by (auto dest: dvd_imp_le)
    then show ?thesis using 1 False by (subst chunks_of.simps) simp
  qed simp
qed

lemma chunks_of_count: "0 < n \<Longrightarrow> n dvd length xs \<Longrightarrow> length (chunks_of n xs) * n = length xs"
proof -
  assume n: "0 < n" "n dvd length xs"
  have "length (concat cs) = length cs * n" if "list_all (\<lambda>c. length c = n) cs" for cs :: "'a list list"
    using that by (induction cs) simp_all
  from this [OF chunks_of_length [OF n]] show ?thesis using n by simp
qed

lemma chunks_of_binary: "0 < n \<Longrightarrow> binary s \<Longrightarrow> list_all binary (chunks_of n s)"
  by (metis binary_simps(4) concat_chunks_of)

lemma length_concat_fixed: "length (concat (map (\<lambda>x. fixed k (f x)) xs)) = k * length xs"
  by (induction xs) simp_all

text \<open>Writing and reading a list of numbers at a fixed width.\<close>

lemma read_fixed:
  "0 < k \<Longrightarrow> list_all (\<lambda>x. f x < 2 ^ k) xs \<Longrightarrow>
     map parseInt2 (chunks_of k (concat (map (\<lambda>x. fixed k (f x)) xs))) = map f xs"
  by (simp add: chunks_of_concat list_all_iff comp_def)

lemma parseInt2_chunks:
  "list_all (\<lambda>c. length c = k) cs \<Longrightarrow> list_all (\<lambda>i. i < 2 ^ k) (map parseInt2 cs)"
  using parseInt2_bound by (auto simp: list_all_iff)

lemma write_fixed:
  assumes "0 < k" "k dvd length s" "binary s"
  shows "concat (map (\<lambda>c. fixed k (parseInt2 c)) (chunks_of k s)) = s"
proof -
  have "map (\<lambda>c. fixed k (parseInt2 c)) (chunks_of k s) = chunks_of k s"
    using chunks_of_length [OF assms(1,2)] chunks_of_binary [OF assms(1,3)]
    by (intro map_idI) (auto simp: list_all_iff)
  then show ?thesis using assms(1) by simp
qed

lemma bytesToBinary_fixed: "bytesToBinary b = concat (map (\<lambda>x. fixed 8 (unat x)) b)"
proof -
  have "lpad (toString2 (unat x)) (CHR ''0'') 8 = fixed 8 (unat x)" for x :: byte
    by (rule lpad_fixed) simp_all
  then show ?thesis by (simp add: bytesToBinary_def)
qed

lemma length_bytesToBinary [simp]: "length (bytesToBinary b) = 8 * length b"
  by (simp add: bytesToBinary_fixed length_concat_fixed)

lemma binary_bytesToBinary [simp]: "binary (bytesToBinary b)"
  by (simp add: bytesToBinary_fixed list_all_iff)

lemma bytes_of_bits [simp]: "map (\<lambda>bin. word_of_nat (parseInt2 bin)) (chunks_of 8 (bytesToBinary b)) = b"
proof -
  have "map parseInt2 (chunks_of 8 (bytesToBinary b)) = map unat b"
    unfolding bytesToBinary_fixed by (rule read_fixed) (simp_all add: list_all_iff)
  then have "map word_of_nat (map parseInt2 (chunks_of 8 (bytesToBinary b))) = b" by (simp add: map_idI)
  then show ?thesis by (simp add: comp_def)
qed

lemma bits_of_bytes: "8 dvd length s \<Longrightarrow> binary s \<Longrightarrow>
    bytesToBinary (map (\<lambda>bin. word_of_nat (parseInt2 bin)) (chunks_of 8 s)) = s"
proof -
  assume s: "8 dvd length s" "binary s"
  have "unat (word_of_nat (parseInt2 c) :: byte) = parseInt2 c" if "c \<in> set (chunks_of 8 s)" for c
  proof -
    have "length c = 8" using chunks_of_length [of 8 s] s(1) that by (auto simp: list_all_iff)
    then show ?thesis using parseInt2_bound [of c] by simp
  qed
  then have "bytesToBinary (map (\<lambda>bin. word_of_nat (parseInt2 bin)) (chunks_of 8 s)) =
      concat (map (\<lambda>c. fixed 8 (parseInt2 c)) (chunks_of 8 s))"
    by (simp add: bytesToBinary_fixed comp_def cong: map_cong)
  then show ?thesis using write_fixed [OF _ s] by simp
qed

section \<open>Word lists\<close>

lemma indexOf_Some: "indexOf xs w = Some i \<Longrightarrow> i < length xs \<and> xs ! i = w"
  by (induction xs arbitrary: i) (auto split: if_splits)

lemma indexOf_nth: "distinct xs \<Longrightarrow> i < length xs \<Longrightarrow> indexOf xs (xs ! i) = Some i"
  by (induction xs arbitrary: i) (auto simp: nth_Cons split: nat.splits)

lemma join_split: "join_space (split_space s) = s"
proof (induction s)
  case (Cons c cs)
  then show ?case by (cases "split_space cs"; cases "tl (split_space cs)") auto
qed simp

lemma split_space_Cons: "split_space s \<noteq> []"
  by (induction s) (auto split: list.splits)

text \<open>What the code relies on of a word list: an index of 11 bits names one word, and no word
  contains the separator.\<close>

definition valid_entropy :: "(buffer \<Rightarrow> buffer) \<Rightarrow> buffer \<Rightarrow> bool" where
  "valid_entropy sha256 e \<longleftrightarrow> e \<noteq> [] \<and> 4 dvd length e \<and> length e div 4 \<le> 8 * length (sha256 e)"

locale word_list =
  fixes wordlist :: "string list"
  assumes size_2048: "length wordlist = 2048"
    and distinct_words: "distinct wordlist"
    and no_separator: "list_all (\<lambda>w. CHR '' '' \<notin> set w) wordlist"
begin

lemma word_bits:
  "list_all (\<lambda>i. i < 2048) is \<Longrightarrow>
     concat (map (\<lambda>word. lpad (toString2 (the (indexOf wordlist word))) (CHR ''0'') 11) (map ((!) wordlist) is)) =
     concat (map (fixed 11) is)"
proof -
  assume "list_all (\<lambda>i. i < 2048) is"
  then have "lpad (toString2 (the (indexOf wordlist (wordlist ! i)))) (CHR ''0'') 11 = fixed 11 i" if "i \<in> set is" for i
    using that by (simp add: indexOf_nth distinct_words size_2048 list_all_iff lpad_fixed)
  then show ?thesis by (simp add: comp_def cong: map_cong)
qed

lemma words_indices: "list_all (\<lambda>w. indexOf wordlist w \<noteq> None) words \<Longrightarrow>
    \<exists>is. words = map ((!) wordlist) is \<and> list_all (\<lambda>i. i < 2048) is"
proof (induction words)
  case (Cons w words)
  then obtain "is" i where "words = map ((!) wordlist) is" "list_all (\<lambda>i. i < 2048) is" "indexOf wordlist w = Some i" by auto
  moreover from this(3) have "i < 2048 \<and> wordlist ! i = w" using indexOf_Some [of wordlist w i] size_2048 by simp
  ultimately show ?case by (intro exI [of _ "i # is"]) simp
qed simp

lemma split_join_words:
  "is \<noteq> [] \<Longrightarrow> list_all (\<lambda>i. i < 2048) is \<Longrightarrow> split_space (join_space (map ((!) wordlist) is)) = map ((!) wordlist) is"
  using no_separator size_2048 by (intro split_join) (auto simp: list_all_iff)

lemma decode_words:
  assumes "is \<noteq> []" "list_all (\<lambda>i. i < 2048) is" "3 dvd length is"
    and "bits = concat (map (fixed 11) is)" "d = length bits div 33 * 32"
    and "e = map (\<lambda>bin. word_of_nat (parseInt2 bin)) (chunks_of 8 (take d bits))"
  shows "mnemonicToEntropy sha256 wordlist (join_space (map ((!) wordlist) is)) =
    (if checksumBits sha256 e \<noteq> drop d bits then Inl (JsAssert ''Invalid mnemonic checksum'') else Inr (to_hex e))"
proof -
  have all: "list_all (\<lambda>w. indexOf wordlist w \<noteq> None) (map ((!) wordlist) is)"
    using assms(2) by (simp add: list_all_iff indexOf_nth distinct_words size_2048)
  obtain j where j: "length is = 3 * Suc j" using assms(1,3) by (metis dvdE length_0_conv mult_0_right not0_implies_Suc)
  have "length bits = 11 * length is" using length_concat_fixed [of 11 "\<lambda>x. x" "is"] by (simp add: assms(4))
  then have "length (take d bits) \<noteq> 0" using j by (simp add: assms(5))
  then have "take d bits \<noteq> []" unfolding length_0_conv .
  then have m: "match_chunks 8 (take d bits) = Inr (chunks_of 8 (take d bits))" by (simp add: match_chunks_def)
  show ?thesis
    unfolding mnemonicToEntropy_def split_join_words [OF assms(1,2)] Let_def word_bits [OF assms(2)]
      assms(4) [symmetric] assms(5) [symmetric] m rbind_simps assms(6) [symmetric]
    using all assms(3) by simp
qed

text \<open>Encoding, then decoding.\<close>

lemma mnemonic_of_entropy:
  assumes "valid_entropy sha256 e"
  shows "\<exists>m. entropyToMnemonic sha256 wordlist (to_hex e) = Inr m \<and>
           mnemonicToEntropy sha256 wordlist m = Inr (to_hex e)"
proof -
  obtain j where j: "length e = 4 * Suc j" "Suc j \<le> 8 * length (sha256 e)"
  proof -
    obtain k where "length e = 4 * k" using assms by (auto simp: valid_entropy_def)
    moreover from this obtain j where "k = Suc j" using assms by (cases k) (auto simp: valid_entropy_def)
    ultimately show ?thesis using assms that by (simp add: valid_entropy_def)
  qed
  let ?bits = "bytesToBinary e @ checksumBits sha256 e" and ?d = "32 * Suc j"
  have cs: "length (checksumBits sha256 e) = Suc j" "binary (checksumBits sha256 e)"
    using j by (simp_all add: checksumBits_def Let_def binary_take)
  have len: "length ?bits = 33 * Suc j" using j cs by simp
  have bin: "binary ?bits" using cs by simp
  have dv: "11 dvd length ?bits" unfolding len by (rule dvd_trans [of 11 33]) simp_all
  note chunks = chunks_of_length [OF _ dv, simplified] chunks_of_count [OF _ dv]
  let ?is = "map parseInt2 (chunks_of 11 ?bits)"
  have small: "list_all (\<lambda>i. i < 2048) ?is"
    using parseInt2_chunks [OF chunks(1)] by simp
  have "length ?is * 11 = 11 * (3 * Suc j)" using chunks(2) len by simp
  then have n: "length ?is = 3 * Suc j" by simp
  then have ne: "?is \<noteq> []" by auto
  have "length ?bits \<noteq> 0" unfolding len by simp
  then have "?bits \<noteq> []" unfolding length_0_conv .
  then have "match_chunks 11 ?bits = Inr (chunks_of 11 ?bits)" by (simp add: match_chunks_def)
  moreover have "map (\<lambda>binary. let index = parseInt2 binary in if index < length wordlist then wordlist ! index else '''')
      (chunks_of 11 ?bits) = map ((!) wordlist) ?is"
    using small by (simp add: size_2048 list_all_iff Let_def)
  ultimately have enc: "entropyToMnemonic sha256 wordlist (to_hex e) = Inr (join_space (map ((!) wordlist) ?is))"
    unfolding entropyToMnemonic_def by (simp only: from_hex_to_hex rbind_simps Let_def)
  have bits: "?bits = concat (map (fixed 11) ?is)"
    using write_fixed [OF _ dv bin] by (simp add: comp_def)
  have d: "?d = length ?bits div 33 * 32" unfolding len by simp
  have td: "take ?d ?bits = bytesToBinary e" "drop ?d ?bits = checksumBits sha256 e" using j by simp_all
  have e: "e = map (\<lambda>bin. word_of_nat (parseInt2 bin)) (chunks_of 8 (take ?d ?bits))" by (simp only: td bytes_of_bits)
  have "3 dvd length ?is" unfolding n by simp
  from decode_words [OF ne small this bits d e, of sha256] have
    "mnemonicToEntropy sha256 wordlist (join_space (map ((!) wordlist) ?is)) = Inr (to_hex e)"
    unfolding td by simp
  then show ?thesis using enc by blast
qed

text \<open>Decoding, then encoding.\<close>

lemma encode_decode:
  assumes "mnemonicToEntropy sha256 wordlist m = Inr h"
  shows "\<exists>e. h = to_hex e \<and> valid_entropy sha256 e \<and> entropyToMnemonic sha256 wordlist h = Inr m"
proof -
  have "3 dvd length (split_space m)" "list_all (\<lambda>w. indexOf wordlist w \<noteq> None) (split_space m)"
    using assms by (auto simp: mnemonicToEntropy_def Let_def split: if_splits)
  moreover from words_indices [OF this(2)] obtain "is" where
    words: "split_space m = map ((!) wordlist) is" and small: "list_all (\<lambda>i. i < 2048) is" by blast
  ultimately have dv: "3 dvd length is" by simp
  have ne: "is \<noteq> []" using words split_space_Cons [of m] by auto
  have m: "m = join_space (map ((!) wordlist) is)" using join_split [of m] words by simp
  let ?bits = "concat (map (fixed 11) is)"
  obtain j where j: "length is = 3 * Suc j" using ne dv by (metis dvdE length_0_conv mult_0_right not0_implies_Suc)
  have len: "length ?bits = 33 * Suc j" using length_concat_fixed [of 11 "\<lambda>x. x" "is"] j by simp
  have bin: "binary ?bits" by (simp add: list_all_iff)
  let ?d = "length ?bits div 33 * 32"
  have d: "?d = 32 * Suc j" unfolding len by simp
  define e :: buffer where e: "e = map (\<lambda>bin. word_of_nat (parseInt2 bin)) (chunks_of 8 (take ?d ?bits))"
  have dec: "checksumBits sha256 e = drop ?d ?bits" "h = to_hex e"
    using decode_words [OF ne small dv refl refl e, of sha256] assms unfolding m by (auto split: if_splits)
  have lt: "length (take ?d ?bits) = 32 * Suc j" unfolding d length_take len by simp
  have ent: "bytesToBinary e = take ?d ?bits"
    unfolding e by (rule bits_of_bytes) (simp_all only: lt binary_take(1) bin, simp)
  have "8 * length e = length (take ?d ?bits)" using arg_cong [OF ent, of length] by simp
  then have le: "length e = 4 * Suc j" unfolding lt by simp
  have "length (checksumBits sha256 e) = Suc j" unfolding dec(1) d length_drop len by simp
  then have "Suc j \<le> 8 * length (sha256 e)" using le by (simp add: checksumBits_def Let_def)
  then have "valid_entropy sha256 e" using le by (auto simp: valid_entropy_def)
  moreover have "entropyToMnemonic sha256 wordlist h = Inr m"
  proof -
    have bits: "bytesToBinary e @ checksumBits sha256 e = ?bits" by (simp only: ent dec(1) append_take_drop_id)
    have p: "map parseInt2 (chunks_of 11 ?bits) = is"
      using read_fixed [of 11 "\<lambda>i. i" "is"] small by (simp add: list_all_iff)
    have "map (\<lambda>binary. let index = parseInt2 binary in if index < length wordlist then wordlist ! index else '''')
        (chunks_of 11 ?bits) = map (\<lambda>i. if i < length wordlist then wordlist ! i else '''') (map parseInt2 (chunks_of 11 ?bits))"
      by (simp add: Let_def)
    also have "\<dots> = map ((!) wordlist) is" unfolding p using small by (simp add: size_2048 list_all_iff)
    finally have w: "map (\<lambda>binary. let index = parseInt2 binary in if index < length wordlist then wordlist ! index else '''')
        (chunks_of 11 ?bits) = map ((!) wordlist) is" .
    have "length ?bits \<noteq> 0" unfolding len by simp
    then have "?bits \<noteq> []" unfolding length_0_conv .
    then have mc: "match_chunks 11 ?bits = Inr (chunks_of 11 ?bits)" by (simp only: match_chunks_def if_False)
    show ?thesis
      unfolding entropyToMnemonic_def dec(2) from_hex_to_hex rbind_simps
      using w by (simp only: m Let_def bits mc rbind_simps)
  qed
  ultimately show ?thesis using dec(2) by blast
qed

end

end
