(* ===== verification/Wordlist_En.thy ===== *)
theory Wordlist_En
  imports Bip39
begin

text \<open>
  \<open>bip39/wordlists/en.json\<close>, the word list mnemonics are made of by default, and the proof that it
  is what the code needs: 2048 different words without spaces. The list is alphabetical, so one
  pass over neighbours shows that no word occurs twice.
\<close>

section \<open>The words\<close>

definition en_0 :: "string list" where
  "en_0 = [
    ''abandon'', ''ability'', ''able'', ''about'', ''above'', ''absent'', ''absorb'', ''abstract'',
    ''absurd'', ''abuse'', ''access'', ''accident'', ''account'', ''accuse'', ''achieve'', ''acid'',
    ''acoustic'', ''acquire'', ''across'', ''act'', ''action'', ''actor'', ''actress'', ''actual'',
    ''adapt'', ''add'', ''addict'', ''address'', ''adjust'', ''admit'', ''adult'', ''advance'', ''advice'',
    ''aerobic'', ''affair'', ''afford'', ''afraid'', ''again'', ''age'', ''agent'', ''agree'', ''ahead'',
    ''aim'', ''air'', ''airport'', ''aisle'', ''alarm'', ''album'', ''alcohol'', ''alert'', ''alien'',
    ''all'', ''alley'', ''allow'', ''almost'', ''alone'', ''alpha'', ''already'', ''also'', ''alter'',
    ''always'', ''amateur'', ''amazing'', ''among'', ''amount'', ''amused'', ''analyst'', ''anchor'',
    ''ancient'', ''anger'', ''angle'', ''angry'', ''animal'', ''ankle'', ''announce'', ''annual'',
    ''another'', ''answer'', ''antenna'', ''antique'', ''anxiety'', ''any'', ''apart'', ''apology'',
    ''appear'', ''apple'', ''approve'', ''april'', ''arch'', ''arctic'', ''area'', ''arena'', ''argue'',
    ''arm'', ''armed'', ''armor'', ''army'', ''around'', ''arrange'', ''arrest'', ''arrive'', ''arrow'',
    ''art'', ''artefact'', ''artist'', ''artwork'', ''ask'', ''aspect'', ''assault'', ''asset'', ''assist'',
    ''assume'', ''asthma'', ''athlete'', ''atom'', ''attack'', ''attend'', ''attitude'', ''attract'',
    ''auction'', ''audit'', ''august'', ''aunt'', ''author'', ''auto'', ''autumn'', ''average'', ''avocado'']"

definition en_1 :: "string list" where
  "en_1 = [
    ''avoid'', ''awake'', ''aware'', ''away'', ''awesome'', ''awful'', ''awkward'', ''axis'', ''baby'',
    ''bachelor'', ''bacon'', ''badge'', ''bag'', ''balance'', ''balcony'', ''ball'', ''bamboo'', ''banana'',
    ''banner'', ''bar'', ''barely'', ''bargain'', ''barrel'', ''base'', ''basic'', ''basket'', ''battle'',
    ''beach'', ''bean'', ''beauty'', ''because'', ''become'', ''beef'', ''before'', ''begin'', ''behave'',
    ''behind'', ''believe'', ''below'', ''belt'', ''bench'', ''benefit'', ''best'', ''betray'', ''better'',
    ''between'', ''beyond'', ''bicycle'', ''bid'', ''bike'', ''bind'', ''biology'', ''bird'', ''birth'',
    ''bitter'', ''black'', ''blade'', ''blame'', ''blanket'', ''blast'', ''bleak'', ''bless'', ''blind'',
    ''blood'', ''blossom'', ''blouse'', ''blue'', ''blur'', ''blush'', ''board'', ''boat'', ''body'',
    ''boil'', ''bomb'', ''bone'', ''bonus'', ''book'', ''boost'', ''border'', ''boring'', ''borrow'',
    ''boss'', ''bottom'', ''bounce'', ''box'', ''boy'', ''bracket'', ''brain'', ''brand'', ''brass'',
    ''brave'', ''bread'', ''breeze'', ''brick'', ''bridge'', ''brief'', ''bright'', ''bring'', ''brisk'',
    ''broccoli'', ''broken'', ''bronze'', ''broom'', ''brother'', ''brown'', ''brush'', ''bubble'',
    ''buddy'', ''budget'', ''buffalo'', ''build'', ''bulb'', ''bulk'', ''bullet'', ''bundle'', ''bunker'',
    ''burden'', ''burger'', ''burst'', ''bus'', ''business'', ''busy'', ''butter'', ''buyer'', ''buzz'',
    ''cabbage'', ''cabin'', ''cable'']"

definition en_2 :: "string list" where
  "en_2 = [
    ''cactus'', ''cage'', ''cake'', ''call'', ''calm'', ''camera'', ''camp'', ''can'', ''canal'', ''cancel'',
    ''candy'', ''cannon'', ''canoe'', ''canvas'', ''canyon'', ''capable'', ''capital'', ''captain'', ''car'',
    ''carbon'', ''card'', ''cargo'', ''carpet'', ''carry'', ''cart'', ''case'', ''cash'', ''casino'',
    ''castle'', ''casual'', ''cat'', ''catalog'', ''catch'', ''category'', ''cattle'', ''caught'', ''cause'',
    ''caution'', ''cave'', ''ceiling'', ''celery'', ''cement'', ''census'', ''century'', ''cereal'',
    ''certain'', ''chair'', ''chalk'', ''champion'', ''change'', ''chaos'', ''chapter'', ''charge'',
    ''chase'', ''chat'', ''cheap'', ''check'', ''cheese'', ''chef'', ''cherry'', ''chest'', ''chicken'',
    ''chief'', ''child'', ''chimney'', ''choice'', ''choose'', ''chronic'', ''chuckle'', ''chunk'',
    ''churn'', ''cigar'', ''cinnamon'', ''circle'', ''citizen'', ''city'', ''civil'', ''claim'', ''clap'',
    ''clarify'', ''claw'', ''clay'', ''clean'', ''clerk'', ''clever'', ''click'', ''client'', ''cliff'',
    ''climb'', ''clinic'', ''clip'', ''clock'', ''clog'', ''close'', ''cloth'', ''cloud'', ''clown'',
    ''club'', ''clump'', ''cluster'', ''clutch'', ''coach'', ''coast'', ''coconut'', ''code'', ''coffee'',
    ''coil'', ''coin'', ''collect'', ''color'', ''column'', ''combine'', ''come'', ''comfort'', ''comic'',
    ''common'', ''company'', ''concert'', ''conduct'', ''confirm'', ''congress'', ''connect'', ''consider'',
    ''control'', ''convince'', ''cook'', ''cool'', ''copper'']"

definition en_3 :: "string list" where
  "en_3 = [
    ''copy'', ''coral'', ''core'', ''corn'', ''correct'', ''cost'', ''cotton'', ''couch'', ''country'',
    ''couple'', ''course'', ''cousin'', ''cover'', ''coyote'', ''crack'', ''cradle'', ''craft'', ''cram'',
    ''crane'', ''crash'', ''crater'', ''crawl'', ''crazy'', ''cream'', ''credit'', ''creek'', ''crew'',
    ''cricket'', ''crime'', ''crisp'', ''critic'', ''crop'', ''cross'', ''crouch'', ''crowd'', ''crucial'',
    ''cruel'', ''cruise'', ''crumble'', ''crunch'', ''crush'', ''cry'', ''crystal'', ''cube'', ''culture'',
    ''cup'', ''cupboard'', ''curious'', ''current'', ''curtain'', ''curve'', ''cushion'', ''custom'',
    ''cute'', ''cycle'', ''dad'', ''damage'', ''damp'', ''dance'', ''danger'', ''daring'', ''dash'',
    ''daughter'', ''dawn'', ''day'', ''deal'', ''debate'', ''debris'', ''decade'', ''december'', ''decide'',
    ''decline'', ''decorate'', ''decrease'', ''deer'', ''defense'', ''define'', ''defy'', ''degree'',
    ''delay'', ''deliver'', ''demand'', ''demise'', ''denial'', ''dentist'', ''deny'', ''depart'',
    ''depend'', ''deposit'', ''depth'', ''deputy'', ''derive'', ''describe'', ''desert'', ''design'',
    ''desk'', ''despair'', ''destroy'', ''detail'', ''detect'', ''develop'', ''device'', ''devote'',
    ''diagram'', ''dial'', ''diamond'', ''diary'', ''dice'', ''diesel'', ''diet'', ''differ'', ''digital'',
    ''dignity'', ''dilemma'', ''dinner'', ''dinosaur'', ''direct'', ''dirt'', ''disagree'', ''discover'',
    ''disease'', ''dish'', ''dismiss'', ''disorder'', ''display'', ''distance'', ''divert'', ''divide'']"

definition en_4 :: "string list" where
  "en_4 = [
    ''divorce'', ''dizzy'', ''doctor'', ''document'', ''dog'', ''doll'', ''dolphin'', ''domain'', ''donate'',
    ''donkey'', ''donor'', ''door'', ''dose'', ''double'', ''dove'', ''draft'', ''dragon'', ''drama'',
    ''drastic'', ''draw'', ''dream'', ''dress'', ''drift'', ''drill'', ''drink'', ''drip'', ''drive'',
    ''drop'', ''drum'', ''dry'', ''duck'', ''dumb'', ''dune'', ''during'', ''dust'', ''dutch'', ''duty'',
    ''dwarf'', ''dynamic'', ''eager'', ''eagle'', ''early'', ''earn'', ''earth'', ''easily'', ''east'',
    ''easy'', ''echo'', ''ecology'', ''economy'', ''edge'', ''edit'', ''educate'', ''effort'', ''egg'',
    ''eight'', ''either'', ''elbow'', ''elder'', ''electric'', ''elegant'', ''element'', ''elephant'',
    ''elevator'', ''elite'', ''else'', ''embark'', ''embody'', ''embrace'', ''emerge'', ''emotion'',
    ''employ'', ''empower'', ''empty'', ''enable'', ''enact'', ''end'', ''endless'', ''endorse'', ''enemy'',
    ''energy'', ''enforce'', ''engage'', ''engine'', ''enhance'', ''enjoy'', ''enlist'', ''enough'',
    ''enrich'', ''enroll'', ''ensure'', ''enter'', ''entire'', ''entry'', ''envelope'', ''episode'',
    ''equal'', ''equip'', ''era'', ''erase'', ''erode'', ''erosion'', ''error'', ''erupt'', ''escape'',
    ''essay'', ''essence'', ''estate'', ''eternal'', ''ethics'', ''evidence'', ''evil'', ''evoke'',
    ''evolve'', ''exact'', ''example'', ''excess'', ''exchange'', ''excite'', ''exclude'', ''excuse'',
    ''execute'', ''exercise'', ''exhaust'', ''exhibit'', ''exile'', ''exist'', ''exit'']"

definition en_5 :: "string list" where
  "en_5 = [
    ''exotic'', ''expand'', ''expect'', ''expire'', ''explain'', ''expose'', ''express'', ''extend'',
    ''extra'', ''eye'', ''eyebrow'', ''fabric'', ''face'', ''faculty'', ''fade'', ''faint'', ''faith'',
    ''fall'', ''false'', ''fame'', ''family'', ''famous'', ''fan'', ''fancy'', ''fantasy'', ''farm'',
    ''fashion'', ''fat'', ''fatal'', ''father'', ''fatigue'', ''fault'', ''favorite'', ''feature'',
    ''february'', ''federal'', ''fee'', ''feed'', ''feel'', ''female'', ''fence'', ''festival'', ''fetch'',
    ''fever'', ''few'', ''fiber'', ''fiction'', ''field'', ''figure'', ''file'', ''film'', ''filter'',
    ''final'', ''find'', ''fine'', ''finger'', ''finish'', ''fire'', ''firm'', ''first'', ''fiscal'',
    ''fish'', ''fit'', ''fitness'', ''fix'', ''flag'', ''flame'', ''flash'', ''flat'', ''flavor'', ''flee'',
    ''flight'', ''flip'', ''float'', ''flock'', ''floor'', ''flower'', ''fluid'', ''flush'', ''fly'',
    ''foam'', ''focus'', ''fog'', ''foil'', ''fold'', ''follow'', ''food'', ''foot'', ''force'', ''forest'',
    ''forget'', ''fork'', ''fortune'', ''forum'', ''forward'', ''fossil'', ''foster'', ''found'', ''fox'',
    ''fragile'', ''frame'', ''frequent'', ''fresh'', ''friend'', ''fringe'', ''frog'', ''front'', ''frost'',
    ''frown'', ''frozen'', ''fruit'', ''fuel'', ''fun'', ''funny'', ''furnace'', ''fury'', ''future'',
    ''gadget'', ''gain'', ''galaxy'', ''gallery'', ''game'', ''gap'', ''garage'', ''garbage'', ''garden'',
    ''garlic'', ''garment'']"

definition en_6 :: "string list" where
  "en_6 = [
    ''gas'', ''gasp'', ''gate'', ''gather'', ''gauge'', ''gaze'', ''general'', ''genius'', ''genre'',
    ''gentle'', ''genuine'', ''gesture'', ''ghost'', ''giant'', ''gift'', ''giggle'', ''ginger'',
    ''giraffe'', ''girl'', ''give'', ''glad'', ''glance'', ''glare'', ''glass'', ''glide'', ''glimpse'',
    ''globe'', ''gloom'', ''glory'', ''glove'', ''glow'', ''glue'', ''goat'', ''goddess'', ''gold'',
    ''good'', ''goose'', ''gorilla'', ''gospel'', ''gossip'', ''govern'', ''gown'', ''grab'', ''grace'',
    ''grain'', ''grant'', ''grape'', ''grass'', ''gravity'', ''great'', ''green'', ''grid'', ''grief'',
    ''grit'', ''grocery'', ''group'', ''grow'', ''grunt'', ''guard'', ''guess'', ''guide'', ''guilt'',
    ''guitar'', ''gun'', ''gym'', ''habit'', ''hair'', ''half'', ''hammer'', ''hamster'', ''hand'',
    ''happy'', ''harbor'', ''hard'', ''harsh'', ''harvest'', ''hat'', ''have'', ''hawk'', ''hazard'',
    ''head'', ''health'', ''heart'', ''heavy'', ''hedgehog'', ''height'', ''hello'', ''helmet'', ''help'',
    ''hen'', ''hero'', ''hidden'', ''high'', ''hill'', ''hint'', ''hip'', ''hire'', ''history'', ''hobby'',
    ''hockey'', ''hold'', ''hole'', ''holiday'', ''hollow'', ''home'', ''honey'', ''hood'', ''hope'',
    ''horn'', ''horror'', ''horse'', ''hospital'', ''host'', ''hotel'', ''hour'', ''hover'', ''hub'',
    ''huge'', ''human'', ''humble'', ''humor'', ''hundred'', ''hungry'', ''hunt'', ''hurdle'', ''hurry'',
    ''hurt'', ''husband'']"

definition en_7 :: "string list" where
  "en_7 = [
    ''hybrid'', ''ice'', ''icon'', ''idea'', ''identify'', ''idle'', ''ignore'', ''ill'', ''illegal'',
    ''illness'', ''image'', ''imitate'', ''immense'', ''immune'', ''impact'', ''impose'', ''improve'',
    ''impulse'', ''inch'', ''include'', ''income'', ''increase'', ''index'', ''indicate'', ''indoor'',
    ''industry'', ''infant'', ''inflict'', ''inform'', ''inhale'', ''inherit'', ''initial'', ''inject'',
    ''injury'', ''inmate'', ''inner'', ''innocent'', ''input'', ''inquiry'', ''insane'', ''insect'',
    ''inside'', ''inspire'', ''install'', ''intact'', ''interest'', ''into'', ''invest'', ''invite'',
    ''involve'', ''iron'', ''island'', ''isolate'', ''issue'', ''item'', ''ivory'', ''jacket'', ''jaguar'',
    ''jar'', ''jazz'', ''jealous'', ''jeans'', ''jelly'', ''jewel'', ''job'', ''join'', ''joke'',
    ''journey'', ''joy'', ''judge'', ''juice'', ''jump'', ''jungle'', ''junior'', ''junk'', ''just'',
    ''kangaroo'', ''keen'', ''keep'', ''ketchup'', ''key'', ''kick'', ''kid'', ''kidney'', ''kind'',
    ''kingdom'', ''kiss'', ''kit'', ''kitchen'', ''kite'', ''kitten'', ''kiwi'', ''knee'', ''knife'',
    ''knock'', ''know'', ''lab'', ''label'', ''labor'', ''ladder'', ''lady'', ''lake'', ''lamp'',
    ''language'', ''laptop'', ''large'', ''later'', ''latin'', ''laugh'', ''laundry'', ''lava'', ''law'',
    ''lawn'', ''lawsuit'', ''layer'', ''lazy'', ''leader'', ''leaf'', ''learn'', ''leave'', ''lecture'',
    ''left'', ''leg'', ''legal'', ''legend'', ''leisure'', ''lemon'', ''lend'']"

definition en_8 :: "string list" where
  "en_8 = [
    ''length'', ''lens'', ''leopard'', ''lesson'', ''letter'', ''level'', ''liar'', ''liberty'', ''library'',
    ''license'', ''life'', ''lift'', ''light'', ''like'', ''limb'', ''limit'', ''link'', ''lion'',
    ''liquid'', ''list'', ''little'', ''live'', ''lizard'', ''load'', ''loan'', ''lobster'', ''local'',
    ''lock'', ''logic'', ''lonely'', ''long'', ''loop'', ''lottery'', ''loud'', ''lounge'', ''love'',
    ''loyal'', ''lucky'', ''luggage'', ''lumber'', ''lunar'', ''lunch'', ''luxury'', ''lyrics'', ''machine'',
    ''mad'', ''magic'', ''magnet'', ''maid'', ''mail'', ''main'', ''major'', ''make'', ''mammal'', ''man'',
    ''manage'', ''mandate'', ''mango'', ''mansion'', ''manual'', ''maple'', ''marble'', ''march'',
    ''margin'', ''marine'', ''market'', ''marriage'', ''mask'', ''mass'', ''master'', ''match'',
    ''material'', ''math'', ''matrix'', ''matter'', ''maximum'', ''maze'', ''meadow'', ''mean'', ''measure'',
    ''meat'', ''mechanic'', ''medal'', ''media'', ''melody'', ''melt'', ''member'', ''memory'', ''mention'',
    ''menu'', ''mercy'', ''merge'', ''merit'', ''merry'', ''mesh'', ''message'', ''metal'', ''method'',
    ''middle'', ''midnight'', ''milk'', ''million'', ''mimic'', ''mind'', ''minimum'', ''minor'', ''minute'',
    ''miracle'', ''mirror'', ''misery'', ''miss'', ''mistake'', ''mix'', ''mixed'', ''mixture'', ''mobile'',
    ''model'', ''modify'', ''mom'', ''moment'', ''monitor'', ''monkey'', ''monster'', ''month'', ''moon'',
    ''moral'', ''more'', ''morning'']"

definition en_9 :: "string list" where
  "en_9 = [
    ''mosquito'', ''mother'', ''motion'', ''motor'', ''mountain'', ''mouse'', ''move'', ''movie'', ''much'',
    ''muffin'', ''mule'', ''multiply'', ''muscle'', ''museum'', ''mushroom'', ''music'', ''must'',
    ''mutual'', ''myself'', ''mystery'', ''myth'', ''naive'', ''name'', ''napkin'', ''narrow'', ''nasty'',
    ''nation'', ''nature'', ''near'', ''neck'', ''need'', ''negative'', ''neglect'', ''neither'', ''nephew'',
    ''nerve'', ''nest'', ''net'', ''network'', ''neutral'', ''never'', ''news'', ''next'', ''nice'',
    ''night'', ''noble'', ''noise'', ''nominee'', ''noodle'', ''normal'', ''north'', ''nose'', ''notable'',
    ''note'', ''nothing'', ''notice'', ''novel'', ''now'', ''nuclear'', ''number'', ''nurse'', ''nut'',
    ''oak'', ''obey'', ''object'', ''oblige'', ''obscure'', ''observe'', ''obtain'', ''obvious'', ''occur'',
    ''ocean'', ''october'', ''odor'', ''off'', ''offer'', ''office'', ''often'', ''oil'', ''okay'', ''old'',
    ''olive'', ''olympic'', ''omit'', ''once'', ''one'', ''onion'', ''online'', ''only'', ''open'',
    ''opera'', ''opinion'', ''oppose'', ''option'', ''orange'', ''orbit'', ''orchard'', ''order'',
    ''ordinary'', ''organ'', ''orient'', ''original'', ''orphan'', ''ostrich'', ''other'', ''outdoor'',
    ''outer'', ''output'', ''outside'', ''oval'', ''oven'', ''over'', ''own'', ''owner'', ''oxygen'',
    ''oyster'', ''ozone'', ''pact'', ''paddle'', ''page'', ''pair'', ''palace'', ''palm'', ''panda'',
    ''panel'', ''panic'', ''panther'', ''paper'']"

definition en_10 :: "string list" where
  "en_10 = [
    ''parade'', ''parent'', ''park'', ''parrot'', ''party'', ''pass'', ''patch'', ''path'', ''patient'',
    ''patrol'', ''pattern'', ''pause'', ''pave'', ''payment'', ''peace'', ''peanut'', ''pear'', ''peasant'',
    ''pelican'', ''pen'', ''penalty'', ''pencil'', ''people'', ''pepper'', ''perfect'', ''permit'',
    ''person'', ''pet'', ''phone'', ''photo'', ''phrase'', ''physical'', ''piano'', ''picnic'', ''picture'',
    ''piece'', ''pig'', ''pigeon'', ''pill'', ''pilot'', ''pink'', ''pioneer'', ''pipe'', ''pistol'',
    ''pitch'', ''pizza'', ''place'', ''planet'', ''plastic'', ''plate'', ''play'', ''please'', ''pledge'',
    ''pluck'', ''plug'', ''plunge'', ''poem'', ''poet'', ''point'', ''polar'', ''pole'', ''police'',
    ''pond'', ''pony'', ''pool'', ''popular'', ''portion'', ''position'', ''possible'', ''post'', ''potato'',
    ''pottery'', ''poverty'', ''powder'', ''power'', ''practice'', ''praise'', ''predict'', ''prefer'',
    ''prepare'', ''present'', ''pretty'', ''prevent'', ''price'', ''pride'', ''primary'', ''print'',
    ''priority'', ''prison'', ''private'', ''prize'', ''problem'', ''process'', ''produce'', ''profit'',
    ''program'', ''project'', ''promote'', ''proof'', ''property'', ''prosper'', ''protect'', ''proud'',
    ''provide'', ''public'', ''pudding'', ''pull'', ''pulp'', ''pulse'', ''pumpkin'', ''punch'', ''pupil'',
    ''puppy'', ''purchase'', ''purity'', ''purpose'', ''purse'', ''push'', ''put'', ''puzzle'', ''pyramid'',
    ''quality'', ''quantum'', ''quarter'', ''question'', ''quick'', ''quit'', ''quiz'']"

definition en_11 :: "string list" where
  "en_11 = [
    ''quote'', ''rabbit'', ''raccoon'', ''race'', ''rack'', ''radar'', ''radio'', ''rail'', ''rain'',
    ''raise'', ''rally'', ''ramp'', ''ranch'', ''random'', ''range'', ''rapid'', ''rare'', ''rate'',
    ''rather'', ''raven'', ''raw'', ''razor'', ''ready'', ''real'', ''reason'', ''rebel'', ''rebuild'',
    ''recall'', ''receive'', ''recipe'', ''record'', ''recycle'', ''reduce'', ''reflect'', ''reform'',
    ''refuse'', ''region'', ''regret'', ''regular'', ''reject'', ''relax'', ''release'', ''relief'',
    ''rely'', ''remain'', ''remember'', ''remind'', ''remove'', ''render'', ''renew'', ''rent'', ''reopen'',
    ''repair'', ''repeat'', ''replace'', ''report'', ''require'', ''rescue'', ''resemble'', ''resist'',
    ''resource'', ''response'', ''result'', ''retire'', ''retreat'', ''return'', ''reunion'', ''reveal'',
    ''review'', ''reward'', ''rhythm'', ''rib'', ''ribbon'', ''rice'', ''rich'', ''ride'', ''ridge'',
    ''rifle'', ''right'', ''rigid'', ''ring'', ''riot'', ''ripple'', ''risk'', ''ritual'', ''rival'',
    ''river'', ''road'', ''roast'', ''robot'', ''robust'', ''rocket'', ''romance'', ''roof'', ''rookie'',
    ''room'', ''rose'', ''rotate'', ''rough'', ''round'', ''route'', ''royal'', ''rubber'', ''rude'',
    ''rug'', ''rule'', ''run'', ''runway'', ''rural'', ''sad'', ''saddle'', ''sadness'', ''safe'', ''sail'',
    ''salad'', ''salmon'', ''salon'', ''salt'', ''salute'', ''same'', ''sample'', ''sand'', ''satisfy'',
    ''satoshi'', ''sauce'', ''sausage'', ''save'', ''say'']"

definition en_12 :: "string list" where
  "en_12 = [
    ''scale'', ''scan'', ''scare'', ''scatter'', ''scene'', ''scheme'', ''school'', ''science'',
    ''scissors'', ''scorpion'', ''scout'', ''scrap'', ''screen'', ''script'', ''scrub'', ''sea'', ''search'',
    ''season'', ''seat'', ''second'', ''secret'', ''section'', ''security'', ''seed'', ''seek'', ''segment'',
    ''select'', ''sell'', ''seminar'', ''senior'', ''sense'', ''sentence'', ''series'', ''service'',
    ''session'', ''settle'', ''setup'', ''seven'', ''shadow'', ''shaft'', ''shallow'', ''share'', ''shed'',
    ''shell'', ''sheriff'', ''shield'', ''shift'', ''shine'', ''ship'', ''shiver'', ''shock'', ''shoe'',
    ''shoot'', ''shop'', ''short'', ''shoulder'', ''shove'', ''shrimp'', ''shrug'', ''shuffle'', ''shy'',
    ''sibling'', ''sick'', ''side'', ''siege'', ''sight'', ''sign'', ''silent'', ''silk'', ''silly'',
    ''silver'', ''similar'', ''simple'', ''since'', ''sing'', ''siren'', ''sister'', ''situate'', ''six'',
    ''size'', ''skate'', ''sketch'', ''ski'', ''skill'', ''skin'', ''skirt'', ''skull'', ''slab'', ''slam'',
    ''sleep'', ''slender'', ''slice'', ''slide'', ''slight'', ''slim'', ''slogan'', ''slot'', ''slow'',
    ''slush'', ''small'', ''smart'', ''smile'', ''smoke'', ''smooth'', ''snack'', ''snake'', ''snap'',
    ''sniff'', ''snow'', ''soap'', ''soccer'', ''social'', ''sock'', ''soda'', ''soft'', ''solar'',
    ''soldier'', ''solid'', ''solution'', ''solve'', ''someone'', ''song'', ''soon'', ''sorry'', ''sort'',
    ''soul'', ''sound'', ''soup'']"

definition en_13 :: "string list" where
  "en_13 = [
    ''source'', ''south'', ''space'', ''spare'', ''spatial'', ''spawn'', ''speak'', ''special'', ''speed'',
    ''spell'', ''spend'', ''sphere'', ''spice'', ''spider'', ''spike'', ''spin'', ''spirit'', ''split'',
    ''spoil'', ''sponsor'', ''spoon'', ''sport'', ''spot'', ''spray'', ''spread'', ''spring'', ''spy'',
    ''square'', ''squeeze'', ''squirrel'', ''stable'', ''stadium'', ''staff'', ''stage'', ''stairs'',
    ''stamp'', ''stand'', ''start'', ''state'', ''stay'', ''steak'', ''steel'', ''stem'', ''step'',
    ''stereo'', ''stick'', ''still'', ''sting'', ''stock'', ''stomach'', ''stone'', ''stool'', ''story'',
    ''stove'', ''strategy'', ''street'', ''strike'', ''strong'', ''struggle'', ''student'', ''stuff'',
    ''stumble'', ''style'', ''subject'', ''submit'', ''subway'', ''success'', ''such'', ''sudden'',
    ''suffer'', ''sugar'', ''suggest'', ''suit'', ''summer'', ''sun'', ''sunny'', ''sunset'', ''super'',
    ''supply'', ''supreme'', ''sure'', ''surface'', ''surge'', ''surprise'', ''surround'', ''survey'',
    ''suspect'', ''sustain'', ''swallow'', ''swamp'', ''swap'', ''swarm'', ''swear'', ''sweet'', ''swift'',
    ''swim'', ''swing'', ''switch'', ''sword'', ''symbol'', ''symptom'', ''syrup'', ''system'', ''table'',
    ''tackle'', ''tag'', ''tail'', ''talent'', ''talk'', ''tank'', ''tape'', ''target'', ''task'', ''taste'',
    ''tattoo'', ''taxi'', ''teach'', ''team'', ''tell'', ''ten'', ''tenant'', ''tennis'', ''tent'', ''term'',
    ''test'', ''text'', ''thank'', ''that'']"

definition en_14 :: "string list" where
  "en_14 = [
    ''theme'', ''then'', ''theory'', ''there'', ''they'', ''thing'', ''this'', ''thought'', ''three'',
    ''thrive'', ''throw'', ''thumb'', ''thunder'', ''ticket'', ''tide'', ''tiger'', ''tilt'', ''timber'',
    ''time'', ''tiny'', ''tip'', ''tired'', ''tissue'', ''title'', ''toast'', ''tobacco'', ''today'',
    ''toddler'', ''toe'', ''together'', ''toilet'', ''token'', ''tomato'', ''tomorrow'', ''tone'',
    ''tongue'', ''tonight'', ''tool'', ''tooth'', ''top'', ''topic'', ''topple'', ''torch'', ''tornado'',
    ''tortoise'', ''toss'', ''total'', ''tourist'', ''toward'', ''tower'', ''town'', ''toy'', ''track'',
    ''trade'', ''traffic'', ''tragic'', ''train'', ''transfer'', ''trap'', ''trash'', ''travel'', ''tray'',
    ''treat'', ''tree'', ''trend'', ''trial'', ''tribe'', ''trick'', ''trigger'', ''trim'', ''trip'',
    ''trophy'', ''trouble'', ''truck'', ''true'', ''truly'', ''trumpet'', ''trust'', ''truth'', ''try'',
    ''tube'', ''tuition'', ''tumble'', ''tuna'', ''tunnel'', ''turkey'', ''turn'', ''turtle'', ''twelve'',
    ''twenty'', ''twice'', ''twin'', ''twist'', ''two'', ''type'', ''typical'', ''ugly'', ''umbrella'',
    ''unable'', ''unaware'', ''uncle'', ''uncover'', ''under'', ''undo'', ''unfair'', ''unfold'',
    ''unhappy'', ''uniform'', ''unique'', ''unit'', ''universe'', ''unknown'', ''unlock'', ''until'',
    ''unusual'', ''unveil'', ''update'', ''upgrade'', ''uphold'', ''upon'', ''upper'', ''upset'', ''urban'',
    ''urge'', ''usage'', ''use'', ''used'', ''useful'']"

definition en_15 :: "string list" where
  "en_15 = [
    ''useless'', ''usual'', ''utility'', ''vacant'', ''vacuum'', ''vague'', ''valid'', ''valley'', ''valve'',
    ''van'', ''vanish'', ''vapor'', ''various'', ''vast'', ''vault'', ''vehicle'', ''velvet'', ''vendor'',
    ''venture'', ''venue'', ''verb'', ''verify'', ''version'', ''very'', ''vessel'', ''veteran'', ''viable'',
    ''vibrant'', ''vicious'', ''victory'', ''video'', ''view'', ''village'', ''vintage'', ''violin'',
    ''virtual'', ''virus'', ''visa'', ''visit'', ''visual'', ''vital'', ''vivid'', ''vocal'', ''voice'',
    ''void'', ''volcano'', ''volume'', ''vote'', ''voyage'', ''wage'', ''wagon'', ''wait'', ''walk'',
    ''wall'', ''walnut'', ''want'', ''warfare'', ''warm'', ''warrior'', ''wash'', ''wasp'', ''waste'',
    ''water'', ''wave'', ''way'', ''wealth'', ''weapon'', ''wear'', ''weasel'', ''weather'', ''web'',
    ''wedding'', ''weekend'', ''weird'', ''welcome'', ''west'', ''wet'', ''whale'', ''what'', ''wheat'',
    ''wheel'', ''when'', ''where'', ''whip'', ''whisper'', ''wide'', ''width'', ''wife'', ''wild'', ''will'',
    ''win'', ''window'', ''wine'', ''wing'', ''wink'', ''winner'', ''winter'', ''wire'', ''wisdom'',
    ''wise'', ''wish'', ''witness'', ''wolf'', ''woman'', ''wonder'', ''wood'', ''wool'', ''word'', ''work'',
    ''world'', ''worry'', ''worth'', ''wrap'', ''wreck'', ''wrestle'', ''wrist'', ''write'', ''wrong'',
    ''yard'', ''year'', ''yellow'', ''you'', ''young'', ''youth'', ''zebra'', ''zero'', ''zone'', ''zoo'']"

definition DEFAULT_WORDLIST :: "string list" where
  "DEFAULT_WORDLIST = en_0 @ en_1 @ en_2 @ en_3 @ en_4 @ en_5 @ en_6 @ en_7 @ en_8 @ en_9 @ en_10 @ en_11 @ en_12 @ en_13 @ en_14 @ en_15"

section \<open>Alphabetical order\<close>

fun before :: "string \<Rightarrow> string \<Rightarrow> bool" where
  "before s [] = False"
| "before [] (d # t) = True"
| "before (c # s) (d # t) = (let a = of_char c :: nat; b = of_char d in a < b \<or> a = b \<and> before s t)"

fun ascending :: "string list \<Rightarrow> bool" where
  "ascending (s # t # ss) = (before s t \<and> ascending (t # ss))"
| "ascending [] = True"
| "ascending [s] = True"

lemma before_trans: "before s t \<Longrightarrow> before t u \<Longrightarrow> before s u"
proof (induction s t arbitrary: u rule: before.induct)
  case (2 d t)
  then show ?case by (cases u) auto
next
  case (3 c s d t)
  then show ?case by (cases u) (auto simp: Let_def)
qed simp

lemma before_irrefl: "\<not> before s s"
  by (induction s) (auto simp: Let_def)

lemma ascending_sorted: "ascending ss \<Longrightarrow> sorted_wrt before ss"
proof (induction ss rule: ascending.induct)
  case (1 s t ss)
  then have "before s t" "sorted_wrt before (t # ss)" by auto
  then show ?case using before_trans by (auto intro: before_trans)
qed simp_all

lemma ascending_distinct: "ascending ss \<Longrightarrow> distinct ss"
proof -
  have "sorted_wrt before ss \<Longrightarrow> distinct ss" by (induction ss) (auto simp: before_irrefl)
  then show "ascending ss \<Longrightarrow> distinct ss" using ascending_sorted by blast
qed

lemma ascending_append:
  "ascending ss \<Longrightarrow> ascending ts \<Longrightarrow> (ss = [] \<or> ts = [] \<or> before (last ss) (hd ts)) \<Longrightarrow> ascending (ss @ ts)"
proof (induction ss rule: ascending.induct)
  case (3 s)
  then show ?case by (cases ts) auto
qed auto

text \<open>What is computed of each block of words, and how blocks are put together.\<close>

definition word_block :: "string list \<Rightarrow> nat \<Rightarrow> string \<Rightarrow> string \<Rightarrow> bool" where
  "word_block ss n a b \<longleftrightarrow> ascending ss \<and> length ss = n \<and> list_all (\<lambda>w. CHR '' '' \<notin> set w) ss \<and>
     ss \<noteq> [] \<and> hd ss = a \<and> last ss = b"

lemma word_block_append:
  "word_block ss n a b \<Longrightarrow> word_block ts k c d \<Longrightarrow> before b c \<Longrightarrow> word_block (ss @ ts) (n + k) a d"
  by (auto simp: word_block_def intro: ascending_append)

fun chained :: "(string list \<times> string \<times> string) list \<Rightarrow> bool" where
  "chained ((ss, a, b) # (ts, c, d) # r) = (before b c \<and> chained ((ts, c, d) # r))"
| "chained _ = True"

lemma word_block_concat:
  "list_all (\<lambda>(ss, a, b). word_block ss n a b) bs \<Longrightarrow> chained bs \<Longrightarrow> bs \<noteq> [] \<Longrightarrow>
     word_block (concat (map fst bs)) (n * length bs) (fst (snd (hd bs))) (snd (snd (last bs)))"
proof (induction bs rule: chained.induct)
  case (1 ss a b ts c d r)
  then have "word_block (concat (map fst ((ts, c, d) # r))) (n * length ((ts, c, d) # r)) c (snd (snd (last ((ts, c, d) # r))))"
    by (simp add: list_all_iff)
  from word_block_append [OF _ this, of ss n a b] show ?case using 1(2,3) by simp
qed auto

lemma en_0_block: "word_block en_0 128 ''abandon'' ''avocado''"
  unfolding word_block_def en_0_def by code_simp

lemma en_1_block: "word_block en_1 128 ''avoid'' ''cable''"
  unfolding word_block_def en_1_def by code_simp

lemma en_2_block: "word_block en_2 128 ''cactus'' ''copper''"
  unfolding word_block_def en_2_def by code_simp

lemma en_3_block: "word_block en_3 128 ''copy'' ''divide''"
  unfolding word_block_def en_3_def by code_simp

lemma en_4_block: "word_block en_4 128 ''divorce'' ''exit''"
  unfolding word_block_def en_4_def by code_simp

lemma en_5_block: "word_block en_5 128 ''exotic'' ''garment''"
  unfolding word_block_def en_5_def by code_simp

lemma en_6_block: "word_block en_6 128 ''gas'' ''husband''"
  unfolding word_block_def en_6_def by code_simp

lemma en_7_block: "word_block en_7 128 ''hybrid'' ''lend''"
  unfolding word_block_def en_7_def by code_simp

lemma en_8_block: "word_block en_8 128 ''length'' ''morning''"
  unfolding word_block_def en_8_def by code_simp

lemma en_9_block: "word_block en_9 128 ''mosquito'' ''paper''"
  unfolding word_block_def en_9_def by code_simp

lemma en_10_block: "word_block en_10 128 ''parade'' ''quiz''"
  unfolding word_block_def en_10_def by code_simp

lemma en_11_block: "word_block en_11 128 ''quote'' ''say''"
  unfolding word_block_def en_11_def by code_simp

lemma en_12_block: "word_block en_12 128 ''scale'' ''soup''"
  unfolding word_block_def en_12_def by code_simp

lemma en_13_block: "word_block en_13 128 ''source'' ''that''"
  unfolding word_block_def en_13_def by code_simp

lemma en_14_block: "word_block en_14 128 ''theme'' ''useful''"
  unfolding word_block_def en_14_def by code_simp

lemma en_15_block: "word_block en_15 128 ''useless'' ''zoo''"
  unfolding word_block_def en_15_def by code_simp

definition en_list :: "(string list \<times> string \<times> string) list" where
  "en_list = [
     (en_0, ''abandon'', ''avocado''),
     (en_1, ''avoid'', ''cable''),
     (en_2, ''cactus'', ''copper''),
     (en_3, ''copy'', ''divide''),
     (en_4, ''divorce'', ''exit''),
     (en_5, ''exotic'', ''garment''),
     (en_6, ''gas'', ''husband''),
     (en_7, ''hybrid'', ''lend''),
     (en_8, ''length'', ''morning''),
     (en_9, ''mosquito'', ''paper''),
     (en_10, ''parade'', ''quiz''),
     (en_11, ''quote'', ''say''),
     (en_12, ''scale'', ''soup''),
     (en_13, ''source'', ''that''),
     (en_14, ''theme'', ''useful''),
     (en_15, ''useless'', ''zoo'')]"

lemma en_list_ok: "list_all (\<lambda>(ss, a, b). word_block ss 128 a b) en_list"
  by (simp add: en_list_def en_0_block en_1_block en_2_block en_3_block en_4_block en_5_block en_6_block en_7_block en_8_block en_9_block en_10_block en_11_block en_12_block en_13_block en_14_block en_15_block)

lemma en_list_chained: "chained en_list"
  unfolding en_list_def by code_simp

lemma DEFAULT_WORDLIST_block: "word_block DEFAULT_WORDLIST 2048 ''abandon'' ''zoo''"
proof -
  have "concat (map fst en_list) = DEFAULT_WORDLIST" by (simp add: en_list_def DEFAULT_WORDLIST_def)
  moreover have "128 * length en_list = 2048" "fst (snd (hd en_list)) = ''abandon''" "snd (snd (last en_list)) = ''zoo''"
    by (simp_all add: en_list_def)
  moreover have "en_list \<noteq> []" by (simp add: en_list_def)
  ultimately show ?thesis using word_block_concat [OF en_list_ok en_list_chained] by simp
qed

interpretation en: word_list DEFAULT_WORDLIST
  using DEFAULT_WORDLIST_block by unfold_locales (simp_all add: word_block_def ascending_distinct)

section \<open>Mnemonics of the default list\<close>

lemma default_mnemonics:
  "mnemonicToEntropy sha256 DEFAULT_WORDLIST m = Inr h \<longleftrightarrow>
     (\<exists>e. h = to_hex e \<and> valid_entropy sha256 e \<and> entropyToMnemonic sha256 DEFAULT_WORDLIST (to_hex e) = Inr m)"
proof
  assume "mnemonicToEntropy sha256 DEFAULT_WORDLIST m = Inr h"
  from en.encode_decode [OF this] show
    "\<exists>e. h = to_hex e \<and> valid_entropy sha256 e \<and> entropyToMnemonic sha256 DEFAULT_WORDLIST (to_hex e) = Inr m" by blast
next
  assume "\<exists>e. h = to_hex e \<and> valid_entropy sha256 e \<and> entropyToMnemonic sha256 DEFAULT_WORDLIST (to_hex e) = Inr m"
  then show "mnemonicToEntropy sha256 DEFAULT_WORDLIST m = Inr h" using en.mnemonic_of_entropy by force
qed

text \<open>C35: \<open>mnemonicToEntropy\<close> accepts exactly the sentences \<open>entropyToMnemonic\<close> makes of an entropy
  of \<open>4k\<close> bytes (\<open>0 < k\<close>, and \<open>k\<close> bits of hash to check them), and returns that entropy: decoding
  inverts encoding, no entropy has a second mnemonic, and every such entropy has one.\<close>

theorem mnemonics_are_encodings:
  "(mnemonicToEntropy sha256 DEFAULT_WORDLIST m = Inr h \<longleftrightarrow>
     (\<exists>e. h = to_hex e \<and> valid_entropy sha256 e \<and> entropyToMnemonic sha256 DEFAULT_WORDLIST (to_hex e) = Inr m)) \<and>
   (valid_entropy sha256 e \<longrightarrow> (\<exists>m. entropyToMnemonic sha256 DEFAULT_WORDLIST (to_hex e) = Inr m))"
proof (intro conjI impI)
  assume "valid_entropy sha256 e"
  from en.mnemonic_of_entropy [OF this] show "\<exists>m. entropyToMnemonic sha256 DEFAULT_WORDLIST (to_hex e) = Inr m" by blast
qed (rule default_mnemonics)

theorem mnemonics_are_encodings_witness:
  "\<exists>m. entropyToMnemonic (\<lambda>_. replicate 32 0) DEFAULT_WORDLIST (to_hex (replicate 16 7)) = Inr m"
proof -
  have "valid_entropy (\<lambda>_. replicate 32 0) (replicate 16 7)" by (simp add: valid_entropy_def)
  then show ?thesis using mnemonics_are_encodings [THEN conjunct2, rule_format] by blast
qed

end
