(* ===== verification/Sdk_Crypto.thy ===== *)
theory Sdk_Crypto
  imports Wordlist_En
begin

text \<open>
  The encrypted secrets of a Blocktrail wallet: \<open>lib/keyderivation.js\<close>, \<open>lib/encryption.js\<close> and
  \<open>lib/encryption_mnemonic.js\<close> of \<open>blocktrail-sdk-nodejs\<close>. Key stretching (pbkdf2 with SHA-512) and
  AES-GCM come from packages (sjcl) and are arguments that take and return buffers.
\<close>

type_synonym kdf = "buffer \<Rightarrow> buffer \<Rightarrow> nat \<Rightarrow> nat \<Rightarrow> buffer"
type_synonym aead_encrypt = "buffer \<Rightarrow> buffer \<Rightarrow> buffer \<Rightarrow> buffer \<Rightarrow> nat \<Rightarrow> buffer"
type_synonym aead_decrypt = "buffer \<Rightarrow> buffer \<Rightarrow> buffer \<Rightarrow> buffer \<Rightarrow> nat \<Rightarrow> buffer res"

section \<open>KeyDerivation\<close>

definition defaultIterations :: nat where "defaultIterations = 35000"
definition keySizeBits :: nat where "keySizeBits = 256"

text \<open>\<open>iterations || this.defaultIterations\<close>: no number, and the number 0, are the default.\<close>

definition kd_compute :: "kdf \<Rightarrow> buffer \<Rightarrow> buffer \<Rightarrow> nat option \<Rightarrow> buffer res" where
  "kd_compute pbkdf2Sha512 pw slt iterations =
     (let iterations = (case iterations of None \<Rightarrow> defaultIterations | Some n \<Rightarrow> if n = 0 then defaultIterations else n) in
      if \<not> 0 < length slt then Inl (JsAssert ''Salt must not be empty'')
      else if \<not> 0 < iterations then Inl (JsAssert ''Iteration count should be at least 1'')
      else if length slt > 0x80
        then Inl (JsError ''Sanity check: Invalid salt, length can never be greater than 128'')
      else Inr (pbkdf2Sha512 pw slt iterations (keySizeBits div 8)))"

section \<open>Encryption\<close>

definition defaultSaltLen :: nat where "defaultSaltLen = 10"
definition tagLenBits :: nat where "tagLenBits = 128"
definition ivLenBits :: nat where "ivLenBits = 128"

definition generateSalt :: "(nat \<Rightarrow> buffer) \<Rightarrow> buffer" where
  "generateSalt randomBytes = randomBytes defaultSaltLen"

definition generateIV :: "(nat \<Rightarrow> buffer) \<Rightarrow> buffer" where
  "generateIV randomBytes = randomBytes (ivLenBits div 8)"

definition encryptWithSaltAndIV ::
    "kdf \<Rightarrow> aead_encrypt \<Rightarrow> buffer \<Rightarrow> buffer \<Rightarrow> buffer \<Rightarrow> buffer \<Rightarrow> nat \<Rightarrow> buffer res" where
  "encryptWithSaltAndIV pbkdf2Sha512 gcm_encrypt pt pw saltBuf iv iterations =
     (if length iv \<noteq> 16 then Inl (JsAssert ''IV must be exactly 16 bytes'')
      else
        let SL = new_buffer 1; S = saltBuf; I = new_buffer 4 in
        rbind (writeUInt8 SL (length saltBuf) 0) (\<lambda>SL.
        rbind (writeUInt32LE I iterations 0) (\<lambda>I.
          let header = SL @ S @ I in
        rbind (kd_compute pbkdf2Sha512 pw saltBuf (Some iterations)) (\<lambda>key.
          let ct_t = gcm_encrypt key pt iv header tagLenBits
          in Inr (header @ iv @ ct_t)))))"

text \<open>The generator is called twice, for the salt and then for the initialisation vector, and may
  answer differently: one argument per call.\<close>

definition encrypt ::
    "kdf \<Rightarrow> aead_encrypt \<Rightarrow> (nat \<Rightarrow> buffer) \<Rightarrow> (nat \<Rightarrow> buffer) \<Rightarrow> buffer \<Rightarrow> buffer \<Rightarrow> nat option \<Rightarrow> buffer res" where
  "encrypt pbkdf2Sha512 gcm_encrypt random1 random2 pt pw iterations =
     (let slt = generateSalt random1; iv = generateIV random2;
          iterations = (case iterations of None \<Rightarrow> defaultIterations | Some n \<Rightarrow> n)
      in encryptWithSaltAndIV pbkdf2Sha512 gcm_encrypt pt pw slt iv iterations)"

definition decrypt :: "kdf \<Rightarrow> aead_decrypt \<Rightarrow> buffer \<Rightarrow> buffer \<Rightarrow> buffer res" where
  "decrypt pbkdf2Sha512 gcm_decrypt ct pw =
     (let copy = ct; c = 0 in
      rbind (readUInt8 copy c) (\<lambda>saltLen.
        let c = c + 1; slt = slice copy 1 (c + saltLen); c = c + saltLen in
      rbind (readUInt32LE copy c) (\<lambda>iterations.
        let c = c + 4; header = slice copy 0 c; iv = slice copy c (16 + c); c = c + 16; ct_t = drop c copy in
      rbind (kd_compute pbkdf2Sha512 pw slt (Some iterations)) (\<lambda>key.
        gcm_decrypt key ct_t iv header tagLenBits))))"

section \<open>EncryptionMnemonic\<close>

definition chunkSize :: nat where "chunkSize = 4"
definition paddingDummy :: byte where "paddingDummy = 0x81"

text \<open>\<open>data[0]\<close> of no data is \<open>undefined\<close>, which is not above anything.\<close>

definition derivePadding :: "buffer \<Rightarrow> string res" where
  "derivePadding data =
     (if (case byte_at data 0 of Some b \<Rightarrow> b > 0x80 | None \<Rightarrow> False)
      then Inl (JsError ''Mnemonic sanity check - first byte can never be above 0x80'')
      else Inr (concat (replicate (chunkSize - length data mod chunkSize) (to_hex [paddingDummy]))))"

text \<open>The functions of bip39 are arguments here: the package the SDK depends on is a fork of the one
  in the repository.\<close>

definition em_encode :: "(string \<Rightarrow> string res) \<Rightarrow> (string \<Rightarrow> string res) \<Rightarrow> buffer \<Rightarrow> string res" where
  "em_encode toMnemonic toEntropy data =
     rbind (derivePadding data) (\<lambda>padding.
     rbind (toMnemonic (padding @ to_hex data)) (\<lambda>mnemonic.
       case toEntropy mnemonic of
         Inl _ \<Rightarrow> Inl (JsError ''BIP39 library produced an invalid mnemonic'')
       | Inr _ \<Rightarrow> Inr mnemonic))"

fun count_padding :: "buffer \<Rightarrow> nat" where
  "count_padding [] = 0"
| "count_padding (b # bs) = (if b = paddingDummy then Suc (count_padding bs) else 0)"

definition em_decode :: "(string \<Rightarrow> string res) \<Rightarrow> string \<Rightarrow> buffer res" where
  "em_decode toEntropy mnemonic =
     rbind (toEntropy mnemonic) (\<lambda>entropy.
     rbind (from_hex entropy) (\<lambda>decoded.
       let padFinish = count_padding decoded; data = slice decoded padFinish (length decoded) in
     rbind (derivePadding data) (\<lambda>padding.
       if padding \<noteq> to_hex (slice decoded 0 padFinish)
       then Inl (JsError ''There is only one way to pad a string'') else Inr data)))"

section \<open>Mnemonics of encrypted secrets\<close>

text \<open>The padding that makes the length a multiple of four, and what is left when it is counted off.\<close>

definition padded :: "buffer \<Rightarrow> buffer" where
  "padded d = replicate (4 - length d mod 4) paddingDummy @ d"

lemma to_hex_append [simp]: "to_hex (a @ b) = to_hex a @ to_hex b"
  by (induction a) simp_all

lemma to_hex_replicate: "concat (replicate n (to_hex [b])) = to_hex (replicate n b)"
  by (induction n) simp_all

lemma to_hex_inject [simp]: "to_hex a = to_hex b \<longleftrightarrow> a = b"
  by (metis hex_pairs_to_hex)

lemma derivePadding_padded:
  "derivePadding d = (if d \<noteq> [] \<and> hd d > 0x80
     then Inl (JsError ''Mnemonic sanity check - first byte can never be above 0x80'')
     else Inr (to_hex (replicate (4 - length d mod 4) paddingDummy)))"
proof -
  have "unat a > 128 \<longleftrightarrow> a > 0x80" for a :: byte by (simp add: word_less_nat_alt)
  then show ?thesis
    by (cases d) (simp_all add: derivePadding_def byte_at_def chunkSize_def to_hex_replicate [symmetric])
qed

lemma padded_dvd: "4 dvd length (padded d)" "padded d \<noteq> []"
proof -
  have "length d mod 4 < 4" by simp
  moreover have "4 dvd (4 - length d mod 4 + length d)" by presburger
  ultimately show "4 dvd length (padded d)" "padded d \<noteq> []" by (auto simp: padded_def)
qed

lemma count_padding_replicate: "d = [] \<or> hd d \<noteq> paddingDummy \<Longrightarrow> count_padding (replicate n paddingDummy @ d) = n"
proof -
  assume "d = [] \<or> hd d \<noteq> paddingDummy"
  then have "count_padding d = 0" by (cases d) auto
  then show ?thesis by (induction n) simp_all
qed

lemma small_byte_no_padding: "b \<le> 0x80 \<Longrightarrow> b \<noteq> paddingDummy"
  by (auto simp: paddingDummy_def)

text \<open>What the mnemonics rely on of the word codec: it reads exactly what it writes, and writes every
  valid entropy. Then the padded encoding is one-to-one on the secrets whose first byte is small.\<close>

locale mnemonic_codec =
  fixes enc dec :: "string \<Rightarrow> string res" and valid :: "buffer \<Rightarrow> bool"
  assumes dec_enc: "dec m = Inr h \<longleftrightarrow> (\<exists>e. h = to_hex e \<and> valid e \<and> enc (to_hex e) = Inr m)"
    and enc_total: "valid e \<Longrightarrow> \<exists>m. enc (to_hex e) = Inr m"
begin

lemma encode_padded:
  assumes "valid (padded d)" "d = [] \<or> hd d \<le> 0x80"
  shows "\<exists>m. em_encode enc dec d = Inr m \<and> enc (to_hex (padded d)) = Inr m"
proof -
  obtain m where m: "enc (to_hex (padded d)) = Inr m" using enc_total [OF assms(1)] by blast
  then have "dec m = Inr (to_hex (padded d))" using dec_enc assms(1) by blast
  moreover have "derivePadding d = Inr (to_hex (replicate (4 - length d mod 4) paddingDummy))"
    using assms(2) by (auto simp: derivePadding_padded)
  ultimately show ?thesis using m by (simp add: em_encode_def padded_def)
qed

lemma decode_padded:
  assumes "dec m = Inr (to_hex (padded d))" "d = [] \<or> hd d \<le> 0x80"
  shows "em_decode dec m = Inr d"
proof -
  have "count_padding (padded d) = 4 - length d mod 4"
    unfolding padded_def using assms(2) small_byte_no_padding by (intro count_padding_replicate) blast
  moreover have "slice (padded d) (4 - length d mod 4) (length (padded d)) = d"
      "slice (padded d) 0 (4 - length d mod 4) = replicate (4 - length d mod 4) paddingDummy"
    by (simp_all add: slice_def padded_def)
  moreover have "derivePadding d = Inr (to_hex (replicate (4 - length d mod 4) paddingDummy))"
    using assms(2) by (auto simp: derivePadding_padded)
  ultimately show ?thesis using assms(1) by (simp add: em_decode_def from_hex_to_hex)
qed

lemma round_trip:
  assumes "valid (padded d)" "d = [] \<or> hd d \<le> 0x80"
  shows "\<exists>m. em_encode enc dec d = Inr m \<and> em_decode dec m = Inr d"
proof -
  obtain m where m: "em_encode enc dec d = Inr m" "enc (to_hex (padded d)) = Inr m"
    using encode_padded [OF assms] by blast
  then have "dec m = Inr (to_hex (padded d))" using dec_enc assms(1) by blast
  then show ?thesis using decode_padded [OF _ assms(2)] m(1) by blast
qed

lemma decode_is_encoded:
  assumes "em_decode dec m = Inr d"
  shows "em_encode enc dec d = Inr m"
proof -
  obtain h e where h: "dec m = Inr h" "h = to_hex e" "valid e" "enc (to_hex e) = Inr m"
    using assms dec_enc by (auto simp: em_decode_def)
  let ?k = "count_padding e"
  have d: "d = slice e ?k (length e)" "derivePadding d = Inr (to_hex (slice e 0 ?k))"
    using assms h(1,2) by (auto simp: em_decode_def from_hex_to_hex Let_def split: if_splits)
  then have small: "d = [] \<or> hd d \<le> 0x80" and "slice e 0 ?k = replicate (4 - length d mod 4) paddingDummy"
    by (auto simp: derivePadding_padded not_less split: if_splits)
  moreover have "e = slice e 0 ?k @ slice e ?k (length e)" by (simp add: slice_def)
  ultimately have e: "e = padded d" using d(1) by (simp add: padded_def)
  from encode_padded [of d] small h(3) obtain m' where "em_encode enc dec d = Inr m'" "enc (to_hex (padded d)) = Inr m'"
    unfolding e by blast
  then show ?thesis using h(4) e by simp
qed

end

interpretation en_codec: mnemonic_codec
  "entropyToMnemonic sha256 DEFAULT_WORDLIST" "mnemonicToEntropy sha256 DEFAULT_WORDLIST" "valid_entropy sha256" for sha256
  using default_mnemonics en.mnemonic_of_entropy by unfold_locales blast+

section \<open>What the ciphertext looks like\<close>

text \<open>The length of the salt, the salt, the number of iterations, the initialisation vector, and what
  AES-GCM returns.\<close>

definition ct_header :: "buffer \<Rightarrow> nat \<Rightarrow> buffer" where
  "ct_header s n = word_of_nat (length s) # s @ le_bytes 4 n"

definition stretch :: "kdf \<Rightarrow> buffer \<Rightarrow> buffer \<Rightarrow> nat \<Rightarrow> buffer" where
  "stretch pbkdf2Sha512 pw s n = pbkdf2Sha512 pw s (if n = 0 then 35000 else n) 32"

lemma kd_compute_Inr:
  "kd_compute pbkdf2Sha512 pw s (Some n) = Inr k \<longleftrightarrow> 0 < length s \<and> length s \<le> 128 \<and> k = stretch pbkdf2Sha512 pw s n"
  by (auto simp: kd_compute_def stretch_def defaultIterations_def keySizeBits_def Let_def)

lemma encrypt_layout:
  "encryptWithSaltAndIV kdf gcm pt pw s iv n = Inr ct \<longleftrightarrow>
     length iv = 16 \<and> 0 < length s \<and> length s \<le> 128 \<and> n < 2 ^ 32 \<and>
     ct = ct_header s n @ iv @ gcm (stretch kdf pw s n) pt iv (ct_header s n) 128"
proof -
  have "writeUInt8 (new_buffer 1) (length s) 0 = (if 256 \<le> length s then Inl (JsTypeError ''value out of bounds'') else Inr [word_of_nat (length s)])"
    by (simp add: writeLE_def write_at_def numeral_2_eq_2)
  moreover have "writeUInt32LE (new_buffer 4) n 0 = (if 2 ^ 32 \<le> n then Inl (JsTypeError ''value out of bounds'') else Inr (le_bytes 4 n))"
    by (simp add: writeLE_def write_at_def)
  ultimately show ?thesis
    by (auto simp: encryptWithSaltAndIV_def Let_def kd_compute_Inr ct_header_def tagLenBits_def)
qed

lemma decrypt_layout:
  assumes "length s < 256" "n < 2 ^ 32" "length iv = 16"
  shows "decrypt kdf gcm (ct_header s n @ iv @ t) pw =
    rbind (kd_compute kdf pw s (Some n)) (\<lambda>key. gcm key t iv (ct_header s n) 128)"
proof -
  let ?ct = "ct_header s n @ iv @ t"
  have "readUInt8 ?ct 0 = Inr (length s)"
    using assms(1) readUInt8_nth [of 0 ?ct] by (simp add: ct_header_def)
  moreover have "slice ?ct 1 (0 + 1 + length s) = s"
    by (simp add: slice_def ct_header_def)
  moreover have "readUInt32LE ?ct (0 + 1 + length s) = Inr n"
    using readLE_le_bytes [of n 4 "word_of_nat (length s) # s" "iv @ t"] assms(2) by (simp add: ct_header_def)
  moreover have "slice ?ct 0 (0 + 1 + length s + 4) = ct_header s n"
      "slice ?ct (0 + 1 + length s + 4) (16 + (0 + 1 + length s + 4)) = iv"
      "drop (0 + 1 + length s + 4 + 16) ?ct = t"
  proof -
    have "0 + 1 + length s + 4 = length (ct_header s n)" by (simp add: ct_header_def)
    then show "slice ?ct 0 (0 + 1 + length s + 4) = ct_header s n"
        "slice ?ct (0 + 1 + length s + 4) (16 + (0 + 1 + length s + 4)) = iv"
        "drop (0 + 1 + length s + 4 + 16) ?ct = t"
      using assms(3) by (simp_all only: slice_def) simp_all
  qed
  ultimately show ?thesis
    unfolding decrypt_def Let_def by (simp only: rbind_simps tagLenBits_def)
qed

lemma padded_valid:
  assumes "\<And>e. length (sha256 e) = 32" "length d \<le> 1020"
  shows "valid_entropy sha256 (padded d)"
proof -
  have "length (padded d) \<le> 1024" using assms(2) by (simp add: padded_def)
  then have "length (padded d) div 4 \<le> 256" by linarith
  then show ?thesis using assms(1) padded_dvd [of d] by (simp add: valid_entropy_def)
qed

section \<open>Round trips\<close>

abbreviation backup_mnemonic :: "(buffer \<Rightarrow> buffer) \<Rightarrow> buffer \<Rightarrow> string res" where
  "backup_mnemonic sha256 \<equiv>
     em_encode (entropyToMnemonic sha256 DEFAULT_WORDLIST) (mnemonicToEntropy sha256 DEFAULT_WORDLIST)"

abbreviation read_mnemonic :: "(buffer \<Rightarrow> buffer) \<Rightarrow> string \<Rightarrow> buffer res" where
  "read_mnemonic sha256 \<equiv> em_decode (mnemonicToEntropy sha256 DEFAULT_WORDLIST)"

text \<open>C34: a secret encrypted under a password can be written down as words and read back: every
  output \<open>encryptWithSaltAndIV\<close> produces has a mnemonic (its first byte, the length of the salt,
  never exceeds the bound that the padding reserves), the mnemonic decodes to the ciphertext, and
  \<open>decrypt\<close> takes the ciphertext apart into the parameters it was made with and returns the secret.
  AES-GCM is assumed to decrypt what it encrypted, SHA-256 to return 32 bytes; 1020 bytes is what
  that hash can check.\<close>

theorem encrypted_backup_roundtrip:
  assumes gcm: "\<And>k p iv h. gcm_decrypt k (gcm_encrypt k p iv h 128) iv h 128 = Inr p"
    and sha: "\<And>e. length (sha256 e) = 32"
    and ct: "encryptWithSaltAndIV pbkdf2 gcm_encrypt pt pw slt iv n = Inr ct" "length ct \<le> 1020"
  shows "\<exists>m. backup_mnemonic sha256 ct = Inr m \<and> read_mnemonic sha256 m = Inr ct \<and>
           decrypt pbkdf2 gcm_decrypt ct pw = Inr pt"
proof -
  let ?t = "gcm_encrypt (stretch pbkdf2 pw slt n) pt iv (ct_header slt n) 128"
  from ct(1) have lay: "length iv = 16" "0 < length slt" "length slt \<le> 128" "n < 2 ^ 32" "ct = ct_header slt n @ iv @ ?t"
    by (simp_all add: encrypt_layout)
  have "hd ct \<le> 0x80" using lay(3,5) by (simp add: ct_header_def word_le_nat_alt)
  from en_codec.round_trip [OF padded_valid [of sha256, OF sha ct(2)]] this
  obtain m where "backup_mnemonic sha256 ct = Inr m" "read_mnemonic sha256 m = Inr ct" by blast
  moreover have "decrypt pbkdf2 gcm_decrypt ct pw = Inr pt"
    using lay(1-4) gcm decrypt_layout [of slt n iv pbkdf2 gcm_decrypt ?t pw]
    unfolding lay(5) by (simp add: kd_compute_Inr [THEN iffD2] del: rbind_Inr_iff)
  ultimately show ?thesis by blast
qed

theorem encrypted_backup_roundtrip_witness:
  "\<exists>m. backup_mnemonic (\<lambda>_. replicate 32 5) (ct_header [1, 2, 3] 35000 @ replicate 16 4 @ [9, 8] @ replicate 16 0) = Inr m \<and>
     read_mnemonic (\<lambda>_. replicate 32 5) m = Inr (ct_header [1, 2, 3] 35000 @ replicate 16 4 @ [9, 8] @ replicate 16 0) \<and>
     decrypt (\<lambda>pw s n l. pw @ s) (\<lambda>k c iv h t. Inr (take (length c - 16) c))
       (ct_header [1, 2, 3] 35000 @ replicate 16 4 @ [9, 8] @ replicate 16 0) [7, 7] = Inr [9, 8]"
  by (rule encrypted_backup_roundtrip [where gcm_encrypt = "\<lambda>k p iv h t. p @ replicate 16 0" and slt = "[1, 2, 3]" and n = 35000
        and iv = "replicate 16 4"])
     (simp_all add: encrypt_layout, simp add: ct_header_def)

text \<open>there is only one way to pad. On data of up to 1020 bytes, encoding gives a mnemonic exactly
  when the first byte does not exceed \<open>0x80\<close>, and a mnemonic decodes to the data that encodes to it
  and to nothing else: two different mnemonics never stand for the same data.\<close>

theorem mnemonic_padding_unique:
  assumes sha: "\<And>e. length (sha256 e) = 32" and len: "length d \<le> 1020"
  shows "((\<exists>m. em_encode (entropyToMnemonic sha256 DEFAULT_WORDLIST) (mnemonicToEntropy sha256 DEFAULT_WORDLIST) d = Inr m) \<longleftrightarrow>
            d = [] \<or> hd d \<le> 0x80) \<and>
         (em_decode (mnemonicToEntropy sha256 DEFAULT_WORDLIST) m = Inr d \<longleftrightarrow>
            em_encode (entropyToMnemonic sha256 DEFAULT_WORDLIST) (mnemonicToEntropy sha256 DEFAULT_WORDLIST) d = Inr m)"
proof -
  have small: "d = [] \<or> hd d \<le> 0x80" if "backup_mnemonic sha256 d = Inr m" for m
    using that by (auto simp: em_encode_def derivePadding_padded split: if_splits)
  note rt = en_codec.round_trip [OF padded_valid [of sha256, OF sha len]]
  have "read_mnemonic sha256 m = Inr d" if m: "backup_mnemonic sha256 d = Inr m" for m
  proof -
    obtain m' where "backup_mnemonic sha256 d = Inr m'" "read_mnemonic sha256 m' = Inr d"
      using rt small [OF m] by blast
    then show ?thesis using m by simp
  qed
  then show ?thesis using small rt en_codec.decode_is_encoded by blast
qed

theorem mnemonic_padding_unique_witness:
  "((\<exists>m. backup_mnemonic (\<lambda>_. replicate 32 5) [0x80, 1] = Inr m) \<longleftrightarrow> [0x80, 1 :: byte] = [] \<or> hd [0x80, 1 :: byte] \<le> 0x80) \<and>
   (read_mnemonic (\<lambda>_. replicate 32 5) ''zoo'' = Inr [0x80, 1] \<longleftrightarrow> backup_mnemonic (\<lambda>_. replicate 32 5) [0x80, 1] = Inr ''zoo'')"
  by (rule mnemonic_padding_unique) simp_all

end
