(* ===== verification/Sdk_Keys.thy ===== *)
theory Sdk_Keys
  imports Types Js_Number Hex "HOL-Library.List_Lexorder" "HOL-Library.Multiset"
begin

text \<open>
  Key paths of \<open>blocktrail-sdk-nodejs/lib/wallet.js\<close>: \<open>Wallet.deriveByPath\<close>, and the order of the
  keys of a multisig script, \<open>Wallet.sortMultiSigKeys\<close>. Hierarchical keys come from a package: the
  record \<open>hd_lib\<close> has what the code calls of them.
\<close>

section \<open>Text and numbers\<close>

definition lower :: "char \<Rightarrow> char" where
  "lower c = (let v = of_char c :: nat in
     if 65 \<le> v \<and> v \<le> 90 \<or> 192 \<le> v \<and> v \<le> 222 \<and> v \<noteq> 215 then char_of (v + 32) else c)"

definition js_space :: "char \<Rightarrow> bool" where
  "js_space c \<longleftrightarrow> of_char c \<in> {9, 10, 11, 12, 13, 32, 160 :: nat}"

definition dec_digit :: "char \<Rightarrow> bool" where
  "dec_digit c \<longleftrightarrow> 48 \<le> (of_char c :: nat) \<and> (of_char c :: nat) \<le> 57"

definition dec_value :: "string \<Rightarrow> nat" where
  "dec_value s = foldl (\<lambda>n c. 10 * n + (of_char c - 48)) 0 s"

text \<open>An integer as a double; \<open>None\<close> when it is too large for one.\<close>

definition round_int :: "int \<Rightarrow> int option" where
  "round_int v = (case to_double False (nat \<bar>v\<bar>) 1 of
       Finite _ p d \<Rightarrow> Some (if v < 0 then - int (p div d) else int (p div d))
     | _ \<Rightarrow> None)"

text \<open>\<open>parseInt(text, 10)\<close> reads the digits after white space and a sign, and ignores what follows.
  \<open>None\<close> stands for what is no integer, \<open>NaN\<close> or an infinity.\<close>

definition parseInt10 :: "string \<Rightarrow> int option" where
  "parseInt10 s =
     (let s = dropWhile js_space s;
          neg = (s \<noteq> [] \<and> hd s = CHR ''-'');
          s = (if s \<noteq> [] \<and> hd s \<in> {CHR ''-'', CHR ''+''} then tl s else s);
          ds = takeWhile dec_digit s
      in if ds = [] then None
         else round_int (if neg then - int (dec_value ds) else int (dec_value ds)))"

text \<open>\<open>parseInt(v, 10)\<close> of an integral number reads its text, which from \<open>10^21\<close> on has an exponent:
  only the digit before the point is read, the first one of the shortest text that is rounded to
  the number.\<close>

definition parseInt_number :: "int \<Rightarrow> int" where
  "parseInt_number v =
     (if \<bar>v\<bar> < 10 ^ 21 then v
      else let n = nat \<bar>v\<bar>; e = length (dec_string n) - 1; f = n div 10 ^ e;
               digit = (if round_int (int ((f + 1) * 10 ^ e)) = Some (int n)
                        then if f = 9 then 1 else f + 1 else f)
           in if v < 0 then - int digit else int digit)"

text \<open>\<open>text.split(c)\<close>, and \<open>text.replace(c, '')\<close>, which removes the first \<open>c\<close>.\<close>

fun split_on :: "char \<Rightarrow> string \<Rightarrow> string list" where
  "split_on x [] = [[]]"
| "split_on x (c # cs) =
     (if c = x then [] # split_on x cs
      else case split_on x cs of s # ss \<Rightarrow> (c # s) # ss | [] \<Rightarrow> [[c]])"

section \<open>Deriving keys by path\<close>

datatype path_error = Js js_error | KeyPathError string

record 'k hd_lib =
  hd_private :: "'k \<Rightarrow> bool"
  hd_derive :: "'k \<Rightarrow> int option \<Rightarrow> path_error + 'k"
  hd_neutered :: "'k \<Rightarrow> 'k"

definition HIGHEST_BIT :: int where "HIGHEST_BIT = 0x80000000"

abbreviation (input) quote :: char where "quote \<equiv> CHR 0x27"

definition derive_chunk :: "'k hd_lib \<Rightarrow> string \<Rightarrow> 'k \<Rightarrow> path_error + 'k" where
  "derive_chunk lib chunk newKey =
     (if chunk = [] then Inr newKey
      else if quote \<in> set chunk
      then hd_derive lib newKey (map_option parseInt_number
             (Option.bind (parseInt10 (remove1 quote chunk)) (\<lambda>n. round_int (n + HIGHEST_BIT))))
      else hd_derive lib newKey (parseInt10 chunk))"

text \<open>\<open>keyPath || ...\<close>: no key path, and the empty one, stand for the root. Assigning to \<open>path[0]\<close>
  does not change a string, so nothing is left of that assignment.\<close>

definition deriveByPath :: "'k hd_lib \<Rightarrow> 'k \<Rightarrow> string \<Rightarrow> string option \<Rightarrow> path_error + 'k" where
  "deriveByPath lib hdKey path keyPath =
     (let keyPath = (case keyPath of
          Some (c # cs) \<Rightarrow> c # cs
        | _ \<Rightarrow> if hd_private lib hdKey then ''m'' else ''M'') in
      case path of
        [] \<Rightarrow> Inl (Js (JsTypeError ''Cannot read property toLowerCase of undefined''))
      | p # _ \<Rightarrow>
        if lower p \<noteq> CHR ''m'' \<or> lower (hd keyPath) \<noteq> CHR ''m''
        then Inl (KeyPathError ''Wallet.deriveByPath only works with absolute paths.'')
        else if p = CHR ''m'' \<and> hd keyPath = CHR ''M''
        then Inl (KeyPathError ''Wallet.deriveByPath can't derive private path from public parent.'')
        else
          let toPublic = (p = CHR ''M'' \<and> hd keyPath = CHR ''m'') in
          if take (length keyPath) (map lower path) \<noteq> map lower keyPath
          then Inl (KeyPathError ''Wallet.derivePath requires path to be a child of keyPath'')
          else
            let path = drop (length keyPath) path;
                path = (if path \<noteq> [] \<and> hd path = CHR ''/'' then tl path else path)
            in rbind (rfold (derive_chunk lib) (split_on (CHR ''/'') path) hdKey) (\<lambda>newKey.
                 Inr (if toPublic then hd_neutered lib newKey else newKey)))"

section \<open>The order of multisig keys\<close>

text \<open>\<open>localeCompare\<close> orders hexadecimal text, digits before letters, as its characters are ordered.\<close>

definition sortMultiSigKeys :: "buffer list \<Rightarrow> buffer list" where
  "sortMultiSigKeys pubKeys = sort_key (\<lambda>key. map (of_char :: char \<Rightarrow> nat) (to_hex key)) pubKeys"

section \<open>Numbers in paths\<close>

lemma dec_string_digits: "list_all dec_digit (dec_string n) \<and> dec_string n \<noteq> [] \<and> dec_value (dec_string n) = n"
proof (induction n rule: dec_string.induct)
  case (1 n)
  show ?case
  proof (cases "n < 10")
    case True
    then show ?thesis by (subst (1 2 3) dec_string.simps) (simp add: dec_digit_def dec_value_def)
  next
    case False
    with 1 have ih: "list_all dec_digit (dec_string (n div 10))" "dec_value (dec_string (n div 10)) = n div 10" by auto
    have m: "n mod 10 < 10" by simp
    then have "dec_digit (char_of (48 + n mod 10))" by (simp add: dec_digit_def)
    moreover have "10 * (n div 10) + n mod 10 = n" by simp
    ultimately show ?thesis
      using False ih m by (subst (1 2 3) dec_string.simps) (simp add: dec_value_def)
  qed
qed

lemma round_int_small: "\<bar>v\<bar> < 2 ^ 53 \<Longrightarrow> round_int v = Some v"
proof -
  assume "\<bar>v\<bar> < 2 ^ 53"
  then have "nat \<bar>v\<bar> < 2 ^ 53" by (simp add: nat_less_iff)
  from to_double_nat [OF this] obtain k where "to_double False (nat \<bar>v\<bar>) 1 = Finite False (nat \<bar>v\<bar> * 2 ^ k) (2 ^ k)" by blast
  then show ?thesis by (simp add: round_int_def)
qed

lemma dec_digit_plain: "dec_digit c \<Longrightarrow> \<not> js_space c \<and> c \<noteq> CHR ''-'' \<and> c \<noteq> CHR ''+'' \<and> c \<noteq> quote \<and> c \<noteq> CHR ''/''"
  by (auto simp: dec_digit_def js_space_def)

lemma parseInt10_dec_string:
  assumes "n < 2 ^ 53"
  shows "parseInt10 (dec_string n) = Some (int n)"
proof -
  obtain c cs where ds: "dec_string n = c # cs" and digits: "list_all dec_digit (dec_string n)" "dec_value (dec_string n) = n"
    using dec_string_digits [of n] by (cases "dec_string n") auto
  have c: "\<not> js_space c" "c \<notin> {CHR ''-'', CHR ''+''}" using dec_digit_plain [of c] digits(1) ds by auto
  have "takeWhile dec_digit (dec_string n) = dec_string n" using digits(1) by (simp add: takeWhile_eq_all_conv list_all_iff)
  then show ?thesis
    using c ds digits(2) assms unfolding parseInt10_def by (simp add: round_int_small Let_def)
qed

section \<open>Paths that follow the key\<close>

text \<open>A step of a path, hardened or not, as text and as the index it derives.\<close>

definition step_text :: "bool \<times> nat \<Rightarrow> string" where
  "step_text = (\<lambda>(hardened, n). dec_string n @ (if hardened then [quote] else []))"

definition step_index :: "bool \<times> nat \<Rightarrow> int" where
  "step_index = (\<lambda>(hardened, n). int n + (if hardened then 2 ^ 31 else 0))"

lemma step_text_no_slash: "CHR ''/'' \<notin> set (step_text s) \<and> step_text s \<noteq> []"
proof -
  obtain h n where s: "s = (h, n)" by (cases s)
  have "CHR ''/'' \<notin> set (dec_string n)" "dec_string n \<noteq> []"
    using dec_string_digits [of n] dec_digit_plain by (auto simp: list_all_iff)
  then show ?thesis by (simp add: s step_text_def)
qed

lemma derive_step: "n < 2 ^ 52 \<Longrightarrow> derive_chunk lib (step_text (h, n)) k = hd_derive lib k (Some (step_index (h, n)))"
proof -
  assume n: "n < 2 ^ 52"
  have "quote \<notin> set (dec_string n)" "dec_string n \<noteq> []"
    using dec_string_digits [of n] dec_digit_plain by (auto simp: list_all_iff)
  moreover from this(1) have "remove1 quote (dec_string n @ [quote]) = dec_string n" by (simp add: remove1_append)
  ultimately show ?thesis
    using n by (simp add: derive_chunk_def step_text_def step_index_def parseInt10_dec_string round_int_small
        HIGHEST_BIT_def parseInt_number_def)
qed

fun steps_text :: "(bool \<times> nat) list \<Rightarrow> string" where
  "steps_text [] = []"
| "steps_text (s # ss) = CHR ''/'' # step_text s @ steps_text ss"

lemma split_on_none: "x \<notin> set s \<Longrightarrow> split_on x s = [s]"
  by (induction s) auto

lemma split_on_cons: "x \<notin> set s \<Longrightarrow> split_on x (s @ x # t) = s # split_on x t"
  by (induction s) auto

lemma split_steps: "split_on (CHR ''/'') (tl (steps_text (s # ss))) = map step_text (s # ss)"
proof (induction ss arbitrary: s)
  case Nil
  then show ?case using step_text_no_slash [of s] by (simp add: split_on_none)
next
  case (Cons t ss)
  then show ?case using step_text_no_slash [of s] by (simp add: split_on_cons)
qed

lemma derive_steps:
  "list_all (\<lambda>(h, n). n < 2 ^ 52) ss \<Longrightarrow>
     rfold (derive_chunk lib) (map step_text ss) k = rfold (\<lambda>s k. hd_derive lib k (Some (step_index s))) ss k"
proof (induction ss arbitrary: k)
  case (Cons s ss)
  obtain h n where s: "s = (h, n)" by (cases s)
  have "derive_chunk lib (step_text s) k = hd_derive lib k (Some (step_index s))"
    using Cons.prems derive_step [of n lib h k] by (simp add: s)
  then show ?case using Cons by (cases "hd_derive lib k (Some (step_index s))") simp_all
qed simp

text \<open>What is left of a path below its key path, with and without the slash that separates them.\<close>

lemma deriveByPath_below:
  assumes "lower a = CHR ''m''" "lower p = CHR ''m''" "\<not> (p = CHR ''m'' \<and> a = CHR ''M'')"
    and "rest' = (if rest \<noteq> [] \<and> hd rest = CHR ''/'' then tl rest else rest)"
  shows "deriveByPath lib k (p # kp @ rest) (Some (a # kp)) =
    rbind (rfold (derive_chunk lib) (split_on (CHR ''/'') rest') k) (\<lambda>newKey.
      Inr (if p = CHR ''M'' \<and> a = CHR ''m'' then hd_neutered lib newKey else newKey))"
proof -
  have g: "(p = CHR ''m'' \<and> a = CHR ''M'') = False" using assms(3) by simp
  have pre: "take (length (a # kp)) (map lower (p # kp @ rest)) = map lower (a # kp)"
    using assms(1,2) by simp
  have d: "drop (length (a # kp)) (p # kp @ rest) = rest" by simp
  show ?thesis
    unfolding deriveByPath_def Let_def option.case list.case list.sel assms(1,2) g pre d assms(4) by simp
qed

lemma derive_follows:
  assumes "lower a = CHR ''m''" "lower p = CHR ''m''" "\<not> (p = CHR ''m'' \<and> a = CHR ''M'')"
    and "ss \<noteq> []" "list_all (\<lambda>(h, n). n < 2 ^ 52) ss"
  shows "deriveByPath lib k (p # kp @ steps_text ss) (Some (a # kp)) =
    rbind (rfold (\<lambda>s k. hd_derive lib k (Some (step_index s))) ss k) (\<lambda>newKey.
      Inr (if p = CHR ''M'' \<and> a = CHR ''m'' then hd_neutered lib newKey else newKey))"
proof -
  have "tl (steps_text ss) = (if steps_text ss \<noteq> [] \<and> hd (steps_text ss) = CHR ''/'' then tl (steps_text ss) else steps_text ss)"
    using assms(4) by (cases ss) simp_all
  note below = deriveByPath_below [OF assms(1-3) this, of lib k kp]
  have "split_on (CHR ''/'') (tl (steps_text ss)) = map step_text ss"
    using assms(4) split_steps by (cases ss) auto
  then show ?thesis using derive_steps [OF assms(5), of lib k] below by simp
qed

text \<open>a path made of the key path and further steps, hardened or not, derives exactly those
  steps from the key, in order; the key is made public when the path starts with \<open>M\<close> and the key
  path with \<open>m\<close>.\<close>

theorem deriveByPath_follows_steps:
  assumes "lower a = CHR ''m''" "lower p = CHR ''m''" "\<not> (p = CHR ''m'' \<and> a = CHR ''M'')"
    and "ss \<noteq> []" "list_all (\<lambda>(h, n). n < 2 ^ 52) ss"
  shows "deriveByPath lib k (p # kp @ steps_text ss) (Some (a # kp)) =
    rbind (rfold (\<lambda>s k. hd_derive lib k (Some (step_index s))) ss k) (\<lambda>newKey.
      Inr (if p = CHR ''M'' \<and> a = CHR ''m'' then hd_neutered lib newKey else newKey))"
  by (rule derive_follows [OF assms])

definition step_log :: "(int list) hd_lib" where
  "step_log = \<lparr>hd_private = (\<lambda>_. True), hd_derive = (\<lambda>k i. case i of Some n \<Rightarrow> Inr (k @ [n]) | None \<Rightarrow> Inl (KeyPathError ''index'')),
     hd_neutered = (\<lambda>k. - 1 # k)\<rparr>"

theorem deriveByPath_follows_steps_witness:
  "deriveByPath step_log [] (CHR ''M'' # ''/44'' @ steps_text [(True, 9), (False, 10)]) (Some (CHR ''m'' # ''/44'')) =
     Inr [- 1, 2 ^ 31 + 9, 10]"
  by (subst deriveByPath_follows_steps) (simp_all add: lower_def step_index_def step_log_def char_of_eq_iff)

text \<open>the key path has to be a prefix of the path only as text. What follows it need not start a
  new step: the rest of a longer index is derived as a step of its own, so below the key of
  \<open>m/1\<close> the path \<open>m/10/3\<close> gives the key of \<open>m/1/0/3\<close>.\<close>

theorem deriveByPath_splits_indices:
  assumes "lower a = CHR ''m''" "lower p = CHR ''m''" "\<not> (p = CHR ''m'' \<and> a = CHR ''M'')"
    and "rest \<noteq> []" "hd rest \<noteq> CHR ''/''"
  shows "deriveByPath lib k (p # kp @ rest) (Some (a # kp)) = deriveByPath lib k (p # kp @ CHR ''/'' # rest) (Some (a # kp))"
  using deriveByPath_below [OF assms(1-3), where rest = rest and rest' = rest and lib = lib and k = k and kp = kp]
    deriveByPath_below [OF assms(1-3), where rest = "CHR ''/'' # rest" and rest' = rest and lib = lib and k = k and kp = kp]
    assms(4,5)
  by simp

theorem deriveByPath_splits_indices_witness:
  "deriveByPath step_log [1] ''m/10/3'' (Some ''m/1'') = Inr [1, 0, 3]"
proof -
  have "deriveByPath step_log [1] (CHR ''m'' # ''/1'' @ ''0/3'') (Some (CHR ''m'' # ''/1'')) =
      deriveByPath step_log [1] (CHR ''m'' # ''/1'' @ CHR ''/'' # ''0/3'') (Some (CHR ''m'' # ''/1''))"
    by (rule deriveByPath_splits_indices) (simp_all add: lower_def)
  also have "CHR ''/'' # ''0/3'' = steps_text [(False, 0), (False, 3)]"
    by (simp add: step_text_def dec_string.simps char_of_def bit_0)
  also have "deriveByPath step_log [1] (CHR ''m'' # ''/1'' @ steps_text [(False, 0), (False, 3)]) (Some (CHR ''m'' # ''/1'')) =
      Inr [1, 0, 3]"
    by (subst derive_follows) (simp_all add: lower_def step_log_def step_index_def char_of_eq_iff)
  finally show ?thesis by simp
qed

text \<open>Sorting does not depend on the order in which the keys came.\<close>

lemma hex_text_inject: "map (of_char :: char \<Rightarrow> nat) (to_hex a) = map of_char (to_hex b) \<longleftrightarrow> a = b"
  by (metis hex_pairs_to_hex inj_map_eq_map inj_on_def of_char_eq_iff)

lemma sortMultiSigKeys_order:
  assumes "mset ks = mset ks'"
  shows "sortMultiSigKeys ks = sortMultiSigKeys ks'"
proof -
  let ?f = "\<lambda>key. map (of_char :: char \<Rightarrow> nat) (to_hex key)"
  have s: "sort (map ?f xs) = map ?f (sort_key ?f xs)" for xs by (rule properties_for_sort) simp_all
  have "sort (map ?f ks) = sort (map ?f ks')"
    by (rule properties_for_sort) (simp_all add: assms)
  then have "map ?f (sort_key ?f ks) = map ?f (sort_key ?f ks')" by (simp only: s)
  moreover have "inj ?f" by (simp add: inj_def hex_text_inject)
  ultimately show ?thesis by (simp add: sortMultiSigKeys_def inj_map_eq_map)
qed

end
