(* ===== verification/Sdk_Size.thy ===== *)
theory Sdk_Size
  imports Tx
begin

text \<open>
  \<open>blocktrail-sdk-nodejs/lib/size_estimation.js\<close>: the size a transaction will have once its inputs
  are signed, estimated from the unspent outputs it spends. The script templates come from the
  bitcoinjs-lib package the SDK depends on (a version with segregated witness that is not part of
  the repository): its functions are the record \<open>script_lib\<close>, an argument of every definition that
  uses one. The last section compares the estimates with the sizes \<open>Bscript\<close> and \<open>Tx\<close> produce.
\<close>

section \<open>The script library and the values of an unspent output\<close>

record script_lib =
  multisig_check :: "buffer \<Rightarrow> bool"
  multisig_decode :: "buffer \<Rightarrow> (nat \<times> buffer list) res"
  pubKey_check :: "buffer \<Rightarrow> bool"
  pubKey_decode :: "buffer \<Rightarrow> buffer res"
  pubKeyHash_check :: "buffer \<Rightarrow> bool"
  pubKeyHash_encode :: "buffer \<Rightarrow> buffer res"
  scriptHash_check :: "buffer \<Rightarrow> bool"
  witnessPubKeyHash_check :: "buffer \<Rightarrow> bool"
  witnessPubKeyHash_decode :: "buffer \<Rightarrow> buffer res"
  witnessScriptHash_check :: "buffer \<Rightarrow> bool"
  lib_classifyOutput :: "buffer \<Rightarrow> string"
  type_MULTISIG :: string
  type_P2PKH :: string
  type_P2PK :: string

text \<open>What a field of an unspent output may hold, and \<open>Buffer.from(v, 'hex')\<close> of it.\<close>

datatype js_val = Text string | Bytes buffer | Num nat | Null | Undefined

definition buffer_from_hex :: "js_val \<Rightarrow> buffer res" where
  "buffer_from_hex v = (case v of
       Text s \<Rightarrow> from_hex s
     | Bytes b \<Rightarrow> Inr b
     | Num _ \<Rightarrow> Inl (JsTypeError ''value must not be a number'')
     | _ \<Rightarrow> Inl (JsTypeError ''must start with number, buffer, array or string''))"

text \<open>\<open>typeof v === 'string' ? Buffer.from(v, 'hex') : null\<close>\<close>

definition hex_or_null :: "js_val \<Rightarrow> buffer option res" where
  "hex_or_null v = (case v of Text s \<Rightarrow> rbind (from_hex s) (\<lambda>b. Inr (Some b)) | _ \<Rightarrow> Inr None)"

record utxo_desc =
  scriptpubkey_hex :: js_val
  redeem_script :: js_val
  witness_script :: js_val

record estimation =
  est_scriptSig :: nat
  est_witness :: nat

section \<open>Sizes of pushes, counts and stacks\<close>

abbreviation (input) SIZE_DER_SIGNATURE :: nat where "SIZE_DER_SIGNATURE \<equiv> 72"

definition getPublicKeySize :: "bool \<Rightarrow> nat" where
  "getPublicKeySize isCompressed = (if isCompressed then 33 else 65)"

definition getLengthForScriptPush :: "nat \<Rightarrow> nat res" where
  "getLengthForScriptPush len =
     (if len < 75 then Inr 1
      else if len \<le> 0xff then Inr 2
      else if len \<le> 0xffff then Inr 3
      else if len \<le> 0xffffffff then Inr 5
      else Inl (JsError ''Size of pushdata too large''))"

text \<open>The literal \<open>18446744073709551615\<close> of the last comparison is the double \<open>2 ^ 64\<close>.\<close>

definition getLengthForVarInt :: "nat \<Rightarrow> nat res" where
  "getLengthForVarInt len =
     (if len < 253 then Inr 1
      else rbind
        (if len < 65535 then Inr 2
         else if len < 4294967295 then Inr 4
         else if len < 2 ^ 64 then Inr 8
         else Inl (JsError ''Size of varint too large''))
        (\<lambda>numBytes. Inr (1 + numBytes)))"

definition estimateMultisigStackSize :: "nat \<Rightarrow> buffer list \<Rightarrow> (nat list \<times> nat) res" where
  "estimateMultisigStackSize m keys =
     (let stackSizes = [0] @ replicate m SIZE_DER_SIGNATURE in
      rbind (rfold (\<lambda>key scriptSize. rbind (getLengthForScriptPush (length key)) (\<lambda>n.
               Inr (scriptSize + (n + length key)))) keys 1) (\<lambda>scriptSize.
        Inr (stackSizes, scriptSize + 2)))"

definition estimateP2PKStackSize :: "buffer \<Rightarrow> (nat list \<times> nat) res" where
  "estimateP2PKStackSize key =
     (let stackSizes = [SIZE_DER_SIGNATURE] in
      rbind (getLengthForScriptPush (length key)) (\<lambda>n.
        Inr (stackSizes, n + length key + 1)))"

text \<open>\<open>None\<close> is an argument left out.\<close>

definition estimateP2PKHStackSize :: "bool option \<Rightarrow> (nat list \<times> nat) res" where
  "estimateP2PKHStackSize isCompressed =
     (let isCompressed = (case isCompressed of None \<Rightarrow> True | Some c \<Rightarrow> c);
          stackSizes = [SIZE_DER_SIGNATURE, getPublicKeySize isCompressed] in
      rbind (getLengthForScriptPush 20) (\<lambda>n. Inr (stackSizes, 2 + n + 20 + 2)))"

definition estimateStackSignatureSize ::
    "nat list \<Rightarrow> bool \<Rightarrow> buffer option \<Rightarrow> buffer option \<Rightarrow> (nat \<times> nat) res" where
  "estimateStackSignatureSize stackSizes isWitness rs ws =
     (if \<not> (ws = None \<or> isWitness) then Inl (JsAssert ''ws === null || isWitness'')
      else
        let witnessSizes = (if isWitness
              then stackSizes @ (case ws of Some w \<Rightarrow> [length w] | None \<Rightarrow> []) else []);
            scriptSigSizes = (if isWitness then [] else stackSizes) @
              (case rs of Some r \<Rightarrow> [length r] | None \<Rightarrow> []) in
        rbind (rfold (\<lambda>elementLen size. rbind (getLengthForScriptPush elementLen) (\<lambda>n.
                 Inr (size + (n + elementLen)))) scriptSigSizes 0) (\<lambda>scriptSigSize.
        rbind (getLengthForVarInt scriptSigSize) (\<lambda>n.
        rbind (if witnessSizes = [] then Inr 0
               else rbind (rfold (\<lambda>elementLen size. rbind (getLengthForVarInt elementLen) (\<lambda>n.
                        Inr (size + (n + elementLen)))) witnessSizes 0) (\<lambda>size.
                    rbind (getLengthForVarInt (length witnessSizes)) (\<lambda>n. Inr (size + n))))
          (\<lambda>witnessSize. Inr (scriptSigSize + n, witnessSize)))))"

section \<open>Inputs\<close>

definition estimateInputFromScripts ::
    "script_lib \<Rightarrow> buffer \<Rightarrow> buffer option \<Rightarrow> buffer option \<Rightarrow> bool \<Rightarrow> bool option \<Rightarrow> (nat \<times> nat) res" where
  "estimateInputFromScripts lib script redeemScript witnessScript isWitness compressed =
     (if \<not> (witnessScript = None \<or> isWitness) then Inl (JsAssert ''witnessScript === null || isWitness'')
      else rbind
        (if multisig_check lib script then
           rbind (multisig_decode lib script) (\<lambda>(m, pubKeys). estimateMultisigStackSize m pubKeys)
         else if pubKey_check lib script then
           rbind (pubKey_decode lib script) estimateP2PKStackSize
         else if pubKeyHash_check lib script then estimateP2PKHStackSize compressed
         else Inl (JsError ''Unsupported script type''))
        (\<lambda>(stackSizes, _). estimateStackSignatureSize stackSizes isWitness redeemScript witnessScript))"

definition estimateUtxo :: "script_lib \<Rightarrow> utxo_desc \<Rightarrow> bool option \<Rightarrow> estimation res" where
  "estimateUtxo lib utxo compressed =
     rbind (buffer_from_hex (scriptpubkey_hex utxo)) (\<lambda>spk.
     rbind (hex_or_null (redeem_script utxo)) (\<lambda>rs.
     rbind (hex_or_null (witness_script utxo)) (\<lambda>ws.
     rbind (if scriptHash_check lib spk
            then (case rs of None \<Rightarrow> Inl (JsError ''Cant estimate, missing redeem script'') | Some r \<Rightarrow> Inr r)
            else Inr spk) (\<lambda>signScript.
     rbind (if witnessPubKeyHash_check lib signScript then
              rbind (witnessPubKeyHash_decode lib signScript) (\<lambda>p2wpkh.
              rbind (pubKeyHash_encode lib p2wpkh) (\<lambda>s. Inr (s, True)))
            else if witnessScriptHash_check lib signScript then
              (case ws of None \<Rightarrow> Inl (JsError ''Can't estimate, missing witness script'') | Some w \<Rightarrow> Inr (w, True))
            else Inr (signScript, False)) (\<lambda>(signScript, witness).
       if lib_classifyOutput lib signScript \<notin> {type_MULTISIG lib, type_P2PKH lib, type_P2PK lib}
       then Inl (JsError ''Unsupported script type'')
       else rbind (estimateInputFromScripts lib signScript rs ws witness compressed) (\<lambda>(s, w).
              Inr \<lparr>est_scriptSig = s, est_witness = w\<rparr>))))))"

definition estimateInputsSize :: "script_lib \<Rightarrow> utxo_desc list \<Rightarrow> bool \<Rightarrow> nat res" where
  "estimateInputsSize lib utxos withWitness =
     rbind (rfold (\<lambda>utxo (inputSize, witnessSize).
              rbind (estimateUtxo lib utxo None) (\<lambda>estimate.
                Inr (inputSize + (32 + 4 + 4 + est_scriptSig estimate),
                     if withWitness then witnessSize + est_witness estimate else witnessSize))) utxos (0, 0))
       (\<lambda>(inputSize, witnessSize).
         Inr (if withWitness \<and> witnessSize > 0 then inputSize + (2 + witnessSize) else inputSize))"

section \<open>Transactions\<close>

definition calculateOutputsSize :: "tx_out list \<Rightarrow> nat res" where
  "calculateOutputsSize outs =
     rfold (\<lambda>out outputsSize. rbind (getLengthForVarInt (length (to_script out))) (\<lambda>scriptSize.
        Inr (outputsSize + (8 + scriptSize + length (to_script out))))) outs 0"

definition estimateTxWeight :: "script_lib \<Rightarrow> transaction \<Rightarrow> utxo_desc list \<Rightarrow> nat res" where
  "estimateTxWeight lib tx utxos =
     rbind (calculateOutputsSize (tx_outs tx)) (\<lambda>outSize.
     rbind (getLengthForVarInt (length utxos)) (\<lambda>vinLen.
     rbind (estimateInputsSize lib utxos False) (\<lambda>vin.
     rbind (getLengthForVarInt (length (tx_outs tx))) (\<lambda>voutLen.
       let baseSize = 4 + vinLen + vin + voutLen + outSize + 4 in
     rbind (getLengthForVarInt (length utxos)) (\<lambda>vinLen.
     rbind (estimateInputsSize lib utxos True) (\<lambda>vin.
     rbind (getLengthForVarInt (length (tx_outs tx))) (\<lambda>voutLen.
       let witSize = 4 + vinLen + vin + voutLen + outSize + 4 in
       Inr (3 * baseSize + witSize))))))))"

text \<open>\<open>Math.ceil(weight / 4)\<close>.\<close>

definition estimateTxVsize :: "script_lib \<Rightarrow> transaction \<Rightarrow> utxo_desc list \<Rightarrow> nat res" where
  "estimateTxVsize lib tx utxos = rbind (estimateTxWeight lib tx utxos) (\<lambda>w. Inr ((w + 3) div 4))"

section \<open>The contract of the script library\<close>

text \<open>What the SDK relies on: the library recognises and takes apart the templates \<open>Bscript\<close> builds,
  and none of them for another.\<close>

locale template_library =
  fixes lib :: script_lib
  assumes multisig_template: "0 < m \<Longrightarrow> m \<le> length ks \<Longrightarrow> length ks \<le> 16 \<Longrightarrow>
        list_all (\<lambda>k. isCanonicalPubKey (Data k)) ks \<Longrightarrow> multisigOutput m ks = Inr r \<Longrightarrow>
        multisig_check lib r \<and> multisig_decode lib r = Inr (m, ks) \<and> lib_classifyOutput lib r = type_MULTISIG lib \<and>
        \<not> witnessPubKeyHash_check lib r \<and> \<not> witnessScriptHash_check lib r"
    and scriptHash_template: "length h = 20 \<Longrightarrow> scriptHashOutput h = Inr p \<Longrightarrow> scriptHash_check lib p"
    and pubKeyHash_template: "length h = 20 \<Longrightarrow> pubKeyHashOutput h = Inr p \<Longrightarrow>
        pubKeyHash_check lib p \<and> lib_classifyOutput lib p = type_P2PKH lib \<and> \<not> multisig_check lib p \<and>
        \<not> pubKey_check lib p \<and> \<not> scriptHash_check lib p \<and>
        \<not> witnessPubKeyHash_check lib p \<and> \<not> witnessScriptHash_check lib p"
    and pubKey_template: "isCanonicalPubKey (Data k) \<Longrightarrow> pubKeyOutput k = Inr p \<Longrightarrow>
        pubKey_check lib p \<and> pubKey_decode lib p = Inr k \<and> lib_classifyOutput lib p = type_P2PK lib \<and>
        \<not> multisig_check lib p \<and> \<not> scriptHash_check lib p \<and>
        \<not> witnessPubKeyHash_check lib p \<and> \<not> witnessScriptHash_check lib p"

text \<open>The unspent outputs the wallet signs for and the scripts that spend them: \<open>full\<close> says that every
  signature is as long as the estimator takes it to be, and not just no longer.\<close>

definition sig_fits :: "bool \<Rightarrow> buffer \<Rightarrow> bool" where
  "sig_fits full s \<longleftrightarrow> s \<noteq> [] \<and> length s \<le> 72 \<and> (full \<longrightarrow> length s = 72)"

inductive spends :: "bool \<Rightarrow> utxo_desc \<Rightarrow> buffer \<Rightarrow> bool" for full where
  multisig: "0 < length ss \<Longrightarrow> length ss \<le> length ks \<Longrightarrow> length ks \<le> 16 \<Longrightarrow>
     list_all (\<lambda>k. isCanonicalPubKey (Data k)) ks \<Longrightarrow> multisigOutput (length ss) ks = Inr r \<Longrightarrow>
     length h = 20 \<Longrightarrow> scriptHashOutput h = Inr p \<Longrightarrow> list_all (sig_fits full) ss \<Longrightarrow>
     multisigInput (map Data ss) None = Inr i \<Longrightarrow> scriptHashInput (Buf i) (Buf r) = Inr b \<Longrightarrow>
     scriptpubkey_hex u = Text (to_hex p) \<Longrightarrow> redeem_script u = Text (to_hex r) \<Longrightarrow>
     hex_or_null (witness_script u) = Inr None \<Longrightarrow> spends full u b"
| pubKeyHash: "length h = 20 \<Longrightarrow> pubKeyHashOutput h = Inr p \<Longrightarrow> sig_fits full s \<Longrightarrow> length k = 33 \<Longrightarrow>
     pubKeyHashInput s k = Inr b \<Longrightarrow> scriptpubkey_hex u = Text (to_hex p) \<Longrightarrow>
     hex_or_null (redeem_script u) = Inr None \<Longrightarrow> hex_or_null (witness_script u) = Inr None \<Longrightarrow> spends full u b"
| pubKey: "isCanonicalPubKey (Data k) \<Longrightarrow> pubKeyOutput k = Inr p \<Longrightarrow> sig_fits full s \<Longrightarrow>
     pubKeyInput s = Inr b \<Longrightarrow> scriptpubkey_hex u = Text (to_hex p) \<Longrightarrow>
     hex_or_null (redeem_script u) = Inr None \<Longrightarrow> hex_or_null (witness_script u) = Inr None \<Longrightarrow> spends full u b"

section \<open>Estimates against sizes\<close>

lemma push_estimate:
  "n \<le> 0xffffffff \<Longrightarrow> n \<noteq> 75 \<Longrightarrow> n \<noteq> 255 \<Longrightarrow> n \<noteq> 65535 \<Longrightarrow> getLengthForScriptPush n = Inr (pushDataSize n)"
  by (auto simp: getLengthForScriptPush_def pushDataSize_def)

lemma varint_estimate:
  "n < 2 ^ 64 \<Longrightarrow> \<exists>v. getLengthForVarInt n = Inr v \<and> varIntSize n \<le> v \<and> (n < 65535 \<longrightarrow> v = varIntSize n)"
  by (rule exI [of _ "if n < 253 then 1 else if n < 65535 then 3 else if n < 4294967295 then 5 else 9"])
     (simp add: getLengthForVarInt_def varIntSize_def)

lemma varint_estimate_mono: "getLengthForVarInt n = Inr v \<Longrightarrow> m \<le> n \<Longrightarrow> varIntSize m \<le> v"
  by (auto simp: getLengthForVarInt_def varIntSize_def split: if_splits)

lemma varint_estimate_small: "n < 65535 \<Longrightarrow> getLengthForVarInt n = Inr (varIntSize n)"
  by (auto simp: getLengthForVarInt_def varIntSize_def)

lemma push_sizes:
  "list_all (\<lambda>n. getLengthForScriptPush n = Inr (f n)) ns \<Longrightarrow>
     rfold (\<lambda>n size. rbind (getLengthForScriptPush n) (\<lambda>l. Inr (size + (l + n)))) ns a =
       Inr (a + sum_list (map (\<lambda>n. f n + n) ns))"
  by (induction ns arbitrary: a) simp_all

lemma scriptSig_estimate:
  assumes "list_all (\<lambda>n. n \<le> 0xffffffff \<and> n \<noteq> 75 \<and> n \<noteq> 255 \<and> n \<noteq> 65535) (ns @ (case rs of Some r \<Rightarrow> [length r] | None \<Rightarrow> []))"
    and "t = sum_list (map (\<lambda>n. pushDataSize n + n) (ns @ (case rs of Some r \<Rightarrow> [length r] | None \<Rightarrow> [])))"
    and "getLengthForVarInt t = Inr v"
  shows "estimateStackSignatureSize ns False rs None = Inr (t + v, 0)"
proof -
  let ?ns = "ns @ (case rs of Some r \<Rightarrow> [length r] | None \<Rightarrow> [])"
  have "list_all (\<lambda>n. getLengthForScriptPush n = Inr (pushDataSize n)) ?ns"
    using assms(1) by (auto simp: list_all_iff intro: push_estimate)
  then show ?thesis
    using assms(2,3) by (simp add: estimateStackSignatureSize_def push_sizes del: map_append sum_list_append)
qed

text \<open>A multisig script of canonical keys is never as long as the lengths at which the estimator and
  the writer of push prefixes disagree.\<close>

lemma key_chunk_sizes:
  "list_all (\<lambda>k. isCanonicalPubKey (Data k)) ks \<Longrightarrow>
     \<exists>a b. sum_list (map (\<lambda>k. chunk_size (Data k)) ks) = 34 * a + 66 * b \<and> a + b = length ks"
proof (induction ks)
  case (Cons k ks)
  then obtain a b where ab: "sum_list (map (\<lambda>k. chunk_size (Data k)) ks) = 34 * a + 66 * b" "a + b = length ks" by auto
  have "length k = 33 \<or> length k = 65" using Cons.prems isCanonicalPubKey_length [of k] by simp
  then show ?case
  proof
    assume "length k = 33"
    then show ?thesis using ab by (intro exI [of _ "Suc a"] exI [of _ b]) (simp add: pushDataSize_def)
  next
    assume "length k = 65"
    then show ?thesis using ab by (intro exI [of _ a] exI [of _ "Suc b"]) (simp add: pushDataSize_def)
  qed
qed simp

lemma multisigOutput_length:
  assumes "0 < m" "m \<le> length ks" "length ks \<le> 16" "list_all (\<lambda>k. isCanonicalPubKey (Data k)) ks"
    and "multisigOutput m ks = Inr r"
  shows "length r \<le> 1059" "length r \<noteq> 75" "length r \<noteq> 255"
proof -
  have "r = concat (map chunk_bytes (multisig_shape (m, ks)))"
    using multisig_built [OF assms(1-4)] assms(5) by auto
  then have "length r = 3 + sum_list (map (\<lambda>k. chunk_size (Data k)) ks)"
    by (simp add: length_concat comp_def)
  then obtain a b where ab: "length r = 3 + (34 * a + 66 * b)" "a + b \<le> 16"
    using key_chunk_sizes [OF assms(4)] assms(3) by auto
  show "length r \<le> 1059" using ab by linarith
  have "a = 0 \<or> a = 1 \<or> a = 2 \<or> a = 3 \<or> a = 4 \<or> a = 5 \<or> a = 6 \<or> a = 7 \<or> 8 \<le> a" by linarith
  then have "17 * a + 33 * b \<noteq> 36 \<and> 17 * a + 33 * b \<noteq> 126" by (elim disjE) (simp_all, arith+)
  then show "length r \<noteq> 75" "length r \<noteq> 255" using ab(1) by linarith+
qed

text \<open>For every input: the estimate exists, covers the script with its length prefix, and is exact
  when the signatures are as long as assumed.\<close>

lemma total_estimate:
  assumes "length b \<le> t" "full \<longrightarrow> t = length b" "t < 65535"
  shows "getLengthForVarInt t = Inr (varIntSize t) \<and> length b + varIntSize (length b) \<le> t + varIntSize t \<and>
           (full \<longrightarrow> t + varIntSize t = length b + varIntSize (length b))"
proof -
  have "varIntSize (length b) \<le> varIntSize t"
    using varint_estimate_mono [OF varint_estimate_small [OF assms(3)] assms(1)] .
  then show ?thesis using assms varint_estimate_small [OF assms(3)] by auto
qed

lemma sig_sizes:
  "list_all (sig_fits full) ss \<Longrightarrow>
     (\<Sum>s\<leftarrow>ss. chunk_size (Data s)) \<le> 73 * length ss \<and> (full \<longrightarrow> (\<Sum>s\<leftarrow>ss. chunk_size (Data s)) = 73 * length ss)"
  by (induction ss) (auto simp: sig_fits_def pushDataSize_def)

lemma estimateMultisigStackSize_canonical:
  assumes "list_all (\<lambda>k. isCanonicalPubKey (Data k)) ks"
  shows "\<exists>n. estimateMultisigStackSize m ks = Inr (0 # replicate m 72, n)"
proof -
  have "\<exists>n. rfold (\<lambda>key scriptSize. rbind (getLengthForScriptPush (length key)) (\<lambda>n.
          Inr (scriptSize + (n + length key)))) ks a = Inr n" for a
    using assms
  proof (induction ks arbitrary: a)
    case (Cons k ks)
    then have "length k = 33 \<or> length k = 65" using isCanonicalPubKey_length [of k] by simp
    then show ?case using Cons by (auto simp: getLengthForScriptPush_def)
  qed simp
  then obtain n where "rfold (\<lambda>key scriptSize. rbind (getLengthForScriptPush (length key)) (\<lambda>n.
          Inr (scriptSize + (n + length key)))) ks 1 = Inr n" by blast
  then show ?thesis by (simp add: estimateMultisigStackSize_def)
qed

lemma compiled_data:
  assumes "list_all (\<lambda>d. length d < 2 ^ 32) ds" "compile (Chunks (map Op os @ map Data ds)) = Inr b" "list_all (\<lambda>n. n < 256) os"
  shows "length b = length os + (\<Sum>d\<leftarrow>ds. chunk_size (Data d))"
proof -
  have "list_all writable_chunk (map Op os @ map Data ds)" using assms(1,3) by (auto simp: list_all_iff)
  then have "b = concat (map chunk_bytes (map Op os @ map Data ds))" using assms(2) by (simp add: compile_Chunks)
  then show ?thesis by (simp add: length_concat comp_def sum_list_triv)
qed

lemma multisig_input_length:
  assumes "list_all (sig_fits full) ss" "multisigInput (map Data ss) None = Inr i"
    and "r \<noteq> []" "length r < 2 ^ 32" "scriptHashInput (Buf i) (Buf r) = Inr b"
  shows "length b = 1 + (\<Sum>s\<leftarrow>ss. chunk_size (Data s)) + chunk_size (Data r)"
proof -
  have canon: "list_all canonical_chunk (Op OP_0 # map Data ss)"
    using assms(1) by (auto simp: list_all_iff sig_fits_def)
  then have "list_all writable_chunk (Op OP_0 # map Data ss)"
    by (auto simp: list_all_iff canonical_writable)
  then have "i = concat (map chunk_bytes (Op OP_0 # map Data ss))"
    using assms(2) by (simp add: multisigInput_def compile_Chunks)
  then have "decompile (Buf i) = Inr (Op OP_0 # map Data ss)"
    using decompile_concat [OF canon] by simp
  then have "compile (Chunks (map Op [OP_0] @ map Data (ss @ [r]))) = Inr b"
    using assms(5) by (simp add: scriptHashInput_def)
  moreover have "list_all (\<lambda>d. length d < 2 ^ 32) (ss @ [r])"
    using assms(1,4) by (auto simp: list_all_iff sig_fits_def)
  ultimately show ?thesis using compiled_data [of "ss @ [r]" "[OP_0]" b] by simp
qed

lemma classified_in: "lib_classifyOutput lib s \<in> {type_MULTISIG lib, type_P2PKH lib, type_P2PK lib} \<Longrightarrow>
    \<not> witnessPubKeyHash_check lib s \<Longrightarrow> \<not> witnessScriptHash_check lib s \<Longrightarrow>
    scriptpubkey_hex u = Text (to_hex p) \<Longrightarrow> hex_or_null (redeem_script u) = Inr rs \<Longrightarrow>
    hex_or_null (witness_script u) = Inr None \<Longrightarrow>
    (if scriptHash_check lib p then rs = Some s else s = p) \<Longrightarrow>
    estimateUtxo lib u c = rbind (estimateInputFromScripts lib s rs None False c)
       (\<lambda>(s, w). Inr \<lparr>est_scriptSig = s, est_witness = w\<rparr>)"
  by (auto simp: estimateUtxo_def buffer_from_hex_def from_hex_to_hex split: if_splits simp del: rbind_Inr_iff)

lemma hex_or_null_text [simp]: "hex_or_null (Text (to_hex b)) = Inr (Some b)"
  by (simp add: hex_or_null_def from_hex_to_hex)

lemma spends_estimate:
  assumes lib: "template_library lib" and "spends full u b"
  shows "\<exists>e. estimateUtxo lib u None = Inr \<lparr>est_scriptSig = e, est_witness = 0\<rparr> \<and>
           length b + varIntSize (length b) \<le> e \<and> (full \<longrightarrow> e = length b + varIntSize (length b)) \<and> length b < 65535"
  using assms(2)
proof cases
  case (multisig ss ks r h p i)
  note t = template_library.multisig_template [OF lib multisig(1-5)]
    and r = multisigOutput_length [OF multisig(1-5)]
  have "r \<noteq> []" using t multisig(1-5) multisig_built [OF multisig(1-4)] by auto
  then have b: "length b = 1 + (\<Sum>s\<leftarrow>ss. chunk_size (Data s)) + chunk_size (Data r)"
    using multisig_input_length [OF multisig(8,9) _ _ multisig(10)] r by simp
  let ?t = "1 + 73 * length ss + chunk_size (Data r)"
  have bt: "length b \<le> ?t" "full \<longrightarrow> ?t = length b" using b sig_sizes [OF multisig(8)] by auto
  have "?t < 65535" using multisig(1-3) r by (simp add: pushDataSize_def)
  note e = total_estimate [OF bt this]
  have "estimateStackSignatureSize (0 # replicate (length ss) 72) False (Some r) None = Inr (?t + varIntSize ?t, 0)"
    using e r multisig(1) by (intro scriptSig_estimate) (auto simp: list_all_iff pushDataSize_def sum_list_replicate)
  moreover obtain n where "estimateMultisigStackSize (length ss) ks = Inr (0 # replicate (length ss) 72, n)"
    using estimateMultisigStackSize_canonical [OF multisig(4)] by blast
  ultimately have "estimateInputFromScripts lib r (Some r) None False None = Inr (?t + varIntSize ?t, 0)"
    using t by (simp add: estimateInputFromScripts_def)
  moreover have "scriptHash_check lib p" using template_library.scriptHash_template [OF lib multisig(6,7)] .
  ultimately have "estimateUtxo lib u None = Inr \<lparr>est_scriptSig = ?t + varIntSize ?t, est_witness = 0\<rparr>"
    using t multisig(11-13) by (subst classified_in [of lib r u p "Some r"]) simp_all
  then show ?thesis using e bt \<open>?t < 65535\<close> by auto
next
  case (pubKeyHash h p s k)
  note t = template_library.pubKeyHash_template [OF lib pubKeyHash(1,2)]
  have "length b = length ([] :: nat list) + (\<Sum>d\<leftarrow>[s, k]. chunk_size (Data d))"
    using pubKeyHash(3-5) by (intro compiled_data) (auto simp: sig_fits_def pubKeyHashInput_def)
  then have bt: "length b \<le> 107" "full \<longrightarrow> 107 = length b"
    using sig_sizes [of full "[s]"] pubKeyHash(3,4) by (auto simp: pushDataSize_def sig_fits_def)
  note e = total_estimate [OF bt]
  have "estimateStackSignatureSize [72, 33] False None None = Inr (107 + varIntSize 107, 0)"
    using e by (intro scriptSig_estimate) (auto simp: pushDataSize_def)
  then have "estimateInputFromScripts lib p None None False None = Inr (107 + varIntSize 107, 0)"
    using t by (simp add: estimateInputFromScripts_def estimateP2PKHStackSize_def getPublicKeySize_def
        getLengthForScriptPush_def)
  then have "estimateUtxo lib u None = Inr \<lparr>est_scriptSig = 107 + varIntSize 107, est_witness = 0\<rparr>"
    using t pubKeyHash(6-8) by (subst classified_in [of lib p u p None]) simp_all
  then show ?thesis using e bt by auto
next
  case (pubKey k p s)
  note t = template_library.pubKey_template [OF lib pubKey(1,2)]
  have k: "length k = 33 \<or> length k = 65" using isCanonicalPubKey_length pubKey(1) by blast
  have "length b = length ([] :: nat list) + (\<Sum>d\<leftarrow>[s]. chunk_size (Data d))"
    using pubKey(3-4) by (intro compiled_data) (auto simp: sig_fits_def pubKeyInput_def)
  then have bt: "length b \<le> 73" "full \<longrightarrow> 73 = length b"
    using sig_sizes [of full "[s]"] pubKey(3) by auto
  note e = total_estimate [OF bt]
  have "estimateStackSignatureSize [72] False None None = Inr (73 + varIntSize 73, 0)"
    using e by (intro scriptSig_estimate) (auto simp: pushDataSize_def)
  then have "estimateInputFromScripts lib p None None False None = Inr (73 + varIntSize 73, 0)"
    using t k by (auto simp: estimateInputFromScripts_def estimateP2PKStackSize_def getLengthForScriptPush_def)
  then have "estimateUtxo lib u None = Inr \<lparr>est_scriptSig = 73 + varIntSize 73, est_witness = 0\<rparr>"
    using t pubKey(5-7) by (subst classified_in [of lib p u p None]) simp_all
  then show ?thesis using e bt by auto
qed

lemma inputs_estimate:
  assumes lib: "template_library lib" and "list_all2 (\<lambda>u i. spends full u (ti_script i)) utxos ins"
  shows "\<exists>v. (\<forall>w. estimateInputsSize lib utxos w = Inr v) \<and>
           foldl (\<lambda>sum input. sum + 40 + scriptSize (ti_script input)) 0 ins \<le> v \<and>
           (full \<longrightarrow> v = foldl (\<lambda>sum input. sum + 40 + scriptSize (ti_script input)) 0 ins)"
proof -
  let ?step = "\<lambda>withWitness utxo (inputSize, witnessSize).
        rbind (estimateUtxo lib utxo None) (\<lambda>estimate.
          Inr (inputSize + (32 + 4 + 4 + est_scriptSig estimate),
               if withWitness then witnessSize + est_witness estimate else witnessSize))"
  have "\<exists>v. (\<forall>w. rfold (?step w) utxos (a, 0) = Inr (v, 0)) \<and>
           foldl (\<lambda>sum input. sum + 40 + scriptSize (ti_script input)) c ins \<le> v \<and>
           (full \<longrightarrow> v = foldl (\<lambda>sum input. sum + 40 + scriptSize (ti_script input)) c ins)"
    if "c \<le> a" "full \<longrightarrow> a = c" for a c
    using assms(2) that
  proof (induction utxos ins arbitrary: a c rule: list_all2_induct)
    case (Cons u us i ins)
    from spends_estimate [OF lib Cons.hyps(1)] obtain e where e: "estimateUtxo lib u None = Inr \<lparr>est_scriptSig = e, est_witness = 0\<rparr>"
        "length (ti_script i) + varIntSize (length (ti_script i)) \<le> e"
        "full \<longrightarrow> e = length (ti_script i) + varIntSize (length (ti_script i))" by blast
    have "c + 40 + scriptSize (ti_script i) \<le> a + (40 + e)" "full \<longrightarrow> a + (40 + e) = c + 40 + scriptSize (ti_script i)"
      using e Cons.prems by (auto simp: scriptSize_def)
    note ih = Cons.IH [OF this]
    have "?step w u (a, 0) = Inr (a + (40 + e), 0)" for w using e(1) by simp
    then have "rfold (?step w) (u # us) (a, 0) = rfold (?step w) us (a + (40 + e), 0)" for w
      by (simp only: rfold.simps rbind_simps)
    then show ?case using ih by (simp only: foldl_Cons)
  qed simp
  from this [of 0 0] obtain v where v: "\<forall>w. rfold (?step w) utxos (0, 0) = Inr (v, 0)"
      "foldl (\<lambda>sum input. sum + 40 + scriptSize (ti_script input)) 0 ins \<le> v"
      "full \<longrightarrow> v = foldl (\<lambda>sum input. sum + 40 + scriptSize (ti_script input)) 0 ins" by auto
  then have "\<forall>w. estimateInputsSize lib utxos w = Inr v" by (simp add: estimateInputsSize_def)
  then show ?thesis using v(2,3) by blast
qed

lemma outputs_estimate:
  assumes "list_all (\<lambda>out. length (to_script out) < 2 ^ 64) outs"
  shows "\<exists>v. calculateOutputsSize outs = Inr v \<and>
           foldl (\<lambda>sum output. sum + 8 + scriptSize (to_script output)) 0 outs \<le> v \<and>
           (list_all (\<lambda>out. length (to_script out) < 65535) outs \<longrightarrow>
              v = foldl (\<lambda>sum output. sum + 8 + scriptSize (to_script output)) 0 outs)"
proof -
  have "\<exists>v. rfold (\<lambda>out outputsSize. rbind (getLengthForVarInt (length (to_script out))) (\<lambda>scriptSize.
          Inr (outputsSize + (8 + scriptSize + length (to_script out))))) outs a = Inr v \<and>
           foldl (\<lambda>sum output. sum + 8 + scriptSize (to_script output)) c outs \<le> v \<and>
           (c = a \<and> list_all (\<lambda>out. length (to_script out) < 65535) outs \<longrightarrow>
              v = foldl (\<lambda>sum output. sum + 8 + scriptSize (to_script output)) c outs)" if "c \<le> a" for a c
    using assms that
  proof (induction outs arbitrary: a c)
    case (Cons out outs)
    have small: "length (to_script out) < 2 ^ 64" using Cons.prems by simp
    from varint_estimate [OF this] obtain n where n: "getLengthForVarInt (length (to_script out)) = Inr n"
        "varIntSize (length (to_script out)) \<le> n"
        "length (to_script out) < 65535 \<longrightarrow> n = varIntSize (length (to_script out))" by blast
    have "c + 8 + scriptSize (to_script out) \<le> a + (8 + n + length (to_script out))"
      using n Cons.prems by (simp add: scriptSize_def)
    moreover have "c = a \<and> length (to_script out) < 65535 \<longrightarrow>
        c + 8 + scriptSize (to_script out) = a + (8 + n + length (to_script out))"
      using n by (simp add: scriptSize_def)
    moreover have "list_all (\<lambda>out. length (to_script out) < 2 ^ 64) outs" using Cons.prems by simp
    ultimately obtain v where "rfold (\<lambda>out outputsSize. rbind (getLengthForVarInt (length (to_script out))) (\<lambda>scriptSize.
          Inr (outputsSize + (8 + scriptSize + length (to_script out))))) outs (a + (8 + n + length (to_script out))) = Inr v"
        "foldl (\<lambda>sum output. sum + 8 + scriptSize (to_script output)) (c + 8 + scriptSize (to_script out)) outs \<le> v"
        "c + 8 + scriptSize (to_script out) = a + (8 + n + length (to_script out)) \<and> list_all (\<lambda>out. length (to_script out) < 65535) outs \<longrightarrow>
            v = foldl (\<lambda>sum output. sum + 8 + scriptSize (to_script output)) (c + 8 + scriptSize (to_script out)) outs"
      using Cons.IH by meson
    then show ?case
      using n(1) \<open>c = a \<and> length (to_script out) < 65535 \<longrightarrow> _\<close> by (simp del: rbind_Inr_iff)
  qed simp
  from this [of 0 0] show ?thesis by (simp add: calculateOutputsSize_def)
qed

text \<open>The contract is met by the functions of \<open>Bscript\<close>, with the byte patterns of the witness
  programs.\<close>

definition bscript_lib :: script_lib where
  "bscript_lib = \<lparr>
     multisig_check = (\<lambda>b. isMultisigOutput (Buf b) = Inr True),
     multisig_decode = (\<lambda>b. rbind (decompile (Buf b)) (\<lambda>chunks.
       case chunks of
         Op mOp # keys \<Rightarrow> Inr (mOp - OP_INT_BASE, concat (map (\<lambda>c. case c of Data k \<Rightarrow> [k] | Op _ \<Rightarrow> []) keys))
       | _ \<Rightarrow> Inl (JsTypeError ''multisig''))),
     pubKey_check = (\<lambda>b. isPubKeyOutput (Buf b) = Inr True),
     pubKey_decode = (\<lambda>b. rbind (decompile (Buf b)) (\<lambda>chunks.
       case chunks of Data k # _ \<Rightarrow> Inr k | _ \<Rightarrow> Inl (JsTypeError ''pubKey''))),
     pubKeyHash_check = (\<lambda>b. isPubKeyHashOutput (Buf b) = Inr True),
     pubKeyHash_encode = pubKeyHashOutput,
     scriptHash_check = (\<lambda>b. isScriptHashOutput (Buf b) = Inr True),
     witnessPubKeyHash_check = (\<lambda>b. length b = 22 \<and> take 2 b = [0, 20]),
     witnessPubKeyHash_decode = (\<lambda>b. Inr (drop 2 b)),
     witnessScriptHash_check = (\<lambda>b. length b = 34 \<and> take 2 b = [0, 32]),
     lib_classifyOutput = (\<lambda>b. case classifyOutput (Buf b) of Inr t \<Rightarrow> t | Inl _ \<Rightarrow> ''nonstandard''),
     type_MULTISIG = ''multisig'', type_P2PKH = ''pubkeyhash'', type_P2PK = ''pubkey''\<rparr>"

lemma keys_of_chunks [simp]: "concat (map ((\<lambda>c. case c of Data k \<Rightarrow> [k] | Op _ \<Rightarrow> []) \<circ> Data) ks) = ks"
  by (induction ks) simp_all

lemma bscript_no_witness: "b = x # bs \<Longrightarrow> x \<noteq> 0 \<Longrightarrow>
    \<not> witnessPubKeyHash_check bscript_lib b \<and> \<not> witnessScriptHash_check bscript_lib b"
  by (simp add: bscript_lib_def)

lemma small_opcode_nonzero: "0 < c \<Longrightarrow> c < 256 \<Longrightarrow> (word_of_nat c :: byte) \<noteq> 0"
  using unat_word_of_nat_byte [of c] by fastforce

lemma built_is:
  assumes "\<exists>b. x = Inr b \<and> b = c \<and> decompile (Buf b) = Inr cs \<and> recognise (Buf b) = Inr True" "x = Inr p"
  shows "p = c" "decompile (Buf p) = Inr cs" "recognise (Buf p) = Inr True"
  using assms by auto

interpretation bscript: template_library bscript_lib
proof (unfold_locales, goal_cases)
  case (1 m ks r)
  note ok = 1(1-4)
  obtain b where "multisigOutput m ks = Inr b" "b = concat (map chunk_bytes (multisig_shape (m, ks)))"
      "decompile (Buf b) = Inr (multisig_shape (m, ks))" "classifyOutput (Buf b) = Inr ''multisig''"
    using multisig_built [OF ok] by (elim exE conjE)
  then have r: "r = concat (map chunk_bytes (multisig_shape (m, ks)))"
      "decompile (Buf r) = Inr (multisig_shape (m, ks))" "classifyOutput (Buf r) = Inr ''multisig''"
    using 1(5) by simp_all
  have "multisig_ok (m, ks)" using ok by simp
  from multisig_t.built [OF this] have "isMultisigOutput (Buf r) = Inr True" using 1(5) by auto
  moreover have "r = word_of_nat (OP_INT_BASE + m) # concat (map chunk_bytes (tl (multisig_shape (m, ks))))"
    using r(1) by simp
  moreover have "(word_of_nat (OP_INT_BASE + m) :: byte) \<noteq> 0" using ok by (intro small_opcode_nonzero) simp_all
  ultimately show ?case using r(2,3) bscript_no_witness by (simp add: bscript_lib_def)
next
  case (2 h p)
  then show ?case using built_is(3) [OF scriptHash_t.built [OF 2(1)] 2(2)] by (simp add: bscript_lib_def)
next
  case (3 h p)
  let ?cs = "p2pkh_chunks h"
  note p = built_is [OF pubKeyHash_t.built [OF 3(1)] 3(2), folded p2pkh_chunks_def]
  have "output_kind ?cs = ''pubkeyhash''" using 3(1) by (auto simp: output_kind_def)
  then have "classifyOutput (Buf p) = Inr ''pubkeyhash''" using classifyOutput_Buf [OF p(2)] by simp
  moreover have "\<not> is_multisig_chunks ?cs" by (auto simp: is_multisig_chunks_def p2pkh_chunks_def)
  then have "isMultisigOutput (Buf p) \<noteq> Inr True"
    using isMultisigOutput_iff [of ?cs] p(2) by (simp add: isMultisigOutput_def)
  moreover have "isPubKeyOutput (Buf p) \<noteq> Inr True"
    using isPubKeyOutput_iff [of ?cs] p(2) by (simp add: isPubKeyOutput_def p2pkh_chunks_def)
  moreover have b: "p = 0x76 # [0xa9, 0x14] @ h @ [0x88, 0xac]" using p(1) p2pkh_bytes [OF 3(1)] by simp
  moreover have "isScriptHashOutput (Buf p) \<noteq> Inr True" using b by (auto simp: isScriptHashOutput_bytes)
  ultimately show ?case using p(3) bscript_no_witness [OF b] by (simp add: bscript_lib_def)
next
  case (4 k p)
  let ?cs = "[Data k, Op OP_CHECKSIG]"
  note p = built_is [OF pubKey_t.built [OF 4(1)] 4(2)]
  have len: "length k = 33 \<or> length k = 65" using isCanonicalPubKey_length [OF 4(1)] .
  have nm: "\<not> is_multisig_chunks ?cs" by (auto simp: is_multisig_chunks_def)
  have "is_pubkey_chunks ?cs" using 4(1) by (simp add: is_pubkey_chunks_def)
  then have "output_kind ?cs = ''pubkey''" using nm by (simp add: output_kind_def p2pkh_chunks_def p2sh_chunks_def)
  then have "classifyOutput (Buf p) = Inr ''pubkey''" using classifyOutput_Buf [OF p(2)] by simp
  moreover have "isMultisigOutput (Buf p) \<noteq> Inr True"
    using isMultisigOutput_iff [of ?cs] nm p(2) by (simp add: isMultisigOutput_def)
  moreover have b: "p = word_of_nat (length k) # k @ [0xac]" using p(1) len by (auto simp: push_prefix_def)
  moreover have nz: "(word_of_nat (length k) :: byte) \<noteq> 0" using len by (intro small_opcode_nonzero) auto
  moreover have "isScriptHashOutput (Buf p) \<noteq> Inr True" using b len by (auto simp: isScriptHashOutput_bytes)
  ultimately show ?case using p(2,3) bscript_no_witness [OF b nz] by (simp add: bscript_lib_def)
qed

section \<open>The estimates cover the signed transaction\<close>

lemma signed_size_estimated:
  assumes lib: "template_library lib" and sig: "list_all2 (\<lambda>u i. spends full u (ti_script i)) utxos (tx_ins stx)"
    and outs: "tx_outs stx = tx_outs tx" and ok: "writable_tx stx"
  shows "\<exists>v b. estimateTxVsize lib tx utxos = Inr v \<and> tx_toBuffer stx = Inr b \<and> length b \<le> v \<and>
           (full \<and> length utxos < 65535 \<and> length (tx_outs tx) < 65535 \<and>
              list_all (\<lambda>out. length (to_script out) < 65535) (tx_outs tx) \<longrightarrow> v = length b)"
proof -
  have out: "list_all (\<lambda>out. length (to_script out) < 2 ^ 64) (tx_outs tx)"
    using ok outs by (auto simp: writable_tx_def list_all_iff out_ok_def)
  from outputs_estimate [OF out] obtain outSize where o: "calculateOutputsSize (tx_outs tx) = Inr outSize"
      "foldl (\<lambda>sum output. sum + 8 + scriptSize (to_script output)) 0 (tx_outs tx) \<le> outSize"
      "list_all (\<lambda>out. length (to_script out) < 65535) (tx_outs tx) \<longrightarrow>
         outSize = foldl (\<lambda>sum output. sum + 8 + scriptSize (to_script output)) 0 (tx_outs tx)"
    by blast
  from inputs_estimate [OF lib sig] obtain v where v: "\<forall>w. estimateInputsSize lib utxos w = Inr v"
      "foldl (\<lambda>sum input. sum + 40 + scriptSize (ti_script input)) 0 (tx_ins stx) \<le> v"
      "full \<longrightarrow> v = foldl (\<lambda>sum input. sum + 40 + scriptSize (ti_script input)) 0 (tx_ins stx)"
    by blast
  have len: "length utxos = length (tx_ins stx)" using sig by (rule list_all2_lengthD)
  have small: "length utxos < 2 ^ 64" "length (tx_outs tx) < 2 ^ 64"
    using ok len outs by (simp_all add: writable_tx_def)
  obtain nin where nin: "getLengthForVarInt (length utxos) = Inr nin" "varIntSize (length utxos) \<le> nin"
      "length utxos < 65535 \<longrightarrow> nin = varIntSize (length utxos)"
    using varint_estimate [OF small(1)] by blast
  obtain nout where nout: "getLengthForVarInt (length (tx_outs tx)) = Inr nout" "varIntSize (length (tx_outs tx)) \<le> nout"
      "length (tx_outs tx) < 65535 \<longrightarrow> nout = varIntSize (length (tx_outs tx))"
    using varint_estimate [OF small(2)] by blast
  let ?v = "4 + nin + v + nout + outSize + 4"
  have "estimateTxWeight lib tx utxos = Inr (4 * ?v)"
    using o(1) v(1) nin(1) nout(1) by (simp add: estimateTxWeight_def Let_def)
  then have "estimateTxVsize lib tx utxos = Inr ?v" by (simp add: estimateTxVsize_def)
  moreover have "length (tx_bytes stx) = byteLength stx" "tx_toBuffer stx = Inr (tx_bytes stx)"
    using ok by (simp_all add: tx_toBuffer_bytes byteLength_bytes)
  moreover have "byteLength stx \<le> ?v" using o(2) v(2) nin(2) nout(2) len outs by (simp add: byteLength_def)
  moreover have "full \<and> length utxos < 65535 \<and> length (tx_outs tx) < 65535 \<and>
      list_all (\<lambda>out. length (to_script out) < 65535) (tx_outs tx) \<longrightarrow> ?v = byteLength stx"
    using o(3) v(3) nin(3) nout(3) len outs by (simp add: byteLength_def)
  ultimately show ?thesis by metis
qed

definition example_redeem :: buffer where "example_redeem = [0x51, 33, 2] @ replicate 32 1 @ [0x51, 0xae]"
definition example_scriptSig :: buffer where
  "example_scriptSig = [0, 72] @ replicate 72 9 @ [37] @ example_redeem"
definition example_utxo :: utxo_desc where
  "example_utxo = \<lparr>scriptpubkey_hex = Text (to_hex ([0xa9, 0x14] @ replicate 20 7 @ [0x87])),
     redeem_script = Text (to_hex example_redeem), witness_script = Null\<rparr>"

text \<open>C33: for a transaction that spends pay-to-script-hash multisig outputs, pay-to-public-key
  outputs, and pay-to-public-key-hash outputs of compressed keys, the estimate made before it is
  signed is at least the number of bytes it serialises to afterwards, whatever signatures of at
  most 72 bytes it is signed with. It is exact when they all have 72 bytes (and no count or output
  script reaches 65535).\<close>

theorem estimate_covers_signed_transaction:
  assumes "template_library lib" "list_all2 (\<lambda>u i. spends full u (ti_script i)) utxos (tx_ins stx)"
    and "tx_outs stx = tx_outs tx" "writable_tx stx"
  shows "\<exists>v b. estimateTxVsize lib tx utxos = Inr v \<and> tx_toBuffer stx = Inr b \<and> length b \<le> v \<and>
           (full \<and> length utxos < 65535 \<and> length (tx_outs tx) < 65535 \<and>
              list_all (\<lambda>out. length (to_script out) < 65535) (tx_outs tx) \<longrightarrow> v = length b)"
  by (rule signed_size_estimated [OF assms])

lemma length_example_scriptSig: "length example_scriptSig = 112"
  by (simp add: example_scriptSig_def example_redeem_def)

lemma example_spends: "spends True example_utxo example_scriptSig"
proof -
  let ?ks = "[2 # replicate 32 1] :: buffer list"
  have k: "isCanonicalPubKey (Data (2 # replicate 32 1))" by (simp add: isCanonicalPubKey_def byte_at_def)
  have r: "multisigOutput 1 ?ks = Inr example_redeem"
    using multisig_built [of 1 ?ks] k by (auto simp: push_prefix_def example_redeem_def)
  have p: "scriptHashOutput (replicate 20 7) = Inr ([0xa9, 0x14] @ replicate 20 7 @ [0x87])"
    using scriptHash_t.built [of "replicate 20 7"] p2sh_bytes [of "replicate 20 7"] by (simp add: p2sh_chunks_def)
  let ?cs = "[Op 0, Data (replicate 72 9)]"
  have i: "multisigInput (map Data [replicate 72 9]) None = Inr (concat (map chunk_bytes ?cs))"
    by (simp add: multisigInput_def compile_Chunks)
  have "decompile (Buf (concat (map chunk_bytes ?cs))) = Inr ?cs" by (rule decompile_concat) simp
  then have b: "scriptHashInput (Buf (concat (map chunk_bytes ?cs))) (Buf example_redeem) = Inr example_scriptSig"
    by (simp add: scriptHashInput_def compile_Chunks push_prefix_def example_redeem_def example_scriptSig_def)
  show ?thesis
    by (rule spends.multisig [OF _ _ _ _ _ _ p _ i b, of "[2 # replicate 32 1]"])
       (use k r in \<open>simp_all add: sig_fits_def example_utxo_def hex_or_null_def\<close>)
qed

theorem estimate_covers_signed_transaction_witness:
  "\<exists>v b. estimateTxVsize bscript_lib new_transaction [example_utxo] = Inr v \<and>
     tx_toBuffer (new_transaction\<lparr>tx_ins := [\<lparr>ti_hash = replicate 32 0, ti_index = 0, ti_script = example_scriptSig, ti_sequence = 0\<rparr>]\<rparr>)
       = Inr b \<and> length b \<le> v \<and>
     (True \<and> length [example_utxo] < 65535 \<and> length (tx_outs new_transaction) < 65535 \<and>
        list_all (\<lambda>out. length (to_script out) < 65535) (tx_outs new_transaction) \<longrightarrow> v = length b)"
  by (rule estimate_covers_signed_transaction [OF bscript.template_library_axioms])
     (simp_all add: example_spends new_transaction_def writable_tx_def in_ok_def length_example_scriptSig)

text \<open>the estimator is told nothing about a pay-to-public-key-hash key and takes it to be
  compressed: spending with a 65-byte key and a signature of ordinary length gives a script longer
  than the estimate.\<close>

theorem uncompressed_key_underestimated:
  assumes "template_library lib" "length h = 20" "pubKeyHashOutput h = Inr p"
    and "length k = 65" "41 \<le> length s" "length s \<le> 75" "pubKeyHashInput s k = Inr b"
  shows "\<exists>e. estimateUtxo lib \<lparr>scriptpubkey_hex = Text (to_hex p), redeem_script = Null, witness_script = Null\<rparr> None =
             Inr \<lparr>est_scriptSig = e, est_witness = 0\<rparr> \<and> e < length b + varIntSize (length b)"
proof -
  let ?u = "\<lparr>scriptpubkey_hex = Text (to_hex p), redeem_script = Null, witness_script = Null\<rparr>"
  have "pubKeyHashInput (replicate 72 0) (replicate 33 0) = Inr (concat (map chunk_bytes [Data (replicate 72 0), Data (replicate 33 0)]))"
    by (simp add: pubKeyHashInput_def compile_Chunks)
  then have "spends True ?u (concat (map chunk_bytes [Data (replicate 72 0), Data (replicate 33 0)]))"
    using assms(2,3) by (intro spends.pubKeyHash) (auto simp: sig_fits_def hex_or_null_def)
  from spends_estimate [OF assms(1) this] have "estimateUtxo lib ?u None = Inr \<lparr>est_scriptSig = 108, est_witness = 0\<rparr>"
    by (auto simp: pushDataSize_def varIntSize_def)
  moreover have "length b = length ([] :: nat list) + (\<Sum>d\<leftarrow>[s, k]. chunk_size (Data d))"
    using assms(4,6,7) by (intro compiled_data) (auto simp: pubKeyHashInput_def)
  then have "108 < length b + varIntSize (length b)"
    using assms(4-6) by (simp add: pushDataSize_def varIntSize_def)
  ultimately show ?thesis by blast
qed

theorem uncompressed_key_underestimated_witness:
  "\<exists>e. estimateUtxo bscript_lib
         \<lparr>scriptpubkey_hex = Text (to_hex ([0x76, 0xa9, 0x14] @ replicate 20 7 @ [0x88, 0xac])), redeem_script = Null, witness_script = Null\<rparr> None =
       Inr \<lparr>est_scriptSig = e, est_witness = 0\<rparr> \<and>
     e < length ((71 # replicate 71 3) @ (65 # replicate 65 4) :: buffer) +
         varIntSize (length ((71 # replicate 71 3) @ (65 # replicate 65 4) :: buffer))"
proof (rule uncompressed_key_underestimated [OF bscript.template_library_axioms, of "replicate 20 7" _ "replicate 65 4" "replicate 71 3"])
  show "pubKeyHashOutput (replicate 20 7) = Inr ([0x76, 0xa9, 0x14] @ replicate 20 7 @ [0x88, 0xac])"
    using pubKeyHash_t.built [of "replicate 20 7"] p2pkh_bytes [of "replicate 20 7"] by (simp add: p2pkh_chunks_def)
  show "pubKeyHashInput (replicate 71 3) (replicate 65 4) = Inr ((71 # replicate 71 3) @ (65 # replicate 65 4))"
    by (simp add: pubKeyHashInput_def compile_Chunks push_prefix_def)
qed simp_all

end
