(* ===== verification/Sdk_Fees.thy ===== *)
theory Sdk_Fees
  imports Sdk_Size Js_Number
begin

text \<open>
  The fee estimates of \<open>blocktrail-sdk-nodejs/lib/wallet.js\<close>, with the arithmetic on doubles they
  are computed by, and the amounts of \<open>lib/blocktrail.js\<close>.
\<close>

section \<open>Arithmetic on doubles\<close>

definition js_div :: "nat \<Rightarrow> nat \<Rightarrow> js_number" where
  "js_div n d = to_double False n d"

fun js_times :: "js_number \<Rightarrow> nat \<Rightarrow> js_number" where
  "js_times NaN k = NaN"
| "js_times (Infinite neg) k = (if k = 0 then NaN else Infinite neg)"
| "js_times (Finite neg p d) k = to_double neg (p * k) d"

text \<open>\<open>Math.ceil\<close>.\<close>

fun js_ceil :: "js_number \<Rightarrow> js_number" where
  "js_ceil (Finite False p d) = Finite False ((p + d - 1) div d) 1"
| "js_ceil (Finite True p d) = Finite True (p div d) 1"
| "js_ceil x = x"

text \<open>\<open>parseInt(x, 10)\<close> of a number that is not negative reads the digits before the point of its
  decimal text; \<open>None\<close> is \<open>NaN\<close>. The text has no exponent between \<open>10^-6\<close> and \<open>10^21\<close>, and the
  products below stay there; what is read of an exponent notation is not modelled.\<close>

fun js_parseInt :: "js_number \<Rightarrow> nat option" where
  "js_parseInt (Finite neg p d) =
     (if p = 0 \<or> d \<le> p * 10 ^ 6 \<and> p < 10 ^ 21 * d then Some (p div d) else None)"
| "js_parseInt _ = None"

section \<open>Amounts\<close>

definition COIN :: nat where "COIN = 100000000"
definition DUST :: int where "DUST = 2730"
definition BASE_FEE :: nat where "BASE_FEE = 10000"

section \<open>Estimates\<close>

text \<open>No \<open>feePerKb\<close>, or the number 0, asks for the legacy calculation.\<close>

definition fee_of_size :: "nat \<Rightarrow> nat option \<Rightarrow> nat option" where
  "fee_of_size sz feePerKb =
     (let sizeKB = js_div sz 1000; sizeKBCeil = js_ceil (js_div sz 1000) in
      case feePerKb of
        Some (Suc f) \<Rightarrow> js_parseInt (js_times sizeKB (Suc f))
      | _ \<Rightarrow> js_parseInt (js_times sizeKBCeil BASE_FEE))"

definition estimateVsizeFee :: "script_lib \<Rightarrow> transaction \<Rightarrow> utxo_desc list \<Rightarrow> nat option \<Rightarrow> nat option res" where
  "estimateVsizeFee lib tx utxos feePerKb =
     rbind (estimateTxVsize lib tx utxos) (\<lambda>vsize. Inr (fee_of_size vsize feePerKb))"

text \<open>\<open>multiSig\<close> is set to \<open>[2, 3]\<close> before it is tested, so every input counts as one of 2-of-3
  multisig; of the rest of the loop only the call of \<open>classifyInput\<close>, which may throw, is left.\<close>

definition estimateIncompleteTxSize :: "(buffer \<Rightarrow> string res) \<Rightarrow> transaction \<Rightarrow> nat res" where
  "estimateIncompleteTxSize classify_in tx =
     (let size = 4 + 4 + 4 + 4; size = size + length (tx_outs tx) * 34 in
      rfold (\<lambda>txin size. rbind (classify_in (ti_script txin)) (\<lambda>scriptType.
        let multiSig = (2, 3 :: nat) in
        Inr (size + (32 + 4 + 3 + 1 + (1 + 72) * fst multiSig + (2 + 105) + 4)))) (tx_ins tx) size)"

definition estimateIncompleteTxFee :: "(buffer \<Rightarrow> string res) \<Rightarrow> transaction \<Rightarrow> nat option \<Rightarrow> nat option res" where
  "estimateIncompleteTxFee classify_in tx feePerKb =
     rbind (estimateIncompleteTxSize classify_in tx) (\<lambda>sz. Inr (fee_of_size sz feePerKb))"

definition estimateFee :: "nat \<Rightarrow> nat \<Rightarrow> js_number" where
  "estimateFee txinCnt txoutCnt =
     (let size = 4 + 4 + 4 + 4;
          size = size + txoutCnt * 34;
          size = size + (32 + 4 + 3 + 1 + (1 + 72) * 2 + (2 + 105) + 4) * txinCnt;
          sizeKB = js_ceil (js_div size 1000)
      in js_times sizeKB BASE_FEE)"

section \<open>The doubles are exact here\<close>

text \<open>Dividing a size by 1000 is rounded, but never across an integer.\<close>

lemma round_half_even_bounds: "0 < d \<Longrightarrow> 2 * p \<le> 2 * round_half_even p d * d + d" "0 < d \<Longrightarrow> 2 * round_half_even p d * d \<le> 2 * p + d"
proof -
  assume d: "0 < d"
  define q r where "q = p div d" "r = p mod d"
  have p: "p = q * d + r" "r < d" using d by (simp_all add: q_r_def)
  have "round_half_even p d = (if 2 * r < d then q else if d < 2 * r then q + 1 else if even q then q else q + 1)"
    by (simp add: round_half_even_def q_r_def Let_def)
  then show "2 * p \<le> 2 * round_half_even p d * d + d" "2 * round_half_even p d * d \<le> 2 * p + d"
    using p by (auto simp: algebra_simps)
qed

lemma size_in_kB:
  assumes "0 < n" "n < 2 ^ 40"
  shows "\<exists>r k. to_double False n 1000 = Finite False r (2 ^ k) \<and> 10 \<le> k \<and>
    2 * (n * 2 ^ k) \<le> 2000 * r + 1000 \<and> 2000 * r \<le> 2 * (n * 2 ^ k) + 1000"
proof -
  have "bit_len 1000 = 10" by (simp add: bit_len.simps)
  moreover have "bit_len n \<le> 40" using assms(2) by (rule bit_len_le)
  ultimately have u: "last_place n 1000 \<le> - 22" by (simp add: last_place_def Let_def)
  define k where "k = nat (- last_place n 1000)"
  have k: "22 \<le> k" using u by (simp add: k_def)
  let ?r = "round_half_even (n * 2 ^ k) 1000"
  have "to_double False n 1000 = Finite False ?r (2 ^ k)"
    using assms(1) u by (simp add: to_double_def k_def Let_def)
  then show ?thesis
    using round_half_even_bounds [of 1000 "n * 2 ^ k"] k by (intro exI [of _ ?r] exI [of _ k]) simp
qed

lemma ceil_exact:
  assumes "n < 2 ^ 40"
  shows "js_ceil (js_div n 1000) = Finite False ((n + 999) div 1000) 1"
proof (cases "n = 0")
  case True
  then show ?thesis by (simp add: js_div_def to_double_def)
next
  case False
  with size_in_kB [OF _ assms] obtain r k where rk: "to_double False n 1000 = Finite False r (2 ^ k)" "10 \<le> k"
      "2 * (n * 2 ^ k) \<le> 2000 * r + 1000" "2000 * r \<le> 2 * (n * 2 ^ k) + 1000" by blast
  define c where "c = (n + 999) div 1000"
  have c: "n \<le> 1000 * c" "1000 * c \<le> n + 999" "0 < c" using False by (simp_all add: c_def)
  have big: "1024 \<le> (2 :: nat) ^ k" using power_increasing [OF rk(2), of "2 :: nat"] by simp
  have "n * 2 ^ k \<le> 1000 * c * 2 ^ k" using c(1) by simp
  then have "n * 2 ^ k \<le> 1000 * (c * 2 ^ k)" by (simp only: mult.assoc)
  then have hi: "r \<le> c * 2 ^ k" using rk(4) by linarith
  obtain b where b: "c = Suc b" using c(3) by (cases c) auto
  have "(1000 * b + 1) * 2 ^ k \<le> n * 2 ^ k" using c(2) b by (intro mult_right_mono) simp_all
  then have "1000 * (b * 2 ^ k) + 2 ^ k \<le> n * 2 ^ k" by (simp add: algebra_simps)
  then have lo: "b * 2 ^ k < r" using rk(3) big by linarith
  have "(r + 2 ^ k - 1) div 2 ^ k = c"
  proof (rule div_nat_eqI)
    show "2 ^ k * c \<le> r + 2 ^ k - 1" using lo b by (simp add: algebra_simps)
    show "r + 2 ^ k - 1 < 2 ^ k * Suc c" using hi big by (simp add: algebra_simps)
  qed
  then show ?thesis using rk(1) by (simp add: js_div_def c_def)
qed

lemma whole_fee: "p < 2 ^ 53 \<Longrightarrow> js_parseInt (to_double False p 1) = Some p"
  using to_double_nat [of p False] by (auto simp: power_strict_mono)

lemma legacy_fee:
  assumes "n < 2 ^ 40"
  shows "fee_of_size n None = Some ((n + 999) div 1000 * 10000)"
proof -
  have "(n + 999) div 1000 * 10000 < 2 ^ 53" using assms by simp
  from whole_fee [OF this] show ?thesis
    by (simp only: fee_of_size_def ceil_exact [OF assms] BASE_FEE_def js_times.simps Let_def option.case)
qed

end
