(* ===== verification/Sdk_Pay.thy ===== *)
theory Sdk_Pay
  imports Sdk_Keys Sdk_Fees
begin

text \<open>
  What a payment is made of, \<open>blocktrail-sdk-nodejs/lib/wallet.js\<close>: reading addresses
  (\<open>Wallet.getAddressAndType\<close>) and turning the requested payments into outputs
  (\<open>Wallet.convertPayToOutputs\<close>). The address formats and the data-carrier script belong to the
  package bitcoinjs-lib the SDK depends on: they are the record \<open>pay_lib\<close>.
\<close>

section \<open>Errors and parameters\<close>

datatype sdk_error =
    Thrown js_error
  | InvalidAddressError string
  | WalletSendError string
  | KeyError string

type_synonym 'a sdk = "sdk_error + 'a"

fun message :: "js_error \<Rightarrow> string" where
  "message (JsError s) = s"
| "message (JsTypeError s) = s"
| "message JsRangeError = ''Index out of range''"
| "message (JsAssert s) = s"

fun sdk_message :: "sdk_error \<Rightarrow> string" where
  "sdk_message (Thrown e) = message e"
| "sdk_message (InvalidAddressError s) = s"
| "sdk_message (WalletSendError s) = s"
| "sdk_message (KeyError s) = s"

definition js :: "'a res \<Rightarrow> 'a sdk" where
  "js r = (case r of Inl e \<Rightarrow> Inl (Thrown e) | Inr x \<Rightarrow> Inr x)"

lemma js_Inr [simp]: "js (Inr x) = Inr x" "js r = Inr x \<longleftrightarrow> r = Inr x"
  by (cases r; simp add: js_def)+

text \<open>A network of the package: \<open>n_default\<close> says that it is one of the two networks of Bitcoin itself.\<close>

record sdk_network =
  n_default :: bool
  n_bech32 :: string
  n_cashAddrPrefix :: "string option"
  n_pubKeyHash :: nat
  n_scriptHash :: nat

datatype decoded = Prefixed string buffer | Versioned nat buffer

record pay_lib =
  fromBech32 :: "string \<Rightarrow> sdk_network \<Rightarrow> (string \<times> buffer) res"
  fromCashAddress :: "string \<Rightarrow> (string \<times> buffer) res"
  fromBase58 :: "string \<Rightarrow> (nat \<times> buffer) res"
  lib_toOutputScript :: "string \<Rightarrow> sdk_network \<Rightarrow> bool \<Rightarrow> buffer res"
  nullData_encode :: "buffer \<Rightarrow> buffer res"
  utf8_write :: "string \<Rightarrow> buffer"
  utf8_read :: "buffer \<Rightarrow> string"

section \<open>Addresses\<close>

text \<open>A reader returns \<open>[err, addr]\<close>, here the inner sum, or throws when the address is well formed
  but belongs to another network.\<close>

definition readBech32Address :: "pay_lib \<Rightarrow> string \<Rightarrow> sdk_network \<Rightarrow> (js_error + decoded) sdk" where
  "readBech32Address lib address network = (case fromBech32 lib address network of
       Inl err \<Rightarrow> Inr (Inl err)
     | Inr (pre, data) \<Rightarrow>
         if pre \<noteq> n_bech32 network then Inl (InvalidAddressError ''Address invalid on this network'')
         else Inr (Inr (Prefixed pre data)))"

definition readCashAddress :: "pay_lib \<Rightarrow> string \<Rightarrow> sdk_network \<Rightarrow> (js_error + decoded) sdk" where
  "readCashAddress lib address network = (case fromCashAddress lib address of
       Inl err \<Rightarrow> Inr (Inl err)
     | Inr (pre, data) \<Rightarrow>
         if Some pre \<noteq> n_cashAddrPrefix network then Inl (Thrown (JsError (address @ '' has an invalid prefix'')))
         else Inr (Inr (Prefixed pre data)))"

definition readBase58Address :: "pay_lib \<Rightarrow> string \<Rightarrow> sdk_network \<Rightarrow> (js_error + decoded) sdk" where
  "readBase58Address lib address network = (case fromBase58 lib address of
       Inl err \<Rightarrow> Inr (Inl err)
     | Inr (version, hash) \<Rightarrow>
         if version \<noteq> n_pubKeyHash network \<and> version \<noteq> n_scriptHash network
         then Inl (InvalidAddressError ''Address invalid on this network'')
         else Inr (Inr (Versioned version hash)))"

type_synonym reading = "(decoded \<times> string) option \<times> js_error option"

definition readAddress :: "(js_error + decoded) sdk \<Rightarrow> string \<Rightarrow> reading \<Rightarrow> reading sdk" where
  "readAddress reader readType = (\<lambda>(addr, err). rbind reader (\<lambda>d. case d of
       Inr a \<Rightarrow> Inr (Some (a, readType), err)
     | Inl e \<Rightarrow> Inr (addr, Some e)))"

definition getAddressAndType :: "pay_lib \<Rightarrow> string \<Rightarrow> sdk_network \<Rightarrow> bool \<Rightarrow> (string \<times> decoded \<times> string) sdk" where
  "getAddressAndType lib address network allowCashAddress =
     rbind (if n_default network
            then readAddress (readBech32Address lib address network) ''bech32'' (None, None)
            else Inr (None, None)) (\<lambda>(addr, err).
     rbind (if addr = None \<and> n_cashAddrPrefix network \<noteq> None \<and> allowCashAddress
            then readAddress (readCashAddress lib address network) ''cashaddr'' (addr, err)
            else Inr (addr, err)) (\<lambda>(addr, err).
     rbind (if addr = None
            then readAddress (readBase58Address lib address network) ''base58'' (addr, err)
            else Inr (addr, err)) (\<lambda>(addr, err).
       case addr of
         Some (d, t) \<Rightarrow> Inr (address, d, t)
       | None \<Rightarrow> Inl (InvalidAddressError (case err of Some e \<Rightarrow> message e | None \<Rightarrow> '''')))))"

section \<open>Amounts\<close>

text \<open>The decimal text of an integral number below \<open>10^21\<close>: exact below \<open>2^53\<close>, otherwise the
  shortest digits that are rounded to the number, filled up with zeros.\<close>

fun shortest :: "nat \<Rightarrow> nat \<Rightarrow> nat" where
  "shortest 0 v = v"
| "shortest (Suc j) v =
     (let p = 10 ^ Suc j; f = v div p * p; c = f + p;
          okf = (round_int (int f) = Some (int v)); okc = (round_int (int c) = Some (int v))
      in if okf \<and> (\<not> okc \<or> v - f \<le> c - v) then f else if okc then c else shortest j v)"

definition number_text :: "int \<Rightarrow> string" where
  "number_text v =
     (let n = nat \<bar>v\<bar>; digits = dec_string (if n < 2 ^ 53 then n else shortest (length (dec_string n)) n)
      in if v < 0 then CHR ''-'' # digits else digits)"

text \<open>\<open>parseInt(value, 10).toString() === value.toString()\<close>, on the text of the value. A number from
  \<open>10^21\<close> on is written with an exponent, which is not how it was read.\<close>

definition whole_number_text :: "string \<Rightarrow> bool" where
  "whole_number_text t = (case parseInt10 t of
       None \<Rightarrow> t = ''NaN''
     | Some v \<Rightarrow> \<bar>v\<bar> < 10 ^ 21 \<and> number_text v = t)"

section \<open>Outputs\<close>

text \<open>The two forms of a payment. An amount is the text JavaScript makes of it, or a buffer; an
  address that is not text is \<open>None\<close>.\<close>

datatype amount = Amount string | AmountBytes buffer

datatype pay_output =
    NotAnObject
  | Fields "string option" "string option option" "amount option"
  | TwoElements "string option" amount

datatype pay = PayList "pay_output list" | PayMap "(string \<times> amount) list" | PayOther

record pay_obj =
  po_scriptPubKey :: "string option"
  po_address :: "string option"
  po_value :: amount

record send_output =
  so_scriptPubKey :: string
  so_value :: "int option"

definition trim_text :: "string \<Rightarrow> string" where
  "trim_text s = rev (dropWhile js_space (rev (dropWhile js_space s)))"

definition read_listed :: "pay_output \<Rightarrow> pay_obj sdk" where
  "read_listed output = (case output of
       NotAnObject \<Rightarrow> Inl (Thrown (JsError ''Invalid transaction output for numerically indexed list [1]''))
     | Fields (Some s) _ (Some v) \<Rightarrow> Inr \<lparr>po_scriptPubKey = Some s, po_address = None, po_value = v\<rparr>
     | Fields None (Some a) (Some v) \<Rightarrow> Inr \<lparr>po_scriptPubKey = None, po_address = a, po_value = v\<rparr>
     | TwoElements a v \<Rightarrow> Inr \<lparr>po_scriptPubKey = None, po_address = a, po_value = v\<rparr>
     | _ \<Rightarrow> Inl (Thrown (JsError ''Invalid transaction output for numerically indexed list [2]'')))"

definition read_mapped :: "pay_lib \<Rightarrow> string \<times> amount \<Rightarrow> pay_obj sdk" where
  "read_mapped lib = (\<lambda>(address, value).
     let a = trim_text address in
     if a = ''opreturn'' then
       let datachunk = (case value of AmountBytes b \<Rightarrow> b | Amount t \<Rightarrow> utf8_write lib t) in
       rbind (js (nullData_encode lib datachunk)) (\<lambda>s.
         Inr \<lparr>po_scriptPubKey = Some (to_hex s), po_address = None, po_value = Amount ''0''\<rparr>)
     else Inr \<lparr>po_scriptPubKey = None, po_address = Some a, po_value = value\<rparr>)"

definition amount_text :: "pay_lib \<Rightarrow> amount \<Rightarrow> string" where
  "amount_text lib value = (case value of Amount t \<Rightarrow> t | AmountBytes b \<Rightarrow> utf8_read lib b)"

definition output_script :: "pay_lib \<Rightarrow> sdk_network \<Rightarrow> bool \<Rightarrow> pay_obj \<Rightarrow> string option sdk" where
  "output_script lib network allowCashAddr obj = (case po_address obj of
       None \<Rightarrow> Inr (po_scriptPubKey obj)
     | Some address \<Rightarrow>
         (case rbind (getAddressAndType lib address network allowCashAddr) (\<lambda>(a, _).
                 js (lib_toOutputScript lib a network allowCashAddr)) of
            Inr s \<Rightarrow> Inr (Some (to_hex s))
          | Inl e \<Rightarrow> Inl (InvalidAddressError (''Invalid address ['' @ address @ ''] ('' @ sdk_message e @ '')''))))"

abbreviation (input) OP_RETURN_HEX :: string where "OP_RETURN_HEX \<equiv> ''6a''"

definition check_amount :: "string \<Rightarrow> int option \<Rightarrow> send_output sdk" where
  "check_amount s value =
     (if take 2 s \<noteq> OP_RETURN_HEX \<and> (value = None \<or> value = Some 0)
      then Inl (WalletSendError ''Values should be non zero'')
      else if take 2 s \<noteq> OP_RETURN_HEX \<and> the value \<le> DUST
      then Inl (WalletSendError ''Values should be more than dust (2730)'')
      else Inr \<lparr>so_scriptPubKey = s, so_value = value\<rparr>)"

definition check_output :: "pay_lib \<Rightarrow> sdk_network \<Rightarrow> bool \<Rightarrow> pay_obj \<Rightarrow> send_output sdk" where
  "check_output lib network allowCashAddr obj =
     (if \<not> whole_number_text (amount_text lib (po_value obj))
      then Inl (WalletSendError ''Values should be in Satoshis'')
      else rbind (output_script lib network allowCashAddr obj)
        (\<lambda>scriptPubKey. case scriptPubKey of
           None \<Rightarrow> Inl (Thrown (JsTypeError ''Cannot read property slice of undefined''))
         | Some s \<Rightarrow> check_amount s (parseInt10 (amount_text lib (po_value obj)))))"

definition convertPayToOutputs :: "pay_lib \<Rightarrow> pay \<Rightarrow> sdk_network \<Rightarrow> bool \<Rightarrow> send_output list sdk" where
  "convertPayToOutputs lib pay network allowCashAddr = (case pay of
       PayOther \<Rightarrow> Inl (Thrown (JsError ''Invalid input''))
     | PayList outputs \<Rightarrow>
         rmap (\<lambda>o'. rbind (read_listed o') (check_output lib network allowCashAddr)) outputs
     | PayMap entries \<Rightarrow>
         rmap (\<lambda>e. rbind (read_mapped lib e) (check_output lib network allowCashAddr)) entries)"

section \<open>What converting a payment promises\<close>

lemma check_output_Inr:
  "check_output lib network c obj = Inr out \<longleftrightarrow>
     whole_number_text (amount_text lib (po_value obj)) \<and>
     output_script lib network c obj = Inr (Some (so_scriptPubKey out)) \<and>
     so_value out = parseInt10 (amount_text lib (po_value obj)) \<and>
     (take 2 (so_scriptPubKey out) = OP_RETURN_HEX \<or> (\<exists>v. so_value out = Some v \<and> DUST < v))"
proof -
  have d: "0 \<le> DUST" by (simp add: DUST_def)
  have "check_amount s v = Inr out \<longleftrightarrow> s = so_scriptPubKey out \<and> so_value out = v \<and>
      (take 2 s = OP_RETURN_HEX \<or> (\<exists>n. v = Some n \<and> DUST < n))" for s v
    unfolding check_amount_def using d by (cases out; cases v) (auto split: if_splits)
  then show ?thesis
    unfolding check_output_def by (cases "output_script lib network c obj") (auto split: option.splits)
qed

lemma check_output_dust:
  "check_output lib network c obj = Inr out \<Longrightarrow> take 2 (so_scriptPubKey out) \<noteq> OP_RETURN_HEX \<Longrightarrow>
     \<exists>v. so_value out = Some v \<and> DUST < v"
  unfolding check_output_Inr by blast

lemma checked_dust:
  assumes "rmap (\<lambda>x. rbind (f x) (check_output lib network c)) xs = Inr send"
    and "out \<in> set send" "take 2 (so_scriptPubKey out) \<noteq> ''6a''"
  shows "\<exists>v. so_value out = Some v \<and> DUST < v"
proof -
  obtain i where i: "i < length send" "out = send ! i" using assms(2) by (auto simp: in_set_conv_nth)
  then have "rbind (f (xs ! i)) (check_output lib network c) = Inr out"
    using rmap_nth [OF assms(1)] rmap_length [OF assms(1)] by simp
  then show ?thesis using check_output_dust [OF _ assms(3)] by auto
qed

lemma converted_dust:
  assumes "convertPayToOutputs lib pay network c = Inr send" "out \<in> set send" "take 2 (so_scriptPubKey out) \<noteq> ''6a''"
  shows "\<exists>v. so_value out = Some v \<and> DUST < v"
proof (cases pay)
  case (PayList xs)
  then show ?thesis using assms checked_dust [of read_listed lib network c xs] by (simp add: convertPayToOutputs_def del: rbind_Inr_iff)
next
  case (PayMap xs)
  then show ?thesis
    using assms checked_dust [of "read_mapped lib" lib network c xs] by (simp add: convertPayToOutputs_def del: rbind_Inr_iff)
qed (use assms in \<open>simp add: convertPayToOutputs_def\<close>)

lemma whole_number_dec_string: "n < 2 ^ 53 \<Longrightarrow> whole_number_text (dec_string n)"
  by (simp add: whole_number_text_def parseInt10_dec_string number_text_def)

lemma converted_map:
  assumes "list_all (\<lambda>(a, n, s). trim_text a = a \<and> a \<noteq> ''opreturn'' \<and> DUST < int n \<and> n < 2 ^ 53 \<and>
      (\<exists>d t. getAddressAndType lib a network c = Inr (a, d, t)) \<and>
      lib_toOutputScript lib a network c = Inr s \<and> s \<noteq> [] \<and> hd s \<noteq> 0x6a) entries"
  shows "convertPayToOutputs lib (PayMap (map (\<lambda>(a, n, s). (a, Amount (dec_string n))) entries)) network c =
      Inr (map (\<lambda>(a, n, s). \<lparr>so_scriptPubKey = to_hex s, so_value = Some (int n)\<rparr>) entries)"
proof -
  have entry: "rbind (read_mapped lib (a, Amount (dec_string n))) (check_output lib network c) =
      Inr \<lparr>so_scriptPubKey = to_hex s, so_value = Some (int n)\<rparr>"
    if "trim_text a = a" "a \<noteq> ''opreturn''" "DUST < int n" "n < 2 ^ 53"
       "getAddressAndType lib a network c = Inr (a, d, t)" "lib_toOutputScript lib a network c = Inr s" "s \<noteq> []" "hd s \<noteq> 0x6a"
    for a n s d t
  proof -
    note g = that
    obtain b bs where s: "s = b # bs" "b \<noteq> 0x6a" using g(7,8) by (cases s) auto
    have "[hex_digit (unat b div 16), hex_digit (unat b mod 16)] \<noteq> ''6a''"
    proof
      assume "[hex_digit (unat b div 16), hex_digit (unat b mod 16)] = ''6a''"
      then have "to_hex [b] = to_hex [0x6a]" by (simp add: hex_digit_def char_of_def bit_0)
      then show False using s(2) by (metis hex_pairs_to_hex list.inject)
    qed
    then have "take 2 (to_hex s) \<noteq> ''6a''" using s(1) by simp
    moreover have "output_script lib network c \<lparr>po_scriptPubKey = None, po_address = Some a, po_value = v\<rparr> = Inr (Some (to_hex s))" for v
      using g(5,6) by (simp add: output_script_def)
    ultimately show ?thesis
      using g(1-4) whole_number_dec_string [OF g(4)] parseInt10_dec_string [OF g(4)]
      by (simp add: read_mapped_def check_output_Inr amount_text_def del: rbind_Inr_iff)
  qed
  show ?thesis
    using assms
  proof (induction entries)
    case (Cons x entries)
    obtain a n s where x: "x = (a, n, s)" by (cases x)
    from Cons.prems obtain d t where "getAddressAndType lib a network c = Inr (a, d, t)" by (auto simp: x)
    with entry [of a n d t s] Cons show ?case
      by (simp add: x convertPayToOutputs_def del: rbind_Inr_iff)
  qed (simp add: convertPayToOutputs_def)
qed

text \<open>a map of addresses and amounts becomes one output for each entry, in order: the script of
  the address and the amount, for amounts written as whole numbers above the dust limit. And every
  output of any payment that is accepted is above the dust limit or is a script that starts with
  \<open>OP_RETURN\<close>.\<close>

theorem payments_become_outputs:
  assumes "list_all (\<lambda>(a, n, s). trim_text a = a \<and> a \<noteq> ''opreturn'' \<and> DUST < int n \<and> n < 2 ^ 53 \<and>
      (\<exists>d t. getAddressAndType lib a network c = Inr (a, d, t)) \<and>
      lib_toOutputScript lib a network c = Inr s \<and> s \<noteq> [] \<and> hd s \<noteq> 0x6a) entries"
  shows "convertPayToOutputs lib (PayMap (map (\<lambda>(a, n, s). (a, Amount (dec_string n))) entries)) network c =
      Inr (map (\<lambda>(a, n, s). \<lparr>so_scriptPubKey = to_hex s, so_value = Some (int n)\<rparr>) entries) \<and>
    (convertPayToOutputs lib pay network c = Inr send \<longrightarrow>
       (\<forall>out \<in> set send. take 2 (so_scriptPubKey out) = ''6a'' \<or> (\<exists>v. so_value out = Some v \<and> DUST < v)))"
  using converted_map [OF assms] converted_dust by blast

definition sample_pay_lib :: pay_lib where
  "sample_pay_lib = \<lparr>fromBech32 = (\<lambda>a n. Inl (JsError ''not bech32'')), fromCashAddress = (\<lambda>a. Inl (JsError ''not cashaddr'')),
     fromBase58 = (\<lambda>a. Inr (5, replicate 20 7)), lib_toOutputScript = (\<lambda>a n c. Inr (0xa9 # 20 # replicate 20 7 @ [0x87])),
     nullData_encode = (\<lambda>b. Inr (0x6a # b)), utf8_write = map (\<lambda>ch. word_of_nat (of_char ch)),
     utf8_read = map (\<lambda>b. char_of (unat b))\<rparr>"

definition sample_network :: sdk_network where
  "sample_network = \<lparr>n_default = True, n_bech32 = ''bc'', n_cashAddrPrefix = None, n_pubKeyHash = 0, n_scriptHash = 5\<rparr>"

theorem payments_become_outputs_witness:
  "convertPayToOutputs sample_pay_lib (PayMap [(''3abc'', Amount (dec_string 5000))]) sample_network False =
     Inr [\<lparr>so_scriptPubKey = to_hex (0xa9 # 20 # replicate 20 7 @ [0x87]), so_value = Some 5000\<rparr>]"
proof -
  let ?s = "0xa9 # 20 # replicate 20 7 @ [0x87] :: buffer"
  have "list_all (\<lambda>(a, n, s). trim_text a = a \<and> a \<noteq> ''opreturn'' \<and> DUST < int n \<and> n < 2 ^ 53 \<and>
      (\<exists>d t. getAddressAndType sample_pay_lib a sample_network False = Inr (a, d, t)) \<and>
      lib_toOutputScript sample_pay_lib a sample_network False = Inr s \<and> s \<noteq> [] \<and> hd s \<noteq> 0x6a) [(''3abc'', 5000, ?s)]"
    by (simp add: sample_pay_lib_def sample_network_def getAddressAndType_def readAddress_def readBech32Address_def
        readBase58Address_def trim_text_def js_space_def DUST_def)
  from payments_become_outputs [OF this, THEN conjunct1] show ?thesis by simp
qed

end
