(* ===== verification/Sdk_Wallet.thy ===== *)
theory Sdk_Wallet
  imports Sdk_Pay Tx_Builder
begin

text \<open>
  The wallet of \<open>blocktrail-sdk-nodejs/lib/wallet.js\<close>: its constructor, and
  \<open>Wallet.prototype.buildTransaction\<close>, which turns payments and the coins the service selected into
  a signed transaction and checks what the service proposed. The transaction builder of the package
  bitcoinjs-lib is the record \<open>assembler\<close>; the answers of the service and the random position of
  the change output are arguments.
\<close>

section \<open>The client and the wallet\<close>

record api_client =
  ac_bitcoinCash :: bool
  ac_testnet :: bool
  ac_feeSanityCheck :: bool
  ac_feeSanityCheckBaseFeeMultiplier :: nat

text \<open>An option left out is \<open>None\<close>; the multiplier 0 counts as left out.\<close>

definition new_api_client :: "string option \<Rightarrow> bool option \<Rightarrow> bool option \<Rightarrow> nat option \<Rightarrow> api_client" where
  "new_api_client network testnet feeSanityCheck multiplier =
     \<lparr>ac_bitcoinCash = (network = Some ''BCC''),
      ac_testnet = (case testnet of Some t \<Rightarrow> t | None \<Rightarrow> False),
      ac_feeSanityCheck = (case feeSanityCheck of Some c \<Rightarrow> c | None \<Rightarrow> True),
      ac_feeSanityCheckBaseFeeMultiplier = (case multiplier of Some (Suc m) \<Rightarrow> Suc m | _ \<Rightarrow> 200)\<rparr>"

abbreviation (input) CHAIN_BTC_DEFAULT :: nat where "CHAIN_BTC_DEFAULT \<equiv> 0"
abbreviation (input) CHAIN_BTC_SEGWIT :: nat where "CHAIN_BTC_SEGWIT \<equiv> 2"
abbreviation (input) CHAIN_BCC_DEFAULT :: nat where "CHAIN_BCC_DEFAULT \<equiv> 1"

text \<open>The fields of a wallet that the code below reads. \<open>w_feeSanityCheckBaseFeeMultiplier\<close> is the
  property of that name of the wallet, which \<open>buildTransaction\<close> reads and nothing ever sets.\<close>

record 'k wallet =
  w_sdk :: api_client
  w_locked :: bool
  w_bitcoinCash :: bool
  w_segwit :: bool
  w_useNewCashAddr :: bool
  w_network :: sdk_network
  w_primaryPrivateKey :: "'k option"
  w_backupPrivateKey :: "'k option"
  w_chain :: nat
  w_changeChain :: nat
  w_feeSanityCheckBaseFeeMultiplier :: "nat option"

record lib_networks =
  net_bitcoin :: sdk_network
  net_testnet :: sdk_network
  net_bitcoincash :: sdk_network
  net_bitcoincashtestnet :: sdk_network

definition new_wallet :: "lib_networks \<Rightarrow> api_client \<Rightarrow> bool \<Rightarrow> bool \<Rightarrow> bool \<Rightarrow> 'k wallet res" where
  "new_wallet nets sdk segwit testnet useNewCashAddr =
     (if \<not> (\<not> segwit \<or> \<not> ac_bitcoinCash sdk) then Inl (JsAssert ''!self.segwit || !self.bitcoinCash'')
      else Inr
       \<lparr>w_sdk = sdk, w_locked = True, w_bitcoinCash = ac_bitcoinCash sdk, w_segwit = segwit,
        w_useNewCashAddr = useNewCashAddr,
        w_network =
          (if ac_bitcoinCash sdk then (if testnet then net_bitcoincashtestnet nets else net_bitcoincash nets)
           else if testnet then net_testnet nets else net_bitcoin nets),
        w_primaryPrivateKey = None, w_backupPrivateKey = None,
        w_chain = (if \<not> ac_bitcoinCash sdk then CHAIN_BTC_DEFAULT else CHAIN_BCC_DEFAULT),
        w_changeChain =
          (if \<not> ac_bitcoinCash sdk then (if segwit then CHAIN_BTC_SEGWIT else CHAIN_BTC_DEFAULT)
           else CHAIN_BCC_DEFAULT),
        w_feeSanityCheckBaseFeeMultiplier = None\<rparr>)"

section \<open>Coins and the transaction builder\<close>

text \<open>A coin the service selected; its \<open>coin_desc\<close> has the scripts as the service sent them.\<close>

record coin =
  coin_hash :: string
  coin_idx :: nat
  coin_value :: int
  coin_path :: string
  coin_sign_mode :: "string option"
  coin_desc :: utxo_desc

record ('b, 'k) assembler =
  as_new :: "bool \<Rightarrow> 'b"
  as_addInput :: "'b \<Rightarrow> string \<Rightarrow> nat \<Rightarrow> 'b res"
  as_addOutput :: "'b \<Rightarrow> buffer \<Rightarrow> int option \<Rightarrow> 'b res"
  as_sign :: "'b \<Rightarrow> nat \<Rightarrow> 'k \<Rightarrow> buffer \<Rightarrow> int \<Rightarrow> int \<Rightarrow> buffer option \<Rightarrow> 'b res"
  as_build :: "'b \<Rightarrow> transaction res"
  as_forkFlag :: int

text \<open>What \<open>buildTransaction\<close> is given besides the wallet and the payment.\<close>

record ('b, 'k) setting =
  st_scripts :: script_lib
  st_pay :: pay_lib
  st_keys :: "'k hd_lib"
  st_assembler :: "('b, 'k) assembler"

section \<open>Steps\<close>

text \<open>Adding up with \<open>reduce\<close>, which throws on an empty array.\<close>

definition js_sum :: "int list \<Rightarrow> int sdk" where
  "js_sum xs = (case xs of
       [] \<Rightarrow> Inl (Thrown (JsTypeError ''Reduce of empty array with no initial value''))
     | x # xs \<Rightarrow> Inr (foldl (+) x xs))"

text \<open>A value that is \<open>NaN\<close> makes every sum with it \<open>NaN\<close>, and comparisons with that are false.\<close>

definition check_change :: "coin list \<Rightarrow> send_output list \<Rightarrow> int \<Rightarrow> int \<Rightarrow> unit sdk" where
  "check_change utxos send fee change =
     rbind (js_sum (map coin_value utxos)) (\<lambda>inputsTotal.
       if list_ex (\<lambda>out. so_value out = None) send then Inr ()
       else rbind (js_sum (map (\<lambda>out. the (so_value out)) send)) (\<lambda>outputsTotal.
         let estimatedChange = inputsTotal - outputsTotal - fee in
         if estimatedChange > DUST * 2 \<and> estimatedChange \<noteq> change
         then Inl (WalletSendError ''the amount of change suggested by the coin selection seems incorrect'')
         else Inr ()))"

definition add_inputs :: "('b, 'k) assembler \<Rightarrow> coin list \<Rightarrow> 'b \<Rightarrow> 'b sdk" where
  "add_inputs asm utxos txb = rfold (\<lambda>utxo txb. js (as_addInput asm txb (coin_hash utxo) (coin_idx utxo))) utxos txb"

text \<open>An empty script is falsy.\<close>

definition desired_outputs :: "send_output list \<Rightarrow> (buffer \<times> int option) list sdk" where
  "desired_outputs send =
     rmap (\<lambda>out. if so_scriptPubKey out \<noteq> []
                 then rbind (js (from_hex (so_scriptPubKey out))) (\<lambda>s. Inr (s, so_value out))
                 else Inl (Thrown (JsError ''Invalid send''))) send"

text \<open>A change output that would be dust is left out; without a change address the service is asked
  for one.\<close>

definition change_target :: "int \<Rightarrow> string option \<Rightarrow> string sdk \<Rightarrow> (int \<times> string option) sdk" where
  "change_target change changeAddress getNewAddress =
     (if change > 0 then
        if change \<le> DUST then Inr (0, changeAddress)
        else case changeAddress of
            Some (c # cs) \<Rightarrow> Inr (change, Some (c # cs))
          | _ \<Rightarrow> rbind getNewAddress (\<lambda>address. Inr (change, Some address))
      else Inr (change, changeAddress))"

definition add_change ::
    "pay_lib \<Rightarrow> sdk_network \<Rightarrow> bool \<Rightarrow> bool \<Rightarrow> (nat \<Rightarrow> nat) \<Rightarrow> int \<Rightarrow> string option \<Rightarrow>
     (buffer \<times> int option) list \<Rightarrow> (buffer \<times> int option) list sdk" where
  "add_change lib network useNewCashAddr randomizeChangeIdx random change changeAddress outputs =
     (if change > 0 then
        rbind (js (lib_toOutputScript lib (the changeAddress) network useNewCashAddr)) (\<lambda>s.
          let changeOutput = (s, Some change) in
          if randomizeChangeIdx
          then let i = random (length outputs) in Inr (take i outputs @ [changeOutput] @ drop i outputs)
          else Inr (outputs @ [changeOutput]))
      else Inr outputs)"

definition add_outputs :: "('b, 'k) assembler \<Rightarrow> (buffer \<times> int option) list \<Rightarrow> 'b \<Rightarrow> 'b sdk" where
  "add_outputs asm outputs txb = rfold (\<lambda>(s, v) txb. js (as_addOutput asm txb s v)) outputs txb"

text \<open>\<open>path.replace("M", "m")\<close>, and \<open>path.replace(/^m\/(\d+)\'/, 'm/$1')\<close>.\<close>

fun replace_M :: "string \<Rightarrow> string" where
  "replace_M [] = []"
| "replace_M (c # cs) = (if c = CHR ''M'' then CHR ''m'' # cs else c # replace_M cs)"

definition unharden_first :: "string \<Rightarrow> string" where
  "unharden_first path =
     (let digits = takeWhile dec_digit (drop 2 path); rest = dropWhile dec_digit (drop 2 path) in
      if take 2 path = ''m/'' \<and> digits \<noteq> [] \<and> rest \<noteq> [] \<and> hd rest = quote
      then ''m/'' @ digits @ tl rest else path)"

definition key_error :: "path_error \<Rightarrow> sdk_error" where
  "key_error e = (case e of Js e \<Rightarrow> Thrown e | KeyPathError s \<Rightarrow> KeyError s)"

definition signing_key :: "'k hd_lib \<Rightarrow> 'k wallet \<Rightarrow> string \<Rightarrow> 'k sdk" where
  "signing_key keys w path =
     (case w_primaryPrivateKey w of
        Some k \<Rightarrow> (case deriveByPath keys k path (Some ''m'') of Inl e \<Rightarrow> Inl (key_error e) | Inr k \<Rightarrow> Inr k)
      | None \<Rightarrow> (case w_backupPrivateKey w of
            Some k \<Rightarrow> (case deriveByPath keys k (unharden_first path) (Some ''m'') of
                Inl e \<Rightarrow> Inl (key_error e) | Inr k \<Rightarrow> Inr k)
          | None \<Rightarrow> Inl (Thrown (JsError ''No master privateKey present''))))"

definition SIGHASH_ALL_VALUE :: int where "SIGHASH_ALL_VALUE = 0x01"

definition sign_coin :: "('b, 'k) setting \<Rightarrow> 'k wallet \<Rightarrow> nat \<times> coin \<Rightarrow> 'b \<Rightarrow> 'b sdk" where
  "sign_coin st w = (\<lambda>(i, utxo) txb.
     let mode = (case coin_sign_mode utxo of Some (c # cs) \<Rightarrow> c # cs | _ \<Rightarrow> ''sign'') in
     if mode = ''sign'' then
       rbind (signing_key (st_keys st) w (replace_M (coin_path utxo))) (\<lambda>privKey.
       rbind (js (buffer_from_hex (redeem_script (coin_desc utxo)))) (\<lambda>redeemScript.
       rbind (js (hex_or_null (witness_script (coin_desc utxo)))) (\<lambda>witnessScript.
         let sigHash = (if w_bitcoinCash w then js_or SIGHASH_ALL_VALUE (as_forkFlag (st_assembler st)) else SIGHASH_ALL_VALUE) in
         js (as_sign (st_assembler st) txb i privKey redeemScript sigHash (coin_value utxo) witnessScript))))
     else Inr txb)"

text \<open>The check of the fee the service proposed. A missing multiplier makes the product \<open>NaN\<close>, an
  estimate that is \<open>NaN\<close> the difference: no comparison with them holds.\<close>

definition check_fee :: "'k wallet \<Rightarrow> string \<Rightarrow> nat option \<Rightarrow> int \<Rightarrow> unit sdk" where
  "check_fee w feeStrategy estimatedFee fee =
     (if ac_feeSanityCheck (w_sdk w) then
        if feeStrategy = ''base_fee'' then
          (case estimatedFee of
             Some e \<Rightarrow> if \<bar>int e - fee\<bar> > int BASE_FEE
               then Inl (WalletSendError ''the fee suggested by the coin selection seems incorrect for FEE_STRATEGY_BASE_FEE'')
               else Inr ()
           | None \<Rightarrow> Inr ())
        else if feeStrategy \<in> {''high_priority'', ''optimal'', ''low_priority''} then
          (case (estimatedFee, w_feeSanityCheckBaseFeeMultiplier w) of
             (Some e, Some m) \<Rightarrow> if fee > int e * int m
               then Inl (WalletSendError ''the fee suggested by the coin selection seems awefully high for FEE_STRATEGY_OPTIMAL'')
               else Inr ()
           | _ \<Rightarrow> Inr ())
        else Inr ()
      else Inr ())"

section \<open>buildTransaction\<close>

text \<open>\<open>Wallet.prototype.coinSelection\<close> converts the outputs, which \<open>buildTransaction\<close> has converted
  already, once more before it asks the service.\<close>

definition listed_again :: "send_output \<Rightarrow> pay_output" where
  "listed_again out = Fields (Some (so_scriptPubKey out)) None
     (Some (Amount (case so_value out of Some v \<Rightarrow> number_text v | None \<Rightarrow> ''NaN'')))"

definition coinSelection ::
    "pay_lib \<Rightarrow> 'k wallet \<Rightarrow> send_output list \<Rightarrow> string option \<Rightarrow>
     (send_output list \<Rightarrow> string \<Rightarrow> (coin list \<times> int \<times> int) sdk) \<Rightarrow> (coin list \<times> int \<times> int) sdk" where
  "coinSelection lib w pay feeStrategy service =
     (let feeStrategy = (case feeStrategy of Some (c # cs) \<Rightarrow> c # cs | _ \<Rightarrow> ''optimal'') in
      rbind (convertPayToOutputs lib (PayList (map listed_again pay)) (w_network w) (w_useNewCashAddr w)) (\<lambda>send.
        service send feeStrategy))"

text \<open>The steps after coin selection, for the outputs \<open>send\<close> and the answer of the service.\<close>

definition assemble ::
    "('b, 'k) setting \<Rightarrow> 'k wallet \<Rightarrow> send_output list \<Rightarrow> string option \<Rightarrow> string sdk \<Rightarrow> bool \<Rightarrow> (nat \<Rightarrow> nat) \<Rightarrow>
     string \<Rightarrow> coin list \<times> int \<times> int \<Rightarrow> (transaction \<times> coin list) sdk" where
  "assemble st w send changeAddress getNewAddress randomizeChangeIdx random feeStrategy = (\<lambda>(utxos, fee, change).
     let asm = st_assembler st in
     rbind (check_change utxos send fee change) (\<lambda>_.
     rbind (add_inputs asm utxos (as_new asm (w_bitcoinCash w))) (\<lambda>txb.
     rbind (desired_outputs send) (\<lambda>outputs.
     rbind (change_target change changeAddress getNewAddress) (\<lambda>(change, changeAddress).
     rbind (add_change (st_pay st) (w_network w) (w_useNewCashAddr w) randomizeChangeIdx random change changeAddress outputs)
       (\<lambda>outputs.
     rbind (add_outputs asm outputs txb) (\<lambda>txb.
     rbind (rfold (sign_coin st w) (enumerate 0 utxos) txb) (\<lambda>txb.
     rbind (js (as_build asm txb)) (\<lambda>tx.
     rbind (js (estimateVsizeFee (st_scripts st) tx (map coin_desc utxos) None)) (\<lambda>estimatedFee.
     rbind (check_fee w feeStrategy estimatedFee fee) (\<lambda>_.
       Inr (tx, utxos))))))))))))"

definition buildTransaction ::
    "('b, 'k) setting \<Rightarrow> 'k wallet \<Rightarrow> pay \<Rightarrow> string option \<Rightarrow> string sdk \<Rightarrow> bool option \<Rightarrow> (nat \<Rightarrow> nat) \<Rightarrow> string option \<Rightarrow>
     (send_output list \<Rightarrow> string \<Rightarrow> (coin list \<times> int \<times> int) sdk) \<Rightarrow> (transaction \<times> coin list) sdk" where
  "buildTransaction st w pay changeAddress getNewAddress randomizeChangeIdx random feeStrategy service =
     (let randomizeChangeIdx = (case randomizeChangeIdx of Some r \<Rightarrow> r | None \<Rightarrow> True);
          feeStrategy = (case feeStrategy of Some (c # cs) \<Rightarrow> c # cs | _ \<Rightarrow> ''optimal'') in
      rbind (convertPayToOutputs (st_pay st) pay (w_network w) (w_useNewCashAddr w)) (\<lambda>send.
        if send = [] then Inl (WalletSendError ''Need at least one recipient'')
        else rbind (coinSelection (st_pay st) w send (Some feeStrategy) service)
               (assemble st w send changeAddress getNewAddress randomizeChangeIdx random feeStrategy)))"

lemma check_output_again:
  assumes "check_output lib network c obj = Inr out"
  shows "rbind (read_listed (listed_again out)) (check_output lib network c) = Inr out"
proof -
  let ?t = "amount_text lib (po_value obj)"
  have t: "whole_number_text ?t" "so_value out = parseInt10 ?t"
    using assms by (simp_all add: check_output_Inr)
  have "(case so_value out of Some v \<Rightarrow> number_text v | None \<Rightarrow> ''NaN'') = ?t"
    using t by (auto simp: whole_number_text_def split: option.splits)
  then have "rbind (read_listed (listed_again out)) (check_output lib network c) =
      check_output lib network c \<lparr>po_scriptPubKey = Some (so_scriptPubKey out), po_address = None, po_value = Amount ?t\<rparr>"
    by (simp add: listed_again_def read_listed_def)
  also have "\<dots> = Inr out"
  proof -
    have a: "amount_text lib (Amount x) = x" for x by (simp add: amount_text_def)
    show ?thesis using assms unfolding check_output_Inr by (elim conjE) (simp add: a output_script_def)
  qed
  finally show ?thesis .
qed

lemma checked_again:
  "rmap (\<lambda>x. rbind (f x) (check_output lib network c)) xs = Inr send \<Longrightarrow>
     rmap (\<lambda>x. rbind (read_listed x) (check_output lib network c)) (map listed_again send) = Inr send"
proof (induction xs arbitrary: send)
  case (Cons x xs)
  then obtain out send' where s: "rbind (f x) (check_output lib network c) = Inr out"
      "rmap (\<lambda>x. rbind (f x) (check_output lib network c)) xs = Inr send'" "send = out # send'" by auto
  from s(1) obtain obj where "check_output lib network c obj = Inr out" by auto
  from check_output_again [OF this] Cons.IH [OF s(2)] show ?case by (simp add: s(3) del: rbind_Inr_iff)
qed simp

text \<open>The second conversion changes nothing: the service is asked for what was converted.\<close>

lemma converted_again:
  assumes "convertPayToOutputs lib pay network c = Inr send"
  shows "convertPayToOutputs lib (PayList (map listed_again send)) network c = Inr send"
proof (cases pay)
  case (PayList xs)
  then show ?thesis using assms checked_again [of read_listed lib network c xs] by (simp add: convertPayToOutputs_def)
next
  case (PayMap xs)
  then show ?thesis using assms checked_again [of "read_mapped lib" lib network c xs] by (simp add: convertPayToOutputs_def)
qed (use assms in \<open>simp add: convertPayToOutputs_def\<close>)

text \<open>What a run that returns has been through.\<close>

lemma buildTransaction_Inr:
  assumes "buildTransaction st w pay changeAddress getNewAddress rnd random feeStrategy service = Inr (tx, coins)"
    and "strategy = (case feeStrategy of Some (c # cs) \<Rightarrow> c # cs | _ \<Rightarrow> ''optimal'')"
  shows "\<exists>send fee change. convertPayToOutputs (st_pay st) pay (w_network w) (w_useNewCashAddr w) = Inr send \<and> send \<noteq> [] \<and>
    service send strategy = Inr (coins, fee, change) \<and>
    assemble st w send changeAddress getNewAddress (case rnd of Some r \<Rightarrow> r | None \<Rightarrow> True) random strategy (coins, fee, change) =
      Inr (tx, coins)"
proof -
  obtain send r where s: "convertPayToOutputs (st_pay st) pay (w_network w) (w_useNewCashAddr w) = Inr send" "send \<noteq> []"
      "coinSelection (st_pay st) w send (Some strategy) service = Inr r"
      "assemble st w send changeAddress getNewAddress (case rnd of Some r \<Rightarrow> r | None \<Rightarrow> True) random strategy r = Inr (tx, coins)"
    using assms by (auto simp: buildTransaction_def Let_def split: if_splits)
  have ne: "(case Some strategy of Some (c # cs) \<Rightarrow> c # cs | _ \<Rightarrow> ''optimal'') = strategy"
    using assms(2) by (auto split: option.splits list.splits)
  have "service send strategy = Inr r"
    using s(3) converted_again [OF s(1)] unfolding coinSelection_def ne by simp
  moreover obtain cs fee change where r: "r = (cs, fee, change)" by (cases r)
  moreover have "cs = coins"
    using s(4) unfolding r assemble_def by (auto simp: Let_def split: prod.splits)
  ultimately show ?thesis using s by blast
qed

end
