(* ===== verification/Sdk_Build.thy ===== *)
theory Sdk_Build
  imports Sdk_Wallet
begin

text \<open>
  What \<open>Wallet.prototype.buildTransaction\<close> guarantees: the transaction it returns spends the coins
  that were selected and pays the recipients, and how far the checks bound the fee that is paid. The
  transaction builder enters through its contract, which the builder of \<open>Tx_Builder\<close> meets.
\<close>

section \<open>The contract of the transaction builder\<close>

text \<open>The outpoint a coin names: its hash is text in the reverse byte order.\<close>

definition coin_ref :: "coin \<Rightarrow> buffer \<times> nat" where
  "coin_ref c = ((case from_hex (coin_hash c) of Inr h \<Rightarrow> rev h | Inl _ \<Rightarrow> []), coin_idx c)"

definition in_refs :: "transaction \<Rightarrow> (buffer \<times> nat) list" where
  "in_refs tx = map (\<lambda>i. (ti_hash i, ti_index i)) (tx_ins tx)"

definition out_pairs :: "transaction \<Rightarrow> (buffer \<times> nat option) list" where
  "out_pairs tx = map (\<lambda>out. (to_script out, to_value out)) (tx_outs tx)"

text \<open>What a builder has collected is seen through \<open>spent\<close> and \<open>paid\<close>.\<close>

locale tx_assembler =
  fixes asm :: "('b, 'k) assembler"
    and spent :: "'b \<Rightarrow> (buffer \<times> nat) list" and paid :: "'b \<Rightarrow> (buffer \<times> nat option) list"
  assumes new_empty: "spent (as_new asm cash) = [] \<and> paid (as_new asm cash) = []"
    and adds_input: "as_addInput asm b h i = Inr b' \<Longrightarrow>
        \<exists>x. from_hex h = Inr x \<and> spent b' = spent b @ [(rev x, i)] \<and> paid b' = paid b"
    and adds_output: "as_addOutput asm b s v = Inr b' \<Longrightarrow>
        \<exists>n. v = Some (int n) \<and> paid b' = paid b @ [(s, Some n)] \<and> spent b' = spent b"
    and sign_keeps: "as_sign asm b i key redeem flag amnt ws = Inr b' \<Longrightarrow> spent b' = spent b \<and> paid b' = paid b"
    and builds: "as_build asm b = Inr tx \<Longrightarrow> in_refs tx = spent b \<and> out_pairs tx = paid b"
begin

lemma add_inputs_spent: "add_inputs asm coins b = Inr b' \<Longrightarrow> spent b' = spent b @ map coin_ref coins \<and> paid b' = paid b"
proof (induction coins arbitrary: b)
  case (Cons c coins)
  then obtain b1 where b1: "as_addInput asm b (coin_hash c) (coin_idx c) = Inr b1" "add_inputs asm coins b1 = Inr b'"
    by (auto simp: add_inputs_def)
  from adds_input [OF b1(1)] have "spent b1 = spent b @ [coin_ref c] \<and> paid b1 = paid b"
    by (auto simp: coin_ref_def)
  then show ?case using Cons.IH [OF b1(2)] by simp
qed (simp add: add_inputs_def)

lemma add_outputs_paid:
  "add_outputs asm outs b = Inr b' \<Longrightarrow>
     spent b' = spent b \<and> paid b' = paid b @ map (\<lambda>(s, v). (s, map_option nat v)) outs \<and>
     list_all (\<lambda>(s, v). \<exists>n. v = Some (int n)) outs"
proof (induction outs arbitrary: b)
  case (Cons x outs)
  obtain s v where x: "x = (s, v)" by (cases x)
  from Cons.prems obtain b1 where b1: "as_addOutput asm b s v = Inr b1" "add_outputs asm outs b1 = Inr b'"
    by (auto simp: add_outputs_def x)
  from adds_output [OF b1(1)] Cons.IH [OF b1(2)] show ?case by (auto simp: x)
qed (simp add: add_outputs_def)

lemma sign_coin_keeps:
  "st_assembler st = asm \<Longrightarrow> sign_coin st w x b = Inr b' \<Longrightarrow> spent b' = spent b \<and> paid b' = paid b"
  using sign_keeps by (cases x) (fastforce simp: sign_coin_def Let_def split: if_splits)

lemma signed_keeps:
  assumes "st_assembler st = asm" "rfold (sign_coin st w) xs b = Inr b'"
  shows "spent b' = spent b \<and> paid b' = paid b"
  by (rule rfold_invariant [OF assms(2), where P = "\<lambda>b'. spent b' = spent b \<and> paid b' = paid b"])
     (use sign_coin_keeps [OF assms(1)] in auto)

lemma assembled:
  assumes asm: "st_assembler st = asm"
    and run: "assemble st w send changeAddress getNewAddress rnd random strategy (coins, fee, change) = Inr (tx, coins')"
  shows "\<exists>outs change' address outs' e. check_change coins send fee change = Inr () \<and>
      desired_outputs send = Inr outs \<and> change_target change changeAddress getNewAddress = Inr (change', address) \<and>
      add_change (st_pay st) (w_network w) (w_useNewCashAddr w) rnd random change' address outs = Inr outs' \<and>
      in_refs tx = map coin_ref coins \<and> out_pairs tx = map (\<lambda>(s, v). (s, map_option nat v)) outs' \<and>
      list_all (\<lambda>(s, v). \<exists>n. v = Some (int n)) outs' \<and>
      estimateVsizeFee (st_scripts st) tx (map coin_desc coins) None = Inr e \<and> check_fee w strategy e fee = Inr ()"
proof -
  from run obtain b1 outs change' address outs' b2 b3 e where r:
      "check_change coins send fee change = Inr ()" "add_inputs asm coins (as_new asm (w_bitcoinCash w)) = Inr b1"
      "desired_outputs send = Inr outs" "change_target change changeAddress getNewAddress = Inr (change', address)"
      "add_change (st_pay st) (w_network w) (w_useNewCashAddr w) rnd random change' address outs = Inr outs'"
      "add_outputs asm outs' b1 = Inr b2" "rfold (sign_coin st w) (enumerate 0 coins) b2 = Inr b3" "as_build asm b3 = Inr tx"
      "estimateVsizeFee (st_scripts st) tx (map coin_desc coins) None = Inr e" "check_fee w strategy e fee = Inr ()"
    unfolding assemble_def by (auto simp: Let_def asm)
  note add_inputs_spent [OF r(2)] add_outputs_paid [OF r(6)] signed_keeps [OF asm r(7)] builds [OF r(8)] new_empty
  then have "in_refs tx = map coin_ref coins" "out_pairs tx = map (\<lambda>(s, v). (s, map_option nat v)) outs'"
      "list_all (\<lambda>(s, v). \<exists>n. v = Some (int n)) outs'"
    by simp_all
  then show ?thesis using r(1,3,4,5,9,10) by blast
qed

end

section \<open>Outputs and change\<close>

lemma desired_outputs_Inr:
  "desired_outputs send = Inr outs \<Longrightarrow> outs = map (\<lambda>out. (hex_pairs (so_scriptPubKey out), so_value out)) send"
proof (induction send arbitrary: outs)
  case (Cons out send)
  from Cons.prems obtain s outs' where s: "from_hex (so_scriptPubKey out) = Inr s" "outs = (s, so_value out) # outs'"
      "desired_outputs send = Inr outs'"
    by (auto simp: desired_outputs_def split: if_splits)
  then show ?case using Cons.IH [OF s(3)] by (auto simp: from_hex_def split: if_splits)
qed (simp add: desired_outputs_def)

lemma change_target_Inr:
  "change_target change a g = Inr (change', a') \<Longrightarrow> change' = (if 0 < change \<and> change \<le> DUST then 0 else change)"
  by (auto simp: change_target_def split: if_splits option.splits list.splits)

lemma add_change_Inr:
  assumes "add_change lib net c rnd random change address outs = Inr outs'"
  shows "if change > 0 then \<exists>s i. lib_toOutputScript lib (the address) net c = Inr s \<and> outs' = take i outs @ (s, Some change) # drop i outs
         else outs' = outs"
proof (cases "change > 0")
  case True
  then obtain s where s: "lib_toOutputScript lib (the address) net c = Inr s"
      "outs' = (if rnd then take (random (length outs)) outs @ [(s, Some change)] @ drop (random (length outs)) outs
                else outs @ [(s, Some change)])"
    using assms by (auto simp: add_change_def Let_def split: if_splits)
  show ?thesis
  proof (cases rnd)
    case True
    then show ?thesis using s \<open>change > 0\<close> by auto
  next
    case False
    then have "outs' = take (length outs) outs @ (s, Some change) # drop (length outs) outs" using s by simp
    then show ?thesis using s(1) \<open>change > 0\<close> by (simp only: if_True) blast
  qed
qed (use assms in \<open>simp add: add_change_def\<close>)

lemma js_sum_Inr: "js_sum xs = Inr s \<Longrightarrow> s = sum_list xs"
proof -
  have "foldl (+) a ys = a + sum_list ys" for a :: int and ys by (induction ys arbitrary: a) simp_all
  then show "js_sum xs = Inr s \<Longrightarrow> s = sum_list xs" by (auto simp: js_sum_def split: list.splits)
qed

section \<open>The fee that is paid\<close>

definition total_in :: "coin list \<Rightarrow> int" where
  "total_in coins = (\<Sum>c\<leftarrow>coins. coin_value c)"

definition total_out :: "transaction \<Rightarrow> int" where
  "total_out tx = (\<Sum>out\<leftarrow>tx_outs tx. int (the (to_value out)))"

lemma total_out_pairs:
  assumes "out_pairs tx = map (\<lambda>(s, v). (s, map_option nat v)) outs" "list_all (\<lambda>(s, v). \<exists>n. v = Some (int n)) outs"
  shows "total_out tx = (\<Sum>(s, v)\<leftarrow>outs. the v)"
proof -
  have "map (\<lambda>out. int (the (to_value out))) (tx_outs tx) = map (\<lambda>(s, v). int (the v)) (out_pairs tx)"
    by (simp add: out_pairs_def comp_def)
  moreover have "map (\<lambda>(s, v). int (the v)) (map (\<lambda>(s, v). (s, map_option nat v)) outs) = map (\<lambda>(s, v). the v) outs"
    using assms(2) by (induction outs) auto
  ultimately show ?thesis by (simp only: total_out_def assms(1))
qed



lemma sum_inserted:
  "(\<Sum>(s, v)\<leftarrow>take i outs @ (s', Some c) # drop i outs. the v) = (c :: int) + (\<Sum>(s, v)\<leftarrow>outs. the v)"
proof -
  have "(\<Sum>(s, v)\<leftarrow>take i outs. the v) + (\<Sum>(s, v)\<leftarrow>drop i outs. the v) = (\<Sum>(s, v)\<leftarrow>outs. the v)"
    by (metis append_take_drop_id map_append sum_list_append)
  then show ?thesis by simp
qed

lemma check_change_Inr:
  assumes "check_change coins send fee change = Inr ()" "list_all (\<lambda>out. so_value out \<noteq> None) send"
    and "est = total_in coins - (\<Sum>out\<leftarrow>send. the (so_value out)) - fee"
  shows "est > DUST * 2 \<longrightarrow> est = change"
proof -
  have "\<not> list_ex (\<lambda>out. so_value out = None) send" using assms(2) by (simp add: list_all_iff list_ex_iff)
  then show ?thesis
    using assms(1,3) by (auto simp: check_change_def total_in_def Let_def dest!: js_sum_Inr split: if_splits)
qed

definition requested :: "send_output list \<Rightarrow> (buffer \<times> int option) list" where
  "requested send = map (\<lambda>out. (hex_pairs (so_scriptPubKey out), so_value out)) send"

text \<open>Everything a run that returns has established, in terms of coins and amounts.\<close>

lemma assembled_tx:
  assumes asm: "tx_assembler (st_assembler st) spent paid"
    and run: "buildTransaction st w pay changeAddress getNewAddress rnd random feeStrategy service = Inr (tx, coins)"
    and strategy: "strategy = (case feeStrategy of Some (c # cs) \<Rightarrow> c # cs | _ \<Rightarrow> ''optimal'')"
  shows "\<exists>send fee change outs e.
    convertPayToOutputs (st_pay st) pay (w_network w) (w_useNewCashAddr w) = Inr send \<and>
    service send strategy = Inr (coins, fee, change) \<and>
    in_refs tx = map coin_ref coins \<and> out_pairs tx = map (\<lambda>(s, v). (s, map_option nat v)) outs \<and>
    list_all (\<lambda>(s, v). \<exists>n. v = Some (int n)) outs \<and>
    (if change > DUST then \<exists>s i. outs = take i (requested send) @ (s, Some change) # drop i (requested send)
     else outs = requested send) \<and>
    total_in coins - total_out tx \<le> fee + 2 * DUST \<and>
    estimateVsizeFee (st_scripts st) tx (map coin_desc coins) None = Inr e \<and> check_fee w strategy e fee = Inr ()"
proof -
  from buildTransaction_Inr [OF run strategy] obtain send fee change where s:
      "convertPayToOutputs (st_pay st) pay (w_network w) (w_useNewCashAddr w) = Inr send"
      "service send strategy = Inr (coins, fee, change)"
      "assemble st w send changeAddress getNewAddress (case rnd of Some r \<Rightarrow> r | None \<Rightarrow> True) random strategy
         (coins, fee, change) = Inr (tx, coins)" by blast
  from tx_assembler.assembled [OF asm refl s(3)] obtain outs change' address outs' e where a:
      "check_change coins send fee change = Inr ()" "desired_outputs send = Inr outs"
      "change_target change changeAddress getNewAddress = Inr (change', address)"
      "add_change (st_pay st) (w_network w) (w_useNewCashAddr w) (case rnd of Some r \<Rightarrow> r | None \<Rightarrow> True) random change' address outs = Inr outs'"
      "in_refs tx = map coin_ref coins" "out_pairs tx = map (\<lambda>(s, v). (s, map_option nat v)) outs'"
      "list_all (\<lambda>(s, v). \<exists>n. v = Some (int n)) outs'"
      "estimateVsizeFee (st_scripts st) tx (map coin_desc coins) None = Inr e" "check_fee w strategy e fee = Inr ()"
    by blast
  have req: "outs = requested send" using desired_outputs_Inr [OF a(2)] by (simp add: requested_def)
  have c': "change' = (if 0 < change \<and> change \<le> DUST then 0 else change)" by (rule change_target_Inr [OF a(3)])
  have dust: "0 < DUST" by (simp add: DUST_def)
  have shape: "if change > DUST then \<exists>s i. outs' = take i outs @ (s, Some change) # drop i outs else outs' = outs"
    using add_change_Inr [OF a(4)] c' dust by (auto split: if_splits)
  have sums: "(\<Sum>(s, v)\<leftarrow>outs'. the v) = (if change > DUST then change else 0) + (\<Sum>(s, v)\<leftarrow>outs. the v)"
    using shape sum_inserted by (auto split: if_splits)
  have parts: "set outs = set (take i outs) \<union> set (drop i outs)" for i by (metis append_take_drop_id set_append)
  have sub: "set outs \<subseteq> set outs'"
  proof (cases "change > DUST")
    case True
    then obtain s i where "outs' = take i outs @ (s, Some change) # drop i outs" using shape by auto
    then show ?thesis using parts [of i] by auto
  qed (use shape in simp)
  have all: "list_all (\<lambda>out. so_value out \<noteq> None) send"
    unfolding list_all_iff
  proof
    fix out
    assume "out \<in> set send"
    then have "(hex_pairs (so_scriptPubKey out), so_value out) \<in> set outs'" using sub by (auto simp: req requested_def)
    then show "so_value out \<noteq> None" using a(7) by (auto simp: list_all_iff)
  qed
  have "(\<Sum>(s, v)\<leftarrow>outs. the v) = (\<Sum>out\<leftarrow>send. the (so_value out))"
    by (simp add: req requested_def comp_def)
  then have "total_out tx = (if change > DUST then change else 0) + (\<Sum>out\<leftarrow>send. the (so_value out))"
    using total_out_pairs [OF a(6,7)] sums by simp
  then have "total_in coins - total_out tx \<le> fee + 2 * DUST"
    using check_change_Inr [OF a(1) all refl] dust by (auto split: if_splits)
  then show ?thesis using s a shape unfolding req by blast
qed

section \<open>The builder of the repository\<close>

text \<open>\<open>Tx_Builder\<close> as the builder of the wallet: it has no Bitcoin Cash mode and no witnesses.\<close>

definition bscript_assembler :: "builder_lib \<Rightarrow> network \<Rightarrow> ('k \<Rightarrow> key_pair) \<Rightarrow> (builder, 'k) assembler" where
  "bscript_assembler L net kp = \<lparr>
     as_new = (\<lambda>_. new_builder (Some net)),
     as_addInput = (\<lambda>b h i. rbind (tb_addInput L b (HexId h) i None None) (\<lambda>(b, _). Inr b)),
     as_addOutput = (\<lambda>b s v. case v of
         Some v \<Rightarrow> if v < 0 then Inl (JsTypeError ''Expected UInt53'')
                   else rbind (tb_addOutput L b (ToScript s) (nat v)) (\<lambda>(b, _). Inr b)
       | None \<Rightarrow> Inl (JsTypeError ''Expected UInt53'')),
     as_sign = (\<lambda>b i k redeem flag amnt ws. case tb_sign L b i (kp k) (Some redeem) (Some flag) of
         (b, Inr _) \<Rightarrow> Inr b
       | (_, Inl e) \<Rightarrow> Inl e),
     as_build = (\<lambda>b. tb_build L b True),
     as_forkFlag = 0x40\<rparr>"

lemma put_input_tx [simp]: "tb_tx (put_input b i x) = tb_tx b"
  by (simp add: put_input_def)

lemma tb_sign_tx: "tb_sign L b i k r h = (b', outcome) \<Longrightarrow> tb_tx b' = tb_tx b"
  using tb_sign_cases by fastforce

lemma map_blank_script_refs: "map blank_script is = map blank_script js' \<Longrightarrow>
    map (\<lambda>i. (ti_hash i, ti_index i)) is = map (\<lambda>i. (ti_hash i, ti_index i)) js'"
proof (induction "is" arbitrary: js')
  case (Cons i "is")
  then obtain j js'' where j: "js' = j # js''" "blank_script i = blank_script j" "map blank_script is = map blank_script js''"
    by (cases js') auto
  from j(2) have "ti_hash (blank_script i) = ti_hash (blank_script j)" "ti_index (blank_script i) = ti_index (blank_script j)" by simp_all
  then show ?case using Cons.IH [OF j(3)] j(1) by (simp add: blank_script_def)
qed simp

interpretation bscript_asm: tx_assembler "bscript_assembler L net kp"
  "\<lambda>b. in_refs (tb_tx b)" "\<lambda>b. out_pairs (tb_tx b)" for L net kp
proof (unfold_locales, goal_cases)
  case (1 cash)
  then show ?case by (simp add: bscript_assembler_def new_builder_def new_transaction_def in_refs_def out_pairs_def)
next
  case (2 b h i b')
  then obtain vin where "tb_addInput L b (HexId h) i None None = Inr (b', vin)"
    by (auto simp: bscript_assembler_def)
  then show ?case
    by (auto simp: tb_addInput_def resolve_prev_def tx_addInput_def in_refs_def out_pairs_def Let_def split: if_splits)
next
  case (3 b s v b')
  then obtain n vout where "v = Some (int n)" "tb_addOutput L b (ToScript s) n = Inr (b', vout)"
    by (auto simp: bscript_assembler_def split: option.splits if_splits)
       (metis int_nat_eq linorder_not_less)
  then show ?case
    by (auto simp: tb_addOutput_def tx_addOutput_def in_refs_def out_pairs_def Let_def split: if_splits)
next
  case (4 b i key redeem flag amnt ws b')
  then have "tb_sign L b i (kp key) (Some redeem) (Some flag) = (b', Inr ())"
    by (auto simp: bscript_assembler_def split: prod.splits sum.splits)
  then show ?case using tb_sign_tx by metis
next
  case (5 b tx)
  then have "tb_build L b True = Inr tx" by (simp add: bscript_assembler_def)
  then have s: "tx_outs tx = tx_outs (tx_clone (tb_tx b))"
      "map blank_script (tx_ins tx) = map blank_script (tx_ins (tx_clone (tb_tx b)))"
    using build_same by (auto simp: same_but_scripts_def)
  from map_blank_script_refs [OF s(2)] have "in_refs tx = in_refs (tb_tx b)"
    by (simp add: in_refs_def tx_clone_def comp_def)
  moreover have "out_pairs tx = out_pairs (tb_tx b)" by (simp add: out_pairs_def s(1) tx_clone_def comp_def)
  ultimately show ?case by simp
qed

section \<open>What is built\<close>

text \<open>C3: the transaction \<open>buildTransaction\<close> returns spends exactly the coins the service selected, in
  order, and its outputs are exactly the requested payments, in order, with one output of the change
  somewhere between them when the change is above the dust limit, and no other: nothing the service
  answers removes, alters or redirects a payment.\<close>

theorem built_transaction_pays_recipients:
  assumes "tx_assembler (st_assembler st) spent paid"
    and "buildTransaction st w pay changeAddress getNewAddress rnd random feeStrategy service = Inr (tx, coins)"
  shows "\<exists>send strategy fee change. convertPayToOutputs (st_pay st) pay (w_network w) (w_useNewCashAddr w) = Inr send \<and>
    service send strategy = Inr (coins, fee, change) \<and> in_refs tx = map coin_ref coins \<and>
    (let outs = map (\<lambda>out. (to_script out, map_option int (to_value out))) (tx_outs tx) in
     if change > DUST then \<exists>s i. outs = take i (requested send) @ (s, Some change) # drop i (requested send)
     else outs = requested send)"
proof -
  from assembled_tx [OF assms refl] obtain send fee change outs strategy where b:
      "convertPayToOutputs (st_pay st) pay (w_network w) (w_useNewCashAddr w) = Inr send"
      "service send strategy = Inr (coins, fee, change)" "in_refs tx = map coin_ref coins"
      "out_pairs tx = map (\<lambda>(s, v). (s, map_option nat v)) outs" "list_all (\<lambda>(s, v). \<exists>n. v = Some (int n)) outs"
      "if change > DUST then \<exists>s i. outs = take i (requested send) @ (s, Some change) # drop i (requested send)
       else outs = requested send"
    by blast
  have "map (\<lambda>out. (to_script out, map_option int (to_value out))) (tx_outs tx) = map (\<lambda>(s, v). (s, map_option int v)) (out_pairs tx)"
    by (simp add: out_pairs_def comp_def)
  moreover have "map (\<lambda>(s, v). (s, map_option int v)) (map (\<lambda>(s, v). (s, map_option nat v)) outs) = outs"
    using b(5) by (induction outs) auto
  ultimately have "map (\<lambda>out. (to_script out, map_option int (to_value out))) (tx_outs tx) = outs" by (simp only: b(4))
  then show ?thesis using b unfolding Let_def by blast
qed

text \<open>C4: under the base-fee strategy with the check of the client switched on, the coins exceed the
  outputs by at most the legacy fee of the estimated size, one \<open>BASE_FEE\<close> and two dust limits, no
  matter which coins, fee and change the service proposed.\<close>

theorem base_fee_is_bounded:
  assumes "tx_assembler (st_assembler st) spent paid"
    and "buildTransaction st w pay changeAddress getNewAddress rnd random (Some ''base_fee'') service = Inr (tx, coins)"
    and "ac_feeSanityCheck (w_sdk w)"
  shows "\<exists>v. estimateTxVsize (st_scripts st) tx (map coin_desc coins) = Inr v \<and>
    (v < 2 ^ 40 \<longrightarrow> total_in coins - total_out tx \<le> int ((v + 999) div 1000 * 10000) + 10000 + 2 * 2730)"
proof -
  from assembled_tx [OF assms(1,2) refl] obtain fee e where b: "total_in coins - total_out tx \<le> fee + 2 * DUST"
      "estimateVsizeFee (st_scripts st) tx (map coin_desc coins) None = Inr e" "check_fee w ''base_fee'' e fee = Inr ()"
    by auto
  then obtain v where v: "estimateTxVsize (st_scripts st) tx (map coin_desc coins) = Inr v" "e = fee_of_size v None"
    by (auto simp: estimateVsizeFee_def)
  have "total_in coins - total_out tx \<le> int ((v + 999) div 1000 * 10000) + 10000 + 2 * 2730" if "v < 2 ^ 40"
  proof -
    have "e = Some ((v + 999) div 1000 * 10000)" using v(2) legacy_fee [OF that] by simp
    then have "\<bar>int ((v + 999) div 1000 * 10000) - fee\<bar> \<le> 10000"
      using b(3) assms(3) by (simp add: check_fee_def BASE_FEE_def not_less split: if_splits)
    then show ?thesis using b(1) unfolding DUST_def by linarith
  qed
  then show ?thesis using v(1) by blast
qed

text \<open>C36: the check of the fee for the other strategies has no effect. It multiplies the estimate by a
  property of the wallet that the constructor does not set (the option belongs to the client), so
  the comparison is with \<open>NaN\<close>. With the check switched on, and whatever multiplier the client was
  given, \<open>buildTransaction\<close> does what it does with the check switched off, and any fee is accepted.\<close>

theorem fee_check_has_no_effect:
  assumes "new_wallet nets (new_api_client network testnet check multiplier) segwit testnet' cash = Inr w"
    and "feeStrategy \<in> {None, Some ''optimal'', Some ''high_priority'', Some ''low_priority''}"
  shows "check_fee (w\<lparr>w_primaryPrivateKey := key\<rparr>) (case feeStrategy of Some s \<Rightarrow> s | None \<Rightarrow> ''optimal'') estimate fee = Inr () \<and>
    buildTransaction st (w\<lparr>w_primaryPrivateKey := key\<rparr>) pay changeAddress getNewAddress rnd random feeStrategy service =
    buildTransaction st (w\<lparr>w_primaryPrivateKey := key, w_sdk := (w_sdk w)\<lparr>ac_feeSanityCheck := False\<rparr>\<rparr>)
      pay changeAddress getNewAddress rnd random feeStrategy service"
proof
  define strategy where "strategy = (case feeStrategy of Some s \<Rightarrow> s | None \<Rightarrow> ''optimal'')"
  let ?w = "w\<lparr>w_primaryPrivateKey := key\<rparr>"
  let ?off = "w\<lparr>w_primaryPrivateKey := key, w_sdk := (w_sdk w)\<lparr>ac_feeSanityCheck := False\<rparr>\<rparr>"
  have mult: "w_feeSanityCheckBaseFeeMultiplier w = None" using assms(1) by (auto simp: new_wallet_def split: if_splits)
  have st: "strategy \<in> {''optimal'', ''high_priority'', ''low_priority''}" using assms(2) by (auto simp: strategy_def)
  have ok: "check_fee ?w strategy e f = Inr ()" for e f
    using st mult by (auto simp: check_fee_def split: option.splits)
  then show "check_fee ?w (case feeStrategy of Some s \<Rightarrow> s | None \<Rightarrow> ''optimal'') estimate fee = Inr ()"
    by (simp add: strategy_def)
  have off: "check_fee ?off strategy e f = Inr ()" for e f by (simp add: check_fee_def)
  have key: "signing_key keys ?w p = signing_key keys ?off p" for keys p
    by (cases key) (simp_all add: signing_key_def)
  have sign: "sign_coin st ?w = sign_coin st ?off" unfolding sign_coin_def key by simp
  have run: "assemble st ?w send changeAddress getNewAddress r random strategy = assemble st ?off send changeAddress getNewAddress r random strategy" for send r
    by (simp add: assemble_def ok off sign)
  have strat: "(case feeStrategy of Some (c # cs) \<Rightarrow> c # cs | _ \<Rightarrow> ''optimal'') = strategy"
    using assms(2) by (auto simp: strategy_def)
  show "buildTransaction st ?w pay changeAddress getNewAddress rnd random feeStrategy service =
    buildTransaction st ?off pay changeAddress getNewAddress rnd random feeStrategy service"
  proof -
    have sel: "coinSelection lib ?w send s service = coinSelection lib ?off send s service" for lib send s
      by (simp add: coinSelection_def)
    have net: "w_network ?w = w_network ?off" "w_useNewCashAddr ?w = w_useNewCashAddr ?off" by simp_all
    show ?thesis unfolding buildTransaction_def Let_def strat run sel net ..
  qed
qed

section \<open>A payment\<close>

text \<open>One coin that is not signed for, one recipient, and a change output: an instance for the
  theorems above, with the builder of the repository.\<close>

definition plain_scripts :: script_lib where
  "plain_scripts = \<lparr>multisig_check = (\<lambda>_. False), multisig_decode = (\<lambda>_. Inr (0, [])), pubKey_check = (\<lambda>_. False),
     pubKey_decode = Inr, pubKeyHash_check = (\<lambda>_. True), pubKeyHash_encode = Inr, scriptHash_check = (\<lambda>_. False),
     witnessPubKeyHash_check = (\<lambda>_. False), witnessPubKeyHash_decode = Inr, witnessScriptHash_check = (\<lambda>_. False),
     lib_classifyOutput = (\<lambda>_. ''pubkeyhash''), type_MULTISIG = ''multisig'', type_P2PKH = ''pubkeyhash'', type_P2PK = ''pubkey''\<rparr>"

definition example_setting :: "(builder, int list) setting" where
  "example_setting = \<lparr>st_scripts = plain_scripts, st_pay = sample_pay_lib, st_keys = step_log,
     st_assembler = bscript_assembler sample_blib bitcoin_network (\<lambda>_. sample_kp)\<rparr>"

definition example_networks :: lib_networks where
  "example_networks = \<lparr>net_bitcoin = sample_network, net_testnet = sample_network,
     net_bitcoincash = sample_network, net_bitcoincashtestnet = sample_network\<rparr>"

definition example_wallet :: "(int list) wallet" where
  "example_wallet =
     \<lparr>w_sdk = new_api_client None None None None, w_locked = True, w_bitcoinCash = False, w_segwit = False,
      w_useNewCashAddr = False, w_network = sample_network, w_primaryPrivateKey = None, w_backupPrivateKey = None,
      w_chain = 0, w_changeChain = 0, w_feeSanityCheckBaseFeeMultiplier = None\<rparr>"

definition example_coin :: coin where
  "example_coin = \<lparr>coin_hash = to_hex (replicate 32 7), coin_idx = 0, coin_value = 100000, coin_path = ''M/0/1'',
     coin_sign_mode = Some ''dont_sign'', coin_desc = \<lparr>scriptpubkey_hex = Text (to_hex [0x76]), redeem_script = Null, witness_script = Null\<rparr>\<rparr>"

definition example_script :: buffer where "example_script = 0xa9 # 20 # replicate 20 7 @ [0x87]"

definition example_tx :: transaction where
  "example_tx = new_transaction\<lparr>tx_ins := [sample_input],
     tx_outs := [\<lparr>to_value = Some 5000, to_script = example_script, to_valueBuffer = None\<rparr>,
                 \<lparr>to_value = Some 85000, to_script = example_script, to_valueBuffer = None\<rparr>]\<rparr>"

definition example_send :: "send_output list" where
  "example_send = [\<lparr>so_scriptPubKey = to_hex example_script, so_value = Some 5000\<rparr>]"

lemma example_wallet_new: "new_wallet example_networks (new_api_client None None None None) False False False = Inr example_wallet"
  by (simp add: new_wallet_def new_api_client_def example_wallet_def example_networks_def)

lemma example_convert:
  "convertPayToOutputs sample_pay_lib (PayMap [(''3abc'', Amount (dec_string 5000))]) sample_network False = Inr example_send"
proof -
  have "list_all (\<lambda>(a, n, s). trim_text a = a \<and> a \<noteq> ''opreturn'' \<and> DUST < int n \<and> n < 2 ^ 53 \<and>
      (\<exists>d t. getAddressAndType sample_pay_lib a sample_network False = Inr (a, d, t)) \<and>
      lib_toOutputScript sample_pay_lib a sample_network False = Inr s \<and> s \<noteq> [] \<and> hd s \<noteq> 0x6a) [(''3abc'', 5000, example_script)]"
    by (simp add: sample_pay_lib_def sample_network_def getAddressAndType_def readAddress_def readBech32Address_def
        readBase58Address_def trim_text_def js_space_def DUST_def example_script_def)
  from converted_map [OF this] show ?thesis by (simp add: example_send_def)
qed

lemma example_inputs:
  "add_inputs (st_assembler example_setting) [example_coin] (as_new (st_assembler example_setting) False) = Inr sample_builder1"
  by (simp add: add_inputs_def example_setting_def bscript_assembler_def example_coin_def tb_addInput_def resolve_prev_def
      from_hex_to_hex input_of_prevOut_def tx_addInput_def Hash256bit_def nBuffer_ok UInt32_iff new_builder_def
      new_transaction_def sample_builder1_def sample_input_def Let_def)

lemma example_outputs:
  "add_outputs (st_assembler example_setting) [(example_script, Some 5000), (example_script, Some 85000)] sample_builder1 =
     Inr (sample_builder1\<lparr>tb_tx := example_tx\<rparr>)"
  by (simp add: add_outputs_def example_setting_def bscript_assembler_def tb_addOutput_def tx_addOutput_def UInt53_def
      sample_builder1_def example_tx_def new_transaction_def output_can_be_added_def no_input_def Let_def)

lemma example_built: "as_build (st_assembler example_setting) (sample_builder1\<lparr>tb_tx := example_tx\<rparr>) = Inr example_tx"
  by (simp add: example_setting_def bscript_assembler_def tb_build_def sample_builder1_def build_input_def no_input_def
      tx_clone_def example_tx_def new_transaction_def sample_input_def)

lemma example_size: "estimateTxVsize plain_scripts example_tx [coin_desc example_coin] = Inr 222"
  by (simp add: estimateTxVsize_def estimateTxWeight_def calculateOutputsSize_def estimateInputsSize_def estimateUtxo_def
      estimateInputFromScripts_def estimateP2PKHStackSize_def estimateStackSignatureSize_def getLengthForVarInt_def
      getLengthForScriptPush_def getPublicKeySize_def plain_scripts_def example_coin_def example_tx_def example_script_def
      buffer_from_hex_def hex_or_null_def from_hex_def new_transaction_def Let_def)

lemma example_run:
  "buildTransaction example_setting example_wallet (PayMap [(''3abc'', Amount (dec_string 5000))]) (Some ''3chg'')
     (Inl (Thrown JsRangeError)) (Some False) id (Some ''base_fee'') (\<lambda>_ _. Inr ([example_coin], 10000, 85000)) =
   Inr (example_tx, [example_coin])"
proof -
  let ?w = example_wallet and ?s = example_setting
  have c1: "convertPayToOutputs (st_pay ?s) (PayMap [(''3abc'', Amount (dec_string 5000))]) (w_network ?w) (w_useNewCashAddr ?w) = Inr example_send"
    using example_convert by (simp add: example_setting_def example_wallet_def)
  from converted_again [OF c1] have c2: "coinSelection (st_pay ?s) ?w example_send (Some ''base_fee'')
      (\<lambda>_ _. Inr ([example_coin], 10000, 85000)) = Inr ([example_coin], 10000, 85000)"
    by (simp add: coinSelection_def del: rbind_Inr_iff)
  have ne: "example_send \<noteq> []" by (simp add: example_send_def)
  have c3: "check_change [example_coin] example_send 10000 85000 = Inr ()"
    by (simp add: check_change_def js_sum_def example_coin_def example_send_def)
  have c4: "desired_outputs example_send = Inr [(example_script, Some 5000)]"
  proof -
    have "to_hex example_script \<noteq> []" by (simp add: example_script_def)
    then show ?thesis by (simp add: desired_outputs_def example_send_def from_hex_to_hex)
  qed
  have c5: "change_target 85000 (Some ''3chg'') g = Inr (85000, Some ''3chg'')" for g
    by (simp add: change_target_def DUST_def)
  have c6: "add_change (st_pay ?s) n c False id 85000 (Some ''3chg'') [(example_script, Some 5000)] =
      Inr [(example_script, Some 5000), (example_script, Some 85000)]" for n c
    by (simp add: add_change_def example_setting_def sample_pay_lib_def example_script_def)
  have c7: "rfold (sign_coin ?s ?w) (enumerate 0 [example_coin]) b = Inr b" for b
    by (simp add: sign_coin_def example_coin_def)
  have "estimateVsizeFee (st_scripts ?s) example_tx (map coin_desc [example_coin]) None = Inr (Some 10000)"
    using example_size legacy_fee [of 222] by (simp add: estimateVsizeFee_def example_setting_def)
  moreover have "check_fee ?w ''base_fee'' (Some 10000) 10000 = Inr ()"
    by (simp add: check_fee_def BASE_FEE_def)
  moreover have "w_bitcoinCash ?w = False" by (simp add: example_wallet_def)
  ultimately have "assemble ?s ?w example_send (Some ''3chg'') (Inl (Thrown JsRangeError)) False id ''base_fee''
      ([example_coin], 10000, 85000) = Inr (example_tx, [example_coin])"
    using c3 c4 c5 c6 c7 example_inputs example_outputs example_built
    by (simp add: assemble_def Let_def del: rbind_Inr_iff list.map enumerate_simps)
  then show ?thesis using c1 c2 ne by (simp add: buildTransaction_def del: rbind_Inr_iff)
qed

lemma example_assembler: "tx_assembler (st_assembler example_setting) (\<lambda>b. in_refs (tb_tx b)) (\<lambda>b. out_pairs (tb_tx b))"
  unfolding example_setting_def by (simp add: bscript_asm.tx_assembler_axioms)

theorem built_transaction_pays_recipients_witness:
  "\<exists>send (strategy :: string) fee change.
    convertPayToOutputs (st_pay example_setting) (PayMap [(''3abc'', Amount (dec_string 5000))]) (w_network example_wallet)
      (w_useNewCashAddr example_wallet) = Inr send \<and>
    (\<lambda>_ _. Inr ([example_coin], 10000, 85000)) send strategy = (Inr ([example_coin], fee, change) :: (coin list \<times> int \<times> int) sdk) \<and>
    in_refs example_tx = map coin_ref [example_coin] \<and>
    (let outs = map (\<lambda>out. (to_script out, map_option int (to_value out))) (tx_outs example_tx) in
     if change > DUST then \<exists>s i. outs = take i (requested send) @ (s, Some change) # drop i (requested send)
     else outs = requested send)"
  by (rule built_transaction_pays_recipients [OF example_assembler example_run])

theorem base_fee_is_bounded_witness:
  "total_in [example_coin] - total_out example_tx \<le> int ((222 + 999) div 1000 * 10000) + 10000 + 2 * 2730"
proof -
  have "ac_feeSanityCheck (w_sdk example_wallet)" by (simp add: example_wallet_def new_api_client_def)
  from base_fee_is_bounded [OF example_assembler example_run this] obtain v where
    v: "estimateTxVsize plain_scripts example_tx [coin_desc example_coin] = Inr v"
      "v < 2 ^ 40 \<longrightarrow> total_in [example_coin] - total_out example_tx \<le> int ((v + 999) div 1000 * 10000) + 10000 + 2 * 2730"
    by (auto simp: example_setting_def)
  from v(1) example_size have "v = 222" by simp
  then show ?thesis using v(2) by simp
qed

theorem fee_check_has_no_effect_witness:
  "check_fee (example_wallet\<lparr>w_primaryPrivateKey := Some [1]\<rparr>) ''optimal'' (Some 10000) 100000000000 = Inr ()"
  using fee_check_has_no_effect [OF example_wallet_new, where feeStrategy = "Some ''optimal''" and st = example_setting
      and key = "Some [1]" and estimate = "Some 10000" and fee = 100000000000, THEN conjunct1]
  by simp

end
