(* ===== verification/Ecdsa.thy ===== *)
theory Ecdsa
  imports Ec_Signature
begin

text \<open>
  \<open>bitcoinjs-lib/src/ecdsa.js\<close>: deterministic nonces, signing, verifying, and recovering a public key
  from a signature. The curve secp256k1 comes from the package ecurve, modular inverses from bigi,
  HMAC from create-hmac: they are the record \<open>ec_lib\<close>, and \<open>curve_ok\<close> states what a group of prime
  order generated by \<open>G\<close> promises.
\<close>

section \<open>The curve\<close>

record 'p ec_lib =
  ec_sig :: sig_lib
  hmac_sha256 :: "buffer \<Rightarrow> buffer \<Rightarrow> buffer"
  modInverse :: "int \<Rightarrow> int \<Rightarrow> int"
  cv_n :: int
  cv_G :: 'p
  cv_multiply :: "'p \<Rightarrow> int \<Rightarrow> 'p"
  cv_multiplyTwo :: "'p \<Rightarrow> int \<Rightarrow> 'p \<Rightarrow> int \<Rightarrow> 'p"
  cv_add :: "'p \<Rightarrow> 'p \<Rightarrow> 'p"
  cv_isInfinity :: "'p \<Rightarrow> bool"
  cv_affineX :: "'p \<Rightarrow> int"
  cv_pointFromX :: "int \<Rightarrow> int \<Rightarrow> 'p"
  cv_validate :: "'p \<Rightarrow> unit res"
  cv_equals :: "'p \<Rightarrow> 'p \<Rightarrow> bool"
  cv_getEncoded :: "'p \<Rightarrow> bool \<Rightarrow> buffer"
  cv_decodeFrom :: "buffer \<Rightarrow> ('p \<times> bool) res"

abbreviation from_buffer :: "'p ec_lib \<Rightarrow> buffer \<Rightarrow> int" where
  "from_buffer L \<equiv> bn_fromBuffer (ec_sig L)"

text \<open>What may also not return: \<open>None\<close> is a loop that runs forever.\<close>

type_synonym 'a run = "'a res option"

definition run_bind :: "'a res \<Rightarrow> ('a \<Rightarrow> 'b run) \<Rightarrow> 'b run" where
  "run_bind r f = (case r of Inl e \<Rightarrow> Some (Inl e) | Inr x \<Rightarrow> f x)"

lemma run_bind_simps [simp]: "run_bind (Inl e) f = Some (Inl e)" "run_bind (Inr x) f = f x"
  by (simp_all add: run_bind_def)

lemma run_bind_Inr: "run_bind r f = Some (Inr y) \<longleftrightarrow> (\<exists>x. r = Inr x \<and> f x = Some (Inr y))"
  by (cases r) simp_all

section \<open>Deterministic nonces\<close>

definition ZERO_buf :: buffer where "ZERO_buf = [0]"
definition ONE_buf :: buffer where "ONE_buf = [1]"

text \<open>The callback \<open>checkSig\<close> answers and, on the way, stores what it computed; here it returns that,
  or \<open>None\<close> for \<open>false\<close>. \<open>next_kv\<close> is the body of the loop.\<close>

definition next_kv :: "'p ec_lib \<Rightarrow> buffer \<times> buffer \<Rightarrow> buffer \<times> buffer" where
  "next_kv L = (\<lambda>(k, v).
     let k = hmac_sha256 L k (v @ ZERO_buf);
         v = hmac_sha256 L k v;
         v = hmac_sha256 L k v
     in (k, v))"

definition try_nonce :: "'p ec_lib \<Rightarrow> (int \<Rightarrow> 'a option) \<Rightarrow> int \<Rightarrow> 'a option" where
  "try_nonce L checkSig T = (if T \<le> 0 \<or> T \<ge> cv_n L then None else checkSig T)"

partial_function (option) nonce_loop :: "'p ec_lib \<Rightarrow> (int \<Rightarrow> 'a option) \<Rightarrow> buffer \<times> buffer \<Rightarrow> (int \<times> 'a) option" where
  "nonce_loop L checkSig kv =
     (let T = from_buffer L (snd kv) in
      case try_nonce L checkSig T of
        Some c \<Rightarrow> Some (T, c)
      | None \<Rightarrow> nonce_loop L checkSig (next_kv L kv))"

definition first_kv :: "'p ec_lib \<Rightarrow> buffer \<Rightarrow> buffer \<Rightarrow> buffer \<times> buffer" where
  "first_kv L hash x =
     (let v = replicate 32 1; k = replicate 32 0;
          k = hmac_sha256 L k (v @ ZERO_buf @ x @ hash);
          v = hmac_sha256 L k v;
          k = hmac_sha256 L k (v @ ONE_buf @ x @ hash);
          v = hmac_sha256 L k v;
          v = hmac_sha256 L k v
      in (k, v))"

definition deterministicGenerateK :: "'p ec_lib \<Rightarrow> buffer \<Rightarrow> buffer \<Rightarrow> (int \<Rightarrow> 'a option) \<Rightarrow> (int \<times> 'a) run" where
  "deterministicGenerateK L hash x checkSig =
     run_bind (Hash256bit hash) (\<lambda>_.
     run_bind (Buffer256bit x) (\<lambda>_.
       map_option Inr (nonce_loop L checkSig (first_kv L hash x))))"

section \<open>Signing and verifying\<close>

definition N_OVER_TWO :: "'p ec_lib \<Rightarrow> int" where
  "N_OVER_TWO L = cv_n L div 2"

definition check_nonce :: "'p ec_lib \<Rightarrow> int \<Rightarrow> int \<Rightarrow> int \<Rightarrow> (int \<times> int) option" where
  "check_nonce L e d k =
     (let n = cv_n L; Q = cv_multiply L (cv_G L) k in
      if cv_isInfinity L Q then None
      else let r = cv_affineX L Q mod n in
        if r = 0 then None
        else let s = modInverse L k n * (e + d * r) mod n in
          if s = 0 then None else Some (r, s))"

definition ec_sign :: "'p ec_lib \<Rightarrow> buffer \<Rightarrow> int \<Rightarrow> ec_signature run" where
  "ec_sign L hash d =
     run_bind (Hash256bit hash) (\<lambda>_.
     run_bind (bn_toBuffer32 (ec_sig L) d) (\<lambda>x.
       let e = from_buffer L hash; n = cv_n L in
       case deterministicGenerateK L hash x (check_nonce L e d) of
         None \<Rightarrow> None
       | Some g \<Rightarrow> run_bind g (\<lambda>(_, r, s).
           let s = (if s > N_OVER_TWO L then n - s else s) in Some (Inr (ECSignature r s)))))"

definition ec_verify :: "'p ec_lib \<Rightarrow> buffer \<Rightarrow> ec_signature \<Rightarrow> 'p \<Rightarrow> bool res" where
  "ec_verify L hash signature Q =
     rbind (Hash256bit hash) (\<lambda>_.
       let n = cv_n L; G = cv_G L; r = sig_r signature; s = sig_s signature in
       if r \<le> 0 \<or> r \<ge> n then Inr False
       else if s \<le> 0 \<or> s \<ge> n then Inr False
       else
         let e = from_buffer L hash;
             sInv = modInverse L s n;
             u1 = e * sInv mod n;
             u2 = r * sInv mod n;
             R = cv_multiplyTwo L G u1 Q u2
         in if cv_isInfinity L R then Inr False
            else let xR = cv_affineX L R; v = xR mod n in Inr (v = r))"

section \<open>Recovering the public key\<close>

definition recoverPubKey :: "'p ec_lib \<Rightarrow> int \<Rightarrow> ec_signature \<Rightarrow> int \<Rightarrow> 'p res" where
  "recoverPubKey L e signature i =
     rbind (typeforce ''UInt2'' (UInt2 i)) (\<lambda>_.
       let n = cv_n L; G = cv_G L; r = sig_r signature; s = sig_s signature in
       if r \<le> 0 \<or> r \<ge> n then Inl (JsError ''Invalid r value'')
       else if s \<le> 0 \<or> s \<ge> n then Inl (JsError ''Invalid s value'')
       else
         let isYOdd = js_and i 1;
             isSecondKey = js_sar i 1;
             x = (if isSecondKey \<noteq> 0 then r + n else r);
             R = cv_pointFromX L isYOdd x;
             nR = cv_multiply L R n
         in if \<not> cv_isInfinity L nR then Inl (JsError ''nR is not a valid curve point'')
            else
              let rInv = modInverse L r n;
                  eNeg = (- e) mod n;
                  Q = cv_multiply L (cv_multiplyTwo L R s G eNeg) rInv
              in rbind (cv_validate L Q) (\<lambda>_. Inr Q))"

fun find_factor :: "'p ec_lib \<Rightarrow> int \<Rightarrow> ec_signature \<Rightarrow> 'p \<Rightarrow> int list \<Rightarrow> int res" where
  "find_factor L e signature Q [] = Inl (JsError ''Unable to find valid recovery factor'')"
| "find_factor L e signature Q (i # is) =
     rbind (recoverPubKey L e signature i) (\<lambda>Qprime.
       if cv_equals L Qprime Q then Inr i else find_factor L e signature Q is)"

definition calcPubKeyRecoveryParam :: "'p ec_lib \<Rightarrow> int \<Rightarrow> ec_signature \<Rightarrow> 'p \<Rightarrow> int res" where
  "calcPubKeyRecoveryParam L e signature Q = find_factor L e signature Q [0, 1, 2, 3]"

section \<open>What the curve promises\<close>

text \<open>The multiples of \<open>G\<close>.\<close>

abbreviation point :: "'p ec_lib \<Rightarrow> int \<Rightarrow> 'p" where
  "point L a \<equiv> cv_multiply L (cv_G L) a"

text \<open>Numbers read from buffers are not negative, and \<open>modInverse\<close> inverts.\<close>

definition inverse_ok :: "'p ec_lib \<Rightarrow> bool" where
  "inverse_ok L \<longleftrightarrow> 2 < cv_n L \<and> cv_n L < 2 ^ 256 \<and> (\<forall>b. 0 \<le> from_buffer L b) \<and>
     (\<forall>a. 0 < a \<longrightarrow> a < cv_n L \<longrightarrow> 0 \<le> modInverse L a (cv_n L) \<and> a * modInverse L a (cv_n L) mod cv_n L = 1)"

definition group_ok :: "'p ec_lib \<Rightarrow> bool" where
  "group_ok L \<longleftrightarrow> cv_G L = point L 1 \<and>
     (\<forall>a b. 0 \<le> a \<longrightarrow> 0 \<le> b \<longrightarrow>
        cv_multiply L (point L a) b = point L (a * b) \<and>
        cv_add L (point L a) (point L b) = point L (a + b) \<and>
        (point L a = point L b \<longleftrightarrow> cv_n L dvd a - b) \<and>
        (\<forall>j k. 0 \<le> j \<longrightarrow> 0 \<le> k \<longrightarrow> cv_multiplyTwo L (point L a) j (point L b) k = point L (a * j + b * k))) \<and>
     (\<forall>a. 0 \<le> a \<longrightarrow> (cv_isInfinity L (point L a) \<longleftrightarrow> cv_n L dvd a)) \<and>
     (\<forall>P Q. cv_equals L P Q \<longleftrightarrow> P = Q)"

text \<open>A point and its negative have the same \<open>x\<close> coordinate, and they are the two points
  \<open>pointFromX\<close> makes of it; \<open>validate\<close> accepts the points other than infinity, and points can be
  written and read.\<close>

definition coordinates_ok :: "'p ec_lib \<Rightarrow> bool" where
  "coordinates_ok L \<longleftrightarrow>
     (\<forall>a. 0 < a \<longrightarrow> a < cv_n L \<longrightarrow>
        0 \<le> cv_affineX L (point L a) \<and>
        cv_affineX L (point L (cv_n L - a)) = cv_affineX L (point L a) \<and>
        (\<exists>i \<in> {0, 1}. cv_pointFromX L i (cv_affineX L (point L a)) = point L a \<and>
           cv_pointFromX L (1 - i) (cv_affineX L (point L a)) = point L (cv_n L - a)) \<and>
        cv_validate L (point L a) = Inr () \<and>
        length (cv_getEncoded L (point L a) True) = 33 \<and>
        length (cv_getEncoded L (point L a) False) = 65 \<and>
        (\<forall>c. cv_decodeFrom L (cv_getEncoded L (point L a) c) = Inr (point L a, c)))"

definition curve_ok :: "'p ec_lib \<Rightarrow> bool" where
  "curve_ok L \<longleftrightarrow> inverse_ok L \<and> group_ok L \<and> coordinates_ok L"


section \<open>Laws\<close>

lemma n_pos: "inverse_ok L \<Longrightarrow> 0 < cv_n L"
  by (simp add: inverse_ok_def)

lemma inverse_dvd:
  assumes "inverse_ok L" "0 < a" "a < cv_n L"
  shows "cv_n L dvd a * modInverse L a (cv_n L) - 1" "0 \<le> modInverse L a (cv_n L)"
proof -
  have "a * modInverse L a (cv_n L) mod cv_n L = 1 mod cv_n L" "0 \<le> modInverse L a (cv_n L)"
    using assms by (simp_all add: inverse_ok_def)
  then show "cv_n L dvd a * modInverse L a (cv_n L) - 1" "0 \<le> modInverse L a (cv_n L)"
    by (simp_all only: mod_eq_dvd_iff)
qed

lemma point_eq: "group_ok L \<Longrightarrow> 0 \<le> a \<Longrightarrow> 0 \<le> b \<Longrightarrow> point L a = point L b \<longleftrightarrow> cv_n L dvd a - b"
  by (simp add: group_ok_def)

lemma point_multiply: "group_ok L \<Longrightarrow> 0 \<le> a \<Longrightarrow> 0 \<le> b \<Longrightarrow> cv_multiply L (point L a) b = point L (a * b)"
  by (simp add: group_ok_def)

lemma point_add: "group_ok L \<Longrightarrow> 0 \<le> a \<Longrightarrow> 0 \<le> b \<Longrightarrow> cv_add L (point L a) (point L b) = point L (a + b)"
  by (simp add: group_ok_def)

lemma point_multiplyTwo:
  "group_ok L \<Longrightarrow> 0 \<le> a \<Longrightarrow> 0 \<le> b \<Longrightarrow> 0 \<le> j \<Longrightarrow> 0 \<le> k \<Longrightarrow>
     cv_multiplyTwo L (point L a) j (point L b) k = point L (a * j + b * k)"
  by (simp add: group_ok_def)

lemma generator: "group_ok L \<Longrightarrow> cv_G L = point L 1"
  by (simp add: group_ok_def)

lemma infinity: "group_ok L \<Longrightarrow> 0 \<le> a \<Longrightarrow> cv_isInfinity L (point L a) \<longleftrightarrow> cv_n L dvd a"
  by (simp add: group_ok_def)

lemma point_mod: "group_ok L \<Longrightarrow> 0 < cv_n L \<Longrightarrow> 0 \<le> a \<Longrightarrow> point L (a mod cv_n L) = point L a"
  by (simp add: point_eq dvd_diff_commute [of _ "a mod cv_n L"] mod_0_imp_dvd)

text \<open>Where the point is the same or the negative one, the coordinate is the same.\<close>

lemma same_x:
  assumes "curve_ok L" "0 < k" "k < cv_n L" "0 \<le> a" "cv_n L dvd a - k \<or> cv_n L dvd a + k"
  shows "cv_affineX L (point L a) = cv_affineX L (point L k)" "\<not> cv_n L dvd a"
proof -
  have g: "group_ok L" "coordinates_ok L" using assms(1) by (simp_all add: curve_ok_def)
  have nk: "\<not> cv_n L dvd k" using assms(2,3) by (simp add: zdvd_not_zless)
  consider "cv_n L dvd a - k" | "cv_n L dvd a + k" using assms(5) by blast
  then show "cv_affineX L (point L a) = cv_affineX L (point L k)"
  proof cases
    case 1
    then have "point L a = point L k" using g(1) assms(2,4) by (simp add: point_eq)
    then show ?thesis by simp
  next
    case 2
    then have "cv_n L dvd a - (cv_n L - k)" using dvd_diff [OF 2 dvd_refl] by (simp add: algebra_simps)
    then have "point L a = point L (cv_n L - k)" using g(1) assms(3,4) by (simp add: point_eq)
    then show ?thesis using g(2) assms(2,3) by (simp add: coordinates_ok_def)
  qed
  show "\<not> cv_n L dvd a"
    using assms(5) nk by (metis dvd_add_right_iff dvd_diff_right_iff)
qed

section \<open>The arithmetic of a signature\<close>

text \<open>For a nonce \<open>k\<close> with inverse \<open>ki\<close>, a signature \<open>s\<close> and an inverse \<open>w\<close> of \<open>s\<close> or of its negative, the
  verifier arrives at the nonce or at its negative.\<close>

lemma verifier_finds_nonce:
  fixes n :: int
  assumes k: "n dvd k * ki - 1" and s: "n dvd s - ki * (e + d * r)" and w: "n dvd t * w - 1"
    and u: "n dvd u1 - e * w" "n dvd u2 - r * w"
  shows "t = s \<Longrightarrow> n dvd (u1 + d * u2) - k" "t = n - s \<Longrightarrow> n dvd (u1 + d * u2) + k"
proof -
  define A where "A = u1 + d * u2 - w * k * s"
  have "A = (u1 - e * w) + d * (u2 - r * w) - w * k * (s - ki * (e + d * r)) - w * (e + d * r) * (k * ki - 1)"
    by (simp add: A_def algebra_simps)
  then have a: "n dvd A" using u s k by (simp add: dvd_add dvd_diff)
  have "u1 + d * u2 - k = A + k * (s * w - 1)" by (simp add: A_def algebra_simps)
  then show "n dvd (u1 + d * u2) - k" if "t = s" using a w that by (simp add: dvd_add)
  have "u1 + d * u2 + k = A - k * ((n - s) * w - 1) + n * (k * w)" by (simp add: A_def algebra_simps)
  then show "n dvd (u1 + d * u2) + k" if "t = n - s" using a w that by (simp add: dvd_add dvd_diff)
qed

lemma mod_dvd_diff: "(n :: int) dvd a mod n - a"
  by (simp add: dvd_diff_commute mod_0_imp_dvd)

text \<open>The loop returns exactly if one of the candidates is usable, and then with the first such one.\<close>

definition candidate :: "'p ec_lib \<Rightarrow> buffer \<times> buffer \<Rightarrow> nat \<Rightarrow> int" where
  "candidate L kv i = from_buffer L (snd ((next_kv L ^^ i) kv))"

lemma candidate_next: "candidate L (next_kv L kv) i = candidate L kv (Suc i)"
  by (simp add: candidate_def funpow_Suc_right del: funpow.simps)

definition first_usable :: "'p ec_lib \<Rightarrow> (int \<Rightarrow> 'a option) \<Rightarrow> buffer \<times> buffer \<Rightarrow> nat \<Rightarrow> 'a \<Rightarrow> bool" where
  "first_usable L checkSig kv i c \<longleftrightarrow>
     try_nonce L checkSig (candidate L kv i) = Some c \<and> (\<forall>j < i. try_nonce L checkSig (candidate L kv j) = None)"

lemma first_usable_next:
  assumes "try_nonce L checkSig (candidate L kv 0) = None"
  shows "first_usable L checkSig (next_kv L kv) i c \<longleftrightarrow> first_usable L checkSig kv (Suc i) c"
  using assms by (simp add: first_usable_def candidate_next All_less_Suc2)

lemma nonce_loop_returns:
  "first_usable L checkSig kv i c \<Longrightarrow> nonce_loop L checkSig kv = Some (candidate L kv i, c)"
proof (induction i arbitrary: kv)
  case 0
  then show ?case by (subst nonce_loop.simps) (simp add: first_usable_def candidate_def)
next
  case (Suc i)
  then have none: "try_nonce L checkSig (candidate L kv 0) = None" by (auto simp: first_usable_def)
  then have "nonce_loop L checkSig (next_kv L kv) = Some (candidate L kv (Suc i), c)"
    using Suc.IH [of "next_kv L kv"] Suc.prems by (simp add: first_usable_next candidate_next)
  then show ?case using none by (subst nonce_loop.simps) (simp add: candidate_def)
qed


lemma nonce_loop_returned:
  assumes "nonce_loop L checkSig kv = Some y"
  shows "\<exists>i. fst y = candidate L kv i \<and> first_usable L checkSig kv i (snd y)"
proof (rule nonce_loop.raw_induct [of "\<lambda>L checkSig kv y. \<exists>i. fst y = candidate L kv i \<and> first_usable L checkSig kv i (snd y)", OF _ assms],
    goal_cases)
  case (1 loop L checkSig kv y)
  show ?case
  proof (cases "try_nonce L checkSig (candidate L kv 0)")
    case None
    then have "loop L checkSig (next_kv L kv) = Some y" using 1(2) by (simp add: candidate_def)
    then obtain i where "fst y = candidate L (next_kv L kv) i" "first_usable L checkSig (next_kv L kv) i (snd y)"
      using 1(1) by blast
    then have "fst y = candidate L kv (Suc i) \<and> first_usable L checkSig kv (Suc i) (snd y)"
      using None by (simp add: first_usable_next candidate_next)
    then show ?thesis by blast
  next
    case (Some c)
    then have "y = (candidate L kv 0, c)" using 1(2) by (simp add: candidate_def)
    then show ?thesis using Some by (auto simp: first_usable_def)
  qed
qed

lemma nonce_loop_iff:
  "nonce_loop L checkSig kv = Some (T, c) \<longleftrightarrow> (\<exists>i. T = candidate L kv i \<and> first_usable L checkSig kv i c)"
  using nonce_loop_returns [of L checkSig kv] nonce_loop_returned [of L checkSig kv "(T, c)"] by auto

text \<open>What a signature is made of.\<close>

lemma ec_sign_Inr:
  "ec_sign L hash d = Some (Inr sig) \<longleftrightarrow>
     length hash = 32 \<and>
     (\<exists>x k r s. bn_toBuffer32 (ec_sig L) d = Inr x \<and> length x = 32 \<and>
        nonce_loop L (check_nonce L (from_buffer L hash) d) (first_kv L hash x) = Some (k, r, s) \<and>
        sig = ECSignature r (if s > N_OVER_TWO L then cv_n L - s else s))"
proof -
  have "ec_sign L hash d = Some (Inr sig) \<longleftrightarrow> length hash = 32 \<and> (\<exists>x. bn_toBuffer32 (ec_sig L) d = Inr x \<and> length x = 32 \<and>
      (case nonce_loop L (check_nonce L (from_buffer L hash) d) (first_kv L hash x) of None \<Rightarrow> False
       | Some (_, r, s) \<Rightarrow> sig = ECSignature r (if s > N_OVER_TWO L then cv_n L - s else s)))"
  proof (cases "length hash = 32")
    case True
    then have h: "Hash256bit hash = Inr ()" by simp
    have gen: "deterministicGenerateK L hash x c = run_bind (nBuffer x 32) (\<lambda>_. map_option Inr (nonce_loop L c (first_kv L hash x)))"
      for x and c :: "int \<Rightarrow> (int \<times> int) option"
      by (simp only: deterministicGenerateK_def h Buffer256bit_def run_bind_simps)
    show ?thesis
    proof (cases "bn_toBuffer32 (ec_sig L) d")
      case (Inr x)
      show ?thesis
      proof (cases "length x = 32")
        case True
        then show ?thesis using Inr \<open>length hash = 32\<close> True
          by (cases "nonce_loop L (check_nonce L (from_buffer L hash) d) (first_kv L hash x)")
             (auto simp: ec_sign_def h gen Let_def nBuffer_ok)
      next
        case False
        then obtain e where "nBuffer x 32 = Inl e" by (simp add: nBuffer_def)
        then show ?thesis using Inr False by (simp add: ec_sign_def h gen Let_def)
      qed
    qed (simp add: ec_sign_def h)
  qed (auto simp: ec_sign_def run_bind_Inr)
  moreover have "(case o' of None \<Rightarrow> False | Some (_, r, s) \<Rightarrow> P r s) \<longleftrightarrow> (\<exists>k r s. o' = Some (k, r, s) \<and> P r s)"
    for o' :: "(int \<times> int \<times> int) option" and P by (cases o') auto
  ultimately show ?thesis by simp
qed

lemma nonce_facts:
  assumes "inverse_ok L" "nonce_loop L (check_nonce L e d) kv = Some (k, r, s)"
  shows "0 < k" "k < cv_n L" "\<not> cv_isInfinity L (point L k)" "r = cv_affineX L (point L k) mod cv_n L" "0 < r" "r < cv_n L"
    "s = modInverse L k (cv_n L) * (e + d * r) mod cv_n L" "0 < s" "s < cv_n L"
proof -
  obtain i where "try_nonce L (check_nonce L e d) k = Some (r, s)"
    using assms(2) by (auto simp: nonce_loop_iff first_usable_def)
  then show c: "0 < k" "k < cv_n L" "\<not> cv_isInfinity L (point L k)" "r = cv_affineX L (point L k) mod cv_n L"
      "s = modInverse L k (cv_n L) * (e + d * r) mod cv_n L"
    by (auto simp: try_nonce_def check_nonce_def Let_def split: if_splits)
  have "r \<noteq> 0" "s \<noteq> 0"
    using \<open>try_nonce L (check_nonce L e d) k = Some (r, s)\<close> by (auto simp: try_nonce_def check_nonce_def Let_def split: if_splits)
  moreover have "0 \<le> r" "r < cv_n L" "0 \<le> s" "s < cv_n L" using n_pos [OF assms(1)] c(4,5) by simp_all
  ultimately show "0 < r" "r < cv_n L" "0 < s" "s < cv_n L" by simp_all
qed

lemma low_s:
  assumes "0 < (s :: int)" "s < n"
  defines "t \<equiv> if s > n div 2 then n - s else s"
  shows "0 < t" "t \<le> n div 2" "t < n" "t = s \<or> t = n - s"
  using assms by (auto split: if_splits)

lemma signed_values:
  assumes "inverse_ok L" "ec_sign L hash d = Some (Inr sig)"
  obtains k s where "0 < k" "k < cv_n L" "\<not> cv_isInfinity L (point L k)" "sig_r sig = cv_affineX L (point L k) mod cv_n L"
    "0 < sig_r sig" "sig_r sig < cv_n L" "cv_n L dvd k * modInverse L k (cv_n L) - 1"
    "cv_n L dvd s - modInverse L k (cv_n L) * (from_buffer L hash + d * sig_r sig)"
    "0 < s" "s < cv_n L" "0 < sig_s sig" "sig_s sig \<le> cv_n L div 2" "sig_s sig < cv_n L" "sig_s sig = s \<or> sig_s sig = cv_n L - s"
proof -
  obtain x k r s where x: "nonce_loop L (check_nonce L (from_buffer L hash) d) (first_kv L hash x) = Some (k, r, s)"
      "sig = ECSignature r (if s > N_OVER_TWO L then cv_n L - s else s)"
    using assms(2) unfolding ec_sign_Inr by blast
  note f = nonce_facts [OF assms(1) x(1)]
  have "cv_n L dvd s - modInverse L k (cv_n L) * (from_buffer L hash + d * r)" using f(7) by (simp add: mod_dvd_diff)
  moreover have "sig_r sig = r" "sig_s sig = (if s > cv_n L div 2 then cv_n L - s else s)"
    using x(2) by (simp_all add: N_OVER_TWO_def)
  ultimately show ?thesis
    using that [of k s] f(1-6,8,9) inverse_dvd(1) [OF assms(1) f(1,2)] low_s [OF f(8,9)] by simp
qed

lemma ec_verify_point:
  assumes "group_ok L" "0 < cv_n L" "0 \<le> d" "length hash = 32" "0 < sig_r sig" "sig_r sig < cv_n L" "0 < sig_s sig" "sig_s sig < cv_n L"
    and "w = modInverse L (sig_s sig) (cv_n L)"
    and u: "u1 = from_buffer L hash * w mod cv_n L" "u2 = sig_r sig * w mod cv_n L"
  shows "ec_verify L hash sig (point L d) =
    Inr (\<not> cv_n L dvd u1 + d * u2 \<and> cv_affineX L (point L (u1 + d * u2)) mod cv_n L = sig_r sig)"
proof -
  have pos: "0 \<le> u1" "0 \<le> u2" using assms(2) by (simp_all add: u)
  have "cv_multiplyTwo L (cv_G L) u1 (point L d) u2 = point L (u1 + d * u2)"
    using point_multiplyTwo [OF assms(1), of 1 d u1 u2] pos assms(3) generator [OF assms(1)] by simp
  moreover have "Hash256bit hash = Inr ()" using assms(4) by simp
  ultimately show ?thesis
    using assms(5-8) infinity [OF assms(1), of "u1 + d * u2"] pos assms(3)
    unfolding ec_verify_def Let_def assms(9) [symmetric] u [symmetric] by (simp del: Hash256bit_Inr)
qed

lemma sign_then_verify:
  assumes "curve_ok L" "0 \<le> d" "ec_sign L hash d = Some (Inr sig)"
  shows "ec_verify L hash sig (point L d) = Inr True \<and>
    0 < sig_r sig \<and> sig_r sig < cv_n L \<and> 0 < sig_s sig \<and> sig_s sig \<le> cv_n L div 2"
proof -
  have ok: "inverse_ok L" "group_ok L" using assms(1) by (simp_all add: curve_ok_def)
  obtain k s where v: "0 < k" "k < cv_n L" "sig_r sig = cv_affineX L (point L k) mod cv_n L"
    "0 < sig_r sig" "sig_r sig < cv_n L" "cv_n L dvd k * modInverse L k (cv_n L) - 1"
    "cv_n L dvd s - modInverse L k (cv_n L) * (from_buffer L hash + d * sig_r sig)"
    "0 < sig_s sig" "sig_s sig \<le> cv_n L div 2" "sig_s sig < cv_n L" "sig_s sig = s \<or> sig_s sig = cv_n L - s"
    by (rule signed_values [OF ok(1) assms(3)])
  define w where "w = modInverse L (sig_s sig) (cv_n L)"
  define u1 u2 where "u1 = from_buffer L hash * w mod cv_n L" and "u2 = sig_r sig * w mod cv_n L"
  have u: "0 \<le> u1" "0 \<le> u2" "cv_n L dvd u1 - from_buffer L hash * w" "cv_n L dvd u2 - sig_r sig * w"
    using n_pos [OF ok(1)] by (simp_all add: u1_def u2_def mod_dvd_diff)
  have w: "cv_n L dvd sig_s sig * w - 1" using inverse_dvd(1) [OF ok(1) v(8,10)] by (simp add: w_def)
  have "cv_n L dvd (u1 + d * u2) - k \<or> cv_n L dvd (u1 + d * u2) + k"
    using verifier_finds_nonce [OF v(6,7) w u(3,4)] v(11) by blast
  moreover have "0 \<le> u1 + d * u2" using u(1,2) assms(2) by simp
  ultimately have "cv_affineX L (point L (u1 + d * u2)) = cv_affineX L (point L k) \<and> \<not> cv_n L dvd u1 + d * u2"
    by (metis same_x [OF assms(1) v(1,2)])
  then have "\<not> cv_n L dvd u1 + d * u2 \<and> cv_affineX L (point L (u1 + d * u2)) mod cv_n L = sig_r sig"
    unfolding v(3) by simp
  moreover have "length hash = 32" using assms(3) by (simp add: ec_sign_Inr)
  ultimately have "ec_verify L hash sig (point L d) = Inr True"
    using ec_verify_point [OF ok(2) n_pos [OF ok(1)] assms(2) _ v(4,5,8,10) w_def u1_def u2_def] by simp
  then show ?thesis using v by simp
qed

text \<open>What recovery computes from a multiple \<open>t\<close> of \<open>G\<close> with the coordinate \<open>r\<close>.\<close>

lemma validate_point:
  assumes "curve_ok L" "0 \<le> a" "\<not> cv_n L dvd a"
  shows "cv_validate L (point L a) = Inr ()"
proof -
  have ok: "0 < cv_n L" "group_ok L" "coordinates_ok L" using assms(1) by (simp_all add: curve_ok_def n_pos)
  have "a mod cv_n L \<noteq> 0" using assms(3) by (simp add: dvd_eq_mod_eq_0)
  moreover have "0 \<le> a mod cv_n L" by (rule pos_mod_sign [OF ok(1)])
  ultimately have "0 < a mod cv_n L" "a mod cv_n L < cv_n L" using pos_mod_bound [OF ok(1), of a] by linarith+
  then have "cv_validate L (point L (a mod cv_n L)) = Inr ()" using ok(3) by (simp add: coordinates_ok_def)
  then show ?thesis by (simp add: point_mod [OF ok(2,1) assms(2)])
qed

lemma recoverPubKey_point:
  assumes "curve_ok L" "i \<in> {0, 1}" "0 < r" "r < cv_n L" "0 < s" "s < cv_n L"
    and "cv_pointFromX L i r = point L t" "0 \<le> t"
    and a: "a = (t * s + (- e) mod cv_n L) * modInverse L r (cv_n L)" "\<not> cv_n L dvd a"
  shows "recoverPubKey L e (ECSignature r s) i = Inr (point L a)" "0 \<le> a"
proof -
  have ok: "0 < cv_n L" "group_ok L" "inverse_ok L" using assms(1) by (simp_all add: curve_ok_def n_pos)
  have bits: "js_and i 1 = i" "js_sar i 1 = 0" "UInt2 i" using assms(2) by (auto simp: js_and_def js_sar_def UInt2_iff)
  have inv: "0 \<le> modInverse L r (cv_n L)" by (rule inverse_dvd(2) [OF ok(3) assms(3,4)])
  have e: "0 \<le> (- e) mod cv_n L" using ok(1) by simp
  then have b: "0 \<le> t * s + (- e) mod cv_n L" using assms(5,8) by simp
  then show pos: "0 \<le> a" using inv by (simp add: a(1))
  have "cv_multiply L (point L t) (cv_n L) = point L (t * cv_n L)" using ok(1,2) assms(8) by (simp add: point_multiply)
  then have nR: "cv_isInfinity L (cv_multiply L (point L t) (cv_n L))" using ok(1,2) assms(8) by (simp add: infinity)
  have "cv_multiplyTwo L (point L t) s (cv_G L) ((- e) mod cv_n L) = point L (t * s + (- e) mod cv_n L)"
    using point_multiplyTwo [OF ok(2) assms(8), of 1 s "(- e) mod cv_n L"] assms(5) e generator [OF ok(2)] by simp
  then have "cv_multiply L (cv_multiplyTwo L (point L t) s (cv_G L) ((- e) mod cv_n L)) (modInverse L r (cv_n L)) = point L a"
    using point_multiply [OF ok(2) b inv] by (simp only: a(1))
  then show "recoverPubKey L e (ECSignature r s) i = Inr (point L a)"
    using assms(3-7) bits nR validate_point [OF assms(1) pos a(2)]
    by (simp add: recoverPubKey_def Let_def del: rbind_Inr_iff)
qed

text \<open>The right multiple gives the key back, its negative the point of \<open>- (2 e + d r) / r\<close>.\<close>

lemma recovered_key:
  fixes n :: int
  assumes "n dvd k * ki - 1" "n dvd s - ki * (e + d * r)" "n dvd r * w - 1" "n dvd en + e"
  shows "n dvd t * u - k * s \<Longrightarrow> n dvd (t * u + en) * w - d"
    "n dvd t * u + k * s \<Longrightarrow> n dvd (t * u + en) * w \<Longrightarrow> n dvd 2 * e + d * r"
proof -
  have ks: "n dvd k * s - (e + d * r)"
  proof -
    have "k * s - (e + d * r) = k * (s - ki * (e + d * r)) + (e + d * r) * (k * ki - 1)" by (simp add: algebra_simps)
    then show ?thesis using assms(1,2) by (simp add: dvd_add)
  qed
  show "n dvd (t * u + en) * w - d" if "n dvd t * u - k * s"
  proof -
    have "(t * u + en) * w - d = w * (t * u - k * s) + w * (k * s - (e + d * r)) + w * (en + e) + d * (r * w - 1)"
      by (simp add: algebra_simps)
    then show ?thesis using that ks assms(3,4) by (simp add: dvd_add)
  qed
  show "n dvd 2 * e + d * r" if "n dvd t * u + k * s" "n dvd (t * u + en) * w"
  proof -
    define A where "A = t * u + en"
    have "A = r * (A * w) - A * (r * w - 1)" by (simp add: algebra_simps)
    then have "n dvd A" using that(2) assms(3) unfolding A_def [symmetric] by (metis dvd_diff dvd_mult)
    then have "n dvd (t * u + k * s) - A - (k * s - (e + d * r)) + (en + e)"
      by (intro dvd_add dvd_diff that(1) ks assms(4))
    moreover have "2 * e + d * r = (t * u + k * s) - A - (k * s - (e + d * r)) + (en + e)" by (simp add: A_def algebra_simps)
    ultimately show ?thesis by (simp only:)
  qed
qed

text \<open>With both candidates valid, the search stops at the one that is the key.\<close>

lemma find_factor_first_two:
  assumes "group_ok L" "recoverPubKey L e sig 0 = Inr P" "recoverPubKey L e sig 1 = Inr P'" "P = Q \<or> P' = Q"
  shows "\<exists>i \<in> {0, 1}. calcPubKeyRecoveryParam L e sig Q = Inr i \<and> recoverPubKey L e sig i = Inr Q"
proof -
  have eq: "cv_equals L A B \<longleftrightarrow> A = B" for A B using assms(1) by (simp add: group_ok_def)
  show ?thesis
    using assms(2-4) by (cases "P = Q") (simp_all add: calcPubKeyRecoveryParam_def eq)
qed

lemma recover_signer:
  assumes "curve_ok L" "0 < d" "d < cv_n L"
    and k: "0 < k" "k < cv_n L" "sig_r sig = cv_affineX L (point L k)" "0 < sig_r sig" "sig_r sig < cv_n L"
      "cv_n L dvd k * modInverse L k (cv_n L) - 1" "cv_n L dvd s - modInverse L k (cv_n L) * (e + d * sig_r sig)"
      "0 < sig_s sig" "sig_s sig < cv_n L" "sig_s sig = s \<or> sig_s sig = cv_n L - s"
    and "\<not> cv_n L dvd 2 * e + d * sig_r sig"
  shows "\<exists>i \<in> {0, 1}. calcPubKeyRecoveryParam L e sig (point L d) = Inr i \<and> recoverPubKey L e sig i = Inr (point L d)"
proof -
  define n w en where "n = cv_n L" and "w = modInverse L (sig_r sig) n" and "en = (- e) mod n"
  define a where "a t = (t * sig_s sig + en) * w" for t
  have ok: "0 < n" "group_ok L" "inverse_ok L" "coordinates_ok L" using assms(1) by (simp_all add: curve_ok_def n_pos n_def)
  have w: "n dvd sig_r sig * w - 1" using inverse_dvd(1) [OF ok(3) k(4,5)] by (simp add: n_def w_def)
  have "n dvd en - (- e)" unfolding en_def by (rule mod_dvd_diff)
  then have en: "n dvd en + e" by simp
  have nd: "\<not> n dvd d" using assms(2,3) by (simp add: n_def zdvd_not_zless)
  have signs: "n dvd t * sig_s sig - k * s \<or> n dvd t * sig_s sig + k * s" if "t = k \<or> t = n - k" for t
  proof -
    have "sig_s sig = s \<or> sig_s sig = n - s" using k(10) by (simp add: n_def)
    moreover have "(n - k) * (n - s) - k * s = n * (n - k - s)" "(n - k) * s + k * s = n * s" "k * (n - s) + k * s = n * k"
      by (simp_all add: algebra_simps)
    ultimately show ?thesis using that by (metis cancel_comm_monoid_add_class.diff_cancel dvd_0_right dvd_triv_left)
  qed
  have valid: "\<not> n dvd a t" and key: "n dvd t * sig_s sig - k * s \<Longrightarrow> point L (a t) = point L d \<or> a t < 0" if "t = k \<or> t = n - k" for t
  proof -
    note r = recovered_key [OF k(6,7) [folded n_def] w en, of t "sig_s sig", folded a_def]
    show "\<not> n dvd a t"
      using signs [OF that] r assms(14) nd unfolding n_def [symmetric] by (metis dvd_diff_right_iff)
    show "point L (a t) = point L d \<or> a t < 0" if "n dvd t * sig_s sig - k * s"
      using r(1) [OF that] ok(2) assms(2) by (auto simp: point_eq n_def)
  qed
  obtain i0 where i0: "i0 \<in> {0, 1}" "cv_pointFromX L i0 (sig_r sig) = point L k" "cv_pointFromX L (1 - i0) (sig_r sig) = point L (n - k)"
    using ok(4) k(1-3) unfolding coordinates_ok_def n_def by metis
  have sig: "sig = ECSignature (sig_r sig) (sig_s sig)" by (cases sig) simp
  have rec: "recoverPubKey L e sig i = Inr (point L (a t)) \<and> 0 \<le> a t"
    if "i \<in> {0, 1}" "cv_pointFromX L i (sig_r sig) = point L t" "t = k \<or> t = n - k" for i t
  proof -
    have "0 \<le> t" using that(3) k(1,2) by (auto simp: n_def)
    moreover have "a t = (t * sig_s sig + (- e) mod cv_n L) * modInverse L (sig_r sig) (cv_n L)"
      by (simp add: a_def n_def w_def en_def)
    ultimately show ?thesis
      using recoverPubKey_point [OF assms(1) that(1) k(4,5,8,9) that(2) _ _ valid [OF that(3), unfolded n_def]]
      by (subst sig) blast
  qed
  have "sig_s sig = s \<or> sig_s sig = n - s" using k(10) by (simp add: n_def)
  moreover have "(n - k) * (n - s) - k * s = n * (n - k - s)" by (simp add: algebra_simps)
  ultimately have "n dvd k * sig_s sig - k * s \<or> n dvd (n - k) * sig_s sig - k * s" by fastforce
  then have "point L (a k) = point L d \<or> point L (a (n - k)) = point L d"
    using key [of k] key [of "n - k"] rec [OF i0(1,2)] rec [OF _ i0(3)] i0(1) by force
  moreover have "recoverPubKey L e sig i0 = Inr (point L (a k))" "recoverPubKey L e sig (1 - i0) = Inr (point L (a (n - k)))"
    using rec [OF i0(1,2)] rec [OF _ i0(3)] i0(1) by auto
  ultimately show ?thesis
    using i0(1) find_factor_first_two [OF ok(2), of e sig "point L (a k)" "point L (a (n - k))" "point L d"]
      find_factor_first_two [OF ok(2), of e sig "point L (a (n - k))" "point L (a k)" "point L d"] by auto
qed

text \<open>Signing returns exactly if some nonce of the chain can be used, and uses the first one.\<close>

lemma ec_sign_first:
  assumes "length hash = 32" "bn_toBuffer32 (ec_sig L) d = Inr x" "length x = 32"
    and "first_usable L (check_nonce L (from_buffer L hash) d) (first_kv L hash x) i (r, s)"
  shows "ec_sign L hash d = Some (Inr (ECSignature r (if s > N_OVER_TWO L then cv_n L - s else s)))"
  unfolding ec_sign_Inr using assms nonce_loop_returns [OF assms(4)] by blast

lemma ec_sign_error:
  assumes "length hash = 32" "bn_toBuffer32 (ec_sig L) d = Inr x" "length x = 32"
  shows "ec_sign L hash d \<noteq> Some (Inl e)"
  using assms by (auto simp: ec_sign_def deterministicGenerateK_def run_bind_def Buffer256bit_def nBuffer_ok Hash256bit_def Let_def
      split: option.splits)

lemma usable_first:
  assumes "try_nonce L checkSig (candidate L kv i) \<noteq> None"
  obtains j c where "first_usable L checkSig kv j c"
proof -
  let ?P = "\<lambda>i. try_nonce L checkSig (candidate L kv i) \<noteq> None"
  obtain c where "try_nonce L checkSig (candidate L kv (LEAST i. ?P i)) = Some c" using LeastI [of ?P, OF assms] by blast
  then have "first_usable L checkSig kv (LEAST i. ?P i) c" using not_less_Least by (force simp: first_usable_def)
  then show ?thesis by (rule that)
qed

section \<open>The standards\<close>

text \<open>RFC 6979, section 3.2, over octets: the state after steps b to g and the first step h, and after
  each further round of step h. SEC 1: the two values of a signature, with no inverse and no remainder.\<close>

fun rfc6979_state :: "(buffer \<Rightarrow> buffer \<Rightarrow> buffer) \<Rightarrow> buffer \<Rightarrow> buffer \<Rightarrow> nat \<Rightarrow> buffer \<times> buffer" where
  "rfc6979_state HMAC x h 0 =
     (let V1 = replicate 32 0x01; K1 = replicate 32 0x00;
          K2 = HMAC K1 (V1 @ [0x00] @ x @ h); V2 = HMAC K2 V1;
          K3 = HMAC K2 (V2 @ [0x01] @ x @ h); V3 = HMAC K3 V2
      in (K3, HMAC K3 V3))"
| "rfc6979_state HMAC x h (Suc i) =
     (let (K, V) = rfc6979_state HMAC x h i; K' = HMAC K (V @ [0x00]); V' = HMAC K' V
      in (K', HMAC K' V'))"

definition rfc6979_nonce :: "'p ec_lib \<Rightarrow> buffer \<Rightarrow> buffer \<Rightarrow> nat \<Rightarrow> int" where
  "rfc6979_nonce L x h i = from_buffer L (snd (rfc6979_state (hmac_sha256 L) x h i))"

definition ecdsa_values :: "'p ec_lib \<Rightarrow> int \<Rightarrow> int \<Rightarrow> int \<Rightarrow> int \<Rightarrow> int \<Rightarrow> bool" where
  "ecdsa_values L e d k r s \<longleftrightarrow> 0 < k \<and> k < cv_n L \<and> 0 < r \<and> r < cv_n L \<and> 0 < s \<and> s < cv_n L \<and>
     cv_n L dvd cv_affineX L (point L k) - r \<and> cv_n L dvd k * s - (e + d * r)"

lemma candidate_rfc6979: "candidate L (first_kv L h x) i = rfc6979_nonce L x h i"
proof -
  have "(next_kv L ^^ i) (first_kv L h x) = rfc6979_state (hmac_sha256 L) x h i"
    by (induction i) (simp_all add: first_kv_def next_kv_def ZERO_buf_def ONE_buf_def Let_def)
  then show ?thesis by (simp add: candidate_def rfc6979_nonce_def)
qed

lemma try_nonce_values:
  assumes "inverse_ok L" "group_ok L"
  shows "try_nonce L (check_nonce L e d) k = Some (r, s) \<longleftrightarrow> ecdsa_values L e d k r s"
proof (cases "0 < k \<and> k < cv_n L")
  case True
  define n ki where "n = cv_n L" and "ki = modInverse L k n"
  have n: "0 < n" using n_pos [OF assms(1)] by (simp add: n_def)
  have "\<not> n dvd k" using True by (simp add: n_def zdvd_not_zless)
  then have inf: "\<not> cv_isInfinity L (point L k)" using True infinity [OF assms(2), of k] by (simp add: n_def)
  have ki: "n dvd k * ki - 1" using inverse_dvd(1) [OF assms(1)] True by (simp add: n_def ki_def)
  have range: "a mod n = b \<and> b \<noteq> 0 \<longleftrightarrow> 0 < b \<and> b < n \<and> n dvd a - b" for a b
  proof -
    have "a mod n = b" if "0 < b" "b < n" "n dvd a - b"
      using that by (metis less_imp_le mod_eq_dvd_iff mod_pos_pos_trivial)
    moreover have "0 \<le> a mod n" "a mod n < n" using n by simp_all
    ultimately show ?thesis using mod_dvd_diff [of n a] by (auto simp: dvd_diff_commute)
  qed
  have s: "n dvd ki * v - s \<longleftrightarrow> n dvd k * s - v" for v
  proof -
    have "k * s - v = v * (k * ki - 1) - k * (ki * v - s)" "ki * v - s = s * (k * ki - 1) - ki * (k * s - v)"
      by (simp_all add: algebra_simps)
    then show ?thesis using ki by (metis dvd_diff dvd_mult)
  qed
  have "try_nonce L (check_nonce L e d) k = Some (r, s) \<longleftrightarrow>
      (cv_affineX L (point L k) mod n = r \<and> r \<noteq> 0) \<and> (ki * (e + d * r) mod n = s \<and> s \<noteq> 0)"
    using True inf by (auto simp: try_nonce_def check_nonce_def Let_def n_def ki_def)
  then show ?thesis unfolding range s using True by (auto simp: ecdsa_values_def n_def)
qed (auto simp: try_nonce_def ecdsa_values_def)

lemma first_usable_values:
  assumes "inverse_ok L" "group_ok L"
  shows "first_usable L (check_nonce L e d) (first_kv L h x) i (r, s) \<longleftrightarrow>
    ecdsa_values L e d (rfc6979_nonce L x h i) r s \<and> (\<forall>j < i. \<nexists>r s. ecdsa_values L e d (rfc6979_nonce L x h j) r s)"
proof -
  have "try_nonce L (check_nonce L e d) k = None \<longleftrightarrow> (\<nexists>r s. ecdsa_values L e d k r s)" for k
    unfolding try_nonce_values [OF assms, symmetric] by (cases "try_nonce L (check_nonce L e d) k") auto
  then show ?thesis by (simp add: first_usable_def candidate_rfc6979 try_nonce_values [OF assms])
qed

lemma some_usable_values:
  assumes "inverse_ok L" "group_ok L"
  shows "(\<exists>i r s. first_usable L (check_nonce L e d) (first_kv L h x) i (r, s)) \<longleftrightarrow>
    (\<exists>i r s. ecdsa_values L e d (rfc6979_nonce L x h i) r s)"
proof
  assume "\<exists>i r s. ecdsa_values L e d (rfc6979_nonce L x h i) r s"
  then obtain i where "try_nonce L (check_nonce L e d) (candidate L (first_kv L h x) i) \<noteq> None"
    unfolding candidate_rfc6979 try_nonce_values [OF assms, symmetric] by auto
  then show "\<exists>i r s. first_usable L (check_nonce L e d) (first_kv L h x) i (r, s)" by (rule usable_first) fastforce
qed (auto simp: first_usable_values [OF assms])

lemma recover_signed:
  assumes "curve_ok L" "0 < d" "d < cv_n L" "ec_sign L hash d = Some (Inr sig)"
    and "\<forall>a. 0 < a \<longrightarrow> a < cv_n L \<longrightarrow> cv_affineX L (point L a) mod cv_n L = sig_r sig \<longrightarrow> cv_affineX L (point L a) < cv_n L"
    and "\<not> cv_n L dvd 2 * from_buffer L hash + d * sig_r sig"
  shows "\<exists>i \<in> {0, 1}. calcPubKeyRecoveryParam L (from_buffer L hash) sig (point L d) = Inr i \<and>
    recoverPubKey L (from_buffer L hash) sig i = Inr (point L d)"
proof -
  have ok: "inverse_ok L" "coordinates_ok L" using assms(1) by (simp_all add: curve_ok_def)
  obtain k s where v: "0 < k" "k < cv_n L" "sig_r sig = cv_affineX L (point L k) mod cv_n L"
    "0 < sig_r sig" "sig_r sig < cv_n L" "cv_n L dvd k * modInverse L k (cv_n L) - 1"
    "cv_n L dvd s - modInverse L k (cv_n L) * (from_buffer L hash + d * sig_r sig)"
    "0 < sig_s sig" "sig_s sig < cv_n L" "sig_s sig = s \<or> sig_s sig = cv_n L - s"
    by (rule signed_values [OF ok(1) assms(4)])
  have "0 \<le> cv_affineX L (point L k)" "cv_affineX L (point L k) < cv_n L"
    using ok(2) v(1,2) assms(5) v(3) [symmetric] unfolding coordinates_ok_def by blast+
  then have "sig_r sig = cv_affineX L (point L k)" unfolding v(3) by simp
  then show ?thesis by (rule recover_signer [OF assms(1-3) v(1,2) _ v(4-10) assms(6)])
qed

section \<open>A small group\<close>

text \<open>The integers modulo 7, with the smaller of a number and its negative as the coordinate: all laws
  can be checked there.\<close>

definition sample_ec :: "int ec_lib" where
  "sample_ec = \<lparr>ec_sig = sample_lib, hmac_sha256 = (\<lambda>_ _. replicate 31 0 @ [2]),
     modInverse = (\<lambda>a n. a ^ nat (n - 2) mod n), cv_n = 7, cv_G = 1,
     cv_multiply = (\<lambda>P k. P * k mod 7), cv_multiplyTwo = (\<lambda>P j Q k. (P * j + Q * k) mod 7),
     cv_add = (\<lambda>P Q. (P + Q) mod 7), cv_isInfinity = (\<lambda>P. P = 0), cv_affineX = (\<lambda>P. min P (7 - P)),
     cv_pointFromX = (\<lambda>i x. if x mod 2 = i then x else 7 - x),
     cv_validate = (\<lambda>P. if P = 0 then Inl (JsAssert ''Point is at infinity'') else Inr ()),
     cv_equals = (=),
     cv_getEncoded = (\<lambda>P c. if c then 2 # replicate 31 0 @ [word_of_int P] else 4 # replicate 63 0 @ [word_of_int P]),
     cv_decodeFrom = (\<lambda>b. Inr (uint (last b), length b = 33))\<rparr>"


lemma sample_ec_ok: "curve_ok sample_ec"
proof -
  have "inverse_ok sample_ec"
    unfolding inverse_ok_def
  proof (intro conjI allI impI)
    fix a :: int
    assume "0 < a" "a < cv_n sample_ec"
    then have "a = 1 \<or> a = 2 \<or> a = 3 \<or> a = 4 \<or> a = 5 \<or> a = 6" by (auto simp: sample_ec_def)
    then show "a * modInverse sample_ec a (cv_n sample_ec) mod cv_n sample_ec = 1"
      by (elim disjE) (simp_all add: sample_ec_def)
  qed (simp_all add: sample_ec_def sample_lib_def)
  moreover have "group_ok sample_ec"
  proof -
    have two: "(a mod 7 * j + b mod 7 * k) mod 7 = (a * j + b * k) mod 7" for a b j k :: int
      by (simp only: mod_add_eq [of "a mod 7 * j", symmetric] mod_add_eq [of "a * j", symmetric] mod_mult_left_eq)
    have point: "point sample_ec a = a mod 7" for a by (simp add: sample_ec_def)
    have "cv_multiply sample_ec (a mod 7) b = a * b mod 7" "cv_add sample_ec (a mod 7) (b mod 7) = (a + b) mod 7"
      "cv_multiplyTwo sample_ec (a mod 7) j (b mod 7) k = (a * j + b * k) mod 7" for a b j k
      using two by (simp_all add: sample_ec_def mod_simps)
    moreover have "a mod 7 = b mod 7 \<longleftrightarrow> cv_n sample_ec dvd a - b" for a b by (simp add: sample_ec_def mod_eq_dvd_iff)
    moreover have "cv_isInfinity sample_ec (a mod 7) \<longleftrightarrow> cv_n sample_ec dvd a" for a by (simp add: sample_ec_def dvd_eq_mod_eq_0)
    moreover have "cv_G sample_ec = 1 mod 7" "cv_equals sample_ec P Q \<longleftrightarrow> P = Q" for P Q by (simp_all add: sample_ec_def)
    ultimately show ?thesis unfolding group_ok_def point by simp
  qed
  moreover have "coordinates_ok sample_ec"
    unfolding coordinates_ok_def
  proof (intro allI impI)
    fix a :: int
    assume "0 < a" "a < cv_n sample_ec"
    then have "a = 1 \<or> a = 2 \<or> a = 3 \<or> a = 4 \<or> a = 5 \<or> a = 6" by (auto simp: sample_ec_def)
    then show "0 \<le> cv_affineX sample_ec (point sample_ec a) \<and>
        cv_affineX sample_ec (point sample_ec (cv_n sample_ec - a)) = cv_affineX sample_ec (point sample_ec a) \<and>
        (\<exists>i \<in> {0, 1}. cv_pointFromX sample_ec i (cv_affineX sample_ec (point sample_ec a)) = point sample_ec a \<and>
           cv_pointFromX sample_ec (1 - i) (cv_affineX sample_ec (point sample_ec a)) = point sample_ec (cv_n sample_ec - a)) \<and>
        cv_validate sample_ec (point sample_ec a) = Inr () \<and>
        length (cv_getEncoded sample_ec (point sample_ec a) True) = 33 \<and>
        length (cv_getEncoded sample_ec (point sample_ec a) False) = 65 \<and>
        (\<forall>c. cv_decodeFrom sample_ec (cv_getEncoded sample_ec (point sample_ec a) c) = Inr (point sample_ec a, c))"
      by (elim disjE) (simp_all add: sample_ec_def)
  qed
  ultimately show ?thesis by (simp add: curve_ok_def)
qed

definition sample_hash :: buffer where "sample_hash = replicate 31 0 @ [2]"

lemma sample_from_buffer: "from_buffer sample_ec sample_hash = 2"
proof -
  have "le_nat (replicate n 0) = 0" for n by (induction n) simp_all
  then show ?thesis by (simp add: sample_ec_def sample_lib_def sample_hash_def be_nat_def)
qed

lemma sample_usable:
  "first_usable sample_ec (check_nonce sample_ec 2 3) (first_kv sample_ec sample_hash x) 0 (2, 4)"
  "bn_toBuffer32 (ec_sig sample_ec) 3 = Inr (be_bytes 32 3)" "length sample_hash = 32"
proof -
  have "first_kv sample_ec h x = (sample_hash, sample_hash)" for h x
    by (simp add: first_kv_def sample_ec_def sample_hash_def)
  then show "first_usable sample_ec (check_nonce sample_ec 2 3) (first_kv sample_ec sample_hash x) 0 (2, 4)"
    using sample_from_buffer by (simp add: first_usable_def candidate_def try_nonce_def check_nonce_def sample_ec_def)
qed (simp_all add: sample_ec_def sample_lib_def sample_hash_def)

lemma sample_signature: "ec_sign sample_ec sample_hash 3 = Some (Inr (ECSignature 2 3))"
proof -
  have "ec_sign sample_ec sample_hash 3 = Some (Inr (ECSignature 2 (if 4 > N_OVER_TWO sample_ec then cv_n sample_ec - 4 else 4)))"
    by (intro ec_sign_first [of _ _ _ "be_bytes 32 3" 0]) (simp_all add: sample_from_buffer sample_usable)
  then show ?thesis by (simp add: N_OVER_TWO_def sample_ec_def)
qed

section \<open>Properties\<close>

text \<open>C8: a signature verifies under the public key of the private key that made it, whatever the hash:
  \<open>verify\<close> accepts what \<open>sign\<close> returns. Both numbers are in range and the second one is at most half
  the order of the curve, as BIP 62 asks.\<close>

theorem signature_verifies:
  assumes "curve_ok L" "0 \<le> d" "ec_sign L hash d = Some (Inr sig)"
  shows "ec_verify L hash sig (point L d) = Inr True \<and>
    0 < sig_r sig \<and> sig_r sig < cv_n L \<and> 0 < sig_s sig \<and> sig_s sig \<le> cv_n L div 2"
  by (rule sign_then_verify [OF assms])

theorem signature_verifies_witness:
  "ec_verify sample_ec sample_hash (ECSignature 2 3) (point sample_ec 3) = Inr True \<and>
    0 < (2 :: int) \<and> 2 < cv_n sample_ec \<and> 0 < (3 :: int) \<and> 3 \<le> cv_n sample_ec div 2"
  using signature_verifies [OF sample_ec_ok _ sample_signature] by simp

text \<open>C14: \<open>sign\<close> is ECDSA with the nonces of RFC 6979. Its answer is a signature exactly if some round of
  the RFC's chain, started from the key and the hash, gives a nonce for which the two ECDSA values exist;
  then it is the signature of the first such round, with \<open>s\<close> replaced by its negative if that is smaller.
  Where no round does, the loop of \<open>deterministicGenerateK\<close> does not return. (The RFC puts the hash
  modulo the order of the curve into the chain, the code the hash itself: they differ for a hash that is
  not below the order.)\<close>

theorem signing_is_rfc6979_ecdsa:
  assumes "curve_ok L" "length hash = 32" "bn_toBuffer32 (ec_sig L) d = Inr x" "length x = 32"
  defines "e \<equiv> from_buffer L hash" and "nonce \<equiv> rfc6979_nonce L x hash"
  shows "(ec_sign L hash d = Some (Inr sig) \<longleftrightarrow>
      (\<exists>i s. ecdsa_values L e d (nonce i) (sig_r sig) s \<and> sig_s sig = min s (cv_n L - s) \<and>
         (\<forall>j < i. \<nexists>r s. ecdsa_values L e d (nonce j) r s))) \<and>
    (ec_sign L hash d = None \<longleftrightarrow> (\<nexists>i r s. ecdsa_values L e d (nonce i) r s))"
proof
  let ?usable = "first_usable L (check_nonce L e d) (first_kv L hash x)"
  have ok: "inverse_ok L" "group_ok L" using assms(1) by (simp_all add: curve_ok_def)
  note usable = first_usable_values [OF ok, of e d hash x, folded nonce_def]
  have low: "(if s > N_OVER_TWO L then cv_n L - s else s) = min s (cv_n L - s)" for s by (auto simp: N_OVER_TWO_def min_def)
  have sign: "ec_sign L hash d = Some (Inr sig) \<longleftrightarrow> (\<exists>i s. ?usable i (sig_r sig, s) \<and> sig_s sig = min s (cv_n L - s))" for sig
    unfolding ec_sign_Inr nonce_loop_iff low e_def using assms(2-4) by (cases sig) auto
  then show "ec_sign L hash d = Some (Inr sig) \<longleftrightarrow>
      (\<exists>i s. ecdsa_values L e d (nonce i) (sig_r sig) s \<and> sig_s sig = min s (cv_n L - s) \<and>
         (\<forall>j < i. \<nexists>r s. ecdsa_values L e d (nonce j) r s))"
    unfolding usable by blast
  have "ec_sign L hash d = None \<longleftrightarrow> (\<nexists>sig. ec_sign L hash d = Some (Inr sig))"
    using ec_sign_error [OF assms(2-4)] by (metis obj_sumE option.distinct(1) option.exhaust)
  also have "\<dots> \<longleftrightarrow> (\<nexists>i r s. ?usable i (r, s))" unfolding sign by (metis ec_signature.sel)
  also have "\<dots> \<longleftrightarrow> (\<nexists>i r s. ecdsa_values L e d (nonce i) r s)"
    unfolding nonce_def some_usable_values [OF ok] ..
  finally show "ec_sign L hash d = None \<longleftrightarrow> (\<nexists>i r s. ecdsa_values L e d (nonce i) r s)" .
qed

theorem signing_is_rfc6979_ecdsa_witness:
  "ec_sign sample_ec sample_hash 3 = Some (Inr (ECSignature 2 3)) \<and>
    (\<exists>i s. ecdsa_values sample_ec 2 3 (rfc6979_nonce sample_ec (be_bytes 32 3) sample_hash i) 2 s \<and> 3 = min s (7 - s) \<and>
       (\<forall>j < i. \<nexists>r s. ecdsa_values sample_ec 2 3 (rfc6979_nonce sample_ec (be_bytes 32 3) sample_hash j) r s))"
  using signing_is_rfc6979_ecdsa [OF sample_ec_ok sample_usable(3,2) length_be_bytes, of "ECSignature 2 3", unfolded sample_from_buffer]
    sample_signature
  by (simp add: sample_ec_def)

text \<open>the key can be recovered from the signature. If the nonce point has a coordinate below the
  order, the search for the recovery parameter ends at 0 or 1, and recovery with that parameter gives
  the public key of the signer. The last assumption excludes the one key and hash for which the other
  candidate is the point at infinity, where \<open>validate\<close> throws.\<close>

theorem signer_is_recovered:
  assumes "curve_ok L" "0 < d" "d < cv_n L" "ec_sign L hash d = Some (Inr sig)"
    and "\<forall>a. 0 < a \<longrightarrow> a < cv_n L \<longrightarrow> cv_affineX L (point L a) mod cv_n L = sig_r sig \<longrightarrow> cv_affineX L (point L a) < cv_n L"
    and "\<not> cv_n L dvd 2 * from_buffer L hash + d * sig_r sig"
  shows "\<exists>i \<in> {0, 1}. calcPubKeyRecoveryParam L (from_buffer L hash) sig (point L d) = Inr i \<and>
    recoverPubKey L (from_buffer L hash) sig i = Inr (point L d)"
  by (rule recover_signed [OF assms])

theorem signer_is_recovered_witness:
  "\<exists>i \<in> {0, 1}. calcPubKeyRecoveryParam sample_ec 2 (ECSignature 2 3) (point sample_ec 3) = Inr i \<and>
    recoverPubKey sample_ec 2 (ECSignature 2 3) i = Inr (point sample_ec 3)"
proof -
  have "cv_n sample_ec = 7" "cv_affineX sample_ec P < 7" for P by (simp_all add: sample_ec_def min_def)
  then show ?thesis
    using signer_is_recovered [OF sample_ec_ok _ _ sample_signature] by (simp add: sample_from_buffer)
qed

end
