(* ===== verification/Ec_Pair.thy ===== *)
theory Ec_Pair
  imports Ecdsa Address Tx
begin

text \<open>
  \<open>bitcoinjs-lib/src/ecpair.js\<close>: key pairs, their wallet import format, addresses and signatures. The
  packages bs58check, wif and the hash functions are fields of \<open>key_lib\<close>. The property \<open>Q\<close> of a pair
  caches the multiple of \<open>G\<close> it computes; as computing it again gives the same point, \<open>get_Q\<close> returns
  the point and leaves the pair as it is.
\<close>

section \<open>Packages and networks\<close>

record 'p key_lib =
  kl_ec :: "'p ec_lib"
  kl_sha256 :: "buffer \<Rightarrow> buffer"
  kl_ripemd160 :: "buffer \<Rightarrow> buffer"
  kl_hmac512 :: "buffer \<Rightarrow> buffer \<Rightarrow> buffer"
  kl_b58_encode :: "buffer \<Rightarrow> string"
  kl_b58_decode :: "string \<Rightarrow> buffer res"
  kl_wif_encode :: "nat \<Rightarrow> buffer \<Rightarrow> bool \<Rightarrow> string"
  kl_wif_decodeRaw :: "nat option \<Rightarrow> buffer \<Rightarrow> (buffer \<times> bool) res"

abbreviation kl_hash160 :: "'p key_lib \<Rightarrow> buffer \<Rightarrow> buffer" where
  "kl_hash160 K \<equiv> hash160 (kl_ripemd160 K) (kl_sha256 K)"

text \<open>\<open>types.Network\<close>, and an argument that is a network, a list of networks, or left out.\<close>

definition Network :: "network \<Rightarrow> bool" where
  "Network net \<longleftrightarrow> UInt32 (int (bip32_public net)) \<and> UInt32 (int (bip32_private net)) \<and> UInt8 (int (pubKeyHash net)) \<and>
     UInt8 (int (scriptHash net)) \<and> UInt8 (int (wif net)) \<and> UInt53 (int (dustThreshold net))"

datatype network_arg = NoNetwork | OneNetwork network | Networks "network list"

section \<open>Key pairs\<close>

record 'p ec_pair =
  ep_d :: "int option"
  ep_Q :: "'p option"
  ep_compressed :: bool
  ep_network :: network

definition new_ec_pair :: "'p ec_lib \<Rightarrow> int option \<Rightarrow> 'p option \<Rightarrow> bool option \<Rightarrow> network option \<Rightarrow> 'p ec_pair res" where
  "new_ec_pair L d Q compressed network =
     rbind (typeforce ''?Network'' (case network of Some net \<Rightarrow> Network net | None \<Rightarrow> True)) (\<lambda>_.
     rbind (case d of
         Some d \<Rightarrow>
           if d \<le> 0 then Inl (JsError ''Private key must be greater than 0'')
           else if d \<ge> cv_n L then Inl (JsError ''Private key must be less than the curve order'')
           else if Q \<noteq> None then Inl (JsTypeError ''Unexpected publicKey parameter'')
           else Inr (Some d, None)
       | None \<Rightarrow> rbind (typeforce ''Point'' (Q \<noteq> None)) (\<lambda>_. Inr (None, Q))) (\<lambda>(d, Q).
       Inr \<lparr>ep_d = d, ep_Q = Q, ep_compressed = (case compressed of None \<Rightarrow> True | Some c \<Rightarrow> c),
            ep_network = (case network of Some net \<Rightarrow> net | None \<Rightarrow> bitcoin_network)\<rparr>))"

definition get_Q :: "'p ec_lib \<Rightarrow> 'p ec_pair \<Rightarrow> 'p option" where
  "get_Q L kp = (case (ep_Q kp, ep_d kp) of
       (None, Some d) \<Rightarrow> Some (cv_multiply L (cv_G L) d)
     | (Q, _) \<Rightarrow> Q)"

definition fromPublicKeyBuffer :: "'p ec_lib \<Rightarrow> buffer \<Rightarrow> network option \<Rightarrow> 'p ec_pair res" where
  "fromPublicKeyBuffer L buf network =
     rbind (cv_decodeFrom L buf) (\<lambda>(Q, compressed). new_ec_pair L None (Some Q) (Some compressed) network)"

text \<open>\<open>networks.filter(...).pop() || {}\<close>: the last network that fits, or an object without fields, which
  is \<open>None\<close> here. Such an object is not a \<open>Network\<close>.\<close>

definition pop_network :: "(network \<Rightarrow> bool) \<Rightarrow> network list \<Rightarrow> network option" where
  "pop_network p nets = (case rev (filter p nets) of [] \<Rightarrow> None | net # _ \<Rightarrow> Some net)"

definition fromWIF :: "'p key_lib \<Rightarrow> string \<Rightarrow> network_arg \<Rightarrow> 'p ec_pair res" where
  "fromWIF K s network =
     rbind (kl_b58_decode K s) (\<lambda>buf.
       let network = (case network of
             NoNetwork \<Rightarrow> Some bitcoin_network
           | OneNetwork net \<Rightarrow> Some net
           | Networks nets \<Rightarrow> let version = byte_at buf 0 in pop_network (\<lambda>net. version = Some (wif net)) nets)
       in rbind (kl_wif_decodeRaw K (map_option wif network) buf) (\<lambda>(d, compressed).
          case network of
            Some net \<Rightarrow> new_ec_pair (kl_ec K) (Some (from_buffer (kl_ec K) d)) None (Some compressed) (Some net)
          | None \<Rightarrow> Inl (JsTypeError ''Expected ?Network'')))"

text \<open>The generator is called until a number is a private key; its answers are the sequence \<open>rng\<close>.\<close>

partial_function (option) random_key :: "'p ec_lib \<Rightarrow> (nat \<Rightarrow> buffer) \<Rightarrow> nat \<Rightarrow> int run" where
  "random_key L rng i =
     (case Buffer256bit (rng i) of
        Inl e \<Rightarrow> Some (Inl e)
      | Inr _ \<Rightarrow>
          let d = from_buffer L (rng i) in
          if d \<le> 0 \<or> d \<ge> cv_n L then random_key L rng (i + 1) else Some (Inr d))"

definition makeRandom :: "'p ec_lib \<Rightarrow> (nat \<Rightarrow> buffer) \<Rightarrow> bool option \<Rightarrow> network option \<Rightarrow> 'p ec_pair run" where
  "makeRandom L rng compressed network =
     (case random_key L rng 0 of
        None \<Rightarrow> None
      | Some r \<Rightarrow> Some (rbind r (\<lambda>d. new_ec_pair L (Some d) None compressed network)))"

definition getPublicKeyBuffer :: "'p ec_lib \<Rightarrow> 'p ec_pair \<Rightarrow> buffer res" where
  "getPublicKeyBuffer L kp = (case get_Q L kp of
       Some Q \<Rightarrow> Inr (cv_getEncoded L Q (ep_compressed kp))
     | None \<Rightarrow> Inl (JsTypeError ''Cannot read property getEncoded of undefined''))"

definition getAddress :: "'p key_lib \<Rightarrow> 'p ec_pair \<Rightarrow> string res" where
  "getAddress K kp =
     rbind (getPublicKeyBuffer (kl_ec K) kp) (\<lambda>pubKey.
       let pubKeyHash' = kl_hash160 K pubKey in
     rbind (writeUInt8 (new_buffer 21) (pubKeyHash (ep_network kp)) 0) (\<lambda>payload.
       let payload = buf_copy pubKeyHash' payload 1 in Inr (kl_b58_encode K payload)))"

definition getNetwork :: "'p ec_pair \<Rightarrow> network" where
  "getNetwork kp = ep_network kp"

definition ecpair_sign :: "'p ec_lib \<Rightarrow> 'p ec_pair \<Rightarrow> buffer \<Rightarrow> ec_signature run" where
  "ecpair_sign L kp hash = (case ep_d kp of
       None \<Rightarrow> Some (Inl (JsError ''Missing private key''))
     | Some d \<Rightarrow> ec_sign L hash d)"

definition toWIF :: "'p key_lib \<Rightarrow> 'p ec_pair \<Rightarrow> string res" where
  "toWIF K kp = (case ep_d kp of
       None \<Rightarrow> Inl (JsError ''Missing private key'')
     | Some d \<Rightarrow> rbind (bn_toBuffer32 (ec_sig (kl_ec K)) d) (\<lambda>b.
         Inr (kl_wif_encode K (wif (ep_network kp)) b (ep_compressed kp))))"

definition ecpair_verify :: "'p ec_lib \<Rightarrow> 'p ec_pair \<Rightarrow> buffer \<Rightarrow> ec_signature \<Rightarrow> bool res" where
  "ecpair_verify L kp hash signature = (case get_Q L kp of
       Some Q \<Rightarrow> ec_verify L hash signature Q
     | None \<Rightarrow> Inl (JsTypeError ''Expected Point''))"

section \<open>Pairs that the constructor makes\<close>

text \<open>A pair has a private key in range or a public point, and a network.\<close>

definition pair_ok :: "'p ec_lib \<Rightarrow> 'p ec_pair \<Rightarrow> bool" where
  "pair_ok L kp \<longleftrightarrow> Network (ep_network kp) \<and>
     (case ep_d kp of Some d \<Rightarrow> 0 < d \<and> d < cv_n L \<and> ep_Q kp = None | None \<Rightarrow> ep_Q kp \<noteq> None)"

lemma bitcoin_Network: "Network bitcoin_network"
  by (simp add: Network_def bitcoin_network_def UInt32_iff UInt8_iff UInt53_def)

lemma new_ec_pair_ok: "new_ec_pair L d Q compressed network = Inr kp \<Longrightarrow> pair_ok L kp"
  by (auto simp: new_ec_pair_def pair_ok_def bitcoin_Network split: option.splits if_splits)

lemma new_ec_pair_private:
  "0 < d \<Longrightarrow> d < cv_n L \<Longrightarrow> Network net \<Longrightarrow>
     new_ec_pair L (Some d) None compressed (Some net) =
       Inr \<lparr>ep_d = Some d, ep_Q = None, ep_compressed = (case compressed of None \<Rightarrow> True | Some c \<Rightarrow> c), ep_network = net\<rparr>"
  by (simp add: new_ec_pair_def)

lemma new_ec_pair_public:
  "Network net \<Longrightarrow> new_ec_pair L None (Some Q) compressed (Some net) =
     Inr \<lparr>ep_d = None, ep_Q = Some Q, ep_compressed = (case compressed of None \<Rightarrow> True | Some c \<Rightarrow> c), ep_network = net\<rparr>"
  by (simp add: new_ec_pair_def)

lemma pair_ok_eqI:
  assumes "pair_ok L kp" "ep_d kp = Some d"
  shows "kp = \<lparr>ep_d = Some d, ep_Q = None, ep_compressed = ep_compressed kp, ep_network = ep_network kp\<rparr>"
  using assms by (cases kp) (simp add: pair_ok_def)

text \<open>What a random pair is: the first answer of the generator that is a private key.\<close>

lemma random_key_first:
  assumes "\<forall>j \<le> i. length (rng j) = 32" "\<forall>j < i. \<not> (0 < from_buffer L (rng j) \<and> from_buffer L (rng j) < cv_n L)"
    and "0 < from_buffer L (rng i)" "from_buffer L (rng i) < cv_n L"
  shows "random_key L rng 0 = Some (Inr (from_buffer L (rng i)))"
proof -
  have "random_key L rng (i - k) = Some (Inr (from_buffer L (rng i)))" if "k \<le> i" for k
    using that
  proof (induction k)
    case 0
    then show ?case using assms by (subst random_key.simps) (simp add: Buffer256bit_def nBuffer_ok Let_def)
  next
    case (Suc k)
    then have "Suc (i - Suc k) = i - k" "i - Suc k < i" by simp_all
    then show ?case using Suc assms by (subst random_key.simps) (auto simp: Buffer256bit_def nBuffer_ok Let_def not_le)
  qed
  from this [of i] show ?thesis by simp
qed

section \<open>What the packages promise\<close>

definition wif_ok :: "'p key_lib \<Rightarrow> bool" where
  "wif_ok K \<longleftrightarrow> (\<forall>v b c. v < 256 \<longrightarrow> length b = 32 \<longrightarrow>
     (\<exists>buf. kl_b58_decode K (kl_wif_encode K v b c) = Inr buf \<and> byte_at buf 0 = Some v \<and>
        kl_wif_decodeRaw K (Some v) buf = Inr (b, c)))"

lemma private_key_bytes:
  assumes "sig_lib_ok (ec_sig L)" "inverse_ok L" "0 < d" "d < cv_n L"
  obtains b where "bn_toBuffer32 (ec_sig L) d = Inr b" "length b = 32" "from_buffer L b = d"
proof -
  have "0 \<le> d" "d < 2 ^ 256" using assms(2-4) by (simp_all add: inverse_ok_def)
  then show ?thesis using assms(1) that unfolding sig_lib_ok_def by blast
qed

lemma public_point:
  assumes "pair_ok L kp"
  obtains Q where "get_Q L kp = Some Q"
  using assms by (cases "ep_Q kp"; cases "ep_d kp") (auto simp: pair_ok_def get_Q_def)

lemma private_point: "pair_ok L kp \<Longrightarrow> ep_d kp = Some d \<Longrightarrow> get_Q L kp = Some (point L d)"
  by (simp add: pair_ok_def get_Q_def)

lemma sample_sig_lib: "ec_sig sample_ec = sample_lib"
  by (simp add: sample_ec_def)

text \<open>Packages for which the promises hold.\<close>

definition sample_keys :: "int key_lib" where
  "sample_keys = \<lparr>kl_ec = sample_ec, kl_sha256 = (\<lambda>_. sample_hash), kl_ripemd160 = (\<lambda>_. replicate 20 9),
     kl_hmac512 = (\<lambda>_ _. replicate 31 0 @ [1] @ replicate 32 8),
     kl_b58_encode = plain_encode, kl_b58_decode = plain_decode,
     kl_wif_encode = (\<lambda>v b c. plain_encode (word_of_nat v # b @ (if c then [1] else []))),
     kl_wif_decodeRaw = (\<lambda>v buf. Inr (slice buf 1 33, length buf = 34))\<rparr>"

lemma sample_wif_ok: "wif_ok sample_keys"
  unfolding wif_ok_def
proof (intro allI impI)
  fix v :: nat and b :: buffer and c
  assume "v < 256" "length b = 32"
  then show "\<exists>buf. kl_b58_decode sample_keys (kl_wif_encode sample_keys v b c) = Inr buf \<and> byte_at buf 0 = Some v \<and>
      kl_wif_decodeRaw sample_keys (Some v) buf = Inr (b, c)"
    by (intro exI [of _ "word_of_nat v # b @ (if c then [1] else [])"])
       (simp add: sample_keys_def plain_inverse byte_at_def slice_def)
qed

definition sample_pair :: "int ec_pair" where
  "sample_pair = \<lparr>ep_d = Some 3, ep_Q = None, ep_compressed = True, ep_network = bitcoin_network\<rparr>"

lemma sample_pair_ok: "pair_ok sample_ec sample_pair"
  by (simp add: pair_ok_def sample_pair_def bitcoin_Network sample_ec_def)

section \<open>Properties\<close>

text \<open>the wallet import format of a private key gives the key pair back: the key, the compression
  flag and the network. With a list of networks, \<open>fromWIF\<close> finds the network by the version byte; the
  last network with that byte counts, and a list without one is refused.\<close>

theorem wif_roundtrip:
  assumes "sig_lib_ok (ec_sig (kl_ec K))" "inverse_ok (kl_ec K)" "wif_ok K" "pair_ok (kl_ec K) kp" "ep_d kp = Some d"
  shows "\<exists>s. toWIF K kp = Inr s \<and> fromWIF K s (OneNetwork (ep_network kp)) = Inr kp \<and>
    (\<forall>nets. pop_network (\<lambda>net. wif net = wif (ep_network kp)) nets = Some (ep_network kp) \<longrightarrow> fromWIF K s (Networks nets) = Inr kp) \<and>
    (\<forall>nets. wif (ep_network kp) \<notin> wif ` set nets \<longrightarrow> (\<exists>e. fromWIF K s (Networks nets) = Inl e))"
proof -
  let ?net = "ep_network kp"
  have d: "0 < d" "d < cv_n (kl_ec K)" "Network ?net" using assms(4,5) by (simp_all add: pair_ok_def)
  then have v: "wif ?net < 256" by (simp add: Network_def UInt8_iff)
  obtain b where b: "bn_toBuffer32 (ec_sig (kl_ec K)) d = Inr b" "length b = 32" "from_buffer (kl_ec K) b = d"
    by (rule private_key_bytes [OF assms(1,2) d(1,2)])
  define s where "s = kl_wif_encode K (wif ?net) b (ep_compressed kp)"
  obtain buf where buf: "kl_b58_decode K s = Inr buf" "byte_at buf 0 = Some (wif ?net)"
      "kl_wif_decodeRaw K (Some (wif ?net)) buf = Inr (b, ep_compressed kp)"
    using assms(3) v b(2) unfolding wif_ok_def s_def by blast
  have kp: "kp = \<lparr>ep_d = Some d, ep_Q = None, ep_compressed = ep_compressed kp, ep_network = ?net\<rparr>"
    by (rule pair_ok_eqI [OF assms(4,5)])
  have new: "new_ec_pair (kl_ec K) (Some d) None (Some (ep_compressed kp)) (Some ?net) = Inr kp"
    by (simp only: new_ec_pair_private [OF d] option.case kp [symmetric])
  have "toWIF K kp = Inr s" using assms(5) b(1) by (simp add: toWIF_def s_def)
  moreover have "fromWIF K s (OneNetwork ?net) = Inr kp" using buf b(3) new by (simp add: fromWIF_def)
  moreover have "fromWIF K s (Networks nets) = Inr kp" if "pop_network (\<lambda>net. wif net = wif ?net) nets = Some ?net" for nets
    using buf b(3) new that by (simp add: fromWIF_def eq_commute [of "wif ?net"])
  moreover have "\<exists>e. fromWIF K s (Networks nets) = Inl e" if "wif ?net \<notin> wif ` set nets" for nets
  proof -
    have "filter (\<lambda>net. wif ?net = wif net) nets = []" using that by (force simp: filter_empty_conv)
    then have "pop_network (\<lambda>net. wif ?net = wif net) nets = None" by (simp add: pop_network_def)
    then show ?thesis using buf(1,2) by (cases "kl_wif_decodeRaw K None buf") (auto simp: fromWIF_def rbind_def)
  qed
  ultimately show ?thesis by blast
qed

theorem wif_roundtrip_witness:
  "\<exists>s. toWIF sample_keys sample_pair = Inr s \<and> fromWIF sample_keys s (OneNetwork bitcoin_network) = Inr sample_pair \<and>
     fromWIF sample_keys s (Networks [bitcoin_network, testnet_network]) = Inr sample_pair"
proof -
  have "sig_lib_ok (ec_sig (kl_ec sample_keys))" "inverse_ok (kl_ec sample_keys)" "pair_ok (kl_ec sample_keys) sample_pair"
      "ep_d sample_pair = Some 3"
    using sample_lib_ok sample_ec_ok sample_pair_ok
    by (simp_all add: sample_keys_def sample_sig_lib curve_ok_def sample_pair_def)
  from wif_roundtrip [OF this(1,2) sample_wif_ok this(3,4)]
  obtain s where "toWIF sample_keys sample_pair = Inr s" "fromWIF sample_keys s (OneNetwork bitcoin_network) = Inr sample_pair"
      "pop_network (\<lambda>net. wif net = 0x80) [bitcoin_network, testnet_network] = Some bitcoin_network \<longrightarrow>
        fromWIF sample_keys s (Networks [bitcoin_network, testnet_network]) = Inr sample_pair"
    by (auto simp: sample_pair_def bitcoin_network_def)
  moreover have "pop_network (\<lambda>net. wif net = 0x80) [bitcoin_network, testnet_network] = Some bitcoin_network"
    by (simp add: pop_network_def bitcoin_network_def testnet_network_def)
  ultimately show ?thesis by blast
qed

text \<open>the address of a key pair is the address of the script that pays to it:
  \<open>getAddress\<close> and \<open>address.fromOutputScript\<close> of the pay-to-pubkey-hash script of the key agree.\<close>

theorem address_pays_to_key:
  assumes "pair_ok (kl_ec K) kp" "\<And>b. length (kl_ripemd160 K b) = 20"
  shows "\<exists>pub script a. getPublicKeyBuffer (kl_ec K) kp = Inr pub \<and> pubKeyHashOutput (kl_hash160 K pub) = Inr script \<and>
    getAddress K kp = Inr a \<and> fromOutputScript (kl_b58_encode K) (Buf script) (Some (ep_network kp)) = Inr a"
proof -
  obtain Q where "get_Q (kl_ec K) kp = Some Q" by (rule public_point [OF assms(1)])
  then obtain pub where pub: "getPublicKeyBuffer (kl_ec K) kp = Inr pub" by (simp add: getPublicKeyBuffer_def)
  define h where "h = kl_hash160 K pub"
  have h: "length h = 20" using assms(2) by (simp add: h_def hash160_def)
  have v: "pubKeyHash (ep_network kp) < 256" using assms(1) by (simp add: pair_ok_def Network_def UInt8_iff)
  let ?script = "[0x76, 0xa9, 0x14] @ h @ [0x88, 0xac]"
  have script: "pubKeyHashOutput h = Inr ?script" by (rule pubKeyHashOutput_bytes [OF h])
  have base58: "toBase58Check (kl_b58_encode K) h (pubKeyHash (ep_network kp)) =
      Inr (kl_b58_encode K (word_of_nat (pubKeyHash (ep_network kp)) # h))"
    by (rule toBase58Check_payload [OF h v])
  then have "getAddress K kp = Inr (kl_b58_encode K (word_of_nat (pubKeyHash (ep_network kp)) # h))"
    using pub h v by (simp add: getAddress_def toBase58Check_def Let_def UInt8_iff flip: h_def)
  moreover have "isPubKeyHashOutput (Buf ?script) = Inr True" using h isPubKeyHashOutput_bytes by blast
  moreover have "slice ?script 3 23 = h" using h slice_append_at [of 3 "[0x76, 0xa9, 0x14]" 23 h] by simp
  ultimately show ?thesis
    using pub script base58 by (simp add: fromOutputScript_def flip: h_def)
qed

theorem address_pays_to_key_witness:
  "\<exists>pub script a. getPublicKeyBuffer sample_ec sample_pair = Inr pub \<and> pubKeyHashOutput (kl_hash160 sample_keys pub) = Inr script \<and>
    getAddress sample_keys sample_pair = Inr a \<and> fromOutputScript plain_encode (Buf script) (Some bitcoin_network) = Inr a"
  using address_pays_to_key [of sample_keys sample_pair] sample_pair_ok by (simp add: sample_keys_def sample_pair_def)

end
