(* ===== verification/Hd_Node.thy ===== *)
theory Hd_Node
  imports Ec_Pair
begin

text \<open>
  \<open>bitcoinjs-lib/src/hdnode.js\<close>: hierarchical deterministic keys (BIP 32): master keys, children,
  neutered nodes, and the serialised form.
\<close>

section \<open>Nodes\<close>

definition writeUInt32BE :: "buffer \<Rightarrow> nat \<Rightarrow> nat \<Rightarrow> buffer res" where
  "writeUInt32BE buf v off =
     (if 256 ^ 4 \<le> v then Inl (JsTypeError ''value out of bounds'')
      else if length buf < off + 4 then Inl JsRangeError
      else Inr (write_at buf off (be_bytes 4 v)))"

record 'p hd_node =
  hn_keyPair :: "'p ec_pair"
  hn_chainCode :: buffer
  hn_depth :: nat
  hn_index :: nat
  hn_parentFingerprint :: nat

definition new_hd_node :: "'p ec_pair \<Rightarrow> buffer \<Rightarrow> 'p hd_node res" where
  "new_hd_node keyPair chainCode =
     rbind (Buffer256bit chainCode) (\<lambda>_.
       if \<not> ep_compressed keyPair then Inl (JsTypeError ''BIP32 only allows compressed keyPairs'')
       else Inr \<lparr>hn_keyPair = keyPair, hn_chainCode = chainCode, hn_depth = 0, hn_index = 0, hn_parentFingerprint = 0x00000000\<rparr>)"

definition HD_HIGHEST_BIT :: int where "HD_HIGHEST_BIT = 0x80000000"

definition MASTER_SECRET :: buffer where
  "MASTER_SECRET = map (\<lambda>c. of_char c) ''Bitcoin seed''"

definition fromSeedBuffer :: "'p key_lib \<Rightarrow> buffer \<Rightarrow> network option \<Rightarrow> 'p hd_node res" where
  "fromSeedBuffer K seed network =
     rbind (typeforce ''?Network'' (case network of Some net \<Rightarrow> Network net | None \<Rightarrow> True)) (\<lambda>_.
       if length seed < 16 then Inl (JsTypeError ''Seed should be at least 128 bits'')
       else if length seed > 64 then Inl (JsTypeError ''Seed should be at most 512 bits'')
       else
         let I = kl_hmac512 K MASTER_SECRET seed; IL = slice I 0 32; IR = drop 32 I;
             pIL = from_buffer (kl_ec K) IL
         in rbind (new_ec_pair (kl_ec K) (Some pIL) None None network) (\<lambda>keyPair. new_hd_node keyPair IR))"

definition fromSeedHex :: "'p key_lib \<Rightarrow> (string \<Rightarrow> buffer res) \<Rightarrow> string \<Rightarrow> network option \<Rightarrow> 'p hd_node res" where
  "fromSeedHex K hex_decode hex network = rbind (hex_decode hex) (\<lambda>seed. fromSeedBuffer K seed network)"

definition isNeutered :: "'p hd_node \<Rightarrow> bool" where
  "isNeutered node \<longleftrightarrow> ep_d (hn_keyPair node) = None"

definition getIdentifier :: "'p key_lib \<Rightarrow> 'p hd_node \<Rightarrow> buffer res" where
  "getIdentifier K node = rbind (getPublicKeyBuffer (kl_ec K) (hn_keyPair node)) (\<lambda>b. Inr (kl_hash160 K b))"

definition getFingerprint :: "'p key_lib \<Rightarrow> 'p hd_node \<Rightarrow> buffer res" where
  "getFingerprint K node = rbind (getIdentifier K node) (\<lambda>b. Inr (slice b 0 4))"

definition hd_getAddress :: "'p key_lib \<Rightarrow> 'p hd_node \<Rightarrow> string res" where
  "hd_getAddress K node = getAddress K (hn_keyPair node)"

definition hd_getNetwork :: "'p hd_node \<Rightarrow> network" where
  "hd_getNetwork node = getNetwork (hn_keyPair node)"

definition hd_getPublicKeyBuffer :: "'p key_lib \<Rightarrow> 'p hd_node \<Rightarrow> buffer res" where
  "hd_getPublicKeyBuffer K node = getPublicKeyBuffer (kl_ec K) (hn_keyPair node)"

definition hd_sign :: "'p key_lib \<Rightarrow> 'p hd_node \<Rightarrow> buffer \<Rightarrow> ec_signature run" where
  "hd_sign K node hash = ecpair_sign (kl_ec K) (hn_keyPair node) hash"

definition hd_verify :: "'p key_lib \<Rightarrow> 'p hd_node \<Rightarrow> buffer \<Rightarrow> ec_signature \<Rightarrow> bool res" where
  "hd_verify K node hash signature = ecpair_verify (kl_ec K) (hn_keyPair node) hash signature"

definition neutered :: "'p key_lib \<Rightarrow> 'p hd_node \<Rightarrow> 'p hd_node res" where
  "neutered K node =
     rbind (new_ec_pair (kl_ec K) None (get_Q (kl_ec K) (hn_keyPair node)) None (Some (ep_network (hn_keyPair node)))) (\<lambda>neuteredKeyPair.
     rbind (new_hd_node neuteredKeyPair (hn_chainCode node)) (\<lambda>n.
       Inr (n\<lparr>hn_depth := hn_depth node, hn_index := hn_index node, hn_parentFingerprint := hn_parentFingerprint node\<rparr>)))"

section \<open>The serialised form\<close>

definition toBase58 :: "'p key_lib \<Rightarrow> 'p hd_node \<Rightarrow> string res" where
  "toBase58 K node =
     (let network = ep_network (hn_keyPair node);
          version = (if \<not> isNeutered node then bip32_private network else bip32_public network) in
      rbind (writeUInt32BE (new_buffer 78) version 0) (\<lambda>buf.
      rbind (writeUInt8 buf (hn_depth node) 4) (\<lambda>buf.
      rbind (writeUInt32BE buf (hn_parentFingerprint node) 5) (\<lambda>buf.
      rbind (writeUInt32BE buf (hn_index node) 9) (\<lambda>buf.
        let buf = buf_copy (hn_chainCode node) buf 13 in
      rbind (case ep_d (hn_keyPair node) of
          Some d \<Rightarrow>
            rbind (writeUInt8 buf 0 45) (\<lambda>buf.
            rbind (bn_toBuffer32 (ec_sig (kl_ec K)) d) (\<lambda>b. Inr (buf_copy b buf 46)))
        | None \<Rightarrow>
            rbind (getPublicKeyBuffer (kl_ec K) (hn_keyPair node)) (\<lambda>b. Inr (buf_copy b buf 45))) (\<lambda>buf.
      Inr (kl_b58_encode K buf)))))))"

definition base58_network :: "nat \<Rightarrow> network_arg \<Rightarrow> network option" where
  "base58_network version networks = (case networks of
       Networks nets \<Rightarrow> pop_network (\<lambda>net. version = bip32_private net \<or> version = bip32_public net) nets
     | OneNetwork net \<Rightarrow> Some net
     | NoNetwork \<Rightarrow> Some bitcoin_network)"

definition base58_pair :: "'p ec_lib \<Rightarrow> nat \<Rightarrow> network \<Rightarrow> buffer \<Rightarrow> 'p ec_pair res" where
  "base58_pair L version network buf =
     (if version = bip32_private network then
        rbind (readUInt8 buf 45) (\<lambda>b.
          if b \<noteq> 0x00 then Inl (JsError ''Invalid private key'')
          else let d = from_buffer L (slice buf 46 78) in
            new_ec_pair L (Some d) None None (Some network))
      else
        rbind (cv_decodeFrom L (slice buf 45 78)) (\<lambda>(Q, compressed).
          if \<not> compressed then Inl (JsError ''Invalid public key'')
          else rbind (cv_validate L Q) (\<lambda>_. new_ec_pair L None (Some Q) None (Some network))))"

text \<open>For an object without fields \<open>network.bip32.private\<close> throws a \<open>TypeError\<close>.\<close>

definition fromBase58 :: "'p key_lib \<Rightarrow> string \<Rightarrow> network_arg \<Rightarrow> 'p hd_node res" where
  "fromBase58 K s networks =
     rbind (kl_b58_decode K s) (\<lambda>buf.
       if length buf \<noteq> 78 then Inl (JsError ''Invalid buffer length'')
       else rbind (readUInt32BE buf 0) (\<lambda>version.
         case base58_network version networks of
           None \<Rightarrow> Inl (JsTypeError ''Cannot read property private of undefined'')
         | Some network \<Rightarrow>
             if version \<noteq> bip32_private network \<and> version \<noteq> bip32_public network then Inl (JsError ''Invalid network'')
             else
               let depth = unat (buf ! 4) in
               rbind (readUInt32BE buf 5) (\<lambda>parentFingerprint.
               if depth = 0 \<and> parentFingerprint \<noteq> 0x00000000 then Inl (JsError ''Invalid parent fingerprint'')
               else rbind (readUInt32BE buf 9) (\<lambda>index.
               if depth = 0 \<and> index \<noteq> 0 then Inl (JsError ''Invalid index'')
               else
                 let chainCode = slice buf 13 45 in
                 rbind (base58_pair (kl_ec K) version network buf) (\<lambda>keyPair.
                 rbind (new_hd_node keyPair chainCode) (\<lambda>node.
                   Inr (node\<lparr>hn_depth := depth, hn_index := index, hn_parentFingerprint := parentFingerprint\<rparr>)))))))"

section \<open>Children\<close>

text \<open>The data that is hashed for a child, and the key pair of the child. \<open>None\<close> stands for the cases in
  which the code goes on with the next index.\<close>

definition child_data :: "'p key_lib \<Rightarrow> 'p hd_node \<Rightarrow> nat \<Rightarrow> buffer res" where
  "child_data K node index =
     (if int index \<ge> HD_HIGHEST_BIT then
        (case ep_d (hn_keyPair node) of
           None \<Rightarrow> Inl (JsTypeError ''Could not derive hardened child key'')
         | Some d \<Rightarrow>
             rbind (writeUInt8 (new_buffer 37) 0 0) (\<lambda>data.
             rbind (bn_toBuffer32 (ec_sig (kl_ec K)) d) (\<lambda>b.
               writeUInt32BE (buf_copy b data 1) index 33)))
      else
        rbind (getPublicKeyBuffer (kl_ec K) (hn_keyPair node)) (\<lambda>b.
          writeUInt32BE (buf_copy b (new_buffer 37) 0) index 33))"

definition child_pair :: "'p ec_lib \<Rightarrow> 'p hd_node \<Rightarrow> int \<Rightarrow> 'p ec_pair option res" where
  "child_pair L node pIL =
     (if pIL \<ge> cv_n L then Inr None
      else case ep_d (hn_keyPair node) of
        Some d \<Rightarrow>
          let ki = (pIL + d) mod cv_n L in
          if ki = 0 then Inr None
          else rbind (new_ec_pair L (Some ki) None None (Some (ep_network (hn_keyPair node)))) (\<lambda>kp. Inr (Some kp))
      | None \<Rightarrow>
          (case get_Q L (hn_keyPair node) of
             None \<Rightarrow> Inl (JsTypeError ''Cannot read property of undefined'')
           | Some Q \<Rightarrow>
               let Ki = cv_add L (cv_multiply L (cv_G L) pIL) Q in
               if cv_isInfinity L Ki then Inr None
               else rbind (new_ec_pair L None (Some Ki) None (Some (ep_network (hn_keyPair node)))) (\<lambda>kp. Inr (Some kp))))"

definition finish_child :: "'p key_lib \<Rightarrow> 'p hd_node \<Rightarrow> nat \<Rightarrow> buffer \<Rightarrow> 'p ec_pair \<Rightarrow> 'p hd_node res" where
  "finish_child K node index IR derivedKeyPair =
     rbind (new_hd_node derivedKeyPair IR) (\<lambda>child.
     rbind (getFingerprint K node) (\<lambda>fp.
     rbind (readUInt32BE fp 0) (\<lambda>parentFingerprint.
       Inr (child\<lparr>hn_depth := hn_depth node + 1, hn_index := index, hn_parentFingerprint := parentFingerprint\<rparr>))))"

function derive :: "'p key_lib \<Rightarrow> 'p hd_node \<Rightarrow> nat \<Rightarrow> 'p hd_node res" where
  "derive K node index =
     (if \<not> UInt32 (int index) then Inl (JsTypeError ''Expected UInt32'')
      else case child_data K node index of
        Inl e \<Rightarrow> Inl e
      | Inr data \<Rightarrow>
          let I = kl_hmac512 K (hn_chainCode node) data; IL = slice I 0 32; IR = drop 32 I;
              pIL = from_buffer (kl_ec K) IL in
          (case child_pair (kl_ec K) node pIL of
             Inl e \<Rightarrow> Inl e
           | Inr None \<Rightarrow> derive K node (index + 1)
           | Inr (Some derivedKeyPair) \<Rightarrow> finish_child K node index IR derivedKeyPair))"
  by pat_completeness auto
termination
  by (relation "measure (\<lambda>(_, _, index). 2 ^ 32 - index)") (auto simp: UInt32_iff)

declare derive.simps [simp del]

definition deriveHardened :: "'p key_lib \<Rightarrow> 'p hd_node \<Rightarrow> nat \<Rightarrow> 'p hd_node res" where
  "deriveHardened K node index =
     rbind (typeforce ''UInt31'' (UInt31 (int index))) (\<lambda>_. derive K node (index + nat HD_HIGHEST_BIT))"

section \<open>Nodes that are well formed\<close>

definition node_ok :: "'p key_lib \<Rightarrow> 'p hd_node \<Rightarrow> bool" where
  "node_ok K node \<longleftrightarrow> pair_ok (kl_ec K) (hn_keyPair node) \<and> ep_compressed (hn_keyPair node) \<and> length (hn_chainCode node) = 32 \<and>
     (\<forall>Q. ep_Q (hn_keyPair node) = Some Q \<longrightarrow> (\<exists>a. 0 < a \<and> a < cv_n (kl_ec K) \<and> Q = point (kl_ec K) a))"

lemma new_hd_node_Inr:
  "new_hd_node kp cc = Inr node \<longleftrightarrow> length cc = 32 \<and> ep_compressed kp \<and>
     node = \<lparr>hn_keyPair = kp, hn_chainCode = cc, hn_depth = 0, hn_index = 0, hn_parentFingerprint = 0\<rparr>"
  by (auto simp: new_hd_node_def Buffer256bit_def)

abbreviation public_pair :: "'p \<Rightarrow> network \<Rightarrow> 'p ec_pair" where
  "public_pair Q net \<equiv> \<lparr>ep_d = None, ep_Q = Some Q, ep_compressed = True, ep_network = net\<rparr>"

lemma neutered_private:
  assumes "pair_ok (kl_ec K) (hn_keyPair node)" "ep_d (hn_keyPair node) = Some d" "length (hn_chainCode node) = 32"
  shows "neutered K node = Inr (node\<lparr>hn_keyPair := public_pair (point (kl_ec K) d) (ep_network (hn_keyPair node))\<rparr>)"
proof -
  have "Network (ep_network (hn_keyPair node))" using assms(1) by (simp add: pair_ok_def)
  then show ?thesis
    using private_point [OF assms(1,2)] assms(3)
    by (simp add: neutered_def new_ec_pair_public new_hd_node_def Buffer256bit_def nBuffer_ok)
qed

lemma getPublicKeyBuffer_point:
  "get_Q L kp = Some Q \<Longrightarrow> get_Q L kp' = Some Q \<Longrightarrow> ep_compressed kp = ep_compressed kp' \<Longrightarrow>
     getPublicKeyBuffer L kp = getPublicKeyBuffer L kp'"
  by (simp add: getPublicKeyBuffer_def)

section \<open>Public and private children\<close>

lemma derive_one:
  assumes "index < 2 ^ 32" "child_data K node index = Inr data" "I = kl_hmac512 K (hn_chainCode node) data"
  shows "derive K node index = (case child_pair (kl_ec K) node (from_buffer (kl_ec K) (slice I 0 32)) of
      Inl e \<Rightarrow> Inl e | Inr None \<Rightarrow> derive K node (index + 1) | Inr (Some kp) \<Rightarrow> finish_child K node index (drop 32 I) kp)"
  unfolding assms(3) using assms(1,2) by (subst derive.simps) (simp add: UInt32_iff Let_def)

lemma finish_child_index: "finish_child K node index IR kp = Inr c \<Longrightarrow> hn_index c = index \<and> hn_keyPair c = kp \<and> hn_chainCode c = IR \<and> length IR = 32"
  by (auto simp: finish_child_def new_hd_node_Inr)

text \<open>The child is the one of the index or of a later one.\<close>

lemma derive_found:
  "derive K node i = Inr c \<Longrightarrow> \<exists>j data kp. i \<le> j \<and> j < 2 ^ 32 \<and> child_data K node j = Inr data \<and>
     child_pair (kl_ec K) node (from_buffer (kl_ec K) (slice (kl_hmac512 K (hn_chainCode node) data) 0 32)) = Inr (Some kp) \<and>
     finish_child K node j (drop 32 (kl_hmac512 K (hn_chainCode node) data)) kp = Inr c"
proof (induction K node i rule: derive.induct)
  case (1 K node i)
  have i: "i < 2 ^ 32" using 1(2) by (subst (asm) derive.simps) (auto simp: UInt32_iff split: if_splits)
  moreover obtain data where data: "child_data K node i = Inr data"
    using 1(2) by (subst (asm) derive.simps) (auto split: if_splits sum.splits)
  note step = derive_one [OF i data refl]
  define I where "I = kl_hmac512 K (hn_chainCode node) data"
  obtain r where r: "child_pair (kl_ec K) node (from_buffer (kl_ec K) (slice I 0 32)) = Inr r"
    using 1(2) unfolding step I_def [symmetric] by (cases "child_pair (kl_ec K) node (from_buffer (kl_ec K) (slice I 0 32))") simp_all
  show ?case
  proof (cases r)
    case None
    then have "derive K node (i + 1) = Inr c" using 1(2) r unfolding step I_def [symmetric] by simp
    moreover have "\<not> \<not> UInt32 (int i)" using i by (simp add: UInt32_iff)
    note 1(1) [OF this data refl refl refl refl, folded I_def]
    ultimately obtain j data' kp where "i + 1 \<le> j" and found: "j < 2 ^ 32" "child_data K node j = Inr data'"
      "child_pair (kl_ec K) node (from_buffer (kl_ec K) (slice (kl_hmac512 K (hn_chainCode node) data') 0 32)) = Inr (Some kp)"
      "finish_child K node j (drop 32 (kl_hmac512 K (hn_chainCode node) data')) kp = Inr c"
      using r None by blast
    then have "i \<le> j" by simp
    with found show ?thesis by blast
  next
    case (Some kp)
    then have "finish_child K node i (drop 32 I) kp = Inr c" using 1(2) r unfolding step I_def [symmetric] by simp
    with Some r data i show ?thesis unfolding I_def by blast
  qed
qed

lemma derive_index: "derive K node i = Inr c \<Longrightarrow> i \<le> hn_index c \<and> hn_index c < 2 ^ 32"
  using derive_found [of K node i c] finish_child_index by blast

text \<open>In what follows \<open>pub\<close> is the node without its private key \<open>d\<close>.\<close>

definition public_part :: "'p key_lib \<Rightarrow> 'p hd_node \<Rightarrow> int \<Rightarrow> 'p hd_node" where
  "public_part K node d = node\<lparr>hn_keyPair := public_pair (point (kl_ec K) d) (ep_network (hn_keyPair node))\<rparr>"

lemma public_part_key:
  assumes "pair_ok (kl_ec K) (hn_keyPair node)" "ep_d (hn_keyPair node) = Some d" "ep_compressed (hn_keyPair node)"
  shows "getPublicKeyBuffer (kl_ec K) (hn_keyPair (public_part K node d)) = getPublicKeyBuffer (kl_ec K) (hn_keyPair node)"
  using private_point [OF assms(1,2)] assms(3) by (simp add: getPublicKeyBuffer_def public_part_def get_Q_def)

lemma public_part_data:
  assumes "pair_ok (kl_ec K) (hn_keyPair node)" "ep_d (hn_keyPair node) = Some d" "ep_compressed (hn_keyPair node)" "i < 2 ^ 31"
  shows "child_data K (public_part K node d) i = child_data K node i"
  using public_part_key [OF assms(1-3)] assms(4) by (simp add: child_data_def HD_HIGHEST_BIT_def)

lemma public_part_finish:
  assumes "pair_ok (kl_ec K) (hn_keyPair node)" "ep_d (hn_keyPair node) = Some d" "ep_compressed (hn_keyPair node)"
    and "pair_ok (kl_ec K) kp" "ep_d kp = Some ki" "ep_compressed kp" "ep_network kp = ep_network (hn_keyPair node)"
  shows "finish_child K (public_part K node d) i IR (public_pair (point (kl_ec K) ki) (ep_network (hn_keyPair node))) =
    rbind (finish_child K node i IR kp) (neutered K)"
proof -
  have fp: "getFingerprint K (public_part K node d) = getFingerprint K node"
    using public_part_key [OF assms(1-3)] by (simp add: getFingerprint_def getIdentifier_def)
  have depth: "hn_depth (public_part K node d) = hn_depth node" by (simp add: public_part_def)
  show ?thesis
  proof (cases "length IR = 32")
    case True
    let ?child = "\<lambda>f. \<lparr>hn_keyPair = kp, hn_chainCode = IR, hn_depth = hn_depth node + 1, hn_index = i, hn_parentFingerprint = f\<rparr>"
    have "neutered K (?child f) = Inr ((?child f)\<lparr>hn_keyPair := public_pair (point (kl_ec K) ki) (ep_network (hn_keyPair node))\<rparr>)" for f
      using neutered_private [of K "?child f" ki] assms(4-7) True by simp
    then show ?thesis
      using True assms(6) unfolding finish_child_def fp depth
      by (cases "getFingerprint K node"; cases "readUInt32BE (projr (getFingerprint K node)) 0")
         (simp_all add: new_hd_node_def Buffer256bit_def nBuffer_ok)
  next
    case False
    then obtain e where "Buffer256bit IR = Inl e" by (simp add: Buffer256bit_def nBuffer_def)
    then show ?thesis by (simp add: finish_child_def new_hd_node_def)
  qed
qed

lemma child_pair_cases:
  assumes "curve_ok (kl_ec K)" "pair_ok (kl_ec K) (hn_keyPair node)" "ep_d (hn_keyPair node) = Some d" "0 \<le> v"
  shows "child_pair (kl_ec K) node v = Inr None \<and> child_pair (kl_ec K) (public_part K node d) v = Inr None \<or>
    (\<exists>kp ki. child_pair (kl_ec K) node v = Inr (Some kp) \<and> pair_ok (kl_ec K) kp \<and> ep_d kp = Some ki \<and> ep_compressed kp \<and>
       ep_network kp = ep_network (hn_keyPair node) \<and>
       child_pair (kl_ec K) (public_part K node d) v = Inr (Some (public_pair (point (kl_ec K) ki) (ep_network (hn_keyPair node)))))"
proof (cases "v \<ge> cv_n (kl_ec K)")
  case True
  then show ?thesis by (simp add: child_pair_def)
next
  case False
  define L where "L = kl_ec K"
  have ok: "0 < cv_n L" "group_ok L" using assms(1) by (simp_all add: curve_ok_def n_pos L_def)
  have d: "0 < d" "d < cv_n L" "Network (ep_network (hn_keyPair node))" using assms(2,3) by (simp_all add: pair_ok_def L_def)
  define ki where "ki = (v + d) mod cv_n L"
  have Ki: "cv_add L (point L v) (point L d) = point L (v + d)" "point L ki = point L (v + d)"
    using ok assms(4) d(1) by (simp_all add: point_add point_mod ki_def)
  have inf: "cv_isInfinity L (point L (v + d)) \<longleftrightarrow> ki = 0"
    using infinity [OF ok(2), of "v + d"] assms(4) d(1) by (simp add: ki_def dvd_eq_mod_eq_0)
  have pub: "ep_d (hn_keyPair (public_part K node d)) = None" "get_Q L (hn_keyPair (public_part K node d)) = Some (point L d)"
      "ep_network (hn_keyPair (public_part K node d)) = ep_network (hn_keyPair node)"
    by (simp_all add: public_part_def get_Q_def L_def)
  show ?thesis
  proof (cases "ki = 0")
    case True
    then show ?thesis
      using False assms(3) pub Ki(1) inf by (simp add: child_pair_def flip: L_def) (simp add: ki_def)
  next
    case nz: False
    have "0 \<le> ki" "ki < cv_n L" using ok(1) by (simp_all add: ki_def)
    then have "0 < ki" "ki < cv_n L" using nz by simp_all
    then have new: "new_ec_pair L (Some ki) None None (Some (ep_network (hn_keyPair node))) =
        Inr \<lparr>ep_d = Some ki, ep_Q = None, ep_compressed = True, ep_network = ep_network (hn_keyPair node)\<rparr>"
      using d(3) by (simp add: new_ec_pair_private)
    have "child_pair L node v = Inr (Some \<lparr>ep_d = Some ki, ep_Q = None, ep_compressed = True, ep_network = ep_network (hn_keyPair node)\<rparr>)"
      using False assms(3) nz new by (simp add: child_pair_def Let_def flip: L_def ki_def)
    moreover have "child_pair L (public_part K node d) v = Inr (Some (public_pair (point L ki) (ep_network (hn_keyPair node))))"
      using False pub Ki inf nz d(3) by (simp add: child_pair_def Let_def new_ec_pair_public flip: L_def)
    moreover have "pair_ok L \<lparr>ep_d = Some ki, ep_Q = None, ep_compressed = True, ep_network = ep_network (hn_keyPair node)\<rparr>"
      using \<open>0 < ki\<close> \<open>ki < cv_n L\<close> d(3) by (simp add: pair_ok_def)
    ultimately show ?thesis unfolding L_def by force
  qed
qed

lemma hardened_public:
  assumes "ep_d (hn_keyPair node) = None" "2 ^ 31 \<le> i"
  shows "derive K node i \<noteq> Inr c"
proof -
  have "child_data K node i = Inl (JsTypeError ''Could not derive hardened child key'')"
    using assms by (simp add: child_data_def HD_HIGHEST_BIT_def)
  then show ?thesis by (subst derive.simps) simp
qed

lemma derive_public_part:
  assumes "curve_ok (kl_ec K)" "pair_ok (kl_ec K) (hn_keyPair node)" "ep_d (hn_keyPair node) = Some d" "ep_compressed (hn_keyPair node)"
    and "i \<le> 2 ^ 31"
  shows "derive K (public_part K node d) i = Inr c' \<longleftrightarrow>
    (\<exists>c. derive K node i = Inr c \<and> hn_index c < 2 ^ 31 \<and> neutered K c = Inr c')"
  using assms(5)
proof (induction "2 ^ 31 - i" arbitrary: i)
  case 0
  then have i: "i = 2 ^ 31" by simp
  have "derive K (public_part K node d) i \<noteq> Inr c'" by (rule hardened_public) (simp_all add: public_part_def i)
  moreover have "\<not> hn_index c < 2 ^ 31" if "derive K node i = Inr c" for c using derive_index [OF that] i by simp
  ultimately show ?case by blast
next
  case (Suc k)
  then have i: "i < 2 ^ 31" "i < 2 ^ 32" by simp_all
  have data: "child_data K (public_part K node d) i = child_data K node i" by (rule public_part_data [OF assms(2-4) i(1)])
  show ?case
  proof (cases "child_data K node i")
    case (Inl e)
    then show ?thesis using data by (subst (1 2) derive.simps) simp
  next
    case (Inr b)
    define I where "I = kl_hmac512 K (hn_chainCode node) b"
    define v where "v = from_buffer (kl_ec K) (slice I 0 32)"
    have chain: "hn_chainCode (public_part K node d) = hn_chainCode node" by (simp add: public_part_def)
    note step = derive_one [OF i(2) Inr I_def, folded v_def]
      derive_one [OF i(2) data [unfolded Inr], unfolded chain, OF I_def, folded v_def]
    have "0 \<le> v" using assms(1) by (simp add: v_def curve_ok_def inverse_ok_def)
    from child_pair_cases [OF assms(1-3) this]
    consider "child_pair (kl_ec K) node v = Inr None" "child_pair (kl_ec K) (public_part K node d) v = Inr None"
      | kp ki where "child_pair (kl_ec K) node v = Inr (Some kp)" "pair_ok (kl_ec K) kp" "ep_d kp = Some ki" "ep_compressed kp"
          "ep_network kp = ep_network (hn_keyPair node)"
          "child_pair (kl_ec K) (public_part K node d) v = Inr (Some (public_pair (point (kl_ec K) ki) (ep_network (hn_keyPair node))))"
      by blast
    then show ?thesis
    proof cases
      case 1
      then show ?thesis using Suc.hyps(1) [of "i + 1"] Suc.hyps(2) i(1) unfolding step by simp
    next
      case 2
      show ?thesis
        unfolding step 2(1,6) sum.case option.case public_part_finish [OF assms(2-4) 2(2-5)]
        using i(1) finish_child_index by fastforce
    qed
  qed
qed

section \<open>The 78 bytes\<close>

lemma writeUInt32BE_fill:
  "off = length pre \<Longrightarrow> v < 2 ^ 32 \<Longrightarrow> 4 \<le> length rest \<Longrightarrow>
     writeUInt32BE (pre @ rest) v off = Inr ((pre @ be_bytes 4 v) @ drop 4 rest)"
  using write_at_fill [of "be_bytes 4 v" rest pre] by (simp add: writeUInt32BE_def)

lemma writeUInt8_fill:
  "off = length pre \<Longrightarrow> v < 256 \<Longrightarrow> 1 \<le> length rest \<Longrightarrow> writeUInt8 (pre @ rest) v off = Inr ((pre @ le_bytes 1 v) @ drop 1 rest)"
  using writeLE_fill [of v 1 rest pre] by simp

lemma buf_copy_at:
  "off = length pre \<Longrightarrow> length bs \<le> length rest \<Longrightarrow> buf_copy bs (pre @ rest) off = (pre @ bs) @ drop (length bs) rest"
  using buf_copy_fill [of bs rest pre] by simp

lemma readUInt32BE_at: "off = length pre \<Longrightarrow> v < 2 ^ 32 \<Longrightarrow> readUInt32BE (pre @ be_bytes 4 v @ post) off = Inr v"
  by (simp add: readUInt32BE_def slice_append_at)

definition key_bytes :: "'p key_lib \<Rightarrow> 'p hd_node \<Rightarrow> buffer res" where
  "key_bytes K node = (case ep_d (hn_keyPair node) of
       Some d \<Rightarrow> rbind (bn_toBuffer32 (ec_sig (kl_ec K)) d) (\<lambda>b. Inr (0 # b))
     | None \<Rightarrow> getPublicKeyBuffer (kl_ec K) (hn_keyPair node))"

definition node_header :: "nat \<Rightarrow> 'p hd_node \<Rightarrow> buffer" where
  "node_header version node = be_bytes 4 version @ le_bytes 1 (hn_depth node) @ be_bytes 4 (hn_parentFingerprint node) @
     be_bytes 4 (hn_index node) @ hn_chainCode node"

definition node_writable :: "'p key_lib \<Rightarrow> 'p hd_node \<Rightarrow> bool" where
  "node_writable K node \<longleftrightarrow> node_ok K node \<and> hn_depth node < 256 \<and> hn_index node < 2 ^ 32 \<and> hn_parentFingerprint node < 2 ^ 32 \<and>
     (hn_depth node = 0 \<longrightarrow> hn_index node = 0 \<and> hn_parentFingerprint node = 0) \<and>
     bip32_private (ep_network (hn_keyPair node)) \<noteq> bip32_public (ep_network (hn_keyPair node))"

lemma toBase58_header:
  assumes "version < 2 ^ 32" "hn_depth node < 256" "hn_index node < 2 ^ 32" "hn_parentFingerprint node < 2 ^ 32" "length (hn_chainCode node) = 32"
    and "bip32_private (ep_network (hn_keyPair node)) = version \<and> \<not> isNeutered node \<or>
      bip32_public (ep_network (hn_keyPair node)) = version \<and> isNeutered node"
    and "key_bytes K node = Inr key" "length key = 33"
  shows "toBase58 K node = Inr (kl_b58_encode K (node_header version node @ key))"
proof -
  have v: "(if \<not> isNeutered node then bip32_private (ep_network (hn_keyPair node)) else bip32_public (ep_network (hn_keyPair node))) = version"
    using assms(6) by auto
  define h1 h2 h3 h4 where "h1 = be_bytes 4 version" and "h2 = h1 @ le_bytes 1 (hn_depth node)"
    and "h3 = h2 @ be_bytes 4 (hn_parentFingerprint node)" and "h4 = h3 @ be_bytes 4 (hn_index node)"
  have len: "length h1 = 4" "length h2 = 5" "length h3 = 9" "length h4 = 13" by (simp_all add: h1_def h2_def h3_def h4_def)
  have head: "node_header version node = h4 @ hn_chainCode node" by (simp add: node_header_def h1_def h2_def h3_def h4_def)
  have w1: "writeUInt32BE (new_buffer 78) version 0 = Inr (h1 @ new_buffer 74)"
    using writeUInt32BE_fill [of 0 "[]" version "new_buffer 78"] assms(1) by (simp add: h1_def new_buffer_def)
  have w2: "writeUInt8 (h1 @ new_buffer 74) (hn_depth node) 4 = Inr (h2 @ new_buffer 73)"
    using writeUInt8_fill [of 4 h1 "hn_depth node" "new_buffer 74"] assms(2) len by (simp add: h2_def new_buffer_def del: le_bytes.simps)
  have w3: "writeUInt32BE (h2 @ new_buffer 73) (hn_parentFingerprint node) 5 = Inr (h3 @ new_buffer 69)"
    using writeUInt32BE_fill [of 5 h2 "hn_parentFingerprint node" "new_buffer 73"] assms(4) len by (simp add: h3_def new_buffer_def)
  have w4: "writeUInt32BE (h3 @ new_buffer 69) (hn_index node) 9 = Inr (h4 @ new_buffer 65)"
    using writeUInt32BE_fill [of 9 h3 "hn_index node" "new_buffer 69"] assms(3) len by (simp add: h4_def new_buffer_def)
  have w5: "buf_copy (hn_chainCode node) (h4 @ new_buffer 65) 13 = node_header version node @ new_buffer 33"
    using buf_copy_at [of 13 h4 "hn_chainCode node" "new_buffer 65"] assms(5) len by (simp add: head new_buffer_def)
  have hl: "length (node_header version node) = 45" using len assms(5) by (simp add: head)
  have w6: "(case ep_d (hn_keyPair node) of
          Some d \<Rightarrow>
            rbind (writeUInt8 (node_header version node @ new_buffer 33) 0 45) (\<lambda>buf.
            rbind (bn_toBuffer32 (ec_sig (kl_ec K)) d) (\<lambda>b. Inr (buf_copy b buf 46)))
        | None \<Rightarrow>
            rbind (getPublicKeyBuffer (kl_ec K) (hn_keyPair node)) (\<lambda>b. Inr (buf_copy b (node_header version node @ new_buffer 33) 45))) =
      Inr (node_header version node @ key)"
  proof (cases "ep_d (hn_keyPair node)")
    case None
    then have pub: "getPublicKeyBuffer (kl_ec K) (hn_keyPair node) = Inr key" using assms(7) by (simp add: key_bytes_def)
    have "buf_copy key (node_header version node @ new_buffer 33) 45 = node_header version node @ key"
      using buf_copy_at [of 45 "node_header version node" key "new_buffer 33"] assms(8) hl by (simp add: new_buffer_def)
    then show ?thesis using None pub by simp
  next
    case (Some d)
    then obtain b where b: "bn_toBuffer32 (ec_sig (kl_ec K)) d = Inr b" "key = 0 # b" using assms(7) by (auto simp: key_bytes_def)
    have "writeUInt8 (node_header version node @ new_buffer 33) 0 45 = Inr ((node_header version node @ [0]) @ new_buffer 32)"
      using writeUInt8_fill [of 45 "node_header version node" 0 "new_buffer 33"] hl by (simp add: new_buffer_def)
    moreover have "buf_copy b ((node_header version node @ [0]) @ new_buffer 32) 46 = node_header version node @ key"
      using buf_copy_at [of 46 "node_header version node @ [0]" b "new_buffer 32"] assms(8) hl b(2) by (simp add: new_buffer_def)
    ultimately show ?thesis using Some b(1) by simp
  qed
  show ?thesis
    unfolding toBase58_def Let_def v w1 rbind_simps w2 w3 w4 w5 w6 ..
qed

lemma header_read:
  assumes "version < 2 ^ 32" "hn_depth node < 256" "hn_index node < 2 ^ 32" "hn_parentFingerprint node < 2 ^ 32" "length (hn_chainCode node) = 32"
    and "length key = 33"
  defines "buf \<equiv> node_header version node @ key"
  shows "length buf = 78" "readUInt32BE buf 0 = Inr version" "unat (buf ! 4) = hn_depth node"
    "readUInt32BE buf 5 = Inr (hn_parentFingerprint node)" "readUInt32BE buf 9 = Inr (hn_index node)" "slice buf 13 45 = hn_chainCode node"
    "slice buf 45 78 = key" "slice buf 46 78 = drop 1 key" "readUInt8 buf 45 = Inr (unat (key ! 0))"
proof -
  let ?d = "le_bytes 1 (hn_depth node)" and ?f = "be_bytes 4 (hn_parentFingerprint node)" and ?i = "be_bytes 4 (hn_index node)"
  have len: "length (node_header version node) = 45" using assms(5) by (simp add: node_header_def)
  then show "length buf = 78" using assms(6) by (simp add: buf_def)
  show "readUInt32BE buf 0 = Inr version"
    using readUInt32BE_at [of 0 "[]" version] assms(1) by (simp add: buf_def node_header_def)
  have "buf ! 4 = word_of_nat (hn_depth node)" using assms(2) by (simp add: buf_def node_header_def nth_append)
  then show "unat (buf ! 4) = hn_depth node" using assms(2) by simp
  show "readUInt32BE buf 5 = Inr (hn_parentFingerprint node)"
    using readUInt32BE_at [of 5 "be_bytes 4 version @ ?d"] assms(4) by (simp add: buf_def node_header_def del: le_bytes.simps)
  show "readUInt32BE buf 9 = Inr (hn_index node)"
    using readUInt32BE_at [of 9 "be_bytes 4 version @ ?d @ ?f"] assms(3) by (simp add: buf_def node_header_def del: le_bytes.simps)
  show "slice buf 13 45 = hn_chainCode node"
    using slice_append_at [of 13 "be_bytes 4 version @ ?d @ ?f @ ?i" 45 "hn_chainCode node" key] assms(5)
    by (simp add: buf_def node_header_def del: le_bytes.simps)
  show "slice buf 45 78 = key" "slice buf 46 78 = drop 1 key"
    using len assms(6) by (simp_all add: buf_def slice_def)
  show "readUInt8 buf 45 = Inr (unat (key ! 0))"
    using readUInt8_nth [of 45 buf] len assms(6) by (simp add: buf_def nth_append)
qed

lemma public_key_bytes:
  assumes "curve_ok (kl_ec K)" "node_ok K node" "ep_d (hn_keyPair node) = None"
  obtains Q key where "ep_Q (hn_keyPair node) = Some Q" "key_bytes K node = Inr key" "length key = 33"
    "cv_decodeFrom (kl_ec K) key = Inr (Q, True)" "cv_validate (kl_ec K) Q = Inr ()"
proof -
  obtain Q a where Q: "ep_Q (hn_keyPair node) = Some Q" "0 < a" "a < cv_n (kl_ec K)" "Q = point (kl_ec K) a"
    using assms(2,3) by (auto simp: node_ok_def pair_ok_def)
  have "coordinates_ok (kl_ec K)" using assms(1) by (simp add: curve_ok_def)
  then show ?thesis
    using that [of Q "cv_getEncoded (kl_ec K) Q True"] Q assms(2,3)
    by (simp add: coordinates_ok_def key_bytes_def getPublicKeyBuffer_def get_Q_def node_ok_def)
qed

lemma private_key_bytes_node:
  assumes "curve_ok (kl_ec K)" "sig_lib_ok (ec_sig (kl_ec K))" "node_ok K node" "ep_d (hn_keyPair node) = Some d"
  obtains b where "key_bytes K node = Inr (0 # b)" "length b = 32" "from_buffer (kl_ec K) b = d"
proof -
  have "0 < d" "d < cv_n (kl_ec K)" "inverse_ok (kl_ec K)" using assms(1,3,4) by (simp_all add: node_ok_def pair_ok_def curve_ok_def)
  then obtain b where "bn_toBuffer32 (ec_sig (kl_ec K)) d = Inr b" "length b = 32" "from_buffer (kl_ec K) b = d"
    using private_key_bytes [OF assms(2)] by blast
  then show ?thesis using that [of b] assms(4) by (simp add: key_bytes_def)
qed

lemma extended_key_read:
  assumes "curve_ok (kl_ec K)" "sig_lib_ok (ec_sig (kl_ec K))" "\<And>p. kl_b58_decode K (kl_b58_encode K p) = Inr p" "node_writable K node"
    and "version = (if isNeutered node then bip32_public (ep_network (hn_keyPair node)) else bip32_private (ep_network (hn_keyPair node)))"
    and "base58_network version nets = Some (ep_network (hn_keyPair node))"
  shows "\<exists>s. toBase58 K node = Inr s \<and> fromBase58 K s nets = Inr node"
proof -
  let ?net = "ep_network (hn_keyPair node)" and ?kp = "hn_keyPair node"
  have ok: "node_ok K node" "hn_depth node < 256" "hn_index node < 2 ^ 32" "hn_parentFingerprint node < 2 ^ 32"
      "bip32_private ?net \<noteq> bip32_public ?net" "hn_depth node = 0 \<Longrightarrow> hn_index node = 0 \<and> hn_parentFingerprint node = 0"
    using assms(4) by (simp_all add: node_writable_def)
  have node: "Network ?net" "ep_compressed ?kp" "length (hn_chainCode node) = 32" "pair_ok (kl_ec K) ?kp"
    using ok(1) by (simp_all add: node_ok_def pair_ok_def)
  have version: "version < 2 ^ 32" using node(1) assms(5) by (simp add: Network_def UInt32_iff)
  have finish: "rbind (new_hd_node ?kp (hn_chainCode node)) (\<lambda>n. Inr (n\<lparr>hn_depth := hn_depth node, hn_index := hn_index node,
      hn_parentFingerprint := hn_parentFingerprint node\<rparr>)) = Inr node"
    using node by (simp add: new_hd_node_def Buffer256bit_def nBuffer_ok)
  obtain key where key: "key_bytes K node = Inr key" "length key = 33"
    and read: "(if version = bip32_private ?net then
        if unat (key ! 0) \<noteq> 0x00 then Inl (JsError ''Invalid private key'')
        else new_ec_pair (kl_ec K) (Some (from_buffer (kl_ec K) (drop 1 key))) None None (Some ?net)
      else rbind (cv_decodeFrom (kl_ec K) key) (\<lambda>(Q, compressed).
        if \<not> compressed then Inl (JsError ''Invalid public key'')
        else rbind (cv_validate (kl_ec K) Q) (\<lambda>_. new_ec_pair (kl_ec K) None (Some Q) None (Some ?net)))) = Inr ?kp"
  proof (cases "ep_d ?kp")
    case None
    obtain Q key where k: "ep_Q ?kp = Some Q" "key_bytes K node = Inr key" "length key = 33"
        "cv_decodeFrom (kl_ec K) key = Inr (Q, True)" "cv_validate (kl_ec K) Q = Inr ()"
      by (rule public_key_bytes [OF assms(1) ok(1) None])
    have kp: "?kp = public_pair Q ?net" using k(1) None node(2) by simp
    have "new_ec_pair (kl_ec K) None (Some Q) None (Some ?net) = Inr ?kp"
      by (simp only: new_ec_pair_public [OF node(1)] option.case kp [symmetric])
    then show ?thesis using that [of key] k None assms(5) ok(5) by (simp add: isNeutered_def)
  next
    case (Some d)
    obtain b where b: "key_bytes K node = Inr (0 # b)" "length b = 32" "from_buffer (kl_ec K) b = d"
      by (rule private_key_bytes_node [OF assms(1,2) ok(1) Some])
    have d: "0 < d" "d < cv_n (kl_ec K)" using node(4) Some by (simp_all add: pair_ok_def)
    have kp: "?kp = \<lparr>ep_d = Some d, ep_Q = None, ep_compressed = True, ep_network = ?net\<rparr>"
      using pair_ok_eqI [OF node(4) Some] node(2) by (cases ?kp) simp
    have "new_ec_pair (kl_ec K) (Some d) None None (Some ?net) = Inr ?kp"
      by (simp only: new_ec_pair_private [OF d node(1)] option.case kp [symmetric])
    then show ?thesis using that [of "0 # b"] b Some assms(5) by (simp add: isNeutered_def)
  qed
  note r = header_read [OF version ok(2-4) node(3) key(2)]
  have "toBase58 K node = Inr (kl_b58_encode K (node_header version node @ key))"
    using toBase58_header [OF version ok(2-4) node(3) _ key] assms(5) by simp
  moreover have "fromBase58 K (kl_b58_encode K (node_header version node @ key)) nets = Inr node"
  proof -
    have v: "\<not> (version \<noteq> bip32_private ?net \<and> version \<noteq> bip32_public ?net)" using assms(5) by simp
    have z: "\<not> (hn_depth node = 0 \<and> hn_parentFingerprint node \<noteq> 0)" by (metis ok(6))
    have z': "\<not> (hn_depth node = 0 \<and> hn_index node \<noteq> 0)" by (metis ok(6))
    have "base58_pair (kl_ec K) version ?net (node_header version node @ key) = Inr ?kp"
      using read by (simp only: base58_pair_def r rbind_simps Let_def)
    then show ?thesis
      using v z z' by (simp add: fromBase58_def assms(3,6) r Let_def finish del: rbind_Inr_iff length_append)
  qed
  ultimately show ?thesis by blast
qed

section \<open>Properties\<close>

text \<open>A private node over the sample packages.\<close>

definition sample_node :: "int hd_node" where
  "sample_node = \<lparr>hn_keyPair = sample_pair, hn_chainCode = replicate 32 5, hn_depth = 1, hn_index = 7, hn_parentFingerprint = 9\<rparr>"

lemma sample_node_writable: "node_writable sample_keys sample_node"
  using sample_pair_ok
  by (simp add: node_writable_def node_ok_def sample_node_def sample_keys_def) (simp add: sample_pair_def bitcoin_network_def)

lemma sample_keys_lib: "curve_ok (kl_ec sample_keys)" "sig_lib_ok (ec_sig (kl_ec sample_keys))"
  using sample_ec_ok sample_lib_ok by (simp_all add: sample_keys_def sample_sig_lib)

text \<open>C9: public derivation commutes with neutering: the child of the neutered node at a normal index is
  the neutered child of the private node, the skipped indices included. The only difference is at the end
  of the range: where the private node would go on to a hardened child, the public node throws.\<close>

theorem neutered_children_commute:
  assumes "curve_ok (kl_ec K)" "node_ok K node" "ep_d (hn_keyPair node) = Some d" "i < 2 ^ 31"
  shows "\<exists>pub. neutered K node = Inr pub \<and>
    (\<forall>c'. derive K pub i = Inr c' \<longleftrightarrow> (\<exists>c. derive K node i = Inr c \<and> hn_index c < 2 ^ 31 \<and> neutered K c = Inr c'))"
proof -
  have ok: "pair_ok (kl_ec K) (hn_keyPair node)" "ep_compressed (hn_keyPair node)" "length (hn_chainCode node) = 32"
    using assms(2) by (simp_all add: node_ok_def)
  have "neutered K node = Inr (public_part K node d)" unfolding public_part_def by (rule neutered_private [OF ok(1) assms(3) ok(3)])
  then show ?thesis using derive_public_part [OF assms(1) ok(1) assms(3) ok(2)] assms(4) by simp
qed

theorem neutered_children_commute_witness:
  "\<exists>pub. neutered sample_keys sample_node = Inr pub \<and> (\<forall>c'. derive sample_keys pub 3 = Inr c' \<longleftrightarrow>
    (\<exists>c. derive sample_keys sample_node 3 = Inr c \<and> hn_index c < 2 ^ 31 \<and> neutered sample_keys c = Inr c'))"
  using neutered_children_commute [of sample_keys sample_node 3 3] sample_keys_lib sample_node_writable
  by (simp add: node_writable_def) (simp add: sample_node_def sample_pair_def)

text \<open>C10: a node that is written with \<open>toBase58\<close> is read back by \<open>fromBase58\<close> as the same node, private
  or neutered, if the version bytes select its network among the networks given.\<close>

theorem extended_key_roundtrip:
  assumes "curve_ok (kl_ec K)" "sig_lib_ok (ec_sig (kl_ec K))" "\<And>p. kl_b58_decode K (kl_b58_encode K p) = Inr p" "node_writable K node"
    and "base58_network (if isNeutered node then bip32_public (ep_network (hn_keyPair node)) else bip32_private (ep_network (hn_keyPair node))) nets =
      Some (ep_network (hn_keyPair node))"
  shows "\<exists>s. toBase58 K node = Inr s \<and> fromBase58 K s nets = Inr node"
  by (rule extended_key_read [OF assms(1-4) refl assms(5)])

theorem extended_key_roundtrip_witness:
  "\<exists>s. toBase58 sample_keys sample_node = Inr s \<and> fromBase58 sample_keys s (Networks [testnet_network, bitcoin_network]) = Inr sample_node"
  using extended_key_roundtrip [of sample_keys sample_node "Networks [testnet_network, bitcoin_network]"] sample_keys_lib sample_node_writable
  by (simp add: sample_keys_def plain_inverse)
    (simp add: sample_node_def sample_pair_def isNeutered_def base58_network_def pop_network_def bitcoin_network_def testnet_network_def)

end
