(* ===== verification/Hd_Path.thy ===== *)
theory Hd_Path
  imports Hd_Node Sdk_Keys
begin

text \<open>
  \<open>HDNode.prototype.derivePath\<close> of \<open>bitcoinjs-lib/src/hdnode.js\<close>, and its agreement with
  \<open>Wallet.deriveByPath\<close> of the SDK when the hierarchical keys the SDK is given are these nodes.
\<close>

section \<open>Paths\<close>

text \<open>\<open>types.Bip32Path\<close> matches \<open>(m/)?\<close>, then digits with an optional quote between slashes.\<close>

definition bip32_step :: "string \<Rightarrow> bool" where
  "bip32_step s = (let ds = (if s \<noteq> [] \<and> last s = quote then butlast s else s) in ds \<noteq> [] \<and> list_all dec_digit ds)"

definition Bip32Path :: "string \<Rightarrow> bool" where
  "Bip32Path s = list_all bip32_step
     (case split_on (CHR ''/'') s of
        s1 # s2 # ss \<Rightarrow> if s1 = ''m'' then s2 # ss else s1 # s2 # ss
      | ss \<Rightarrow> ss)"

text \<open>An index that is not finite, or negative, is no \<open>UInt32\<close>.\<close>

definition path_step :: "'p key_lib \<Rightarrow> string \<Rightarrow> 'p hd_node \<Rightarrow> 'p hd_node res" where
  "path_step K indexStr prevHd =
     (if indexStr \<noteq> [] \<and> last indexStr = quote
      then (case parseInt10 (butlast indexStr) of
          Some index \<Rightarrow> rbind (typeforce ''UInt31'' (index \<ge> 0)) (\<lambda>_. deriveHardened K prevHd (nat index))
        | None \<Rightarrow> Inl (JsTypeError ''Expected UInt31''))
      else (case parseInt10 indexStr of
          Some index \<Rightarrow> rbind (typeforce ''UInt32'' (index \<ge> 0)) (\<lambda>_. derive K prevHd (nat index))
        | None \<Rightarrow> Inl (JsTypeError ''Expected UInt32'')))"

definition derivePath :: "'p key_lib \<Rightarrow> 'p hd_node \<Rightarrow> string \<Rightarrow> 'p hd_node res" where
  "derivePath K node path =
     rbind (typeforce ''Bip32Path'' (Bip32Path path)) (\<lambda>_.
       let splitPath = split_on (CHR ''/'') path in
       if hd splitPath = ''m'' then
         if hn_parentFingerprint node \<noteq> 0 then Inl (JsError ''Not a master node'')
         else rfold (path_step K) (tl splitPath) node
       else rfold (path_step K) splitPath node)"

section \<open>The nodes as keys of the SDK\<close>

definition node_lib :: "'p key_lib \<Rightarrow> ('p hd_node) hd_lib" where
  "node_lib K = \<lparr>
     hd_private = (\<lambda>node. \<not> isNeutered node),
     hd_derive = (\<lambda>node index. case index of
         Some i \<Rightarrow> if i \<ge> 0 then map_sum Js id (derive K node (nat i)) else Inl (Js (JsTypeError ''Expected UInt32''))
       | None \<Rightarrow> Inl (Js (JsTypeError ''Expected UInt32''))),
     hd_neutered = (\<lambda>node. case neutered K node of Inr n \<Rightarrow> n | Inl _ \<Rightarrow> node)\<rparr>"

text \<open>The children along a list of steps.\<close>

definition derive_all :: "'p key_lib \<Rightarrow> (bool \<times> nat) list \<Rightarrow> 'p hd_node \<Rightarrow> 'p hd_node res" where
  "derive_all K = rfold (\<lambda>s node. derive K node (nat (step_index s)))"

section \<open>Laws\<close>

lemma step_text_cases:
  "(h \<longrightarrow> last (step_text (h, n)) = quote \<and> butlast (step_text (h, n)) = dec_string n) \<and>
   (\<not> h \<longrightarrow> last (dec_string n) \<noteq> quote \<and> step_text (h, n) = dec_string n)"
proof -
  have "list_all dec_digit (dec_string n)" "dec_string n \<noteq> []" using dec_string_digits by blast+
  then have "dec_digit (last (dec_string n))" by (simp add: list_all_iff)
  then show ?thesis using dec_digit_plain by (auto simp: step_text_def)
qed

lemma step_is_bip32: "bip32_step (step_text s)"
proof -
  obtain h n where "s = (h, n)" by (cases s)
  then show ?thesis
    using step_text_cases [of h n] dec_string_digits [of n] step_text_no_slash [of s] by (cases h) (simp_all add: bip32_step_def Let_def)
qed

text \<open>The indices a step may have: below \<open>2^31\<close> if it is hardened, below \<open>2^32\<close> if not.\<close>

definition step_ok :: "bool \<times> nat \<Rightarrow> bool" where
  "step_ok = (\<lambda>(h, n). n < (if h then 2 ^ 31 else 2 ^ 32))"

lemma path_step_text:
  assumes "n < 2 ^ 52"
  shows "path_step K (step_text (h, n)) node =
    (if h \<and> \<not> n < 2 ^ 31 then Inl (JsTypeError ''Expected UInt31'') else derive K node (nat (step_index (h, n))))"
  using assms step_text_cases [of h n] step_text_no_slash [of "(h, n)"]
  by (cases h) (simp_all add: path_step_def parseInt10_dec_string deriveHardened_def UInt31_iff typeforce_def step_index_def
      HD_HIGHEST_BIT_def nat_add_distrib)

lemma derive_bad_step: "\<not> step_ok s \<Longrightarrow> derive K node (nat (step_index s)) = Inl (JsTypeError ''Expected UInt32'')"
  by (subst derive.simps) (auto simp: step_ok_def step_index_def UInt32_iff split: prod.splits if_splits)

text \<open>Two outcomes are alike if both are errors or both the same result.\<close>

fun alike :: "'e + 'a \<Rightarrow> 'f + 'a \<Rightarrow> bool" where
  "alike (Inr a) (Inr b) = (a = b)"
| "alike (Inl d) (Inl e) = True"
| "alike _ _ = False"

lemma path_steps_text:
  assumes "list_all (\<lambda>(h, n). n < 2 ^ 52) ss"
  shows "alike (rfold (path_step K) (map step_text ss) node) (derive_all K ss node)"
    and "list_all step_ok ss \<Longrightarrow> rfold (path_step K) (map step_text ss) node = derive_all K ss node"
proof -
  have "alike (rfold (path_step K) (map step_text ss) node) (derive_all K ss node) \<and>
      (list_all step_ok ss \<longrightarrow> rfold (path_step K) (map step_text ss) node = derive_all K ss node)"
    using assms
  proof (induction ss arbitrary: node)
    case (Cons s ss)
    obtain h n where s: "s = (h, n)" by (cases s)
    have step: "path_step K (step_text s) node =
        (if h \<and> \<not> n < 2 ^ 31 then Inl (JsTypeError ''Expected UInt31'') else derive K node (nat (step_index s)))"
      unfolding s using Cons.prems by (intro path_step_text) (simp add: s)
    show ?case
    proof (cases "h \<and> \<not> n < 2 ^ 31")
      case True
      then have "\<not> step_ok s" by (simp add: s step_ok_def)
      then show ?thesis using step True derive_bad_step [of s K node] by (simp add: derive_all_def)
    next
      case False
      then have "path_step K (step_text s) node = derive K node (nat (step_index s))" using step by (simp only: if_False)
      then show ?thesis using Cons by (cases "derive K node (nat (step_index s))") (simp_all add: derive_all_def)
    qed
  qed (simp add: derive_all_def)
  then show "alike (rfold (path_step K) (map step_text ss) node) (derive_all K ss node)"
    "list_all step_ok ss \<Longrightarrow> rfold (path_step K) (map step_text ss) node = derive_all K ss node" by blast+
qed

lemma node_lib_steps:
  "rfold (\<lambda>s k. hd_derive (node_lib K) k (Some (step_index s))) ss node = map_sum Js id (derive_all K ss node)"
proof (induction ss arbitrary: node)
  case (Cons s ss)
  obtain h n where s: "s = (h, n)" by (cases s)
  have step: "hd_derive (node_lib K) node (Some (step_index s)) = map_sum Js id (derive K node (nat (step_index s)))"
    by (simp add: node_lib_def step_index_def s)
  show ?case
  proof (cases "derive K node (nat (step_index s))")
    case (Inl e)
    then show ?thesis by (simp add: step derive_all_def)
  next
    case (Inr child)
    from Cons.IH [of child] Inr show ?thesis by (simp add: step derive_all_def)
  qed
qed (simp add: derive_all_def)

lemma derivePath_splits:
  assumes "ss \<noteq> []"
  shows "derivePath K node (tl (steps_text ss)) = rfold (path_step K) (map step_text ss) node"
    and "derivePath K node (CHR ''m'' # steps_text ss) =
      (if hn_parentFingerprint node \<noteq> 0 then Inl (JsError ''Not a master node'')
       else rfold (path_step K) (map step_text ss) node)"
proof -
  obtain s ss' where ss: "ss = s # ss'" using assms by (cases ss) simp_all
  have split: "split_on (CHR ''/'') (tl (steps_text ss)) = map step_text ss" using split_steps by (simp only: ss)
  have "CHR ''m'' # steps_text ss = [CHR ''m''] @ CHR ''/'' # tl (steps_text ss)" by (simp add: ss)
  then have splitm: "split_on (CHR ''/'') (CHR ''m'' # steps_text ss) = ''m'' # map step_text ss"
    using split_on_cons [of "CHR ''/''" "''m''" "tl (steps_text ss)"] by (simp only: split) simp
  have "bip32_step ''m'' = False" by (simp add: bip32_step_def dec_digit_def)
  then have nm: "step_text t \<noteq> ''m''" for t using step_is_bip32 [of t] by auto
  have all: "list_all bip32_step (map step_text ts)" for ts using step_is_bip32 by (simp add: list_all_iff)
  have "Bip32Path (tl (steps_text ss))"
    unfolding Bip32Path_def split using all [of ss] nm [of s] by (cases ss') (simp_all add: ss)
  then show "derivePath K node (tl (steps_text ss)) = rfold (path_step K) (map step_text ss) node"
    unfolding derivePath_def split using nm [of s] by (simp add: typeforce_def) (simp add: ss)
  have "Bip32Path (CHR ''m'' # steps_text ss)" unfolding Bip32Path_def splitm using all [of ss] by (simp add: ss)
  then show "derivePath K node (CHR ''m'' # steps_text ss) =
      (if hn_parentFingerprint node \<noteq> 0 then Inl (JsError ''Not a master node'')
       else rfold (path_step K) (map step_text ss) node)"
    unfolding derivePath_def splitm by (simp add: typeforce_def)
qed

lemma derivePath_steps:
  assumes "ss \<noteq> []" "list_all (\<lambda>(h, n). n < 2 ^ 31) ss"
  shows "derivePath K node (tl (steps_text ss)) = derive_all K ss node"
proof -
  have "list_all (\<lambda>(h, n). n < 2 ^ 52) ss" "list_all step_ok ss" using assms(2) by (auto simp: list_all_iff step_ok_def)
  then show ?thesis using path_steps_text(2) [of ss K node] derivePath_splits(1) [OF assms(1), of K node] by simp
qed

lemma deriveByPath_nodes:
  assumes "ss \<noteq> []" "list_all (\<lambda>(h, n). n < 2 ^ 52) ss"
  shows "\<not> isNeutered node \<Longrightarrow> deriveByPath (node_lib K) node (CHR ''m'' # steps_text ss) None = map_sum Js id (derive_all K ss node)"
    and "\<not> isNeutered node \<Longrightarrow> deriveByPath (node_lib K) node (CHR ''M'' # steps_text ss) None =
      map_sum Js (hd_neutered (node_lib K)) (derive_all K ss node)"
    and "isNeutered node \<Longrightarrow> deriveByPath (node_lib K) node (CHR ''M'' # steps_text ss) None = map_sum Js id (derive_all K ss node)"
    and "isNeutered node \<Longrightarrow> deriveByPath (node_lib K) node (CHR ''m'' # steps_text ss) None =
      Inl (KeyPathError ''Wallet.deriveByPath can't derive private path from public parent.'')"
proof -
  have root: "deriveByPath (node_lib K) node p None = deriveByPath (node_lib K) node p (Some (if isNeutered node then ''M'' else ''m''))" for p
    by (simp add: deriveByPath_def node_lib_def)
  note f = derive_follows [of _ _ ss "node_lib K" node "[]", unfolded node_lib_steps, OF _ _ _ assms]
  show "\<not> isNeutered node \<Longrightarrow> deriveByPath (node_lib K) node (CHR ''m'' # steps_text ss) None = map_sum Js id (derive_all K ss node)"
    unfolding root using f [of "CHR ''m''" "CHR ''m''"] by (cases "derive_all K ss node") (simp_all add: lower_def)
  show "\<not> isNeutered node \<Longrightarrow> deriveByPath (node_lib K) node (CHR ''M'' # steps_text ss) None =
      map_sum Js (hd_neutered (node_lib K)) (derive_all K ss node)"
    unfolding root using f [of "CHR ''m''" "CHR ''M''"] by (cases "derive_all K ss node") (simp_all add: lower_def char_of_eq_iff)
  show "isNeutered node \<Longrightarrow> deriveByPath (node_lib K) node (CHR ''M'' # steps_text ss) None = map_sum Js id (derive_all K ss node)"
    unfolding root using f [of "CHR ''M''" "CHR ''M''"] by (cases "derive_all K ss node") (simp_all add: lower_def char_of_eq_iff)
  show "isNeutered node \<Longrightarrow> deriveByPath (node_lib K) node (CHR ''m'' # steps_text ss) None =
      Inl (KeyPathError ''Wallet.deriveByPath can't derive private path from public parent.'')"
    unfolding root by (simp add: deriveByPath_def lower_def char_of_eq_iff)
qed

text \<open>A private node stays one along its children, and so the neutered node derives what it derives.\<close>

definition private_node :: "'p key_lib \<Rightarrow> 'p hd_node \<Rightarrow> bool" where
  "private_node K node \<longleftrightarrow> node_ok K node \<and> \<not> isNeutered node"

lemma private_nodeE:
  assumes "private_node K node"
  obtains d where "pair_ok (kl_ec K) (hn_keyPair node)" "ep_d (hn_keyPair node) = Some d" "ep_compressed (hn_keyPair node)"
    "length (hn_chainCode node) = 32" "neutered K node = Inr (public_part K node d)"
proof -
  obtain d where "ep_d (hn_keyPair node) = Some d" using assms by (auto simp: private_node_def isNeutered_def)
  with that [OF _ this] neutered_private [of K node d] assms show ?thesis
    by (simp add: private_node_def node_ok_def public_part_def)
qed

lemma derive_private_node:
  assumes "curve_ok (kl_ec K)" "private_node K node" "derive K node i = Inr c"
  shows "private_node K c"
proof -
  obtain d where node: "pair_ok (kl_ec K) (hn_keyPair node)" "ep_d (hn_keyPair node) = Some d"
    by (rule private_nodeE [OF assms(2)])
  obtain j v IR kp where kp: "child_pair (kl_ec K) node v = Inr (Some kp)" "finish_child K node j IR kp = Inr c" "0 \<le> v"
    using derive_found [OF assms(3)] assms(1) by (auto simp: curve_ok_def inverse_ok_def)
  obtain ki where "pair_ok (kl_ec K) kp" "ep_d kp = Some ki" "ep_compressed kp"
    using child_pair_cases [OF assms(1) node kp(3)] kp(1) by auto
  then show ?thesis
    using finish_child_index [OF kp(2)] by (auto simp: private_node_def node_ok_def isNeutered_def pair_ok_def)
qed

lemma derive_all_neutered:
  assumes "curve_ok (kl_ec K)" "private_node K node" "neutered K node = Inr pub" "list_all (\<lambda>(h, n). n < 2 ^ 31 \<and> \<not> h) ss"
    and "derive_all K ss pub = Inr c'"
  shows "\<exists>c. derive_all K ss node = Inr c \<and> neutered K c = Inr c' \<and> private_node K c"
  using assms(2-)
proof (induction ss arbitrary: node pub)
  case Nil
  then show ?case by (simp add: derive_all_def)
next
  case (Cons s ss)
  obtain n where s: "s = (False, n)" "n < 2 ^ 31" using Cons.prems(3) by (cases s) auto
  obtain pub1 where pub1: "derive K pub n = Inr pub1" "derive_all K ss pub1 = Inr c'"
    using Cons.prems(4) by (auto simp: derive_all_def s step_index_def)
  obtain d where node: "pair_ok (kl_ec K) (hn_keyPair node)" "ep_d (hn_keyPair node) = Some d" "ep_compressed (hn_keyPair node)"
      "neutered K node = Inr (public_part K node d)"
    by (rule private_nodeE [OF Cons.prems(1)])
  then have "pub = public_part K node d" using Cons.prems(2) by simp
  then obtain c1 where c1: "derive K node n = Inr c1" "neutered K c1 = Inr pub1"
    using derive_public_part [OF assms(1) node(1-3)] pub1(1) s(2) by force
  have "list_all (\<lambda>(h, n). n < 2 ^ 31 \<and> \<not> h) ss" using Cons.prems(3) by simp
  from Cons.IH [OF derive_private_node [OF assms(1) Cons.prems(1) c1(1)] c1(2) this pub1(2)] c1(1)
  show ?case by (simp add: derive_all_def s step_index_def)
qed

lemma neutered_address: "private_node K c \<Longrightarrow> neutered K c = Inr c' \<Longrightarrow> hd_getAddress K c' = hd_getAddress K c"
proof -
  assume c: "private_node K c" "neutered K c = Inr c'"
  obtain d where "pair_ok (kl_ec K) (hn_keyPair c)" "ep_d (hn_keyPair c) = Some d" "ep_compressed (hn_keyPair c)" "c' = public_part K c d"
    by (rule private_nodeE [OF c(1)]) (use c(2) in simp)
  then show ?thesis
    using public_part_key [of K c d] by (simp add: hd_getAddress_def getAddress_def) (simp add: public_part_def)
qed

section \<open>Properties\<close>

text \<open>C13: \<open>derivePath\<close> and the \<open>deriveByPath\<close> of the SDK agree on the paths below a master node whose
  indices are written in decimal and are below \<open>2^52\<close>. They derive the same node or both throw, and the
  exceptions are the same if no index is too large for its kind of step. A path that starts with \<open>M\<close>
  gives the SDK the neutered form of what \<open>derivePath\<close> gives; below a neutered master node only such a
  path is accepted, and it gives what \<open>derivePath\<close> gives. The path may leave out the \<open>m\<close>, for
  \<open>derivePath\<close>. (From \<open>10^21\<close> on the SDK derives another child for a hardened index.)\<close>

theorem path_derivations_agree:
  fixes K :: "'p key_lib"
  assumes "ss \<noteq> []" "list_all (\<lambda>(h, n). n < 2 ^ 52) ss" "hn_parentFingerprint node = 0"
  defines "sdk \<equiv> \<lambda>p. deriveByPath (node_lib K) node (p # steps_text ss) None"
    and "lib \<equiv> derivePath K node (CHR ''m'' # steps_text ss)"
    and "public \<equiv> \<lambda>r :: 'p hd_node res. map_sum id (hd_neutered (node_lib K)) r"
  shows "derivePath K node (tl (steps_text ss)) = lib \<and>
    (if isNeutered node
     then alike (sdk (CHR ''M'')) lib \<and> (\<exists>t. sdk (CHR ''m'') = Inl (KeyPathError t))
     else alike (sdk (CHR ''m'')) lib \<and> alike (sdk (CHR ''M'')) (public lib)) \<and>
    (list_all step_ok ss \<longrightarrow>
      (if isNeutered node then sdk (CHR ''M'') = map_sum Js id lib
       else sdk (CHR ''m'') = map_sum Js id lib \<and> sdk (CHR ''M'') = map_sum Js id (public lib)))"
proof -
  define r where "r = derive_all K ss node"
  have lib: "lib = rfold (path_step K) (map step_text ss) node" "derivePath K node (tl (steps_text ss)) = lib"
    using derivePath_splits [OF assms(1), of K node] assms(3) by (simp_all add: lib_def)
  have like: "alike lib r" "list_all step_ok ss \<Longrightarrow> lib = r"
    unfolding lib(1) r_def by (rule path_steps_text [OF assms(2)]; assumption?)+
  have alike: "alike (map_sum Js f r) (map_sum id f lib)" "alike (map_sum Js id r) lib" for f :: "'p hd_node \<Rightarrow> 'p hd_node"
    using like(1) by (cases lib; cases r; simp)+
  have both: "map_sum Js f r = map_sum Js id (map_sum id f r)" for f :: "'p hd_node \<Rightarrow> 'p hd_node" by (cases r) simp_all
  show ?thesis
    using deriveByPath_nodes [OF assms(1,2), of node K, folded r_def] lib(2) alike like(2) both
    by (cases "isNeutered node") (simp_all add: sdk_def public_def)
qed

text \<open>C11: what a neutered node derives along a path without hardened steps is the neutered form of what
  the private node derives, with the same address: a wallet that has only the public key watches the
  addresses the private key can spend from.\<close>

theorem watched_addresses_are_spendable:
  assumes "curve_ok (kl_ec K)" "node_ok K node" "\<not> isNeutered node" "neutered K node = Inr pub"
    and "ss \<noteq> []" "list_all (\<lambda>(h, n). n < 2 ^ 31 \<and> \<not> h) ss" "derivePath K pub (tl (steps_text ss)) = Inr c'"
  shows "\<exists>c. derivePath K node (tl (steps_text ss)) = Inr c \<and> \<not> isNeutered c \<and> neutered K c = Inr c' \<and>
    hd_getAddress K c' = hd_getAddress K c"
proof -
  have small: "list_all (\<lambda>(h, n). n < 2 ^ 31) ss" using assms(6) by (auto simp: list_all_iff)
  note path = derivePath_steps [OF assms(5) small]
  have node: "private_node K node" using assms(2,3) by (simp add: private_node_def)
  have "derive_all K ss pub = Inr c'" using assms(7) by (simp only: path)
  from derive_all_neutered [OF assms(1) node assms(4,6) this]
  obtain c where "derive_all K ss node = Inr c" "neutered K c = Inr c'" "private_node K c" by blast
  then show ?thesis using neutered_address [of K c c'] path [of K node] by (simp add: private_node_def)
qed

definition sample_root :: "int hd_node" where
  "sample_root = sample_node\<lparr>hn_parentFingerprint := 0\<rparr>"

theorem path_derivations_agree_witness:
  "deriveByPath (node_lib sample_keys) sample_root (CHR ''m'' # steps_text [(True, 44), (False, 1)]) None =
     map_sum Js id (derivePath sample_keys sample_root (CHR ''m'' # steps_text [(True, 44), (False, 1)])) \<and>
   alike (deriveByPath (node_lib sample_keys) sample_root (CHR ''m'' # steps_text [(True, 2 ^ 31)]) None)
     (derivePath sample_keys sample_root (CHR ''m'' # steps_text [(True, 2 ^ 31)]))"
proof -
  have root: "\<not> isNeutered sample_root" "hn_parentFingerprint sample_root = 0"
    by (simp_all add: sample_root_def sample_node_def sample_pair_def isNeutered_def)
  have "list_all step_ok [(True, 44), (False, 1)]" by (simp add: step_ok_def)
  then show ?thesis
    using path_derivations_agree [of "[(True, 44), (False, 1)]" sample_root sample_keys]
      path_derivations_agree [of "[(True, 2 ^ 31)]" sample_root sample_keys] root by simp
qed

text \<open>The child 3 of the sample node.\<close>

lemma sample_child: "\<exists>c'. derivePath sample_keys (public_part sample_keys sample_node 3) (tl (steps_text [(False, 3)])) = Inr c'"
proof -
  let ?pub = "public_part sample_keys sample_node 3" and ?I = "replicate 31 0 @ [1] @ replicate 32 8 :: buffer"
  have L: "kl_ec sample_keys = sample_ec" "kl_hmac512 sample_keys = (\<lambda>_ _. ?I)" by (simp_all add: sample_keys_def)
  have key: "getPublicKeyBuffer sample_ec (hn_keyPair ?pub) = Inr (2 # replicate 31 0 @ [3])"
    by (simp add: public_part_def getPublicKeyBuffer_def get_Q_def L) (simp add: sample_ec_def)
  obtain data where data: "child_data sample_keys ?pub 3 = Inr data"
    by (simp add: child_data_def HD_HIGHEST_BIT_def L key writeUInt32BE_def new_buffer_def buf_copy_def write_at_def)
  have "le_nat (replicate n 0) = 0" for n by (induction n) simp_all
  then have "from_buffer sample_ec (slice ?I 0 32) = 1"
    by (simp add: sample_ec_def sample_lib_def slice_def be_nat_def)
  then have "child_pair sample_ec ?pub (from_buffer sample_ec (slice ?I 0 32)) =
      Inr (Some (public_pair 4 bitcoin_network))"
    by (simp add: child_pair_def public_part_def get_Q_def L sample_node_def sample_pair_def)
      (simp add: sample_ec_def new_ec_pair_public bitcoin_Network)
  moreover have "\<exists>c'. finish_child sample_keys ?pub 3 (drop 32 ?I) (public_pair 4 bitcoin_network) = Inr c'"
    by (simp add: finish_child_def new_hd_node_def Buffer256bit_def nBuffer_ok getFingerprint_def getIdentifier_def L key
        hash160_def readUInt32BE_def) (simp add: sample_keys_def slice_def)
  moreover note derive_one [OF _ data refl]
  ultimately obtain c' where "derive sample_keys ?pub 3 = Inr c'" by (auto simp: L)
  then have "derive_all sample_keys [(False, 3)] ?pub = Inr c'" by (simp add: derive_all_def step_index_def)
  then show ?thesis by (subst derivePath_steps) simp_all
qed

theorem watched_addresses_are_spendable_witness:
  "\<exists>c c'. derivePath sample_keys sample_node (tl (steps_text [(False, 3)])) = Inr c \<and> \<not> isNeutered c \<and> neutered sample_keys c = Inr c' \<and>
    hd_getAddress sample_keys c' = hd_getAddress sample_keys c"
proof -
  have node: "node_ok sample_keys sample_node" "\<not> isNeutered sample_node" "pair_ok (kl_ec sample_keys) (hn_keyPair sample_node)"
    using sample_node_writable by (simp_all add: node_writable_def node_ok_def isNeutered_def sample_node_def sample_pair_def)
  have "neutered sample_keys sample_node = Inr (public_part sample_keys sample_node 3)"
    using neutered_private [OF node(3)] by (simp add: public_part_def sample_node_def sample_pair_def)
  moreover obtain c' where "derivePath sample_keys (public_part sample_keys sample_node 3) (tl (steps_text [(False, 3)])) = Inr c'"
    using sample_child by blast
  ultimately show ?thesis
    using watched_addresses_are_spendable [OF sample_keys_lib(1) node(1,2), of _ "[(False, 3)]" c'] by auto
qed

end
