(* ===== verification/Ec_Message.thy ===== *)
theory Ec_Message
  imports Ec_Pair
begin

text \<open>
  \<open>bitcoinjs-lib/src/message.js\<close>: signed text messages. A signature carries the recovery parameter, so
  that the verifier needs nothing but the address.
\<close>

section \<open>Signing and verifying messages\<close>

text \<open>What \<open>new Buffer\<close> takes: text in an encoding, or bytes. The encodings are arguments.\<close>

datatype text_or_bytes = Text string | Bytes buffer

definition new_Buffer :: "(string \<Rightarrow> buffer) \<Rightarrow> text_or_bytes \<Rightarrow> buffer" where
  "new_Buffer encoding v = (case v of Text s \<Rightarrow> encoding s | Bytes b \<Rightarrow> b)"

definition magicHash :: "'p key_lib \<Rightarrow> (string \<Rightarrow> buffer) \<Rightarrow> text_or_bytes \<Rightarrow> network \<Rightarrow> buffer res" where
  "magicHash K utf8 message network =
     (let prefix = new_Buffer utf8 (Text (messagePrefix network));
          messageBuffer = new_Buffer utf8 message in
      rbind (varIntBuffer (length messageBuffer)) (\<lambda>lengthBuffer.
        let buf = concat [prefix, lengthBuffer, messageBuffer] in Inr (hash256 (kl_sha256 K) buf)))"

definition or_bitcoin :: "network option \<Rightarrow> network" where
  "or_bitcoin network = (case network of Some net \<Rightarrow> net | None \<Rightarrow> bitcoin_network)"

definition message_sign :: "'p key_lib \<Rightarrow> (string \<Rightarrow> buffer) \<Rightarrow> 'p ec_pair \<Rightarrow> text_or_bytes \<Rightarrow> network option \<Rightarrow> buffer run" where
  "message_sign K utf8 keyPair message network =
     run_bind (magicHash K utf8 message (or_bitcoin network)) (\<lambda>hash.
       case ecpair_sign (kl_ec K) keyPair hash of
         None \<Rightarrow> None
       | Some sig \<Rightarrow> run_bind sig (\<lambda>signature.
           let e = from_buffer (kl_ec K) hash in
           Some (case get_Q (kl_ec K) keyPair of
               None \<Rightarrow> Inl (JsTypeError ''Expected Point'')
             | Some Q \<Rightarrow> rbind (calcPubKeyRecoveryParam (kl_ec K) e signature Q) (\<lambda>i.
                 toCompact (ec_sig (kl_ec K)) signature (nat i) (ep_compressed keyPair)))))"

definition message_verify ::
  "'p key_lib \<Rightarrow> (string \<Rightarrow> buffer) \<Rightarrow> (string \<Rightarrow> buffer) \<Rightarrow> string \<Rightarrow> text_or_bytes \<Rightarrow> text_or_bytes \<Rightarrow> network option \<Rightarrow> bool res" where
  "message_verify K utf8 base64 address signature message network =
     (let signature = new_Buffer base64 signature; network = or_bitcoin network in
      rbind (magicHash K utf8 message network) (\<lambda>hash.
      rbind (parseCompact (ec_sig (kl_ec K)) signature) (\<lambda>parsed.
      let e = from_buffer (kl_ec K) hash in
      rbind (recoverPubKey (kl_ec K) e (pc_signature parsed) (int (pc_i parsed))) (\<lambda>Q.
      rbind (new_ec_pair (kl_ec K) None (Some Q) (Some (pc_compressed parsed)) (Some network)) (\<lambda>keyPair.
      rbind (getAddress K keyPair) (\<lambda>a. Inr (a = address)))))))"

section \<open>Laws\<close>

text \<open>The factor that is found recovers the key.\<close>

lemma find_factor_Inr:
  assumes "find_factor L e sig Q is = Inr i"
  obtains Q' where "i \<in> set is" "recoverPubKey L e sig i = Inr Q'" "cv_equals L Q' Q"
  using assms by (induction "is") (auto split: if_splits)

lemma calcPubKeyRecoveryParam_Inr:
  assumes "group_ok L" "calcPubKeyRecoveryParam L e sig Q = Inr i"
  shows "recoverPubKey L e sig i = Inr Q" "0 \<le> i" "i < 4"
proof -
  obtain Q' where "i \<in> set [0, 1, 2, 3]" "recoverPubKey L e sig i = Inr Q'" "cv_equals L Q' Q"
    using assms(2) unfolding calcPubKeyRecoveryParam_def by (rule find_factor_Inr)
  moreover from this have "Q' = Q" using assms(1) by (simp add: group_ok_def)
  ultimately show "recoverPubKey L e sig i = Inr Q" "0 \<le> i" "i < 4" by auto
qed

lemma message_sign_Inr:
  assumes "message_sign K utf8 kp m net = Some (Inr b)" "pair_ok (kl_ec K) kp" "ep_d kp = Some d"
  obtains hash sig i where "magicHash K utf8 m (or_bitcoin net) = Inr hash" "ec_sign (kl_ec K) hash d = Some (Inr sig)"
    "calcPubKeyRecoveryParam (kl_ec K) (from_buffer (kl_ec K) hash) sig (point (kl_ec K) d) = Inr i"
    "toCompact (ec_sig (kl_ec K)) sig (nat i) (ep_compressed kp) = Inr b"
proof -
  obtain hash where hash: "magicHash K utf8 m (or_bitcoin net) = Inr hash"
    using assms(1) by (cases "magicHash K utf8 m (or_bitcoin net)") (simp_all add: message_sign_def)
  obtain r where r: "ec_sign (kl_ec K) hash d = Some r"
    using assms(1,3) hash by (cases "ec_sign (kl_ec K) hash d") (simp_all add: message_sign_def ecpair_sign_def)
  obtain sig where "r = Inr sig"
    using assms(1,3) hash r by (cases r) (simp_all add: message_sign_def ecpair_sign_def)
  then show ?thesis
    using that [OF hash, of sig] assms(1,3) hash r private_point [OF assms(2,3)]
    by (auto simp: message_sign_def ecpair_sign_def Let_def)
qed

text \<open>The address of a key pair does not depend on whether the pair has the private key.\<close>

lemma getAddress_public:
  assumes "pair_ok (kl_ec K) kp" "ep_d kp = Some d"
  shows "getAddress K \<lparr>ep_d = None, ep_Q = Some (point (kl_ec K) d), ep_compressed = ep_compressed kp, ep_network = ep_network kp\<rparr> =
    getAddress K kp"
  using private_point [OF assms] by (simp add: getAddress_def getPublicKeyBuffer_def get_Q_def)

lemma getAddress_Inr:
  assumes "pair_ok (kl_ec K) kp"
  shows "\<exists>a. getAddress K kp = Inr a"
proof -
  obtain Q where "get_Q (kl_ec K) kp = Some Q" by (rule public_point [OF assms])
  moreover have "pubKeyHash (ep_network kp) < 256" using assms by (simp add: pair_ok_def Network_def UInt8_iff)
  ultimately show ?thesis by (simp add: getAddress_def getPublicKeyBuffer_def writeLE_def new_buffer_def Let_def)
qed

lemma compact_parsed:
  assumes "sig_lib_ok L" "0 \<le> sig_r sig" "sig_r sig < 2 ^ 256" "0 \<le> sig_s sig" "sig_s sig < 2 ^ 256" "i < 4"
  obtains b where "toCompact L sig i compressed = Inr b"
    "parseCompact L b = Inr \<lparr>pc_compressed = compressed, pc_i = i, pc_signature = sig\<rparr>"
  using compact_roundtrip [OF assms, of compressed] by (auto simp: rbind_def split: sum.splits)

lemma message_sign_recovered:
  assumes "curve_ok (kl_ec K)" "sig_lib_ok (ec_sig (kl_ec K))" "pair_ok (kl_ec K) kp" "ep_d kp = Some d"
    and "message_sign K utf8 kp m net = Some (Inr b)"
  obtains hash sig i where "magicHash K utf8 m (or_bitcoin net) = Inr hash"
    "parseCompact (ec_sig (kl_ec K)) b = Inr \<lparr>pc_compressed = ep_compressed kp, pc_i = i, pc_signature = sig\<rparr>"
    "recoverPubKey (kl_ec K) (from_buffer (kl_ec K) hash) sig (int i) = Inr (point (kl_ec K) d)"
proof -
  obtain hash sig i where s: "magicHash K utf8 m (or_bitcoin net) = Inr hash" "ec_sign (kl_ec K) hash d = Some (Inr sig)"
    "calcPubKeyRecoveryParam (kl_ec K) (from_buffer (kl_ec K) hash) sig (point (kl_ec K) d) = Inr i"
    "toCompact (ec_sig (kl_ec K)) sig (nat i) (ep_compressed kp) = Inr b"
    by (rule message_sign_Inr [OF assms(5,3,4)])
  have "group_ok (kl_ec K)" and n: "cv_n (kl_ec K) < 2 ^ 256" using assms(1) by (simp_all add: curve_ok_def inverse_ok_def)
  note i = calcPubKeyRecoveryParam_Inr [OF this(1) s(3)]
  have "0 \<le> d" using assms(3,4) by (simp add: pair_ok_def)
  from sign_then_verify [OF assms(1) this s(2)] n have "0 \<le> sig_r sig" "sig_r sig < 2 ^ 256" "0 \<le> sig_s sig" "sig_s sig < 2 ^ 256"
    by linarith+
  then obtain b' where "toCompact (ec_sig (kl_ec K)) sig (nat i) (ep_compressed kp) = Inr b'"
      "parseCompact (ec_sig (kl_ec K)) b' = Inr \<lparr>pc_compressed = ep_compressed kp, pc_i = nat i, pc_signature = sig\<rparr>"
    by (rule compact_parsed [OF assms(2), of sig "nat i"]) (use i in linarith)
  with s i show ?thesis using that [of hash "nat i" sig] by simp
qed

section \<open>Properties\<close>

text \<open>C12: a message signed with a key is accepted for the address of that key and for no other address,
  whether the signature is given as bytes or as text: \<open>verify\<close> recovers the key of the signer from the
  signature.\<close>

theorem signed_message_verifies:
  assumes "curve_ok (kl_ec K)" "sig_lib_ok (ec_sig (kl_ec K))" "pair_ok (kl_ec K) kp" "ep_d kp = Some d"
    and "ep_network kp = or_bitcoin net" "message_sign K utf8 kp m net = Some (Inr b)" "new_Buffer base64 signature = b"
  shows "\<exists>a. getAddress K kp = Inr a \<and>
    (\<forall>address. message_verify K utf8 base64 address signature m net = Inr (a = address))"
proof -
  obtain hash sig i where s: "magicHash K utf8 m (or_bitcoin net) = Inr hash"
    "parseCompact (ec_sig (kl_ec K)) b = Inr \<lparr>pc_compressed = ep_compressed kp, pc_i = i, pc_signature = sig\<rparr>"
    "recoverPubKey (kl_ec K) (from_buffer (kl_ec K) hash) sig (int i) = Inr (point (kl_ec K) d)"
    by (rule message_sign_recovered [OF assms(1-4,6)])
  obtain a where a: "getAddress K kp = Inr a" using getAddress_Inr [OF assms(3)] by blast
  have net: "Network (or_bitcoin net)" using assms(3,5) by (simp add: pair_ok_def)
  show ?thesis
    using a getAddress_public [OF assms(3,4)]
    by (simp add: message_verify_def Let_def s assms(5,7) new_ec_pair_public [OF net])
qed

lemma sample_message:
  obtains b where "message_sign sample_keys (map (\<lambda>c. of_char c)) sample_pair (Text ''hi'') None = Some (Inr b)"
proof -
  have L: "kl_ec sample_keys = sample_ec" "kl_sha256 sample_keys = (\<lambda>_. sample_hash)" by (simp_all add: sample_keys_def)
  have hash: "magicHash sample_keys (map (\<lambda>c. of_char c)) (Text ''hi'') bitcoin_network = Inr sample_hash"
    by (simp add: magicHash_def new_Buffer_def varIntBuffer_eq hash256_def L)
  have x: "cv_n sample_ec = 7" "cv_affineX sample_ec P < 7" for P by (simp_all add: sample_ec_def min_def)
  obtain i where i: "i \<in> {0, 1}" "calcPubKeyRecoveryParam sample_ec 2 (ECSignature 2 3) (point sample_ec 3) = Inr i"
    using recover_signed [OF sample_ec_ok _ _ sample_signature] x by (auto simp: sample_from_buffer)
  obtain b where "toCompact (ec_sig sample_ec) (ECSignature 2 3) (nat i) True = Inr b"
    by (rule compact_parsed [of sample_lib "ECSignature 2 3" "nat i" True, OF sample_lib_ok]) (use i(1) in \<open>auto simp: sample_sig_lib\<close>)
  then have "message_sign sample_keys (map (\<lambda>c. of_char c)) sample_pair (Text ''hi'') None = Some (Inr b)"
    using hash i(2) sample_signature private_point [OF sample_pair_ok, of 3]
    by (simp add: message_sign_def or_bitcoin_def ecpair_sign_def L sample_from_buffer Let_def sample_pair_def)
  then show ?thesis by (rule that)
qed

theorem signed_message_verifies_witness:
  "\<exists>b a. message_sign sample_keys (map (\<lambda>c. of_char c)) sample_pair (Text ''hi'') None = Some (Inr b) \<and> getAddress sample_keys sample_pair = Inr a \<and>
    message_verify sample_keys (map (\<lambda>c. of_char c)) (\<lambda>_. []) a (Bytes b) (Text ''hi'') None = Inr True \<and>
    message_verify sample_keys (map (\<lambda>c. of_char c)) (\<lambda>_. []) (CHR ''x'' # a) (Bytes b) (Text ''hi'') None = Inr False"
proof -
  obtain b where b: "message_sign sample_keys (map (\<lambda>c. of_char c)) sample_pair (Text ''hi'') None = Some (Inr b)"
    by (rule sample_message)
  have "curve_ok (kl_ec sample_keys)" "sig_lib_ok (ec_sig (kl_ec sample_keys))" "pair_ok (kl_ec sample_keys) sample_pair" "ep_d sample_pair = Some 3"
      "ep_network sample_pair = or_bitcoin None"
    using sample_ec_ok sample_lib_ok sample_pair_ok by (simp_all add: sample_keys_def sample_sig_lib sample_pair_def or_bitcoin_def)
  from signed_message_verifies [OF this b, of "\<lambda>_. []" "Bytes b"] b show ?thesis by (force simp: new_Buffer_def)
qed

end
