(* ===== verification/Spend.thy ===== *)
theory Spend
  imports Tx_Builder Ec_Pair Bc_Interp_Verify Bc_Sighash
begin

text \<open>
  The two libraries together: a transaction that bitcoinjs-lib builds and signs with its key pairs is
  one whose inputs bitcore's script interpreter accepts. This joins the transaction builder, ECDSA,
  the signature encodings, the script compiler and the signed message of the one library with the
  script parser, the stack machine and the signed message of the other.
\<close>

section \<open>The key pairs of the builder\<close>

text \<open>What the builder uses of a key pair. A call of \<open>sign\<close> that never returns gives no builder; here it
  is an error.\<close>

definition pair_key :: "'p ec_lib \<Rightarrow> 'p ec_pair \<Rightarrow> key_pair" where
  "pair_key L kp = \<lparr>kp_network = ep_network kp,
     kp_pubKey = (case getPublicKeyBuffer L kp of Inr b \<Rightarrow> b | Inl _ \<Rightarrow> []),
     kp_sign = (\<lambda>hash. case ecpair_sign L kp hash of Some r \<Rightarrow> r | None \<Rightarrow> Inl (JsError ''sign does not return''))\<rparr>"

definition signing_pair :: "'p ec_lib \<Rightarrow> key_pair \<Rightarrow> bool" where
  "signing_pair L key \<longleftrightarrow> (\<exists>kp. key = pair_key L kp \<and> pair_ok L kp \<and> ep_d kp \<noteq> None)"

text \<open>The DER encoder of the packages writes the shortest form, and bitcore's native verifier accepts
  what \<open>ecdsa.verify\<close> accepts.\<close>

definition der_ok :: "'p ec_lib \<Rightarrow> bool" where
  "der_ok L \<longleftrightarrow> (\<forall>r s. 0 < r \<longrightarrow> r < cv_n L \<longrightarrow> 0 < s \<longrightarrow> s < cv_n L \<longrightarrow>
     (\<exists>R S. bip66_encode (ec_sig L) (toDERInteger (ec_sig L) r) (toDERInteger (ec_sig L) s) = Inr (der_signature R S) \<and>
        der_integer R \<and> der_integer S \<and> length R \<le> 33 \<and> length S \<le> 33))"

definition verifier_ok :: "'p ec_lib \<Rightarrow> si_env \<Rightarrow> bool" where
  "verifier_ok L env \<longleftrightarrow> (\<forall>pub Q c sig der hash. cv_decodeFrom L pub = Inr (Q, c) \<longrightarrow> toDER (ec_sig L) sig = Inr der \<longrightarrow>
     ec_verify L hash sig Q = Inr True \<longrightarrow> se_verifySignature env pub hash der = Inr True)"

text \<open>The interpreter looks at input \<open>j\<close> of the transaction.\<close>

definition checks_input :: "'p key_lib \<Rightarrow> transaction \<Rightarrow> nat \<Rightarrow> si_env \<Rightarrow> bool" where
  "checks_input K tx j env \<longleftrightarrow> se_sha256 env = kl_sha256 K \<and> se_ripe160 env = kl_ripemd160 K \<and> se_tx env = bc_tx tx \<and>
     se_inIndex env = j \<and> se_hashType env = 0 \<and> \<not> so_verifyEvenS (se_opts env) \<and> verifier_ok (kl_ec K) env"

section \<open>Signatures\<close>

lemma script_signature_parts:
  assumes "toScriptSignature S sig ht = Inr s"
  obtains der h where "toDER S sig = Inr der" "s = der @ [h]" "uint h = ht" "hash_type_ok h"
proof -
  have bounds: "0 \<le> ht" "nat ht < 256" and valid: "\<not> (js_and ht (js_not 0x80) \<le> 0 \<or> js_and ht (js_not 0x80) \<ge> 4)"
    using assms by (auto simp: toScriptSignature_def writeLE_def Let_def split: if_splits)
  obtain der where der: "toDER S sig = Inr der" "s = der @ [word_of_nat (nat ht)]"
    using assms bounds by (auto simp: toScriptSignature_def writeLE_def write_at_def new_buffer_def Let_def split: if_splits)
  have u: "uint (word_of_nat (nat ht) :: byte) = ht" using bounds by (simp add: uint_word_of_int_eq take_bit_int_eq_self)
  have "ht \<in> {1, 2, 3, 129, 130, 131}" using hash_type_valid [of ht] bounds valid by simp
  then have "hash_type_ok (word_of_nat (nat ht))" unfolding hash_type_ok_def u by auto
  with der u that show ?thesis by blast
qed

text \<open>A key pair's signature, with what the interpreter needs of it.\<close>

lemma pair_key_signature:
  assumes "curve_ok L" "der_ok L" "signing_pair L key" "kp_sign key hash = Inr sig"
  obtains Q c R S where "cv_decodeFrom L (kp_pubKey key) = Inr (Q, c)" "length (kp_pubKey key) \<in> {33, 65}" "ec_verify L hash sig Q = Inr True"
    "toDER (ec_sig L) sig = Inr (der_signature R S)" "der_integer R" "der_integer S" "length R \<le> 33" "length S \<le> 33"
proof -
  obtain kp d where kp: "key = pair_key L kp" "pair_ok L kp" "ep_d kp = Some d" using assms(3) by (auto simp: signing_pair_def)
  have sign: "ec_sign L hash d = Some (Inr sig)"
    using assms(4) kp by (cases "ec_sign L hash d") (simp_all add: pair_key_def ecpair_sign_def)
  have d: "0 < d" "d < cv_n L" using kp(2,3) by (simp_all add: pair_ok_def)
  note v = sign_then_verify [OF assms(1) _ sign]
  have range: "0 < sig_r sig" "sig_r sig < cv_n L" "0 < sig_s sig" "sig_s sig \<le> cv_n L div 2" "ec_verify L hash sig (point L d) = Inr True"
    using v d by simp_all
  moreover have "cv_n L div 2 < cv_n L" using d by simp
  ultimately have "0 < sig_s sig" "sig_s sig < cv_n L" by linarith+
  with range assms(2) obtain R S where der: "toDER (ec_sig L) sig = Inr (der_signature R S)" "der_integer R" "der_integer S" "length R \<le> 33" "length S \<le> 33"
    unfolding der_ok_def toDER_def Let_def by blast
  have "coordinates_ok L" using assms(1) by (simp add: curve_ok_def)
  then have "cv_decodeFrom L (kp_pubKey key) = Inr (point L d, ep_compressed kp)" "length (kp_pubKey key) \<in> {33, 65}"
    using d private_point [OF kp(2,3)] unfolding coordinates_ok_def kp(1)
    by (cases "ep_compressed kp"; simp add: pair_key_def getPublicKeyBuffer_def)+
  with that range(5) der show ?thesis by blast
qed

section \<open>Scripts\<close>

text \<open>The two scripts of a pay-to-pubkey-hash input, as bitcore reads them.\<close>

lemma output_script_chunks:
  assumes "length h = 20" "pubKeyHashOutput h = Inr script"
  shows "standard_pushes (p2pkh_chunks h)" "script = concat (map chunk_bytes (p2pkh_chunks h))" "length script = 25"
    "new_script script = fromChunks (p2pkh_chunks h)" "bs_chunks (new_script script) = [Op 118, Op 169, Data h, Op 136, Op 172]"
proof -
  have p: "standard_pushes (p2pkh_chunks h)" using assms(1) by (auto simp: standard_pushes_def p2pkh_chunks_def)
  have s: "script = concat (map chunk_bytes (p2pkh_chunks h))" using assms pubKeyHashOutput_bytes [OF assms(1)] p2pkh_bytes [OF assms(1)] by simp
  show "standard_pushes (p2pkh_chunks h)" "script = concat (map chunk_bytes (p2pkh_chunks h))" by fact+
  show "length script = 25" using assms pubKeyHashOutput_bytes [OF assms(1)] by auto
  show f: "new_script script = fromChunks (p2pkh_chunks h)" unfolding s by (rule new_script_bytes [OF p])
  show "bs_chunks (new_script script) = [Op 118, Op 169, Data h, Op 136, Op 172]"
    unfolding f by (simp add: fromChunks_def updateBuffer_def p2pkh_chunks_def)
qed

lemma input_script_chunks:
  assumes "9 \<le> length s" "length s \<le> 73" "length pub \<in> {33, 65}" "pubKeyHashInput s pub = Inr script"
  shows "bs_chunks (new_script script) = [Data s, Data pub]" "length (bs_buffer (new_script script)) \<le> 140"
proof -
  let ?cs = "[Data s, Data pub]"
  have p: "standard_pushes ?cs" using assms(1-3) by (auto simp: standard_pushes_def)
  have "list_all writable_chunk ?cs" using assms(2,3) by auto
  then have s: "script = concat (map chunk_bytes ?cs)" using assms(4) compile_Chunks [of ?cs] by (simp add: pubKeyHashInput_def)
  show "bs_chunks (new_script script) = ?cs" unfolding s new_script_bytes [OF p] by (simp add: fromChunks_def updateBuffer_def)
  show "length (bs_buffer (new_script script)) \<le> 140" using assms(1-3) by (auto simp: s new_script_def push_prefix_def)
qed

text \<open>The interpreter checks the signature over the hash that bitcoinjs-lib signed.\<close>

lemma checked_hash:
  assumes "tx_ok tx" "j < length (tx_ins tx)" "length (tx_ins tx) < 0x10000" "length (tx_outs tx) < 0x10000"
    and "list_all (\<lambda>o'. length (to_script o') < 0x10000) (tx_outs tx)" "base_type ht = 3 \<longrightarrow> j < length (tx_outs tx)"
    and "0 \<le> ht" "ht < 256" "length h = 20" "pubKeyHashOutput h = Inr script"
    and "hashForSignature sha256 tx j script ht = Inr hash"
  shows "fst (bc_hashForSignature sha256 (bc_tx tx) (new_script script) j ht) = hash"
proof -
  note s = output_script_chunks [OF assms(9,10)]
  have "j < 2 ^ 32" using assms(2,3) by simp
  moreover have "- (2 ^ 31) \<le> ht" "ht < 2 ^ 31" using assms(7,8) by simp_all
  moreover have "length script < 0x10000" using s(3) by simp
  ultimately have "hashForSignature sha256 tx j script ht = Inr (fst (bc_hashForSignature sha256 (bc_tx tx) (new_script script) j ht))"
    using same_sighash [OF assms(1) _ _ _ s(1,2) _ assms(3-5), of j ht sha256] assms(2,6) by simp
  then show ?thesis using assms(11) by simp
qed

lemma check_accepts:
  assumes "checks_input K tx j env" "fst (bc_hashForSignature (kl_sha256 K) (bc_tx tx) sc j (uint h)) = hash"
    and "cv_decodeFrom (kl_ec K) pub = Inr (Q, c)" "pub \<noteq> []" "toDER (ec_sig (kl_ec K)) sig = Inr der" "ec_verify (kl_ec K) hash sig Q = Inr True"
  shows "fst (checkSig env (der @ [h]) pub sc) = Inr True"
proof -
  have v: "se_verifySignature env pub hash der = Inr True"
    using assms(1,3,5,6) unfolding checks_input_def verifier_ok_def by blast
  have h: "int (unat h) = uint h" by simp
  show ?thesis
    using assms(1,2,4) v unfolding checkSig_def checks_input_def
    by (auto simp: Let_def slice_def h split: prod.splits)
qed

lemma signed_input_verifies:
  assumes "curve_ok (kl_ec K)" "der_ok (kl_ec K)" "\<forall>key \<in> kps. signing_pair (kl_ec K) key" "\<And>b. length (kl_ripemd160 K b) = 20"
    and "bl_sig L = ec_sig (kl_ec K)" "bl_sha256 L = kl_sha256 K" "bl_ripemd160 L = kl_ripemd160 K"
    and "tb_reachable L kps b" "j < length (tb_inputs b)" "tb_build L b False = Inr tx"
    and "bi_scriptType (tb_inputs b ! j) = Some ''pubkeyhash''" "bi_prevOutType (tb_inputs b ! j) = Some ''pubkeyhash''"
    and "tx_ok tx" "j < length (tx_ins tx)" "length (tx_ins tx) < 0x10000" "length (tx_outs tx) < 0x10000"
    and "list_all (\<lambda>o'. length (to_script o') < 0x10000) (tx_outs tx)"
    and "checks_input K tx j env"
  shows "\<exists>key \<in> kps. \<exists>s. pubKeyHashInput s (kp_pubKey key) = Inr (ti_script (tx_ins tx ! j)) \<and>
    (s \<noteq> kl_hash160 K (kp_pubKey key) \<and> (base_type (uint (last s)) = 3 \<longrightarrow> j < length (tx_outs tx)) \<longrightarrow>
       verifyFull env (new_script (ti_script (tx_ins tx ! j))) (new_script (script_of (tb_inputs b ! j))) = Inr True)"
proof -
  let ?script = "script_of (tb_inputs b ! j)"
  obtain key ht sig s hash where key: "key \<in> kps" and built: "toScriptSignature (ec_sig (kl_ec K)) sig ht = Inr s"
    "pubKeyHashInput s (kp_pubKey key) = Inr (ti_script (tx_ins tx ! j))" "kp_sign key hash = Inr sig"
    "hashForSignature (kl_sha256 K) tx j ?script ht = Inr hash"
    "pubKeyHashOutput (kl_hash160 K (kp_pubKey key)) = Inr ?script"
    using p2pkh_input_signed [OF assms(8-12)] unfolding assms(5-7) by blast
  define h where "h = kl_hash160 K (kp_pubKey key)"
  have h: "length h = 20" using assms(4) by (simp add: h_def hash160_def)
  obtain Q c R S where sig: "cv_decodeFrom (kl_ec K) (kp_pubKey key) = Inr (Q, c)" "length (kp_pubKey key) \<in> {33, 65}"
    "ec_verify (kl_ec K) hash sig Q = Inr True" "toDER (ec_sig (kl_ec K)) sig = Inr (der_signature R S)"
    "der_integer R" "der_integer S" "length R \<le> 33" "length S \<le> 33"
    using pair_key_signature [OF assms(1,2) _ built(3)] assms(3) key by blast
  obtain t where t: "s = der_signature R S @ [t]" "uint t = ht" "hash_type_ok t"
    using script_signature_parts [OF built(1)] sig(4) by auto
  have "length s = length R + length S + 7" by (simp add: t(1) der_signature_def)
  moreover have "1 \<le> length R" "1 \<le> length S" using sig(5,6) by (simp_all add: der_integer_def Suc_le_eq)
  ultimately have len: "9 \<le> length s" "length s \<le> 73" using sig(7,8) by linarith+
  note ss = input_script_chunks [OF len sig(2) built(2)]
  note spk = output_script_chunks [OF h built(5) [folded h_def]]
  have canonical: "si_isCanonicalSignature (se_opts env) s = Inr True"
    unfolding t(1) using sig(5-8) t(3) assms(18) by (intro canonical_der) (simp_all add: checks_input_def)
  have "0 \<le> ht" "ht < 256" using uint_lt2p [of t] by (simp_all flip: t(2))
  then have hash: "fst (bc_hashForSignature (kl_sha256 K) (bc_tx tx) (new_script ?script) j (uint t)) = hash"
    if "base_type ht = 3 \<longrightarrow> j < length (tx_outs tx)"
    using checked_hash [OF assms(13-17) that _ _ h built(5) [folded h_def] built(4)] by (simp add: t(2))
  have "verifyFull env (new_script (ti_script (tx_ins tx ! j))) (new_script ?script) = Inr True"
    if "s \<noteq> h" and "base_type (uint (last s)) = 3 \<longrightarrow> j < length (tx_outs tx)"
  proof -
    have "base_type ht = 3 \<longrightarrow> j < length (tx_outs tx)" using that(2) by (simp add: t)
    note hash = hash [OF this]
    have code: "findAndDelete (Data s) (fromChunks (bs_chunks (new_script ?script))) = new_script ?script"
      using that(1) unfolding spk(5) by (simp add: findAndDelete_filter spk(4)) (simp add: fromChunks_def updateBuffer_def p2pkh_chunks_def)
    have "fst (checkSig env s (kp_pubKey key) (new_script ?script)) = Inr True"
      unfolding t(1) using sig(2) by (intro check_accepts [OF assms(18) hash sig(1) _ sig(4,3)]) auto
    moreover have "sha256ripe160 (se_sha256 env) (se_ripe160 env) (kp_pubKey key) = h"
      using assms(18) by (simp add: checks_input_def sha256ripe160_def h_def hash160_def)
    moreover have "length s \<le> 520" "length (kp_pubKey key) \<le> 520" "length h \<le> 520"
        "length (bs_buffer (new_script (ti_script (tx_ins tx ! j)))) \<le> 10000" "length (bs_buffer (new_script ?script)) \<le> 10000"
      using len sig(2) h ss(2) spk(3) by (auto simp: new_script_def)
    ultimately show ?thesis
      using verify_p2pkh [OF ss(1) _ _ _ spk(5), of env] canonical code by simp
  qed
  then show ?thesis using key built(2) unfolding h_def by blast
qed

section \<open>A spend over the integers modulo 7\<close>

text \<open>Packages for which all promises hold, a builder with one input, and its signature.\<close>

definition spend_sig_lib :: sig_lib where
  "spend_sig_lib = sample_lib\<lparr>toDERInteger := (\<lambda>v. [word_of_int v]), bip66_encode := (\<lambda>r s. Inr (der_signature r s))\<rparr>"

definition spend_keys :: "int key_lib" where
  "spend_keys = Ec_Pair.sample_keys\<lparr>kl_ec := sample_ec\<lparr>ec_sig := spend_sig_lib\<rparr>\<rparr>"

definition spend_blib :: builder_lib where
  "spend_blib = \<lparr>bl_sig = spend_sig_lib, bl_sha256 = (\<lambda>_. sample_hash), bl_ripemd160 = (\<lambda>_. replicate 20 9),
     bl_b58_decode = plain_decode, bl_verify = (\<lambda>_. Inr (\<lambda>_ _. True))\<rparr>"

abbreviation spend_ec :: "int ec_lib" where
  "spend_ec \<equiv> sample_ec\<lparr>ec_sig := spend_sig_lib\<rparr>"

lemma spend_sig_lib_numbers:
  "bn_fromBuffer spend_sig_lib = bn_fromBuffer (ec_sig sample_ec)" "bn_toBuffer32 spend_sig_lib = bn_toBuffer32 (ec_sig sample_ec)"
  by (simp_all add: spend_sig_lib_def sample_ec_def)

lemma spend_ec_ok: "curve_ok spend_ec" "der_ok spend_ec"
proof -
  show "curve_ok spend_ec"
    using sample_ec_ok by (simp add: curve_ok_def inverse_ok_def group_ok_def coordinates_ok_def spend_sig_lib_numbers)
  have "\<exists>R S. Inr (der_signature [word_of_int r] [word_of_int s]) = Inr (der_signature R S) \<and>
      der_integer R \<and> der_integer S \<and> length R \<le> 33 \<and> length S \<le> 33" if "0 < r" "r < 7" "0 < s" "s < 7" for r s :: int
    using that by (intro exI [of _ "[word_of_int r]"] exI [of _ "[word_of_int s]"])
      (simp add: der_integer_def uint_word_of_int_eq take_bit_int_eq_self)
  then show "der_ok spend_ec" by (simp add: der_ok_def spend_sig_lib_def) (simp add: sample_ec_def)
qed

lemma spend_sign: "ec_sign spend_ec sample_hash 3 = Some (Inr (ECSignature 2 3))"
proof -
  have kv: "first_kv spend_ec h x = (sample_hash, sample_hash)" for h x
    by (simp add: first_kv_def sample_hash_def sample_ec_def)
  have e: "from_buffer spend_ec sample_hash = 2" using sample_from_buffer by (simp add: spend_sig_lib_numbers)
  have "first_usable spend_ec (check_nonce spend_ec 2 3) (first_kv spend_ec sample_hash x) 0 (2, 4)" for x
    using e unfolding kv by (simp add: first_usable_def candidate_def try_nonce_def check_nonce_def sample_ec_def)
  then have "ec_sign spend_ec sample_hash 3 =
      Some (Inr (ECSignature 2 (if 4 > N_OVER_TWO spend_ec then cv_n spend_ec - 4 else 4)))"
    by (intro ec_sign_first [of _ _ _ "be_bytes 32 3" 0]) (simp_all add: sample_from_buffer sample_usable spend_sig_lib_numbers)
  then show ?thesis by (simp add: N_OVER_TWO_def) (simp add: sample_ec_def)
qed

definition spend_key :: key_pair where
  "spend_key = pair_key spend_ec sample_pair"

lemma spend_key_signs:
  "signing_pair spend_ec spend_key" "kp_sign spend_key sample_hash = Inr (ECSignature 2 3)"
  "kp_network spend_key = bitcoin_network" "kp_pubKey spend_key = 2 # replicate 31 0 @ [3]"
proof -
  show "signing_pair spend_ec spend_key"
    using sample_pair_ok by (auto simp: signing_pair_def spend_key_def pair_ok_def sample_pair_def intro!: exI [of _ sample_pair])
  show "kp_sign spend_key sample_hash = Inr (ECSignature 2 3)"
    using spend_sign by (simp add: spend_key_def pair_key_def ecpair_sign_def sample_pair_def)
  show "kp_network spend_key = bitcoin_network" by (simp add: spend_key_def pair_key_def sample_pair_def)
  show "kp_pubKey spend_key = 2 # replicate 31 0 @ [3]"
    by (simp add: spend_key_def pair_key_def getPublicKeyBuffer_def get_Q_def sample_pair_def) (simp add: sample_ec_def)
qed

definition spend_input :: builder_input where
  "spend_input = \<lparr>bi_hashType = Some 1, bi_prevOutScript = Some sample_p2pkh, bi_prevOutType = Some ''pubkeyhash'',
     bi_pubKeys = Some [kp_pubKey spend_key], bi_redeemScript = None, bi_scriptType = Some ''pubkeyhash'',
     bi_signatures = Some [Some (ECSignature 2 3)]\<rparr>"

definition spend_builder :: builder where
  "spend_builder = sample_builder2\<lparr>tb_inputs := [spend_input]\<rparr>"

lemma spend_tb_sign: "tb_sign spend_blib sample_builder2 0 spend_key None None = (spend_builder, Inr ())"
proof -
  have h160: "bl_hash160 spend_blib k = replicate 20 9" for k by (simp add: spend_blib_def hash160_def)
  have out: "pubKeyHashOutput (replicate 20 9) = Inr sample_p2pkh" by (simp add: pubKeyHashOutput_bytes sample_p2pkh_def)
  let ?ready = "spend_input\<lparr>bi_signatures := Some [None]\<rparr>"
  have prep: "prepare_input spend_blib no_input spend_key None 1 = Inr ?ready"
    using out by (simp add: prepare_input_def can_sign_def prepare_plain_def no_input_def h160 spend_input_def)
  have ins: "tb_inputs sample_builder2 = [no_input]" "tb_network sample_builder2 = bitcoin_network"
    by (simp_all add: sample_builder2_def sample_builder1_def new_builder_def)
  have h: "hashForSignature (bl_sha256 spend_blib) (tb_tx sample_builder2) 0 sample_p2pkh 1 = Inr sample_hash"
    using sample_digest [of "bl_sha256 spend_blib"] by (auto simp: hash256_def spend_blib_def)
  have put: "tb_tx (put_input sample_builder2 0 i) = tb_tx sample_builder2" for i by (simp add: put_input_def)
  have "sign_input spend_blib (put_input sample_builder2 0 ?ready) 0 ?ready spend_key 1 = Inr spend_input"
    using h by (simp add: sign_input_def put spend_input_def spend_key_signs(2) set_at_def)
  then show ?thesis
    using prep ins spend_key_signs(3) by (simp add: tb_sign_def Let_def put_input_def spend_builder_def)
qed

lemma spend_reachable: "tb_reachable spend_blib {spend_key} spend_builder"
proof -
  have "tb_addInput spend_blib (new_builder None) (RawHash (replicate 32 7)) 0 None None = Inr (sample_builder1, 0)"
    by (simp add: tb_addInput_def resolve_prev_def input_of_prevOut_def tx_addInput_def Hash256bit_def nBuffer_ok
        UInt32_iff new_builder_def new_transaction_def sample_builder1_def sample_input_def Let_def)
  then have "tb_reachable spend_blib {spend_key} sample_builder1" by (rule tb_reachable.step [OF tb_reachable.start tb_step.add_input])
  moreover have "tb_addOutput spend_blib sample_builder1 (ToScript [0x6a]) 100 = Inr (sample_builder2, 0)"
    by (simp add: tb_addOutput_def tx_addOutput_def UInt53_def sample_builder2_def sample_builder1_def sample_output_def
        new_transaction_def output_can_be_added_def no_input_def Let_def)
  ultimately have "tb_reachable spend_blib {spend_key} sample_builder2" by (blast intro: tb_reachable.step tb_step.add_output)
  then show ?thesis by (rule tb_reachable.step [OF _ tb_step.sign [OF _ spend_tb_sign]]) simp
qed

lemma spend_build:
  obtains tx script where "tb_build spend_blib spend_builder False = Inr tx" "tx_ok tx" "length (tx_ins tx) = 1" "tx_outs tx = [sample_output]"
proof -
  let ?s = "der_signature [2] [3] @ [1]" and ?k = "kp_pubKey spend_key"
  have sig: "toScriptSignature spend_sig_lib (ECSignature 2 3) 1 = Inr ?s"
    by (simp add: toScriptSignature_def toDER_def spend_sig_lib_def js_and_def js_not_def to_int32_def writeLE_def
        write_at_def new_buffer_def)
  have script: "pubKeyHashInput ?s ?k = Inr (concat (map chunk_bytes [Data ?s, Data ?k]))"
    unfolding pubKeyHashInput_def by (rule compile_Chunks) (simp add: der_signature_def spend_key_signs(4))
  define tx where "tx = (tb_tx sample_builder2)\<lparr>tx_ins := [sample_input\<lparr>ti_script := concat (map chunk_bytes [Data ?s, Data ?k])\<rparr>]\<rparr>"
  have "tb_build spend_blib spend_builder False = Inr tx"
    using sig script by (simp add: tx_def tb_build_def spend_builder_def sample_builder2_def sample_builder1_def spend_input_def
        build_input_def can_build_type_def script_sig_of_def first_signature_def spend_blib_def
        setInputScript_def new_transaction_def tx_clone_def sample_output_def)
  moreover have "tx_ok tx"
    using sample_tx2_ok by (simp add: tx_def sample_builder2_def sample_builder1_def tx_ok_def writable_tx_def in_ok_def
        sample_input_def der_signature_def spend_key_signs(4) push_prefix_def)
  moreover have "length (tx_ins tx) = 1" "tx_outs tx = [sample_output]" by (simp_all add: tx_def sample_builder2_def)
  ultimately show ?thesis by (rule that)
qed

section \<open>Property\<close>

text \<open>C1: what bitcoinjs-lib signs, bitcore accepts. If a transaction is built from a builder that was only
  signed with well-formed private keys, the script of every pay-to-pubkey-hash input, whatever its hash
  type, passes \<open>verifyFull\<close> against the script it spends: the signature ECDSA made over the one library's
  message is canonical DER and is checked over the same message by the other one's stack machine. There
  are two exceptions. With SIGHASH_SINGLE the input needs an output of its own index, as for the number
  one the libraries have different bytes. And if the signature with its hash type happens to be the
  20-byte key hash, the interpreter deletes the hash from the script before it signs. Counts and output
  scripts stay below 65536, where bitcore writes no five-byte form.\<close>

theorem signed_spend_is_accepted:
  assumes "curve_ok (kl_ec K)" "der_ok (kl_ec K)" "\<forall>key \<in> kps. signing_pair (kl_ec K) key" "\<And>b. length (kl_ripemd160 K b) = 20"
    and "bl_sig L = ec_sig (kl_ec K)" "bl_sha256 L = kl_sha256 K" "bl_ripemd160 L = kl_ripemd160 K"
    and "tb_reachable L kps b" "j < length (tb_inputs b)" "tb_build L b False = Inr tx"
    and "bi_scriptType (tb_inputs b ! j) = Some ''pubkeyhash''" "bi_prevOutType (tb_inputs b ! j) = Some ''pubkeyhash''"
    and "tx_ok tx" "j < length (tx_ins tx)" "length (tx_ins tx) < 0x10000" "length (tx_outs tx) < 0x10000"
    and "list_all (\<lambda>o'. length (to_script o') < 0x10000) (tx_outs tx)"
    and "checks_input K tx j env"
  shows "\<exists>key \<in> kps. \<exists>s. pubKeyHashInput s (kp_pubKey key) = Inr (ti_script (tx_ins tx ! j)) \<and>
    (s \<noteq> kl_hash160 K (kp_pubKey key) \<and> (base_type (uint (last s)) = 3 \<longrightarrow> j < length (tx_outs tx)) \<longrightarrow>
       verifyFull env (new_script (ti_script (tx_ins tx ! j))) (new_script (script_of (tb_inputs b ! j))) = Inr True)"
  by (rule signed_input_verifies [OF assms])

theorem signed_spend_is_accepted_witness:
  "\<exists>tx env s. tb_build spend_blib spend_builder False = Inr tx \<and> checks_input spend_keys tx 0 env \<and>
     pubKeyHashInput s (kp_pubKey spend_key) = Inr (ti_script (tx_ins tx ! 0)) \<and>
     (s \<noteq> replicate 20 9 \<and> (base_type (uint (last s)) = 3 \<longrightarrow> 0 < length (tx_outs tx)) \<longrightarrow> verifyFull env (new_script (ti_script (tx_ins tx ! 0))) (new_script sample_p2pkh) = Inr True)"
proof -
  obtain tx where tx: "tb_build spend_blib spend_builder False = Inr tx" "tx_ok tx" "length (tx_ins tx) = 1" "tx_outs tx = [sample_output]"
    by (rule spend_build)
  define env where "env = \<lparr>se_sha256 = (\<lambda>_. sample_hash), se_sha1 = id, se_ripe160 = (\<lambda>_. replicate 20 9),
    se_verifySignature = (\<lambda>_ _ _. Inr True), se_tx = bc_tx tx, se_inIndex = 0, se_hashType = 0, se_opts = no_opts\<rparr>"
  have env: "checks_input spend_keys tx 0 env"
    by (simp add: checks_input_def env_def verifier_ok_def spend_keys_def Ec_Pair.sample_keys_def no_opts_def)
  have K: "kl_ec spend_keys = spend_ec" "kl_ripemd160 spend_keys = (\<lambda>_. replicate 20 9)" "bl_sig spend_blib = ec_sig spend_ec"
      "bl_sha256 spend_blib = kl_sha256 spend_keys" "bl_ripemd160 spend_blib = kl_ripemd160 spend_keys"
    by (simp_all add: spend_keys_def Ec_Pair.sample_keys_def spend_blib_def)
  have b: "tb_inputs spend_builder = [spend_input]" by (simp add: spend_builder_def)
  have "\<forall>key \<in> {spend_key}. signing_pair (kl_ec spend_keys) key" using spend_key_signs(1) by (simp add: K)
  from signed_spend_is_accepted [OF _ _ this _ _ K(4,5) spend_reachable _ tx(1) _ _ tx(2) _ _ _ _ env] spend_ec_ok
  obtain s where "pubKeyHashInput s (kp_pubKey spend_key) = Inr (ti_script (tx_ins tx ! 0))"
    "s \<noteq> kl_hash160 spend_keys (kp_pubKey spend_key) \<and> (base_type (uint (last s)) = 3 \<longrightarrow> 0 < length (tx_outs tx)) \<longrightarrow>
       verifyFull env (new_script (ti_script (tx_ins tx ! 0))) (new_script (script_of (tb_inputs spend_builder ! 0))) = Inr True"
    using tx(3,4) by (auto simp: K b spend_input_def sample_output_def)
  moreover have "kl_hash160 spend_keys (kp_pubKey spend_key) = replicate 20 9" by (simp add: hash160_def K)
  moreover have "script_of (tb_inputs spend_builder ! 0) = sample_p2pkh" by (simp add: b spend_input_def script_of_def)
  ultimately show ?thesis using tx(1) env by auto
qed

end
