(* ===== verification/Spec2Isabelle.thy ===== *)
theory Spec2Isabelle
  imports Tx_Builder Blk Asm Bc_Address Bc_Block Bc_Interp_Opcodes Sdk_Crypto Sdk_Build Hd_Path Ec_Message Spend
begin

text \<open>
  A verification library for the Bitcoin code of this repository. The repository collects the
  Blocktrail wallet: two JavaScript Bitcoin libraries, the SDK that is built on one of them, wallet
  applications, and many vendored projects. What is modelled is the code that decides what a
  transaction says and whether it may spend: \<open>src/bitcoinjs-lib/src\<close>, the scripts, transactions,
  blocks, addresses and script interpreter of \<open>src/bitcore\<close>, and what the SDK in \<open>src/blocktrail-sdk-nodejs/lib\<close> computes
  itself: payments, fees, keys and backups, with the mnemonics of \<open>src/bip39\<close>.

  \<^bold>\<open>Conventions.\<close> A \<open>Buffer\<close> is a list of bytes (\<open>8 word\<close>); a function that may throw returns
  \<open>js_error + 'a\<close>, every \<open>throw\<close> and failed assertion an \<open>Inl\<close>; objects are records with the fields of
  the code, and methods that change them return the changed record. JavaScript numbers that are
  integers are \<open>nat\<close> or \<open>int\<close>, with the 32-bit conversions of the shift and bit operators written out
  (\<open>to_int32\<close>, \<open>js_and\<close>, \<open>js_shl\<close>); numbers that come from text are doubles (theory \<open>Js_Number\<close>). Hash
  functions, elliptic curves, big integers, Base58 and DER checks are packages outside the repository:
  they are arguments of the definitions. What the key theories ask of the curve is that its points are
  the multiples of one generator of prime order and that their encodings can be read back
  (\<open>curve_ok\<close>); the integers modulo 7 are an instance.

  \<^bold>\<open>bitcoinjs-lib.\<close>
  \<^item> \<open>Prelude\<close>: results, bytes, little-endian numbers, reads and writes of buffers, 32-bit operators, the
    interface \<open>codec\<close> (a reader that undoes a writer) and what follows from it for sequences.
  \<^item> \<open>Buffer_Utils\<close>, \<open>Cursor\<close> (\<open>bufferutils.js\<close> and the cursors of \<open>transaction.js\<close>): push prefixes, varints,
    64-bit numbers; each pair of reader and writer is an instance of \<open>codec\<close>.
  \<^item> \<open>Types\<close> (\<open>types.js\<close>), \<open>Script_Number\<close> (\<open>script_number.js\<close>): guards; numbers in scripts as sign and
    magnitude.
  \<^item> \<open>Bscript\<close>, \<open>Hex\<close>, \<open>Asm\<close> (\<open>script.js\<close>, \<open>opcodes.json\<close>): compile, decompile, the recognisers, the
    classification, the templates, the text form. The scripts have a grammar (\<open>script_wire\<close>), and
    \<open>decompile\<close> is its parser; the classification is the list of templates.
  \<^item> \<open>Address\<close> (\<open>address.js\<close>, \<open>networks.js\<close>), \<open>Ec_Signature\<close> (\<open>ecsignature.js\<close>): round trips.
  \<^item> \<open>Tx\<close> (\<open>transaction.js\<close>, \<open>crypto.js\<close>): the wire format, and the message that is signed as a function
    of the parts the hash type commits to.
  \<^item> \<open>Blk\<close> (\<open>block.js\<close>): headers, blocks, targets.
  \<^item> \<open>Tx_Builder\<close> (\<open>transaction_builder.js\<close>): the builder as a state machine. A step relation covers its
    public operations; the invariant of its reachable states is that every signature was made by the
    key at its place over the hash the input still has.

  \<^item> \<open>Ecdsa\<close> (\<open>ecdsa.js\<close>): signing, verification, recovery of the public key. The RFC 6979 chain and the ECDSA
    values are also written down as the standards have them, and signing is compared with these. The
    search for a nonce is a \<open>partial_function\<close>: it ends exactly if the chain has a usable nonce.
  \<^item> \<open>Ec_Pair\<close>, \<open>Ec_Message\<close> (\<open>ecpair.js\<close>, \<open>message.js\<close>): key pairs, the wallet import format, signed messages,
    which are accepted for the address of their signer and no other.
  \<^item> \<open>Hd_Node\<close>, \<open>Hd_Path\<close> (\<open>hdnode.js\<close>): hierarchical keys, their serialised form and their paths; public and
    private derivation agree, also with the paths of the SDK.

  \<^bold>\<open>bitcore.\<close>
  \<^item> \<open>Js_Number\<close>: the number a text stands for, which bitcore uses without meaning to when it compares
    buffers with opcodes by \<open>==\<close> and \<open><\<close>.
  \<^item> \<open>Bc_Util\<close>, \<open>Bc_Number\<close> (\<open>util/BinaryParser.js\<close>, \<open>util/util.js\<close>, the writer \<open>bufferput\<close> in
    \<open>browser/bitcore-0.1.36.js\<close>, \<open>lib/browser/Bignum.js\<close>): readers and writers, again instances of an
    interface (\<open>stream_codec\<close>, which extends \<open>codec\<close>); the numbers agree with those of bitcoinjs-lib.
  \<^item> \<open>Bc_Script\<close>, \<open>Bc_Script_Laws\<close> (\<open>lib/Script.js\<close>): parser, recognisers, edits and builders, the builders
    as instances of an interface of operations that append (\<open>script_appender\<close>); agreement of the
    parser with bitcoinjs-lib.
  \<^item> \<open>Radix\<close>, \<open>Bc_Base58\<close> (\<open>lib/Base58.js\<close>): positional notation in any base as a locale, and Base58 as the
    change of base with leading zeros kept; the codec decodes exactly what it encodes.
  \<^item> \<open>Bc_Address\<close> (\<open>util/EncodedData.js\<close>, \<open>util/VersionedData.js\<close>, \<open>lib/Address.js\<close>, \<open>networks.js\<close>): data that
    changes its encoding in place, as state passing; the addresses agree with those of bitcoinjs-lib in
    both directions.
  \<^item> \<open>Bc_Tx\<close>, \<open>Bc_Sighash\<close> (\<open>lib/Transaction.js\<close>): wire format and signed message, both equal to those of
    bitcoinjs-lib; the signed message for the script as bitcoinjs-lib recompiles it.
  \<^item> \<open>Bc_Block\<close> (\<open>lib/Block.js\<close>): the header and parser, which agree with bitcoinjs-lib; the tree of
    transaction hashes, built level by level in one array, as a recursion on lists; \<open>checkBlock\<close> as the
    conjunction of what it checks; the sum of the rewards.
  \<^item> \<open>Bc_Interp\<close> (\<open>lib/ScriptInterpreter.js\<close>): the stack machine, opcode by opcode, and the verification of
    an input. \<open>Bc_Interp_Laws\<close>: the limits as an invariant of every step, and the loop as the closure of
    a step relation. \<open>Bc_Interp_Checks\<close>: signatures are DER, truth, what a multisignature check accepts.
    \<open>Bc_Interp_Verify\<close>: the limits of every run; the verification of pay-to-public-key-hash and
    pay-to-script-hash inputs over whole runs. \<open>Bc_Interp_Opcodes\<close>: the stack opcodes against a table of
    their effects, and what every accepted script satisfies as a text.
  \<^item> \<open>Spend\<close>: the two libraries together. What the builder of the one signs with the key pairs of \<open>Ec_Pair\<close>, the
    interpreter of the other accepts; every component above except the text forms takes part.

  \<^bold>\<open>bip39 and the SDK.\<close>
  \<^item> \<open>Bip39\<close>, \<open>Wordlist_En\<close> (\<open>bip39/index.js\<close>, \<open>wordlists/en.json\<close>): entropy as words. What a list of words
    has to promise is the interface \<open>word_list\<close>; the English list is checked against it by its
    alphabetical order.
  \<^item> \<open>Sdk_Crypto\<close> (\<open>encryption.js\<close>, \<open>encryption_mnemonic.js\<close>, \<open>keyderivation.js\<close>): encrypted secrets and
    their words, round trips in both directions.
  \<^item> \<open>Sdk_Size\<close>, \<open>Sdk_Fees\<close> (\<open>size_estimation.js\<close>, the estimates of \<open>wallet.js\<close>): the estimated size against
    the size of the signed transaction of theory \<open>Tx\<close>; fees in double arithmetic.
  \<^item> \<open>Sdk_Keys\<close> (\<open>wallet.js\<close>): key paths, the order of multisig keys.
  \<^item> \<open>Sdk_Pay\<close>, \<open>Sdk_Wallet\<close>, \<open>Sdk_Build\<close> (\<open>wallet.js\<close>): payments as outputs, and \<open>buildTransaction\<close> with its
    checks of what the service proposed. What it needs of a transaction builder is the interface
    \<open>tx_assembler\<close>, which the builder of theory \<open>Tx_Builder\<close> satisfies.

  The SDK uses a later version of bitcoinjs-lib, with segregated witness, that is not in the
  repository: its scripts, addresses and keys are records of functions (\<open>script_lib\<close>, \<open>pay_lib\<close>, \<open>hd_lib\<close>,
  \<open>assembler\<close>), instantiated with the bitcoinjs-lib of the repository where a property compares the two.
  The answers of the web service and the random source are arguments. Numbers inside the text of
  error messages are left out.

  \<^bold>\<open>Loops and bounds.\<close> The loops of the modelled code end and are total functions, by structure or by a
  measure, but for the two that draw numbers until one fits (\<open>nonce_loop\<close>, \<open>random_key\<close>), which are partial
  functions; there is no fuel. \<open>bufferput\<close> writes counts from 65536 on in forms other code does not read,
  so the statements about bitcore's signed message assume fewer inputs, outputs and script bytes. The
  checksum of a mnemonic has at most 256 bits, which is enough for 1024 bytes, 1020 of them besides
  the padding. Fees are exact for sizes below \<open>2^40\<close>.

  \<^bold>\<open>Not modelled.\<close> In bitcore: the network peers, the wallet keys, the payment protocol,
  text and JSON forms of scripts, transactions and blocks, and the code of opcodes that are always disabled.
  In the SDK: the requests to the service and the forwarding of their answers, unlocking and upgrading
  wallets, and the sweeper. The applications (views, controllers, storage), the code in other languages and the vendored and
  generated bundles are left aside.
\<close>

end
